(* ===== verification/Prelude.thy ===== *)
theory Prelude
  imports Main "HOL-Library.Word" "HOL-Library.List_Lexorder" "HOL-Library.AList"
    "HOL-Library.Multiset"
begin

text \<open>
  Shared material of the development: the machine types of the Rust sources, the pieces of the
  Rust standard library the sources use (saturating and checked \<open>usize\<close> arithmetic,
  \<open>div_ceil\<close>, \<open>Iterator::position\<close>, \<open>VecDeque::remove\<close>, \<open>as_chunks\<close>,
  \<open>collect::<Result<_, _>>\<close>, big-endian integer conversions), and the generic lemmas the
  component theories use.

  A \<open>usize\<close> is a \<^typ>\<open>nat\<close>; where the source saturates or checks, the bound
  \<open>usize_max\<close> of a 64-bit target is written out. A fixed-width wire integer is a word.
\<close>

unbundle bit_operations_syntax

named_theorems wire_simps
named_theorems inv_intros

section \<open>Types\<close>

type_synonym byte = "8 word"
type_synonym u16 = "16 word"
type_synonym u32 = "32 word"
type_synonym u64 = "64 word"
type_synonym usize = nat
type_synonym instant = nat
type_synonym duration = nat
type_synonym hash = "byte list"
type_synonym peer_id = "byte list"

text \<open>\<^verbatim>\<open>std::net::IpAddr\<close> as its octets, and \<^verbatim>\<open>SocketAddr\<close>.\<close>

datatype ip_addr = V4 "byte list" | V6 "byte list"

record socket_addr =
  ip :: ip_addr
  port :: u16

fun ip_ok :: "ip_addr \<Rightarrow> bool" where
  "ip_ok (V4 bs) = (length bs = 4)"
| "ip_ok (V6 bs) = (length bs = 16)"

definition is_v4 :: "socket_addr \<Rightarrow> bool" where
  "is_v4 a = (case ip a of V4 _ \<Rightarrow> True | V6 _ \<Rightarrow> False)"

fun is_unspecified :: "ip_addr \<Rightarrow> bool" where
  "is_unspecified (V4 bs) = list_all (\<lambda>b. b = 0) bs"
| "is_unspecified (V6 bs) = list_all (\<lambda>b. b = 0) bs"

section \<open>\<open>usize\<close> arithmetic\<close>

definition usize_max :: nat where
  "usize_max = 2 ^ 64 - 1"

definition saturating_add :: "nat \<Rightarrow> nat \<Rightarrow> nat" where
  "saturating_add a b = min (a + b) usize_max"

definition saturating_mul :: "nat \<Rightarrow> nat \<Rightarrow> nat" where
  "saturating_mul a b = min (a * b) usize_max"

definition checked_add :: "nat \<Rightarrow> nat \<Rightarrow> nat option" where
  "checked_add a b = (if a + b \<le> usize_max then Some (a + b) else None)"

definition checked_mul :: "nat \<Rightarrow> nat \<Rightarrow> nat option" where
  "checked_mul a b = (if a * b \<le> usize_max then Some (a * b) else None)"

text \<open>\<^verbatim>\<open>usize::div_ceil\<close>; the divisor is a non-zero constant at every call.\<close>

definition div_ceil :: "nat \<Rightarrow> nat \<Rightarrow> nat" where
  "div_ceil a b = (if a mod b = 0 then a div b else a div b + 1)"

lemma checked_add_Some [simp]: "checked_add a b = Some c \<longleftrightarrow> c = a + b \<and> a + b \<le> usize_max"
  by (auto simp: checked_add_def)

lemma checked_mul_Some [simp]: "checked_mul a b = Some c \<longleftrightarrow> c = a * b \<and> a * b \<le> usize_max"
  by (auto simp: checked_mul_def)

lemma div_ceil_0 [simp]: "div_ceil 0 b = 0"
  by (simp add: div_ceil_def)

lemma div_ceil_bounds:
  assumes "0 < b"
  shows "a \<le> div_ceil a b * b" and "0 < a \<Longrightarrow> (div_ceil a b - 1) * b < a"
proof -
  have eq: "a div b * b + a mod b = a" by (rule div_mult_mod_eq)
  have lt: "a mod b < b" using assms by simp
  have "a \<le> a div b * b + b" using eq lt by linarith
  then show "a \<le> div_ceil a b * b"
    using eq by (cases "a mod b = 0") (simp_all add: div_ceil_def)
  show "(div_ceil a b - 1) * b < a" if "0 < a"
  proof (cases "a mod b = 0")
    case True
    with eq that assms have q: "0 < a div b" "a div b * b = a"
      by (cases "a div b", simp_all)
    from True have "(div_ceil a b - 1) * b = a - b"
      using q by (simp add: div_ceil_def diff_mult_distrib)
    with that assms show ?thesis by simp
  next
    case False
    with eq have "a div b * b < a" by linarith
    with False show ?thesis by (simp add: div_ceil_def)
  qed
qed

lemma less_div_ceil_iff:
  assumes "0 < b"
  shows "k < div_ceil a b \<longleftrightarrow> k * b < a"
proof
  assume k: "k < div_ceil a b"
  then have "0 < a" by (cases a) auto
  from k have "k \<le> div_ceil a b - 1" by linarith
  then have "k * b \<le> (div_ceil a b - 1) * b" by (rule mult_le_mono1)
  with div_ceil_bounds(2) [OF assms \<open>0 < a\<close>] show "k * b < a" by linarith
next
  assume "k * b < a"
  with div_ceil_bounds(1) [OF assms, of a] have "k * b < div_ceil a b * b" by linarith
  then show "k < div_ceil a b" by simp
qed

section \<open>Lists\<close>

text \<open>\<^verbatim>\<open>iter().position(p)\<close>: the first index whose element satisfies \<open>p\<close>.\<close>

fun position :: "('a \<Rightarrow> bool) \<Rightarrow> 'a list \<Rightarrow> nat option" where
  "position p [] = None"
| "position p (x # xs) = (if p x then Some 0 else map_option Suc (position p xs))"

text \<open>\<^verbatim>\<open>VecDeque::remove(i)\<close>.\<close>

definition remove_at :: "nat \<Rightarrow> 'a list \<Rightarrow> 'a list" where
  "remove_at i xs = take i xs @ drop (Suc i) xs"

text \<open>\<^verbatim>\<open>slice.get(i)\<close>: out of range is \<open>None\<close>.\<close>

definition get_at :: "'a list \<Rightarrow> nat \<Rightarrow> 'a option" where
  "get_at xs i = (if i < length xs then Some (xs ! i) else None)"

text \<open>\<^verbatim>\<open>iter().map(f).collect::<Result<Vec<_>, _>>()\<close>: the first error wins.\<close>

fun collect_results :: "('a \<Rightarrow> 'e + 'b) \<Rightarrow> 'a list \<Rightarrow> 'e + 'b list" where
  "collect_results f [] = Inr []"
| "collect_results f (x # xs) =
     (case f x of Inl e \<Rightarrow> Inl e
      | Inr y \<Rightarrow> (case collect_results f xs of Inl e \<Rightarrow> Inl e | Inr ys \<Rightarrow> Inr (y # ys)))"

text \<open>\<^verbatim>\<open>slice.as_chunks::<N>().0\<close>: the full chunks of width \<open>n\<close>.\<close>

function chunks :: "nat \<Rightarrow> 'a list \<Rightarrow> 'a list list" where
  "chunks n xs = (if n = 0 \<or> length xs < n then [] else take n xs # chunks n (drop n xs))"
  by pat_completeness auto
termination
  by (relation "measure (\<lambda>(n, xs). length xs)") auto

declare chunks.simps [simp del]

text \<open>\<^verbatim>\<open>Vec::resize\<close> of a vector of options to at least \<open>n\<close> entries.\<close>

definition pad_to :: "nat \<Rightarrow> 'a \<Rightarrow> 'a list \<Rightarrow> 'a list" where
  "pad_to n d xs = xs @ replicate (n - length xs) d"

lemma position_Some:
  "position p xs = Some i \<Longrightarrow> i < length xs \<and> p (xs ! i) \<and> (\<forall>j < i. \<not> p (xs ! j))"
proof (induction xs arbitrary: i)
  case (Cons x xs)
  show ?case
  proof (cases "p x")
    case False
    with Cons.prems obtain k where "position p xs = Some k" "i = Suc k" by auto
    with Cons.IH [of k] False show ?thesis
      by (auto simp: nth_Cons split: nat.splits)
  qed (use Cons.prems in auto)
qed simp

lemma position_None: "position p xs = None \<longleftrightarrow> (\<forall>x \<in> set xs. \<not> p x)"
  by (induction xs) auto

lemma length_remove_at [simp]: "i < length xs \<Longrightarrow> length (remove_at i xs) = length xs - 1"
  by (auto simp: remove_at_def min_def)

lemma set_remove_at: "set (remove_at i xs) \<subseteq> set xs"
  by (auto simp: remove_at_def dest: in_set_takeD in_set_dropD)

lemma mset_remove_at: "i < length xs \<Longrightarrow> add_mset (xs ! i) (mset (remove_at i xs)) = mset xs"
proof -
  assume "i < length xs"
  then have "xs = take i xs @ xs ! i # drop (Suc i) xs" by (rule id_take_nth_drop)
  then have "mset xs = mset (take i xs @ xs ! i # drop (Suc i) xs)" by simp
  then show ?thesis by (simp add: remove_at_def)
qed

lemma distinct_map_remove_at:
  assumes "distinct (map f xs)" and "i < length xs"
  shows "distinct (map f (remove_at i xs))" and "f (xs ! i) \<notin> f ` set (remove_at i xs)"
proof -
  have "xs = take i xs @ xs ! i # drop (Suc i) xs" using assms(2) by (rule id_take_nth_drop)
  then have "distinct (map f (take i xs @ xs ! i # drop (Suc i) xs))" using assms(1) by simp
  then show "distinct (map f (remove_at i xs))" and "f (xs ! i) \<notin> f ` set (remove_at i xs)"
    by (auto simp: remove_at_def)
qed

lemma get_at_Some: "get_at xs i = Some x \<longleftrightarrow> i < length xs \<and> xs ! i = x"
  by (auto simp: get_at_def)

lemma collect_results_Inr_iff:
  "collect_results f xs = Inr ys \<longleftrightarrow> list_all2 (\<lambda>x y. f x = Inr y) xs ys"
proof (induction xs arbitrary: ys)
  case Nil
  then show ?case by auto
next
  case (Cons x xs)
  show ?case
  proof (cases "collect_results f xs")
    case (Inl e)
    with Cons.IH have "\<And>zs. \<not> list_all2 (\<lambda>x y. f x = Inr y) xs zs"
      by (metis Inl_Inr_False)
    with Inl show ?thesis by (auto simp: list_all2_Cons1 split: sum.splits)
  next
    case (Inr zs)
    with Cons.IH have "\<And>us. list_all2 (\<lambda>x y. f x = Inr y) xs us \<longleftrightarrow> us = zs"
      by (metis Inr_inject)
    with Inr show ?thesis by (auto simp: list_all2_Cons1 split: sum.splits)
  qed
qed

lemma collect_results_map [simp]:
  "(\<And>x. x \<in> set xs \<Longrightarrow> f (g x) = Inr x) \<Longrightarrow> collect_results f (map g xs) = Inr xs"
  by (induction xs) auto

lemma chunks_concat:
  assumes "0 < n" and "\<And>x. x \<in> set xs \<Longrightarrow> length x = n"
  shows "chunks n (concat xs) = xs"
  using assms(2)
proof (induction xs)
  case Nil
  show ?case using assms(1) by (simp add: chunks.simps)
next
  case (Cons x xs)
  then have "length x = n" and "chunks n (concat xs) = xs" by auto
  then show ?case using assms(1) by (simp add: chunks.simps [of n "x @ concat xs"])
qed

lemma concat_chunks:
  assumes "n dvd length xs"
  shows "concat (chunks n xs) = xs"
  using assms
proof (induction n xs rule: chunks.induct)
  case (1 n xs)
  show ?case
  proof (cases "n = 0 \<or> length xs < n")
    case True
    with "1.prems" have "xs = []" by (auto dest: dvd_imp_le)
    with True show ?thesis by (simp add: chunks.simps)
  next
    case False
    with "1.prems" have "n dvd length (drop n xs)" by simp
    with "1.IH" False have "concat (chunks n (drop n xs)) = drop n xs" by simp
    with False show ?thesis by (simp add: chunks.simps [of n xs])
  qed
qed

lemma length_in_chunks: "c \<in> set (chunks n xs) \<Longrightarrow> length c = n"
proof (induction n xs rule: chunks.induct)
  case (1 n xs)
  show ?case
  proof (cases "n = 0 \<or> length xs < n")
    case True
    with "1.prems" show ?thesis by (simp add: chunks.simps)
  next
    case False
    with "1.prems" have "c = take n xs \<or> c \<in> set (chunks n (drop n xs))"
      by (simp add: chunks.simps [of n xs])
    with "1.IH" False show ?thesis by auto
  qed
qed

lemma length_pad_to [simp]: "length (pad_to n d xs) = max n (length xs)"
  by (simp add: pad_to_def)

lemma nth_pad_to:
  "j < max n (length xs) \<Longrightarrow> pad_to n d xs ! j = (if j < length xs then xs ! j else d)"
  by (auto simp: pad_to_def nth_append)

lemma sorted_take: "sorted xs \<Longrightarrow> sorted (take n xs)"
  by (rule sorted_wrt_take)

lemma set_alist_update: "set (AList.update k v al) \<subseteq> insert (k, v) (set al)"
  by (induction al) auto

lemma set_map_filter: "set (List.map_filter f xs) = {y. \<exists>x \<in> set xs. f x = Some y}"
  by (induction xs) (auto split: option.splits)

lemma map_filter_append: "List.map_filter f (xs @ ys) = List.map_filter f xs @ List.map_filter f ys"
  by (simp add: List.map_filter_def)

section \<open>Big-endian integers\<close>

text \<open>
  \<^verbatim>\<open>to_be_bytes\<close>, \<^verbatim>\<open>put_u16\<close>, \<^verbatim>\<open>put_u32\<close> and \<^verbatim>\<open>put_u64\<close> are \<open>be_bytes n\<close> for
  \<open>n\<close> = 2, 4, 8; \<^verbatim>\<open>from_be_bytes\<close>, \<^verbatim>\<open>get_u16\<close>, \<^verbatim>\<open>get_u32\<close>, \<^verbatim>\<open>get_u64\<close> are \<open>be_val\<close>.
\<close>

fun be_bytes :: "nat \<Rightarrow> 'a::len word \<Rightarrow> byte list" where
  "be_bytes 0 w = []"
| "be_bytes (Suc n) w = be_bytes n (drop_bit 8 w) @ [ucast w]"

definition be_val :: "byte list \<Rightarrow> 'a::len word" where
  "be_val bs = foldl (\<lambda>acc b. push_bit 8 acc OR ucast b) 0 bs"

lemma length_be_bytes [simp]: "length (be_bytes n w) = n"
  by (induction n arbitrary: w) auto

lemma be_val_Nil [simp]: "be_val [] = 0"
  by (simp add: be_val_def)

lemma be_val_snoc [simp]: "be_val (bs @ [b]) = push_bit 8 (be_val bs) OR ucast b"
  by (simp add: be_val_def)

lemma join_low_byte:
  fixes w :: "'a::len word"
  shows "push_bit 8 (take_bit n (drop_bit 8 w)) OR ucast (ucast w :: byte) = take_bit (n + 8) w"
  by (rule bit_word_eqI) (auto simp: bit_simps not_le dest: bit_imp_le_length)

lemma be_val_be_bytes: "be_val (be_bytes n w) = take_bit (8 * n) (w :: 'a::len word)"
proof (induction n arbitrary: w)
  case (Suc n)
  show ?case
    using join_low_byte [of "8 * n" w] by (simp add: Suc.IH add.commute)
qed simp

lemma be_roundtrip [wire_simps]:
  fixes w :: "'a::len word"
  assumes "LENGTH('a) \<le> 8 * n"
  shows "be_val (be_bytes n w) = w"
  using assms by (simp add: be_val_be_bytes take_bit_word_eq_self)

lemma bit_be_val_bound:
  "bit (be_val bs :: 'a::len word) i \<Longrightarrow> i < 8 * length bs"
proof (induction bs arbitrary: i rule: rev_induct)
  case (snoc b bs)
  show ?case
  proof (cases "i < 8")
    case False
    with snoc.prems have "bit (be_val bs :: 'a word) (i - 8)"
      by (auto simp: bit_simps dest: bit_imp_le_length)
    then have "i - 8 < 8 * length bs" by (rule snoc.IH)
    then show ?thesis using False by simp
  qed simp
qed (simp add: bit_simps)

lemma be_bytes_be_val [wire_simps]:
  assumes "8 * length bs \<le> LENGTH('a)"
  shows "be_bytes (length bs) (be_val bs :: 'a::len word) = bs"
  using assms
proof (induction bs rule: rev_induct)
  case (snoc b bs)
  have drop: "drop_bit 8 (push_bit 8 (be_val bs) OR ucast b) = (be_val bs :: 'a word)"
  proof (rule bit_word_eqI)
    fix k
    assume "k < LENGTH('a)"
    show "bit (drop_bit 8 (push_bit 8 (be_val bs) OR ucast b) :: 'a word) k
        = bit (be_val bs :: 'a word) k"
      using bit_be_val_bound [of bs k, where ?'a = 'a] snoc.prems
      by (auto simp: bit_simps dest: bit_imp_le_length)
  qed
  have low: "ucast (push_bit 8 (be_val bs) OR ucast b :: 'a word) = b"
    using snoc.prems by (intro bit_word_eqI) (auto simp: bit_simps)
  have "be_bytes (length (bs @ [b])) (be_val (bs @ [b]) :: 'a word)
      = be_bytes (length bs) (be_val bs :: 'a word) @ [b]"
    by (simp only: length_append_singleton be_bytes.simps be_val_snoc drop low)
  with snoc show ?case by simp
qed simp

end
