(* ===== verification/Dht_Id.thy ===== *)
theory Dht_Id
  imports Prelude
begin

text \<open>
  Node identifiers and the XOR metric, \<^verbatim>\<open>dht/id.rs\<close>. A \<^verbatim>\<open>NodeId\<close> wraps a \<^verbatim>\<open>Hash<20>\<close>: it is a
  byte list, and \<open>id_ok\<close> says that it has the 20 bytes the Rust type guarantees. A
  \<^verbatim>\<open>Distance\<close> is the byte array it wraps, ordered lexicographically as Rust orders arrays.

  The abstract side reads an identifier as the 160-bit number it encodes; the lemmas show that
  the byte-wise code computes exclusive or and the position of the highest set bit of that
  number.
\<close>

type_synonym node_id = hash
type_synonym dht_distance = "byte list"

definition DHT_ID_LEN :: nat where
  "DHT_ID_LEN = 20"

definition id_ok :: "node_id \<Rightarrow> bool" where
  "id_ok n = (length n = DHT_ID_LEN)"

section \<open>Operations\<close>

definition distance :: "node_id \<Rightarrow> node_id \<Rightarrow> dht_distance" where
  "distance self other = map2 (\<lambda>left right. left XOR right) self other"

text \<open>\<^verbatim>\<open>NodeId::try_from(&[u8])\<close> through \<^verbatim>\<open>Hash::try_from(Vec<u8>)\<close>.\<close>

definition node_id_try_from :: "byte list \<Rightarrow> string + node_id" where
  "node_id_try_from bytes =
     (if length bytes \<noteq> DHT_ID_LEN then Inl ''unexpected length'' else Inr bytes)"

text \<open>\<^verbatim>\<open>u8::leading_zeros\<close>: the bits above the highest set one.\<close>

fun highest_bit_below :: "nat \<Rightarrow> byte \<Rightarrow> nat option" where
  "highest_bit_below 0 b = None"
| "highest_bit_below (Suc n) b = (if bit b n then Some n else highest_bit_below n b)"

definition leading_zeros_u8 :: "byte \<Rightarrow> nat" where
  "leading_zeros_u8 b = (case highest_bit_below 8 b of None \<Rightarrow> 8 | Some i \<Rightarrow> 7 - i)"

text \<open>The loop of \<^verbatim>\<open>Distance::bucket_index\<close>, at byte number \<open>byte_index\<close>.\<close>

fun bucket_index_from :: "nat \<Rightarrow> byte list \<Rightarrow> nat option" where
  "bucket_index_from byte_index [] = None"
| "bucket_index_from byte_index (b # bs) =
     (if b \<noteq> 0
      then let significant_bit = 7 - leading_zeros_u8 b
           in Some ((DHT_ID_LEN - 1 - byte_index) * 8 + significant_bit)
      else bucket_index_from (Suc byte_index) bs)"

definition bucket_index :: "dht_distance \<Rightarrow> nat option" where
  "bucket_index d = bucket_index_from 0 d"

section \<open>The XOR metric\<close>

lemma length_distance [simp]: "length (distance a b) = min (length a) (length b)"
  by (simp add: distance_def)

lemma id_ok_length: "id_ok a \<Longrightarrow> length a = DHT_ID_LEN"
  by (simp add: id_ok_def)

lemma distance_commute: "distance a b = distance b a"
  by (auto simp: distance_def list_eq_iff_nth_eq xor.commute)

lemma nth_distance: "i < length a \<Longrightarrow> i < length b \<Longrightarrow> distance a b ! i = a ! i XOR b ! i"
  by (simp add: distance_def)

lemma distance_self: "distance a a = replicate (length a) 0"
  by (simp add: distance_def list_eq_iff_nth_eq)

lemma xor_left_cancel: "(t :: 'a::len word) XOR a = t XOR b \<longleftrightarrow> a = b"
  by (auto simp: bit_eq_iff bit_xor_iff)

lemma xor_eq_0_iff: "(a :: 'a::len word) XOR b = 0 \<longleftrightarrow> a = b"
  using xor_left_cancel [of a b a] by auto

lemma distance_zero_iff:
  assumes "length a = length b"
  shows "distance a b = replicate (length a) 0 \<longleftrightarrow> a = b"
proof
  assume eq: "distance a b = replicate (length a) 0"
  show "a = b"
  proof (rule nth_equalityI)
    fix i
    assume "i < length a"
    with eq assms have "a ! i XOR b ! i = 0"
      using nth_distance [of i a b] by simp
    then show "a ! i = b ! i" by (simp add: xor_eq_0_iff)
  qed (fact assms)
qed (simp add: distance_self)

text \<open>Unidirectionality: the distance and one endpoint determine the other endpoint.\<close>

lemma distance_cancel:
  assumes "length a = length t" and "length b = length t" and "distance t a = distance t b"
  shows "a = b"
proof (rule nth_equalityI)
  fix i
  assume "i < length a"
  with assms have "t ! i XOR a ! i = t ! i XOR b ! i"
    using nth_distance [of i t a] nth_distance [of i t b] by simp
  then show "a ! i = b ! i" by (simp only: xor_left_cancel)
qed (use assms in simp)

lemma distance_inj_on: "inj_on (distance t) {a. length a = length t}"
  by (auto intro: inj_onI distance_cancel)

section \<open>Bucket indices\<close>

lemma highest_bit_below_Some:
  "highest_bit_below n b = Some i \<Longrightarrow> i < n \<and> bit b i \<and> (\<forall>j. i < j \<and> j < n \<longrightarrow> \<not> bit b j)"
  by (induction n) (auto split: if_splits simp: less_Suc_eq)

lemma highest_bit_below_None: "highest_bit_below n b = None \<longleftrightarrow> (\<forall>j < n. \<not> bit b j)"
  by (induction n) (auto simp: less_Suc_eq)

lemma highest_bit_byte: "b \<noteq> 0 \<Longrightarrow> \<exists>i < 8. highest_bit_below 8 b = Some i"
proof -
  assume "b \<noteq> 0"
  then have "\<exists>j < 8. bit b j" by (auto simp: bit_eq_iff dest: bit_imp_le_length)
  then have "highest_bit_below 8 b \<noteq> None" by (auto simp: highest_bit_below_None)
  then show ?thesis by (auto dest: highest_bit_below_Some)
qed

text \<open>The significant bit of a non-zero byte is the binary logarithm of its value.\<close>

lemma byte_log_bounds:
  fixes b :: byte
  assumes "bit b i" and "\<And>j. i < j \<Longrightarrow> j < 8 \<Longrightarrow> \<not> bit b j"
  shows "2 ^ i \<le> unat b" and "unat b < 2 ^ Suc i"
proof -
  have i: "i < 8" using assms(1) by (auto dest: bit_imp_le_length)
  have "take_bit (Suc i) b = b"
  proof (rule bit_word_eqI)
    fix k
    assume "k < LENGTH(8)"
    then show "bit (take_bit (Suc i) b) k = bit b k"
      using assms(2) [of k] by (auto simp: bit_take_bit_iff less_Suc_eq_le not_less [symmetric])
  qed
  then have "unat b = take_bit (Suc i) (unat b)" by (metis unsigned_take_bit_eq)
  then show "unat b < 2 ^ Suc i" by (metis take_bit_nat_less_exp)
  have "bit (unat b) i" using assms(1) by (simp add: bit_unsigned_iff)
  then have "odd (unat b div 2 ^ i)" by (simp add: bit_iff_odd)
  then have "unat b div 2 ^ i \<noteq> 0" by (metis even_zero)
  then show "2 ^ i \<le> unat b" by (simp add: div_eq_0_iff)
qed

lemma significant_bit_bounds:
  assumes "b \<noteq> 0"
  shows "7 - leading_zeros_u8 b < 8"
    and "2 ^ (7 - leading_zeros_u8 b) \<le> unat b" and "unat b < 2 ^ Suc (7 - leading_zeros_u8 b)"
proof -
  obtain i where i: "i < 8" "highest_bit_below 8 b = Some i"
    using highest_bit_byte [OF assms] by auto
  then have eq: "7 - leading_zeros_u8 b = i" by (simp add: leading_zeros_u8_def)
  from i(2) have "bit b i" "\<And>j. i < j \<Longrightarrow> j < 8 \<Longrightarrow> \<not> bit b j"
    using highest_bit_below_Some by blast+
  with i(1) byte_log_bounds [of b i] show "7 - leading_zeros_u8 b < 8"
    and "2 ^ (7 - leading_zeros_u8 b) \<le> unat b" and "unat b < 2 ^ Suc (7 - leading_zeros_u8 b)"
    by (simp_all add: eq)
qed

text \<open>An identifier as the big-endian number of its bytes.\<close>

fun be_nat :: "byte list \<Rightarrow> nat" where
  "be_nat [] = 0"
| "be_nat (b # bs) = unat b * 256 ^ length bs + be_nat bs"

lemma be_nat_less: "be_nat bs < 256 ^ length bs"
proof (induction bs)
  case (Cons b bs)
  have "unat b < 256" using unsigned_less [of b, where ?'a = nat] by simp
  then have "unat b + 1 \<le> 256" by simp
  then have "(unat b + 1) * 256 ^ length bs \<le> 256 * 256 ^ length bs" by (rule mult_le_mono1)
  then have "unat b * 256 ^ length bs + 256 ^ length bs \<le> 256 * 256 ^ length bs"
    by (simp only: add_mult_distrib mult_1)
  with Cons.IH have "unat b * 256 ^ length bs + be_nat bs < 256 * 256 ^ length bs" by linarith
  then show ?case by simp
qed simp

lemma be_nat_inj: "length a = length b \<Longrightarrow> be_nat a = be_nat b \<Longrightarrow> a = b"
proof (induction a b rule: list_induct2)
  case (Cons x xs y ys)
  let ?m = "256 ^ length xs :: nat"
  have lx: "be_nat xs < ?m" and ly: "be_nat ys < ?m"
    using be_nat_less [of xs] be_nat_less [of ys] Cons.hyps by simp_all
  have eq: "unat x * ?m + be_nat xs = unat y * ?m + be_nat ys"
    using Cons.prems Cons.hyps by simp
  then have "(unat x * ?m + be_nat xs) div ?m = (unat y * ?m + be_nat ys) div ?m" by simp
  with lx ly have "unat x = unat y" by simp
  with eq Cons.IH show ?case by (simp add: word_unat_eq_iff)
qed simp

text \<open>The lexicographic order of byte arrays is the order of the numbers they encode.\<close>

lemma lex_less_iff_be_nat: "length a = length b \<Longrightarrow> a < b \<longleftrightarrow> be_nat a < be_nat b"
proof (induction a b rule: list_induct2)
  case (Cons x xs y ys)
  let ?m = "256 ^ length xs :: nat"
  have lx: "be_nat xs < ?m" and ly: "be_nat ys < ?m"
    using be_nat_less [of xs] be_nat_less [of ys] Cons.hyps by simp_all
  have lt: "u * ?m + p < v * ?m + q" if "u < v" "p < ?m" for u v p q :: nat
  proof -
    from that(1) have "(u + 1) * ?m \<le> v * ?m" by (intro mult_le_mono1) simp
    with that(2) show ?thesis by simp
  qed
  consider "unat x < unat y" | "unat x = unat y" | "unat y < unat x" by linarith
  then show ?case
  proof cases
    case 1
    with lt [OF 1 lx, of "be_nat ys"] show ?thesis
      using Cons.hyps by (simp add: word_less_nat_alt)
  next
    case 2
    then have "x = y" by (simp add: word_unat_eq_iff)
    with Cons show ?thesis by simp
  next
    case 3
    with lt [OF 3 ly, of "be_nat xs"] show ?thesis
      using Cons.hyps by (auto simp: word_less_nat_alt)
  qed
qed simp

lemma lex_le_iff_be_nat: "length a = length b \<Longrightarrow> a \<le> b \<longleftrightarrow> be_nat a \<le> be_nat b"
  using lex_less_iff_be_nat [of b a] by (simp add: not_less [symmetric])

lemma bucket_index_from_None: "bucket_index_from k bs = None \<longleftrightarrow> bs = replicate (length bs) 0"
  by (induction bs arbitrary: k) (auto simp: Let_def)

lemma be_nat_zeros [simp]: "be_nat (replicate n 0) = 0"
  by (induction n) auto

text \<open>The loop computes the binary logarithm of the big-endian number.\<close>

lemma bucket_index_from_log:
  assumes "bucket_index_from k bs = Some i" and "length bs + k = DHT_ID_LEN"
  shows "2 ^ i \<le> be_nat bs \<and> be_nat bs < 2 ^ Suc i"
  using assms
proof (induction bs arbitrary: k)
  case (Cons b bs)
  show ?case
  proof (cases "b = 0")
    case True
    with Cons.prems have "2 ^ i \<le> be_nat bs \<and> be_nat bs < 2 ^ Suc i"
      by (intro Cons.IH [of "Suc k"]) auto
    with True show ?thesis by simp
  next
    case False
    let ?s = "7 - leading_zeros_u8 b"
    have i: "i = length bs * 8 + ?s"
    proof -
      from Cons.prems False have "i = (DHT_ID_LEN - 1 - k) * 8 + ?s" by (simp add: Let_def)
      moreover have "DHT_ID_LEN - 1 - k = length bs" using Cons.prems(2) by simp
      ultimately show ?thesis by simp
    qed
    have m: "(256 :: nat) ^ length bs = 2 ^ (length bs * 8)"
      using power_mult [of "2 :: nat" 8 "length bs"] by (simp add: mult.commute)
    note sb = significant_bit_bounds [OF False]
    have up: "(unat b + 1) * 256 ^ length bs \<le> 2 ^ Suc ?s * 256 ^ length bs"
      using sb(3) by (intro mult_le_mono1) simp
    have low: "2 ^ ?s * 256 ^ length bs \<le> unat b * 256 ^ length bs"
      using sb(2) by (rule mult_le_mono1)
    have e1: "2 ^ i = (2 :: nat) ^ ?s * 256 ^ length bs" by (simp add: i m power_add)
    have e2: "2 ^ Suc i = (2 :: nat) ^ Suc ?s * 256 ^ length bs" by (simp add: e1)
    have "unat b * 256 ^ length bs + 256 ^ length bs \<le> 2 ^ Suc ?s * 256 ^ length bs"
      using up by (simp only: add_mult_distrib mult_1)
    with low be_nat_less [of bs] show ?thesis
      unfolding e1 e2 be_nat.simps by linarith
  qed
qed simp

lemma bucket_index_from_bound:
  assumes "bucket_index_from k bs = Some i" and "length bs + k = DHT_ID_LEN"
  shows "i < 160"
proof -
  have "2 ^ i \<le> be_nat bs" using bucket_index_from_log [OF assms] by simp
  also have "\<dots> < 256 ^ length bs" by (rule be_nat_less)
  also have "\<dots> \<le> (256 :: nat) ^ 20"
    using assms(2) by (intro power_increasing) (auto simp: DHT_ID_LEN_def)
  finally have "(2 :: nat) ^ i < 2 ^ 160" by simp
  then show ?thesis by (rule power_less_imp_less_exp [rotated]) simp
qed

lemma bucket_index_Some_bound:
  "bucket_index d = Some i \<Longrightarrow> length d = DHT_ID_LEN \<Longrightarrow> i < 160"
  unfolding bucket_index_def by (rule bucket_index_from_bound) auto

lemma bucket_index_None_iff:
  "id_ok a \<Longrightarrow> id_ok b \<Longrightarrow> bucket_index (distance a b) = None \<longleftrightarrow> a = b"
  using distance_zero_iff [of a b]
  by (simp add: bucket_index_def bucket_index_from_None id_ok_def)

end
