(* ===== verification/Codec.thy ===== *)
theory Codec
  imports Prelude
begin

text \<open>
  The interface of a fixed-width binary record format: an encoder, a partial decoder and the
  width, with the two laws a format owes. The lemmas lift the laws to the concatenated sequences
  the BitTorrent compact formats are made of. It is interpreted for the 20-byte hashes of a torrent, the 26-byte compact node and
  the 6-byte compact peer of the DHT, and for the 6-byte peers of UDP tracker responses.
\<close>

locale fixed_codec =
  fixes enc :: "'a \<Rightarrow> byte list"
    and dec :: "byte list \<Rightarrow> 'e + 'a"
    and ok :: "'a \<Rightarrow> bool"
    and width :: nat
  assumes width_pos: "0 < width"
    and enc_length: "ok x \<Longrightarrow> length (enc x) = width"
    and dec_enc: "ok x \<Longrightarrow> dec (enc x) = Inr x"
    and enc_dec: "length bs = width \<Longrightarrow> \<exists>x. dec bs = Inr x \<and> ok x \<and> enc x = bs"
begin

lemma chunks_enc: "list_all ok xs \<Longrightarrow> chunks width (concat (map enc xs)) = map enc xs"
  using width_pos by (intro chunks_concat) (auto simp: enc_length list_all_iff)

lemma length_seq: "list_all ok xs \<Longrightarrow> length (concat (map enc xs)) = width * length xs"
  by (induction xs) (auto simp: enc_length)

lemma collect_enc: "list_all ok xs \<Longrightarrow> collect_results dec (map enc xs) = Inr xs"
  by (rule collect_results_map) (auto simp: dec_enc list_all_iff)

lemma seq_roundtrip:
  "list_all ok xs \<Longrightarrow> collect_results dec (chunks width (concat (map enc xs))) = Inr xs"
  by (simp add: chunks_enc collect_enc)

lemma collect_widths:
  "list_all (\<lambda>b. length b = width) bss
    \<Longrightarrow> \<exists>xs. collect_results dec bss = Inr xs \<and> list_all ok xs \<and> map enc xs = bss"
proof (induction bss)
  case (Cons b bss)
  then obtain xs where xs: "collect_results dec bss = Inr xs" "list_all ok xs" "map enc xs = bss"
    by auto
  obtain x where x: "dec b = Inr x" "ok x" "enc x = b"
    using enc_dec [of b] Cons.prems by auto
  show ?case
    using x xs by (intro exI [of _ "x # xs"]) simp
qed simp

lemma seq_inverse:
  assumes "width dvd length bs"
  shows "\<exists>xs. collect_results dec (chunks width bs) = Inr xs \<and> list_all ok xs \<and> concat (map enc xs) = bs"
proof -
  have "list_all (\<lambda>b. length b = width) (chunks width bs)"
    by (auto simp: list_all_iff length_in_chunks)
  then obtain xs where "collect_results dec (chunks width bs) = Inr xs" "list_all ok xs"
    "map enc xs = chunks width bs"
    using collect_widths by blast
  with assms show ?thesis by (auto simp: concat_chunks)
qed

end

end
