(* ===== verification/Dht_Compact.thy ===== *)
theory Dht_Compact
  imports Dht_Id Codec
begin

text \<open>
  BEP 5 compact node and peer information, \<^verbatim>\<open>dht/compact.rs\<close>: contacts, the encoders, which skip
  IPv6 endpoints, and the decoders, which reject lengths that are not a multiple of the record.
\<close>

definition IPV4_LEN :: nat where "IPV4_LEN = 4"
definition PORT_LEN :: nat where "PORT_LEN = 2"
definition COMPACT_NODE_LEN :: nat where "COMPACT_NODE_LEN = DHT_ID_LEN + IPV4_LEN + PORT_LEN"
definition COMPACT_PEER_LEN :: nat where "COMPACT_PEER_LEN = IPV4_LEN + PORT_LEN"

lemmas compact_lens = IPV4_LEN_def PORT_LEN_def COMPACT_NODE_LEN_def COMPACT_PEER_LEN_def DHT_ID_LEN_def

record contact =
  contact_id :: node_id
  contact_addr :: socket_addr

definition mk_contact :: "node_id \<Rightarrow> socket_addr \<Rightarrow> contact" where
  "mk_contact i a = \<lparr>contact_id = i, contact_addr = a\<rparr>"

definition addr_ok :: "socket_addr \<Rightarrow> bool" where
  "addr_ok a = ip_ok (ip a)"

definition contact_ok :: "contact \<Rightarrow> bool" where
  "contact_ok c = (id_ok (contact_id c) \<and> addr_ok (contact_addr c))"

section \<open>Operations\<close>

fun encode_nodes :: "contact list \<Rightarrow> byte list" where
  "encode_nodes [] = []"
| "encode_nodes (c # cs) =
     (case ip (contact_addr c) of
        V6 _ \<Rightarrow> encode_nodes cs
      | V4 octets \<Rightarrow>
          contact_id c @ octets @ be_bytes 2 (port (contact_addr c)) @ encode_nodes cs)"

definition decode_node :: "byte list \<Rightarrow> string + contact" where
  "decode_node node =
     (case node_id_try_from (take DHT_ID_LEN node) of
        Inl e \<Rightarrow> Inl e
      | Inr i \<Rightarrow>
          let ip_offset = DHT_ID_LEN;
              port_offset = ip_offset + IPV4_LEN;
              v4 = V4 [node ! ip_offset, node ! (ip_offset + 1), node ! (ip_offset + 2),
                       node ! (ip_offset + 3)];
              p = be_val [node ! port_offset, node ! (port_offset + 1)]
          in Inr (mk_contact i \<lparr>ip = v4, port = p\<rparr>))"

definition decode_nodes :: "byte list \<Rightarrow> string + contact list" where
  "decode_nodes bytes =
     (if length bytes mod COMPACT_NODE_LEN \<noteq> 0
      then Inl ''compact DHT nodes must be a multiple of 26 bytes''
      else collect_results decode_node (chunks COMPACT_NODE_LEN bytes))"

definition encode_peer :: "socket_addr \<Rightarrow> byte list option" where
  "encode_peer peer =
     (case ip peer of V6 _ \<Rightarrow> None | V4 octets \<Rightarrow> Some (octets @ be_bytes 2 (port peer)))"

definition encode_peers :: "socket_addr list \<Rightarrow> byte list list" where
  "encode_peers peers = List.map_filter encode_peer peers"

definition decode_peer :: "byte list \<Rightarrow> string + socket_addr" where
  "decode_peer peer =
     (if length peer \<noteq> COMPACT_PEER_LEN
      then Inl ''compact DHT peers must contain exactly 6 bytes''
      else Inr \<lparr>ip = V4 [peer ! 0, peer ! 1, peer ! 2, peer ! 3],
                port = be_val [peer ! 4, peer ! 5]\<rparr>)"

definition decode_peers :: "byte list list \<Rightarrow> string + socket_addr list" where
  "decode_peers values = collect_results decode_peer values"

section \<open>One record\<close>

definition v4_addr_ok :: "socket_addr \<Rightarrow> bool" where
  "v4_addr_ok a = (is_v4 a \<and> addr_ok a)"

definition v4_contact_ok :: "contact \<Rightarrow> bool" where
  "v4_contact_ok c = (id_ok (contact_id c) \<and> v4_addr_ok (contact_addr c))"

fun v4_octets :: "ip_addr \<Rightarrow> byte list" where
  "v4_octets (V4 bs) = bs"
| "v4_octets (V6 bs) = bs"

definition enc_peer :: "socket_addr \<Rightarrow> byte list" where
  "enc_peer a = v4_octets (ip a) @ be_bytes 2 (port a)"

definition enc_node :: "contact \<Rightarrow> byte list" where
  "enc_node c = contact_id c @ enc_peer (contact_addr c)"

lemma v4_addr_cases:
  assumes "v4_addr_ok a"
  obtains a0 a1 a2 a3 where "ip a = V4 [a0, a1, a2, a3]"
proof -
  from assms obtain bs where bs: "ip a = V4 bs" "length bs = 4"
    by (auto simp: v4_addr_ok_def is_v4_def addr_ok_def split: ip_addr.splits)
  then obtain a0 a1 a2 a3 where "bs = [a0, a1, a2, a3]"
    by (auto simp: numeral_eq_Suc length_Suc_conv)
  with bs that show ?thesis by blast
qed

lemma be2: "be_bytes 2 (w :: u16) = [ucast (drop_bit 8 w), ucast w]"
  by (simp add: numeral_2_eq_2)

lemma be2_val: "be_val [ucast (drop_bit 8 w), ucast w] = (w :: u16)"
  using be_roundtrip [of 2 w] by (simp add: be2)

lemma be2_bytes: "be_bytes 2 (be_val [a, b] :: u16) = [a, b]"
  using be_bytes_be_val [of "[a, b]", where ?'a = 16] by (simp add: numeral_2_eq_2)

interpretation peer_codec: fixed_codec enc_peer decode_peer v4_addr_ok COMPACT_PEER_LEN
proof
  show "0 < COMPACT_PEER_LEN" by (simp add: compact_lens)
next
  fix a assume "v4_addr_ok a"
  then show "length (enc_peer a) = COMPACT_PEER_LEN"
    by (elim v4_addr_cases) (simp add: enc_peer_def compact_lens)
next
  fix a assume "v4_addr_ok a"
  then show "decode_peer (enc_peer a) = Inr a"
    by (elim v4_addr_cases) (simp add: enc_peer_def decode_peer_def compact_lens be2 be2_val)
next
  fix bs :: "byte list" assume "length bs = COMPACT_PEER_LEN"
  then obtain a b c d e f where bs: "bs = [a, b, c, d, e, f]"
    by (auto simp: compact_lens numeral_eq_Suc length_Suc_conv)
  then show "\<exists>x. decode_peer bs = Inr x \<and> v4_addr_ok x \<and> enc_peer x = bs"
    by (simp add: decode_peer_def compact_lens v4_addr_ok_def is_v4_def addr_ok_def enc_peer_def be2_bytes)
qed

lemma decode_node_append:
  assumes "length i = DHT_ID_LEN" and "length p = COMPACT_PEER_LEN"
  shows "decode_node (i @ p) = map_sum (\<lambda>e. e) (mk_contact i) (decode_peer p)"
  using assms by (simp add: decode_node_def node_id_try_from_def decode_peer_def nth_append compact_lens)

interpretation node_codec: fixed_codec enc_node decode_node v4_contact_ok COMPACT_NODE_LEN
proof
  show "0 < COMPACT_NODE_LEN" by (simp add: compact_lens)
next
  fix c assume "v4_contact_ok c"
  then show "length (enc_node c) = COMPACT_NODE_LEN"
    using peer_codec.enc_length [of "contact_addr c"]
    by (simp add: enc_node_def v4_contact_ok_def id_ok_def COMPACT_NODE_LEN_def COMPACT_PEER_LEN_def)
next
  fix c assume "v4_contact_ok c"
  then show "decode_node (enc_node c) = Inr c"
    using peer_codec.enc_length [of "contact_addr c"] peer_codec.dec_enc [of "contact_addr c"]
    by (simp add: enc_node_def v4_contact_ok_def id_ok_def decode_node_append mk_contact_def)
next
  fix bs :: "byte list" assume len: "length bs = COMPACT_NODE_LEN"
  let ?i = "take DHT_ID_LEN bs" and ?p = "drop DHT_ID_LEN bs"
  have li: "length ?i = DHT_ID_LEN" and lp: "length ?p = COMPACT_PEER_LEN"
    using len by (simp_all add: compact_lens)
  obtain a where a: "decode_peer ?p = Inr a" "v4_addr_ok a" "enc_peer a = ?p"
    using peer_codec.enc_dec [OF lp] by blast
  have "decode_node bs = Inr (mk_contact ?i a)"
    using decode_node_append [OF li lp] a(1) by simp
  moreover have "v4_contact_ok (mk_contact ?i a)" "enc_node (mk_contact ?i a) = bs"
    using a li by (simp_all add: v4_contact_ok_def id_ok_def mk_contact_def enc_node_def)
  ultimately show "\<exists>x. decode_node bs = Inr x \<and> v4_contact_ok x \<and> enc_node x = bs" by blast
qed

section \<open>Sequences\<close>

lemma encode_nodes_concat:
  "encode_nodes cs = concat (map enc_node (filter (\<lambda>c. is_v4 (contact_addr c)) cs))"
  by (induction cs) (auto simp: enc_node_def enc_peer_def is_v4_def split: ip_addr.splits)

lemma encode_peers_map: "encode_peers ps = map enc_peer (filter is_v4 ps)"
  by (induction ps)
    (auto simp: encode_peers_def encode_peer_def enc_peer_def is_v4_def
      split: ip_addr.splits)

lemma v4_contacts_ok:
  "list_all contact_ok cs \<Longrightarrow> list_all v4_contact_ok (filter (\<lambda>c. is_v4 (contact_addr c)) cs)"
  by (auto simp: list_all_iff contact_ok_def v4_contact_ok_def v4_addr_ok_def)

lemma v4_addrs_ok: "list_all addr_ok ps \<Longrightarrow> list_all v4_addr_ok (filter is_v4 ps)"
  by (auto simp: list_all_iff v4_addr_ok_def)

text \<open>
  Decoding what \<^verbatim>\<open>encode_nodes\<close> writes gives back exactly the IPv4 contacts, in order; the
  IPv6 contacts are the only ones dropped.
\<close>

theorem decode_encode_nodes:
  assumes "list_all contact_ok cs"
  shows "decode_nodes (encode_nodes cs) = Inr (filter (\<lambda>c. is_v4 (contact_addr c)) cs)"
  using node_codec.seq_roundtrip [OF v4_contacts_ok [OF assms]]
    node_codec.length_seq [OF v4_contacts_ok [OF assms]]
  by (simp add: decode_nodes_def encode_nodes_concat)

theorem decode_encode_nodes_witness:
  "decode_nodes (encode_nodes
     [mk_contact (replicate 20 1) \<lparr>ip = V4 [127, 0, 0, 1], port = 6881\<rparr>,
      mk_contact (replicate 20 2) \<lparr>ip = V6 (replicate 16 7), port = 1\<rparr>,
      mk_contact (replicate 20 3) \<lparr>ip = V4 [10, 0, 0, 2], port = 51413\<rparr>])
   = Inr [mk_contact (replicate 20 1) \<lparr>ip = V4 [127, 0, 0, 1], port = 6881\<rparr>,
          mk_contact (replicate 20 3) \<lparr>ip = V4 [10, 0, 0, 2], port = 51413\<rparr>]"
  by (subst decode_encode_nodes)
    (simp_all add: contact_ok_def id_ok_def addr_ok_def mk_contact_def DHT_ID_LEN_def is_v4_def)

text \<open>
  \<^verbatim>\<open>decode_nodes\<close> accepts a byte string exactly when its length is a multiple of 26, and then
  encoding the contacts it returns gives the same bytes.
\<close>

theorem decode_nodes_exact:
  "(\<exists>cs. decode_nodes bytes = Inr cs \<and> encode_nodes cs = bytes) \<longleftrightarrow> 26 dvd length bytes"
proof
  assume "\<exists>cs. decode_nodes bytes = Inr cs \<and> encode_nodes cs = bytes"
  then show "26 dvd length bytes"
    by (auto simp: decode_nodes_def compact_lens split: if_splits)
next
  assume len: "26 dvd length bytes"
  then obtain cs where cs: "collect_results decode_node (chunks COMPACT_NODE_LEN bytes) = Inr cs"
    "list_all v4_contact_ok cs" "concat (map enc_node cs) = bytes"
    using node_codec.seq_inverse [of bytes] by (auto simp: compact_lens)
  have "filter (\<lambda>c. is_v4 (contact_addr c)) cs = cs"
    using cs(2) by (auto simp: filter_id_conv list_all_iff v4_contact_ok_def v4_addr_ok_def)
  with cs len show "\<exists>cs. decode_nodes bytes = Inr cs \<and> encode_nodes cs = bytes"
    by (auto simp: decode_nodes_def encode_nodes_concat compact_lens)
qed

lemma decode_encode_peers:
  "list_all addr_ok ps \<Longrightarrow> decode_peers (encode_peers ps) = Inr (filter is_v4 ps)"
  using peer_codec.collect_enc [OF v4_addrs_ok] by (simp add: decode_peers_def encode_peers_map)

lemma decode_nodes_contacts_ok: "decode_nodes bytes = Inr cs \<Longrightarrow> list_all v4_contact_ok cs"
proof -
  assume dec: "decode_nodes bytes = Inr cs"
  then have "COMPACT_NODE_LEN dvd length bytes"
    "collect_results decode_node (chunks COMPACT_NODE_LEN bytes) = Inr cs"
    by (auto simp: decode_nodes_def split: if_splits)
  with node_codec.seq_inverse [of bytes] show ?thesis by auto
qed

end
