(* ===== verification/Dht_Interfaces.thy ===== *)
theory Dht_Interfaces
  imports Dht_Compact
begin

text \<open>
  What the DHT protocol state relies on: a table of routing contacts and a registry of announced
  peers, each as a locale with the laws its provider owes. \<open>Dht_Routing\<close> and \<open>Dht_Peers\<close>
  interpret them for the models of \<^verbatim>\<open>RoutingTable\<close> and \<^verbatim>\<open>PeerStore\<close>; \<open>Dht_State\<close> uses the facts.
\<close>

locale contact_table =
  fixes insert :: "'t \<Rightarrow> contact \<Rightarrow> 't \<times> bool"
    and nearest :: "'t \<Rightarrow> node_id \<Rightarrow> nat \<Rightarrow> contact list"
    and self_id :: "'t \<Rightarrow> node_id"
    and invar :: "'t \<Rightarrow> bool"
  assumes insert_invar: "invar t \<Longrightarrow> contact_ok c \<Longrightarrow> invar (fst (insert t c))"
    and insert_self: "self_id (fst (insert t c)) = self_id t"
    and nearest_ok: "invar t \<Longrightarrow> c \<in> set (nearest t i k) \<Longrightarrow> contact_ok c"
    and nearest_bound: "length (nearest t i k) \<le> k"
    and self_ok: "invar t \<Longrightarrow> id_ok (self_id t)"
begin

lemma insert_all_invar:
  "invar t \<Longrightarrow> list_all contact_ok cs \<Longrightarrow> invar (foldl (\<lambda>t c. fst (insert t c)) t cs)"
  by (induction cs arbitrary: t) (auto simp: insert_invar)

lemma insert_all_self: "self_id (foldl (\<lambda>t c. fst (insert t c)) t cs) = self_id t"
  by (induction cs arbitrary: t) (auto simp: insert_self)

lemma nearest_reply_decodes:
  "invar t \<Longrightarrow> decode_nodes (encode_nodes (nearest t i k))
     = Inr (filter (\<lambda>c. is_v4 (contact_addr c)) (nearest t i k))"
proof -
  assume "invar t"
  then have "list_all contact_ok (nearest t i k)" by (auto simp: list_all_iff nearest_ok)
  then have "list_all v4_contact_ok (filter (\<lambda>c. is_v4 (contact_addr c)) (nearest t i k))"
    by (rule v4_contacts_ok)
  from node_codec.seq_roundtrip [OF this] node_codec.length_seq [OF this] show ?thesis
    by (simp add: decode_nodes_def encode_nodes_concat)
qed

lemma nearest_reply_size: "invar t \<Longrightarrow> length (encode_nodes (nearest t i k)) \<le> 26 * k"
proof -
  assume "invar t"
  then have "list_all contact_ok (nearest t i k)" by (auto simp: list_all_iff nearest_ok)
  then have ok: "list_all v4_contact_ok (filter (\<lambda>c. is_v4 (contact_addr c)) (nearest t i k))"
    by (rule v4_contacts_ok)
  have "length (filter (\<lambda>c. is_v4 (contact_addr c)) (nearest t i k)) \<le> k"
    using nearest_bound [of t i k] length_filter_le [of "\<lambda>c. is_v4 (contact_addr c)" "nearest t i k"]
    by linarith
  then show ?thesis
    using node_codec.length_seq [OF ok] by (simp add: encode_nodes_concat compact_lens)
qed

end

text \<open>
  A registry keeps, per swarm, the peers that are live at an instant; \<open>lifetime\<close> is how long an
  announcement lives.
\<close>

locale peer_registry =
  fixes announce :: "instant \<Rightarrow> 's \<Rightarrow> node_id \<Rightarrow> socket_addr \<Rightarrow> 's \<times> bool"
    and lookup :: "instant \<Rightarrow> 's \<Rightarrow> node_id \<Rightarrow> nat \<Rightarrow> 's \<times> socket_addr list"
    and live :: "'s \<Rightarrow> instant \<Rightarrow> node_id \<Rightarrow> socket_addr set"
    and lifetime :: "'s \<Rightarrow> duration"
    and invar :: "'s \<Rightarrow> bool"
  assumes announce_invar: "invar s \<Longrightarrow> invar (fst (announce now s h p))"
    and lookup_invar: "invar s \<Longrightarrow> invar (fst (lookup now s h k))"
    and announce_lifetime: "lifetime (fst (announce now s h p)) = lifetime s"
    and lookup_lifetime: "lifetime (fst (lookup now s h k)) = lifetime s"
    and announce_refused: "\<not> snd (announce now s h p) \<Longrightarrow> fst (announce now s h p) = s"
    and announce_live: "invar s \<Longrightarrow> lifetime s \<le> now \<Longrightarrow> now \<le> n \<Longrightarrow> n - lifetime s \<le> now
      \<Longrightarrow> snd (announce now s h p) \<Longrightarrow> live (fst (announce now s h p)) n h = insert p (live s n h)"
    and lookup_live: "invar s \<Longrightarrow> lifetime s \<le> now \<Longrightarrow> now \<le> n
      \<Longrightarrow> live (fst (lookup now s h k)) n h' = live s n h'"
    and lookup_sub: "invar s \<Longrightarrow> lifetime s \<le> now \<Longrightarrow> set (snd (lookup now s h k)) \<subseteq> live s now h"
    and lookup_all: "invar s \<Longrightarrow> lifetime s \<le> now \<Longrightarrow> card (live s now h) \<le> k
      \<Longrightarrow> set (snd (lookup now s h k)) = live s now h"
begin

lemma announced_found:
  assumes "invar s" and "lifetime s \<le> now" and "now \<le> n" and "n - lifetime s \<le> now"
    and "snd (announce now s h p)" and "card (live (fst (announce now s h p)) n h) \<le> k"
  shows "p \<in> set (snd (lookup n (fst (announce now s h p)) h k))"
  using assms announce_invar [OF assms(1)] announce_live [OF assms(1-5)]
    lookup_all [of "fst (announce now s h p)" n h k]
  by (auto simp: announce_lifetime)

end

end
