(* ===== verification/Dht_Routing.thy ===== *)
theory Dht_Routing
  imports Dht_Interfaces
begin

text \<open>
  The 160-bucket Kademlia routing table, \<^verbatim>\<open>dht/routing.rs\<close>. The Rust vector of queues is a list
  of lists; \<open>rt_insert\<close>, \<open>record_failure\<close> and \<open>closest\<close> return the new table. The invariant
  \<open>routing_inv\<close> says that every bucket is at its size limit or below, holds only identifiers
  whose distance to the local identifier selects it, each once, and no contact that has
  already failed \<open>FAILURE_LIMIT\<close> times.
\<close>

definition FAILURE_LIMIT :: byte where "FAILURE_LIMIT = 2"
definition BUCKET_COUNT :: nat where "BUCKET_COUNT = DHT_ID_LEN * 8"

record routing_entry =
  entry_contact :: contact
  failures :: byte

record routing_table =
  local_id :: node_id
  bucket_size :: nat
  buckets :: "routing_entry list list"

abbreviation entry_id :: "routing_entry \<Rightarrow> node_id" where
  "entry_id e \<equiv> contact_id (entry_contact e)"

section \<open>Operations\<close>

definition rt_new :: "node_id \<Rightarrow> nat \<Rightarrow> routing_table" where
  "rt_new i n = \<lparr>local_id = i, bucket_size = n, buckets = map (\<lambda>_. []) [0..<BUCKET_COUNT]\<rparr>"

definition fresh_entry :: "contact \<Rightarrow> routing_entry" where
  "fresh_entry c = \<lparr>entry_contact = c, failures = 0\<rparr>"

text \<open>The part of \<^verbatim>\<open>RoutingTable::insert\<close> after the bucket has been selected.\<close>

definition insert_bucket :: "nat \<Rightarrow> contact \<Rightarrow> routing_entry list \<Rightarrow> routing_entry list \<times> bool" where
  "insert_bucket size_limit c bucket =
     (case position (\<lambda>e. entry_id e = contact_id c) bucket of
        Some pos \<Rightarrow> (remove_at pos bucket @ [fresh_entry c], True)
      | None \<Rightarrow>
          if length bucket \<ge> size_limit
          then (case position (\<lambda>e. failures e > 0) bucket of
                  Some pos \<Rightarrow> (remove_at pos bucket @ [fresh_entry c], True)
                | None \<Rightarrow> (bucket, False))
          else (bucket @ [fresh_entry c], True))"

definition rt_insert :: "routing_table \<Rightarrow> contact \<Rightarrow> routing_table \<times> bool" where
  "rt_insert t c =
     (case bucket_index (distance (local_id t) (contact_id c)) of
        None \<Rightarrow> (t, False)
      | Some index \<Rightarrow>
          let (bucket, stored) = insert_bucket (bucket_size t) c (buckets t ! index)
          in (t\<lparr>buckets := (buckets t)[index := bucket]\<rparr>, stored))"

definition saturating_inc_u8 :: "byte \<Rightarrow> byte" where
  "saturating_inc_u8 b = (if b = 255 then 255 else b + 1)"

definition fail_bucket :: "node_id \<Rightarrow> routing_entry list \<Rightarrow> routing_entry list" where
  "fail_bucket i bucket =
     (case position (\<lambda>e. entry_id e = i) bucket of
        None \<Rightarrow> bucket
      | Some pos \<Rightarrow>
          let e = bucket ! pos;
              e' = e\<lparr>failures := saturating_inc_u8 (failures e)\<rparr>;
              bucket' = bucket[pos := e']
          in if failures e' \<ge> FAILURE_LIMIT then remove_at pos bucket' else bucket')"

definition record_failure :: "routing_table \<Rightarrow> node_id \<Rightarrow> routing_table" where
  "record_failure t i =
     (case bucket_index (distance (local_id t) i) of
        None \<Rightarrow> t
      | Some index \<Rightarrow>
          t\<lparr>buckets := (buckets t)[index := fail_bucket i (buckets t ! index)]\<rparr>)"

definition rt_contacts :: "routing_table \<Rightarrow> contact list" where
  "rt_contacts t = map entry_contact (concat (buckets t))"

definition closest :: "routing_table \<Rightarrow> node_id \<Rightarrow> nat \<Rightarrow> contact list" where
  "closest t target limit =
     take limit (sort_key (\<lambda>c. distance target (contact_id c)) (rt_contacts t))"

section \<open>The invariant\<close>

definition bucket_inv :: "node_id \<Rightarrow> nat \<Rightarrow> nat \<Rightarrow> routing_entry list \<Rightarrow> bool" where
  "bucket_inv loc n index bucket =
     (length bucket \<le> n \<and> distinct (map entry_id bucket) \<and>
      (\<forall>e \<in> set bucket. contact_ok (entry_contact e) \<and> failures e < FAILURE_LIMIT \<and>
         bucket_index (distance loc (entry_id e)) = Some index))"

definition routing_inv :: "routing_table \<Rightarrow> bool" where
  "routing_inv t =
     (id_ok (local_id t) \<and> length (buckets t) = BUCKET_COUNT \<and>
      (\<forall>index < BUCKET_COUNT. bucket_inv (local_id t) (bucket_size t) index (buckets t ! index)))"

lemma fresh_entry_simps [simp]:
  "entry_contact (fresh_entry c) = c" "failures (fresh_entry c) = 0"
  by (simp_all add: fresh_entry_def)

lemma bucket_count_160: "BUCKET_COUNT = 160"
  by (simp add: BUCKET_COUNT_def DHT_ID_LEN_def)

lemma routing_inv_bucket:
  "routing_inv t \<Longrightarrow> index < BUCKET_COUNT
    \<Longrightarrow> bucket_inv (local_id t) (bucket_size t) index (buckets t ! index)"
  by (simp add: routing_inv_def)

lemma routing_inv_update:
  assumes "routing_inv t" and "index < BUCKET_COUNT"
    and "bucket_inv (local_id t) (bucket_size t) index bucket"
  shows "routing_inv (t\<lparr>buckets := (buckets t)[index := bucket]\<rparr>)"
  using assms by (auto simp: routing_inv_def nth_list_update)

lemma bucket_index_in_range:
  "id_ok a \<Longrightarrow> id_ok b \<Longrightarrow> bucket_index (distance a b) = Some i \<Longrightarrow> i < BUCKET_COUNT"
  using bucket_index_Some_bound [of "distance a b" i] by (simp add: id_ok_def bucket_count_160)

lemma bucket_inv_snoc:
  assumes "bucket_inv loc n index bucket" and "length bucket < n" and "contact_ok c"
    and "contact_id c \<notin> entry_id ` set bucket"
    and "bucket_index (distance loc (contact_id c)) = Some index"
  shows "bucket_inv loc n index (bucket @ [fresh_entry c])"
  using assms by (auto simp: bucket_inv_def FAILURE_LIMIT_def)

lemma bucket_inv_remove_at:
  assumes "bucket_inv loc n index bucket" and "pos < length bucket"
  shows "bucket_inv loc n index (remove_at pos bucket)" and "length (remove_at pos bucket) < n"
  using assms set_remove_at [of pos bucket] distinct_map_remove_at(1) [of entry_id bucket pos]
  by (auto simp: bucket_inv_def)

lemma insert_bucket_inv:
  assumes inv: "bucket_inv loc n index bucket" and c: "contact_ok c"
    and ix: "bucket_index (distance loc (contact_id c)) = Some index"
  shows "bucket_inv loc n index (fst (insert_bucket n c bucket))"
proof (cases "position (\<lambda>e. entry_id e = contact_id c) bucket")
  case (Some pos)
  then have pos: "pos < length bucket" "entry_id (bucket ! pos) = contact_id c"
    by (auto dest: position_Some)
  have "distinct (map entry_id bucket)" using inv by (simp add: bucket_inv_def)
  then have "contact_id c \<notin> entry_id ` set (remove_at pos bucket)"
    using distinct_map_remove_at(2) [of entry_id bucket pos] pos by simp
  then show ?thesis
    using Some bucket_inv_snoc bucket_inv_remove_at [OF inv pos(1)] c ix
    by (simp add: insert_bucket_def)
next
  case None
  then have nin: "contact_id c \<notin> entry_id ` set bucket"
    by (auto simp: position_None)
  show ?thesis
  proof (cases "position (\<lambda>e. failures e > 0) bucket")
    case (Some pos)
    then have pos: "pos < length bucket" by (auto dest: position_Some)
    have "contact_id c \<notin> entry_id ` set (remove_at pos bucket)"
      using nin set_remove_at [of pos bucket] by auto
    then show ?thesis
      using None Some nin bucket_inv_snoc bucket_inv_remove_at [OF inv pos] inv c ix
      by (simp add: insert_bucket_def)
  qed (use None nin inv c ix bucket_inv_snoc in \<open>simp add: insert_bucket_def\<close>)
qed

lemma routing_inv_new [inv_intros]: "id_ok i \<Longrightarrow> routing_inv (rt_new i n)"
  by (simp add: routing_inv_def rt_new_def bucket_inv_def)

lemma routing_inv_insert [inv_intros]:
  assumes "routing_inv t" and "contact_ok c"
  shows "routing_inv (fst (rt_insert t c))"
proof (cases "bucket_index (distance (local_id t) (contact_id c))")
  case None
  with assms show ?thesis by (simp add: rt_insert_def)
next
  case (Some index)
  have range: "index < BUCKET_COUNT"
    using assms Some bucket_index_in_range by (auto simp: routing_inv_def contact_ok_def)
  have "bucket_inv (local_id t) (bucket_size t) index
      (fst (insert_bucket (bucket_size t) c (buckets t ! index)))"
    using routing_inv_bucket [OF assms(1) range] assms(2) Some by (rule insert_bucket_inv)
  with Some routing_inv_update [OF assms(1) range] show ?thesis
    by (simp add: rt_insert_def split_beta)
qed

lemma fail_bucket_inv:
  assumes "bucket_inv loc n index bucket"
  shows "bucket_inv loc n index (fail_bucket i bucket)"
proof (cases "position (\<lambda>e. entry_id e = i) bucket")
  case (Some pos)
  then have pos: "pos < length bucket" by (auto dest: position_Some)
  let ?e = "bucket ! pos"
  let ?b = "bucket[pos := ?e\<lparr>failures := saturating_inc_u8 (failures ?e)\<rparr>]"
  have ids: "map entry_id ?b = map entry_id bucket"
    using pos by (auto simp: list_eq_iff_nth_eq nth_list_update)
  show ?thesis
  proof (cases "saturating_inc_u8 (failures ?e) \<ge> FAILURE_LIMIT")
    case True
    have "remove_at pos ?b = remove_at pos bucket"
      using pos by (simp add: remove_at_def)
    with Some True bucket_inv_remove_at [OF assms pos] show ?thesis
      by (simp add: fail_bucket_def Let_def)
  next
    case False
    have "bucket_inv loc n index ?b"
      unfolding bucket_inv_def ids
      using assms False pos set_update_subset_insert [of bucket pos]
      by (auto simp: bucket_inv_def not_le dest!: subsetD [OF set_update_subset_insert])
    with Some False show ?thesis by (simp add: fail_bucket_def Let_def)
  qed
qed (use assms in \<open>simp add: fail_bucket_def\<close>)

lemma routing_inv_record_failure [inv_intros]:
  assumes "routing_inv t" and "id_ok i"
  shows "routing_inv (record_failure t i)"
proof (cases "bucket_index (distance (local_id t) i)")
  case (Some index)
  have range: "index < BUCKET_COUNT"
    using assms Some bucket_index_in_range by (auto simp: routing_inv_def)
  show ?thesis
    using routing_inv_update [OF assms(1) range fail_bucket_inv [OF routing_inv_bucket [OF assms(1) range]]] Some
    by (simp add: record_failure_def)
qed (use assms in \<open>simp add: record_failure_def\<close>)

section \<open>Reachable tables\<close>

text \<open>
  The tables the DHT actor can hold: a new table, and what insertions of contacts and failure
  records make of it.
\<close>

inductive rt_reachable :: "routing_table \<Rightarrow> bool" where
  rt_start: "id_ok i \<Longrightarrow> rt_reachable (rt_new i n)"
| rt_inserted: "rt_reachable t \<Longrightarrow> contact_ok c \<Longrightarrow> rt_reachable (fst (rt_insert t c))"
| rt_failed: "rt_reachable t \<Longrightarrow> id_ok i \<Longrightarrow> rt_reachable (record_failure t i)"

lemma rt_reachable_inv: "rt_reachable t \<Longrightarrow> routing_inv t"
  by (induction rule: rt_reachable.induct) (auto intro: inv_intros)

definition rt_entries :: "routing_table \<Rightarrow> routing_entry set" where
  "rt_entries t = set (concat (buckets t))"

lemma rt_entries_iff:
  assumes "routing_inv t"
  shows "e \<in> rt_entries t \<longleftrightarrow>
    (\<exists>index < BUCKET_COUNT. bucket_index (distance (local_id t) (entry_id e)) = Some index
       \<and> e \<in> set (buckets t ! index))"
proof -
  have len: "length (buckets t) = BUCKET_COUNT"
    and b: "\<And>index e. index < BUCKET_COUNT \<Longrightarrow> e \<in> set (buckets t ! index)
      \<Longrightarrow> bucket_index (distance (local_id t) (entry_id e)) = Some index"
    using assms by (auto simp: routing_inv_def bucket_inv_def)
  have "e \<in> rt_entries t \<longleftrightarrow> (\<exists>index < BUCKET_COUNT. e \<in> set (buckets t ! index))"
    by (auto simp: rt_entries_def set_conv_nth [of "buckets t"] len)
  with b show ?thesis by blast
qed

lemma distinct_concat_keys:
  assumes "\<And>i. i < length bss \<Longrightarrow> distinct (map f (bss ! i)) \<and> (\<forall>e \<in> set (bss ! i). g (f e) = Some (k + i))"
  shows "distinct (map f (concat bss))"
  using assms
proof (induction bss arbitrary: k)
  case (Cons bs bss)
  have later: "distinct (map f (bss ! i)) \<and> (\<forall>e \<in> set (bss ! i). g (f e) = Some (Suc k + i))"
    if "i < length bss" for i
    using Cons.prems [of "Suc i"] that by simp
  then have "distinct (map f (concat bss))" by (rule Cons.IH)
  moreover have "distinct (map f bs)" "\<forall>e \<in> set bs. g (f e) = Some k"
    using Cons.prems [of 0] by auto
  moreover have "f e \<noteq> f e'" if "e \<in> set bs" "e' \<in> set (concat bss)" for e e'
  proof
    assume eq: "f e = f e'"
    from that(2) obtain i where "i < length bss" "e' \<in> set (bss ! i)"
      by (auto simp: set_conv_nth [of bss])
    then have "g (f e') = Some (Suc k + i)" using later by blast
    moreover have "g (f e) = Some k" using Cons.prems [of 0] that(1) by auto
    ultimately show False using eq by simp
  qed
  ultimately show ?case by (auto simp: image_iff)
qed simp

lemma routing_inv_distinct: "routing_inv t \<Longrightarrow> distinct (map entry_id (concat (buckets t)))"
  by (rule distinct_concat_keys [where g = "\<lambda>i. bucket_index (distance (local_id t) i)" and k = 0])
    (auto simp: routing_inv_def bucket_inv_def)

text \<open>
  C19: in every reachable routing table each identifier occurs at most once, the local
  identifier never, every bucket is within its size limit, and every contact sits in the bucket
  that the binary logarithm of its XOR distance selects.
\<close>

theorem rt_reachable_safe:
  assumes "rt_reachable t"
  shows "distinct (map entry_id (concat (buckets t))) \<and> local_id t \<notin> entry_id ` rt_entries t
    \<and> length (buckets t) = 160 \<and>
    (\<forall>index < 160. length (buckets t ! index) \<le> bucket_size t \<and>
       (\<forall>e \<in> set (buckets t ! index).
          2 ^ index \<le> be_nat (distance (local_id t) (entry_id e)) \<and>
          be_nat (distance (local_id t) (entry_id e)) < 2 ^ Suc index \<and> failures e < 2))"
proof (intro conjI allI impI ballI)
  have inv: "routing_inv t" using assms by (rule rt_reachable_inv)
  show "distinct (map entry_id (concat (buckets t)))" using inv by (rule routing_inv_distinct)
  show "length (buckets t) = 160" using inv by (simp add: routing_inv_def bucket_count_160)
  show "local_id t \<notin> entry_id ` rt_entries t"
  proof
    assume "local_id t \<in> entry_id ` rt_entries t"
    then obtain e where "e \<in> rt_entries t" "entry_id e = local_id t" by auto
    then have "bucket_index (distance (local_id t) (local_id t)) \<noteq> None"
      using rt_entries_iff [OF inv, of e] by auto
    then show False using inv bucket_index_None_iff [of "local_id t" "local_id t"]
      by (simp add: routing_inv_def)
  qed
  fix index :: nat
  assume "index < 160"
  then have b: "bucket_inv (local_id t) (bucket_size t) index (buckets t ! index)"
    using inv by (simp add: routing_inv_def bucket_count_160)
  then show "length (buckets t ! index) \<le> bucket_size t" by (simp add: bucket_inv_def)
  fix e
  assume "e \<in> set (buckets t ! index)"
  with b have e: "contact_ok (entry_contact e)" "failures e < FAILURE_LIMIT"
    "bucket_index (distance (local_id t) (entry_id e)) = Some index"
    by (auto simp: bucket_inv_def)
  then show "failures e < 2" by (simp add: FAILURE_LIMIT_def)
  have "length (distance (local_id t) (entry_id e)) = DHT_ID_LEN"
    using inv e by (simp add: routing_inv_def contact_ok_def id_ok_def)
  then have "2 ^ index \<le> be_nat (distance (local_id t) (entry_id e)) \<and>
      be_nat (distance (local_id t) (entry_id e)) < 2 ^ Suc index"
    using e(3) bucket_index_from_log [of 0] by (simp add: bucket_index_def)
  then show "2 ^ index \<le> be_nat (distance (local_id t) (entry_id e))"
    and "be_nat (distance (local_id t) (entry_id e)) < 2 ^ Suc index" by auto
qed

theorem rt_reachable_safe_witness:
  "local_id (rt_new (replicate 20 0) 8) \<notin> entry_id `
     rt_entries (fst (rt_insert (rt_new (replicate 20 0) 8)
       (mk_contact (replicate 19 0 @ [1]) \<lparr>ip = V4 [127, 0, 0, 1], port = 2\<rparr>)))"
proof -
  let ?c = "mk_contact (replicate 19 0 @ [1]) \<lparr>ip = V4 [127, 0, 0, 1], port = 2\<rparr>"
  let ?t = "rt_new (replicate 20 0) 8"
  have "rt_reachable (fst (rt_insert ?t ?c))"
    by (intro rt_reachable.intros)
      (simp_all add: id_ok_def contact_ok_def addr_ok_def mk_contact_def DHT_ID_LEN_def)
  moreover have "local_id (fst (rt_insert ?t ?c)) = local_id ?t"
    by (simp add: rt_insert_def split_beta split: option.splits)
  ultimately show ?thesis using rt_reachable_safe by metis
qed

section \<open>Nearest contacts\<close>

lemma take_sort_key_nearest:
  assumes "x \<in> set xs" and "x \<notin> set (take k (sort_key f xs))" and "y \<in> set (take k (sort_key f xs))"
  shows "f y \<le> f x"
proof -
  let ?s = "sort_key f xs"
  have "sorted (map f (take k ?s @ drop k ?s))" by simp
  moreover have "x \<in> set (drop k ?s)"
    using assms(1,2) by (metis Un_iff append_take_drop_id set_append set_sort)
  ultimately show ?thesis
    using assms(3) unfolding map_append sorted_append by auto
qed

text \<open>
  C20: \<^verbatim>\<open>closest\<close> returns the known contacts nearest to the target: the list is sorted by XOR
  distance, has \<open>min k n\<close> elements, only known contacts, and no contact left out is nearer than
  one returned.
\<close>

theorem closest_nearest:
  "sorted (map (\<lambda>c. distance target (contact_id c)) (closest t target k)) \<and>
   length (closest t target k) = min k (length (rt_contacts t)) \<and>
   set (closest t target k) \<subseteq> set (rt_contacts t) \<and>
   (\<forall>c \<in> set (rt_contacts t) - set (closest t target k). \<forall>d \<in> set (closest t target k).
      distance target (contact_id d) \<le> distance target (contact_id c))"
proof (intro conjI ballI)
  show "sorted (map (\<lambda>c. distance target (contact_id c)) (closest t target k))"
    by (simp add: closest_def sorted_take flip: take_map)
  show "set (closest t target k) \<subseteq> set (rt_contacts t)"
    by (auto simp: closest_def dest: in_set_takeD)
  show "length (closest t target k) = min k (length (rt_contacts t))"
    by (simp add: closest_def min.commute)
qed (auto simp: closest_def dest: take_sort_key_nearest)

definition near_contact :: contact where
  "near_contact = mk_contact (replicate 19 0 @ [1]) \<lparr>ip = V4 [127, 0, 0, 1], port = 2\<rparr>"

definition far_contact :: contact where
  "far_contact = mk_contact (128 # replicate 19 0) \<lparr>ip = V4 [127, 0, 0, 1], port = 1\<rparr>"

definition two_contacts :: routing_table where
  "two_contacts =
     fst (rt_insert (fst (rt_insert (rt_new (replicate 20 0) 8) far_contact)) near_contact)"

lemma two_contacts_closest:
  "rt_contacts two_contacts = [near_contact, far_contact]"
  "closest two_contacts (replicate 20 0) 1 = [near_contact]"
  by code_simp+

theorem closest_nearest_witness:
  "closest two_contacts (replicate 20 0) 1 = [near_contact] \<and>
   distance (replicate 20 0) (contact_id near_contact)
     \<le> distance (replicate 20 0) (contact_id far_contact)"
proof -
  have "far_contact \<noteq> near_contact" by (simp add: far_contact_def near_contact_def mk_contact_def)
  then show ?thesis
    using closest_nearest [of "replicate 20 0" two_contacts 1]
    unfolding two_contacts_closest by simp
qed

lemma rt_contacts_ok: "routing_inv t \<Longrightarrow> c \<in> set (rt_contacts t) \<Longrightarrow> contact_ok c"
proof -
  assume inv: "routing_inv t" and "c \<in> set (rt_contacts t)"
  then obtain e where e: "e \<in> rt_entries t" "c = entry_contact e"
    by (auto simp: rt_contacts_def rt_entries_def)
  then obtain index where "index < BUCKET_COUNT" "e \<in> set (buckets t ! index)"
    using rt_entries_iff [OF inv] by blast
  with e inv show ?thesis by (auto simp: routing_inv_def bucket_inv_def)
qed

lemma rt_insert_fields [simp]:
  "local_id (fst (rt_insert t c)) = local_id t" "bucket_size (fst (rt_insert t c)) = bucket_size t"
  by (simp_all add: rt_insert_def split_beta split: option.splits)

text \<open>The routing table provides the contact table that the protocol state relies on.\<close>

interpretation rt: contact_table rt_insert closest local_id routing_inv
proof unfold_locales
  show "\<And>t c. routing_inv t \<Longrightarrow> contact_ok c \<Longrightarrow> routing_inv (fst (rt_insert t c))"
    by (rule routing_inv_insert)
  show "\<And>t c. local_id (fst (rt_insert t c)) = local_id t" by simp
  show "\<And>t c i k. routing_inv t \<Longrightarrow> c \<in> set (closest t i k) \<Longrightarrow> contact_ok c"
    by (auto simp: closest_def dest!: in_set_takeD intro: rt_contacts_ok)
  show "\<And>t i k. length (closest t i k) \<le> k" by (simp add: closest_def)
  show "\<And>t. routing_inv t \<Longrightarrow> id_ok (local_id t)" by (simp add: routing_inv_def)
qed

section \<open>Retention of responsive contacts\<close>

lemma insert_bucket_keeps:
  assumes "e \<in> set bucket" and "failures e = 0" and "entry_id e \<noteq> contact_id c"
  shows "e \<in> set (fst (insert_bucket n c bucket))"
proof -
  have "e \<in> set (remove_at pos bucket)" if "pos < length bucket" "bucket ! pos \<noteq> e" for pos
  proof -
    have "e \<in># add_mset (bucket ! pos) (mset (remove_at pos bucket))"
      using assms(1) mset_remove_at [OF that(1)] by simp
    then show ?thesis using that(2) by simp
  qed
  moreover have "bucket ! pos \<noteq> e" if "entry_id (bucket ! pos) = contact_id c" for pos
    using that assms(3) by auto
  moreover have "bucket ! pos \<noteq> e" if "failures (bucket ! pos) > 0" for pos
    using that assms(2) by auto
  ultimately show ?thesis
    using assms(1)
    by (auto simp: insert_bucket_def split: option.splits dest!: position_Some)
qed

lemma insert_bucket_stored:
  "snd (insert_bucket n c bucket) \<longleftrightarrow> fresh_entry c \<in> set (fst (insert_bucket n c bucket))"
proof -
  have "fresh_entry c \<notin> set bucket" if "position (\<lambda>e. entry_id e = contact_id c) bucket = None"
    using that by (force simp: position_None)
  then show ?thesis by (auto simp: insert_bucket_def split: option.splits)
qed

lemma insert_bucket_full:
  assumes "position (\<lambda>e. entry_id e = contact_id c) bucket = None" and "length bucket \<ge> n"
    and "\<forall>e \<in> set bucket. failures e = 0"
  shows "insert_bucket n c bucket = (bucket, False)"
proof -
  have "position (\<lambda>e. failures e > 0) bucket = None" using assms(3) by (simp add: position_None)
  with assms show ?thesis by (simp add: insert_bucket_def)
qed

lemma rt_insert_Some:
  "bucket_index (distance (local_id t) (contact_id c)) = Some index
    \<Longrightarrow> rt_insert t c = (t\<lparr>buckets := (buckets t)[index :=
          fst (insert_bucket (bucket_size t) c (buckets t ! index))]\<rparr>,
        snd (insert_bucket (bucket_size t) c (buckets t ! index)))"
  by (simp add: rt_insert_def split_beta)

text \<open>
  Inserting a contact never evicts a responsive contact (one with no recorded failure) under
  another identifier, and the returned flag says exactly whether the contact is now stored with
  its failure count reset.
\<close>

theorem rt_insert_retains:
  assumes inv: "routing_inv t" and c: "contact_ok c"
  shows "(\<forall>e \<in> rt_entries t. failures e = 0 \<and> entry_id e \<noteq> contact_id c
      \<longrightarrow> e \<in> rt_entries (fst (rt_insert t c)))
    \<and> (snd (rt_insert t c) \<longleftrightarrow> fresh_entry c \<in> rt_entries (fst (rt_insert t c)))"
proof (cases "bucket_index (distance (local_id t) (contact_id c))")
  case None
  moreover have "fresh_entry c \<notin> rt_entries t"
    using None rt_entries_iff [OF inv] by simp
  ultimately show ?thesis by (simp add: rt_insert_def)
next
  case (Some index)
  let ?b = "insert_bucket (bucket_size t) c (buckets t ! index)"
  have range: "index < BUCKET_COUNT"
    using inv c Some bucket_index_in_range by (auto simp: routing_inv_def contact_ok_def)
  have inv': "routing_inv (fst (rt_insert t c))" using inv c by (rule routing_inv_insert)
  have eq: "fst (rt_insert t c) = t\<lparr>buckets := (buckets t)[index := fst ?b]\<rparr>" "snd (rt_insert t c) = snd ?b"
    using rt_insert_Some [OF Some] by auto
  have len: "length (buckets t) = BUCKET_COUNT" using inv by (simp add: routing_inv_def)
  have nth: "buckets (fst (rt_insert t c)) ! i = (if i = index then fst ?b else buckets t ! i)"
    if "i < BUCKET_COUNT" for i
    using that range len by (simp add: eq nth_list_update)
  have loc: "local_id (fst (rt_insert t c)) = local_id t" by (simp add: eq)
  show ?thesis
  proof (intro conjI ballI impI)
    fix e
    assume "e \<in> rt_entries t" and e: "failures e = 0 \<and> entry_id e \<noteq> contact_id c"
    then obtain i where i: "i < BUCKET_COUNT" "e \<in> set (buckets t ! i)"
      "bucket_index (distance (local_id t) (entry_id e)) = Some i"
      using rt_entries_iff [OF inv] by blast
    then have "e \<in> set (buckets (fst (rt_insert t c)) ! i)"
      using e insert_bucket_keeps [of e "buckets t ! index" c "bucket_size t"] by (auto simp: nth)
    with i loc show "e \<in> rt_entries (fst (rt_insert t c))"
      unfolding rt_entries_iff [OF inv'] by auto
  next
    have "fresh_entry c \<in> rt_entries (fst (rt_insert t c)) \<longleftrightarrow> fresh_entry c \<in> set (fst ?b)"
      unfolding rt_entries_iff [OF inv'] using Some range by (auto simp: nth loc)
    then show "snd (rt_insert t c) \<longleftrightarrow> fresh_entry c \<in> rt_entries (fst (rt_insert t c))"
      by (simp add: eq insert_bucket_stored)
  qed
qed

theorem rt_insert_retains_witness:
  "snd (rt_insert (rt_new (replicate 20 0) 8) near_contact) \<longleftrightarrow>
   fresh_entry near_contact \<in> rt_entries (fst (rt_insert (rt_new (replicate 20 0) 8) near_contact))"
proof -
  have "routing_inv (rt_new (replicate 20 0) 8)" "contact_ok near_contact"
    by (auto intro!: inv_intros
        simp: id_ok_def contact_ok_def addr_ok_def near_contact_def mk_contact_def DHT_ID_LEN_def)
  then show ?thesis using rt_insert_retains by blast
qed

section \<open>Removal of failed contacts\<close>

lemma byte_less_2: "(b :: byte) < 2 \<longleftrightarrow> b = 0 \<or> b = 1"
  by (auto simp: word_less_nat_alt word_unat_eq_iff less_2_cases_iff)

lemma not_2_le_1: "\<not> (2 :: byte) \<le> 1"
  by (simp add: word_le_nat_alt)

lemma fail_bucket_ones:
  assumes "bucket_inv loc n index bucket" and "e \<in> set (fail_bucket i bucket)" and "entry_id e = i"
  shows "failures e = 1"
proof (cases "position (\<lambda>e. entry_id e = i) bucket")
  case None
  with assms(2,3) show ?thesis by (auto simp: fail_bucket_def position_None)
next
  case (Some pos)
  then have pos: "pos < length bucket" "entry_id (bucket ! pos) = i"
    by (auto dest: position_Some)
  have d: "distinct (map entry_id bucket)" using assms(1) by (simp add: bucket_inv_def)
  then have nin: "i \<notin> entry_id ` set (remove_at pos bucket)"
    using distinct_map_remove_at(2) [OF d pos(1)] pos(2) by simp
  have upd: "remove_at pos (bucket[pos := x]) = remove_at pos bucket" for x
    using pos(1) by (simp add: remove_at_def)
  have small: "failures (bucket ! pos) = 0 \<or> failures (bucket ! pos) = 1"
    using assms(1) pos(1) by (auto simp: bucket_inv_def FAILURE_LIMIT_def byte_less_2)
  show ?thesis
  proof (cases "failures (bucket ! pos) = 0")
    case True
    let ?b = "bucket[pos := (bucket ! pos)\<lparr>failures := 1\<rparr>]"
    have "fail_bucket i bucket = ?b"
      using Some True not_2_le_1 by (simp add: fail_bucket_def Let_def saturating_inc_u8_def FAILURE_LIMIT_def)
    with assms(2) obtain j where j: "j < length bucket" "e = ?b ! j"
      by (auto simp: in_set_conv_nth)
    show ?thesis
    proof (cases "j = pos")
      case False
      with j assms(3) pos d show ?thesis by (auto simp: distinct_conv_nth)
    qed (use j in simp)
  next
    case False
    with small have "fail_bucket i bucket = remove_at pos bucket"
      using Some by (simp add: fail_bucket_def Let_def saturating_inc_u8_def FAILURE_LIMIT_def upd)
    with nin assms(2,3) show ?thesis by auto
  qed
qed

lemma fail_bucket_drops:
  assumes "bucket_inv loc n index bucket" and "\<forall>e \<in> set bucket. entry_id e = i \<longrightarrow> failures e = 1"
  shows "i \<notin> entry_id ` set (fail_bucket i bucket)"
proof (cases "position (\<lambda>e. entry_id e = i) bucket")
  case None
  then have "fail_bucket i bucket = bucket" by (simp add: fail_bucket_def)
  with None show ?thesis by (auto simp: position_None)
next
  case (Some pos)
  then have pos: "pos < length bucket" "entry_id (bucket ! pos) = i"
    by (auto dest: position_Some)
  have d: "distinct (map entry_id bucket)" using assms(1) by (simp add: bucket_inv_def)
  have upd: "remove_at pos (bucket[pos := x]) = remove_at pos bucket" for x
    using pos(1) by (simp add: remove_at_def)
  have "failures (bucket ! pos) = 1" using assms(2) pos by simp
  then have "fail_bucket i bucket = remove_at pos bucket"
    using Some by (simp add: fail_bucket_def Let_def saturating_inc_u8_def FAILURE_LIMIT_def upd)
  then show ?thesis using distinct_map_remove_at(2) [OF d pos(1)] pos(2) by simp
qed

text \<open>
  Two recorded failures remove a contact from the table, whatever its count was; no entry
  under its identifier is left.
\<close>

theorem record_failure_twice_removes:
  assumes inv: "routing_inv t" and i: "id_ok i"
  shows "i \<notin> entry_id ` rt_entries (record_failure (record_failure t i) i)"
proof (cases "bucket_index (distance (local_id t) i)")
  case None
  with rt_entries_iff [OF inv] show ?thesis by (auto simp: record_failure_def)
next
  case (Some index)
  have range: "index < BUCKET_COUNT"
    using inv i Some bucket_index_in_range by (auto simp: routing_inv_def)
  let ?t1 = "record_failure t i"
  let ?t2 = "record_failure ?t1 i"
  have inv1: "routing_inv ?t1" and inv2: "routing_inv ?t2"
    using inv i by (auto intro: inv_intros)
  have len: "length (buckets t) = BUCKET_COUNT" using inv by (simp add: routing_inv_def)
  have b1: "buckets ?t1 ! index = fail_bucket i (buckets t ! index)" "local_id ?t1 = local_id t"
    using Some range len by (simp_all add: record_failure_def)
  have b2: "buckets ?t2 ! index = fail_bucket i (buckets ?t1 ! index)" "local_id ?t2 = local_id t"
    using Some range len b1(2) inv1 by (simp_all add: record_failure_def routing_inv_def)
  have "\<forall>e \<in> set (buckets ?t1 ! index). entry_id e = i \<longrightarrow> failures e = 1"
    using fail_bucket_ones [OF routing_inv_bucket [OF inv range]] b1 by auto
  then have "i \<notin> entry_id ` set (buckets ?t2 ! index)"
    using fail_bucket_drops [OF routing_inv_bucket [OF inv1 range]] b2 by simp
  then show ?thesis
    using rt_entries_iff [OF inv2] Some b2 by (auto simp: image_iff)
qed

theorem record_failure_twice_removes_witness:
  "contact_id near_contact \<in> entry_id ` rt_entries two_contacts \<and>
   contact_id near_contact \<notin> entry_id `
     rt_entries (record_failure (record_failure two_contacts (contact_id near_contact)) (contact_id near_contact))"
proof -
  have ok: "id_ok (contact_id near_contact)" "contact_ok near_contact" "contact_ok far_contact"
    by (simp_all add: id_ok_def contact_ok_def addr_ok_def near_contact_def far_contact_def
        mk_contact_def DHT_ID_LEN_def)
  have inv: "routing_inv two_contacts"
    unfolding two_contacts_def by (intro inv_intros ok) (simp add: id_ok_def DHT_ID_LEN_def)
  have "near_contact \<in> entry_contact ` rt_entries two_contacts"
    using two_contacts_closest(1) unfolding rt_contacts_def rt_entries_def by (metis list.set_intros(1) set_map)
  then obtain e where "e \<in> rt_entries two_contacts" "contact_id near_contact = entry_id e" by auto
  then show ?thesis
    using record_failure_twice_removes [OF inv ok(1)] by (metis imageI)
qed

end
