(* ===== verification/Dht_Peers.thy ===== *)
theory Dht_Peers
  imports Dht_Interfaces
begin

text \<open>
  The store of announced peers, \<^verbatim>\<open>dht/peers.rs\<close>. The outer hash map is a map, an inner one an
  association list with distinct keys: its order stands for the iteration order that \<open>get\<close>
  takes a prefix of, which Rust leaves open, so the lemmas speak of the set of peers returned and
  their number. An \<^verbatim>\<open>Instant\<close> counts from the origin of the clock, before which it cannot
  represent a point in time (\<^verbatim>\<open>checked_sub\<close>).
\<close>

definition PRUNE_INTERVAL_DIVISOR :: nat where "PRUNE_INTERVAL_DIVISOR = 4"

type_synonym swarm = "(socket_addr \<times> instant) list"

record peer_store =
  ps_peers :: "node_id \<rightharpoonup> swarm"
  ttl :: duration
  prune_interval :: duration
  last_pruned :: instant

section \<open>Operations\<close>

definition ps_new :: "instant \<Rightarrow> duration \<Rightarrow> peer_store" where
  "ps_new now t = \<lparr>ps_peers = Map.empty, ttl = t, prune_interval = t div PRUNE_INTERVAL_DIVISOR,
     last_pruned = now\<rparr>"

definition expiration_cutoff :: "instant \<Rightarrow> peer_store \<Rightarrow> instant" where
  "expiration_cutoff now s = (if ttl s \<le> now then now - ttl s else now)"

definition retain_fresh :: "instant \<Rightarrow> swarm \<Rightarrow> swarm" where
  "retain_fresh cutoff sw = filter (\<lambda>(_, announced_at). announced_at \<ge> cutoff) sw"

definition ps_prune :: "instant \<Rightarrow> peer_store \<Rightarrow> peer_store" where
  "ps_prune now s =
     (let cutoff = expiration_cutoff now s in
      s\<lparr>last_pruned := now,
        ps_peers := (\<lambda>h. case ps_peers s h of
            None \<Rightarrow> None
          | Some sw \<Rightarrow> let kept = retain_fresh cutoff sw in if kept = [] then None else Some kept)\<rparr>)"

definition prune_if_due :: "instant \<Rightarrow> peer_store \<Rightarrow> peer_store" where
  "prune_if_due now s = (if now - last_pruned s \<ge> prune_interval s then ps_prune now s else s)"

definition ps_announce :: "instant \<Rightarrow> peer_store \<Rightarrow> node_id \<Rightarrow> socket_addr \<Rightarrow> peer_store \<times> bool" where
  "ps_announce now s info_hash peer =
     (if port peer = 0 \<or> is_unspecified (ip peer) then (s, False)
      else let s' = prune_if_due now s;
               sw = (case ps_peers s' info_hash of None \<Rightarrow> [] | Some sw \<Rightarrow> sw)
           in (s'\<lparr>ps_peers := (ps_peers s')(info_hash \<mapsto> AList.update peer now sw)\<rparr>, True))"

definition ps_get :: "instant \<Rightarrow> peer_store \<Rightarrow> node_id \<Rightarrow> nat \<Rightarrow> peer_store \<times> socket_addr list" where
  "ps_get now s info_hash limit =
     (let s' = prune_if_due now s;
          cutoff = expiration_cutoff now s'
      in case ps_peers s' info_hash of
           None \<Rightarrow> (s', [])
         | Some sw \<Rightarrow>
             let kept = retain_fresh cutoff sw;
                 result = take limit (map fst kept)
             in (s'\<lparr>ps_peers := (ps_peers s')(info_hash := (if kept = [] then None else Some kept))\<rparr>,
                 result))"

section \<open>Abstraction: the live announcements\<close>

text \<open>
  What the store promises: for a swarm and an instant, the peers announced at or after the
  cutoff of that instant, each with its last announcement.
\<close>

definition announced :: "peer_store \<Rightarrow> node_id \<Rightarrow> socket_addr \<rightharpoonup> instant" where
  "announced s h = (case ps_peers s h of None \<Rightarrow> Map.empty | Some sw \<Rightarrow> map_of sw)"

definition live_peers :: "peer_store \<Rightarrow> instant \<Rightarrow> node_id \<Rightarrow> socket_addr set" where
  "live_peers s now h = {p. \<exists>t. announced s h p = Some t \<and> expiration_cutoff now s \<le> t}"

definition ps_inv :: "peer_store \<Rightarrow> bool" where
  "ps_inv s = (\<forall>h sw. ps_peers s h = Some sw \<longrightarrow> distinct (map fst sw) \<and> sw \<noteq> [])"

lemma map_of_retain_fresh:
  "distinct (map fst sw) \<Longrightarrow> map_of (retain_fresh c sw) p =
     (case map_of sw p of Some t \<Rightarrow> if c \<le> t then Some t else None | None \<Rightarrow> None)"
  by (induction sw) (force simp: retain_fresh_def split: option.splits if_splits dest: map_of_SomeD)+

lemma distinct_retain_fresh: "distinct (map fst sw) \<Longrightarrow> distinct (map fst (retain_fresh c sw))"
  by (simp add: retain_fresh_def distinct_map_filter)

lemma cutoff_mono:
  "n \<le> n' \<Longrightarrow> ttl s \<le> n \<Longrightarrow> expiration_cutoff n s \<le> expiration_cutoff n' s"
  by (simp add: expiration_cutoff_def)

lemma cutoff_fields [simp]:
  "expiration_cutoff n (s\<lparr>ps_peers := x\<rparr>) = expiration_cutoff n s"
  "expiration_cutoff n (s\<lparr>last_pruned := y\<rparr>) = expiration_cutoff n s"
  by (simp_all add: expiration_cutoff_def)

lemma ps_prune_fields [simp]:
  "ttl (ps_prune now s) = ttl s" "expiration_cutoff n (ps_prune now s) = expiration_cutoff n s"
  by (simp_all add: ps_prune_def expiration_cutoff_def Let_def)

lemma prune_if_due_fields [simp]:
  "ttl (prune_if_due now s) = ttl s" "expiration_cutoff n (prune_if_due now s) = expiration_cutoff n s"
  by (simp_all add: prune_if_due_def)

lemma announced_prune:
  assumes "ps_inv s"
  shows "announced (ps_prune now s) h p =
    (case announced s h p of
       Some t \<Rightarrow> if expiration_cutoff now s \<le> t then Some t else None | None \<Rightarrow> None)"
proof (cases "ps_peers s h")
  case None
  then show ?thesis by (simp add: announced_def ps_prune_def Let_def)
next
  case (Some sw)
  then have d: "distinct (map fst sw)" using assms by (simp add: ps_inv_def)
  have e: "map_of [] p = None" by simp
  show ?thesis
    using Some map_of_retain_fresh [OF d, of "expiration_cutoff now s" p]
    by (auto simp: announced_def ps_prune_def Let_def)
qed

lemma ps_inv_prune [inv_intros]: "ps_inv s \<Longrightarrow> ps_inv (ps_prune now s)"
  by (auto simp: ps_inv_def ps_prune_def Let_def distinct_retain_fresh split: option.splits if_splits)

lemma ps_inv_prune_if_due [inv_intros]: "ps_inv s \<Longrightarrow> ps_inv (prune_if_due now s)"
  by (simp add: prune_if_due_def ps_inv_prune)

lemma ps_inv_new [inv_intros]: "ps_inv (ps_new now t)"
  by (simp add: ps_inv_def ps_new_def)

lemma ps_inv_announce [inv_intros]: "ps_inv s \<Longrightarrow> ps_inv (fst (ps_announce now s h p))"
  using ps_inv_prune_if_due [of s now]
  by (auto simp: ps_announce_def Let_def ps_inv_def distinct_update split: option.splits)

lemma ps_inv_get [inv_intros]: "ps_inv s \<Longrightarrow> ps_inv (fst (ps_get now s h limit))"
  using ps_inv_prune_if_due [of s now]
  by (auto simp: ps_get_def Let_def ps_inv_def distinct_retain_fresh split: option.splits if_splits)

text \<open>Pruning at \<open>now\<close> loses nothing that is live at \<open>now\<close> or later.\<close>

lemma live_prune:
  assumes "ps_inv s" and "ttl s \<le> now" and "now \<le> n"
  shows "live_peers (ps_prune now s) n h = live_peers s n h"
  using assms cutoff_mono [OF assms(3,2)]
  by (auto simp: live_peers_def announced_prune split: option.splits if_splits)

lemma live_prune_if_due:
  assumes "ps_inv s" and "ttl s \<le> now" and "now \<le> n"
  shows "live_peers (prune_if_due now s) n h = live_peers s n h"
  using live_prune [OF assms] by (simp add: prune_if_due_def)

lemma announced_announce:
  assumes "snd (ps_announce now s h p)"
  shows "announced (fst (ps_announce now s h p)) =
    (announced (prune_if_due now s))(h := (announced (prune_if_due now s) h)(p \<mapsto> now))"
  using assms
  by (auto simp: announced_def ps_announce_def Let_def fun_eq_iff update_conv' split: option.splits if_splits)

lemma ttl_announce [simp]:
  "ttl (fst (ps_announce now s h p)) = ttl s"
  "expiration_cutoff n (fst (ps_announce now s h p)) = expiration_cutoff n s"
  by (simp_all add: ps_announce_def Let_def)

lemma live_announce:
  assumes "ps_inv s" and "ttl s \<le> now" and "now \<le> n" and "snd (ps_announce now s h p)"
  shows "live_peers (fst (ps_announce now s h p)) n h' =
    (if h' = h then (if n - ttl s \<le> now then insert p (live_peers s n h) else live_peers s n h - {p})
     else live_peers s n h')"
proof -
  have "live_peers (prune_if_due now s) n k = live_peers s n k" for k
    using assms(1-3) by (rule live_prune_if_due)
  moreover have "expiration_cutoff n s = n - ttl s" using assms(2,3) by (simp add: expiration_cutoff_def)
  ultimately show ?thesis
    using announced_announce [OF assms(4)] by (auto simp: live_peers_def set_eq_iff)
qed

lemma map_fst_retain_fresh:
  "distinct (map fst sw) \<Longrightarrow> set (map fst (retain_fresh c sw)) = {p. \<exists>t. map_of sw p = Some t \<and> c \<le> t}"
  by (force simp: retain_fresh_def)

lemma ps_get_result:
  assumes "ps_inv s"
  obtains kept where "snd (ps_get now s h limit) = take limit kept" "distinct kept"
    "set kept = live_peers (prune_if_due now s) now h"
proof (cases "ps_peers (prune_if_due now s) h")
  case None
  with that [of "[]"] show ?thesis by (simp add: ps_get_def Let_def live_peers_def announced_def)
next
  case (Some sw)
  let ?c = "expiration_cutoff now s"
  have d: "distinct (map fst sw)"
    using ps_inv_prune_if_due [OF assms, of now] Some by (simp add: ps_inv_def)
  have "set (map fst (retain_fresh ?c sw)) = live_peers (prune_if_due now s) now h"
    unfolding map_fst_retain_fresh [OF d] using Some by (simp add: live_peers_def announced_def)
  with that [of "map fst (retain_fresh ?c sw)"] Some distinct_retain_fresh [OF d] show ?thesis
    by (simp add: ps_get_def Let_def)
qed

lemma announced_get:
  assumes "ps_inv s"
  shows "announced (fst (ps_get now s h limit)) k q =
    (case announced (prune_if_due now s) k q of
       Some t \<Rightarrow> if k \<noteq> h \<or> expiration_cutoff now s \<le> t then Some t else None | None \<Rightarrow> None)"
proof (cases "ps_peers (prune_if_due now s) h")
  case None
  then show ?thesis by (auto simp: ps_get_def Let_def announced_def split: option.splits)
next
  case (Some sw)
  then have d: "distinct (map fst sw)"
    using ps_inv_prune_if_due [OF assms, of now] by (simp add: ps_inv_def)
  show ?thesis
    using Some map_of_retain_fresh [OF d, of "expiration_cutoff now s" q]
    by (auto simp: ps_get_def Let_def announced_def split: option.splits)
qed

lemma live_get:
  assumes "ps_inv s" and "ttl s \<le> now" and "now \<le> n"
  shows "live_peers (fst (ps_get now s h limit)) n k = live_peers s n k"
proof -
  have c: "expiration_cutoff n (fst (ps_get now s h limit)) = expiration_cutoff n s"
    by (auto simp: ps_get_def Let_def split: option.splits)
  have "live_peers (fst (ps_get now s h limit)) n k = live_peers (prune_if_due now s) n k"
    using announced_get [OF assms(1)] cutoff_mono [OF assms(3,2)]
    by (fastforce simp: live_peers_def c split: option.splits if_splits)
  then show ?thesis using live_prune_if_due [OF assms] by simp
qed

lemma ps_get_limit:
  assumes "ps_inv s" and "ttl s \<le> now" and "card (live_peers s now h) \<le> k"
  shows "set (snd (ps_get now s h k)) = live_peers s now h"
proof -
  have eq: "live_peers (prune_if_due now s) now h = live_peers s now h"
    using assms by (intro live_prune_if_due) auto
  obtain kept where kept: "snd (ps_get now s h k) = take k kept" "distinct kept"
    "set kept = live_peers s now h"
    using ps_get_result [OF assms(1), of now h k, unfolded eq] by blast
  then have "length kept \<le> k" using distinct_card [OF kept(2)] assms(3) by simp
  with kept show ?thesis by simp
qed

lemma ttl_get [simp]: "ttl (fst (ps_get now s h k)) = ttl s"
  by (auto simp: ps_get_def Let_def split: option.splits)

text \<open>The peer store provides the registry that the protocol state relies on.\<close>

interpretation ps: peer_registry ps_announce ps_get live_peers ttl ps_inv
proof unfold_locales
  show "\<And>s now h p. ps_inv s \<Longrightarrow> ps_inv (fst (ps_announce now s h p))" by (rule ps_inv_announce)
  show "\<And>s now h k. ps_inv s \<Longrightarrow> ps_inv (fst (ps_get now s h k))" by (rule ps_inv_get)
  show "\<And>now s h p. \<not> snd (ps_announce now s h p) \<Longrightarrow> fst (ps_announce now s h p) = s"
    by (auto simp: ps_announce_def Let_def split: if_splits)
  show "\<And>s now n h p. ps_inv s \<Longrightarrow> ttl s \<le> now \<Longrightarrow> now \<le> n \<Longrightarrow> n - ttl s \<le> now
      \<Longrightarrow> snd (ps_announce now s h p)
      \<Longrightarrow> live_peers (fst (ps_announce now s h p)) n h = insert p (live_peers s n h)"
    by (simp add: live_announce)
  show "\<And>s now n h k h'. ps_inv s \<Longrightarrow> ttl s \<le> now \<Longrightarrow> now \<le> n
      \<Longrightarrow> live_peers (fst (ps_get now s h k)) n h' = live_peers s n h'"
    by (rule live_get)
  show "\<And>s now h k. ps_inv s \<Longrightarrow> ttl s \<le> now \<Longrightarrow> card (live_peers s now h) \<le> k
      \<Longrightarrow> set (snd (ps_get now s h k)) = live_peers s now h"
    by (rule ps_get_limit)
  show "set (snd (ps_get now s h k)) \<subseteq> live_peers s now h" if "ps_inv s" "ttl s \<le> now" for s now h k
  proof -
    have eq: "live_peers (prune_if_due now s) now h = live_peers s now h"
      using that by (intro live_prune_if_due) auto
    show ?thesis
      using ps_get_result [OF that(1), of now h k, unfolded eq] by (metis set_take_subset)
  qed
qed simp_all

section \<open>Results\<close>

text \<open>
  \<^verbatim>\<open>PeerStore::get\<close> returns distinct peers, each of them announced within the time to live,
  and all of those unless the limit cuts the list: exactly \<open>min limit n\<close> of the \<open>n\<close> live peers.
  It leaves the live peers of every swarm, now and later, as they were.
\<close>

theorem ps_get_returns_live:
  assumes "ps_inv s" and "ttl s \<le> now"
  shows "set (snd (ps_get now s h limit)) \<subseteq> live_peers s now h
    \<and> distinct (snd (ps_get now s h limit))
    \<and> length (snd (ps_get now s h limit)) = min limit (card (live_peers s now h))
    \<and> (\<forall>n \<ge> now. \<forall>k. live_peers (fst (ps_get now s h limit)) n k = live_peers s n k)"
proof -
  have eq: "live_peers (prune_if_due now s) now h = live_peers s now h"
    using assms by (intro live_prune_if_due) auto
  obtain kept where kept: "snd (ps_get now s h limit) = take limit kept" "distinct kept"
    "set kept = live_peers s now h"
    using ps_get_result [OF assms(1), of now h limit, unfolded eq] by blast
  have "length kept = card (live_peers s now h)"
    using distinct_card [OF kept(2)] kept(3) by simp
  then show ?thesis
    using kept live_get [OF assms] by (auto dest: in_set_takeD)
qed

text \<open>
  An accepted announcement is visible to \<^verbatim>\<open>get\<close> until its time to live has passed, and
  not after: for every later instant the live peers of the announced swarm are the old ones with
  the peer added, or removed once it has expired, and every other swarm is unchanged. Endpoints
  with port zero or an unspecified address are refused and change nothing.
\<close>

theorem ps_announce_visible_until_expiry:
  assumes "ps_inv s" and "ttl s \<le> now" and "now \<le> n"
  shows "(if port p = 0 \<or> is_unspecified (ip p) then ps_announce now s h p = (s, False)
     else snd (ps_announce now s h p) \<and>
       live_peers (fst (ps_announce now s h p)) n h' =
         (if h' = h then (if n - ttl s \<le> now then insert p (live_peers s n h) else live_peers s n h - {p})
          else live_peers s n h'))"
proof (cases "port p = 0 \<or> is_unspecified (ip p)")
  case False
  then have "snd (ps_announce now s h p)" by (simp add: ps_announce_def Let_def)
  with False live_announce [OF assms] show ?thesis by simp
qed (auto simp: ps_announce_def)

definition example_peer :: socket_addr where
  "example_peer = \<lparr>ip = V4 [192, 0, 2, 1], port = 6881\<rparr>"

theorem ps_announce_visible_until_expiry_witness:
  "example_peer \<in> live_peers (fst (ps_announce 100 (ps_new 90 60) [1] example_peer)) 160 [1] \<and>
   example_peer \<notin> live_peers (fst (ps_announce 100 (ps_new 90 60) [1] example_peer)) 161 [1]"
proof -
  have pre: "ps_inv (ps_new 90 60)" "ttl (ps_new 90 60) \<le> 100" "\<not> (port example_peer = 0 \<or> is_unspecified (ip example_peer))"
    by (simp_all add: ps_inv_def ps_new_def example_peer_def)
  show ?thesis
    using ps_announce_visible_until_expiry [OF pre(1,2), of 160 example_peer "[1]" "[1]"]
      ps_announce_visible_until_expiry [OF pre(1,2), of 161 example_peer "[1]" "[1]"] pre(3)
    by (simp add: ps_new_def)
qed

theorem ps_get_returns_live_witness:
  "length (snd (ps_get 150 (fst (ps_announce 100 (ps_new 90 60) [1] example_peer)) [1] 10)) \<le> 1 \<and>
   set (snd (ps_get 150 (fst (ps_announce 100 (ps_new 90 60) [1] example_peer)) [1] 10)) \<subseteq> {example_peer}"
proof -
  let ?s = "fst (ps_announce 100 (ps_new 90 60) [1] example_peer)"
  have pre: "ps_inv ?s" "ttl ?s \<le> 150"
    by (auto intro: inv_intros) (simp add: ps_new_def)
  have live: "live_peers ?s 150 [1] = {example_peer}"
    by (auto simp: live_peers_def announced_def ps_announce_def prune_if_due_def ps_new_def
        PRUNE_INTERVAL_DIVISOR_def expiration_cutoff_def example_peer_def Let_def ps_prune_def
        split: if_splits)
  show ?thesis using ps_get_returns_live [OF pre, of "[1]" 10] unfolding live by simp
qed

end
