(* ===== verification/Dht_Token.thy ===== *)
theory Dht_Token
  imports Dht_Compact
begin

text \<open>
  Announce tokens, \<^verbatim>\<open>dht/token.rs\<close>. The clock reading and the secrets that \<^verbatim>\<open>random()\<close> draws are
  arguments of the operations (\<open>rnd\<close> is the pair drawn by one rotation: the replacement of the
  previous secret, used only when two intervals have passed, and the new current secret). SHA-1
  comes from a crate and is the parameter \<open>sha1\<close>.
\<close>

definition TOKEN_LEN :: nat where "TOKEN_LEN = 8"
definition RETAINED_TOKEN_GENERATIONS :: nat where "RETAINED_TOKEN_GENERATIONS = 2"

text \<open>\<^verbatim>\<open>Duration\<close> in nanoseconds, with its maximum.\<close>

definition duration_max :: nat where "duration_max = (2 ^ 64 - 1) * 10 ^ 9 + 999999999"

definition duration_saturating_mul :: "duration \<Rightarrow> nat \<Rightarrow> duration" where
  "duration_saturating_mul d k = min (d * k) duration_max"

record token_manager =
  current_secret :: hash
  previous_secret :: hash
  rotated_at :: instant
  rotation_interval :: duration

section \<open>Operations\<close>

definition tm_new :: "duration \<Rightarrow> instant \<Rightarrow> hash \<times> hash \<Rightarrow> token_manager" where
  "tm_new interval now rnd =
     \<lparr>current_secret = fst rnd, previous_secret = snd rnd, rotated_at = now,
      rotation_interval = interval\<rparr>"

fun ip_octets :: "ip_addr \<Rightarrow> byte list" where
  "ip_octets (V4 bs) = bs"
| "ip_octets (V6 bs) = bs"

definition token :: "(byte list \<Rightarrow> hash) \<Rightarrow> hash \<Rightarrow> ip_addr \<Rightarrow> byte list" where
  "token sha1 secret a = take TOKEN_LEN (sha1 (secret @ ip_octets a))"

definition rotate_if_needed :: "instant \<Rightarrow> hash \<times> hash \<Rightarrow> token_manager \<Rightarrow> token_manager" where
  "rotate_if_needed now rnd m =
     (let elapsed = now - rotated_at m in
      if elapsed < rotation_interval m then m
      else m\<lparr>previous_secret :=
               (if elapsed < duration_saturating_mul (rotation_interval m) RETAINED_TOKEN_GENERATIONS
                then current_secret m else fst rnd),
             current_secret := snd rnd,
             rotated_at := now\<rparr>)"

definition tm_generate ::
  "(byte list \<Rightarrow> hash) \<Rightarrow> instant \<Rightarrow> hash \<times> hash \<Rightarrow> token_manager \<Rightarrow> ip_addr
     \<Rightarrow> token_manager \<times> byte list" where
  "tm_generate sha1 now rnd m a =
     (let m' = rotate_if_needed now rnd m in (m', token sha1 (current_secret m') a))"

definition tm_verify ::
  "(byte list \<Rightarrow> hash) \<Rightarrow> instant \<Rightarrow> hash \<times> hash \<Rightarrow> token_manager \<Rightarrow> byte list \<Rightarrow> ip_addr
     \<Rightarrow> token_manager \<times> bool" where
  "tm_verify sha1 now rnd m candidate a =
     (let m' = rotate_if_needed now rnd m in
      (m', candidate = token sha1 (current_secret m') a \<or>
           candidate = token sha1 (previous_secret m') a))"

section \<open>Validity of a token\<close>

text \<open>
  Both operations act on the state by one rotation check, so a history of calls is the list of
  the instants (and random draws) at which they ran.
\<close>

type_synonym token_event = "instant \<times> (hash \<times> hash)"

fun tm_run :: "token_event list \<Rightarrow> token_manager \<Rightarrow> token_manager" where
  "tm_run [] m = m"
| "tm_run ((now, rnd) # es) m = tm_run es (rotate_if_needed now rnd m)"

text \<open>The secret that was current at instant \<open>s\<close> is still accepted.\<close>

definition secret_live :: "hash \<Rightarrow> instant \<Rightarrow> token_manager \<Rightarrow> bool" where
  "secret_live c s m =
     (current_secret m = c \<and> rotated_at m \<le> s \<and> s < rotated_at m + rotation_interval m \<or>
      previous_secret m = c \<and> s < rotated_at m)"

lemma rotate_interval [simp]: "rotation_interval (rotate_if_needed now rnd m) = rotation_interval m"
  by (simp add: rotate_if_needed_def Let_def)

lemma rotated_at_bound: "rotated_at m \<le> now \<Longrightarrow> rotated_at (rotate_if_needed now rnd m) \<le> now"
  by (simp add: rotate_if_needed_def Let_def)

lemma secret_live_start:
  assumes "rotated_at m \<le> s" and "0 < rotation_interval m"
  shows "secret_live (current_secret (rotate_if_needed s rnd m)) s (rotate_if_needed s rnd m)"
  using assms by (auto simp: secret_live_def rotate_if_needed_def Let_def)

lemma secret_live_rotate:
  assumes "secret_live c s m" and "s \<le> now" and "now < s + rotation_interval m"
    and "2 * rotation_interval m \<le> duration_max"
  shows "secret_live c s (rotate_if_needed now rnd m)"
  using assms
  by (auto simp: secret_live_def rotate_if_needed_def Let_def duration_saturating_mul_def
      RETAINED_TOKEN_GENERATIONS_def)

lemma secret_live_run:
  assumes "secret_live c s m" and "list_all (\<lambda>(now, rnd). s \<le> now \<and> now < s + rotation_interval m) es"
    and "2 * rotation_interval m \<le> duration_max"
  shows "secret_live c s (tm_run es m)"
  using assms
proof (induction es arbitrary: m)
  case (Cons e es)
  obtain now rnd where e: "e = (now, rnd)" by (cases e)
  have "secret_live c s (rotate_if_needed now rnd m)"
    using Cons.prems by (intro secret_live_rotate) (simp_all add: e)
  with Cons show ?case by (simp add: e)
qed simp

lemma tm_run_interval [simp]: "rotation_interval (tm_run es m) = rotation_interval m"
  by (induction es m rule: tm_run.induct) auto

lemma tm_run_snoc: "tm_run (es @ [(now, rnd)]) m = rotate_if_needed now rnd (tm_run es m)"
  by (induction es m rule: tm_run.induct) auto

lemma token_valid_while_live:
  assumes gen: "tm_generate sha1 s rnd m a = (m1, tok)"
    and start: "rotated_at m \<le> s"
    and between: "list_all (\<lambda>(t, r). s \<le> t \<and> t < s + rotation_interval m) es"
    and now: "s \<le> now" "now < s + rotation_interval m"
    and range: "2 * rotation_interval m \<le> duration_max"
  shows "snd (tm_verify sha1 now rnd' (tm_run es m1) tok a)"
proof -
  have m1: "m1 = rotate_if_needed s rnd m" and tok: "tok = token sha1 (current_secret m1) a"
    using gen by (auto simp: tm_generate_def Let_def)
  have live: "secret_live (current_secret m1) s m1"
    unfolding m1 using start now by (intro secret_live_start) auto
  have "secret_live (current_secret m1) s (tm_run (es @ [(now, rnd')]) m1)"
    by (rule secret_live_run [OF live]) (use between now range m1 in \<open>auto\<close>)
  then show ?thesis
    by (auto simp: tm_verify_def Let_def tm_run_snoc secret_live_def tok)
qed

text \<open>
  A token is accepted for its address for at least one rotation interval after it was
  issued, whatever other calls, and so rotations, happen in between.
\<close>

theorem token_valid_for_interval:
  assumes gen: "tm_generate sha1 s rnd m a = (m1, tok)"
    and start: "rotated_at m \<le> s"
    and between: "list_all (\<lambda>(t, r). s \<le> t \<and> t < s + rotation_interval m) es"
    and now: "s \<le> now" "now < s + rotation_interval m"
    and range: "2 * rotation_interval m \<le> duration_max"
  shows "snd (tm_verify sha1 now rnd' (tm_run es m1) tok a)"
  using assms by (rule token_valid_while_live)

text \<open>
  A hash that tells addresses apart, for the concrete instances: it keeps the last bytes of its
  input, padded to 20.
\<close>

definition suffix_hash :: "byte list \<Rightarrow> hash" where
  "suffix_hash bs = take 20 (rev bs @ replicate 20 0)"

theorem token_valid_for_interval_witness:
  "snd (tm_verify suffix_hash 118 ([4], [5])
     (tm_run [(70, ([2], [3]))] (tm_new 60 0 ([1], [9])))
     (token suffix_hash [1] (V4 [192, 0, 2, 10])) (V4 [192, 0, 2, 10]))"
proof -
  let ?m = "tm_new 60 0 ([1], [9])"
  have gen: "tm_generate suffix_hash 59 ([6], [7]) ?m (V4 [192, 0, 2, 10])
      = (?m, token suffix_hash [1] (V4 [192, 0, 2, 10]))"
    by (simp add: tm_generate_def rotate_if_needed_def tm_new_def Let_def)
  show ?thesis
    by (rule token_valid_for_interval [OF gen]) (simp_all add: tm_new_def duration_max_def)
qed

text \<open>
  A candidate is accepted only if it is the token of one of the two retained secrets for the
  asking address, and after two intervals without a call neither of the old secrets is retained:
  both are freshly drawn.
\<close>

theorem token_accepts_retained_only:
  "snd (tm_verify sha1 now rnd m candidate a) \<longleftrightarrow>
     candidate \<in> (\<lambda>secret. token sha1 secret a) `
       (if now - rotated_at m < rotation_interval m then {current_secret m, previous_secret m}
        else if now - rotated_at m < duration_saturating_mul (rotation_interval m) 2
        then {snd rnd, current_secret m} else {snd rnd, fst rnd})"
  by (auto simp: tm_verify_def rotate_if_needed_def Let_def RETAINED_TOKEN_GENERATIONS_def)

end
