(* ===== verification/Dht_Message.thy ===== *)
theory Dht_Message
  imports Dht_Compact
begin

text \<open>
  KRPC messages, \<^verbatim>\<open>dht/message.rs\<close>: the message types, the bencode-shaped wire records and the two
  conversions between them. Serialisation itself is the crate \<^verbatim>\<open>serde_bencode\<close>: the parameters
  \<open>ser\<close> and \<open>de\<close> of \<open>msg_encode\<close> and \<open>msg_decode\<close>.
\<close>

definition KRPC_PROTOCOL_ERROR :: int where "KRPC_PROTOCOL_ERROR = 203"

definition CLIENT_VERSION :: "byte list" where
  "CLIENT_VERSION = [84, 79, 48, 48]"

datatype query =
    Ping (query_id: node_id)
  | FindNode (query_id: node_id) (query_target: node_id)
  | GetPeers (query_id: node_id) (query_info_hash: node_id)
  | AnnouncePeer (query_id: node_id) (query_info_hash: node_id) (query_port: u16)
      (query_token: "byte list") (query_implied_port: bool)

record response =
  resp_id :: node_id
  resp_nodes :: "byte list option"
  resp_token :: "byte list option"
  resp_values :: "byte list list option"

record dht_error =
  err_code :: int
  err_message :: string

datatype dht_message =
    MQuery "byte list" query
  | MResponse "byte list" response
  | MError "byte list" dht_error

definition pong :: "node_id \<Rightarrow> response" where
  "pong i = \<lparr>resp_id = i, resp_nodes = None, resp_token = None, resp_values = None\<rparr>"

definition protocol_error :: "string \<Rightarrow> dht_error" where
  "protocol_error m = \<lparr>err_code = KRPC_PROTOCOL_ERROR, err_message = m\<rparr>"

section \<open>Wire records\<close>

record wire_arguments =
  wa_id :: "byte list"
  wa_target :: "byte list option"
  wa_info_hash :: "byte list option"
  wa_port :: "u16 option"
  wa_token :: "byte list option"
  wa_implied_port :: "byte option"

record wire_response =
  wr_id :: "byte list"
  wr_nodes :: "byte list option"
  wr_token :: "byte list option"
  wr_values :: "byte list list option"

record wire_message =
  wm_transaction_id :: "byte list"
  wm_kind :: string
  wm_query :: "string option"
  wm_arguments :: "wire_arguments option"
  wm_response :: "wire_response option"
  wm_error :: "(int \<times> string) option"
  wm_version :: "byte list option"

definition with_id :: "node_id \<Rightarrow> wire_arguments" where
  "with_id i = \<lparr>wa_id = i, wa_target = None, wa_info_hash = None, wa_port = None,
     wa_token = None, wa_implied_port = None\<rparr>"

definition wire_of_response :: "response \<Rightarrow> wire_response" where
  "wire_of_response r = \<lparr>wr_id = resp_id r, wr_nodes = resp_nodes r, wr_token = resp_token r,
     wr_values = resp_values r\<rparr>"

fun wire_of_query :: "query \<Rightarrow> string \<times> wire_arguments" where
  "wire_of_query (Ping i) = (''ping'', with_id i)"
| "wire_of_query (FindNode i target) = (''find_node'', (with_id i)\<lparr>wa_target := Some target\<rparr>)"
| "wire_of_query (GetPeers i info_hash) =
     (''get_peers'', (with_id i)\<lparr>wa_info_hash := Some info_hash\<rparr>)"
| "wire_of_query (AnnouncePeer i info_hash p tok implied_port) =
     (''announce_peer'',
      (with_id i)\<lparr>wa_info_hash := Some info_hash, wa_port := Some p, wa_token := Some tok,
        wa_implied_port := Some (if implied_port then 1 else 0)\<rparr>)"

fun wire_of_message :: "dht_message \<Rightarrow> wire_message" where
  "wire_of_message (MQuery tid q) =
     (let (name, arguments) = wire_of_query q in
      \<lparr>wm_transaction_id = tid, wm_kind = ''q'', wm_query = Some name,
       wm_arguments = Some arguments, wm_response = None, wm_error = None,
       wm_version = Some CLIENT_VERSION\<rparr>)"
| "wire_of_message (MResponse tid r) =
     \<lparr>wm_transaction_id = tid, wm_kind = ''r'', wm_query = None, wm_arguments = None,
      wm_response = Some (wire_of_response r), wm_error = None, wm_version = Some CLIENT_VERSION\<rparr>"
| "wire_of_message (MError tid e) =
     \<lparr>wm_transaction_id = tid, wm_kind = ''e'', wm_query = None, wm_arguments = None,
      wm_response = None, wm_error = Some (err_code e, err_message e),
      wm_version = Some CLIENT_VERSION\<rparr>"

definition node_argument :: "byte list option \<Rightarrow> string \<Rightarrow> string + node_id" where
  "node_argument value name =
     (case value of None \<Rightarrow> Inl (''DHT query is missing '' @ name)
      | Some bytes \<Rightarrow> node_id_try_from bytes)"

text \<open>The match on the query name in \<^verbatim>\<open>TryFrom<WireMessage> for Message\<close>.\<close>

definition query_of_wire :: "string \<Rightarrow> wire_arguments \<Rightarrow> node_id \<Rightarrow> string + query" where
  "query_of_wire name a i =
     (if name = ''ping'' then Inr (Ping i)
      else if name = ''find_node'' then
        (case node_argument (wa_target a) ''target'' of
           Inl e \<Rightarrow> Inl e | Inr target \<Rightarrow> Inr (FindNode i target))
      else if name = ''get_peers'' then
        (case node_argument (wa_info_hash a) ''info_hash'' of
           Inl e \<Rightarrow> Inl e | Inr h \<Rightarrow> Inr (GetPeers i h))
      else if name = ''announce_peer'' then
        (case node_argument (wa_info_hash a) ''info_hash'' of
           Inl e \<Rightarrow> Inl e
         | Inr h \<Rightarrow>
             (case wa_port a of
                None \<Rightarrow> Inl ''announce_peer is missing port''
              | Some p \<Rightarrow>
                  (case wa_token a of
                     None \<Rightarrow> Inl ''announce_peer is missing token''
                   | Some tok \<Rightarrow>
                       Inr (AnnouncePeer i h p tok
                         ((case wa_implied_port a of None \<Rightarrow> 0 | Some b \<Rightarrow> b) \<noteq> 0)))))
      else Inl (''unknown DHT query '' @ name))"

definition message_of_wire :: "wire_message \<Rightarrow> string + dht_message" where
  "message_of_wire w =
     (let tid = wm_transaction_id w in
      if wm_kind w = ''q'' then
        (case wm_query w of
           None \<Rightarrow> Inl ''DHT query is missing q''
         | Some name \<Rightarrow>
             (case wm_arguments w of
                None \<Rightarrow> Inl ''DHT query is missing a''
              | Some a \<Rightarrow>
                  (case node_id_try_from (wa_id a) of
                     Inl e \<Rightarrow> Inl e
                   | Inr i \<Rightarrow>
                       (case query_of_wire name a i of
                          Inl e \<Rightarrow> Inl e | Inr q \<Rightarrow> Inr (MQuery tid q)))))
      else if wm_kind w = ''r'' then
        (case wm_response w of
           None \<Rightarrow> Inl ''DHT response is missing r''
         | Some r \<Rightarrow>
             (case node_id_try_from (wr_id r) of
                Inl e \<Rightarrow> Inl e
              | Inr i \<Rightarrow>
                  Inr (MResponse tid
                    \<lparr>resp_id = i, resp_nodes = wr_nodes r, resp_token = wr_token r,
                     resp_values = wr_values r\<rparr>)))
      else if wm_kind w = ''e'' then
        (case wm_error w of
           None \<Rightarrow> Inl ''DHT error is missing e''
         | Some (code, message) \<Rightarrow> Inr (MError tid \<lparr>err_code = code, err_message = message\<rparr>))
      else Inl (''unknown DHT message type '' @ wm_kind w))"

definition msg_encode :: "(wire_message \<Rightarrow> string + byte list) \<Rightarrow> dht_message \<Rightarrow> string + byte list" where
  "msg_encode ser m =
     (case ser (wire_of_message m) of
        Inl _ \<Rightarrow> Inl ''failed to encode DHT message'' | Inr b \<Rightarrow> Inr b)"

definition msg_decode :: "(byte list \<Rightarrow> string + wire_message) \<Rightarrow> byte list \<Rightarrow> string + dht_message" where
  "msg_decode de bytes =
     (case de bytes of
        Inl _ \<Rightarrow> Inl ''failed to decode DHT message'' | Inr w \<Rightarrow> message_of_wire w)"

section \<open>Well-formed messages and the round trip\<close>

fun query_ok :: "query \<Rightarrow> bool" where
  "query_ok (Ping i) = id_ok i"
| "query_ok (FindNode i target) = (id_ok i \<and> id_ok target)"
| "query_ok (GetPeers i h) = (id_ok i \<and> id_ok h)"
| "query_ok (AnnouncePeer i h p tok implied) = (id_ok i \<and> id_ok h)"

fun message_ok :: "dht_message \<Rightarrow> bool" where
  "message_ok (MQuery tid q) = query_ok q"
| "message_ok (MResponse tid r) = id_ok (resp_id r)"
| "message_ok (MError tid e) = True"

lemma node_id_try_from_ok: "node_id_try_from b = Inr i \<longleftrightarrow> i = b \<and> id_ok b"
  by (auto simp: node_id_try_from_def id_ok_def)

lemma node_argument_ok: "node_argument v n = Inr i \<longleftrightarrow> v = Some i \<and> id_ok i"
  by (auto simp: node_argument_def node_id_try_from_ok split: option.splits)

lemma query_roundtrip:
  "query_ok q \<Longrightarrow> query_of_wire (fst (wire_of_query q)) (snd (wire_of_query q)) (query_id q) = Inr q"
  by (cases q) (auto simp: query_of_wire_def with_id_def node_argument_def node_id_try_from_def id_ok_def)

lemma wire_query_id: "wa_id (snd (wire_of_query q)) = query_id q"
  by (cases q) (auto simp: with_id_def)

lemma query_ok_id: "query_ok q \<Longrightarrow> id_ok (query_id q)"
  by (cases q) auto

lemma message_wire_roundtrip: "message_ok m \<Longrightarrow> message_of_wire (wire_of_message m) = Inr m"
proof (cases m)
  case (MQuery tid q)
  assume "message_ok m"
  with MQuery have "query_ok q" by simp
  then show ?thesis
    using query_roundtrip [of q] wire_query_id [of q] query_ok_id [of q] MQuery
    by (auto simp: message_of_wire_def Let_def split_beta node_id_try_from_def id_ok_def)
qed (auto simp: message_of_wire_def wire_of_response_def node_id_try_from_def id_ok_def)

text \<open>
  Decoding an encoded message gives the message back. \<^verbatim>\<open>serde_bencode\<close> is assumed to
  deserialise what it serialised; the conversion between messages and wire records is the
  code's own and loses nothing of a message whose identifiers have 20 bytes.
\<close>

theorem msg_decode_encode:
  assumes serde: "\<And>w b. ser w = Inr b \<Longrightarrow> de b = Inr w"
    and "message_ok m" and "msg_encode ser m = Inr b"
  shows "msg_decode de b = Inr m"
proof -
  from assms(3) have "ser (wire_of_message m) = Inr b"
    by (auto simp: msg_encode_def split: sum.splits)
  then have "de b = Inr (wire_of_message m)" by (rule serde)
  with message_wire_roundtrip [OF assms(2)] show ?thesis by (simp add: msg_decode_def)
qed

text \<open>
  A concrete serialisation for the instance: it writes the transaction identifier of an error
  message with code 0 and no text, and refuses every other record.
\<close>

definition toy_ser :: "wire_message \<Rightarrow> string + byte list" where
  "toy_ser w = (if w = wire_of_message (MError (wm_transaction_id w) \<lparr>err_code = 0, err_message = []\<rparr>)
     then Inr (wm_transaction_id w) else Inl ''unsupported'')"

definition toy_de :: "byte list \<Rightarrow> string + wire_message" where
  "toy_de b = Inr (wire_of_message (MError b \<lparr>err_code = 0, err_message = []\<rparr>))"

theorem msg_decode_encode_witness:
  "msg_decode toy_de [97, 97] = Inr (MError [97, 97] \<lparr>err_code = 0, err_message = []\<rparr>)"
proof (rule msg_decode_encode [where ser = toy_ser])
  fix w b
  assume "toy_ser w = Inr b"
  then show "toy_de b = Inr w" by (auto simp: toy_ser_def toy_de_def split: if_splits)
qed (simp_all add: msg_encode_def toy_ser_def)

lemma query_of_wire_ok: "query_of_wire n a i = Inr q \<Longrightarrow> id_ok i \<Longrightarrow> query_ok q"
  by (auto simp: query_of_wire_def node_argument_ok split: if_splits sum.splits option.splits)

text \<open>
  Every message accepted from the wire is well-formed: all its identifiers have 20 bytes,
  and its kind is one of the three that BEP 5 defines.
\<close>

theorem message_of_wire_ok:
  assumes "message_of_wire w = Inr m"
  shows "message_ok m \<and> wm_kind w \<in> {''q'', ''r'', ''e''}"
  using assms query_of_wire_ok
  by (auto simp: message_of_wire_def Let_def node_id_try_from_ok
      split: if_splits sum.splits option.splits)

theorem message_of_wire_ok_witness:
  "message_ok (MQuery [97, 97] (Ping (replicate 20 1)))"
proof -
  have "message_of_wire (wire_of_message (MQuery [97, 97] (Ping (replicate 20 1))))
      = Inr (MQuery [97, 97] (Ping (replicate 20 1)))"
    by (simp add: message_of_wire_def Let_def with_id_def node_id_try_from_def DHT_ID_LEN_def
        query_of_wire_def)
  then show ?thesis using message_of_wire_ok by blast
qed

end
