(* ===== verification/Dht_State.thy ===== *)
theory Dht_State
  imports Dht_Routing Dht_Peers Dht_Token Dht_Message
begin

text \<open>
  The protocol state of the DHT actor, \<^verbatim>\<open>dht/state.rs\<close>: routing table, announce tokens and peer
  store behind the four BEP 5 queries. Hash function, clock reading and random draws are
  arguments. The results about the two stores come from the interpretations \<open>rt\<close> and
  \<open>ps\<close> of the interfaces.
\<close>

record dht_settings =
  set_bucket_size :: nat
  set_lookup_concurrency :: nat
  set_lookup_peer_limit :: nat
  set_token_rotation_interval :: duration
  set_peer_record_ttl :: duration

record dht_state =
  ds_routing :: routing_table
  ds_tokens :: token_manager
  ds_peers :: peer_store
  ds_peer_limit :: nat
  ds_bucket_size :: nat

section \<open>Operations\<close>

definition ds_new :: "instant \<Rightarrow> hash \<times> hash \<Rightarrow> node_id \<Rightarrow> dht_settings \<Rightarrow> dht_state" where
  "ds_new now rnd i settings =
     \<lparr>ds_routing = rt_new i (set_bucket_size settings),
      ds_tokens = tm_new (set_token_rotation_interval settings) now rnd,
      ds_peers = ps_new now (set_peer_record_ttl settings),
      ds_peer_limit = set_lookup_peer_limit settings,
      ds_bucket_size = set_bucket_size settings\<rparr>"

definition ds_id :: "dht_state \<Rightarrow> node_id" where
  "ds_id s = local_id (ds_routing s)"

definition learn_response ::
  "dht_state \<Rightarrow> response \<Rightarrow> socket_addr \<Rightarrow> dht_state \<times> (dht_error + unit)" where
  "learn_response s r source =
     (let t = fst (rt_insert (ds_routing s) (mk_contact (resp_id r) source)) in
      case resp_nodes r of
        None \<Rightarrow> (s\<lparr>ds_routing := t\<rparr>, Inr ())
      | Some nodes \<Rightarrow>
          (case decode_nodes nodes of
             Inl e \<Rightarrow> (s\<lparr>ds_routing := t\<rparr>, Inl (protocol_error e))
           | Inr contacts \<Rightarrow>
               (s\<lparr>ds_routing := foldl (\<lambda>t c. fst (rt_insert t c)) t contacts\<rparr>, Inr ())))"

definition handle_query ::
  "(byte list \<Rightarrow> hash) \<Rightarrow> instant \<Rightarrow> hash \<times> hash \<Rightarrow> dht_state \<Rightarrow> query \<Rightarrow> socket_addr
     \<Rightarrow> dht_state \<times> (dht_error + response)" where
  "handle_query sha1 now rnd s0 q source =
     (let s = s0\<lparr>ds_routing := fst (rt_insert (ds_routing s0) (mk_contact (query_id q) source))\<rparr> in
      case q of
        Ping _ \<Rightarrow> (s, Inr (pong (ds_id s)))
      | FindNode _ target \<Rightarrow>
          (s, Inr \<lparr>resp_id = ds_id s,
                   resp_nodes = Some (encode_nodes (closest (ds_routing s) target (ds_bucket_size s))),
                   resp_token = None, resp_values = None\<rparr>)
      | GetPeers _ info_hash \<Rightarrow>
          (let (store, peers) = ps_get now (ds_peers s) info_hash (ds_peer_limit s);
               nodes = (if peers = []
                 then Some (encode_nodes (closest (ds_routing s) info_hash (ds_bucket_size s)))
                 else None);
               (tokens, tok) = tm_generate sha1 now rnd (ds_tokens s) (ip source)
           in (s\<lparr>ds_peers := store, ds_tokens := tokens\<rparr>,
               Inr \<lparr>resp_id = ds_id s, resp_nodes = nodes, resp_token = Some tok,
                    resp_values = (if peers \<noteq> [] then Some (encode_peers peers) else None)\<rparr>))
      | AnnouncePeer _ info_hash p tok implied_port \<Rightarrow>
          (let (tokens, valid) = tm_verify sha1 now rnd (ds_tokens s) tok (ip source);
               s = s\<lparr>ds_tokens := tokens\<rparr>
           in if \<not> valid then (s, Inl (protocol_error ''invalid announce token''))
              else
                let peer = \<lparr>ip = ip source, port = (if implied_port then port source else p)\<rparr>;
                    (store, stored) = ps_announce now (ds_peers s) info_hash peer;
                    s = s\<lparr>ds_peers := store\<rparr>
                in if \<not> stored then (s, Inl (protocol_error ''invalid announced peer endpoint''))
                   else (s, Inr (pong (ds_id s)))))"

section \<open>The invariant\<close>

definition peers_ok :: "peer_store \<Rightarrow> bool" where
  "peers_ok s = (\<forall>h p t. announced s h p = Some t \<longrightarrow> addr_ok p)"

definition ds_inv :: "dht_state \<Rightarrow> bool" where
  "ds_inv s = (routing_inv (ds_routing s) \<and> ps_inv (ds_peers s) \<and> peers_ok (ds_peers s))"

lemma peers_ok_new: "peers_ok (ps_new now t)"
  by (simp add: peers_ok_def announced_def ps_new_def)

lemma announced_prune_sub:
  "ps_inv s \<Longrightarrow> announced (prune_if_due now s) h p = Some t \<Longrightarrow> announced s h p = Some t"
  by (auto simp: prune_if_due_def announced_prune split: if_splits option.splits)

lemma peers_ok_get: "ps_inv s \<Longrightarrow> peers_ok s \<Longrightarrow> peers_ok (fst (ps_get now s h k))"
  using announced_prune_sub [of s]
  by (fastforce simp: peers_ok_def announced_get split: option.splits if_splits)

lemma peers_ok_announce:
  assumes "ps_inv s" and "peers_ok s" and "addr_ok p"
  shows "peers_ok (fst (ps_announce now s h p))"
proof (cases "snd (ps_announce now s h p)")
  case True
  with assms announced_prune_sub [OF assms(1)] show ?thesis
    by (fastforce simp: peers_ok_def announced_announce split: if_splits)
qed (simp add: ps.announce_refused assms)

lemma live_peers_ok: "peers_ok s \<Longrightarrow> p \<in> live_peers s n h \<Longrightarrow> addr_ok p"
  by (auto simp: peers_ok_def live_peers_def)

lemma mk_contact_sel [simp]: "contact_id (mk_contact i a) = i" "contact_addr (mk_contact i a) = a"
  by (simp_all add: mk_contact_def)

lemma mk_contact_ok: "id_ok i \<Longrightarrow> addr_ok a \<Longrightarrow> contact_ok (mk_contact i a)"
  by (simp add: contact_ok_def)

lemma ds_inv_new [inv_intros]: "id_ok i \<Longrightarrow> ds_inv (ds_new now rnd i settings)"
  by (simp add: ds_inv_def ds_new_def routing_inv_new ps_inv_new peers_ok_new)

lemma learned_contacts_ok: "decode_nodes bytes = Inr cs \<Longrightarrow> list_all contact_ok cs"
  using decode_nodes_contacts_ok [of bytes cs]
  by (auto simp: list_all_iff v4_contact_ok_def contact_ok_def v4_addr_ok_def)

lemma learn_response_fields [simp]:
  "ds_peers (fst (learn_response s r a)) = ds_peers s"
  "ds_tokens (fst (learn_response s r a)) = ds_tokens s"
  "ds_peer_limit (fst (learn_response s r a)) = ds_peer_limit s"
  "ds_bucket_size (fst (learn_response s r a)) = ds_bucket_size s"
  by (auto simp: learn_response_def Let_def split: option.splits sum.splits)

lemma ds_inv_learn [inv_intros]:
  assumes "ds_inv s" and "id_ok (resp_id r)" and "addr_ok source"
  shows "ds_inv (fst (learn_response s r source))"
proof -
  let ?t = "fst (rt_insert (ds_routing s) (mk_contact (resp_id r) source))"
  have t: "routing_inv ?t"
    using assms by (intro rt.insert_invar mk_contact_ok) (simp_all add: ds_inv_def)
  have "routing_inv (ds_routing (fst (learn_response s r source)))"
  proof (cases "resp_nodes r")
    case (Some nodes)
    then show ?thesis
      using t rt.insert_all_invar [OF t learned_contacts_ok, of nodes]
      by (cases "decode_nodes nodes") (simp_all add: learn_response_def Let_def)
  qed (simp add: learn_response_def t)
  then show ?thesis using assms(1) by (simp add: ds_inv_def)
qed

lemma handle_query_routing:
  "ds_routing (fst (handle_query sha1 now rnd s q source))
     = fst (rt_insert (ds_routing s) (mk_contact (query_id q) source))"
  by (cases q) (auto simp: handle_query_def Let_def split_beta)

lemma handle_query_store:
  "ds_peers (fst (handle_query sha1 now rnd s q source)) =
     (case q of
        GetPeers _ h \<Rightarrow> fst (ps_get now (ds_peers s) h (ds_peer_limit s))
      | AnnouncePeer _ h p tok implied \<Rightarrow>
          if snd (tm_verify sha1 now rnd (ds_tokens s) tok (ip source))
          then fst (ps_announce now (ds_peers s) h
                 \<lparr>ip = ip source, port = (if implied then port source else p)\<rparr>)
          else ds_peers s
      | _ \<Rightarrow> ds_peers s)"
  by (cases q) (auto simp: handle_query_def Let_def split_beta)

lemma handle_query_tokens:
  "ds_tokens (fst (handle_query sha1 now rnd s q source)) =
     (case q of
        Ping _ \<Rightarrow> ds_tokens s | FindNode _ _ \<Rightarrow> ds_tokens s
      | _ \<Rightarrow> rotate_if_needed now rnd (ds_tokens s))"
  by (cases q) (auto simp: handle_query_def Let_def split_beta tm_generate_def tm_verify_def)

lemma handle_query_limits [simp]:
  "ds_peer_limit (fst (handle_query sha1 now rnd s q source)) = ds_peer_limit s"
  "ds_bucket_size (fst (handle_query sha1 now rnd s q source)) = ds_bucket_size s"
  "ds_id (fst (handle_query sha1 now rnd s q source)) = ds_id s"
  by (cases q; auto simp: handle_query_def Let_def split_beta ds_id_def)+

lemma ds_inv_query [inv_intros]:
  assumes "ds_inv s" and "query_ok q" and "addr_ok source"
  shows "ds_inv (fst (handle_query sha1 now rnd s q source))"
proof -
  have "routing_inv (ds_routing (fst (handle_query sha1 now rnd s q source)))"
    unfolding handle_query_routing using assms query_ok_id [OF assms(2)]
    by (intro rt.insert_invar mk_contact_ok) (simp_all add: ds_inv_def)
  moreover have "ps_inv (ds_peers (fst (handle_query sha1 now rnd s q source)))"
    unfolding handle_query_store using assms(1)
    by (auto simp: ds_inv_def split: query.split intro: ps.announce_invar ps.lookup_invar)
  moreover have "peers_ok (ds_peers (fst (handle_query sha1 now rnd s q source)))"
    unfolding handle_query_store using assms
    by (auto simp: ds_inv_def addr_ok_def split: query.split intro!: peers_ok_announce peers_ok_get)
  ultimately show ?thesis by (simp add: ds_inv_def)
qed

section \<open>Histories of queries\<close>

record query_event =
  ev_now :: instant
  ev_rnd :: "hash \<times> hash"
  ev_query :: query
  ev_source :: socket_addr

definition event_ok :: "query_event \<Rightarrow> bool" where
  "event_ok e = (query_ok (ev_query e) \<and> addr_ok (ev_source e))"

definition ds_step :: "(byte list \<Rightarrow> hash) \<Rightarrow> query_event \<Rightarrow> dht_state \<Rightarrow> dht_state" where
  "ds_step sha1 e s = fst (handle_query sha1 (ev_now e) (ev_rnd e) s (ev_query e) (ev_source e))"

definition ds_run :: "(byte list \<Rightarrow> hash) \<Rightarrow> query_event list \<Rightarrow> dht_state \<Rightarrow> dht_state" where
  "ds_run sha1 es s = fold (ds_step sha1) es s"

lemma ds_run_simps [simp]:
  "ds_run sha1 [] s = s" "ds_run sha1 (e # es) s = ds_run sha1 es (ds_step sha1 e s)"
  by (simp_all add: ds_run_def)

lemma ttl_step [simp]: "ttl (ds_peers (ds_step sha1 e s)) = ttl (ds_peers s)"
  by (auto simp: ds_step_def handle_query_store split: query.split)

lemma ds_run_fields [simp]:
  "ttl (ds_peers (ds_run sha1 es s)) = ttl (ds_peers s)"
  "ds_peer_limit (ds_run sha1 es s) = ds_peer_limit s"
  by (induction es arbitrary: s) (simp_all, simp add: ds_step_def)

lemma ds_inv_run [inv_intros]: "ds_inv s \<Longrightarrow> list_all event_ok es \<Longrightarrow> ds_inv (ds_run sha1 es s)"
  by (induction es arbitrary: s) (auto simp: ds_step_def event_ok_def intro: ds_inv_query)

definition token_events :: "query_event list \<Rightarrow> token_event list" where
  "token_events es =
     map (\<lambda>e. (ev_now e, ev_rnd e))
       (filter (\<lambda>e. case ev_query e of Ping _ \<Rightarrow> False | FindNode _ _ \<Rightarrow> False | _ \<Rightarrow> True) es)"

lemma tokens_run: "ds_tokens (ds_run sha1 es s) = tm_run (token_events es) (ds_tokens s)"
  by (induction es arbitrary: s)
    (auto simp: ds_step_def handle_query_tokens token_events_def split: query.split)

lemma token_events_between:
  "list_all (\<lambda>e. P (ev_now e)) es \<Longrightarrow> list_all (\<lambda>(t, r). P t) (token_events es)"
  by (auto simp: token_events_def list_all_iff)

lemma live_step_mono:
  assumes "ps_inv (ds_peers s)" and "ttl (ds_peers s) \<le> ev_now e" and "ev_now e \<le> n"
    and "n - ttl (ds_peers s) \<le> ev_now e"
  shows "live_peers (ds_peers s) n h \<subseteq> live_peers (ds_peers (ds_step sha1 e s)) n h"
proof (cases "ev_query e")
  case (GetPeers i k)
  then show ?thesis using ps.lookup_live [OF assms(1-3)] by (simp add: ds_step_def handle_query_store)
next
  case (AnnouncePeer i k p tok implied)
  let ?p = "\<lparr>ip = ip (ev_source e), port = (if implied then port (ev_source e) else p)\<rparr>"
  have "live_peers (ds_peers s) n h \<subseteq> live_peers (fst (ps_announce (ev_now e) (ds_peers s) k ?p)) n h"
  proof (cases "snd (ps_announce (ev_now e) (ds_peers s) k ?p)")
    case True
    with live_announce [OF assms(1-3) this, of h] assms(4) show ?thesis by auto
  next
    case False
    with ps.announce_refused [OF this] show ?thesis by simp
  qed
  with AnnouncePeer show ?thesis by (simp add: ds_step_def handle_query_store)
qed (auto simp: ds_step_def handle_query_store)

lemma live_run_mono:
  assumes "ds_inv s" and "list_all event_ok es"
    and "list_all (\<lambda>e. ttl (ds_peers s) \<le> ev_now e \<and> ev_now e \<le> n \<and> n - ttl (ds_peers s) \<le> ev_now e) es"
  shows "live_peers (ds_peers s) n h \<subseteq> live_peers (ds_peers (ds_run sha1 es s)) n h"
  using assms
proof (induction es arbitrary: s)
  case (Cons e es)
  have "ds_inv (ds_step sha1 e s)"
    using Cons.prems by (auto simp: ds_step_def event_ok_def intro: ds_inv_query)
  then have "live_peers (ds_peers (ds_step sha1 e s)) n h
      \<subseteq> live_peers (ds_peers (ds_run sha1 (e # es) s)) n h"
    using Cons.IH [of "ds_step sha1 e s"] Cons.prems by simp
  moreover have "live_peers (ds_peers s) n h \<subseteq> live_peers (ds_peers (ds_step sha1 e s)) n h"
    using Cons.prems by (intro live_step_mono) (simp_all add: ds_inv_def)
  ultimately show ?case by blast
qed simp

section \<open>Results\<close>

lemma get_peers_reply:
  "snd (handle_query sha1 now rnd s (GetPeers i h) source) =
     Inr \<lparr>resp_id = ds_id s,
       resp_nodes = (if snd (ps_get now (ds_peers s) h (ds_peer_limit s)) = []
         then Some (encode_nodes (closest (fst (rt_insert (ds_routing s) (mk_contact i source))) h
                      (ds_bucket_size s))) else None),
       resp_token = Some (snd (tm_generate sha1 now rnd (ds_tokens s) (ip source))),
       resp_values = (if snd (ps_get now (ds_peers s) h (ds_peer_limit s)) = [] then None
         else Some (encode_peers (snd (ps_get now (ds_peers s) h (ds_peer_limit s)))))\<rparr>"
  by (simp add: handle_query_def Let_def split_beta ds_id_def)

lemma announce_reply:
  assumes "snd (tm_verify sha1 now rnd (ds_tokens s) tok (ip source))"
    and "(if implied then port source else p) \<noteq> 0" and "\<not> is_unspecified (ip source)"
  shows "snd (handle_query sha1 now rnd s (AnnouncePeer i h p tok implied) source) = Inr (pong (ds_id s))"
  using assms by (simp add: handle_query_def Let_def split_beta ds_id_def ps_announce_def)

lemma live_after_announce:
  assumes "ds_inv s" and "ttl (ds_peers s) \<le> now" and "now \<le> n" and "n - ttl (ds_peers s) \<le> now"
    and "snd (tm_verify sha1 now rnd (ds_tokens s) tok (ip source))"
    and "(if implied then port source else p) \<noteq> 0" and "\<not> is_unspecified (ip source)"
  shows "\<lparr>ip = ip source, port = (if implied then port source else p)\<rparr>
    \<in> live_peers (ds_peers (fst (handle_query sha1 now rnd s (AnnouncePeer i h p tok implied) source))) n h"
proof -
  let ?p = "\<lparr>ip = ip source, port = (if implied then port source else p)\<rparr>"
  have "snd (ps_announce now (ds_peers s) h ?p)" using assms(6,7) by (simp add: ps_announce_def Let_def)
  from ps.announce_live [OF _ assms(2-4) this] assms(1,5) show ?thesis
    by (simp add: handle_query_store ds_inv_def)
qed

lemma get_peers_finds:
  assumes "ds_inv s" and "ttl (ds_peers s) \<le> n" and "p \<in> live_peers (ds_peers s) n h" and "is_v4 p"
    and "card (live_peers (ds_peers s) n h) \<le> ds_peer_limit s"
  shows "\<exists>r vs ps. snd (handle_query sha1 n rnd s (GetPeers j h) asker) = Inr r \<and>
    resp_values r = Some vs \<and> decode_peers vs = Inr ps \<and> p \<in> set ps"
proof -
  let ?got = "snd (ps_get n (ds_peers s) h (ds_peer_limit s))"
  have got: "set ?got = live_peers (ds_peers s) n h"
    using assms by (intro ps.lookup_all) (simp_all add: ds_inv_def)
  then have "list_all addr_ok ?got"
    using live_peers_ok [of "ds_peers s"] assms(1) by (auto simp: list_all_iff ds_inv_def)
  moreover have "p \<in> set ?got" "?got \<noteq> []" using assms(3) got by auto
  ultimately show ?thesis
    using decode_encode_peers [of ?got] assms(4) by (simp add: get_peers_reply)
qed

text \<open>
  The announce cycle of BEP 5, end to end. A node that asked for peers at \<open>s\<close> and announces
  itself with the token of the reply, from the same address and within one rotation interval,
  is accepted whatever queries come in between; from then on, until its record expires, its
  endpoint is live in the swarm and a \<^verbatim>\<open>get_peers\<close> by any node returns it, in a compact peer list
  that decodes, as long as the swarm's live peers fit the limit.
\<close>

theorem announce_cycle:
  fixes st :: dht_state and sha1 :: "byte list \<Rightarrow> hash" and s :: instant and rnd :: "hash \<times> hash"
    and i h :: node_id and source :: socket_addr and prt :: u16
  defines "st1 \<equiv> fst (handle_query sha1 s rnd st (GetPeers i h) source)"
    and "p \<equiv> \<lparr>ip = ip source, port = prt\<rparr>"
  assumes inv: "ds_inv st" and ok: "id_ok i" "id_ok h" "v4_addr_ok source"
    and clock: "rotated_at (ds_tokens st) \<le> s" "ttl (ds_peers st) \<le> s"
    and range: "2 * rotation_interval (ds_tokens st) \<le> duration_max"
    and reply: "snd (handle_query sha1 s rnd st (GetPeers i h) source) = Inr r" "resp_token r = Some tok"
    and es1: "list_all event_ok es1"
      "list_all (\<lambda>e. s \<le> ev_now e \<and> ev_now e < s + rotation_interval (ds_tokens st)) es1"
    and ann: "s \<le> a" "a < s + rotation_interval (ds_tokens st)" "prt \<noteq> 0" "\<not> is_unspecified (ip source)"
    and es2: "list_all event_ok es2" "list_all (\<lambda>e. a \<le> ev_now e \<and> ev_now e \<le> n) es2"
    and later: "a \<le> n" "n \<le> a + ttl (ds_peers st)"
  shows "case handle_query sha1 a rnd' (ds_run sha1 es1 st1) (AnnouncePeer i h prt tok False) source of
      (st2, result) \<Rightarrow>
        result = Inr (pong (ds_id (ds_run sha1 es1 st1))) \<and>
        p \<in> live_peers (ds_peers (ds_run sha1 es2 st2)) n h \<and>
        (card (live_peers (ds_peers (ds_run sha1 es2 st2)) n h) \<le> ds_peer_limit st \<longrightarrow>
          (\<exists>r' vs ps. snd (handle_query sha1 n rnd'' (ds_run sha1 es2 st2) (GetPeers j h) asker) = Inr r' \<and>
             resp_values r' = Some vs \<and> decode_peers vs = Inr ps \<and> p \<in> set ps))"
proof -
  let ?st2 = "fst (handle_query sha1 a rnd' (ds_run sha1 es1 st1) (AnnouncePeer i h prt tok False) source)"
  let ?st3 = "ds_run sha1 es2 ?st2"
  have aok: "addr_ok source" using ok(3) by (simp add: v4_addr_ok_def)
  have inv1: "ds_inv (ds_run sha1 es1 st1)"
    unfolding st1_def using inv ok aok es1(1) by (intro ds_inv_run ds_inv_query) simp_all
  have ttl1: "ttl (ds_peers st1) = ttl (ds_peers st)"
    by (simp add: st1_def handle_query_store)
  have gen: "tm_generate sha1 s rnd (ds_tokens st) (ip source) = (ds_tokens st1, tok)"
    using reply by (auto simp: st1_def handle_query_tokens get_peers_reply tm_generate_def Let_def)
  have verify: "snd (tm_verify sha1 a rnd' (ds_tokens (ds_run sha1 es1 st1)) tok (ip source))"
    unfolding tokens_run using token_events_between [OF es1(2)]
    by (intro token_valid_while_live [OF gen clock(1) _ ann(1,2) range])
  have live2: "p \<in> live_peers (ds_peers ?st2) n h"
    unfolding p_def using live_after_announce [OF inv1 _ _ _ verify, of n False prt i h]
      clock(2) ann later by (simp add: ttl1)
  have inv2: "ds_inv ?st2" using inv1 ok aok by (intro ds_inv_query) simp_all
  have ttl2: "ttl (ds_peers ?st2) = ttl (ds_peers st)" "ds_peer_limit ?st2 = ds_peer_limit st"
    using ttl1 by (simp add: handle_query_store) (simp add: st1_def)
  have es2': "list_all (\<lambda>e. ttl (ds_peers ?st2) \<le> ev_now e \<and> ev_now e \<le> n \<and> n - ttl (ds_peers ?st2) \<le> ev_now e) es2"
    using es2(2) clock(2) ann(1) later unfolding ttl2 by (auto simp: list_all_iff)
  have live3: "p \<in> live_peers (ds_peers ?st3) n h"
    using live_run_mono [OF inv2 es2(1) es2'] live2 by blast
  have "is_v4 p" using ok(3) by (simp add: p_def v4_addr_ok_def is_v4_def)
  with get_peers_finds [OF ds_inv_run [OF inv2 es2(1)] _ live3]
  have found: "\<exists>r' vs ps. snd (handle_query sha1 n rnd'' ?st3 (GetPeers j h) asker) = Inr r' \<and>
      resp_values r' = Some vs \<and> decode_peers vs = Inr ps \<and> p \<in> set ps"
    if "card (live_peers (ds_peers ?st3) n h) \<le> ds_peer_limit st"
    using that clock(2) ann(1) later(1) ttl2 by simp
  have "snd (handle_query sha1 a rnd' (ds_run sha1 es1 st1) (AnnouncePeer i h prt tok False) source)
      = Inr (pong (ds_id (ds_run sha1 es1 st1)))"
    using announce_reply [OF verify] ann(3,4) by simp
  with live3 found show ?thesis by (auto simp: split_beta)
qed

text \<open>
  A query changes the live peers of a swarm only as an announcement of the sender's own
  address under a token issued to that address: a peer that is live after the query and was not
  before carries the IP address of the query's source, and the query was an \<^verbatim>\<open>announce_peer\<close> for this
  swarm whose token verifies for that source. A rejected announcement leaves the store as it is.
\<close>

theorem announce_only_own_address:
  assumes inv: "ds_inv s" and "ttl (ds_peers s) \<le> now" and "now \<le> n"
    and new: "p \<in> live_peers (ds_peers (fst (handle_query sha1 now rnd s q source))) n h"
    and old: "p \<notin> live_peers (ds_peers s) n h"
  shows "\<exists>i prt tok implied. q = AnnouncePeer i h prt tok implied \<and>
    p = \<lparr>ip = ip source, port = (if implied then port source else prt)\<rparr> \<and> port p \<noteq> 0 \<and>
    snd (tm_verify sha1 now rnd (ds_tokens s) tok (ip source))"
proof -
  have pinv: "ps_inv (ds_peers s)" using inv by (simp add: ds_inv_def)
  show ?thesis
  proof (cases q)
    case (GetPeers i k)
    with new old ps.lookup_live [OF pinv assms(2,3)] show ?thesis by (simp add: handle_query_store)
  next
    case (AnnouncePeer i k prt tok implied)
    let ?p = "\<lparr>ip = ip source, port = (if implied then port source else prt)\<rparr>"
    let ?ann = "ps_announce now (ds_peers s) k ?p"
    have valid: "snd (tm_verify sha1 now rnd (ds_tokens s) tok (ip source))"
      and new': "p \<in> live_peers (fst ?ann) n h"
      using new old AnnouncePeer by (simp_all add: handle_query_store split: if_splits)
    have stored: "snd ?ann" using new' old ps.announce_refused by metis
    then have "port ?p \<noteq> 0" by (auto simp: ps_announce_def split: if_splits)
    moreover have "k = h \<and> p = ?p"
      using live_announce [OF pinv assms(2,3) stored, of h] new' old by (auto split: if_splits)
    ultimately show ?thesis using AnnouncePeer valid by blast
  qed (use new old in \<open>simp_all add: handle_query_store\<close>)
qed

inductive ds_reachable :: "(byte list \<Rightarrow> hash) \<Rightarrow> dht_state \<Rightarrow> bool" for sha1 where
  start: "id_ok i \<Longrightarrow> ds_reachable sha1 (ds_new now rnd i settings)"
| query: "ds_reachable sha1 s \<Longrightarrow> event_ok e \<Longrightarrow> ds_reachable sha1 (ds_step sha1 e s)"
| learn: "ds_reachable sha1 s \<Longrightarrow> id_ok (resp_id r) \<Longrightarrow> addr_ok a
    \<Longrightarrow> ds_reachable sha1 (fst (learn_response s r a))"
| failure: "ds_reachable sha1 s \<Longrightarrow> id_ok i
    \<Longrightarrow> ds_reachable sha1 (s\<lparr>ds_routing := record_failure (ds_routing s) i\<rparr>)"

lemma ds_reachable_inv: "ds_reachable sha1 s \<Longrightarrow> ds_inv s"
proof (induction rule: ds_reachable.induct)
  case (query s e)
  then show ?case by (auto simp: ds_step_def event_ok_def intro: ds_inv_query)
next
  case (failure s i)
  then show ?case by (simp add: ds_inv_def routing_inv_record_failure)
qed (auto intro: inv_intros)

definition query_target_of :: "query \<Rightarrow> node_id" where
  "query_target_of q = (case q of FindNode _ t \<Rightarrow> t | GetPeers _ h \<Rightarrow> h | _ \<Rightarrow> query_id q)"


definition example_settings :: dht_settings where
  "example_settings = \<lparr>set_bucket_size = 8, set_lookup_concurrency = 3, set_lookup_peer_limit = 50,
     set_token_rotation_interval = 300, set_peer_record_ttl = 1800\<rparr>"

definition example_id :: "byte \<Rightarrow> node_id" where "example_id b = replicate 20 b"

lemma example_id_ok [simp]: "id_ok (example_id b)"
  by (simp add: example_id_def id_ok_def DHT_ID_LEN_def)

definition example_state :: dht_state where
  "example_state = ds_new 1000 ([1], [9]) (example_id 1) example_settings"

lemma example_state_facts:
  "ds_inv example_state" "ds_reachable sha1 example_state"
  "ds_tokens example_state = tm_new 300 1000 ([1], [9])" "ds_peers example_state = ps_new 1000 1800"
  "ds_peer_limit example_state = 50"
  unfolding example_state_def
  by (simp_all add: ds_inv_new ds_reachable.start, simp_all add: ds_new_def example_settings_def)

lemma example_source_ok [simp]: "v4_addr_ok example_peer" "addr_ok example_peer"
  by (simp_all add: example_peer_def v4_addr_ok_def is_v4_def addr_ok_def)


definition example_ping :: query_event where
  "example_ping = \<lparr>ev_now = 2100, ev_rnd = ([4], [5]), ev_query = GetPeers (example_id 8) (example_id 7),
     ev_source = example_peer\<rparr>"

theorem announce_cycle_witness:
  "let st1 = fst (handle_query suffix_hash 2000 ([2], [3]) example_state
                    (GetPeers (example_id 5) (example_id 7)) example_peer);
       st = ds_run suffix_hash [example_ping] st1;
       tok = token suffix_hash [3] (V4 [192, 0, 2, 1])
   in snd (handle_query suffix_hash 2200 ([6], [7]) st
             (AnnouncePeer (example_id 5) (example_id 7) 6881 tok False) example_peer)
      = Inr (pong (ds_id st))"
proof -
  let ?q = "GetPeers (example_id 5) (example_id 7)"
  let ?tok = "token suffix_hash [3] (V4 [192, 0, 2, 1])"
  have reply: "snd (handle_query suffix_hash 2000 ([2], [3]) example_state ?q example_peer)
      = Inr (projr (snd (handle_query suffix_hash 2000 ([2], [3]) example_state ?q example_peer)))"
    by (simp add: get_peers_reply)
  have tok: "resp_token (projr (snd (handle_query suffix_hash 2000 ([2], [3]) example_state ?q example_peer)))
      = Some ?tok"
    by (simp add: get_peers_reply example_state_facts tm_generate_def rotate_if_needed_def tm_new_def
        Let_def example_peer_def)
  show ?thesis
    using announce_cycle [OF example_state_facts(1) _ _ _ _ _ _ reply tok, where ?es1.0 = "[example_ping]"
        and ?es2.0 = "[]" and a = 2200 and n = 3000 and prt = 6881 and rnd' = "([6], [7])"]
    by (simp add: example_state_facts tm_new_def ps_new_def duration_max_def event_ok_def
        example_ping_def example_peer_def v4_addr_ok_def is_v4_def addr_ok_def split_beta Let_def)
qed

theorem announce_only_own_address_witness:
  "\<exists>tok. snd (tm_verify suffix_hash 2000 ([2], [3]) (ds_tokens example_state) tok (ip example_peer)) \<and>
     example_peer \<in> live_peers (ds_peers (fst (handle_query suffix_hash 2000 ([2], [3]) example_state
       (AnnouncePeer (example_id 5) (example_id 7) 6881 tok False) example_peer))) 2500 (example_id 7)"
proof -
  let ?tok = "token suffix_hash [3] (ip example_peer)"
  let ?q = "AnnouncePeer (example_id 5) (example_id 7) 6881 ?tok False"
  have v: "snd (tm_verify suffix_hash 2000 ([2], [3]) (ds_tokens example_state) ?tok (ip example_peer))"
    by (simp add: tm_verify_def example_state_facts rotate_if_needed_def tm_new_def Let_def)
  have new: "example_peer \<in> live_peers (ds_peers (fst (handle_query suffix_hash 2000 ([2], [3])
      example_state ?q example_peer))) 2500 (example_id 7)"
    using live_after_announce [OF example_state_facts(1) _ _ _ v, of 2500 False 6881 "example_id 5" "example_id 7"]
    by (simp add: example_state_facts ps_new_def example_peer_def)
  have old: "example_peer \<notin> live_peers (ds_peers example_state) 2500 (example_id 7)"
    by (simp add: example_state_facts live_peers_def announced_def ps_new_def)
  have "\<exists>i prt tok implied. ?q = AnnouncePeer i (example_id 7) prt tok implied \<and>
      snd (tm_verify suffix_hash 2000 ([2], [3]) (ds_tokens example_state) tok (ip example_peer))"
    using announce_only_own_address [OF example_state_facts(1) _ _ new old]
    by (auto simp: example_state_facts ps_new_def)
  with new show ?thesis by auto
qed

end
