(* ===== verification/Dht_Lookup.thy ===== *)
theory Dht_Lookup
  imports Dht_State
begin

text \<open>
  The iterative lookup, \<^verbatim>\<open>dht/lookup.rs\<close>, and the announcement that follows it, \<^verbatim>\<open>dht/announce.rs\<close>.
  The network is the parameter \<open>net\<close>: what a query to an address gives (\<open>None\<close> for an error
  or a timeout). A lookup asks an address once, so a function of the address loses nothing. The
  order in which \<^verbatim>\<open>buffer_unordered\<close> yields the answers of a batch is the parameter \<open>arrival\<close>. Hash
  sets and maps are lists without duplicates, their order standing for the iteration order; the
  unstable sort is modelled by a stable one (contacts with equal distance have equal identifiers).
\<close>

type_synonym network = "socket_addr \<Rightarrow> response option"

record lookup_state =
  lk_candidates :: "contact list"
  lk_queried :: "socket_addr list"
  lk_peers :: "socket_addr list"
  lk_tokens :: "(contact \<times> byte list) list"
  lk_failed :: "node_id list"

record lookup_result =
  res_peers :: "socket_addr list"
  res_announce_candidates :: "(contact \<times> byte list) list"
  res_failed_nodes :: "node_id list"

record lookup_params =
  lp_info_hash :: node_id
  lp_concurrency :: nat
  lp_peer_limit :: nat
  lp_bucket_size :: nat

section \<open>One round\<close>

text \<open>\<^verbatim>\<open>HashSet::insert\<close> and \<^verbatim>\<open>extend\<close>.\<close>

definition set_add :: "'a \<Rightarrow> 'a list \<Rightarrow> 'a list" where
  "set_add x xs = (if x \<in> set xs then xs else xs @ [x])"

definition set_extend :: "'a list \<Rightarrow> 'a list \<Rightarrow> 'a list" where
  "set_extend xs ys = fold set_add ys xs"

text \<open>\<^verbatim>\<open>candidates.retain(|contact| unique_addresses.insert(contact.addr))\<close>.\<close>

fun retain_unique :: "socket_addr list \<Rightarrow> contact list \<Rightarrow> contact list" where
  "retain_unique seen [] = []"
| "retain_unique seen (c # cs) =
     (if contact_addr c \<in> set seen then retain_unique seen cs
      else c # retain_unique (contact_addr c # seen) cs)"

definition shortlist :: "lookup_params \<Rightarrow> contact list \<Rightarrow> contact list" where
  "shortlist pr cs =
     take (lp_bucket_size pr)
       (retain_unique [] (sort_key (\<lambda>c. distance (lp_info_hash pr) (contact_id c)) cs))"

definition next_batch :: "lookup_params \<Rightarrow> socket_addr list \<Rightarrow> contact list \<Rightarrow> contact list" where
  "next_batch pr queried cs =
     take (max (lp_concurrency pr) 1) (filter (\<lambda>c. contact_addr c \<notin> set queried) cs)"

definition nodes_of :: "response \<Rightarrow> contact list" where
  "nodes_of r = (case resp_nodes r of None \<Rightarrow> []
     | Some nodes \<Rightarrow> (case decode_nodes nodes of Inl _ \<Rightarrow> [] | Inr cs \<Rightarrow> cs))"

definition peers_of :: "response \<Rightarrow> socket_addr list" where
  "peers_of r = (case resp_values r of None \<Rightarrow> []
     | Some values \<Rightarrow> (case decode_peers values of Inl _ \<Rightarrow> [] | Inr ps \<Rightarrow> ps))"

text \<open>The body of the loop over the responses of a batch.\<close>

definition absorb :: "network \<Rightarrow> contact \<Rightarrow> lookup_state \<Rightarrow> lookup_state" where
  "absorb net c s =
     (case net (contact_addr c) of
        None \<Rightarrow> s\<lparr>lk_failed := set_add (contact_id c) (lk_failed s)\<rparr>
      | Some r \<Rightarrow>
          s\<lparr>lk_tokens := (case resp_token r of None \<Rightarrow> lk_tokens s
                          | Some tok \<Rightarrow> AList.update c tok (lk_tokens s)),
            lk_peers := set_extend (lk_peers s) (peers_of r),
            lk_candidates := lk_candidates s @ nodes_of r\<rparr>)"

definition lookup_round ::
  "network \<Rightarrow> (contact list \<Rightarrow> contact list) \<Rightarrow> contact list \<Rightarrow> lookup_state \<Rightarrow> lookup_state" where
  "lookup_round net arrival batch s =
     fold (absorb net) (arrival batch)
       (s\<lparr>lk_queried := lk_queried s @ map contact_addr batch\<rparr>)"

section \<open>The loop and its termination\<close>

lemma finite_v4: "finite {a. v4_addr_ok a}"
proof (rule finite_subset)
  let ?A = "(\<lambda>(bs, p). \<lparr>ip = V4 bs, port = p\<rparr>) ` ({bs. set bs \<subseteq> UNIV \<and> length bs = 4} \<times> UNIV)"
  show "finite ?A" by (intro finite_imageI finite_cartesian_product finite_lists_length_eq) auto
  show "{a. v4_addr_ok a} \<subseteq> ?A"
  proof
    fix a :: socket_addr
    assume a: "a \<in> {a. v4_addr_ok a}"
    then obtain bs where "ip a = V4 bs" "length bs = 4"
      by (auto simp: v4_addr_ok_def is_v4_def addr_ok_def split: ip_addr.splits)
    then show "a \<in> ?A" by (intro image_eqI [of _ _ "(bs, port a)"]) auto
  qed
qed

lemma nodes_of_v4: "c \<in> set (nodes_of r) \<Longrightarrow> v4_addr_ok (contact_addr c)"
  by (auto simp: nodes_of_def list_all_iff v4_contact_ok_def split: option.splits sum.splits
      dest!: decode_nodes_contacts_ok [OF sym])

lemma absorb_queried [simp]: "lk_queried (absorb net c s) = lk_queried s"
  by (simp add: absorb_def split: option.splits)

lemma fold_absorb_queried [simp]: "lk_queried (fold (absorb net) cs s) = lk_queried s"
  by (induction cs arbitrary: s) auto

lemma round_queried [simp]:
  "lk_queried (lookup_round net arrival b s) = lk_queried s @ map contact_addr b"
  by (simp add: lookup_round_def)

lemma absorb_candidates:
  "set (lk_candidates (absorb net c s)) = set (lk_candidates s) \<union>
     (case net (contact_addr c) of None \<Rightarrow> {} | Some r \<Rightarrow> set (nodes_of r))"
  by (simp add: absorb_def split: option.splits)

lemma fold_absorb_candidates:
  "set (lk_candidates (fold (absorb net) cs s)) = set (lk_candidates s) \<union>
     (\<Union>c \<in> set cs. case net (contact_addr c) of None \<Rightarrow> {} | Some r \<Rightarrow> set (nodes_of r))"
  by (induction cs arbitrary: s) (auto simp: absorb_candidates)

lemma retain_unique_sub: "set (retain_unique seen cs) \<subseteq> set cs"
  by (induction cs arbitrary: seen) auto

lemma shortlist_sub: "set (shortlist pr cs) \<subseteq> set cs"
  using retain_unique_sub [of "[]" "sort_key (\<lambda>c. distance (lp_info_hash pr) (contact_id c)) cs"]
  by (auto simp: shortlist_def dest!: in_set_takeD)

lemma next_batch_sub: "c \<in> set (next_batch pr q cs) \<Longrightarrow> c \<in> set cs \<and> contact_addr c \<notin> set q"
  by (auto simp: next_batch_def dest: in_set_takeD)

text \<open>Addresses that a lookup may still ask.\<close>

definition open_addrs :: "lookup_state \<Rightarrow> socket_addr set" where
  "open_addrs s = ({a. v4_addr_ok a} \<union> contact_addr ` set (lk_candidates s)) - set (lk_queried s)"

lemma open_addrs_decrease:
  assumes "cs = shortlist pr (lk_candidates s)" and "b = next_batch pr (lk_queried s) cs" and "b \<noteq> []"
  shows "card (open_addrs (lookup_round net arrival b (s\<lparr>lk_candidates := cs\<rparr>))) < card (open_addrs s)"
proof (rule psubset_card_mono)
  show "finite (open_addrs s)" using finite_v4 by (simp add: open_addrs_def)
  have "contact_addr (hd b) \<in> open_addrs s"
    using next_batch_sub [of "hd b" pr "lk_queried s" cs] shortlist_sub [of pr "lk_candidates s"] assms
    by (auto simp: open_addrs_def)
  moreover have "contact_addr (hd b) \<notin> open_addrs (lookup_round net arrival b (s\<lparr>lk_candidates := cs\<rparr>))"
    using assms(3) by (simp add: open_addrs_def)
  moreover have "open_addrs (lookup_round net arrival b (s\<lparr>lk_candidates := cs\<rparr>)) \<subseteq> open_addrs s"
    using shortlist_sub [of pr "lk_candidates s"] assms(1)
    by (auto simp: open_addrs_def lookup_round_def fold_absorb_candidates nodes_of_v4 split: option.splits)
  ultimately show "open_addrs (lookup_round net arrival b (s\<lparr>lk_candidates := cs\<rparr>)) \<subset> open_addrs s"
    by blast
qed

function lookup_loop ::
  "network \<Rightarrow> (contact list \<Rightarrow> contact list) \<Rightarrow> lookup_params \<Rightarrow> lookup_state \<Rightarrow> lookup_state" where
  "lookup_loop net arrival pr s =
     (let cs = shortlist pr (lk_candidates s);
          batch = next_batch pr (lk_queried s) cs
      in if batch = [] \<or> length (lk_peers s) \<ge> lp_peer_limit pr then s\<lparr>lk_candidates := cs\<rparr>
         else lookup_loop net arrival pr (lookup_round net arrival batch (s\<lparr>lk_candidates := cs\<rparr>)))"
  by pat_completeness auto
termination
  by (relation "measure (\<lambda>(net, arrival, pr, s). card (open_addrs s))") (auto simp: open_addrs_decrease)

declare lookup_loop.simps [simp del]

definition lookup_peers ::
  "network \<Rightarrow> (contact list \<Rightarrow> contact list) \<Rightarrow> lookup_params \<Rightarrow> contact list \<Rightarrow> lookup_result" where
  "lookup_peers net arrival pr seeds =
     (let s = lookup_loop net arrival pr
                \<lparr>lk_candidates = seeds, lk_queried = [], lk_peers = [], lk_tokens = [], lk_failed = []\<rparr>
      in \<lparr>res_peers = take (lp_peer_limit pr) (lk_peers s),
          res_announce_candidates =
            sort_key (\<lambda>(c, _). distance (lp_info_hash pr) (contact_id c)) (lk_tokens s),
          res_failed_nodes = lk_failed s\<rparr>)"

text \<open>
  \<^verbatim>\<open>announce_peer\<close>: one announcement per candidate, the number of the accepted ones. Here the
  answer depends on the query, so the network is a function of both.
\<close>

definition announce_peer ::
  "(socket_addr \<Rightarrow> query \<Rightarrow> response option) \<Rightarrow> node_id \<Rightarrow> node_id \<Rightarrow> u16
     \<Rightarrow> (contact \<times> byte list) list \<Rightarrow> nat" where
  "announce_peer net i info_hash p candidates =
     (if p = 0 then 0
      else length (filter (\<lambda>(c, tok).
        net (contact_addr c) (AnnouncePeer i info_hash p tok False) \<noteq> None) candidates))"

section \<open>Invariants of the loop\<close>

definition lookup_start :: "contact list \<Rightarrow> lookup_state" where
  "lookup_start seeds =
     \<lparr>lk_candidates = seeds, lk_queried = [], lk_peers = [], lk_tokens = [], lk_failed = []\<rparr>"

definition lookup_done :: "lookup_params \<Rightarrow> lookup_state \<Rightarrow> bool" where
  "lookup_done pr s =
     (next_batch pr (lk_queried s) (shortlist pr (lk_candidates s)) = [] \<or>
      lp_peer_limit pr \<le> length (lk_peers s))"

lemma lookup_loop_step:
  "\<not> lookup_done pr s \<Longrightarrow> lookup_loop net arrival pr s = lookup_loop net arrival pr
     (lookup_round net arrival (next_batch pr (lk_queried s) (shortlist pr (lk_candidates s)))
        (s\<lparr>lk_candidates := shortlist pr (lk_candidates s)\<rparr>))"
  by (subst lookup_loop.simps) (simp add: lookup_done_def Let_def)

lemma lookup_loop_stop:
  "lookup_done pr s \<Longrightarrow> lookup_loop net arrival pr s
     = s\<lparr>lk_candidates := shortlist pr (lk_candidates s)\<rparr>"
  by (subst lookup_loop.simps) (simp add: lookup_done_def Let_def)

lemma lookup_loop_rule:
  assumes "P s"
    and "\<And>s cs b. P s \<Longrightarrow> cs = shortlist pr (lk_candidates s) \<Longrightarrow> b = next_batch pr (lk_queried s) cs
      \<Longrightarrow> b \<noteq> [] \<Longrightarrow> P (lookup_round net arrival b (s\<lparr>lk_candidates := cs\<rparr>))"
  shows "\<exists>s'. P s' \<and> lookup_done pr s' \<and>
    lookup_loop net arrival pr s = s'\<lparr>lk_candidates := shortlist pr (lk_candidates s')\<rparr>"
  using assms(1)
proof (induction "card (open_addrs s)" arbitrary: s rule: less_induct)
  case less
  let ?cs = "shortlist pr (lk_candidates s)"
  let ?b = "next_batch pr (lk_queried s) ?cs"
  let ?s = "lookup_round net arrival ?b (s\<lparr>lk_candidates := ?cs\<rparr>)"
  show ?case
  proof (cases "lookup_done pr s")
    case True
    with less.prems lookup_loop_stop [OF True] show ?thesis by blast
  next
    case False
    then have b: "?b \<noteq> []" by (simp add: lookup_done_def)
    from less.hyps [OF open_addrs_decrease [OF refl refl b] assms(2) [OF less.prems refl refl b]]
    show ?thesis unfolding lookup_loop_step [OF False] .
  qed
qed

lemma set_set_add [simp]: "set (set_add x xs) = insert x (set xs)"
  by (auto simp: set_add_def)

lemma distinct_set_add [simp]: "distinct (set_add x xs) = distinct xs"
  by (simp add: set_add_def)

lemma set_extend_simps [simp]:
  "set (set_extend xs ys) = set xs \<union> set ys" "distinct (set_extend xs ys) = distinct xs"
  by (induction ys arbitrary: xs) (auto simp: set_extend_def)

definition answered :: "network \<Rightarrow> socket_addr list \<Rightarrow> response set" where
  "answered net q = {r. \<exists>a \<in> set q. net a = Some r}"

text \<open>What a lookup state has gathered is what the queried addresses answered.\<close>

definition gathered :: "network \<Rightarrow> lookup_state \<Rightarrow> socket_addr list \<Rightarrow> bool" where
  "gathered net s q =
     (distinct (lk_peers s) \<and> set (lk_peers s) = (\<Union>r \<in> answered net q. set (peers_of r)) \<and>
      distinct (map fst (lk_tokens s)) \<and>
      (\<forall>(c, tok) \<in> set (lk_tokens s). contact_addr c \<in> set q \<and>
         (\<exists>r. net (contact_addr c) = Some r \<and> resp_token r = Some tok)))"

lemma gathered_fields [simp]:
  "gathered net (s\<lparr>lk_candidates := x\<rparr>) q = gathered net s q"
  "gathered net (s\<lparr>lk_queried := y\<rparr>) q = gathered net s q"
  by (simp_all add: gathered_def)

lemma answered_snoc:
  "answered net (q @ [a]) = answered net q \<union> (case net a of None \<Rightarrow> {} | Some r \<Rightarrow> {r})"
  by (auto simp: answered_def split: option.splits)

lemma gathered_absorb:
  assumes "gathered net s q"
  shows "gathered net (absorb net c s) (q @ [contact_addr c])"
proof (cases "net (contact_addr c)")
  case None
  with assms show ?thesis by (auto simp: gathered_def absorb_def answered_snoc)
next
  case (Some r)
  then show ?thesis
    using assms set_alist_update [of c _ "lk_tokens s"]
    by (fastforce simp: gathered_def absorb_def answered_snoc distinct_update split: option.splits)
qed

lemma gathered_fold:
  "gathered net s q \<Longrightarrow> gathered net (fold (absorb net) cs s) (q @ map contact_addr cs)"
proof (induction cs arbitrary: s q)
  case (Cons c cs)
  from Cons.IH [OF gathered_absorb [OF Cons.prems, of c]] show ?case by simp
qed simp

lemma gathered_cong: "set q = set q' \<Longrightarrow> gathered net s q = gathered net s q'"
  by (simp add: gathered_def answered_def)

text \<open>Failures: exactly the queried contacts whose address gave no answer.\<close>

lemma absorb_failed:
  "set (lk_failed (absorb net c s)) = set (lk_failed s) \<union>
     (if net (contact_addr c) = None then {contact_id c} else {})"
  by (simp add: absorb_def split: option.splits)

lemma retain_unique_distinct:
  "distinct (map contact_addr (retain_unique seen cs)) \<and>
   contact_addr ` set (retain_unique seen cs) \<inter> set seen = {}"
proof (induction cs arbitrary: seen)
  case (Cons c cs)
  from Cons.IH [of seen] Cons.IH [of "contact_addr c # seen"] show ?case by auto
qed simp

lemma shortlist_distinct: "distinct (map contact_addr (shortlist pr cs))"
  by (simp add: shortlist_def retain_unique_distinct take_map [symmetric])

lemma next_batch_distinct:
  "distinct (map contact_addr cs) \<Longrightarrow> distinct (map contact_addr (next_batch pr q cs))"
  by (simp add: next_batch_def take_map [symmetric] distinct_map_filter)

definition sound_state :: "network \<Rightarrow> lookup_state \<Rightarrow> bool" where
  "sound_state net s =
     (distinct (lk_queried s) \<and> gathered net s (lk_queried s))"

lemma sound_start: "sound_state net (lookup_start seeds)"
  by (simp add: sound_state_def gathered_def answered_def lookup_start_def)

lemma sound_round:
  assumes perm: "\<And>b. mset (arrival b) = mset b" and "sound_state net s"
    and "cs = shortlist pr (lk_candidates s)" and "b = next_batch pr (lk_queried s) cs"
  shows "sound_state net (lookup_round net arrival b (s\<lparr>lk_candidates := cs\<rparr>))"
proof -
  let ?s = "s\<lparr>lk_candidates := cs, lk_queried := lk_queried s @ map contact_addr b\<rparr>"
  have "gathered net ?s (lk_queried s)" using assms(2) by (simp add: sound_state_def)
  from gathered_fold [OF this, of "arrival b"]
  have "gathered net (fold (absorb net) (arrival b) ?s) (lk_queried s @ map contact_addr b)"
    using perm [of b] by (subst gathered_cong [of _ "lk_queried s @ map contact_addr (arrival b)"])
      (auto dest: mset_eq_setD)
  moreover have "distinct (lk_queried s @ map contact_addr b)"
    using assms(2-4) next_batch_sub [of _ pr "lk_queried s" cs] shortlist_distinct next_batch_distinct
    by (auto simp: sound_state_def)
  ultimately show ?thesis by (simp add: sound_state_def lookup_round_def)
qed

section \<open>The closest contacts\<close>

abbreviation target_distance :: "lookup_params \<Rightarrow> contact \<Rightarrow> dht_distance" where
  "target_distance pr c \<equiv> distance (lp_info_hash pr) (contact_id c)"

text \<open>
  A contact is accounted for by a candidate list when its address is there with an identifier at
  least as close, or when the list has a full bucket of addresses at least as close.
\<close>

definition closer_addrs :: "lookup_params \<Rightarrow> contact list \<Rightarrow> contact \<Rightarrow> socket_addr set" where
  "closer_addrs pr cs c = contact_addr ` {d \<in> set cs. target_distance pr d \<le> target_distance pr c}"

definition accounted :: "lookup_params \<Rightarrow> contact list \<Rightarrow> contact \<Rightarrow> bool" where
  "accounted pr cs c =
     (contact_addr c \<in> closer_addrs pr cs c \<or> lp_bucket_size pr \<le> card (closer_addrs pr cs c))"

lemma closer_addrs_mono: "set cs \<subseteq> set ds \<Longrightarrow> closer_addrs pr cs c \<subseteq> closer_addrs pr ds c"
  by (auto simp: closer_addrs_def)

lemma finite_closer [simp]: "finite (closer_addrs pr cs c)"
  by (simp add: closer_addrs_def)

lemma accounted_mono: "accounted pr cs c \<Longrightarrow> set cs \<subseteq> set ds \<Longrightarrow> accounted pr ds c"
  using closer_addrs_mono [of cs ds pr c] card_mono [of "closer_addrs pr ds c" "closer_addrs pr cs c"]
  by (auto simp: accounted_def)

lemma retain_unique_first:
  assumes "sorted_wrt (\<lambda>c d. f c \<le> f d) cs" and "d \<in> set cs" and "contact_addr d \<notin> set seen"
  shows "\<exists>e \<in> set (retain_unique seen cs). contact_addr e = contact_addr d \<and> (f e :: 'a::order) \<le> f d"
  using assms
proof (induction cs arbitrary: seen)
  case (Cons c cs)
  show ?case
  proof (cases "contact_addr c = contact_addr d")
    case True
    with Cons.prems show ?thesis by auto
  next
    case False
    with Cons.prems have "d \<in> set cs" by auto
    with Cons.IH [of seen] Cons.IH [of "contact_addr c # seen"] Cons.prems False show ?thesis by auto
  qed
qed simp

lemma retain_unique_sorted:
  "sorted_wrt P cs \<Longrightarrow> sorted_wrt P (retain_unique seen cs)"
proof (induction cs arbitrary: seen)
  case (Cons c cs)
  then show ?case using retain_unique_sub [of "contact_addr c # seen" cs] by auto
qed simp

lemma shortlist_closer:
  assumes "d \<in> set cs" and "target_distance pr d \<le> target_distance pr c"
  shows "contact_addr d \<in> closer_addrs pr (shortlist pr cs) c \<or>
    lp_bucket_size pr \<le> card (closer_addrs pr (shortlist pr cs) c)"
proof -
  let ?f = "target_distance pr" and ?k = "lp_bucket_size pr"
  let ?l = "retain_unique [] (sort_key ?f cs)"
  have srt: "sorted_wrt (\<lambda>c d. ?f c \<le> ?f d) (sort_key ?f cs)"
    using sorted_sort_key [of ?f cs] by (simp add: sorted_map)
  obtain e where e: "e \<in> set ?l" "contact_addr e = contact_addr d" "?f e \<le> ?f d"
    using retain_unique_first [OF srt, of d "[]"] assms(1) by auto
  have le: "?f e \<le> ?f c" using e(3) assms(2) by (rule order_trans)
  show ?thesis
  proof (cases "e \<in> set (take ?k ?l)")
    case True
    then have "contact_addr e \<in> closer_addrs pr (shortlist pr cs) c"
      using le by (simp add: closer_addrs_def shortlist_def)
    with e(2) show ?thesis by simp
  next
    case False
    with e(1) have "e \<in> set (drop ?k ?l)" using append_take_drop_id [of ?k ?l] by (metis Un_iff set_append)
    then have len: "length (take ?k ?l) = ?k" by (cases "length ?l \<le> ?k") auto
    have "sorted_wrt (\<lambda>c d. ?f c \<le> ?f d) (take ?k ?l @ drop ?k ?l)"
      using retain_unique_sorted [OF srt] by simp
    with \<open>e \<in> set (drop ?k ?l)\<close> have "\<forall>x \<in> set (take ?k ?l). ?f x \<le> ?f e"
      unfolding sorted_wrt_append by blast
    then have "{d \<in> set (shortlist pr cs). ?f d \<le> ?f c} = set (shortlist pr cs)"
      using le by (force simp: shortlist_def)
    then have "card (closer_addrs pr (shortlist pr cs) c) = ?k"
      using distinct_card [OF shortlist_distinct, of pr cs] len
      by (simp add: closer_addrs_def shortlist_def)
    then show ?thesis by simp
  qed
qed

lemma accounted_shortlist:
  assumes "accounted pr cs c"
  shows "accounted pr (shortlist pr cs) c"
proof (cases "lp_bucket_size pr \<le> card (closer_addrs pr (shortlist pr cs) c)")
  case False
  then have sub: "closer_addrs pr cs c \<subseteq> closer_addrs pr (shortlist pr cs) c"
    using shortlist_closer [of _ cs pr c] by (fastforce simp: closer_addrs_def [of _ cs])
  with card_mono [OF finite_closer sub] assms show ?thesis by (auto simp: accounted_def)
qed (simp add: accounted_def)

text \<open>Every contact the lookup has heard of: the seeds and the nodes in the answers.\<close>

definition heard :: "network \<Rightarrow> contact list \<Rightarrow> socket_addr list \<Rightarrow> contact set" where
  "heard net seeds q = set seeds \<union> (\<Union>r \<in> answered net q. set (nodes_of r))"

definition complete_state :: "network \<Rightarrow> lookup_params \<Rightarrow> contact list \<Rightarrow> lookup_state \<Rightarrow> bool" where
  "complete_state net pr seeds s = (\<forall>c \<in> heard net seeds (lk_queried s). accounted pr (lk_candidates s) c)"

lemma complete_start: "complete_state net pr seeds (lookup_start seeds)"
  by (auto simp: complete_state_def heard_def answered_def lookup_start_def accounted_def closer_addrs_def)

lemma accounted_member: "c \<in> set cs \<Longrightarrow> accounted pr cs c"
  by (auto simp: accounted_def closer_addrs_def)

lemma answered_nodes:
  "(\<Union>c \<in> set b. case net (contact_addr c) of None \<Rightarrow> {} | Some r \<Rightarrow> set (nodes_of r))
     = (\<Union>r \<in> answered net (map contact_addr b). set (nodes_of r))"
  by (induction b) (auto simp: answered_def split: option.splits)

lemma complete_round:
  assumes perm: "\<And>b. mset (arrival b) = mset b" and "complete_state net pr seeds s"
    and "cs = shortlist pr (lk_candidates s)"
  shows "complete_state net pr seeds (lookup_round net arrival b (s\<lparr>lk_candidates := cs\<rparr>))"
  unfolding complete_state_def
proof
  let ?s = "lookup_round net arrival b (s\<lparr>lk_candidates := cs\<rparr>)"
  have cands: "set (lk_candidates ?s) = set cs \<union> (\<Union>r \<in> answered net (map contact_addr b). set (nodes_of r))"
    using mset_eq_setD [OF perm [of b]]
    by (simp add: lookup_round_def fold_absorb_candidates answered_nodes)
  fix c
  assume "c \<in> heard net seeds (lk_queried ?s)"
  then consider "c \<in> heard net seeds (lk_queried s)" | "c \<in> set (lk_candidates ?s)"
    using cands by (auto simp: heard_def answered_def)
  then show "accounted pr (lk_candidates ?s) c"
  proof cases
    case 1
    then have "accounted pr cs c" using assms by (simp add: complete_state_def accounted_shortlist)
    then show ?thesis by (rule accounted_mono) (simp add: cands)
  qed (rule accounted_member)
qed

section \<open>Results\<close>

text \<open>
  C21: the lookup is a Kademlia lookup. It terminates on every network, and when it ends without
  having reached the peer limit, every contact it has heard of (the seeds and the nodes that any
  answer listed) has been asked, or a full bucket of other addresses, each with an identifier at
  least as close to the target, has been asked.
\<close>

theorem lookup_finds_closest:
  assumes arrival: "\<And>b. mset (arrival b) = mset b"
    and final: "s = lookup_loop net arrival pr (lookup_start seeds)"
    and limit: "length (lk_peers s) < lp_peer_limit pr"
    and c: "c \<in> heard net seeds (lk_queried s)"
  shows "contact_addr c \<in> set (lk_queried s) \<or>
    (closer_addrs pr (lk_candidates s) c \<subseteq> set (lk_queried s) \<and>
     lp_bucket_size pr \<le> card (closer_addrs pr (lk_candidates s) c))"
proof -
  obtain s' where s': "complete_state net pr seeds s'" "lookup_done pr s'"
      "s = s'\<lparr>lk_candidates := shortlist pr (lk_candidates s')\<rparr>"
    using lookup_loop_rule [where P = "complete_state net pr seeds", OF complete_start complete_round [OF arrival]]
    unfolding final by blast
  have "next_batch pr (lk_queried s) (lk_candidates s) = []"
    using s'(2,3) limit by (simp add: lookup_done_def)
  then have asked: "contact_addr ` set (lk_candidates s) \<subseteq> set (lk_queried s)"
    by (auto simp: next_batch_def filter_empty_conv)
  have "accounted pr (lk_candidates s) c"
    using s'(1,3) c by (simp add: complete_state_def accounted_shortlist)
  then show ?thesis using asked by (auto simp: accounted_def closer_addrs_def)
qed

text \<open>
  The result of a lookup is what the asked nodes said. No address is asked twice; the peers are
  distinct, within the limit, and each was listed in some answer, none lost unless the limit was
  reached; the announce candidates are sorted by distance to the target, and each comes with the
  token its own node returned.
\<close>

theorem lookup_result_sound:
  assumes arrival: "\<And>b. mset (arrival b) = mset b"
    and final: "s = lookup_loop net arrival pr (lookup_start seeds)"
    and result: "r = lookup_peers net arrival pr seeds"
  shows "distinct (lk_queried s) \<and> distinct (res_peers r) \<and> length (res_peers r) \<le> lp_peer_limit pr \<and>
    set (res_peers r) \<subseteq> (\<Union>a \<in> answered net (lk_queried s). set (peers_of a)) \<and>
    (length (lk_peers s) \<le> lp_peer_limit pr \<longrightarrow>
       set (res_peers r) = (\<Union>a \<in> answered net (lk_queried s). set (peers_of a))) \<and>
    sorted (map (\<lambda>(c, _). target_distance pr c) (res_announce_candidates r)) \<and>
    (\<forall>(c, tok) \<in> set (res_announce_candidates r). contact_addr c \<in> set (lk_queried s) \<and>
       (\<exists>a. net (contact_addr c) = Some a \<and> resp_token a = Some tok))"
proof -
  have "\<exists>s'. sound_state net s' \<and> lookup_done pr s' \<and>
      s = s'\<lparr>lk_candidates := shortlist pr (lk_candidates s')\<rparr>"
    unfolding final using sound_round [OF arrival] by (intro lookup_loop_rule sound_start) blast
  then have s: "sound_state net s" by (auto simp: sound_state_def)
  have r: "res_peers r = take (lp_peer_limit pr) (lk_peers s)"
    "res_announce_candidates r = sort_key (\<lambda>(c, _). target_distance pr c) (lk_tokens s)"
    using final result by (simp_all add: lookup_peers_def lookup_start_def Let_def)
  show ?thesis
    using s unfolding r sound_state_def gathered_def
    by (auto simp: sorted_sort_key dest: in_set_takeD)
qed

text \<open>
  A small network for the instances: the node at port 1 lists a closer node at port 2, which
  returns a peer.
\<close>

definition example_node :: "byte \<Rightarrow> u16 \<Rightarrow> contact" where
  "example_node b p = mk_contact (replicate 20 b) \<lparr>ip = V4 [192, 0, 2, 9], port = p\<rparr>"

definition example_net :: network where
  "example_net a =
     (if port a = 1 then Some \<lparr>resp_id = replicate 20 6, resp_nodes = Some (encode_nodes [example_node 5 2]),
        resp_token = Some [11], resp_values = None\<rparr>
      else if port a = 2 then Some \<lparr>resp_id = replicate 20 5, resp_nodes = None, resp_token = Some [12],
        resp_values = Some (encode_peers [\<lparr>ip = V4 [192, 0, 2, 77], port = 6881\<rparr>])\<rparr>
      else None)"

definition example_params :: lookup_params where
  "example_params = \<lparr>lp_info_hash = replicate 20 4, lp_concurrency = 3, lp_peer_limit = 50, lp_bucket_size = 8\<rparr>"

lemma example_lookup:
  "lk_queried (lookup_loop example_net (\<lambda>b. b) example_params (lookup_start [example_node 6 1]))
     = map contact_addr [example_node 6 1, example_node 5 2] \<and>
   length (lk_peers (lookup_loop example_net (\<lambda>b. b) example_params (lookup_start [example_node 6 1]))) = 1"
  by code_simp

theorem lookup_finds_closest_witness:
  "contact_addr (example_node 6 1) \<in>
     set (lk_queried (lookup_loop example_net (\<lambda>b. b) example_params (lookup_start [example_node 6 1])))
   \<or> 8 \<le> card (closer_addrs example_params (lk_candidates
       (lookup_loop example_net (\<lambda>b. b) example_params (lookup_start [example_node 6 1]))) (example_node 6 1))"
  using lookup_finds_closest [of "\<lambda>b. b" _ example_net example_params "[example_node 6 1]" "example_node 6 1",
      OF refl refl] example_lookup
  by (simp add: example_params_def heard_def)

theorem lookup_result_sound_witness:
  "set (res_peers (lookup_peers example_net (\<lambda>b. b) example_params [example_node 6 1]))
     = (\<Union>a \<in> answered example_net (lk_queried (lookup_loop example_net (\<lambda>b. b) example_params
          (lookup_start [example_node 6 1]))). set (peers_of a))"
  using lookup_result_sound [of "\<lambda>b. b", OF refl refl refl, of example_net example_params "[example_node 6 1]"]
    example_lookup
  by (simp add: example_params_def)

end
