(* ===== verification/Dht_Transaction.thy ===== *)
theory Dht_Transaction
  imports Dht_Compact
begin

text \<open>
  Correlation of UDP responses with the queries that wait for them, \<^verbatim>\<open>dht/transaction.rs\<close>. A
  one-shot channel is a number; the table maps a transaction identifier to the endpoint queried
  and the channel. Whether the receiving half of a channel still exists is the argument
  \<open>alive\<close> of \<open>complete\<close>, which returns the delivery it made.

  The identifier search of \<^verbatim>\<open>begin\<close> is a loop that the source does not bound: it is a partial
  function, and the lemmas show that it returns exactly when some 16-bit identifier is free.
\<close>

type_synonym channel = nat
type_synonym transaction_id = "byte list"

record pending_transaction =
  pend_addr :: socket_addr
  pend_reply :: channel

record transaction_table =
  next_id :: u16
  pending :: "transaction_id \<rightharpoonup> pending_transaction"

section \<open>Operations\<close>

definition tt_new :: "u16 \<Rightarrow> transaction_table" where
  "tt_new random = \<lparr>next_id = random, pending = Map.empty\<rparr>"

partial_function (option) tt_begin ::
  "transaction_table \<Rightarrow> socket_addr \<Rightarrow> channel \<Rightarrow> (transaction_table \<times> transaction_id) option" where
  "tt_begin t a reply =
     (let tid = be_bytes 2 (next_id t);
          t' = t\<lparr>next_id := next_id t + 1\<rparr>
      in if pending t' tid \<noteq> None
         then tt_begin t' a reply
         else Some (t'\<lparr>pending := (pending t')(tid \<mapsto> \<lparr>pend_addr = a, pend_reply = reply\<rparr>)\<rparr>, tid))"

definition tt_complete ::
  "(channel \<Rightarrow> bool) \<Rightarrow> transaction_table \<Rightarrow> transaction_id \<Rightarrow> socket_addr \<Rightarrow> 'r
     \<Rightarrow> transaction_table \<times> (channel \<times> 'r) option \<times> bool" where
  "tt_complete alive t tid a result =
     (case pending t tid of
        None \<Rightarrow> (t, None, False)
      | Some p \<Rightarrow>
          if pend_addr p \<noteq> a then (t, None, False)
          else let t' = t\<lparr>pending := (pending t)(tid := None)\<rparr>
               in if alive (pend_reply p) then (t', Some (pend_reply p, result), True)
                  else (t', None, False))"

definition tt_cancel :: "transaction_table \<Rightarrow> transaction_id \<Rightarrow> transaction_table \<times> bool" where
  "tt_cancel t tid = (t\<lparr>pending := (pending t)(tid := None)\<rparr>, pending t tid \<noteq> None)"

section \<open>The identifier search\<close>

definition id_free :: "transaction_table \<Rightarrow> u16 \<Rightarrow> bool" where
  "id_free t w = (pending t (be_bytes 2 w) = None)"

lemma be2_inj: "be_bytes 2 v = be_bytes 2 w \<longleftrightarrow> v = (w :: u16)"
proof
  assume "be_bytes 2 v = be_bytes 2 w"
  then have "be_val (be_bytes 2 v) = (be_val (be_bytes 2 w) :: u16)" by simp
  then show "v = w" by (simp add: be_roundtrip)
qed simp

lemma begin_at_offset:
  assumes "id_free t (next_id t + of_nat k)" and "\<And>j. j < k \<Longrightarrow> \<not> id_free t (next_id t + of_nat j)"
  shows "tt_begin t a reply =
    Some (t\<lparr>next_id := next_id t + of_nat k + 1,
            pending := (pending t)(be_bytes 2 (next_id t + of_nat k) \<mapsto> \<lparr>pend_addr = a, pend_reply = reply\<rparr>)\<rparr>,
          be_bytes 2 (next_id t + of_nat k))"
  using assms
proof (induction k arbitrary: t)
  case 0
  then show ?case by (subst tt_begin.simps) (simp add: Let_def id_free_def fun_upd_def)
next
  case (Suc k)
  let ?t = "t\<lparr>next_id := next_id t + 1\<rparr>"
  have free: "id_free ?t (next_id ?t + of_nat k)"
    using Suc.prems(1) by (simp add: id_free_def add.assoc)
  have busy: "\<not> id_free ?t (next_id ?t + of_nat j)" if "j < k" for j
    using Suc.prems(2) [of "Suc j"] that by (simp add: id_free_def add.assoc)
  have "\<not> id_free t (next_id t)" using Suc.prems(2) [of 0] by simp
  then have step: "tt_begin t a reply = tt_begin ?t a reply"
    by (subst tt_begin.simps) (simp add: Let_def id_free_def)
  show ?case
    using Suc.IH [OF free busy] by (simp add: step add.assoc fun_upd_def)
qed

lemma offset_of_word:
  fixes v w :: u16
  shows "w = v + of_nat (unat (w - v))" and "unat (w - v) < 65536"
  using unsigned_less [of "w - v", where ?'a = nat] by simp_all

lemma first_free_offset:
  assumes "id_free t w"
  obtains k where "k < 65536" "id_free t (next_id t + of_nat k)"
    "\<And>j. j < k \<Longrightarrow> \<not> id_free t (next_id t + of_nat j)"
proof -
  let ?P = "\<lambda>k. id_free t (next_id t + of_nat k)"
  let ?k = "LEAST k. ?P k"
  have P: "?P (unat (w - next_id t))" using assms offset_of_word(1) [of w "next_id t"] by simp
  have "?k \<le> unat (w - next_id t)" using P by (rule Least_le)
  then have "?k < 65536" using offset_of_word(2) [of w "next_id t"] by linarith
  moreover have "?P ?k" using P by (rule LeastI)
  moreover have "\<And>j. j < ?k \<Longrightarrow> \<not> ?P j" by (rule not_less_Least)
  ultimately show ?thesis using that by blast
qed

lemma begin_returns_free: "tt_begin t a reply = Some r \<Longrightarrow> \<exists>w. id_free t w"
proof -
  assume ret: "tt_begin t a reply = Some r"
  show ?thesis
  proof (rule tt_begin.raw_induct [where P = "\<lambda>t a reply r. \<exists>w. id_free t w", OF _ ret])
    fix f t a reply r
    assume IH: "\<And>t a reply r. f t a reply = Some r \<Longrightarrow> \<exists>w. id_free t w"
      and eq: "(let tid = be_bytes 2 (next_id t); t' = t\<lparr>next_id := next_id t + 1\<rparr>
        in if pending t' tid \<noteq> None then f t' a reply
           else Some (t'\<lparr>pending := (pending t')(tid \<mapsto> \<lparr>pend_addr = a, pend_reply = reply\<rparr>)\<rparr>, tid)) = Some r"
    show "\<exists>w. id_free t w"
    proof (cases "id_free t (next_id t)")
      case False
      with eq have "f (t\<lparr>next_id := next_id t + 1\<rparr>) a reply = Some r"
        by (simp add: Let_def id_free_def)
      then show ?thesis using IH by (fastforce simp: id_free_def)
    qed blast
  qed
qed

lemma begin_registers:
  assumes "id_free t w"
  obtains t' tid where "tt_begin t a reply = Some (t', tid)" "pending t tid = None" "length tid = 2"
    "pending t' = (pending t)(tid \<mapsto> \<lparr>pend_addr = a, pend_reply = reply\<rparr>)"
proof -
  obtain k where k: "id_free t (next_id t + of_nat k)"
    "\<And>j. j < k \<Longrightarrow> \<not> id_free t (next_id t + of_nat j)"
    using first_free_offset [OF assms] by metis
  from begin_at_offset [OF k, of a reply] k(1) that show ?thesis by (simp add: id_free_def)
qed

text \<open>
  The identifier loop of \<^verbatim>\<open>begin\<close> returns exactly when one of the 65536 identifiers is free;
  the identifier it returns was not in use, is now registered for the queried endpoint and the
  new channel, and every other registration is unchanged.
\<close>

theorem tt_begin_total_iff_free:
  "(\<exists>t' tid. tt_begin t a reply = Some (t', tid) \<and> pending t tid = None \<and> length tid = 2 \<and>
      pending t' = (pending t)(tid \<mapsto> \<lparr>pend_addr = a, pend_reply = reply\<rparr>))
   \<longleftrightarrow> (\<exists>w. id_free t w)"
proof
  assume "\<exists>w. id_free t w"
  then obtain w where "id_free t w" by blast
  from begin_registers [OF this, of a reply]
  show "\<exists>t' tid. tt_begin t a reply = Some (t', tid) \<and> pending t tid = None \<and> length tid = 2 \<and>
      pending t' = (pending t)(tid \<mapsto> \<lparr>pend_addr = a, pend_reply = reply\<rparr>)"
    by metis
qed (use begin_returns_free in blast)

lemma few_pending_free:
  assumes "finite (dom (pending t))" and "card (dom (pending t)) < 65536"
  shows "\<exists>w. id_free t w"
proof (rule ccontr)
  assume "\<nexists>w. id_free t w"
  then have sub: "range (be_bytes 2 :: u16 \<Rightarrow> byte list) \<subseteq> dom (pending t)"
    by (auto simp: id_free_def)
  have "card (range (be_bytes 2 :: u16 \<Rightarrow> byte list)) = card (UNIV :: u16 set)"
    by (rule card_image) (simp add: inj_on_def be2_inj)
  also have "\<dots> = 65536" by (simp add: card_word)
  finally show False using card_mono [OF assms(1) sub] assms(2) by simp
qed

section \<open>Delivery\<close>

text \<open>
  A query's channel receives a result exactly once and only from the endpoint that was
  queried. A response under the transaction identifier from another endpoint changes nothing,
  a response from the right endpoint is delivered and clears the identifier, and after that the
  same response is delivered to nobody.
\<close>

theorem tt_response_once_from_endpoint:
  assumes "tt_begin t a reply = Some (t1, tid)" and "alive reply"
  shows "(a' \<noteq> a \<longrightarrow> tt_complete alive t1 tid a' r = (t1, None, False)) \<and>
    tt_complete alive t1 tid a r = (t1\<lparr>pending := (pending t1)(tid := None)\<rparr>, Some (reply, r), True) \<and>
    tt_complete alive (fst (tt_complete alive t1 tid a r)) tid a' r'
      = (fst (tt_complete alive t1 tid a r), None, False)"
proof -
  obtain w where "id_free t w" using assms(1) begin_returns_free by blast
  from begin_registers [OF this, of a reply] assms(1)
  have "pending t1 = (pending t)(tid \<mapsto> \<lparr>pend_addr = a, pend_reply = reply\<rparr>)"
    by (metis option.inject prod.inject)
  with assms(2) show ?thesis by (simp add: tt_complete_def Let_def)
qed

definition example_addr :: socket_addr where
  "example_addr = \<lparr>ip = V4 [127, 0, 0, 1], port = 6881\<rparr>"

lemma example_begin:
  "tt_begin (tt_new 65535) example_addr 7 =
     Some (\<lparr>next_id = 0, pending = [[255, 255] \<mapsto> \<lparr>pend_addr = example_addr, pend_reply = 7\<rparr>]\<rparr>, [255, 255])"
proof -
  have bytes: "be_bytes 2 (65535 :: u16) = [255, 255]" by code_simp
  show ?thesis by (subst tt_begin.simps) (simp add: tt_new_def Let_def bytes)
qed

theorem tt_response_once_from_endpoint_witness:
  "snd (tt_complete (\<lambda>_. True)
     \<lparr>next_id = 0, pending = [[255, 255] \<mapsto> \<lparr>pend_addr = example_addr, pend_reply = 7\<rparr>]\<rparr>
     [255, 255] example_addr ''pong'') = (Some (7, ''pong''), True)"
proof -
  note once = tt_response_once_from_endpoint
    [OF example_begin, of "\<lambda>_. True" example_addr "''pong''" "''pong''"]
  show ?thesis using once by simp
qed

end
