(* ===== verification/Dht_Actor.thy ===== *)
theory Dht_Actor
  imports Dht_Lookup Dht_Transaction
begin

text \<open>
  The DHT actor, \<^verbatim>\<open>dht/actor.rs\<close> and \<^verbatim>\<open>dht/messages.rs\<close>, with the reply side of the transport,
  \<^verbatim>\<open>dht/transport.rs\<close>. A handler is a function from the actor's state to its new state and the
  list of its effects in program order: datagrams sent, answers delivered to waiting queries,
  peers told to a torrent, tasks spawned and aborted. Torrent actors are numbers. What the rest of
  the system answers (is the torrent actor reachable, has it an info dictionary and is that
  private, is a waiting query still there) is an argument of the handler.
\<close>

type_synonym info_hash = node_id
type_synonym torrent_ref = nat

record dht_torrent =
  dt_actor :: torrent_ref
  dt_port :: u16

datatype dht_task = LookupTask "contact list" | SleepTask

record announce_task =
  at_port :: u16
  at_candidates :: "(contact \<times> byte list) list"

datatype transaction_result = TResponse response | TError dht_error

datatype dht_effect =
    Send dht_message socket_addr
  | Deliver channel transaction_result
  | TellPeers torrent_ref "socket_addr list"
  | SpawnLookup info_hash dht_task
  | AbortLookup info_hash dht_task
  | SpawnAnnounce info_hash announce_task
  | AbortAnnounce info_hash announce_task

record dht_actor =
  da_state :: dht_state
  da_transactions :: transaction_table
  da_settings :: dht_settings
  da_torrents :: "info_hash \<rightharpoonup> dht_torrent"
  da_lookup_tasks :: "info_hash \<rightharpoonup> dht_task"
  da_announce_tasks :: "info_hash \<rightharpoonup> announce_task"

section \<open>Tasks\<close>

definition da_start :: "instant \<Rightarrow> hash \<times> hash \<Rightarrow> u16 \<Rightarrow> node_id \<Rightarrow> dht_settings \<Rightarrow> dht_actor" where
  "da_start now rnd tid i settings =
     \<lparr>da_state = ds_new now rnd i settings, da_transactions = tt_new tid, da_settings = settings,
      da_torrents = Map.empty, da_lookup_tasks = Map.empty, da_announce_tasks = Map.empty\<rparr>"

definition schedule_lookup :: "dht_actor \<Rightarrow> info_hash \<Rightarrow> dht_actor \<times> dht_effect list" where
  "schedule_lookup d h =
     (d\<lparr>da_lookup_tasks := (da_lookup_tasks d)(h \<mapsto> SleepTask)\<rparr>, [SpawnLookup h SleepTask])"

definition abort_lookup :: "dht_actor \<Rightarrow> info_hash \<Rightarrow> dht_effect list" where
  "abort_lookup d h = (case da_lookup_tasks d h of None \<Rightarrow> [] | Some t \<Rightarrow> [AbortLookup h t])"

definition abort_announce :: "dht_actor \<Rightarrow> info_hash \<Rightarrow> dht_effect list" where
  "abort_announce d h = (case da_announce_tasks d h of None \<Rightarrow> [] | Some t \<Rightarrow> [AbortAnnounce h t])"

definition start_lookup :: "dht_actor \<Rightarrow> info_hash \<Rightarrow> dht_actor \<times> dht_effect list" where
  "start_lookup d h =
     (if da_torrents d h = None then (d, [])
      else
        let d1 = d\<lparr>da_lookup_tasks := (da_lookup_tasks d)(h := None)\<rparr>;
            seeds = closest (ds_routing (da_state d)) h (set_bucket_size (da_settings d))
        in if seeds = []
           then let (d2, es) = schedule_lookup d1 h in (d2, abort_lookup d h @ es)
           else (d1\<lparr>da_lookup_tasks := (da_lookup_tasks d1)(h \<mapsto> LookupTask seeds)\<rparr>,
                 abort_lookup d h @ [SpawnLookup h (LookupTask seeds)]))"

definition remove_torrent_registration :: "dht_actor \<Rightarrow> info_hash \<Rightarrow> dht_actor \<times> dht_effect list" where
  "remove_torrent_registration d h =
     (d\<lparr>da_torrents := (da_torrents d)(h := None),
        da_lookup_tasks := (da_lookup_tasks d)(h := None),
        da_announce_tasks := (da_announce_tasks d)(h := None)\<rparr>,
      abort_lookup d h @ abort_announce d h)"

section \<open>Messages\<close>

definition transport_complete ::
  "(channel \<Rightarrow> bool) \<Rightarrow> dht_actor \<Rightarrow> dht_message \<Rightarrow> socket_addr \<Rightarrow> dht_actor \<times> dht_effect list \<times> bool" where
  "transport_complete alive d m a =
     (let go = (\<lambda>tid result.
        let (t, delivered, matched) = tt_complete alive (da_transactions d) tid a result
        in (d\<lparr>da_transactions := t\<rparr>,
            (case delivered of None \<Rightarrow> [] | Some (ch, r) \<Rightarrow> [Deliver ch r]), matched))
      in case m of
           MResponse tid r \<Rightarrow> go tid (TResponse r)
         | MError tid e \<Rightarrow> go tid (TError e)
         | MQuery _ _ \<Rightarrow> (d, [], False))"

definition incoming_datagram ::
  "(byte list \<Rightarrow> hash) \<Rightarrow> instant \<Rightarrow> hash \<times> hash \<Rightarrow> (channel \<Rightarrow> bool) \<Rightarrow> dht_actor \<Rightarrow> dht_message
     \<Rightarrow> socket_addr \<Rightarrow> dht_actor \<times> dht_effect list" where
  "incoming_datagram sha1 now rnd alive d m a =
     (case m of
        MQuery tid q \<Rightarrow>
          (let (s, result) = handle_query sha1 now rnd (da_state d) q a;
               reply = (case result of Inr r \<Rightarrow> MResponse tid r | Inl e \<Rightarrow> MError tid e)
           in (d\<lparr>da_state := s\<rparr>, [Send reply a]))
      | MResponse tid r \<Rightarrow>
          (let (d1, es, matched) = transport_complete alive d m a
           in if matched then (d1\<lparr>da_state := fst (learn_response (da_state d1) r a)\<rparr>, es)
              else (d1, es))
      | MError tid e \<Rightarrow> (let (d1, es, _) = transport_complete alive d m a in (d1, es)))"

definition lookup_finished ::
  "(torrent_ref \<Rightarrow> bool) \<Rightarrow> dht_actor \<Rightarrow> info_hash \<Rightarrow> lookup_result \<Rightarrow> dht_actor \<times> dht_effect list" where
  "lookup_finished reachable d0 h result =
     (let st = da_state d0;
          d = d0\<lparr>da_lookup_tasks := (da_lookup_tasks d0)(h := None),
                 da_state := st\<lparr>ds_routing := foldl record_failure (ds_routing st) (res_failed_nodes result)\<rparr>\<rparr>
      in case da_torrents d h of
           None \<Rightarrow> (d, [])
         | Some t \<Rightarrow>
             if res_peers result \<noteq> [] \<and> \<not> reachable (dt_actor t)
             then (d\<lparr>da_torrents := (da_torrents d)(h := None)\<rparr>, [])
             else
               let told = (if res_peers result \<noteq> [] then [TellPeers (dt_actor t) (res_peers result)] else []);
                   task = \<lparr>at_port = dt_port t, at_candidates = res_announce_candidates result\<rparr>;
                   d1 = d\<lparr>da_announce_tasks := (da_announce_tasks d)(h \<mapsto> task)\<rparr>;
                   (d2, es) = schedule_lookup d1 h
               in (d2, told @ abort_announce d h @ [SpawnAnnounce h task] @ es))"

definition register_torrent :: "dht_actor \<Rightarrow> info_hash \<Rightarrow> torrent_ref \<Rightarrow> u16 \<Rightarrow> dht_actor \<times> dht_effect list" where
  "register_torrent d h torrent p =
     start_lookup (d\<lparr>da_torrents := (da_torrents d)(h \<mapsto> \<lparr>dt_actor = torrent, dt_port = p\<rparr>)\<rparr>) h"

definition unregister_torrent :: "dht_actor \<Rightarrow> info_hash \<Rightarrow> dht_actor \<times> dht_effect list" where
  "unregister_torrent d h = remove_torrent_registration d h"

text \<open>
  The answer of the torrent actor to \<^verbatim>\<open>HasInfoDict\<close>: unreachable, or the optional \<^verbatim>\<open>private\<close> flag of
  the info dictionary if it has one.
\<close>

datatype info_answer = Unreachable | NoInfo | HasInfo "bool option"

definition lookup_torrent :: "(torrent_ref \<Rightarrow> info_answer) \<Rightarrow> dht_actor \<Rightarrow> info_hash \<Rightarrow> dht_actor \<times> dht_effect list" where
  "lookup_torrent ask d h =
     (case da_torrents d h of
        None \<Rightarrow> (d, [])
      | Some t \<Rightarrow>
          (case ask (dt_actor t) of
             HasInfo private \<Rightarrow>
               if (case private of None \<Rightarrow> False | Some b \<Rightarrow> b) then remove_torrent_registration d h
               else start_lookup d h
           | NoInfo \<Rightarrow> start_lookup d h
           | Unreachable \<Rightarrow> remove_torrent_registration d h))"

text \<open>\<^verbatim>\<open>refresh_torrents\<close> iterates over the keys of the hash map; \<open>hs\<close> is that iteration order.\<close>

definition refresh_torrents :: "info_hash list \<Rightarrow> dht_actor \<Rightarrow> dht_actor \<times> dht_effect list" where
  "refresh_torrents hs d =
     foldl (\<lambda>(d, es) h. let (d', es') = start_lookup d h in (d', es @ es')) (d, []) hs"

definition da_stop :: "info_hash list \<Rightarrow> info_hash list \<Rightarrow> dht_actor \<Rightarrow> dht_actor \<times> dht_effect list" where
  "da_stop lookups announces d =
     (d\<lparr>da_lookup_tasks := Map.empty, da_announce_tasks := Map.empty\<rparr>,
      concat (map (abort_lookup d) lookups) @ concat (map (abort_announce d) announces))"

section \<open>The actor as a state machine\<close>

inductive da_step :: "(byte list \<Rightarrow> hash) \<Rightarrow> dht_actor \<Rightarrow> dht_effect list \<Rightarrow> dht_actor \<Rightarrow> bool" for sha1 where
  datagram: "message_ok m \<Longrightarrow> addr_ok a \<Longrightarrow> incoming_datagram sha1 now rnd alive d m a = (d', es)
    \<Longrightarrow> da_step sha1 d es d'"
| finished: "list_all id_ok (res_failed_nodes r) \<Longrightarrow> lookup_finished reachable d h r = (d', es)
    \<Longrightarrow> da_step sha1 d es d'"
| register: "register_torrent d h t p = (d', es) \<Longrightarrow> da_step sha1 d es d'"
| unregister: "unregister_torrent d h = (d', es) \<Longrightarrow> da_step sha1 d es d'"
| lookup: "lookup_torrent ask d h = (d', es) \<Longrightarrow> da_step sha1 d es d'"
| refresh: "set hs = dom (da_torrents d) \<Longrightarrow> refresh_torrents hs d = (d', es) \<Longrightarrow> da_step sha1 d es d'"

inductive da_reachable :: "(byte list \<Rightarrow> hash) \<Rightarrow> dht_actor \<Rightarrow> bool" for sha1 where
  initial: "id_ok i \<Longrightarrow> da_reachable sha1 (da_start now rnd tid i settings)"
| step: "da_reachable sha1 d \<Longrightarrow> da_step sha1 d es d' \<Longrightarrow> da_reachable sha1 d'"

definition da_inv :: "dht_actor \<Rightarrow> bool" where
  "da_inv d = (ds_inv (da_state d) \<and> dom (da_lookup_tasks d) = dom (da_torrents d))"

lemma start_lookup_frame:
  "da_state (fst (start_lookup d h)) = da_state d" "da_torrents (fst (start_lookup d h)) = da_torrents d"
  by (auto simp: start_lookup_def schedule_lookup_def Let_def)

lemma start_lookup_tasks:
  "dom (da_lookup_tasks (fst (start_lookup d h))) =
     (if da_torrents d h = None then dom (da_lookup_tasks d) else insert h (dom (da_lookup_tasks d)))"
  by (auto simp: start_lookup_def schedule_lookup_def Let_def)

lemma da_inv_start_lookup [inv_intros]: "da_inv d \<Longrightarrow> da_inv (fst (start_lookup d h))"
  by (auto simp: da_inv_def start_lookup_frame start_lookup_tasks)

lemma da_inv_remove [inv_intros]: "da_inv d \<Longrightarrow> da_inv (fst (remove_torrent_registration d h))"
  by (auto simp: da_inv_def remove_torrent_registration_def)

lemma da_inv_register [inv_intros]: "da_inv d \<Longrightarrow> da_inv (fst (register_torrent d h t p))"
  by (auto simp: da_inv_def register_torrent_def start_lookup_frame start_lookup_tasks)

lemma da_inv_lookup_torrent [inv_intros]: "da_inv d \<Longrightarrow> da_inv (fst (lookup_torrent ask d h))"
  by (auto simp: lookup_torrent_def split: option.splits info_answer.splits intro: inv_intros)

lemma da_inv_refresh [inv_intros]: "da_inv d \<Longrightarrow> da_inv (fst (refresh_torrents hs d))"
proof -
  have "da_inv (fst x) \<Longrightarrow>
    da_inv (fst (foldl (\<lambda>(d, es) h. let (d', es') = start_lookup d h in (d', es @ es')) x hs))" for x
  proof (induction hs arbitrary: x)
    case (Cons h hs)
    from da_inv_start_lookup [OF Cons.prems, of h] show ?case
      unfolding foldl_Cons by (intro Cons.IH) (simp add: split_beta)
  qed simp
  then show "da_inv d \<Longrightarrow> da_inv (fst (refresh_torrents hs d))" by (simp add: refresh_torrents_def)
qed

lemma routing_failures:
  "routing_inv t \<Longrightarrow> list_all id_ok is \<Longrightarrow> routing_inv (foldl record_failure t is)"
  by (induction "is" arbitrary: t) (auto intro: routing_inv_record_failure)

lemma da_inv_finished [inv_intros]:
  "da_inv d \<Longrightarrow> list_all id_ok (res_failed_nodes r) \<Longrightarrow> da_inv (fst (lookup_finished reachable d h r))"
  by (auto simp: da_inv_def ds_inv_def lookup_finished_def schedule_lookup_def routing_failures Let_def
      split: option.splits)

lemma transport_complete_frame:
  "da_state (fst (transport_complete alive d m a)) = da_state d"
  "da_torrents (fst (transport_complete alive d m a)) = da_torrents d"
  "da_lookup_tasks (fst (transport_complete alive d m a)) = da_lookup_tasks d"
  by (auto simp: transport_complete_def Let_def split_beta split: dht_message.splits)

lemma da_inv_datagram [inv_intros]:
  assumes "da_inv d" and "message_ok m" and "addr_ok a"
  shows "da_inv (fst (incoming_datagram sha1 now rnd alive d m a))"
proof (cases m)
  case (MQuery tid q)
  with assms show ?thesis by (simp add: incoming_datagram_def da_inv_def split_beta Let_def ds_inv_query)
next
  case (MResponse tid r)
  with assms show ?thesis
    by (auto simp: incoming_datagram_def da_inv_def split_beta Let_def transport_complete_frame ds_inv_learn)
next
  case (MError tid e)
  with assms show ?thesis
    by (simp add: incoming_datagram_def da_inv_def split_beta Let_def transport_complete_frame)
qed

lemma da_inv_step: "da_step sha1 d es d' \<Longrightarrow> da_inv d \<Longrightarrow> da_inv d'"
proof (induction rule: da_step.induct)
  case (datagram m a now rnd alive d d' es)
  then show ?case using da_inv_datagram [of d m a sha1 now rnd alive] by simp
next
  case (finished r reachable d h d' es)
  then show ?case using da_inv_finished [of d r reachable h] by simp
next
  case (register d h t p d' es)
  then show ?case using da_inv_register [of d h t p] by simp
next
  case (unregister d h d' es)
  then show ?case using da_inv_remove [of d h] by (simp add: unregister_torrent_def)
next
  case (lookup ask d h d' es)
  then show ?case using da_inv_lookup_torrent [of d ask h] by simp
next
  case (refresh hs d d' es)
  then show ?case using da_inv_refresh [of d hs] by simp
qed

lemma da_inv_initial: "id_ok i \<Longrightarrow> da_inv (da_start now rnd tid i settings)"
  by (simp add: da_inv_def da_start_def ds_inv_new)

lemma da_reachable_inv: "da_reachable sha1 d \<Longrightarrow> da_inv d"
  by (induction rule: da_reachable.induct) (auto intro: da_inv_initial da_inv_step)

text \<open>
  Discovery never starves and never leaks. In every reachable state of the DHT actor a torrent
  has a pending lookup or timer task exactly when it is registered, and the protocol state keeps its
  invariant.
\<close>

theorem dht_actor_lookup_per_torrent:
  assumes "da_reachable sha1 d"
  shows "(da_lookup_tasks d h \<noteq> None \<longleftrightarrow> da_torrents d h \<noteq> None) \<and> routing_inv (ds_routing (da_state d))"
  using da_reachable_inv [OF assms] by (auto simp: da_inv_def ds_inv_def dom_def set_eq_iff)

theorem dht_actor_lookup_per_torrent_witness:
  "da_lookup_tasks (fst (register_torrent (da_start 0 ([1], [2]) 7 (example_id 3) example_settings)
     (example_id 4) 1 6881)) (example_id 4) \<noteq> None"
proof -
  let ?d = "da_start 0 ([1], [2]) 7 (example_id 3) example_settings"
  have "da_reachable suffix_hash (fst (register_torrent ?d (example_id 4) 1 6881))"
    by (rule da_reachable.step [OF da_reachable.initial da_step.register [OF surjective_pairing]]) simp
  from dht_actor_lookup_per_torrent [OF this, of "example_id 4"] show ?thesis
    by (simp add: register_torrent_def start_lookup_frame)
qed

text \<open>
  Routing state is learned only from traffic that was asked for. A response or error that
  matches no pending transaction of its sender leaves the protocol state untouched and answers
  nobody; every query is answered exactly once, to its sender, under its transaction identifier.
\<close>

theorem unsolicited_response_ignored:
  "(case m of
      MQuery tid q \<Rightarrow> \<exists>reply. snd (incoming_datagram sha1 now rnd alive d m a) = [Send reply a] \<and>
        ((\<exists>r. reply = MResponse tid r) \<or> (\<exists>e. reply = MError tid e))
    | MResponse tid r \<Rightarrow>
        (\<exists>p. pending (da_transactions d) tid = Some p \<and> pend_addr p = a) \<or>
        incoming_datagram sha1 now rnd alive d m a = (d, [])
    | MError tid e \<Rightarrow>
        (\<exists>p. pending (da_transactions d) tid = Some p \<and> pend_addr p = a) \<or>
        incoming_datagram sha1 now rnd alive d m a = (d, []))"
proof (cases m)
  case (MQuery tid q)
  then show ?thesis
    by (cases "snd (handle_query sha1 now rnd (da_state d) q a)")
      (auto simp: incoming_datagram_def split_beta Let_def)
qed (auto simp: incoming_datagram_def transport_complete_def tt_complete_def Let_def split: option.splits)

text \<open>
  A private torrent leaves the DHT. When the timer of a torrent fires and its info dictionary
  says private, or its actor is gone, the registration and both its tasks are removed and aborted,
  and no new lookup starts.
\<close>

theorem private_torrent_leaves_dht:
  assumes "da_torrents d h = Some t" and "ask (dt_actor t) \<in> {HasInfo (Some True), Unreachable}"
  shows "case lookup_torrent ask d h of (d', es) \<Rightarrow>
    da_torrents d' h = None \<and> da_lookup_tasks d' h = None \<and> da_announce_tasks d' h = None \<and>
    (\<forall>k task. SpawnLookup k task \<notin> set es) \<and>
    (\<forall>task. da_lookup_tasks d h = Some task \<longrightarrow> AbortLookup h task \<in> set es) \<and>
    (\<forall>task. da_announce_tasks d h = Some task \<longrightarrow> AbortAnnounce h task \<in> set es)"
  using assms
  by (auto simp: lookup_torrent_def remove_torrent_registration_def abort_lookup_def abort_announce_def
      split: option.splits)

theorem private_torrent_leaves_dht_witness:
  "da_torrents (fst (lookup_torrent (\<lambda>_. HasInfo (Some True))
     (fst (register_torrent (da_start 0 ([1], [2]) 7 (example_id 3) example_settings) (example_id 4) 1 6881))
     (example_id 4))) (example_id 4) = None"
proof -
  let ?d = "fst (register_torrent (da_start 0 ([1], [2]) 7 (example_id 3) example_settings) (example_id 4) 1 6881)"
  have t: "da_torrents ?d (example_id 4) = Some \<lparr>dt_actor = 1, dt_port = 6881\<rparr>"
    by (simp add: register_torrent_def start_lookup_frame)
  show ?thesis using private_torrent_leaves_dht [OF t, of "\<lambda>_. HasInfo (Some True)"] by (simp add: split_beta)
qed

end
