(* ===== verification/Dht_Transport.thy ===== *)
theory Dht_Transport
  imports Dht_Actor
begin

text \<open>
  The UDP transport of the DHT, \<^verbatim>\<open>dht/transport.rs\<close>, with the bootstrap task and the receive loop of \<^verbatim>\<open>dht/actor.rs\<close>.
  Queries run concurrently and share the table of transactions. A query registers itself and sends its
  message; then it waits for its one-shot channel until it is answered, until its timeout, or until the task
  that runs it is aborted and the future is dropped. These are the steps of the model; each runs as a whole.
  A channel is a number; the slot of a channel holds what was sent into it and not yet taken out. The search
  for a free identifier may run forever, in which case there is no next state. An error keeps the values
  that its text is formatted from.
\<close>

section \<open>The transport\<close>

datatype transport_error =
    EncodeFailed string
  | SendFailed socket_addr
  | ResponseChannelClosed
  | QueryTimedOut socket_addr
  | NodeReturnedError dht_error

type_synonym waiting_query = "channel \<times> transaction_id \<times> socket_addr"

record dht_transport =
  tr_table :: transaction_table
  tr_waiting :: "waiting_query list"
  tr_slots :: "channel \<rightharpoonup> transaction_result"
  tr_next :: channel

definition transport_bind :: "u16 \<Rightarrow> dht_transport" where
  "transport_bind random = \<lparr>tr_table = tt_new random, tr_waiting = [], tr_slots = Map.empty, tr_next = 0\<rparr>"

definition transport_send :: "(wire_message \<Rightarrow> string + byte list) \<Rightarrow> (byte list \<Rightarrow> socket_addr \<Rightarrow> bool) \<Rightarrow> dht_message \<Rightarrow> socket_addr \<Rightarrow> transport_error + byte list" where
  "transport_send ser sends m a =
     (case msg_encode ser m of
        Inl e \<Rightarrow> Inl (EncodeFailed e)
      | Inr bytes \<Rightarrow> if sends bytes a then Inr bytes else Inl (SendFailed a))"

text \<open>The part of \<^verbatim>\<open>query\<close> up to the wait.\<close>

definition query_begin ::
  "(wire_message \<Rightarrow> string + byte list) \<Rightarrow> (byte list \<Rightarrow> socket_addr \<Rightarrow> bool) \<Rightarrow> socket_addr \<Rightarrow> query \<Rightarrow> dht_transport
     \<Rightarrow> ((transport_error + channel) \<times> dht_transport) option" where
  "query_begin ser sends a q T =
     (case tt_begin (tr_table T) a (tr_next T) of
        None \<Rightarrow> None
      | Some (t, tid) \<Rightarrow>
          (case transport_send ser sends (MQuery tid q) a of
             Inl e \<Rightarrow> Some (Inl e, T\<lparr>tr_table := fst (tt_cancel t tid), tr_next := tr_next T + 1\<rparr>)
           | Inr _ \<Rightarrow> Some (Inr (tr_next T), T\<lparr>tr_table := t, tr_waiting := tr_waiting T @ [(tr_next T, tid, a)], tr_next := tr_next T + 1\<rparr>)))"

definition is_waiting :: "dht_transport \<Rightarrow> channel \<Rightarrow> bool" where
  "is_waiting T ch = (ch \<in> fst ` set (tr_waiting T))"

definition drop_query :: "channel \<Rightarrow> dht_transport \<Rightarrow> dht_transport" where
  "drop_query ch T = T\<lparr>tr_waiting := filter (\<lambda>w. fst w \<noteq> ch) (tr_waiting T), tr_slots := (tr_slots T)(ch := None)\<rparr>"

text \<open>
  The wait ends with what is in the channel, or with an error when the channel is closed, that is when the table
  no longer holds its sender, or else, when the timeout has passed, with an error and the transaction
  cancelled. No result means that the query goes on waiting.
\<close>

definition query_result :: "transaction_result \<Rightarrow> transport_error + response" where
  "query_result r = (case r of TResponse resp \<Rightarrow> Inr resp | TError e \<Rightarrow> Inl (NodeReturnedError e))"

definition sender_held :: "channel \<Rightarrow> transaction_id \<Rightarrow> dht_transport \<Rightarrow> bool" where
  "sender_held ch tid T = (case pending (tr_table T) tid of None \<Rightarrow> False | Some p \<Rightarrow> pend_reply p = ch)"

definition query_end :: "bool \<Rightarrow> channel \<Rightarrow> dht_transport \<Rightarrow> (transport_error + response) option \<times> dht_transport" where
  "query_end timed_out ch T =
     (case find (\<lambda>w. fst w = ch) (tr_waiting T) of
        None \<Rightarrow> (None, T)
      | Some (_, tid, a) \<Rightarrow>
          (case tr_slots T ch of
             Some r \<Rightarrow> (Some (query_result r), drop_query ch T)
           | None \<Rightarrow>
               if \<not> sender_held ch tid T then (Some (Inl ResponseChannelClosed), drop_query ch T)
               else if timed_out then (Some (Inl (QueryTimedOut a)), drop_query ch (T\<lparr>tr_table := fst (tt_cancel (tr_table T) tid)\<rparr>))
               else (None, T)))"

definition complete :: "dht_message \<Rightarrow> socket_addr \<Rightarrow> dht_transport \<Rightarrow> bool \<times> dht_transport" where
  "complete m a T =
     (let go = (\<lambda>tid result.
        let (t, delivered, matched) = tt_complete (is_waiting T) (tr_table T) tid a result
        in (matched, T\<lparr>tr_table := t, tr_slots := (case delivered of None \<Rightarrow> tr_slots T | Some (ch, r) \<Rightarrow> (tr_slots T)(ch \<mapsto> r))\<rparr>))
      in case m of
           MResponse tid r \<Rightarrow> go tid (TResponse r)
         | MError tid e \<Rightarrow> go tid (TError e)
         | MQuery _ _ \<Rightarrow> (False, T))"

lemma complete_is_transport_complete:
  assumes "da_transactions d = tr_table T"
  shows "da_transactions (fst (transport_complete (is_waiting T) d m a)) = tr_table (snd (complete m a T)) \<and>
    snd (snd (transport_complete (is_waiting T) d m a)) = fst (complete m a T)"
  using assms by (cases m) (auto simp: transport_complete_def complete_def Let_def split: prod.split)

section \<open>Receiving and bootstrapping\<close>

definition transport_receive :: "(byte list \<Rightarrow> string + wire_message) \<Rightarrow> nat \<Rightarrow> byte list \<times> socket_addr \<Rightarrow> string + dht_message \<times> socket_addr" where
  "transport_receive de buffer_size datagram =
     (case msg_decode de (take buffer_size (fst datagram)) of Inl e \<Rightarrow> Inl e | Inr m \<Rightarrow> Inr (m, snd datagram))"

text \<open>
  \<^verbatim>\<open>DhtActor::next\<close>: what arrives, in order, is a message of the mailbox or its end, or a datagram or a failed
  receive; failed receives and undecodable datagrams are skipped. The result is the signal to handle, absent
  when the actor ends (\<open>referenced\<close>: a reference to the actor still exists), and what has not been looked at;
  there is no result while nothing to handle has arrived.
\<close>

datatype 'm arrival = Mail 'm | MailboxClosed | Datagram "byte list \<times> socket_addr" | ReceiveFailed

datatype 'm signal = MailSignal 'm | DatagramSignal dht_message socket_addr

fun dht_next :: "(byte list \<Rightarrow> string + wire_message) \<Rightarrow> nat \<Rightarrow> bool \<Rightarrow> 'm arrival list \<Rightarrow> ('m signal option \<times> 'm arrival list) option" where
  "dht_next de buffer_size referenced [] = None"
| "dht_next de buffer_size referenced (Mail m # rest) = Some (Some (MailSignal m), rest)"
| "dht_next de buffer_size referenced (MailboxClosed # rest) = Some (None, rest)"
| "dht_next de buffer_size referenced (ReceiveFailed # rest) = dht_next de buffer_size referenced rest"
| "dht_next de buffer_size referenced (Datagram d # rest) =
     (case transport_receive de buffer_size d of
        Inl _ \<Rightarrow> dht_next de buffer_size referenced rest
      | Inr (m, a) \<Rightarrow> Some (if referenced then Some (DatagramSignal m a) else None, rest))"

text \<open>Every message of the mailbox and every datagram that decodes is handled, once and in order, whatever junk is between.\<close>

fun dht_signals :: "(byte list \<Rightarrow> string + wire_message) \<Rightarrow> nat \<Rightarrow> nat \<Rightarrow> 'm arrival list \<Rightarrow> 'm signal list" where
  "dht_signals de buffer_size 0 arrivals = []"
| "dht_signals de buffer_size (Suc n) arrivals =
     (case dht_next de buffer_size True arrivals of
        Some (Some s, rest) \<Rightarrow> s # dht_signals de buffer_size n rest
      | _ \<Rightarrow> [])"

definition arrival_signal :: "(byte list \<Rightarrow> string + wire_message) \<Rightarrow> nat \<Rightarrow> 'm arrival \<Rightarrow> 'm signal option" where
  "arrival_signal de buffer_size x =
     (case x of
        Mail m \<Rightarrow> Some (MailSignal m)
      | Datagram (b, a) \<Rightarrow> (case msg_decode de (take buffer_size b) of Inl _ \<Rightarrow> None | Inr m \<Rightarrow> Some (DatagramSignal m a))
      | _ \<Rightarrow> None)"

lemma dht_next_skips:
  assumes "MailboxClosed \<notin> set arrivals"
  shows "dht_next de buffer_size True arrivals =
    (case dropWhile (\<lambda>x. arrival_signal de buffer_size x = None) arrivals of [] \<Rightarrow> None | x # rest \<Rightarrow> Some (arrival_signal de buffer_size x, rest))"
  using assms
proof (induction arrivals)
  case (Cons x xs)
  then show ?case
    by (cases x) (auto simp: arrival_signal_def transport_receive_def split: sum.splits)
qed simp

lemma arrivals_all_handled:
  assumes "MailboxClosed \<notin> set arrivals" and "length arrivals \<le> n"
  shows "dht_signals de buffer_size n arrivals = List.map_filter (arrival_signal de buffer_size) arrivals"
  using assms
proof (induction n arbitrary: arrivals)
  case (Suc n)
  let ?none = "\<lambda>x. arrival_signal de buffer_size x = None"
  have split: "List.map_filter (arrival_signal de buffer_size) arrivals = List.map_filter (arrival_signal de buffer_size) (dropWhile ?none arrivals)"
    by (induction arrivals) auto
  show ?case
  proof (cases "dropWhile ?none arrivals")
    case Nil
    show ?thesis unfolding dht_signals.simps dht_next_skips [OF Suc.prems(1)] split Nil by simp
  next
    case (Cons x rest)
    then have "\<not> ?none x" by (meson hd_dropWhile list.discI list.sel(1) dropWhile_eq_Cons_conv)
    moreover have "MailboxClosed \<notin> set rest" "length rest \<le> n"
      using Suc.prems set_dropWhileD [of _ ?none arrivals] length_dropWhile_le [of ?none arrivals] Cons by force+
    ultimately show ?thesis using dht_next_skips [OF Suc.prems(1)] split Suc.IH [of rest] Cons by auto
  qed
qed simp

text \<open>
  The bootstrap task starts one query for each address of each router whose name resolves; the results of the
  queries are only logged, and when all have ended it asks the actor to refresh its torrents. The queries go
  through the transport, so what the routers answer is learnt by the actor as any other response.
\<close>

definition bootstrap :: "(string \<Rightarrow> string + socket_addr list) \<Rightarrow> string list \<Rightarrow> node_id \<Rightarrow> (socket_addr \<times> query) list" where
  "bootstrap resolve routers i =
     concat (map (\<lambda>router. case resolve router of Inl _ \<Rightarrow> [] | Inr addrs \<Rightarrow> map (\<lambda>a. (a, FindNode i i)) addrs) routers)"

section \<open>Runs\<close>

datatype transport_step =
    BeginQuery socket_addr query "byte list \<Rightarrow> socket_addr \<Rightarrow> bool"
  | EndQuery bool channel
  | Complete dht_message socket_addr
  | AbortQuery channel

fun transport_next :: "(wire_message \<Rightarrow> string + byte list) \<Rightarrow> transport_step \<Rightarrow> dht_transport \<Rightarrow> dht_transport option" where
  "transport_next ser (BeginQuery a q sends) T = map_option snd (query_begin ser sends a q T)"
| "transport_next ser (EndQuery timed_out ch) T = Some (snd (query_end timed_out ch T))"
| "transport_next ser (Complete m a) T = Some (snd (complete m a T))"
| "transport_next ser (AbortQuery ch) T = Some (drop_query ch T)"

fun transport_run :: "(wire_message \<Rightarrow> string + byte list) \<Rightarrow> transport_step list \<Rightarrow> dht_transport \<Rightarrow> dht_transport option" where
  "transport_run ser [] T = Some T"
| "transport_run ser (s # ss) T = Option.bind (transport_next ser s T) (transport_run ser ss)"

definition is_abort :: "transport_step \<Rightarrow> bool" where
  "is_abort s = (case s of AbortQuery _ \<Rightarrow> True | _ \<Rightarrow> False)"

section \<open>Without aborts nothing is left behind\<close>

text \<open>The pending transactions are those of the queries that wait and have not been answered.\<close>

definition transport_inv :: "dht_transport \<Rightarrow> bool" where
  "transport_inv T =
     (distinct (map fst (tr_waiting T)) \<and> (\<forall>(ch, _, _) \<in> set (tr_waiting T). ch < tr_next T) \<and>
      (\<forall>ch. tr_slots T ch \<noteq> None \<longrightarrow> is_waiting T ch) \<and>
      (\<forall>tid p. pending (tr_table T) tid = Some p \<longleftrightarrow> (pend_reply p, tid, pend_addr p) \<in> set (tr_waiting T) \<and> tr_slots T (pend_reply p) = None))"

lemma inv_bind: "transport_inv (transport_bind r)"
  by (simp add: transport_inv_def transport_bind_def tt_new_def)

lemma begin_pending:
  assumes "tt_begin t a ch = Some (t', tid)"
  shows "pending t tid = None" and "pending t' = (pending t)(tid \<mapsto> \<lparr>pend_addr = a, pend_reply = ch\<rparr>)"
proof -
  obtain w where "id_free t w" using begin_returns_free [OF assms] by blast
  from begin_registers [OF this, of a ch] assms
  show "pending t tid = None" "pending t' = (pending t)(tid \<mapsto> \<lparr>pend_addr = a, pend_reply = ch\<rparr>)" by (metis option.inject prod.inject)+
qed

lemma inv_begin:
  assumes i: "transport_inv T" and b: "query_begin ser sends a q T = Some (r, T')"
  shows "transport_inv T'"
proof -
  obtain t tid where t: "tt_begin (tr_table T) a (tr_next T) = Some (t, tid)"
    using b by (cases "tt_begin (tr_table T) a (tr_next T)") (auto simp: query_begin_def)
  note p = begin_pending [OF t]
  have fresh: "tr_next T \<notin> fst ` set (tr_waiting T)" using i by (auto simp: transport_inv_def)
  then have empty: "tr_slots T (tr_next T) = None" using i unfolding transport_inv_def is_waiting_def by blast
  have free: "(ch, tid, b) \<notin> set (tr_waiting T) \<or> tr_slots T ch \<noteq> None" for ch b
    using i p(1) unfolding transport_inv_def by (metis option.distinct(1) pending_transaction.select_convs)
  show ?thesis
  proof (cases "transport_send ser sends (MQuery tid q) a")
    case (Inl e)
    have "pending (fst (tt_cancel t tid)) = pending (tr_table T)" using p by (auto simp: tt_cancel_def)
    then have "T' = T\<lparr>tr_table := fst (tt_cancel t tid), tr_next := tr_next T + 1\<rparr>" "pending (tr_table T') = pending (tr_table T)"
      using b t Inl by (auto simp: query_begin_def)
    then show ?thesis using i by (auto simp: transport_inv_def is_waiting_def)
  next
    case (Inr bytes)
    then have T': "T' = T\<lparr>tr_table := t, tr_waiting := tr_waiting T @ [(tr_next T, tid, a)], tr_next := tr_next T + 1\<rparr>"
      using b t by (auto simp: query_begin_def)
    have iff: "pending t tid' = Some z \<longleftrightarrow> (pend_reply z, tid', pend_addr z) \<in> set (tr_waiting T @ [(tr_next T, tid, a)]) \<and> tr_slots T (pend_reply z) = None" for tid' z
    proof (cases "tid' = tid")
      case True
      have "pending t tid' = Some z \<longleftrightarrow> pend_reply z = tr_next T \<and> pend_addr z = a" using True p(2) by (cases z) auto
      then show ?thesis using True free [of "pend_reply z" "pend_addr z"] empty by auto
    next
      case False
      then show ?thesis using i p(2) by (simp add: transport_inv_def)
    qed
    have "distinct (map fst (tr_waiting T @ [(tr_next T, tid, a)]))" using i fresh by (simp add: transport_inv_def)
    moreover have "\<forall>(ch, _, _) \<in> set (tr_waiting T @ [(tr_next T, tid, a)]). ch < tr_next T + 1" using i by (auto simp: transport_inv_def)
    moreover have "\<forall>ch. tr_slots T ch \<noteq> None \<longrightarrow> ch \<in> fst ` set (tr_waiting T @ [(tr_next T, tid, a)])"
      using i by (auto simp: transport_inv_def is_waiting_def)
    ultimately show ?thesis using iff by (simp add: transport_inv_def T' is_waiting_def)
  qed
qed

lemma inv_filter:
  assumes "transport_inv T"
    and "\<And>tid p. pending t tid = Some p \<longleftrightarrow> (pend_reply p, tid, pend_addr p) \<in> set (filter (\<lambda>w. fst w \<noteq> ch) (tr_waiting T)) \<and> ((tr_slots T)(ch := None)) (pend_reply p) = None"
  shows "transport_inv (drop_query ch (T\<lparr>tr_table := t\<rparr>))"
proof -
  have "distinct (map fst (filter (\<lambda>w. fst w \<noteq> ch) (tr_waiting T)))" using assms(1) by (simp add: transport_inv_def distinct_map_filter)
  moreover have "ch' \<in> fst ` set (filter (\<lambda>w. fst w \<noteq> ch) (tr_waiting T))" if "((tr_slots T)(ch := None)) ch' \<noteq> None" for ch'
    using assms(1) that by (fastforce simp: transport_inv_def is_waiting_def split: if_splits)
  ultimately show ?thesis using assms by (simp add: transport_inv_def drop_query_def is_waiting_def)
qed

lemma inv_drop:
  assumes i: "transport_inv T" and w: "(ch, tid, a) \<in> set (tr_waiting T)" and t: "pending t = (pending (tr_table T))(tid := None)"
    and s: "tr_slots T ch = None"
  shows "transport_inv (drop_query ch (T\<lparr>tr_table := t\<rparr>))"
proof -
  have only: "x = (ch, tid, a)" if "x \<in> set (tr_waiting T)" "fst x = ch" for x
    using i w that eq_key_imp_eq_value [of "tr_waiting T" ch "snd x" "(tid, a)"] by (cases x) (simp add: transport_inv_def)
  have other: "ch' = ch" if "(ch', tid, b) \<in> set (tr_waiting T)" "tr_slots T ch' = None" for ch' b
  proof -
    have "pending (tr_table T) tid = Some \<lparr>pend_addr = b, pend_reply = ch'\<rparr>" "pending (tr_table T) tid = Some \<lparr>pend_addr = a, pend_reply = ch\<rparr>"
      using i w s that by (simp_all add: transport_inv_def)
    then show ?thesis by simp
  qed
  have "pending t tid' = Some p \<longleftrightarrow> (pend_reply p, tid', pend_addr p) \<in> set (filter (\<lambda>w. fst w \<noteq> ch) (tr_waiting T)) \<and> ((tr_slots T)(ch := None)) (pend_reply p) = None" for tid' p
  proof (cases "tid' = tid")
    case True
    then show ?thesis using t other by auto
  next
    case False
    then have "pend_reply p \<noteq> ch" if "(pend_reply p, tid', pend_addr p) \<in> set (tr_waiting T)" using only [OF that] by auto
    then show ?thesis using i t False by (auto simp: transport_inv_def)
  qed
  then show ?thesis by (rule inv_filter [OF i])
qed

lemma inv_drop_answered:
  assumes i: "transport_inv T" and s: "tr_slots T ch \<noteq> None"
  shows "transport_inv (drop_query ch T)"
proof -
  have "pending (tr_table T) tid = Some p \<longleftrightarrow> (pend_reply p, tid, pend_addr p) \<in> set (filter (\<lambda>w. fst w \<noteq> ch) (tr_waiting T)) \<and> ((tr_slots T)(ch := None)) (pend_reply p) = None" for tid p
    using i s by (auto simp: transport_inv_def)
  then show ?thesis using inv_filter [OF i, of "tr_table T" ch] by simp
qed

lemma find_in: "find P xs = Some x \<Longrightarrow> P x \<and> x \<in> set xs"
  by (induction xs) (auto split: if_splits)

lemma inv_sender:
  assumes "transport_inv T" and "(ch, tid, a) \<in> set (tr_waiting T)" and "tr_slots T ch = None"
  shows "sender_held ch tid T"
proof -
  have "pending (tr_table T) tid = Some \<lparr>pend_addr = a, pend_reply = ch\<rparr>" using assms by (simp add: transport_inv_def)
  then show ?thesis by (simp add: sender_held_def)
qed

lemma inv_end:
  assumes "transport_inv T"
  shows "transport_inv (snd (query_end timed_out ch T))"
proof (cases "find (\<lambda>w. fst w = ch) (tr_waiting T)")
  case None
  then show ?thesis using assms by (simp add: query_end_def)
next
  case (Some w)
  obtain tid a where w: "w = (ch, tid, a)" "(ch, tid, a) \<in> set (tr_waiting T)"
    using find_in [OF Some] by (cases w) auto
  show ?thesis
  proof (cases "tr_slots T ch")
    case (Some r)
    then show ?thesis using inv_drop_answered [OF assms] \<open>find _ _ = _\<close> w by (simp add: query_end_def)
  next
    case None
    have "transport_inv (drop_query ch (T\<lparr>tr_table := fst (tt_cancel (tr_table T) tid)\<rparr>))"
      by (rule inv_drop [OF assms w(2) _ None]) (simp add: tt_cancel_def)
    then show ?thesis using inv_sender [OF assms w(2) None] None Some w assms by (simp add: query_end_def)
  qed
qed

lemma never_closed:
  assumes "transport_inv T"
  shows "fst (query_end timed_out ch T) \<noteq> Some (Inl ResponseChannelClosed)"
proof (cases "find (\<lambda>w. fst w = ch) (tr_waiting T)")
  case (Some w)
  then obtain tid a where w: "w = (ch, tid, a)" "(ch, tid, a) \<in> set (tr_waiting T)"
    using find_in [OF Some] by (cases w) auto
  then have "tr_slots T ch = None \<Longrightarrow> sender_held ch tid T" by (intro inv_sender [OF assms])
  then show ?thesis using Some w(1)
    by (auto simp: query_end_def query_result_def split: option.split transaction_result.split)
qed (simp add: query_end_def)

lemma inv_complete:
  assumes i: "transport_inv T"
  shows "transport_inv (snd (complete m a T))"
proof -
  have go: "transport_inv (T\<lparr>tr_table := t, tr_slots := (case delivered of None \<Rightarrow> tr_slots T | Some (ch, r) \<Rightarrow> (tr_slots T)(ch \<mapsto> r))\<rparr>)"
    if c: "tt_complete (is_waiting T) (tr_table T) tid a result = (t, delivered, matched)" for tid result t delivered matched
  proof (cases "\<exists>p. pending (tr_table T) tid = Some p \<and> pend_addr p = a")
    case False
    then have "t = tr_table T" "delivered = None" using c by (auto simp: tt_complete_def split: option.splits if_splits)
    then show ?thesis using i by simp
  next
    case True
    then obtain p where p: "pending (tr_table T) tid = Some p" "pend_addr p = a" by blast
    then have w: "(pend_reply p, tid, a) \<in> set (tr_waiting T)" "tr_slots T (pend_reply p) = None" using i by (auto simp: transport_inv_def)
    then have alive: "is_waiting T (pend_reply p)" by (force simp: is_waiting_def)
    then have t: "t = (tr_table T)\<lparr>pending := (pending (tr_table T))(tid := None)\<rparr>" "delivered = Some (pend_reply p, result)"
      using c p by (auto simp: tt_complete_def Let_def)
    have only: "tid' = tid" if "(pend_reply p, tid', b) \<in> set (tr_waiting T)" for tid' b
      using i w(1) that by (auto simp: transport_inv_def dest: eq_key_imp_eq_value)
    have other: "q = p" if "pending (tr_table T) tid = Some q" for q using that p by simp
    have "pending t tid' = Some q \<longleftrightarrow> (pend_reply q, tid', pend_addr q) \<in> set (tr_waiting T) \<and> ((tr_slots T)(pend_reply p \<mapsto> result)) (pend_reply q) = None" for tid' q
    proof (cases "tid' = tid")
      case True
      have "pend_reply q = pend_reply p" if "(pend_reply q, tid, pend_addr q) \<in> set (tr_waiting T)" "tr_slots T (pend_reply q) = None"
        using i that other [of q] unfolding transport_inv_def by blast
      then show ?thesis using True t by auto
    next
      case False
      then show ?thesis using i t only by (auto simp: transport_inv_def)
    qed
    then show ?thesis using i alive t(2) by (auto simp: transport_inv_def is_waiting_def)
  qed
  show ?thesis
    using i go by (cases m) (auto simp: complete_def Let_def split: prod.split)
qed

lemma inv_run:
  assumes "list_all (\<lambda>s. \<not> is_abort s) ss" and "transport_inv T" and "transport_run ser ss T = Some T'"
  shows "transport_inv T'"
  using assms
proof (induction ss arbitrary: T)
  case (Cons s ss)
  obtain T1 where T1: "transport_next ser s T = Some T1" "transport_run ser ss T1 = Some T'"
    using Cons.prems(3) by (auto simp: bind_eq_Some_conv)
  have "transport_inv T1"
    using T1(1) Cons.prems(1,2) inv_begin inv_end inv_complete by (cases s) (auto simp: is_abort_def)
  then show ?case using Cons.IH Cons.prems(1) T1(2) by simp
qed simp

text \<open>
  C36: queries clean up after themselves. However queries, answers and timeouts interleave, as long as no task is
  aborted the pending transactions are exactly those of the queries that still wait unanswered, so when no
  query is under way the table is empty, no query finds its response channel closed, and while fewer than
  65536 are under way a new query is started.
\<close>

theorem transactions_cleaned_up:
  assumes "transport_run ser ss (transport_bind r) = Some T" and "list_all (\<lambda>s. \<not> is_abort s) ss"
  shows "dom (pending (tr_table T)) = {tid. \<exists>ch a. (ch, tid, a) \<in> set (tr_waiting T) \<and> tr_slots T ch = None} \<and>
    (tr_waiting T = [] \<longrightarrow> pending (tr_table T) = Map.empty) \<and>
    fst (query_end timed_out ch T) \<noteq> Some (Inl ResponseChannelClosed) \<and>
    (length (tr_waiting T) < 65536 \<longrightarrow> (\<exists>res T'. query_begin ser sends a q T = Some (res, T')))"
proof -
  have i: "transport_inv T" by (rule inv_run [OF assms(2) inv_bind assms(1)])
  have dom: "dom (pending (tr_table T)) = {tid. \<exists>ch a. (ch, tid, a) \<in> set (tr_waiting T) \<and> tr_slots T ch = None}" (is "_ = ?D")
  proof (intro equalityI subsetI)
    fix tid assume "tid \<in> ?D"
    then obtain ch a where "(ch, tid, a) \<in> set (tr_waiting T)" "tr_slots T ch = None" by blast
    then have "pending (tr_table T) tid = Some \<lparr>pend_addr = a, pend_reply = ch\<rparr>" using i by (simp add: transport_inv_def)
    then show "tid \<in> dom (pending (tr_table T))" by blast
  next
    fix tid assume "tid \<in> dom (pending (tr_table T))"
    then obtain p where "pending (tr_table T) tid = Some p" by blast
    then show "tid \<in> ?D" using i unfolding transport_inv_def by blast
  qed
  have "?D \<subseteq> (\<lambda>(_, tid, _). tid) ` set (tr_waiting T)" by force
  then have fin: "finite ?D" "card ?D \<le> card ((\<lambda>(_, tid, _). tid) ` set (tr_waiting T))"
    by (rule finite_subset, simp) (rule card_mono [OF _ \<open>?D \<subseteq> _\<close>], simp)
  then have card: "card ?D \<le> length (tr_waiting T)"
    using card_image_le [of "set (tr_waiting T)" "\<lambda>(_, tid, _). tid"] card_length [of "tr_waiting T"] by simp
  have "\<exists>res T'. query_begin ser sends a q T = Some (res, T')" if l: "length (tr_waiting T) < 65536"
  proof -
    obtain w where "id_free (tr_table T) w" using few_pending_free [of "tr_table T"] fin(1) card l dom by auto
    then obtain t tid where "tt_begin (tr_table T) a (tr_next T) = Some (t, tid)" using begin_registers by metis
    then show ?thesis by (cases "transport_send ser sends (MQuery tid q) a") (simp_all add: query_begin_def)
  qed
  moreover have "pending (tr_table T) = Map.empty" if "tr_waiting T = []" using dom that by simp
  moreover have "fst (query_end timed_out ch T) \<noteq> Some (Inl ResponseChannelClosed)" by (rule never_closed [OF i])
  ultimately show ?thesis using dom by blast
qed

text \<open>An instance: one ping, answered, and a serialisation that writes the transaction identifier only.\<close>

definition id_ser :: "wire_message \<Rightarrow> string + byte list" where
  "id_ser w = Inr (wm_transaction_id w)"

definition ping_steps :: "transport_step list" where
  "ping_steps = [BeginQuery example_addr (Ping (replicate 20 1)) (\<lambda>_ _. True), Complete (MResponse [255, 255] (pong (replicate 20 2))) example_addr, EndQuery False 0]"

lemma ping_run:
  "transport_run id_ser ping_steps (transport_bind 65535) =
     Some \<lparr>tr_table = \<lparr>next_id = 0, pending = Map.empty\<rparr>, tr_waiting = [], tr_slots = Map.empty, tr_next = 1\<rparr>"
proof -
  have bytes: "be_bytes 2 (65535 :: u16) = [255, 255]" by code_simp
  have b: "tt_begin (tt_new 65535) example_addr 0 = Some (\<lparr>next_id = 0, pending = [[255, 255] \<mapsto> \<lparr>pend_addr = example_addr, pend_reply = 0\<rparr>]\<rparr>, [255, 255])"
    by (subst tt_begin.simps) (simp add: tt_new_def Let_def bytes)
  show ?thesis
    by (simp add: ping_steps_def transport_bind_def query_begin_def b transport_send_def msg_encode_def id_ser_def
        complete_def tt_complete_def is_waiting_def Let_def query_end_def drop_query_def)
qed

theorem transactions_cleaned_up_witness:
  "\<exists>T. transport_run id_ser ping_steps (transport_bind 65535) = Some T \<and> pending (tr_table T) = Map.empty \<and>
     (\<exists>res T'. query_begin id_ser (\<lambda>_ _. True) example_addr (Ping (replicate 20 1)) T = Some (res, T'))"
proof -
  have "list_all (\<lambda>s. \<not> is_abort s) ping_steps" by (simp add: ping_steps_def is_abort_def)
  from transactions_cleaned_up [OF ping_run this, of False 0 "\<lambda>_ _. True" example_addr "Ping (replicate 20 1)"] show ?thesis using ping_run by auto
qed

section \<open>Aborted queries\<close>

text \<open>A task that is aborted right after its query was sent, a number of times in a row.\<close>

definition aborted_queries :: "socket_addr \<Rightarrow> query \<Rightarrow> (byte list \<Rightarrow> socket_addr \<Rightarrow> bool) \<Rightarrow> nat \<Rightarrow> transport_step list" where
  "aborted_queries a q sends n = concat (map (\<lambda>k. [BeginQuery a q sends, AbortQuery k]) [0..<n])"

lemma aborted_queries_Suc: "aborted_queries a q sends (Suc n) = aborted_queries a q sends n @ [BeginQuery a q sends, AbortQuery n]"
  by (simp add: aborted_queries_def)

lemma run_append: "transport_run ser (ss @ ss') T = Option.bind (transport_run ser ss T) (transport_run ser ss')"
  by (induction ss arbitrary: T) (auto simp: fun_eq_iff intro!: arg_cong [where f = "Option.bind _"])

definition id_space :: "transaction_id set" where
  "id_space = {xs. set xs \<subseteq> UNIV \<and> length xs = 2}"

lemma id_space: "finite id_space" "card id_space = 65536"
  using finite_lists_length_eq [of "UNIV :: byte set" 2] card_lists_length_eq [of "UNIV :: byte set" 2]
  by (simp_all add: id_space_def card_word)

lemma full_table_blocks:
  assumes "dom (pending t) \<subseteq> id_space" and "card (dom (pending t)) = 65536"
  shows "tt_begin t a reply = None"
proof (rule ccontr)
  assume "tt_begin t a reply \<noteq> None"
  then obtain w where w: "id_free t w" using begin_returns_free by blast
  have "dom (pending t) = id_space" using assms id_space by (intro card_subset_eq) simp_all
  moreover have "be_bytes 2 w \<in> id_space" by (simp add: id_space_def)
  ultimately show False using w by (auto simp: id_free_def)
qed

lemma aborted_queries_pile_up:
  assumes s: "\<forall>tid. \<exists>bytes. transport_send ser sends (MQuery tid q) a = Inr bytes" and "n \<le> 65536"
  shows "\<exists>T. transport_run ser (aborted_queries a q sends n) (transport_bind r) = Some T \<and> tr_waiting T = [] \<and>
    tr_next T = n \<and> dom (pending (tr_table T)) \<subseteq> id_space \<and> card (dom (pending (tr_table T))) = n"
  using assms(2)
proof (induction n)
  case 0
  then show ?case by (simp add: aborted_queries_def transport_bind_def tt_new_def)
next
  case (Suc n)
  then obtain T where T: "transport_run ser (aborted_queries a q sends n) (transport_bind r) = Some T" "tr_waiting T = []"
    "tr_next T = n" "dom (pending (tr_table T)) \<subseteq> id_space" "card (dom (pending (tr_table T))) = n" by auto
  have fin: "finite (dom (pending (tr_table T)))" using T(4) id_space(1) by (rule finite_subset)
  then obtain w where "id_free (tr_table T) w" using few_pending_free [of "tr_table T"] T(5) Suc.prems by auto
  then obtain t tid where t: "tt_begin (tr_table T) a n = Some (t, tid)" "pending (tr_table T) tid = None" "length tid = 2"
    "pending t = (pending (tr_table T))(tid \<mapsto> \<lparr>pend_addr = a, pend_reply = n\<rparr>)" by (rule begin_registers)
  obtain bytes where "transport_send ser sends (MQuery tid q) a = Inr bytes" using s by blast
  with T(2,3) t(1) have q: "query_begin ser sends a q T = Some (Inr n, T\<lparr>tr_table := t, tr_waiting := [(n, tid, a)], tr_next := n + 1\<rparr>)"
    by (simp add: query_begin_def)
  have "card (dom (pending t)) = Suc n" using fin t(2,4) T(5) by (simp add: domIff)
  moreover have "dom (pending t) \<subseteq> id_space" using T(4) t(3,4) by (auto simp: id_space_def)
  ultimately show ?case by (simp add: aborted_queries_Suc run_append T(1) q drop_query_def)
qed

text \<open>
  A query whose task is aborted leaves its transaction behind. After 65536 aborted and unanswered queries
  no query is under way, all 16-bit identifiers are taken, and no further query is ever sent: the search for a
  free identifier does not end, while it holds the lock of the table.
\<close>

theorem aborted_queries_block_transport:
  assumes "\<forall>tid. \<exists>bytes. transport_send ser sends (MQuery tid q) a = Inr bytes"
  shows "\<exists>T. transport_run ser (aborted_queries a q sends 65536) (transport_bind r) = Some T \<and> tr_waiting T = [] \<and>
    (\<forall>sends' a' q'. query_begin ser sends' a' q' T = None)"
proof -
  obtain T where "transport_run ser (aborted_queries a q sends 65536) (transport_bind r) = Some T" "tr_waiting T = []"
    "dom (pending (tr_table T)) \<subseteq> id_space" "card (dom (pending (tr_table T))) = 65536"
    using aborted_queries_pile_up [OF assms, of 65536] by blast
  then show ?thesis using full_table_blocks by (auto simp: query_begin_def)
qed

theorem aborted_queries_block_transport_witness:
  "\<exists>T. transport_run id_ser (aborted_queries example_addr (Ping (replicate 20 1)) (\<lambda>_ _. True) 65536) (transport_bind 65535) = Some T \<and>
     tr_waiting T = [] \<and> query_begin id_ser (\<lambda>_ _. True) example_addr (Ping (replicate 20 1)) T = None"
  using aborted_queries_block_transport [of id_ser "\<lambda>_ _. True" "Ping (replicate 20 1)" example_addr 65535]
  by (auto simp: transport_send_def msg_encode_def id_ser_def)

end
