(* ===== verification/Piece_Scheduler.thy ===== *)
theory Piece_Scheduler
  imports Prelude
begin

text \<open>
  The block scheduler, \<^verbatim>\<open>pieces/piece_scheduler.rs\<close>: which 16 KiB block is asked from which peer.
  Bit vectors are lists of booleans, hash maps are maps, the in-flight table, which the source
  iterates over, an association list. \<^verbatim>\<open>Instant::now()\<close> is an argument: a reading of the clock, or,
  in \<open>requests_for_peer\<close>, which reads it once per assigned slot, a function of the slot.
\<close>

definition BLOCK_SIZE :: nat where "BLOCK_SIZE = 16 * 1024"

lemma block_size_pos [simp]: "0 < BLOCK_SIZE"
  by (simp add: BLOCK_SIZE_def)

record block_request =
  br_piece :: nat
  br_block :: nat
  br_length :: nat

definition br_offset :: "block_request \<Rightarrow> nat" where
  "br_offset r = br_block r * BLOCK_SIZE"

record in_flight_block =
  ifb_peer :: peer_id
  ifb_requested_at :: instant

type_synonym in_flight_table = "(nat \<times> in_flight_block option list) list"

record piece_scheduler =
  completed_pieces :: "bool list"
  completed_blocks :: "nat \<rightharpoonup> bool list"
  in_flight :: in_flight_table
  in_flight_per_peer :: "peer_id \<rightharpoonup> nat"
  peer_availability :: "peer_id \<rightharpoonup> bool list"
  request_cursors :: "peer_id \<rightharpoonup> nat"
  next_piece :: nat

section \<open>Operations\<close>

definition sched_new :: "nat \<Rightarrow> piece_scheduler" where
  "sched_new piece_count =
     \<lparr>completed_pieces = replicate piece_count False, completed_blocks = Map.empty, in_flight = [],
      in_flight_per_peer = Map.empty, peer_availability = Map.empty, request_cursors = Map.empty,
      next_piece = 0\<rparr>"

text \<open>The \<^verbatim>\<open>while\<close> loop of \<^verbatim>\<open>mark_piece_complete\<close>.\<close>

function skip_complete :: "bool list \<Rightarrow> nat \<Rightarrow> nat" where
  "skip_complete pieces n = (if n < length pieces \<and> pieces ! n then skip_complete pieces (n + 1) else n)"
  by pat_completeness auto
termination
  by (relation "measure (\<lambda>(pieces, n). length pieces - n)") auto

declare skip_complete.simps [simp del]

definition mark_piece_complete :: "nat \<Rightarrow> piece_scheduler \<Rightarrow> piece_scheduler" where
  "mark_piece_complete index s =
     (let pieces = (if index < length (completed_pieces s) then (completed_pieces s)[index := True]
                    else completed_pieces s)
      in s\<lparr>completed_blocks := (completed_blocks s)(index := None), completed_pieces := pieces,
           next_piece := skip_complete pieces (next_piece s)\<rparr>)"

definition restore_piece_blocks :: "nat \<Rightarrow> bool list \<Rightarrow> piece_scheduler \<Rightarrow> piece_scheduler" where
  "restore_piece_blocks index blocks s =
     s\<lparr>completed_blocks := (completed_blocks s)(index \<mapsto> blocks)\<rparr>"

definition in_flight_at :: "in_flight_table \<Rightarrow> nat \<Rightarrow> nat \<Rightarrow> in_flight_block option" where
  "in_flight_at tbl piece block =
     (case map_of tbl piece of
        None \<Rightarrow> None
      | Some blocks \<Rightarrow> (case get_at blocks block of None \<Rightarrow> None | Some slot \<Rightarrow> slot))"

definition is_in_flight :: "piece_scheduler \<Rightarrow> nat \<Rightarrow> nat \<Rightarrow> bool" where
  "is_in_flight s piece block = (in_flight_at (in_flight s) piece block \<noteq> None)"

text \<open>\<^verbatim>\<open>remove_in_flight\<close> on the table: the entry taken, and the piece dropped when nothing is left.\<close>

definition remove_in_flight :: "nat \<Rightarrow> nat \<Rightarrow> in_flight_table \<Rightarrow> in_flight_table \<times> in_flight_block option" where
  "remove_in_flight piece block tbl =
     (case in_flight_at tbl piece block of
        None \<Rightarrow> (tbl, None)
      | Some request \<Rightarrow>
          let blocks = (the (map_of tbl piece))[block := None]
          in (if list_ex (\<lambda>b. b \<noteq> None) blocks then AList.update piece blocks tbl
              else AList.delete piece tbl, Some request))"

definition decrement_in_flight :: "peer_id \<Rightarrow> piece_scheduler \<Rightarrow> piece_scheduler" where
  "decrement_in_flight peer s =
     (case in_flight_per_peer s peer of
        None \<Rightarrow> s
      | Some n \<Rightarrow>
          s\<lparr>in_flight_per_peer := (in_flight_per_peer s)(peer := (if n - 1 = 0 then None else Some (n - 1)))\<rparr>)"

definition mark_block_complete :: "nat \<Rightarrow> nat \<Rightarrow> nat \<Rightarrow> piece_scheduler \<Rightarrow> piece_scheduler \<times> peer_id option" where
  "mark_block_complete piece block total_blocks s =
     (let blocks = (case completed_blocks s piece of
                      None \<Rightarrow> replicate total_blocks False | Some blocks \<Rightarrow> blocks);
          blocks = (if block < length blocks then blocks[block := True] else blocks);
          s1 = s\<lparr>completed_blocks := (completed_blocks s)(piece \<mapsto> blocks)\<rparr>;
          (tbl, request) = remove_in_flight piece block (in_flight s1);
          s2 = s1\<lparr>in_flight := tbl\<rparr>
      in case request of
           None \<Rightarrow> (s2, None)
         | Some r \<Rightarrow> (decrement_in_flight (ifb_peer r) s2, Some (ifb_peer r)))"

definition remove_piece_blocks :: "nat \<Rightarrow> piece_scheduler \<Rightarrow> piece_scheduler \<times> bool list option" where
  "remove_piece_blocks piece s =
     (s\<lparr>completed_blocks := (completed_blocks s)(piece := None)\<rparr>, completed_blocks s piece)"

definition is_duplicate_block :: "piece_scheduler \<Rightarrow> nat \<Rightarrow> nat \<Rightarrow> bool" where
  "is_duplicate_block s piece block =
     (case completed_blocks s piece of
        None \<Rightarrow> False
      | Some blocks \<Rightarrow> (case get_at blocks block of None \<Rightarrow> False | Some b \<Rightarrow> b))"

definition is_piece_complete :: "piece_scheduler \<Rightarrow> nat \<Rightarrow> bool" where
  "is_piece_complete s piece =
     (case completed_blocks s piece of None \<Rightarrow> False | Some blocks \<Rightarrow> list_all (\<lambda>b. b) blocks)"

definition mk_block_request :: "nat \<Rightarrow> nat \<Rightarrow> nat \<Rightarrow> block_request" where
  "mk_block_request piece block piece_length =
     (let offset = block * BLOCK_SIZE
      in \<lparr>br_piece = piece, br_block = block,
          br_length = (if offset + BLOCK_SIZE > piece_length then piece_length - offset else BLOCK_SIZE)\<rparr>)"

text \<open>The lengths and slot bounds that \<^verbatim>\<open>requests_for_peer\<close> computes before its loop.\<close>

record slot_env =
  se_bpp :: nat
  se_last :: nat
  se_last_len :: nat
  se_piece_len :: nat
  se_first :: nat
  se_total :: nat

definition slot_env_of :: "piece_scheduler \<Rightarrow> nat \<Rightarrow> nat \<Rightarrow> slot_env" where
  "slot_env_of s piece_length total_length =
     (let bpp = div_ceil piece_length BLOCK_SIZE;
          last_index = length (completed_pieces s) - 1;
          last_len = (if total_length mod piece_length = 0 then piece_length else total_length mod piece_length)
      in \<lparr>se_bpp = bpp, se_last = last_index, se_last_len = last_len, se_piece_len = piece_length,
          se_first = saturating_mul (next_piece s) bpp,
          se_total = saturating_add (saturating_mul last_index bpp) (div_ceil last_len BLOCK_SIZE)\<rparr>)"

definition slot_piece_len :: "slot_env \<Rightarrow> nat \<Rightarrow> nat" where
  "slot_piece_len env piece = (if piece = se_last env then se_last_len env else se_piece_len env)"

text \<open>The conditions under which the loop skips a slot.\<close>

definition skip_slot :: "slot_env \<Rightarrow> bool list \<Rightarrow> piece_scheduler \<Rightarrow> nat \<Rightarrow> bool" where
  "skip_slot env available s slot =
     (let piece = slot div se_bpp env;
          block = slot mod se_bpp env
      in completed_pieces s ! piece
         \<or> \<not> (case get_at available piece of None \<Rightarrow> False | Some b \<Rightarrow> b)
         \<or> block \<ge> div_ceil (slot_piece_len env piece) BLOCK_SIZE
         \<or> is_in_flight s piece block
         \<or> is_duplicate_block s piece block)"

definition assign_slot :: "peer_id \<Rightarrow> instant \<Rightarrow> slot_env \<Rightarrow> nat \<Rightarrow> piece_scheduler \<Rightarrow> piece_scheduler" where
  "assign_slot peer now env slot s =
     (let piece = slot div se_bpp env;
          block = slot mod se_bpp env;
          blocks = (case map_of (in_flight s) piece of None \<Rightarrow> [] | Some blocks \<Rightarrow> blocks);
          blocks = (if length blocks \<le> block then pad_to (block + 1) None blocks else blocks);
          held = (case in_flight_per_peer s peer of None \<Rightarrow> 0 | Some n \<Rightarrow> n);
          next_cursor = saturating_add slot 1
      in s\<lparr>in_flight := AList.update piece
              (blocks[block := Some \<lparr>ifb_peer = peer, ifb_requested_at = now\<rparr>]) (in_flight s),
           in_flight_per_peer := (in_flight_per_peer s)(peer \<mapsto> held + 1),
           request_cursors := (request_cursors s)(peer \<mapsto>
              (if next_cursor < se_total env then next_cursor else se_first env))\<rparr>)"

text \<open>The loop over the slots, with its early return at the limit.\<close>

fun request_slots ::
  "peer_id \<Rightarrow> (nat \<Rightarrow> instant) \<Rightarrow> nat \<Rightarrow> slot_env \<Rightarrow> bool list \<Rightarrow> nat list \<Rightarrow> piece_scheduler
     \<Rightarrow> block_request list \<Rightarrow> piece_scheduler \<times> block_request list" where
  "request_slots peer clock limit env available [] s acc = (s, acc)"
| "request_slots peer clock limit env available (slot # slots) s acc =
     (if skip_slot env available s slot
      then request_slots peer clock limit env available slots s acc
      else
        let s' = assign_slot peer (clock slot) env slot s;
            piece = slot div se_bpp env;
            acc' = acc @ [mk_block_request piece (slot mod se_bpp env) (slot_piece_len env piece)]
        in if length acc' \<ge> limit then (s', acc')
           else request_slots peer clock limit env available slots s' acc')"

definition request_cursor :: "piece_scheduler \<Rightarrow> slot_env \<Rightarrow> peer_id \<Rightarrow> nat" where
  "request_cursor s env peer =
     (if next_piece s = length (completed_pieces s) then se_total env
      else let c = (case request_cursors s peer of None \<Rightarrow> se_first env | Some c \<Rightarrow> c)
           in max (se_first env) (min c (se_total env)))"

definition slot_order :: "piece_scheduler \<Rightarrow> slot_env \<Rightarrow> peer_id \<Rightarrow> nat list" where
  "slot_order s env peer =
     (let cursor = request_cursor s env peer
      in [cursor..<se_total env] @ [se_first env..<cursor])"

definition requests_for_peer ::
  "peer_id \<Rightarrow> (nat \<Rightarrow> instant) \<Rightarrow> nat \<Rightarrow> nat \<Rightarrow> nat \<Rightarrow> piece_scheduler
     \<Rightarrow> piece_scheduler \<times> block_request list" where
  "requests_for_peer peer clock limit piece_length total_length s =
     (if limit = 0 then (s, [])
      else if length (completed_pieces s) = 0 then (s, [])
      else case peer_availability s peer of
             None \<Rightarrow> (s, [])
           | Some available \<Rightarrow>
               if div_ceil piece_length BLOCK_SIZE = 0 then (s, [])
               else let env = slot_env_of s piece_length total_length
                    in request_slots peer clock limit env available (slot_order s env peer) s [])"

definition in_flight_for_peer :: "piece_scheduler \<Rightarrow> peer_id \<Rightarrow> nat" where
  "in_flight_for_peer s peer = (case in_flight_per_peer s peer of None \<Rightarrow> 0 | Some n \<Rightarrow> n)"

definition update_peer_availability :: "peer_id \<Rightarrow> bool list \<Rightarrow> piece_scheduler \<Rightarrow> piece_scheduler" where
  "update_peer_availability peer available s =
     s\<lparr>peer_availability := (peer_availability s)(peer \<mapsto> available)\<rparr>"

text \<open>
  \<^verbatim>\<open>HashMap::retain\<close> with a closure that clears the requests satisfying \<open>p\<close> and keeps the pieces that
  still have one.
\<close>

definition clear_requests :: "(in_flight_block \<Rightarrow> bool) \<Rightarrow> in_flight_table \<Rightarrow> in_flight_table" where
  "clear_requests p tbl =
     filter (\<lambda>(_, blocks). list_ex (\<lambda>b. b \<noteq> None) blocks)
       (map (\<lambda>(piece, blocks). (piece,
          map (\<lambda>b. case b of None \<Rightarrow> None | Some r \<Rightarrow> if p r then None else Some r) blocks)) tbl)"

definition peer_disconnected :: "peer_id \<Rightarrow> piece_scheduler \<Rightarrow> piece_scheduler" where
  "peer_disconnected peer s =
     s\<lparr>in_flight := clear_requests (\<lambda>r. ifb_peer r = peer) (in_flight s),
       in_flight_per_peer := (in_flight_per_peer s)(peer := None),
       peer_availability := (peer_availability s)(peer := None),
       request_cursors := (request_cursors s)(peer := None)\<rparr>"

definition table_requests :: "in_flight_table \<Rightarrow> in_flight_block list" where
  "table_requests tbl = List.map_filter (\<lambda>b. b) (concat (map snd tbl))"

definition count_request :: "in_flight_block \<Rightarrow> (peer_id \<rightharpoonup> nat) \<Rightarrow> (peer_id \<rightharpoonup> nat)" where
  "count_request r counts =
     counts(ifb_peer r \<mapsto> (case counts (ifb_peer r) of None \<Rightarrow> 0 | Some n \<Rightarrow> n) + 1)"

definition release_stale_requests :: "instant \<Rightarrow> duration \<Rightarrow> piece_scheduler \<Rightarrow> piece_scheduler \<times> nat" where
  "release_stale_requests now timeout s =
     (let stale = (\<lambda>r. now - ifb_requested_at r \<ge> timeout);
          requests = table_requests (in_flight s)
      in (s\<lparr>in_flight := clear_requests stale (in_flight s),
            in_flight_per_peer := fold count_request (filter (\<lambda>r. \<not> stale r) requests) Map.empty\<rparr>,
          length (filter stale requests)))"

definition release_peer_request :: "peer_id \<Rightarrow> nat \<Rightarrow> nat \<Rightarrow> piece_scheduler \<Rightarrow> piece_scheduler" where
  "release_peer_request peer piece offset s =
     (let block = offset div BLOCK_SIZE
      in case in_flight_at (in_flight s) piece block of
           None \<Rightarrow> s
         | Some r \<Rightarrow>
             if ifb_peer r = peer
             then decrement_in_flight peer
                    (s\<lparr>in_flight := fst (remove_in_flight piece block (in_flight s))\<rparr>)
             else s)"

section \<open>Abstraction: who holds which block\<close>

type_synonym block_key = "nat \<times> nat"

definition owner :: "in_flight_table \<Rightarrow> block_key \<rightharpoonup> in_flight_block" where
  "owner tbl = (\<lambda>(piece, block). in_flight_at tbl piece block)"

definition held_by :: "(block_key \<rightharpoonup> in_flight_block) \<Rightarrow> peer_id \<Rightarrow> block_key set" where
  "held_by own peer = {k. \<exists>r. own k = Some r \<and> ifb_peer r = peer}"

definition table_ok :: "in_flight_table \<Rightarrow> bool" where
  "table_ok tbl = (distinct (map fst tbl) \<and> (\<forall>(_, blocks) \<in> set tbl. list_ex (\<lambda>b. b \<noteq> None) blocks))"

lemma in_flight_at_owner: "in_flight_at tbl piece block = owner tbl (piece, block)"
  by (simp add: owner_def)

lemma owner_Nil [simp]: "owner [] = Map.empty"
  by (simp add: owner_def in_flight_at_def fun_eq_iff)

lemma owner_Cons:
  "piece \<notin> fst ` set tbl \<Longrightarrow> owner ((piece, blocks) # tbl) (i, b) =
     (if i = piece then (case get_at blocks b of None \<Rightarrow> None | Some slot \<Rightarrow> slot) else owner tbl (i, b))"
  by (auto simp: owner_def in_flight_at_def)

lemma owner_Some:
  "owner tbl (i, b) = Some r \<longleftrightarrow> (\<exists>blocks. map_of tbl i = Some blocks \<and> b < length blocks \<and> blocks ! b = Some r)"
  by (auto simp: owner_def in_flight_at_def get_at_def split: option.splits)

lemma finite_owner: "finite (dom (owner tbl))"
proof (rule finite_subset)
  show "dom (owner tbl) \<subseteq> (\<Union>(i, blocks) \<in> set tbl. {i} \<times> {..<length blocks})"
    by (force simp: owner_Some dest: map_of_SomeD)
qed auto

lemma finite_held [simp]: "finite (held_by (owner tbl) peer)"
  by (rule finite_subset [OF _ finite_owner [of tbl]]) (auto simp: held_by_def)

lemma owner_update:
  "owner (AList.update piece blocks tbl) (i, b) =
     (if i = piece then (case get_at blocks b of None \<Rightarrow> None | Some slot \<Rightarrow> slot) else owner tbl (i, b))"
  by (simp add: owner_def in_flight_at_def update_conv')

lemma owner_delete:
  "owner (AList.delete piece tbl) (i, b) = (if i = piece then None else owner tbl (i, b))"
  by (simp add: owner_def in_flight_at_def delete_conv')

lemma list_ex_all_None: "\<not> list_ex (\<lambda>b. b \<noteq> None) blocks \<Longrightarrow> get_at blocks j = Some x \<Longrightarrow> x = None"
  by (auto simp: list_ex_iff get_at_Some)

lemma owner_remove: "owner (fst (remove_in_flight piece block tbl)) = (owner tbl)((piece, block) := None)"
proof (cases "in_flight_at tbl piece block")
  case None
  then show ?thesis by (auto simp: remove_in_flight_def owner_def fun_eq_iff)
next
  case (Some r)
  then obtain blocks where b: "map_of tbl piece = Some blocks" "block < length blocks" "blocks ! block = Some r"
    by (auto simp: in_flight_at_def get_at_def split: option.splits if_splits)
  let ?new = "blocks[block := None]"
  have own: "owner tbl (piece, j) = (case get_at blocks j of None \<Rightarrow> None | Some slot \<Rightarrow> slot)" for j
    using b(1) by (simp add: owner_def in_flight_at_def)
  have slot: "(case get_at ?new j of None \<Rightarrow> None | Some slot \<Rightarrow> slot)
      = (if j = block then None else owner tbl (piece, j))" for j
    using b(2) by (auto simp: own get_at_def)
  show ?thesis
  proof (cases "list_ex (\<lambda>b. b \<noteq> None) ?new")
    case True
    with Some b show ?thesis
      by (auto simp: remove_in_flight_def fun_eq_iff owner_update slot)
  next
    case False
    then have "owner tbl (piece, j) = None" if "j \<noteq> block" for j
      using slot [of j] that list_ex_all_None [OF False, of j] by (auto split: option.splits)
    with False Some b show ?thesis
      by (auto simp: remove_in_flight_def fun_eq_iff owner_delete)
  qed
qed

lemma table_ok_update:
  "table_ok tbl \<Longrightarrow> list_ex (\<lambda>b. b \<noteq> None) blocks \<Longrightarrow> table_ok (AList.update piece blocks tbl)"
  using set_alist_update [of piece blocks tbl] by (auto simp: table_ok_def distinct_update)

lemma table_ok_remove: "table_ok tbl \<Longrightarrow> table_ok (fst (remove_in_flight piece block tbl))"
  by (auto simp: remove_in_flight_def Let_def table_ok_update split: option.splits)
    (auto simp: table_ok_def AList.delete_eq distinct_map_filter)

lemma snd_remove_in_flight: "snd (remove_in_flight piece block tbl) = owner tbl (piece, block)"
  by (simp add: remove_in_flight_def owner_def Let_def split: option.splits)

lemma owner_clear:
  "table_ok tbl \<Longrightarrow> owner (clear_requests p tbl) k =
     (case owner tbl k of None \<Rightarrow> None | Some r \<Rightarrow> if p r then None else Some r)"
proof (induction tbl)
  case (Cons e tbl)
  obtain i blocks where e: "e = (i, blocks)" by (cases e)
  obtain j b where k: "k = (j, b)" by (cases k)
  let ?f = "\<lambda>b. case b of None \<Rightarrow> None | Some r \<Rightarrow> if p r then None else Some r"
  have ok: "table_ok tbl" "i \<notin> fst ` set tbl" using Cons.prems by (auto simp: table_ok_def e)
  have keys: "i \<notin> fst ` set (clear_requests p tbl)" using ok(2) by (force simp: clear_requests_def)
  have none: "owner (clear_requests p tbl) (i, b) = None"
    using keys by (force simp: owner_def in_flight_at_def split: option.splits dest: map_of_SomeD)
  have new: "(case get_at (map ?f blocks) b of None \<Rightarrow> None | Some slot \<Rightarrow> slot)
      = ?f (case get_at blocks b of None \<Rightarrow> None | Some slot \<Rightarrow> slot)"
    by (simp add: get_at_def)
  show ?case
  proof (cases "list_ex (\<lambda>b. b \<noteq> None) (map ?f blocks)")
    case True
    then have "clear_requests p (e # tbl) = (i, map ?f blocks) # clear_requests p tbl"
      by (simp add: clear_requests_def e)
    then show ?thesis using Cons.IH ok keys new by (simp add: e k owner_Cons)
  next
    case False
    then have eq: "clear_requests p (e # tbl) = clear_requests p tbl" by (simp add: clear_requests_def e)
    have "?f (case get_at blocks b of None \<Rightarrow> None | Some slot \<Rightarrow> slot) = None"
      using list_ex_all_None [OF False, of b] new by (auto split: option.splits)
    then show ?thesis using Cons.IH ok none unfolding eq by (auto simp: e k owner_Cons)
  qed
qed (simp add: clear_requests_def)

lemma table_ok_clear: "table_ok tbl \<Longrightarrow> table_ok (clear_requests p tbl)"
  by (auto simp: table_ok_def clear_requests_def distinct_map_filter comp_def split_beta)

lemma count_fold:
  "(case fold count_request rs m peer of None \<Rightarrow> 0 | Some n \<Rightarrow> n)
     = (case m peer of None \<Rightarrow> 0 | Some n \<Rightarrow> n) + length (filter (\<lambda>r. ifb_peer r = peer) rs)"
  by (induction rs arbitrary: m) (auto simp: count_request_def)

lemma length_some_requests:
  "length (filter P (List.map_filter (\<lambda>b. b) blocks)) = card {b. b < length blocks \<and> (\<exists>r. blocks ! b = Some r \<and> P r)}"
proof -
  have "length (filter P (List.map_filter (\<lambda>b. b) blocks)) = length (filter (\<lambda>b. \<exists>r. b = Some r \<and> P r) blocks)"
    by (induction blocks) (auto split: option.splits)
  then show ?thesis by (simp add: length_filter_conv_card)
qed

lemma card_owner:
  assumes "distinct (map fst tbl)"
  shows "card {k. \<exists>r. owner tbl k = Some r \<and> P r} = length (filter P (table_requests tbl))"
  using assms
proof (induction tbl)
  case (Cons e tbl)
  obtain i blocks where e: "e = (i, blocks)" by (cases e)
  then have ni: "i \<notin> fst ` set tbl" "distinct (map fst tbl)" using Cons.prems by auto
  then have mi: "map_of tbl i = None" by (simp add: map_of_eq_None_iff)
  let ?A = "Pair i ` {b. b < length blocks \<and> (\<exists>r. blocks ! b = Some r \<and> P r)}"
  let ?B = "{k. \<exists>r. owner tbl k = Some r \<and> P r}"
  have "{k. \<exists>r. owner (e # tbl) k = Some r \<and> P r} = ?A \<union> ?B"
    using mi by (auto simp: e owner_Some split: if_splits)
  moreover have "?A \<inter> ?B = {}" using mi by (auto simp: owner_Some)
  moreover have "finite ?B" by (rule finite_subset [OF _ finite_owner [of tbl]]) auto
  ultimately have "card {k. \<exists>r. owner (e # tbl) k = Some r \<and> P r} = card ?A + card ?B"
    by (simp add: card_Un_disjoint)
  also have "card ?A = length (filter P (List.map_filter (\<lambda>b. b) blocks))"
    by (simp add: card_image inj_on_def length_some_requests)
  finally show ?case using Cons.IH [OF ni(2)] by (simp add: table_requests_def e map_filter_append)
qed (simp add: table_requests_def)

lemma held_by_upd:
  "own k = None \<Longrightarrow> held_by (own(k \<mapsto> r)) peer =
     (if ifb_peer r = peer then insert k (held_by own peer) else held_by own peer)"
  by (auto simp: held_by_def)

lemma held_by_del:
  "own k = Some r \<Longrightarrow> held_by (own(k := None)) peer =
     (if ifb_peer r = peer then held_by own peer - {k} else held_by own peer)"
  by (auto simp: held_by_def)

section \<open>The invariant\<close>

definition next_ok :: "bool list \<Rightarrow> nat \<Rightarrow> bool" where
  "next_ok pieces n = (n \<le> length pieces \<and> (\<forall>i < n. pieces ! i) \<and> (n < length pieces \<longrightarrow> \<not> pieces ! n))"

definition counters_ok :: "piece_scheduler \<Rightarrow> bool" where
  "counters_ok s = (\<forall>peer. in_flight_for_peer s peer = card (held_by (owner (in_flight s)) peer))"

definition sched_inv :: "piece_scheduler \<Rightarrow> bool" where
  "sched_inv s = (table_ok (in_flight s) \<and> counters_ok s \<and> next_ok (completed_pieces s) (next_piece s))"

lemma skip_complete_next_ok:
  "n \<le> length pieces \<Longrightarrow> \<forall>i < n. pieces ! i \<Longrightarrow> next_ok pieces (skip_complete pieces n)"
proof (induction pieces n rule: skip_complete.induct)
  case (1 pieces n)
  show ?case
  proof (cases "n < length pieces \<and> pieces ! n")
    case True
    with "1.prems" have "\<forall>i < n + 1. pieces ! i" by (auto simp: less_Suc_eq)
    with "1.IH" True show ?thesis by (simp add: skip_complete.simps [of pieces n])
  next
    case False
    with "1.prems" show ?thesis by (auto simp: skip_complete.simps [of pieces n] next_ok_def)
  qed
qed

lemma sched_inv_new [inv_intros]: "sched_inv (sched_new n)"
  by (simp add: sched_inv_def sched_new_def table_ok_def counters_ok_def in_flight_for_peer_def
      next_ok_def held_by_def)

lemma sched_inv_mark_piece [inv_intros]:
  assumes "sched_inv s"
  shows "sched_inv (mark_piece_complete i s)"
proof -
  let ?pieces = "if i < length (completed_pieces s) then (completed_pieces s)[i := True] else completed_pieces s"
  have n: "next_piece s \<le> length (completed_pieces s)" "\<forall>j < next_piece s. completed_pieces s ! j"
    using assms by (simp_all add: sched_inv_def next_ok_def)
  have "next_ok ?pieces (skip_complete ?pieces (next_piece s))"
    by (rule skip_complete_next_ok) (use n in \<open>simp_all add: nth_list_update\<close>)
  then show ?thesis
    using assms
    by (simp add: sched_inv_def mark_piece_complete_def Let_def counters_ok_def in_flight_for_peer_def)
qed

lemma sched_inv_restore [inv_intros]: "sched_inv s \<Longrightarrow> sched_inv (restore_piece_blocks i bs s)"
  by (simp add: sched_inv_def restore_piece_blocks_def counters_ok_def in_flight_for_peer_def)

lemma sched_inv_remove_blocks [inv_intros]: "sched_inv s \<Longrightarrow> sched_inv (fst (remove_piece_blocks i s))"
  by (simp add: sched_inv_def remove_piece_blocks_def counters_ok_def in_flight_for_peer_def)

lemma sched_inv_availability [inv_intros]: "sched_inv s \<Longrightarrow> sched_inv (update_peer_availability p a s)"
  by (simp add: sched_inv_def update_peer_availability_def counters_ok_def in_flight_for_peer_def)

lemma decrement_fields [simp]:
  "in_flight (decrement_in_flight p s) = in_flight s"
  "completed_pieces (decrement_in_flight p s) = completed_pieces s"
  "completed_blocks (decrement_in_flight p s) = completed_blocks s"
  "peer_availability (decrement_in_flight p s) = peer_availability s"
  "next_piece (decrement_in_flight p s) = next_piece s"
  "in_flight_for_peer (decrement_in_flight p s) q
     = (if q = p then in_flight_for_peer s q - 1 else in_flight_for_peer s q)"
  by (auto simp: decrement_in_flight_def in_flight_for_peer_def split: option.splits)

lemma remove_and_decrement_inv:
  assumes inv: "sched_inv s" and own: "owner (in_flight s) (i, b) = Some r"
    and frame: "completed_pieces s' = completed_pieces s" "next_piece s' = next_piece s"
      "in_flight_per_peer s' = in_flight_per_peer s"
      "in_flight s' = fst (remove_in_flight i b (in_flight s))"
  shows "sched_inv (decrement_in_flight (ifb_peer r) s')"
proof -
  have "(i, b) \<in> held_by (owner (in_flight s)) (ifb_peer r)" using own by (auto simp: held_by_def)
  moreover have "in_flight_for_peer s' q = in_flight_for_peer s q" for q
    using frame(3) by (simp add: in_flight_for_peer_def)
  ultimately show ?thesis
    using inv frame held_by_del [of "owner (in_flight s)" "(i, b)" r, OF own]
    by (auto simp: sched_inv_def counters_ok_def table_ok_remove owner_remove)
qed

lemma sched_inv_mark_block [inv_intros]:
  assumes "sched_inv s"
  shows "sched_inv (fst (mark_block_complete i b n s))"
proof (cases "owner (in_flight s) (i, b)")
  case None
  then have tbl: "remove_in_flight i b (in_flight s) = (in_flight s, None)"
    by (simp add: remove_in_flight_def owner_def)
  show ?thesis
    using assms by (simp add: mark_block_complete_def Let_def tbl sched_inv_def counters_ok_def in_flight_for_peer_def)
next
  case (Some r)
  then have req: "snd (remove_in_flight i b (in_flight s)) = Some r" by (simp add: snd_remove_in_flight)
  show ?thesis
    unfolding mark_block_complete_def Let_def split_beta using req
    by (auto intro: remove_and_decrement_inv [OF assms Some])
qed

lemma sched_inv_release_peer [inv_intros]:
  "sched_inv s \<Longrightarrow> sched_inv (release_peer_request p i off s)"
  by (auto simp: release_peer_request_def Let_def in_flight_at_owner split: option.splits
      intro: remove_and_decrement_inv)

lemma held_clear:
  "table_ok tbl \<Longrightarrow> held_by (owner (clear_requests q tbl)) peer
     = {k. \<exists>r. owner tbl k = Some r \<and> \<not> q r \<and> ifb_peer r = peer}"
  by (auto simp: held_by_def owner_clear split: option.splits if_splits)

lemma sched_inv_disconnect [inv_intros]: "sched_inv s \<Longrightarrow> sched_inv (peer_disconnected p s)"
proof -
  assume inv: "sched_inv s"
  then have ok: "table_ok (in_flight s)" by (simp add: sched_inv_def)
  have "held_by (owner (clear_requests (\<lambda>r. ifb_peer r = p) (in_flight s))) q
      = (if q = p then {} else held_by (owner (in_flight s)) q)" for q
    using held_clear [OF ok] by (auto simp: held_by_def)
  then show ?thesis
    using inv by (auto simp: sched_inv_def peer_disconnected_def table_ok_clear counters_ok_def in_flight_for_peer_def)
qed

lemma sched_inv_release_stale [inv_intros]: "sched_inv s \<Longrightarrow> sched_inv (fst (release_stale_requests now t s))"
proof -
  assume inv: "sched_inv s"
  let ?stale = "\<lambda>r. now - ifb_requested_at r \<ge> t"
  have ok: "table_ok (in_flight s)" using inv by (simp add: sched_inv_def)
  have "card (held_by (owner (clear_requests ?stale (in_flight s))) q)
      = length (filter (\<lambda>r. ifb_peer r = q) (filter (\<lambda>r. \<not> ?stale r) (table_requests (in_flight s))))" for q
    unfolding held_clear [OF ok]
    using ok card_owner [of "in_flight s" "\<lambda>r. \<not> ?stale r \<and> ifb_peer r = q"]
    by (simp add: table_ok_def conj_commute)
  then show ?thesis
    using inv
    by (simp add: sched_inv_def release_stale_requests_def Let_def table_ok_clear counters_ok_def
        in_flight_for_peer_def count_fold)
qed

section \<open>Assigning blocks\<close>

definition slot_key :: "slot_env \<Rightarrow> nat \<Rightarrow> block_key" where
  "slot_key env slot = (slot div se_bpp env, slot mod se_bpp env)"

definition br_key :: "block_request \<Rightarrow> block_key" where
  "br_key r = (br_piece r, br_block r)"

lemma assign_fields [simp]:
  "completed_pieces (assign_slot p now env slot s) = completed_pieces s"
  "completed_blocks (assign_slot p now env slot s) = completed_blocks s"
  "peer_availability (assign_slot p now env slot s) = peer_availability s"
  "next_piece (assign_slot p now env slot s) = next_piece s"
  "is_duplicate_block (assign_slot p now env slot s) = is_duplicate_block s"
  by (simp_all add: assign_slot_def Let_def is_duplicate_block_def fun_eq_iff)

lemma owner_assign:
  "owner (in_flight (assign_slot p now env slot s)) =
     (owner (in_flight s))(slot_key env slot \<mapsto> \<lparr>ifb_peer = p, ifb_requested_at = now\<rparr>)"
proof -
  let ?i = "slot div se_bpp env" and ?b = "slot mod se_bpp env"
  let ?r = "Some \<lparr>ifb_peer = p, ifb_requested_at = now\<rparr>"
  let ?old = "case map_of (in_flight s) ?i of None \<Rightarrow> [] | Some blocks \<Rightarrow> blocks"
  let ?new = "(if length ?old \<le> ?b then pad_to (?b + 1) None ?old else ?old)[?b := ?r]"
  have tbl: "in_flight (assign_slot p now env slot s) = AList.update ?i ?new (in_flight s)"
    by (simp add: assign_slot_def Let_def)
  have "(case get_at ?new j of None \<Rightarrow> None | Some slot \<Rightarrow> slot)
      = (if j = ?b then ?r else (case get_at ?old j of None \<Rightarrow> None | Some slot \<Rightarrow> slot))" for j
    by (auto simp: get_at_def nth_pad_to nth_list_update)
  moreover have "owner (in_flight s) (?i, j) = (case get_at ?old j of None \<Rightarrow> None | Some slot \<Rightarrow> slot)" for j
    by (auto simp: owner_def in_flight_at_def get_at_def split: option.splits)
  ultimately show ?thesis
    unfolding tbl slot_key_def by (auto simp: fun_eq_iff owner_update)
qed

lemma table_ok_assign: "table_ok (in_flight s) \<Longrightarrow> table_ok (in_flight (assign_slot p now env slot s))"
proof -
  have ex: "list_ex (\<lambda>b. b \<noteq> None) (xs[j := Some r])" if "j < length xs" for xs j and r :: in_flight_block
    using that set_update_memI [of j xs "Some r"] by (auto simp: list_ex_iff)
  assume "table_ok (in_flight s)"
  then show ?thesis
    unfolding assign_slot_def Let_def by (auto intro!: table_ok_update ex)
qed

lemma sched_inv_assign:
  assumes "sched_inv s" and "owner (in_flight s) (slot_key env slot) = None"
  shows "sched_inv (assign_slot p now env slot s)"
proof -
  have "in_flight_for_peer (assign_slot p now env slot s) q
      = (if q = p then in_flight_for_peer s q + 1 else in_flight_for_peer s q)" for q
    by (simp add: in_flight_for_peer_def assign_slot_def Let_def)
  moreover have "slot_key env slot \<notin> held_by (owner (in_flight s)) q" for q
    using assms(2) by (auto simp: held_by_def)
  ultimately show ?thesis
    using assms held_by_upd [of "owner (in_flight s)" "slot_key env slot", OF assms(2)]
    by (simp add: sched_inv_def table_ok_assign counters_ok_def owner_assign)
qed

lemma skip_slot_iff:
  "skip_slot env av s slot \<longleftrightarrow>
     completed_pieces s ! fst (slot_key env slot) \<or> get_at av (fst (slot_key env slot)) \<noteq> Some True \<or>
     div_ceil (slot_piece_len env (fst (slot_key env slot))) BLOCK_SIZE \<le> snd (slot_key env slot) \<or>
     owner (in_flight s) (slot_key env slot) \<noteq> None \<or>
     is_duplicate_block s (fst (slot_key env slot)) (snd (slot_key env slot))"
  by (auto simp: skip_slot_def Let_def slot_key_def is_in_flight_def owner_def split: option.splits)

lemma skip_after_assign:
  "skip_slot env av (assign_slot p now env slot s) slot' \<longleftrightarrow>
     skip_slot env av s slot' \<or> slot_key env slot' = slot_key env slot"
  by (auto simp: skip_slot_iff owner_assign)

lemma skip_fold:
  "skip_slot env av (fold (\<lambda>x. assign_slot p (clock x) env x) xs s) slot \<longleftrightarrow>
     skip_slot env av s slot \<or> slot_key env slot \<in> slot_key env ` set xs"
  by (induction xs arbitrary: s) (auto simp: skip_after_assign)

lemma fold_assign_fields [simp]:
  "completed_pieces (fold (\<lambda>x. assign_slot p (clock x) env x) xs s) = completed_pieces s"
  "is_duplicate_block (fold (\<lambda>x. assign_slot p (clock x) env x) xs s) = is_duplicate_block s"
  "peer_availability (fold (\<lambda>x. assign_slot p (clock x) env x) xs s) = peer_availability s"
  by (induction xs arbitrary: s) auto

lemma mk_block_request_key [simp]: "br_key (mk_block_request i b len) = (i, b)"
  by (simp add: br_key_def mk_block_request_def Let_def)

definition slot_request :: "slot_env \<Rightarrow> nat \<Rightarrow> block_request" where
  "slot_request env slot = mk_block_request (slot div se_bpp env) (slot mod se_bpp env)
     (slot_piece_len env (slot div se_bpp env))"

lemma slot_request_key [simp]: "br_key (slot_request env slot) = slot_key env slot"
  by (simp add: slot_request_def slot_key_def)

lemma request_slots_Cons:
  "request_slots p clock limit env av (slot # slots) s acc =
     (if skip_slot env av s slot then request_slots p clock limit env av slots s acc
      else if limit \<le> length acc + 1 then (assign_slot p (clock slot) env slot s, acc @ [slot_request env slot])
      else request_slots p clock limit env av slots (assign_slot p (clock slot) env slot s)
             (acc @ [slot_request env slot]))"
  by (simp add: Let_def slot_request_def)

declare request_slots.simps(2) [simp del]

text \<open>
  The loop as a list of the slots it assigned: each was assignable in the state before the loop,
  no two share a block, and if the limit was not reached nothing assignable is left.
\<close>

definition assigned_slots ::
  "peer_id \<Rightarrow> (nat \<Rightarrow> instant) \<Rightarrow> slot_env \<Rightarrow> bool list \<Rightarrow> nat list \<Rightarrow> piece_scheduler \<Rightarrow> piece_scheduler
     \<Rightarrow> nat list \<Rightarrow> bool" where
  "assigned_slots p clock env av slots s s' new =
     (set new \<subseteq> set slots \<and> distinct (map (slot_key env) new) \<and> (\<forall>x \<in> set new. \<not> skip_slot env av s x) \<and>
      s' = fold (\<lambda>x. assign_slot p (clock x) env x) new s)"

lemma request_slots_assigned:
  "\<exists>new. assigned_slots p clock env av slots s (fst (request_slots p clock limit env av slots s acc)) new \<and>
     snd (request_slots p clock limit env av slots s acc) = acc @ map (slot_request env) new \<and>
     (length acc < limit \<longrightarrow> length acc + length new \<le> limit) \<and>
     (length acc + length new < limit \<longrightarrow>
        (\<forall>x \<in> set slots. skip_slot env av (fst (request_slots p clock limit env av slots s acc)) x))"
proof (induction slots arbitrary: s acc)
  case (Cons slot slots)
  let ?s = "assign_slot p (clock slot) env slot s" and ?acc = "acc @ [slot_request env slot]"
  consider "skip_slot env av s slot" | "\<not> skip_slot env av s slot" "limit \<le> length acc + 1"
    | "\<not> skip_slot env av s slot" "\<not> limit \<le> length acc + 1" by blast
  then show ?case
  proof cases
    case 1
    obtain new where new: "assigned_slots p clock env av slots s (fst (request_slots p clock limit env av slots s acc)) new"
      "snd (request_slots p clock limit env av slots s acc) = acc @ map (slot_request env) new"
      "length acc < limit \<longrightarrow> length acc + length new \<le> limit"
      "length acc + length new < limit \<longrightarrow>
        (\<forall>x \<in> set slots. skip_slot env av (fst (request_slots p clock limit env av slots s acc)) x)"
      using Cons.IH by blast
    show ?thesis
      using new 1 by (intro exI [of _ new]) (auto simp: request_slots_Cons assigned_slots_def skip_fold)
  next
    case 2
    then show ?thesis
      by (intro exI [of _ "[slot]"]) (auto simp: request_slots_Cons assigned_slots_def)
  next
    case 3
    obtain new where new: "assigned_slots p clock env av slots ?s (fst (request_slots p clock limit env av slots ?s ?acc)) new"
      "snd (request_slots p clock limit env av slots ?s ?acc) = ?acc @ map (slot_request env) new"
      "length ?acc < limit \<longrightarrow> length ?acc + length new \<le> limit"
      "length ?acc + length new < limit \<longrightarrow>
        (\<forall>x \<in> set slots. skip_slot env av (fst (request_slots p clock limit env av slots ?s ?acc)) x)"
      using Cons.IH by blast
    show ?thesis
      using new 3
      by (intro exI [of _ "slot # new"]) (auto simp: request_slots_Cons assigned_slots_def skip_after_assign skip_fold)
  qed
qed (auto simp: assigned_slots_def)

lemma key_slot: "fst (slot_key env x) * se_bpp env + snd (slot_key env x) = x"
  by (simp add: slot_key_def)

lemma fold_assign_owner:
  "owner (in_flight (fold (\<lambda>x. assign_slot p (clock x) env x) xs s)) k =
    (if k \<in> slot_key env ` set xs
     then Some \<lparr>ifb_peer = p, ifb_requested_at = clock (fst k * se_bpp env + snd k)\<rparr>
     else owner (in_flight s) k)"
  by (induction xs arbitrary: s) (auto simp: owner_assign key_slot)

lemma fold_assign_inv:
  assumes "sched_inv s" and "distinct (map (slot_key env) xs)"
    and "\<forall>x \<in> set xs. owner (in_flight s) (slot_key env x) = None"
  shows "sched_inv (fold (\<lambda>x. assign_slot p (clock x) env x) xs s)"
  using assms
proof (induction xs arbitrary: s)
  case (Cons x xs)
  have "sched_inv (assign_slot p (clock x) env x s)" using Cons.prems by (simp add: sched_inv_assign)
  moreover have "\<forall>y \<in> set xs. slot_key env y \<noteq> slot_key env x"
    using Cons.prems(2) by (auto simp: image_iff)
  ultimately show ?case using Cons by (auto simp: owner_assign)
qed simp

section \<open>Which blocks a peer is asked for\<close>

definition piece_len_of :: "nat \<Rightarrow> nat \<Rightarrow> nat \<Rightarrow> nat \<Rightarrow> nat" where
  "piece_len_of piece_count piece_length total_length i =
     (if i = piece_count - 1
      then (if total_length mod piece_length = 0 then piece_length else total_length mod piece_length)
      else piece_length)"

text \<open>
  The blocks worth asking a peer for: of an incomplete piece that the peer has, not yet received,
  and not already asked from anybody.
\<close>

definition wanted :: "piece_scheduler \<Rightarrow> bool list \<Rightarrow> nat \<Rightarrow> nat \<Rightarrow> block_key \<Rightarrow> bool" where
  "wanted s available piece_length total_length = (\<lambda>(i, b).
     i < length (completed_pieces s) \<and> \<not> completed_pieces s ! i \<and> get_at available i = Some True \<and>
     b < div_ceil (piece_len_of (length (completed_pieces s)) piece_length total_length i) BLOCK_SIZE \<and>
     owner (in_flight s) (i, b) = None \<and> \<not> is_duplicate_block s i b)"

lemma slot_env_simps [simp]:
  "se_bpp (slot_env_of s pl tot) = div_ceil pl BLOCK_SIZE"
  "slot_piece_len (slot_env_of s pl tot) i = piece_len_of (length (completed_pieces s)) pl tot i"
  by (auto simp: slot_env_of_def Let_def slot_piece_len_def piece_len_of_def)

lemma div_ceil_mono: "0 < c \<Longrightarrow> a \<le> b \<Longrightarrow> div_ceil a c \<le> div_ceil b c"
  using less_div_ceil_iff [of c "div_ceil b c" a] div_ceil_bounds(1) [of c b] by (meson leI le_trans not_le)

lemma piece_len_bound: "0 < pl \<Longrightarrow> 0 < piece_len_of n pl tot i \<and> piece_len_of n pl tot i \<le> pl"
  by (auto simp: piece_len_of_def less_imp_le)

lemma se_total_le:
  "se_total (slot_env_of s pl tot) \<le> (length (completed_pieces s) - 1) * div_ceil pl BLOCK_SIZE
     + div_ceil (piece_len_of (length (completed_pieces s)) pl tot (length (completed_pieces s) - 1)) BLOCK_SIZE"
  by (auto simp: slot_env_of_def Let_def saturating_add_def saturating_mul_def piece_len_of_def min_def)

lemma slot_piece_in_range:
  assumes "0 < length (completed_pieces s)" and "0 < pl" and "slot < se_total (slot_env_of s pl tot)"
  shows "slot div div_ceil pl BLOCK_SIZE < length (completed_pieces s)"
proof -
  let ?n = "length (completed_pieces s)" and ?bpp = "div_ceil pl BLOCK_SIZE"
  have "div_ceil (piece_len_of ?n pl tot (?n - 1)) BLOCK_SIZE \<le> ?bpp"
    using piece_len_bound [OF assms(2)] by (intro div_ceil_mono) simp_all
  with se_total_le [of s pl tot] assms(3) have "slot < (?n - 1) * ?bpp + ?bpp" by linarith
  also have "\<dots> = ?n * ?bpp" using assms(1) by (cases ?n) simp_all
  finally show ?thesis by (simp add: less_mult_imp_div_less)
qed

lemma first_le_total:
  assumes "next_piece s < length (completed_pieces s)"
  shows "se_first (slot_env_of s pl tot) \<le> se_total (slot_env_of s pl tot)"
proof -
  have "next_piece s * div_ceil pl BLOCK_SIZE \<le> (length (completed_pieces s) - 1) * div_ceil pl BLOCK_SIZE"
    using assms by (intro mult_le_mono1) linarith
  then have "min (next_piece s * div_ceil pl BLOCK_SIZE) m
      \<le> min (min ((length (completed_pieces s) - 1) * div_ceil pl BLOCK_SIZE) m + d) m" for m d
    by linarith
  then show ?thesis
    unfolding slot_env_of_def Let_def saturating_add_def saturating_mul_def slot_env.simps .
qed

lemma set_slot_order:
  assumes "next_piece s \<le> length (completed_pieces s)"
  shows "set (slot_order s (slot_env_of s pl tot) p) =
    {se_first (slot_env_of s pl tot)..<se_total (slot_env_of s pl tot)}"
  using assms first_le_total [of s pl tot]
  by (auto simp: slot_order_def request_cursor_def Let_def)

lemma slot_in_order:
  assumes inv: "sched_inv s" and pl: "0 < pl" and w: "wanted s av pl tot (i, b)"
    and small: "length (completed_pieces s) * div_ceil pl BLOCK_SIZE \<le> usize_max"
  shows "i * div_ceil pl BLOCK_SIZE + b \<in> set (slot_order s (slot_env_of s pl tot) p)"
    and "slot_key (slot_env_of s pl tot) (i * div_ceil pl BLOCK_SIZE + b) = (i, b)"
proof -
  let ?n = "length (completed_pieces s)" and ?bpp = "div_ceil pl BLOCK_SIZE"
  have w': "i < ?n" "\<not> completed_pieces s ! i" "b < div_ceil (piece_len_of ?n pl tot i) BLOCK_SIZE"
    using w by (auto simp: wanted_def)
  have b: "b < ?bpp"
    using w'(3) div_ceil_mono [of BLOCK_SIZE "piece_len_of ?n pl tot i" pl] piece_len_bound [OF pl, of ?n tot i]
    by simp
  then show "slot_key (slot_env_of s pl tot) (i * ?bpp + b) = (i, b)" by (simp add: slot_key_def)
  have nxt: "next_piece s \<le> i" "next_piece s \<le> ?n"
    using inv w'(1,2) by (auto simp: sched_inv_def next_ok_def not_less)
  have first: "se_first (slot_env_of s pl tot) \<le> i * ?bpp"
    using min.coboundedI1 [OF mult_le_mono1 [OF nxt(1), of ?bpp], of usize_max]
    by (simp only: slot_env_of_def Let_def saturating_mul_def slot_env.simps)
  have last_blocks: "div_ceil (piece_len_of ?n pl tot (?n - 1)) BLOCK_SIZE \<le> ?bpp"
    using piece_len_bound [OF pl] by (intro div_ceil_mono) simp_all
  have whole: "(?n - 1) * ?bpp + ?bpp = ?n * ?bpp" using w'(1) by (cases ?n) simp_all
  have total: "se_total (slot_env_of s pl tot) = (?n - 1) * ?bpp + div_ceil (piece_len_of ?n pl tot (?n - 1)) BLOCK_SIZE"
    using small whole last_blocks
    by (auto simp: slot_env_of_def Let_def saturating_add_def saturating_mul_def piece_len_of_def)
  have "i * ?bpp + b < se_total (slot_env_of s pl tot)"
  proof (cases "i = ?n - 1")
    case True
    with w'(3) total show ?thesis by simp
  next
    case False
    with w'(1) have "i + 1 \<le> ?n - 1" by linarith
    then have "(i + 1) * ?bpp \<le> (?n - 1) * ?bpp" by (rule mult_le_mono1)
    with b total show ?thesis by simp
  qed
  with first set_slot_order [OF nxt(2), of pl tot p] show "i * ?bpp + b \<in> set (slot_order s (slot_env_of s pl tot) p)"
    by simp
qed

lemma wanted_iff_skip:
  assumes "0 < length (completed_pieces s)" "0 < pl" "slot < se_total (slot_env_of s pl tot)"
  shows "wanted s av pl tot (slot_key (slot_env_of s pl tot) slot) \<longleftrightarrow> \<not> skip_slot (slot_env_of s pl tot) av s slot"
  using slot_piece_in_range [OF assms] by (auto simp: wanted_def skip_slot_iff slot_key_def)

lemma requests_for_peer_cases:
  assumes inv: "sched_inv s" and "0 < pl"
  obtains "requests_for_peer p clock limit pl tot s = (s, [])"
      "limit = 0 \<or> completed_pieces s = [] \<or> peer_availability s p = None"
  | av new where "peer_availability s p = Some av"
      "set new \<subseteq> set (slot_order s (slot_env_of s pl tot) p)"
      "distinct (map (slot_key (slot_env_of s pl tot)) new)"
      "\<forall>x \<in> set new. wanted s av pl tot (slot_key (slot_env_of s pl tot) x)"
      "fst (requests_for_peer p clock limit pl tot s)
        = fold (\<lambda>x. assign_slot p (clock x) (slot_env_of s pl tot) x) new s"
      "snd (requests_for_peer p clock limit pl tot s) = map (slot_request (slot_env_of s pl tot)) new"
      "length new \<le> limit"
      "length new < limit \<Longrightarrow> \<forall>x \<in> set (slot_order s (slot_env_of s pl tot) p).
         skip_slot (slot_env_of s pl tot) av (fst (requests_for_peer p clock limit pl tot s)) x"
proof (cases "limit = 0 \<or> completed_pieces s = [] \<or> peer_availability s p = None")
  case True
  then have "requests_for_peer p clock limit pl tot s = (s, [])"
    by (auto simp: requests_for_peer_def)
  with True show ?thesis using that(1) by blast
next
  case False
  then obtain av where av: "peer_availability s p = Some av" by auto
  let ?env = "slot_env_of s pl tot"
  let ?slots = "slot_order s ?env p"
  have "div_ceil pl BLOCK_SIZE \<noteq> 0" using less_div_ceil_iff [of BLOCK_SIZE 0 pl] assms(2) by simp
  then have eq: "requests_for_peer p clock limit pl tot s = request_slots p clock limit ?env av ?slots s []"
    using False av by (simp add: requests_for_peer_def Let_def)
  obtain new where new: "assigned_slots p clock ?env av ?slots s (fst (requests_for_peer p clock limit pl tot s)) new"
    "snd (requests_for_peer p clock limit pl tot s) = map (slot_request ?env) new"
    "length new \<le> limit"
    "length new < limit \<longrightarrow> (\<forall>x \<in> set ?slots. skip_slot ?env av (fst (requests_for_peer p clock limit pl tot s)) x)"
    using request_slots_assigned [of p clock ?env av ?slots s limit "[]"] False unfolding eq by auto
  have "\<forall>x \<in> set ?slots. x < se_total ?env"
    using inv set_slot_order [of s pl tot p] by (simp add: sched_inv_def next_ok_def)
  then have "\<forall>x \<in> set new. wanted s av pl tot (slot_key ?env x)"
    using new(1) False wanted_iff_skip [of s pl _ tot av] assms(2) by (auto simp: assigned_slots_def)
  with that(2) [OF av _ _ _ _ new(2,3)] new(1,4) show ?thesis by (simp add: assigned_slots_def)
qed

lemma slot_request_shape:
  assumes "0 < pl" and "wanted s av pl tot (slot_key (slot_env_of s pl tot) x)"
  defines "r \<equiv> slot_request (slot_env_of s pl tot) x"
    and "len \<equiv> piece_len_of (length (completed_pieces s)) pl tot (x div div_ceil pl BLOCK_SIZE)"
  shows "0 < br_length r" "br_length r \<le> BLOCK_SIZE" "br_offset r + br_length r \<le> len"
    "br_length r = BLOCK_SIZE \<or> br_offset r + br_length r = len"
proof -
  have b: "x mod div_ceil pl BLOCK_SIZE < div_ceil len BLOCK_SIZE"
    using assms(2) by (simp add: wanted_def slot_key_def len_def)
  then have "x mod div_ceil pl BLOCK_SIZE * BLOCK_SIZE < len" by (simp add: less_div_ceil_iff)
  then show "0 < br_length r" "br_length r \<le> BLOCK_SIZE" "br_offset r + br_length r \<le> len"
    "br_length r = BLOCK_SIZE \<or> br_offset r + br_length r = len"
    by (auto simp: r_def slot_request_def mk_block_request_def Let_def br_offset_def len_def)
qed

lemma requests_zero_length: "requests_for_peer p clock limit 0 tot s = (s, [])"
  by (auto simp: requests_for_peer_def split: option.splits)

lemma sched_inv_requests [inv_intros]:
  assumes "sched_inv s"
  shows "sched_inv (fst (requests_for_peer p clock limit pl tot s))"
proof (cases "pl = 0")
  case True
  then show ?thesis using assms by (simp add: requests_zero_length)
next
  case False
  then have pl: "0 < pl" by simp
  show ?thesis
  proof (cases rule: requests_for_peer_cases [OF assms pl, of p clock limit tot])
    case (2 av new)
    then have "\<forall>x \<in> set new. owner (in_flight s) (slot_key (slot_env_of s pl tot) x) = None"
      by (auto simp: wanted_def split_beta)
    with 2 assms(1) show ?thesis by (simp add: fold_assign_inv)
  qed (simp add: assms)
qed

section \<open>The assignment interface\<close>

text \<open>
  What the torrent actor relies on: a partial map from blocks to the request that holds them, the
  number of requests of a peer, and how completing a block, losing a peer and expiring old
  requests act on the map.
\<close>

locale block_assignment =
  fixes own :: "'s \<Rightarrow> block_key \<rightharpoonup> in_flight_block"
    and load :: "'s \<Rightarrow> peer_id \<Rightarrow> nat"
    and complete :: "nat \<Rightarrow> nat \<Rightarrow> nat \<Rightarrow> 's \<Rightarrow> 's \<times> peer_id option"
    and drop_peer :: "peer_id \<Rightarrow> 's \<Rightarrow> 's"
    and expire :: "instant \<Rightarrow> duration \<Rightarrow> 's \<Rightarrow> 's \<times> nat"
    and invar :: "'s \<Rightarrow> bool"
  assumes load_held: "invar s \<Longrightarrow> load s p = card (held_by (own s) p)"
    and own_finite: "invar s \<Longrightarrow> finite (dom (own s))"
    and complete_invar: "invar s \<Longrightarrow> invar (fst (complete i b n s))"
    and complete_own: "invar s \<Longrightarrow> own (fst (complete i b n s)) = (own s)((i, b) := None)"
    and complete_peer: "invar s \<Longrightarrow> snd (complete i b n s) = map_option ifb_peer (own s (i, b))"
    and drop_invar: "invar s \<Longrightarrow> invar (drop_peer p s)"
    and drop_own: "invar s \<Longrightarrow> own (drop_peer p s) k =
      (case own s k of None \<Rightarrow> None | Some r \<Rightarrow> if ifb_peer r = p then None else Some r)"
    and expire_invar: "invar s \<Longrightarrow> invar (fst (expire now t s))"
    and expire_own: "invar s \<Longrightarrow> own (fst (expire now t s)) k =
      (case own s k of None \<Rightarrow> None | Some r \<Rightarrow> if t \<le> now - ifb_requested_at r then None else Some r)"
    and expire_count: "invar s \<Longrightarrow> snd (expire now t s)
      = card {k. \<exists>r. own s k = Some r \<and> t \<le> now - ifb_requested_at r}"
begin

lemma held_finite: "invar s \<Longrightarrow> finite (held_by (own s) p)"
  by (rule finite_subset [OF _ own_finite]) (auto simp: held_by_def)

lemma drop_peer_load: "invar s \<Longrightarrow> load (drop_peer p s) q = (if q = p then 0 else load s q)"
proof -
  assume inv: "invar s"
  have "held_by (own (drop_peer p s)) q = (if q = p then {} else held_by (own s) q)"
    by (auto simp: held_by_def drop_own [OF inv] split: option.splits if_splits)
  then show ?thesis by (simp add: load_held inv drop_invar)
qed

lemma complete_load:
  assumes inv: "invar s"
  shows "load (fst (complete i b n s)) q =
    (if snd (complete i b n s) = Some q then load s q - 1 else load s q)"
proof (cases "own s (i, b)")
  case None
  then have "(own s)((i, b) := None) = own s" by auto
  then show ?thesis using None by (simp add: load_held complete_own complete_peer complete_invar inv)
next
  case (Some r)
  have "(i, b) \<in> held_by (own s) (ifb_peer r)" using Some by (auto simp: held_by_def)
  then show ?thesis
    using Some held_by_del [of "own s" "(i, b)" r, OF Some] held_finite [OF inv]
    by (auto simp: load_held complete_own complete_peer complete_invar inv)
qed

lemma expire_load_le: "invar s \<Longrightarrow> load (fst (expire now t s)) q \<le> load s q"
proof -
  assume inv: "invar s"
  have "held_by (own (fst (expire now t s))) q \<subseteq> held_by (own s) q"
    by (auto simp: held_by_def expire_own [OF inv] split: option.splits if_splits)
  then show ?thesis by (simp add: load_held inv expire_invar card_mono held_finite)
qed

end

interpretation sched: block_assignment
  "\<lambda>s. owner (in_flight s)" in_flight_for_peer mark_block_complete peer_disconnected
  release_stale_requests sched_inv
proof unfold_locales
  show "in_flight_for_peer s p = card (held_by (owner (in_flight s)) p)" if "sched_inv s" for s p
    using that by (simp add: sched_inv_def counters_ok_def)
  show "finite (dom (owner (in_flight s)))" for s by (rule finite_owner)
  show "owner (in_flight (fst (mark_block_complete i b n s))) = (owner (in_flight s))((i, b) := None)" for i b n s
    by (simp add: mark_block_complete_def Let_def split_beta owner_remove split: option.splits)
  show "snd (mark_block_complete i b n s) = map_option ifb_peer (owner (in_flight s) (i, b))" for i b n s
    by (simp add: mark_block_complete_def Let_def split_beta snd_remove_in_flight split: option.splits)
  show "owner (in_flight (peer_disconnected p s)) k =
      (case owner (in_flight s) k of None \<Rightarrow> None | Some r \<Rightarrow> if ifb_peer r = p then None else Some r)"
    if "sched_inv s" for p s k
    using that by (simp add: peer_disconnected_def owner_clear sched_inv_def)
  show "owner (in_flight (fst (release_stale_requests now t s))) k =
      (case owner (in_flight s) k of None \<Rightarrow> None | Some r \<Rightarrow> if t \<le> now - ifb_requested_at r then None else Some r)"
    if "sched_inv s" for now t s k
    using that by (simp add: release_stale_requests_def Let_def owner_clear sched_inv_def)
  show "snd (release_stale_requests now t s)
      = card {k. \<exists>r. owner (in_flight s) k = Some r \<and> t \<le> now - ifb_requested_at r}" if "sched_inv s" for now t s
    using that card_owner [of "in_flight s" "\<lambda>r. t \<le> now - ifb_requested_at r"]
    by (simp add: release_stale_requests_def Let_def sched_inv_def table_ok_def)
qed (auto intro: inv_intros)

section \<open>Results\<close>

inductive sched_reachable :: "piece_scheduler \<Rightarrow> bool" where
  start: "sched_reachable (sched_new n)"
| request: "sched_reachable s \<Longrightarrow> sched_reachable (fst (requests_for_peer p clock limit pl tot s))"
| block: "sched_reachable s \<Longrightarrow> sched_reachable (fst (mark_block_complete i b n s))"
| piece: "sched_reachable s \<Longrightarrow> sched_reachable (mark_piece_complete i s)"
| restore: "sched_reachable s \<Longrightarrow> sched_reachable (restore_piece_blocks i bs s)"
| reset: "sched_reachable s \<Longrightarrow> sched_reachable (fst (remove_piece_blocks i s))"
| have_pieces: "sched_reachable s \<Longrightarrow> sched_reachable (update_peer_availability p av s)"
| disconnect: "sched_reachable s \<Longrightarrow> sched_reachable (peer_disconnected p s)"
| stale: "sched_reachable s \<Longrightarrow> sched_reachable (fst (release_stale_requests now t s))"
| release: "sched_reachable s \<Longrightarrow> sched_reachable (release_peer_request p i off s)"

lemma sched_reachable_inv: "sched_reachable s \<Longrightarrow> sched_inv s"
  by (induction rule: sched_reachable.induct) (auto intro: inv_intros)

text \<open>
  C5: in every state the scheduler can reach by its operations, the request counter of a peer is
  the number of blocks that peer holds, and \<^verbatim>\<open>next_piece\<close> is the first incomplete piece.
\<close>

theorem sched_reachable_safe:
  assumes "sched_reachable s"
  shows "(\<forall>p. in_flight_for_peer s p = card {(i, b). \<exists>r. in_flight_at (in_flight s) i b = Some r \<and> ifb_peer r = p})
    \<and> next_piece s \<le> length (completed_pieces s)
    \<and> (\<forall>i < next_piece s. completed_pieces s ! i)
    \<and> (next_piece s < length (completed_pieces s) \<longrightarrow> \<not> completed_pieces s ! next_piece s)"
proof -
  have "held_by (owner (in_flight s)) p = {(i, b). \<exists>r. in_flight_at (in_flight s) i b = Some r \<and> ifb_peer r = p}" for p
    by (auto simp: held_by_def owner_def)
  then show ?thesis
    using sched_reachable_inv [OF assms] by (simp add: sched_inv_def counters_ok_def next_ok_def)
qed

definition example_sched :: piece_scheduler where
  "example_sched = update_peer_availability [1] [True, True] (sched_new 2)"

theorem sched_reachable_safe_witness:
  "next_piece (mark_piece_complete 0 example_sched) = 1 \<and>
   \<not> completed_pieces (mark_piece_complete 0 example_sched) ! 1"
proof -
  have "sched_reachable (mark_piece_complete 0 example_sched)"
    unfolding example_sched_def by (intro sched_reachable.intros)
  from sched_reachable_safe [OF this]
  have "next_piece (mark_piece_complete 0 example_sched) < length (completed_pieces (mark_piece_complete 0 example_sched))
    \<longrightarrow> \<not> completed_pieces (mark_piece_complete 0 example_sched) ! next_piece (mark_piece_complete 0 example_sched)"
    by simp
  moreover have "next_piece (mark_piece_complete 0 example_sched) = 1" by code_simp
  moreover have "length (completed_pieces (mark_piece_complete 0 example_sched)) = 2" by code_simp
  ultimately show ?thesis by simp
qed

lemma requests_sound:
  assumes "sched_inv s" and "0 < pl" and "requests_for_peer p clock limit pl tot s = (s', rs)"
  shows "length rs \<le> limit \<and> distinct (map br_key rs) \<and>
    (\<forall>r \<in> set rs. \<exists>av. peer_availability s p = Some av \<and> wanted s av pl tot (br_key r) \<and>
       0 < br_length r \<and> br_length r \<le> BLOCK_SIZE \<and>
       (let len = piece_len_of (length (completed_pieces s)) pl tot (br_piece r)
        in br_offset r + br_length r \<le> len \<and> (br_length r = BLOCK_SIZE \<or> br_offset r + br_length r = len)) \<and>
       (\<exists>q. owner (in_flight s') (br_key r) = Some q \<and> ifb_peer q = p)) \<and>
    (\<forall>k. k \<notin> br_key ` set rs \<longrightarrow> owner (in_flight s') k = owner (in_flight s) k)"
proof (cases rule: requests_for_peer_cases [OF assms(1,2), of p clock limit tot])
  case (2 av new)
  let ?env = "slot_env_of s pl tot"
  have rs: "rs = map (slot_request ?env) new" "s' = fold (\<lambda>x. assign_slot p (clock x) ?env x) new s"
    using 2(5,6) assms(3) by simp_all
  have keys: "map br_key rs = map (slot_key ?env) new" by (simp add: rs(1) comp_def)
  have piece: "br_piece (slot_request ?env x) = x div div_ceil pl BLOCK_SIZE" for x
    by (simp add: slot_request_def mk_block_request_def Let_def)
  have len: "length rs \<le> limit" using 2(7) rs(1) by simp
  have dist: "distinct (map br_key rs)" using 2(3) keys by simp
  have img: "br_key ` set rs = slot_key ?env ` set new" unfolding rs(1) by (simp add: image_image)
  have frame: "\<forall>k. k \<notin> br_key ` set rs \<longrightarrow> owner (in_flight s') k = owner (in_flight s) k"
    unfolding img by (simp add: rs(2) fold_assign_owner)
  have each: "wanted s av pl tot (br_key r) \<and> 0 < br_length r \<and> br_length r \<le> BLOCK_SIZE \<and>
       (let len = piece_len_of (length (completed_pieces s)) pl tot (br_piece r)
        in br_offset r + br_length r \<le> len \<and> (br_length r = BLOCK_SIZE \<or> br_offset r + br_length r = len)) \<and>
       (\<exists>q. owner (in_flight s') (br_key r) = Some q \<and> ifb_peer q = p)" if r: "r \<in> set rs" for r
  proof -
    obtain x where x: "x \<in> set new" "r = slot_request ?env x" using r rs(1) by auto
    have w: "wanted s av pl tot (slot_key ?env x)" using 2(4) x(1) by blast
    have "\<exists>q. owner (in_flight s') (br_key r) = Some q \<and> ifb_peer q = p"
      using x by (simp add: rs(2) fold_assign_owner)
    then show ?thesis using w slot_request_shape [OF assms(2) w] by (simp add: x(2) piece Let_def)
  qed
  show ?thesis using len dist frame each 2(1) by blast
qed (use assms in simp)

text \<open>
  C6: the requests for a peer are sound. There are at most \<^verbatim>\<open>limit\<close>, for different blocks; each
  block is wanted (of an incomplete piece the peer has, not yet received, held by nobody), lies
  inside its piece, is a full block or the rest of the piece, and is from now on held by the peer;
  nobody else's requests change.
\<close>

theorem requests_for_peer_sound:
  assumes "sched_inv s" and "0 < pl" and "requests_for_peer p clock limit pl tot s = (s', rs)"
  shows "length rs \<le> limit \<and> distinct (map br_key rs) \<and>
    (\<forall>r \<in> set rs. \<exists>av. peer_availability s p = Some av \<and> wanted s av pl tot (br_key r) \<and>
       0 < br_length r \<and> br_length r \<le> BLOCK_SIZE \<and>
       (let len = piece_len_of (length (completed_pieces s)) pl tot (br_piece r)
        in br_offset r + br_length r \<le> len \<and> (br_length r = BLOCK_SIZE \<or> br_offset r + br_length r = len)) \<and>
       (\<exists>q. owner (in_flight s') (br_key r) = Some q \<and> ifb_peer q = p)) \<and>
    (\<forall>k. k \<notin> br_key ` set rs \<longrightarrow> owner (in_flight s') k = owner (in_flight s) k)"
  using assms by (rule requests_sound)

lemma example_sched_inv: "sched_inv example_sched"
  unfolding example_sched_def by (intro inv_intros)

theorem requests_for_peer_sound_witness:
  "length (snd (requests_for_peer [1] (\<lambda>_. 0) 2 16384 20000 example_sched)) \<le> 2 \<and>
   distinct (map br_key (snd (requests_for_peer [1] (\<lambda>_. 0) 2 16384 20000 example_sched)))"
  using requests_for_peer_sound [OF example_sched_inv, of 16384 "[1]" "\<lambda>_. 0" 2 20000, OF _ surjective_pairing]
  by auto

text \<open>
  C7: the scheduler does not leave a peer idle. If it returns fewer requests than the limit, then
  no block is left that is wanted from this peer: every block it could serve is complete or in
  flight. (Slots are numbered in \<^verbatim>\<open>usize\<close>; the bound excludes saturation.)
\<close>

theorem requests_for_peer_exhaustive:
  assumes "sched_inv s" and "0 < pl" and "requests_for_peer p clock limit pl tot s = (s', rs)"
    and "length rs < limit" and "peer_availability s p = Some av"
    and "length (completed_pieces s) * div_ceil pl BLOCK_SIZE \<le> usize_max"
  shows "\<not> wanted s' av pl tot k"
proof (cases rule: requests_for_peer_cases [OF assms(1,2), of p clock limit tot])
  case 1
  then show ?thesis using assms by (auto simp: wanted_def)
next
  case (2 av' new)
  let ?env = "slot_env_of s pl tot"
  have s': "s' = fold (\<lambda>x. assign_slot p (clock x) ?env x) new s" "av' = av" "length new < limit"
    using 2 assms(3-5) by auto
  show ?thesis
  proof
    assume w': "wanted s' av pl tot k"
    obtain i b where k: "k = (i, b)" by (cases k)
    have w: "wanted s av pl tot (i, b)" and notnew: "k \<notin> slot_key ?env ` set new"
      using w' unfolding k s'(1) by (auto simp: wanted_def fold_assign_owner split: if_splits)
    let ?x = "i * div_ceil pl BLOCK_SIZE + b"
    have x: "?x \<in> set (slot_order s ?env p)" "slot_key ?env ?x = k"
      using slot_in_order [OF assms(1,2) w assms(6)] by (simp_all add: k)
    have "skip_slot ?env av (fold (\<lambda>x. assign_slot p (clock x) ?env x) new s) ?x"
      using 2(8) [OF s'(3)] x(1) s'(2) unfolding 2(5) by blast
    then have "skip_slot ?env av s ?x" using skip_fold x(2) notnew by metis
    moreover have "\<not> skip_slot ?env av s ?x"
      using w unfolding skip_slot_iff x(2) k by (auto simp: wanted_def)
    ultimately show False by blast
  qed
qed

lemmas scheduler_defs = requests_for_peer_def slot_env_of_def slot_order_def request_cursor_def
  request_slots_Cons skip_slot_def slot_request_def mk_block_request_def slot_piece_len_def assign_slot_def
  is_in_flight_def in_flight_at_def is_duplicate_block_def get_at_def div_ceil_def saturating_mul_def
  saturating_add_def usize_max_def BLOCK_SIZE_def pad_to_def

lemma example_requests:
  "requests_for_peer [1] (\<lambda>_. 0) 5 16384 20000 example_sched =
     (example_sched\<lparr>in_flight := [(0, [Some \<lparr>ifb_peer = [1], ifb_requested_at = 0\<rparr>]),
                             (1, [Some \<lparr>ifb_peer = [1], ifb_requested_at = 0\<rparr>])],
        in_flight_per_peer := [[1] \<mapsto> Suc (Suc 0)], request_cursors := [[1] \<mapsto> 0]\<rparr>,
      [\<lparr>br_piece = 0, br_block = 0, br_length = 16384\<rparr>, \<lparr>br_piece = 1, br_block = 0, br_length = 3616\<rparr>])"
  by (simp add: scheduler_defs example_sched_def update_peer_availability_def sched_new_def Let_def
      upt_rec [of 0] upt_rec [of "Suc 0"])

theorem requests_for_peer_exhaustive_witness:
  "\<not> wanted (fst (requests_for_peer [1] (\<lambda>_. 0) 5 16384 20000 example_sched)) [True, True] 16384 20000 (1, 0)"
  by (rule requests_for_peer_exhaustive [OF example_sched_inv _ surjective_pairing])
    (simp_all add: example_requests, simp_all add: example_sched_def update_peer_availability_def sched_new_def
      BLOCK_SIZE_def div_ceil_def usize_max_def)


definition example_busy :: piece_scheduler where
  "example_busy = fst (requests_for_peer [1] (\<lambda>_. 0) 5 16384 20000 example_sched)"


end
