(* ===== verification/Metainfo.thy ===== *)
theory Metainfo
  imports Codec
begin

text \<open>
  Torrent metadata: \<^verbatim>\<open>metainfo/file.rs\<close>, \<^verbatim>\<open>metainfo/mod.rs\<close>, the part of \<^verbatim>\<open>metainfo/magnet.rs\<close> that is not
  query-string parsing, and the hash vector of \<^verbatim>\<open>hashes.rs\<close> for the length 20 the program uses. A
  \<^verbatim>\<open>u64\<close> length is a natural number; on the 64-bit targets modelled here its conversion to \<^verbatim>\<open>usize\<close>
  never fails. Trackers are only compared and copied, so their type is a parameter; so are the
  bencode serialisation, SHA-1 and the hex decoder, which are crates.
\<close>

section \<open>Hash vectors\<close>

definition HASH_LEN :: nat where "HASH_LEN = 20"

definition hash_ok :: "hash \<Rightarrow> bool" where
  "hash_ok h = (length h = HASH_LEN)"

definition hash_try_from :: "byte list \<Rightarrow> string + hash" where
  "hash_try_from v = (if length v \<noteq> HASH_LEN then Inl ''Expected length is 20'' else Inr v)"

definition hashvec_flatten :: "hash list \<Rightarrow> byte list" where
  "hashvec_flatten hs = foldl (\<lambda>result h. result @ h) [] hs"

text \<open>The visitor that splits the \<^verbatim>\<open>pieces\<close> string.\<close>

definition hashvec_visit_bytes :: "byte list \<Rightarrow> string + hash list" where
  "hashvec_visit_bytes v =
     (if length v mod HASH_LEN \<noteq> 0 then Inl ''Expected length to be a multiple of 20''
      else Inr (chunks HASH_LEN v))"

lemma foldl_append: "foldl (\<lambda>result h. result @ h) acc hs = acc @ concat hs"
  by (induction hs arbitrary: acc) auto

interpretation hash_codec: fixed_codec "\<lambda>h. h" hash_try_from hash_ok HASH_LEN
  by unfold_locales (auto simp: hash_try_from_def hash_ok_def HASH_LEN_def split: if_splits)

lemma hashvec_roundtrip: "list_all hash_ok hs \<Longrightarrow> hashvec_visit_bytes (hashvec_flatten hs) = Inr hs"
  using hash_codec.chunks_enc [of hs] hash_codec.length_seq [of hs]
  by (simp add: hashvec_visit_bytes_def hashvec_flatten_def foldl_append)

lemma hashvec_visit_exact: "hashvec_visit_bytes v = Inr hs \<Longrightarrow> hashvec_flatten hs = v \<and> list_all hash_ok hs"
  using concat_chunks [of HASH_LEN v] length_in_chunks [of _ HASH_LEN v]
  by (auto simp: hashvec_visit_bytes_def hashvec_flatten_def foldl_append list_all_iff hash_ok_def
      dvd_eq_mod_eq_0 split: if_splits)

section \<open>Info dictionary\<close>

record info_file =
  if_length :: nat
  if_path :: "string list"

datatype info_keys = Single nat | Multi "info_file list"

record torrent_info =
  info_name :: string
  info_piece_length :: nat
  info_pieces :: "hash list"
  info_file_keys :: info_keys
  info_is_private :: "bool option"

text \<open>\<^verbatim>\<open>PartialEq for Info\<close>.\<close>

definition info_eq :: "torrent_info \<Rightarrow> torrent_info \<Rightarrow> bool" where
  "info_eq a b = (info_name a = info_name b \<and> info_pieces a = info_pieces b)"

definition piece_count :: "torrent_info \<Rightarrow> nat" where
  "piece_count info = length (info_pieces info)"

definition total_length :: "torrent_info \<Rightarrow> nat" where
  "total_length info =
     (case info_file_keys info of
        Single len \<Rightarrow> len
      | Multi files \<Rightarrow> foldl saturating_add 0 (map if_length files))"

definition info_hash_of :: "(torrent_info \<Rightarrow> string + byte list) \<Rightarrow> (byte list \<Rightarrow> hash) \<Rightarrow> torrent_info \<Rightarrow> string + hash" where
  "info_hash_of ser sha1 info = (case ser info of Inl e \<Rightarrow> Inl e | Inr b \<Rightarrow> Inr (sha1 b))"

lemma foldl_saturating_add:
  "foldl saturating_add a xs = (if xs = [] then a else min (a + sum_list xs) usize_max)"
proof (induction xs arbitrary: a)
  case (Cons x xs)
  then show ?case by (auto simp: saturating_add_def)
qed simp

lemma total_length_eq_sum:
  "info_file_keys info = Multi files \<Longrightarrow> sum_list (map if_length files) \<le> usize_max
     \<Longrightarrow> total_length info = sum_list (map if_length files)"
  by (simp add: total_length_def foldl_saturating_add)

section \<open>Torrent files and magnet links\<close>

record 'tracker torrent_file =
  tf_announce :: "'tracker option"
  tf_announce_list :: "'tracker list list option"
  tf_info :: torrent_info

record 'tracker magnet_uri =
  mu_info_hash :: string
  mu_name :: string
  mu_announce_list :: "'tracker list option"

datatype 'tracker meta_info = MTorrent "'tracker torrent_file" | MMagnet "'tracker magnet_uri"

definition push_new :: "'a list \<Rightarrow> 'a \<Rightarrow> 'a list" where
  "push_new xs x = (if x \<in> set xs then xs else xs @ [x])"

definition tf_announces :: "'tracker torrent_file \<Rightarrow> 'tracker list" where
  "tf_announces f =
     (let announces = (case tf_announce f of None \<Rightarrow> [] | Some t \<Rightarrow> [t])
      in case tf_announce_list f of
           None \<Rightarrow> announces
         | Some tiers \<Rightarrow> foldl push_new announces (concat tiers))"

definition mu_announces :: "'tracker magnet_uri \<Rightarrow> 'tracker list" where
  "mu_announces m = (case mu_announce_list m of None \<Rightarrow> [] | Some l \<Rightarrow> l)"

text \<open>\<^verbatim>\<open>split(":").last()\<close>, which is never \<^verbatim>\<open>None\<close>.\<close>

fun split_last :: "char \<Rightarrow> string \<Rightarrow> string \<Rightarrow> string" where
  "split_last c acc [] = acc"
| "split_last c acc (x # xs) = (if x = c then split_last c [] xs else split_last c (acc @ [x]) xs)"

definition mu_info_hash_of :: "(string \<Rightarrow> string + hash) \<Rightarrow> 'tracker magnet_uri \<Rightarrow> string + hash" where
  "mu_info_hash_of from_hex m =
     (case from_hex (split_last (CHR '':'') [] (mu_info_hash m)) of
        Inl e \<Rightarrow> Inl (''Failed to parse info_hash from hex: '' @ e) | Inr h \<Rightarrow> Inr h)"

definition meta_announces :: "'tracker meta_info \<Rightarrow> 'tracker list" where
  "meta_announces m = (case m of MTorrent f \<Rightarrow> tf_announces f | MMagnet u \<Rightarrow> mu_announces u)"

definition clear_announce_list :: "'tracker meta_info \<Rightarrow> 'tracker meta_info" where
  "clear_announce_list m =
     (case m of MTorrent f \<Rightarrow> MTorrent (f\<lparr>tf_announce := None, tf_announce_list := None\<rparr>)
      | MMagnet u \<Rightarrow> MMagnet (u\<lparr>mu_announce_list := None\<rparr>))"

definition meta_is_private :: "'tracker meta_info \<Rightarrow> bool" where
  "meta_is_private m =
     (case m of MTorrent f \<Rightarrow> (case info_is_private (tf_info f) of None \<Rightarrow> False | Some b \<Rightarrow> b)
      | MMagnet _ \<Rightarrow> False)"

lemma foldl_push_new:
  "set (foldl push_new acc xs) = set acc \<union> set xs" "distinct (foldl push_new acc xs) = distinct acc"
  by (induction xs arbitrary: acc) (auto simp: push_new_def)

lemma foldl_push_new_prefix: "\<exists>ys. foldl push_new acc xs = acc @ ys"
  by (induction xs arbitrary: acc) (auto simp: push_new_def, metis append.assoc)

text \<open>
  The announce list of a torrent file has every tracker of the file exactly once, the primary
  announce first, and clearing it leaves no tracker and does not change the privacy flag.
\<close>

theorem announce_list_complete:
  "distinct (tf_announces f) \<and>
   set (tf_announces f) = set_option (tf_announce f) \<union> (case tf_announce_list f of None \<Rightarrow> {} | Some ls \<Rightarrow> \<Union> (set ` set ls)) \<and>
   (case tf_announce f of None \<Rightarrow> True | Some t \<Rightarrow> hd (tf_announces f) = t) \<and>
   meta_announces (clear_announce_list m) = [] \<and> meta_is_private (clear_announce_list m) = meta_is_private m"
proof -
  have "hd (foldl push_new [t] xs) = t" for t :: 'a and xs
    using foldl_push_new_prefix [of "[t]" xs] by auto
  then show ?thesis
    by (auto simp: tf_announces_def foldl_push_new Let_def meta_announces_def clear_announce_list_def
        mu_announces_def meta_is_private_def split: option.splits meta_info.splits)
qed

end
