(* ===== verification/Piece_Manager.thy ===== *)
theory Piece_Manager
  imports Metainfo
begin

text \<open>
  From pieces to files, \<^verbatim>\<open>pieces/piece_manager.rs\<close>. A relative path is the list of its segments; the
  file system is a map from paths below the output directory to file contents, where opening for
  writing creates a missing file and its directories and seeking past the end fills with zeros.
  Failures of the operating system other than a missing or short file are not modelled. Rust's
  \<^verbatim>\<open>Path::components\<close> is the one of Unix.
\<close>

datatype pm_error = InfoNotSet | PathNotSet | IndexOverflow | ExceedsFileLengths | RangeExceeds
  | UnsafeOutputPath string | NotFound | UnexpectedEof

type_synonym rel_path = "string list"
type_synonym segment = "rel_path \<times> nat \<times> nat"

section \<open>Path segments\<close>

datatype path_component = RootDir | CurDir | ParentDir | Normal string

fun split_on :: "char \<Rightarrow> string \<Rightarrow> string \<Rightarrow> string list" where
  "split_on c acc [] = [acc]"
| "split_on c acc (x # xs) = (if x = c then acc # split_on c [] xs else split_on c (acc @ [x]) xs)"

text \<open>\<^verbatim>\<open>Path::components\<close>: empty parts vanish, a dot counts only at the start of a relative path.\<close>

fun part_components :: "bool \<Rightarrow> string list \<Rightarrow> path_component list" where
  "part_components first [] = []"
| "part_components first (p # ps) =
     (if p = [] then part_components False ps
      else if p = ''.'' then (if first then CurDir # part_components False ps else part_components False ps)
      else if p = ''..'' then ParentDir # part_components False ps
      else Normal p # part_components False ps)"

definition path_components :: "string \<Rightarrow> path_component list" where
  "path_components s =
     (if s \<noteq> [] \<and> hd s = CHR ''/'' then RootDir # part_components False (split_on (CHR ''/'') [] (tl s))
      else part_components True (split_on (CHR ''/'') [] s))"

definition push_torrent_path_segment :: "rel_path \<Rightarrow> string \<Rightarrow> pm_error + rel_path" where
  "push_torrent_path_segment path seg =
     (let components = path_components seg;
          has_path_separator = list_ex (\<lambda>c. c = CHR ''/'' \<or> c = CHR 0x5C \<or> c = CHR '':'') seg;
          is_safe_segment =
            (case components of
               Normal name # rest \<Rightarrow> name = seg \<and> rest = []
             | _ \<Rightarrow> False) \<and> seg \<noteq> [] \<and> \<not> has_path_separator
      in if is_safe_segment then Inr (path @ [seg]) else Inl (UnsafeOutputPath seg))"

fun push_segments :: "rel_path \<Rightarrow> string list \<Rightarrow> pm_error + rel_path" where
  "push_segments path [] = Inr path"
| "push_segments path (c # cs) =
     (case push_torrent_path_segment path c of Inl e \<Rightarrow> Inl e | Inr path' \<Rightarrow> push_segments path' cs)"

section \<open>Pieces to file segments\<close>

text \<open>The path of one file of a multi-file torrent.\<close>

definition multi_file_path :: "string \<Rightarrow> info_file \<Rightarrow> pm_error + rel_path" where
  "multi_file_path name file =
     (let named = (if if_path file \<noteq> [] \<and> hd (if_path file) = name then Inr []
                   else push_torrent_path_segment [] name)
      in case named of Inl e \<Rightarrow> Inl e | Inr path \<Rightarrow> push_segments path (if_path file))"

text \<open>The loop over the files: \<open>acc\<close> is the start of the file in the torrent.\<close>

primrec multi_segments ::
  "string \<Rightarrow> nat \<Rightarrow> info_file list \<Rightarrow> nat \<Rightarrow> nat \<Rightarrow> segment list \<Rightarrow> pm_error + (segment list \<times> nat)" where
  "multi_segments name piece_start [] acc remaining results = Inr (results, remaining)"
| "multi_segments name piece_start (file # files) acc remaining results =
     (let file_len = if_length file
      in if piece_start \<ge> acc + file_len
         then multi_segments name piece_start files (acc + file_len) remaining results
         else
           let offset_in_file = piece_start - acc;
               available_in_file = file_len - offset_in_file;
               take_len = min remaining available_in_file
           in case multi_file_path name file of
                Inl e \<Rightarrow> Inl e
              | Inr path \<Rightarrow>
                  let results = results @ [(path, offset_in_file, take_len)];
                      remaining = remaining - take_len
                  in if remaining = 0 then Inr (results, remaining)
                     else multi_segments name piece_start files (acc + file_len) remaining results)"

text \<open>The \<^verbatim>\<open>match\<close> on the file layout: the segments and the bytes that found no file.\<close>

definition map_files :: "torrent_info \<Rightarrow> nat \<Rightarrow> nat \<Rightarrow> pm_error + (segment list \<times> nat)" where
  "map_files info piece_start remaining =
     (case info_file_keys info of
        Single file_len \<Rightarrow>
          if piece_start < file_len
          then let take_len = min remaining (file_len - piece_start)
               in (case push_torrent_path_segment [] (info_name info) of
                     Inl e \<Rightarrow> Inl e
                   | Inr path \<Rightarrow> Inr ([(path, piece_start, take_len)], remaining - take_len))
          else Inr ([], remaining)
      | Multi files \<Rightarrow> multi_segments (info_name info) piece_start files 0 remaining [])"

definition piece_to_paths :: "torrent_info option \<Rightarrow> nat \<Rightarrow> pm_error + segment list" where
  "piece_to_paths info_opt index =
     (case info_opt of
        None \<Rightarrow> Inl InfoNotSet
      | Some info \<Rightarrow>
          (let piece_len = info_piece_length info;
               total_len = total_length info
           in (case checked_mul index piece_len of
                 None \<Rightarrow> Inl IndexOverflow
               | Some piece_start \<Rightarrow>
                   (case Option.bind (checked_add index 1) (\<lambda>i. checked_mul i piece_len) of
                      None \<Rightarrow> Inl IndexOverflow
                    | Some piece_end0 \<Rightarrow>
                        if \<not> piece_start < total_len then Inl ExceedsFileLengths
                        else (case map_files info piece_start (min piece_end0 total_len - piece_start) of
                                Inl e \<Rightarrow> Inl e
                              | Inr (results, remaining) \<Rightarrow>
                                  if remaining = 0 then Inr results else Inl ExceedsFileLengths)))))"

section \<open>The file piece manager\<close>

type_synonym file_store = "rel_path \<rightharpoonup> byte list"

record file_piece_manager =
  pm_path :: "rel_path option"
  pm_info :: "torrent_info option"

definition set_path :: "rel_path \<Rightarrow> file_piece_manager \<Rightarrow> file_piece_manager" where
  "set_path p m = m\<lparr>pm_path := Some p\<rparr>"

definition pre_start :: "(torrent_info \<Rightarrow> string + hash) \<Rightarrow> torrent_info \<Rightarrow> file_piece_manager \<Rightarrow> pm_error + file_piece_manager" where
  "pre_start hash_of info m =
     (case pm_path m of
        None \<Rightarrow> Inl PathNotSet
      | Some _ \<Rightarrow> (case hash_of info of Inl _ \<Rightarrow> Inl InfoNotSet | Inr _ \<Rightarrow> Inr (m\<lparr>pm_info := Some info\<rparr>)))"

primrec range_segments :: "segment list \<Rightarrow> nat \<Rightarrow> nat \<Rightarrow> segment list \<Rightarrow> pm_error + segment list" where
  "range_segments [] skipped remaining segments = Inl RangeExceeds"
| "range_segments (seg # rest) skipped remaining segments =
     (case seg of (path, file_offset, len) \<Rightarrow>
        if skipped \<ge> len then range_segments rest (skipped - len) remaining segments
        else
          let segment_len = min remaining (len - skipped);
              segments = segments @ [(path, file_offset + skipped, segment_len)];
              remaining = remaining - segment_len
          in if remaining = 0 then Inr segments else range_segments rest 0 remaining segments)"

definition piece_range_segments :: "file_piece_manager \<Rightarrow> nat \<Rightarrow> nat \<Rightarrow> nat \<Rightarrow> pm_error + segment list" where
  "piece_range_segments m index offset len =
     (if len = 0 then Inr []
      else case piece_to_paths (pm_info m) index of
             Inl e \<Rightarrow> Inl e
           | Inr segs \<Rightarrow> range_segments segs offset len [])"

definition write_at :: "byte list \<Rightarrow> nat \<Rightarrow> byte list \<Rightarrow> byte list" where
  "write_at content off data =
     (if data = [] then content
      else take off (pad_to off 0 content) @ data @ drop (off + length data) content)"

primrec write_segments :: "rel_path \<Rightarrow> segment list \<Rightarrow> byte list \<Rightarrow> file_store \<Rightarrow> file_store" where
  "write_segments base [] data fs = fs"
| "write_segments base (seg # segs) data fs =
     (case seg of (path, file_offset, len) \<Rightarrow>
        let content = (case fs (base @ path) of None \<Rightarrow> [] | Some c \<Rightarrow> c)
        in write_segments base segs (drop len data)
             (fs(base @ path \<mapsto> write_at content file_offset (take len data))))"

definition write_piece_range ::
  "file_piece_manager \<Rightarrow> nat \<Rightarrow> nat \<Rightarrow> byte list \<Rightarrow> file_store \<Rightarrow> pm_error + file_store" where
  "write_piece_range m index offset data fs =
     (case pm_path m of
        None \<Rightarrow> Inl PathNotSet
      | Some base \<Rightarrow>
          (case piece_range_segments m index offset (length data) of
             Inl e \<Rightarrow> Inl e | Inr segs \<Rightarrow> Inr (write_segments base segs data fs)))"

primrec read_segments :: "rel_path \<Rightarrow> segment list \<Rightarrow> file_store \<Rightarrow> pm_error + byte list" where
  "read_segments base [] fs = Inr []"
| "read_segments base (seg # segs) fs =
     (case seg of (path, file_offset, len) \<Rightarrow>
        (case fs (base @ path) of
           None \<Rightarrow> Inl NotFound
         | Some content \<Rightarrow>
             if length (take len (drop file_offset content)) < len then Inl UnexpectedEof
             else (case read_segments base segs fs of
                     Inl e \<Rightarrow> Inl e | Inr rest \<Rightarrow> Inr (take len (drop file_offset content) @ rest))))"

definition read_piece_range :: "file_piece_manager \<Rightarrow> nat \<Rightarrow> nat \<Rightarrow> nat \<Rightarrow> file_store \<Rightarrow> pm_error + byte list" where
  "read_piece_range m index offset len fs =
     (case pm_path m of
        None \<Rightarrow> Inl PathNotSet
      | Some base \<Rightarrow>
          (case piece_range_segments m index offset len of
             Inl e \<Rightarrow> Inl e | Inr segs \<Rightarrow> read_segments base segs fs))"

definition pm_write_block :: "file_piece_manager \<Rightarrow> nat \<Rightarrow> nat \<Rightarrow> byte list \<Rightarrow> file_store \<Rightarrow> pm_error + file_store" where
  "pm_write_block m index offset block fs = write_piece_range m index offset block fs"

definition pm_read_piece :: "file_piece_manager \<Rightarrow> nat \<Rightarrow> file_store \<Rightarrow> pm_error + byte list" where
  "pm_read_piece m index fs =
     (case piece_to_paths (pm_info m) index of
        Inl e \<Rightarrow> Inl e
      | Inr segs \<Rightarrow> read_piece_range m index 0 (sum_list (map (\<lambda>(_, _, len). len) segs)) fs)"

definition pm_read_piece_block :: "file_piece_manager \<Rightarrow> nat \<Rightarrow> nat \<Rightarrow> nat \<Rightarrow> file_store \<Rightarrow> pm_error + byte list" where
  "pm_read_piece_block m index offset len fs = read_piece_range m index offset len fs"

definition pm_recv :: "file_piece_manager \<Rightarrow> nat \<Rightarrow> byte list \<Rightarrow> file_store \<Rightarrow> pm_error + file_store" where
  "pm_recv m index data fs =
     (case pm_info m of None \<Rightarrow> Inl InfoNotSet | Some _ \<Rightarrow> write_piece_range m index 0 data fs)"

section \<open>Byte locations\<close>

text \<open>
  The specification: a torrent's content is the concatenation of its files, so every byte of it
  has a location, a file and a position in that file. A list of segments denotes a list of
  locations.
\<close>

type_synonym location = "rel_path \<times> nat"

definition seg_locs :: "segment \<Rightarrow> location list" where
  "seg_locs = (\<lambda>(path, off, len). map (Pair path) [off..<off + len])"

definition expand :: "segment list \<Rightarrow> location list" where
  "expand segs = concat (map seg_locs segs)"

definition resolve_file :: "string \<Rightarrow> info_file \<Rightarrow> pm_error + (rel_path \<times> nat)" where
  "resolve_file name f =
     (case multi_file_path name f of Inl e \<Rightarrow> Inl e | Inr p \<Rightarrow> Inr (p, if_length f))"

definition resolve_files :: "torrent_info \<Rightarrow> pm_error + (rel_path \<times> nat) list" where
  "resolve_files info =
     (case info_file_keys info of
        Single len \<Rightarrow>
          (case push_torrent_path_segment [] (info_name info) of Inl e \<Rightarrow> Inl e | Inr p \<Rightarrow> Inr [(p, len)])
      | Multi files \<Rightarrow>
          collect_results (resolve_file (info_name info)) files)"

definition layout :: "(rel_path \<times> nat) list \<Rightarrow> location list" where
  "layout files = concat (map (\<lambda>(path, len). map (Pair path) [0..<len]) files)"

lemma expand_simps [simp]:
  "expand [] = []" "expand (seg # segs) = seg_locs seg @ expand segs" "expand (xs @ ys) = expand xs @ expand ys"
  by (simp_all add: expand_def)

lemma length_seg_locs [simp]: "length (seg_locs (p, off, len)) = len"
  by (simp add: seg_locs_def)

lemma take_drop_seg:
  "off \<le> n \<Longrightarrow> take k (drop off (map (Pair p) [a..<a + n])) = seg_locs (p, a + off, min k (n - off))"
  by (simp add: seg_locs_def take_map drop_map min_def)

lemma layout_simps [simp]:
  "layout [] = []" "layout ((p, n) # files) = map (Pair p) [0..<n] @ layout files"
  by (simp_all add: layout_def)

lemma resolve_file_Inr:
  "resolve_file name f = Inr x \<longleftrightarrow> (\<exists>p. multi_file_path name f = Inr p \<and> x = (p, if_length f))"
  by (auto simp: resolve_file_def split: sum.splits)

lemma multi_segments_exact:
  assumes "collect_results (resolve_file name) files = Inr fs"
    and "0 < remaining" and "remaining \<le> length (layout fs) - (start - acc)"
  shows "\<exists>segs. multi_segments name start files acc remaining results = Inr (results @ segs, 0) \<and>
    expand segs = take remaining (drop (start - acc) (layout fs))"
  using assms
proof (induction files arbitrary: fs acc remaining results)
  case (Cons f files)
  let ?n = "if_length f"
  obtain path fs' where path: "multi_file_path name f = Inr path"
    and fs': "collect_results (resolve_file name) files = Inr fs'"
    and fs: "fs = (path, ?n) # fs'"
    using Cons.prems(1) by (auto simp: resolve_file_Inr split: sum.splits)
  show ?case
  proof (cases "start \<ge> acc + ?n")
    case True
    have "\<exists>segs. multi_segments name start files (acc + ?n) remaining results = Inr (results @ segs, 0) \<and>
        expand segs = take remaining (drop (start - (acc + ?n)) (layout fs'))"
      using Cons.IH [OF fs' Cons.prems(2), of "acc + ?n"] Cons.prems(3) True fs by simp
    then show ?thesis using True fs by simp
  next
    case False
    let ?o = "start - acc"
    let ?t = "min remaining (?n - ?o)"
    have o: "?o \<le> ?n" using False by linarith
    have first: "take remaining (drop ?o (map (Pair path) [0..<?n])) = seg_locs (path, ?o, ?t)"
      using take_drop_seg [OF o, of remaining path 0] by simp
    show ?thesis
    proof (cases "remaining - ?t = 0")
      case True
      then have "remaining \<le> ?n - ?o" by linarith
      then have "take remaining (drop ?o (layout fs)) = seg_locs (path, ?o, ?t)"
        using first fs o by simp
      then show ?thesis
        using False True path by (intro exI [of _ "[(path, ?o, ?t)]"]) (simp add: Let_def)
    next
      case more: False
      then have t: "?t = ?n - ?o" "?n - ?o < remaining" by auto
      have z: "start - (acc + ?n) = 0" using False by linarith
      have pos: "0 < remaining - ?t" using more by simp
      have bound: "remaining - ?t \<le> length (layout fs') - (start - (acc + ?n))"
        using Cons.prems(3) t o unfolding z fs by simp
      obtain segs where segs: "multi_segments name start files (acc + ?n) (remaining - ?t)
          (results @ [(path, ?o, ?t)]) = Inr ((results @ [(path, ?o, ?t)]) @ segs, 0)"
        "expand segs = take (remaining - ?t) (layout fs')"
        using Cons.IH [OF fs' pos bound, of "results @ [(path, ?o, ?t)]"] unfolding z by auto
      have step: "multi_segments name start (f # files) acc remaining results
          = multi_segments name start files (acc + ?n) (remaining - ?t) (results @ [(path, ?o, ?t)])"
        using False more path by (simp add: Let_def)
      have "take remaining (drop ?o (layout fs)) = seg_locs (path, ?o, ?t) @ take (remaining - ?t) (layout fs')"
        using first o t fs by simp
      then show ?thesis
        using segs step by (intro exI [of _ "(path, ?o, ?t) # segs"]) simp
    qed
  qed
qed simp

lemma range_segments_exact:
  assumes "0 < remaining"
  shows "if remaining \<le> length (expand segs) - skipped
    then \<exists>out. range_segments segs skipped remaining acc = Inr (acc @ out) \<and>
      expand out = take remaining (drop skipped (expand segs)) \<and> fst ` set out \<subseteq> fst ` set segs
    else range_segments segs skipped remaining acc = Inl RangeExceeds"
  using assms
proof (induction segs arbitrary: skipped remaining acc)
  case (Cons seg segs)
  obtain p off len where seg: "seg = (p, off, len)" by (cases seg)
  show ?case
  proof (cases "skipped \<ge> len")
    case True
    then show ?thesis
      using Cons.IH [OF Cons.prems, of "skipped - len" acc] by (auto simp: seg split: if_splits)
  next
    case False
    let ?t = "min remaining (len - skipped)"
    have first: "take remaining (drop skipped (seg_locs seg)) = seg_locs (p, off + skipped, ?t)"
      using take_drop_seg [of skipped len remaining p off] False by (simp add: seg seg_locs_def)
    show ?thesis
    proof (cases "remaining - ?t = 0")
      case True
      then have r: "remaining \<le> len - skipped" by linarith
      then have eq: "take remaining (drop skipped (expand (seg # segs))) = seg_locs (p, off + skipped, ?t)"
        using first False by (simp add: seg)
      have step: "range_segments (seg # segs) skipped remaining acc = Inr (acc @ [(p, off + skipped, ?t)])"
        using False True by (simp add: Let_def seg)
      have "remaining \<le> length (expand (seg # segs)) - skipped" using r by (simp add: seg)
      then show ?thesis using eq step by (auto simp: seg intro!: exI [of _ "[(p, off + skipped, ?t)]"])
    next
      case more: False
      then have t: "?t = len - skipped" "0 < remaining - ?t" by auto
      have step: "range_segments (seg # segs) skipped remaining acc
          = range_segments segs 0 (remaining - ?t) (acc @ [(p, off + skipped, ?t)])"
        using False more by (simp add: Let_def seg)
      have eq: "take remaining (drop skipped (expand (seg # segs)))
          = seg_locs (p, off + skipped, ?t) @ take (remaining - ?t) (expand segs)"
        using first False t by (simp add: seg)
      have iff: "remaining \<le> length (expand (seg # segs)) - skipped \<longleftrightarrow> remaining - ?t \<le> length (expand segs) - 0"
        using False t by (simp add: seg) linarith
      let ?acc = "acc @ [(p, off + skipped, ?t)]"
      note IH = Cons.IH [OF t(2), of 0 ?acc]
      show ?thesis
      proof (cases "remaining - ?t \<le> length (expand segs) - 0")
        case True
        with IH obtain out where out: "range_segments segs 0 (remaining - ?t) ?acc = Inr (?acc @ out)"
          "expand out = take (remaining - ?t) (expand segs)" "fst ` set out \<subseteq> fst ` set segs"
          by auto
        have "range_segments (seg # segs) skipped remaining acc = Inr (acc @ (p, off + skipped, ?t) # out)"
          unfolding step out(1) by simp
        moreover have "expand ((p, off + skipped, ?t) # out) = take remaining (drop skipped (expand (seg # segs)))"
          unfolding eq by (simp add: out(2))
        moreover have "fst ` set ((p, off + skipped, ?t) # out) \<subseteq> fst ` set (seg # segs)"
          using out(3) by (auto simp: seg)
        ultimately show ?thesis using iff True by metis
      next
        case False
        then have "range_segments segs 0 (remaining - ?t) ?acc = Inl RangeExceeds"
          using IH by (simp only: if_False)
        then show ?thesis unfolding step using iff False by (simp only: if_False)
      qed
    qed
  qed
qed simp

section \<open>Bytes in the file store\<close>

definition byte_at :: "rel_path \<Rightarrow> file_store \<Rightarrow> location \<Rightarrow> byte option" where
  "byte_at base fs = (\<lambda>(path, k). case fs (base @ path) of None \<Rightarrow> None | Some c \<Rightarrow> get_at c k)"

lemma get_at_write:
  "get_at (write_at c off d) k =
     (if off \<le> k \<and> k < off + length d then Some (d ! (k - off))
      else if k < length c then Some (c ! k)
      else if k < off \<and> d \<noteq> [] then Some 0 else None)"
  by (auto simp: write_at_def get_at_def nth_append nth_pad_to min_def)

lemma seg_locs_iff: "(q, k) \<in> set (seg_locs (p, off, len)) \<longleftrightarrow> q = p \<and> off \<le> k \<and> k < off + len"
  by (auto simp: seg_locs_def)

lemma byte_at_upd:
  "byte_at base (fs(base @ p \<mapsto> c)) (q, k) = (if q = p then get_at c k else byte_at base fs (q, k))"
  by (simp add: byte_at_def)

lemma old_byte: "byte_at base fs (p, k) = get_at (case fs (base @ p) of None \<Rightarrow> [] | Some c \<Rightarrow> c) k"
  by (simp add: byte_at_def get_at_def split: option.splits)

lemma write_segments_step:
  "write_segments base ((p, off, len) # segs) data fs = write_segments base segs (drop len data)
     (fs(base @ p \<mapsto> write_at (case fs (base @ p) of None \<Rightarrow> [] | Some c \<Rightarrow> c) off (take len data)))"
  by (simp add: Let_def)

text \<open>A write keeps every byte outside its locations, and every file.\<close>

lemma write_segments_keeps:
  "byte_at base fs loc = Some b \<Longrightarrow> loc \<notin> set (expand segs) \<Longrightarrow> length data = length (expand segs)
     \<Longrightarrow> byte_at base (write_segments base segs data fs) loc = Some b"
proof (induction segs arbitrary: fs data)
  case (Cons seg segs)
  obtain p off len where seg: "seg = (p, off, len)" by (cases seg)
  obtain q k where loc: "loc = (q, k)" by (cases loc)
  let ?c = "case fs (base @ p) of None \<Rightarrow> [] | Some c \<Rightarrow> c"
  let ?fs = "fs(base @ p \<mapsto> write_at ?c off (take len data))"
  have len: "length (take len data) = len" using Cons.prems(3) by (simp add: seg)
  have "byte_at base ?fs loc = Some b"
    using Cons.prems(1,2) len old_byte [of base fs p k]
    by (auto simp: loc byte_at_upd get_at_write seg seg_locs_iff get_at_Some)
  moreover have "loc \<notin> set (expand segs)" "length (drop len data) = length (expand segs)"
    using Cons.prems(2,3) by (simp_all add: seg)
  ultimately have "byte_at base (write_segments base segs (drop len data) ?fs) loc = Some b"
    by (rule Cons.IH)
  then show ?case unfolding seg write_segments_step .
qed simp

lemma write_segments_dom: "fs p \<noteq> None \<Longrightarrow> write_segments base segs data fs p \<noteq> None"
proof (induction segs arbitrary: fs data)
  case (Cons seg segs)
  obtain q off len where seg: "seg = (q, off, len)" by (cases seg)
  show ?case unfolding seg write_segments_step by (rule Cons.IH) (use Cons.prems in simp)
qed simp

lemma write_segments_creates: "(p, off, len) \<in> set segs \<Longrightarrow> write_segments base segs data fs (base @ p) \<noteq> None"
proof (induction segs arbitrary: fs data)
  case (Cons seg segs)
  obtain q o' n where seg: "seg = (q, o', n)" by (cases seg)
  show ?case
  proof (cases "(p, off, len) \<in> set segs")
    case True
    then show ?thesis unfolding seg write_segments_step by (rule Cons.IH)
  next
    case False
    with Cons.prems seg have "q = p" by simp
    then show ?thesis unfolding seg write_segments_step by (intro write_segments_dom) simp
  qed
qed simp

lemma write_segments_bytes:
  "distinct (expand segs) \<Longrightarrow> length data = length (expand segs)
     \<Longrightarrow> map (byte_at base (write_segments base segs data fs)) (expand segs) = map Some data"
proof (induction segs arbitrary: fs data)
  case (Cons seg segs)
  obtain p off len where seg: "seg = (p, off, len)" by (cases seg)
  let ?c = "case fs (base @ p) of None \<Rightarrow> [] | Some c \<Rightarrow> c"
  let ?fs = "fs(base @ p \<mapsto> write_at ?c off (take len data))"
  let ?out = "write_segments base segs (drop len data) ?fs"
  have len: "length (take len data) = len" "length (drop len data) = length (expand segs)"
    using Cons.prems(2) by (simp_all add: seg)
  have "byte_at base ?out (seg_locs seg ! i) = Some (take len data ! i)" if i: "i < len" for i
  proof (rule write_segments_keeps)
    show "byte_at base ?fs (seg_locs seg ! i) = Some (take len data ! i)"
      using i len by (simp add: seg seg_locs_def byte_at_upd get_at_write)
    have "seg_locs seg ! i \<in> set (seg_locs seg)" using i by (simp add: seg)
    then show "seg_locs seg ! i \<notin> set (expand segs)" using Cons.prems(1) by auto
  qed (rule len(2))
  then have "map (byte_at base ?out) (seg_locs seg) = map Some (take len data)"
    using len by (intro nth_equalityI) (simp_all add: seg)
  moreover have "map (byte_at base ?out) (expand segs) = map Some (drop len data)"
    by (rule Cons.IH) (use Cons.prems(1) len(2) in simp_all)
  ultimately have "map (byte_at base ?out) (expand (seg # segs)) = map Some (take len data @ drop len data)"
    by (simp only: expand_simps map_append)
  then show ?case unfolding seg write_segments_step by (simp only: append_take_drop_id)
qed simp

lemma read_segments_iff:
  "read_segments base segs fs = Inr data \<longleftrightarrow>
     (\<forall>(p, _) \<in> set segs. fs (base @ p) \<noteq> None) \<and> map (byte_at base fs) (expand segs) = map Some data"
proof (induction segs arbitrary: data)
  case (Cons seg segs)
  obtain p off len where seg: "seg = (p, off, len)" by (cases seg)
  show ?case
  proof (cases "fs (base @ p)")
    case None
    then show ?thesis by (simp add: seg)
  next
    case (Some c)
    have bytes: "map (byte_at base fs) (seg_locs seg) = map (get_at c) [off..<off + len]"
      using Some by (simp add: seg seg_locs_def byte_at_def)
    have full: "map (get_at c) [off..<off + len] = map Some d \<longleftrightarrow> d = take len (drop off c) \<and> length d = len" for d
    proof
      assume eq: "map (get_at c) [off..<off + len] = map Some d"
      then have l: "length d = len" by (metis length_map length_upt diff_add_inverse)
      have "get_at c (off + i) = Some (d ! i)" if "i < len" for i
        using arg_cong [OF eq, of "\<lambda>xs. xs ! i"] that l by simp
      then have g: "off + i < length c \<and> c ! (off + i) = d ! i" if "i < len" for i
        using that by (simp add: get_at_Some)
      have "len = 0 \<or> off + len \<le> length c" using g [of "len - 1"] by (cases len) auto
      with g l show "d = take len (drop off c) \<and> length d = len"
        by (auto intro!: nth_equalityI)
    next
      assume "d = take len (drop off c) \<and> length d = len"
      then show "map (get_at c) [off..<off + len] = map Some d"
        by (intro nth_equalityI) (auto simp: get_at_def)
    qed
    have split: "map (byte_at base fs) (expand (seg # segs)) = map Some data \<longleftrightarrow>
        (\<exists>d1 d2. data = d1 @ d2 \<and> map (byte_at base fs) (seg_locs seg) = map Some d1 \<and>
           map (byte_at base fs) (expand segs) = map Some d2)"
      by (auto simp: append_eq_map_conv)
    show ?thesis
      unfolding split bytes full using Some Cons.IH by (auto simp: seg split: sum.splits) blast
  qed
qed auto

section \<open>Pieces and ranges as parts of the layout\<close>

definition files_fit :: "torrent_info \<Rightarrow> bool" where
  "files_fit info = (case info_file_keys info of Single _ \<Rightarrow> True
     | Multi files \<Rightarrow> sum_list (map if_length files) \<le> usize_max)"

lemma length_layout: "length (layout fs) = sum_list (map snd fs)"
  by (induction fs) auto

lemma resolve_lengths: "collect_results (resolve_file name) files = Inr fs \<Longrightarrow> map snd fs = map if_length files"
  by (induction files arbitrary: fs) (auto simp: resolve_file_Inr split: sum.splits)

lemma layout_total: "resolve_files info = Inr fs \<Longrightarrow> files_fit info \<Longrightarrow> length (layout fs) = total_length info"
  by (auto simp: resolve_files_def files_fit_def length_layout resolve_lengths total_length_eq_sum total_length_def
      split: info_keys.splits sum.splits) (simp add: foldl_saturating_add)

lemma map_files_exact:
  assumes "resolve_files info = Inr fs" and "0 < n" and "n \<le> length (layout fs) - start"
  shows "\<exists>segs. map_files info start n = Inr (segs, 0) \<and> expand segs = take n (drop start (layout fs))"
proof (cases "info_file_keys info")
  case (Single len)
  then obtain p where p: "push_torrent_path_segment [] (info_name info) = Inr p" "fs = [(p, len)]"
    using assms(1) by (auto simp: resolve_files_def split: sum.splits)
  then have "start < len" "n \<le> len - start" using assms(2,3) by auto
  then show ?thesis
    using Single p take_drop_seg [of start len n p 0] by (simp add: map_files_def Let_def)
next
  case (Multi files)
  then show ?thesis
    using assms multi_segments_exact [of "info_name info" files fs n start 0 "[]"]
    by (simp add: resolve_files_def map_files_def)
qed

lemma piece_to_paths_layout:
  assumes res: "resolve_files info = Inr fs" and fit: "files_fit info" and pl: "0 < info_piece_length info"
  shows "piece_to_paths (Some info) i =
    (if (i + 1) * info_piece_length info > usize_max \<or> i + 1 > usize_max then Inl IndexOverflow
     else if i * info_piece_length info \<ge> total_length info then Inl ExceedsFileLengths
     else Inr (fst (projr (map_files info (i * info_piece_length info)
       (min ((i + 1) * info_piece_length info) (total_length info) - i * info_piece_length info)))))"
    and "piece_to_paths (Some info) i = Inr segs \<Longrightarrow>
      expand segs = take (info_piece_length info) (drop (i * info_piece_length info) (layout fs))"
proof -
  let ?pl = "info_piece_length info" and ?tot = "total_length info"
  let ?n = "min ((i + 1) * ?pl) ?tot - i * ?pl"
  have ov: "checked_mul i ?pl = None \<Longrightarrow> (i + 1) * ?pl > usize_max" by (auto simp: checked_mul_def split: if_splits)
  have tot: "length (layout fs) = ?tot" using layout_total [OF res fit] .
  have inside: "\<exists>segs. map_files info (i * ?pl) ?n = Inr (segs, 0) \<and>
      expand segs = take ?pl (drop (i * ?pl) (layout fs))" if "i * ?pl < ?tot"
  proof -
    have "0 < ?n" "?n \<le> length (layout fs) - i * ?pl" using that pl tot by auto
    from map_files_exact [OF res this] obtain segs where segs: "map_files info (i * ?pl) ?n = Inr (segs, 0)"
      "expand segs = take ?n (drop (i * ?pl) (layout fs))" by blast
    have "?n = min ?pl (length (drop (i * ?pl) (layout fs)))" using that tot by (simp add: min_def) linarith
    then have "expand segs = take ?pl (drop (i * ?pl) (layout fs))"
      unfolding segs(2) by (simp add: min_def)
    with segs show ?thesis by blast
  qed
  show eq: "piece_to_paths (Some info) i =
    (if (i + 1) * ?pl > usize_max \<or> i + 1 > usize_max then Inl IndexOverflow
     else if i * ?pl \<ge> ?tot then Inl ExceedsFileLengths else Inr (fst (projr (map_files info (i * ?pl) ?n))))"
    using inside by (auto simp: piece_to_paths_def Let_def checked_mul_def checked_add_def split: sum.splits)
  show "piece_to_paths (Some info) i = Inr segs \<Longrightarrow> expand segs = take ?pl (drop (i * ?pl) (layout fs))"
    using inside unfolding eq by (auto split: if_splits)
qed

text \<open>A manager whose metadata resolves to the files \<open>fs\<close>.\<close>

definition manages :: "file_piece_manager \<Rightarrow> rel_path \<Rightarrow> torrent_info \<Rightarrow> (rel_path \<times> nat) list \<Rightarrow> bool" where
  "manages m base info fs =
     (pm_path m = Some base \<and> pm_info m = Some info \<and> resolve_files info = Inr fs \<and> files_fit info \<and>
      0 < info_piece_length info)"

lemma piece_range_locs:
  assumes "manages m base info fs" and "piece_range_segments m i off n = Inr segs"
  shows "expand segs = take n (drop (i * info_piece_length info + off) (layout fs))"
    and "length (expand segs) = n"
proof -
  let ?pl = "info_piece_length info"
  have "expand segs = take n (drop (i * ?pl + off) (layout fs)) \<and> length (expand segs) = n"
  proof (cases "n = 0")
    case False
    then have n: "0 < n" by simp
    obtain whole where whole: "piece_to_paths (Some info) i = Inr whole" "range_segments whole off n [] = Inr segs"
      using assms False by (auto simp: piece_range_segments_def manages_def split: sum.splits)
    have e: "expand whole = take ?pl (drop (i * ?pl) (layout fs))"
      using piece_to_paths_layout(2) [OF _ _ _ whole(1)] assms(1) by (simp add: manages_def)
    have bound: "n \<le> length (expand whole) - off"
      using range_segments_exact [OF n, of whole off "[]"] whole(2) by (auto split: if_splits)
    then have segs: "expand segs = take n (drop off (expand whole))"
      using range_segments_exact [OF n, of whole off "[]"] whole(2) by (auto split: if_splits)
    have "n + off \<le> ?pl" using bound n unfolding e by auto
    then show ?thesis using segs bound unfolding e by (auto simp: drop_take add.commute)
  qed (use assms in \<open>simp add: piece_range_segments_def\<close>)
  then show "expand segs = take n (drop (i * ?pl + off) (layout fs))" "length (expand segs) = n" by blast+
qed

lemma distinct_layout: "distinct (map fst fs) \<Longrightarrow> distinct (layout fs)"
proof (induction fs)
  case (Cons f fs)
  obtain p n where f: "f = (p, n)" by (cases f)
  have "q \<in> fst ` set fs" if "(q, k) \<in> set (layout fs)" for q k
    using that by (force simp: layout_def)
  then have "set (map (Pair p) [0..<n]) \<inter> set (layout fs) = {}" using Cons.prems f by fastforce
  with Cons show ?case by (simp add: f distinct_map inj_on_def)
qed simp

lemma disjoint_ranges:
  assumes "distinct xs" and "a + n \<le> b \<or> b + k \<le> a"
  shows "set (take n (drop a xs)) \<inter> set (take k (drop b xs)) = {}"
proof (rule ccontr)
  assume "set (take n (drop a xs)) \<inter> set (take k (drop b xs)) \<noteq> {}"
  then obtain x where "x \<in> set (take n (drop a xs))" "x \<in> set (take k (drop b xs))" by blast
  then obtain u v where "u < n" "a + u < length xs" "x = xs ! (a + u)" "v < k" "b + v < length xs" "x = xs ! (b + v)"
    by (auto simp: in_set_conv_nth)
  with assms nth_eq_iff_index_eq [OF assms(1), of "a + u" "b + v"] show False by auto
qed

section \<open>Results\<close>

text \<open>
  C9: a piece is mapped exactly. For a torrent whose file paths are acceptable, piece \<open>i\<close> is mapped
  to segments that denote, in order and without gap or overlap, the bytes from \<open>i\<close> times the piece
  length of the concatenated files, a full piece of them or what is left at the end; an index past
  the end is refused, and so is one whose byte positions do not fit \<^verbatim>\<open>usize\<close>.
\<close>

theorem piece_to_paths_exact:
  assumes "resolve_files info = Inr fs" and "files_fit info" and "0 < info_piece_length info"
  shows "case piece_to_paths (Some info) i of
      Inr segs \<Rightarrow> i * info_piece_length info < total_length info \<and>
        expand segs = take (info_piece_length info) (drop (i * info_piece_length info) (layout fs))
    | Inl e \<Rightarrow> e = (if (i + 1) * info_piece_length info > usize_max \<or> i + 1 > usize_max then IndexOverflow
                     else ExceedsFileLengths) \<and>
        (usize_max < (i + 1) * info_piece_length info \<or> usize_max < i + 1 \<or>
         total_length info \<le> i * info_piece_length info)"
  using piece_to_paths_layout(1) [OF assms, of i] piece_to_paths_layout(2) [OF assms, of i]
  by (auto split: sum.splits if_splits)

definition example_info :: torrent_info where
  "example_info = \<lparr>info_name = ''t'', info_piece_length = 4, info_pieces = [[1], [2], [3]],
     info_file_keys = Multi [\<lparr>if_length = 3, if_path = [''a'']\<rparr>, \<lparr>if_length = 0, if_path = [''e'']\<rparr>,
       \<lparr>if_length = 6, if_path = [''d'', ''b'']\<rparr>], info_is_private = None\<rparr>"

definition example_files :: "(rel_path \<times> nat) list" where
  "example_files = [([''t'', ''a''], 3), ([''t'', ''e''], 0), ([''t'', ''d'', ''b''], 6)]"

lemma example_resolves:
  "resolve_files example_info = Inr example_files" "files_fit example_info"
  "info_piece_length example_info = 4"
  by code_simp (simp_all add: files_fit_def example_info_def usize_max_def)

text \<open>A path segment that stays inside its directory.\<close>

definition seg_safe :: "string \<Rightarrow> bool" where
  "seg_safe s = (s \<noteq> [] \<and> s \<noteq> ''.'' \<and> s \<noteq> ''..'' \<and> CHR ''/'' \<notin> set s \<and> CHR 0x5C \<notin> set s \<and> CHR '':'' \<notin> set s)"

lemma split_on_none: "c \<notin> set s \<Longrightarrow> split_on c acc s = [acc @ s]"
  by (induction s arbitrary: acc) auto

lemma push_segment_iff:
  "push_torrent_path_segment path s = (if seg_safe s then Inr (path @ [s]) else Inl (UnsafeOutputPath s))"
proof (cases "CHR ''/'' \<in> set s \<or> CHR 0x5C \<in> set s \<or> CHR '':'' \<in> set s \<or> s = []")
  case True
  then show ?thesis by (auto simp: push_torrent_path_segment_def Let_def seg_safe_def list_ex_iff)
next
  case False
  then have "path_components s = part_components True [s]"
    by (auto simp: path_components_def split_on_none neq_Nil_conv)
  with False show ?thesis by (auto simp: push_torrent_path_segment_def Let_def seg_safe_def list_ex_iff)
qed

lemma push_segments_iff:
  "push_segments path cs = Inr p \<longleftrightarrow> p = path @ cs \<and> list_all seg_safe cs"
  by (induction cs arbitrary: path) (auto simp: push_segment_iff)

lemma multi_file_path_safe: "multi_file_path name f = Inr p \<Longrightarrow> p \<noteq> [] \<and> list_all seg_safe p"
  by (auto simp: multi_file_path_def Let_def push_segment_iff push_segments_iff split: if_splits sum.splits)

lemma multi_segments_safe:
  "multi_segments name start files acc n results = Inr (segs, m) \<Longrightarrow>
     \<forall>(p, _) \<in> set results. p \<noteq> [] \<and> list_all seg_safe p \<Longrightarrow> \<forall>(p, _) \<in> set segs. p \<noteq> [] \<and> list_all seg_safe p"
proof (induction files arbitrary: acc n results)
  case (Cons f files)
  show ?case
  proof (cases "start \<ge> acc + if_length f")
    case True
    then show ?thesis using Cons.prems Cons.IH [of "acc + if_length f" n results] by simp
  next
    case False
    then obtain p where p: "multi_file_path name f = Inr p" using Cons.prems(1) by (auto simp: Let_def split: sum.splits)
    let ?t = "min n (if_length f - (start - acc))"
    have ok: "\<forall>(q, _) \<in> set (results @ [(p, start - acc, ?t)]). q \<noteq> [] \<and> list_all seg_safe q"
      using Cons.prems(2) multi_file_path_safe [OF p] by auto
    show ?thesis
    proof (cases "n - ?t = 0")
      case True
      then have "segs = results @ [(p, start - acc, ?t)]" using Cons.prems(1) False p by (simp add: Let_def)
      with ok show ?thesis by blast
    next
      case more: False
      have "multi_segments name start files (acc + if_length f) (n - ?t) (results @ [(p, start - acc, ?t)]) = Inr (segs, m)"
        using Cons.prems(1) False p more by (simp add: Let_def)
      from Cons.IH [OF this ok] show ?thesis .
    qed
  qed
qed auto

lemmas example_eval = piece_to_paths_def map_files_def total_length_def saturating_add_def usize_max_def
  checked_mul_def checked_add_def multi_file_path_def push_segment_iff seg_safe_def Let_def

lemma example_piece:
  "piece_to_paths (Some example_info) 0 =
     Inr [([''t'', ''a''], 0, 3), ([''t'', ''e''], 0, 0), ([''t'', ''d'', ''b''], 0, 1)]"
  by (simp add: example_info_def example_eval)

theorem piece_to_paths_exact_witness:
  "expand [([''t'', ''a''], 0, 3), ([''t'', ''e''], 0, 0), ([''t'', ''d'', ''b''], 0, 1)]
     = take 4 (drop 0 (layout example_files))"
  using piece_to_paths_exact [OF example_resolves(1,2), of 0] unfolding example_piece
  by (simp add: example_resolves(3))

text \<open>
  C11: no torrent writes outside its output directory. Every path a piece is mapped to is a
  non-empty sequence of segments none of which is empty, a dot, two dots or contains a path
  separator, a backslash or a colon; metadata with any other segment in the way is refused.
\<close>

theorem piece_paths_stay_inside:
  assumes "piece_to_paths info i = Inr segs"
  shows "\<forall>(p, _) \<in> set segs. p \<noteq> [] \<and> list_all seg_safe p"
proof -
  obtain inf start n rest where "info = Some inf" "map_files inf start n = Inr (segs, rest)"
    using assms by (auto simp: piece_to_paths_def Let_def split: option.splits if_splits sum.splits prod.splits)
  then show ?thesis
    using multi_segments_safe [of "info_name inf" start _ 0 n "[]" segs rest]
    by (auto simp: map_files_def push_segment_iff Let_def split: info_keys.splits if_splits)
qed

lemma write_range_own:
  assumes m: "manages m base info fs" and "distinct (map fst fs)"
    and w: "write_piece_range m i off data st = Inr st'"
  shows "read_piece_range m i off (length data) st' = Inr data"
proof -
  have path: "pm_path m = Some base" using m by (simp add: manages_def)
  obtain segs where segs: "piece_range_segments m i off (length data) = Inr segs"
    "st' = write_segments base segs data st"
    using w path by (auto simp: write_piece_range_def split: sum.splits)
  note locs = piece_range_locs [OF m segs(1)]
  have "distinct (expand segs)" unfolding locs(1) using distinct_layout [OF assms(2)] by simp
  with locs(2) have "map (byte_at base st') (expand segs) = map Some data"
    unfolding segs(2) by (intro write_segments_bytes) simp_all
  moreover have "\<forall>(p, _) \<in> set segs. st' (base @ p) \<noteq> None"
    using write_segments_creates unfolding segs(2) by fastforce
  ultimately show ?thesis
    using path segs(1) by (simp add: read_piece_range_def read_segments_iff)
qed

lemma write_range_keeps:
  assumes m: "manages m base info fs" and "distinct (map fst fs)"
    and w: "write_piece_range m i off data st = Inr st'"
    and r: "read_piece_range m j off' n st = Inr d"
    and apart: "i * info_piece_length info + off + length data \<le> j * info_piece_length info + off'
      \<or> j * info_piece_length info + off' + n \<le> i * info_piece_length info + off"
  shows "read_piece_range m j off' n st' = Inr d"
proof -
  have path: "pm_path m = Some base" using m by (simp add: manages_def)
  obtain segs where segs: "piece_range_segments m i off (length data) = Inr segs"
    "st' = write_segments base segs data st"
    using w path by (auto simp: write_piece_range_def split: sum.splits)
  note locs = piece_range_locs [OF m segs(1)]
  obtain segs' where segs': "piece_range_segments m j off' n = Inr segs'" "read_segments base segs' st = Inr d"
    using r path by (auto simp: read_piece_range_def split: sum.splits)
  have dis: "set (expand segs) \<inter> set (expand segs') = {}"
    unfolding locs(1) piece_range_locs(1) [OF m segs'(1)]
    using disjoint_ranges [OF distinct_layout [OF assms(2)] apart] .
  have old: "map (byte_at base st) (expand segs') = map Some d" "\<forall>(p, _) \<in> set segs'. st (base @ p) \<noteq> None"
    using segs'(2) by (simp_all add: read_segments_iff)
  have "map (byte_at base st') (expand segs') = map Some d"
  proof (rule nth_equalityI)
    show "length (map (byte_at base st') (expand segs')) = length (map Some d)"
      using arg_cong [OF old(1), of length] by simp
    fix x
    assume x: "x < length (map (byte_at base st') (expand segs'))"
    then have "byte_at base st (expand segs' ! x) = Some (d ! x)" "x < length d"
      using arg_cong [OF old(1), of "\<lambda>ys. ys ! x"] arg_cong [OF old(1), of length] by simp_all
    moreover have "expand segs' ! x \<notin> set (expand segs)" using x dis nth_mem [of x "expand segs'"] by auto
    ultimately show "map (byte_at base st') (expand segs') ! x = map Some d ! x"
      using x locs(2) write_segments_keeps unfolding segs(2) by simp
  qed
  moreover have "\<forall>(p, _) \<in> set segs'. st' (base @ p) \<noteq> None"
    using old(2) write_segments_dom unfolding segs(2) by fastforce
  ultimately show ?thesis using path segs'(1) by (simp add: read_piece_range_def read_segments_iff)
qed

text \<open>A part of a range that reads is the part of its bytes.\<close>

lemma read_range_slice:
  assumes m: "manages m base info fs"
    and whole: "read_piece_range m i 0 n st = Inr d" and part: "read_piece_range m i off k st = Inr d'"
    and "off + k \<le> n"
  shows "d' = take k (drop off d)"
proof -
  have path: "pm_path m = Some base" using m by (simp add: manages_def)
  obtain s1 s2 where s: "piece_range_segments m i 0 n = Inr s1" "read_segments base s1 st = Inr d"
    "piece_range_segments m i off k = Inr s2" "read_segments base s2 st = Inr d'"
    using whole part path by (auto simp: read_piece_range_def split: sum.splits)
  let ?L = "drop (i * info_piece_length info) (layout fs)"
  have l1: "expand s1 = take n ?L" using piece_range_locs(1) [OF m s(1)] by simp
  have l2: "expand s2 = take k (drop off ?L)" using piece_range_locs(1) [OF m s(3)] by (simp add: add.commute)
  have "expand s2 = take k (drop off (expand s1))"
    unfolding l1 l2 using \<open>off + k \<le> n\<close> by (simp add: drop_take min_def)
  moreover have "map (byte_at base st) (expand s1) = map Some d" "map (byte_at base st) (expand s2) = map Some d'"
    using s(2,4) by (simp_all add: read_segments_iff)
  ultimately have "map Some d' = map Some (take k (drop off d))" by (metis take_map drop_map)
  then show ?thesis by simp
qed

text \<open>Reading a piece reads a range that starts with the piece and is no longer than one.\<close>

lemma read_piece_as_range:
  assumes m: "manages m base info fs" and r: "pm_read_piece m i st = Inr d"
  shows "length d \<le> info_piece_length info" and "read_piece_range m i 0 (length d) st = Inr d"
    and "pm_read_piece m i st' = read_piece_range m i 0 (length d) st'"
proof -
  obtain segs where segs: "piece_to_paths (Some info) i = Inr segs"
    "read_piece_range m i 0 (sum_list (map (\<lambda>(_, _, len). len) segs)) st = Inr d"
    using m r by (auto simp: pm_read_piece_def manages_def split: sum.splits)
  have sum: "sum_list (map (\<lambda>(_, _, len). len) segs) = length (expand segs)"
    by (induction segs) auto
  have e: "expand segs = take (info_piece_length info) (drop (i * info_piece_length info) (layout fs))"
    using piece_to_paths_layout(2) [OF _ _ _ segs(1)] m by (simp add: manages_def)
  have "length d = length (expand segs)"
  proof -
    obtain s where s: "piece_range_segments m i 0 (length (expand segs)) = Inr s" "read_segments base s st = Inr d"
      using segs(2) m unfolding sum by (auto simp: read_piece_range_def manages_def split: sum.splits)
    have "map (byte_at base st) (expand s) = map Some d" using s(2) by (simp add: read_segments_iff)
    then show ?thesis using piece_range_locs(2) [OF m s(1)] by (metis length_map)
  qed
  then show "length d \<le> info_piece_length info" "read_piece_range m i 0 (length d) st = Inr d"
    "pm_read_piece m i st' = read_piece_range m i 0 (length d) st'"
    using segs m unfolding sum by (simp_all add: e pm_read_piece_def manages_def sum)
qed

text \<open>A range that reads lies in the piece, and is the part of the piece.\<close>

lemma read_block_of_piece:
  assumes m: "manages m base info fs" and r: "pm_read_piece m i st = Inr d"
    and part: "read_piece_range m i off k st = Inr d'" and "0 < k"
  shows "d' = take k (drop off d)" and "off + k \<le> length d"
proof -
  obtain segs where segs: "piece_to_paths (Some info) i = Inr segs" "\<exists>out. range_segments segs off k [] = Inr out"
    using part m \<open>0 < k\<close> by (auto simp: read_piece_range_def piece_range_segments_def manages_def split: sum.splits)
  have bound: "k \<le> length (expand segs) - off"
    using segs(2) range_segments_exact [OF \<open>0 < k\<close>, of segs off "[]"] by (auto split: if_splits)
  have "sum_list (map (\<lambda>(_, _, len). len) segs) = length (expand segs)" by (induction segs) auto
  then have "read_piece_range m i 0 (length (expand segs)) st = Inr d"
    using r segs(1) m by (simp add: pm_read_piece_def manages_def)
  then obtain s' where "piece_range_segments m i 0 (length (expand segs)) = Inr s'" "read_segments base s' st = Inr d"
    using m by (auto simp: read_piece_range_def manages_def split: sum.splits)
  then have "length d = length (expand segs)"
    using piece_range_locs(2) [OF m] by (metis read_segments_iff length_map)
  with bound \<open>0 < k\<close> show le: "off + k \<le> length d" by simp
  show "d' = take k (drop off d)" by (rule read_range_slice [OF m read_piece_as_range(2) [OF m r] part le])
qed

text \<open>
  C10: what is written can be read back, and nothing else changes. After a successful write of a
  range of a piece the same range reads as the data written, and every range elsewhere in the
  torrent that could be read before still reads the same, when no two files of the torrent are
  mapped to one path.
\<close>

theorem write_read_range:
  assumes m: "manages m base info fs" and "distinct (map fst fs)"
    and w: "write_piece_range m i off data st = Inr st'"
  shows "read_piece_range m i off (length data) st' = Inr data \<and>
    (\<forall>j off' n d. read_piece_range m j off' n st = Inr d \<longrightarrow>
       (let a = i * info_piece_length info + off; b = j * info_piece_length info + off'
        in a + length data \<le> b \<or> b + n \<le> a) \<longrightarrow>
       read_piece_range m j off' n st' = Inr d)"
  using write_range_own [OF assms] write_range_keeps [OF assms] by (simp add: Let_def)

theorem piece_paths_stay_inside_witness: "list_all seg_safe [''t'', ''d'', ''b'']"
  using piece_paths_stay_inside [OF example_piece] by simp

definition example_manager :: file_piece_manager where
  "example_manager = \<lparr>pm_path = Some [''out''], pm_info = Some example_info\<rparr>"

lemma example_manages: "manages example_manager [''out''] example_info example_files"
  by (simp add: manages_def example_manager_def example_resolves)

theorem write_read_range_witness:
  "\<exists>st. write_piece_range example_manager 0 2 [7, 8] Map.empty = Inr st \<and>
     read_piece_range example_manager 0 2 2 st = Inr [7, 8]"
proof -
  have segs: "piece_range_segments example_manager 0 2 2
      = Inr [([''t'', ''a''], 2, 1), ([''t'', ''d'', ''b''], 0, 1)]"
    using example_piece by (simp add: piece_range_segments_def example_manager_def Let_def)
  obtain st where st: "write_piece_range example_manager 0 2 [7, 8] Map.empty = Inr st"
    using segs by (auto simp: write_piece_range_def example_manager_def numeral_2_eq_2)
  have "distinct (map fst example_files)" by (simp add: example_files_def)
  from write_read_range [OF example_manages this st] st show ?thesis by (simp add: numeral_2_eq_2)
qed

definition colliding_info :: torrent_info where
  "colliding_info = \<lparr>info_name = ''t'', info_piece_length = 4, info_pieces = [[1], [2]],
     info_file_keys = Multi [\<lparr>if_length = 4, if_path = [''t'', ''a'']\<rparr>, \<lparr>if_length = 4, if_path = [''a'']\<rparr>],
     info_is_private = None\<rparr>"

text \<open>
  The distinctness that the round trip needs is not ensured by the code. The name of the
  torrent is left out of a path whose first component equals it, so two different files of a
  torrent, here \<^verbatim>\<open>t/t/a\<close> and \<^verbatim>\<open>t/a\<close>, are mapped to one path, and bytes of the torrent with different
  positions to one location.
\<close>

theorem distinct_files_can_collide:
  "piece_to_paths (Some colliding_info) 0 = Inr [([''t'', ''a''], 0, 4)] \<and>
   piece_to_paths (Some colliding_info) 1 = Inr [([''t'', ''a''], 0, 4)]"
  by (simp add: colliding_info_def example_eval)

end
