(* ===== verification/Torrent_State.thy ===== *)
theory Torrent_State
  imports Prelude
begin

text \<open>The lifecycle states of a torrent, \<^verbatim>\<open>torrent/state.rs\<close>.\<close>

datatype torrent_state = Added | ResolvingMetadata | Ready | Downloading | Paused | Seeding | Restarting
  | Stopping | Stopped | Failed

definition is_transfer_active :: "torrent_state \<Rightarrow> bool" where
  "is_transfer_active s = (s \<in> {Downloading, Seeding})"

definition can_become_ready :: "torrent_state \<Rightarrow> bool" where
  "can_become_ready s = (s \<in> {Added, ResolvingMetadata, Ready})"

definition can_start :: "torrent_state \<Rightarrow> bool" where
  "can_start s = (s \<in> {Added, ResolvingMetadata, Ready, Paused})"

lemmas torrent_state_defs = is_transfer_active_def can_become_ready_def can_start_def

end
