(* ===== verification/Choking.thy ===== *)
theory Choking
  imports Torrent_State "HOL-Library.Product_Lexorder"
begin

text \<open>
  Upload slots, \<^verbatim>\<open>torrent/choking.rs\<close>: which peers are unchoked. Rates are \<^verbatim>\<open>u64\<close> and indices \<^verbatim>\<open>usize\<close>
  values as natural numbers, with the wrap-around of the rotation index written out. The
  comparison of the Rust sort, rate descending and then identifier ascending, is the sort key.
\<close>

record peer_stats =
  st_id :: peer_id
  st_interested :: bool
  st_client_choking :: bool
  st_download_rate :: nat
  st_upload_rate :: nat

record choking_scheduler =
  upload_slots :: nat
  optimistic_unchoke_rounds :: nat
  optimistic_index :: nat
  rounds_since_optimistic_rotation :: nat

record choking_decision =
  unchoked :: "peer_id list"
  optimistic :: "peer_id option"

section \<open>Operations\<close>

definition choking_new :: "nat \<Rightarrow> nat \<Rightarrow> choking_scheduler" where
  "choking_new slots rounds = \<lparr>upload_slots = slots, optimistic_unchoke_rounds = max rounds 1,
     optimistic_index = 0, rounds_since_optimistic_rotation = 0\<rparr>"

definition rate_for :: "torrent_state \<Rightarrow> peer_stats \<Rightarrow> nat" where
  "rate_for ts p =
     (case ts of Downloading \<Rightarrow> st_download_rate p | Seeding \<Rightarrow> st_upload_rate p | _ \<Rightarrow> 0)"

definition candidates :: "torrent_state \<Rightarrow> peer_stats list \<Rightarrow> peer_stats list" where
  "candidates ts peers =
     sort_key (\<lambda>p. (- int (rate_for ts p), st_id p)) (filter st_interested peers)"

definition select_unchoked_peers ::
  "peer_stats list \<Rightarrow> torrent_state \<Rightarrow> nat \<Rightarrow> nat \<Rightarrow> choking_decision" where
  "select_unchoked_peers peers ts slots index =
     (let cands = candidates ts peers
      in if slots = 0 then \<lparr>unchoked = [], optimistic = None\<rparr>
         else
           let reserve = length cands > slots;
               regular_slots = (if reserve then slots - 1 else slots);
               regular = map st_id (take regular_slots cands)
           in if reserve
              then let waiting = drop regular_slots cands;
                       peer = st_id (waiting ! (index mod length waiting))
                   in \<lparr>unchoked = regular @ [peer], optimistic = Some peer\<rparr>
              else \<lparr>unchoked = regular, optimistic = None\<rparr>)"

definition decide :: "peer_stats list \<Rightarrow> torrent_state \<Rightarrow> choking_scheduler \<Rightarrow> choking_scheduler \<times> choking_decision" where
  "decide peers ts s =
     (let decision = select_unchoked_peers peers ts (upload_slots s) (optimistic_index s)
      in (case optimistic decision of
            Some _ \<Rightarrow>
              let rounds = rounds_since_optimistic_rotation s + 1
              in if rounds \<ge> optimistic_unchoke_rounds s
                 then s\<lparr>rounds_since_optimistic_rotation := 0,
                        optimistic_index := (optimistic_index s + 1) mod 2 ^ 64\<rparr>
                 else s\<lparr>rounds_since_optimistic_rotation := rounds\<rparr>
          | None \<Rightarrow> s\<lparr>rounds_since_optimistic_rotation := 0, optimistic_index := 0\<rparr>,
          decision))"

section \<open>One decision\<close>

lemma set_candidates [simp]: "set (candidates ts peers) = {p \<in> set peers. st_interested p}"
  by (auto simp: candidates_def)

lemma candidates_sorted:
  "i < j \<Longrightarrow> j < length (candidates ts peers)
     \<Longrightarrow> rate_for ts (candidates ts peers ! j) \<le> rate_for ts (candidates ts peers ! i)"
proof -
  assume ij: "i < j" "j < length (candidates ts peers)"
  let ?k = "\<lambda>p. (- int (rate_for ts p), st_id p)"
  have "sorted (map ?k (candidates ts peers))" unfolding candidates_def by simp
  from sorted_nth_mono [OF this, of i j] ij
  have "?k (candidates ts peers ! i) \<le> ?k (candidates ts peers ! j)" by simp
  then show ?thesis by (auto simp: less_eq_prod_def)
qed

lemma distinct_candidates: "distinct (map st_id peers) \<Longrightarrow> distinct (map st_id (candidates ts peers))"
proof -
  assume "distinct (map st_id peers)"
  then have "distinct (map st_id (filter st_interested peers))" by (rule distinct_map_filter)
  moreover have "mset (map st_id (candidates ts peers)) = mset (map st_id (filter st_interested peers))"
    by (simp add: candidates_def)
  ultimately show ?thesis using mset_eq_imp_distinct_iff by blast
qed

lemma length_candidates [simp]: "length (candidates ts peers) = length (filter st_interested peers)"
  by (simp add: candidates_def)

lemma candidates_take_drop:
  assumes "p \<in> set (take k (candidates ts peers))" and "q \<in> set (drop k (candidates ts peers))"
  shows "rate_for ts q \<le> rate_for ts p"
proof -
  let ?l = "candidates ts peers"
  obtain i where i: "i < k" "i < length ?l" "p = ?l ! i"
    using assms(1) by (auto simp: in_set_conv_nth simp del: length_candidates)
  obtain j where "j < length ?l - k" "q = ?l ! (k + j)"
    using assms(2) by (auto simp: in_set_conv_nth simp del: length_candidates)
  then have j: "k + j < length ?l" "q = ?l ! (k + j)" by linarith+
  show ?thesis using candidates_sorted [of i "k + j" ts peers] i j by simp
qed

text \<open>The waiting candidates, from which the optimistic peer is drawn.\<close>

definition waiting :: "peer_stats list \<Rightarrow> torrent_state \<Rightarrow> nat \<Rightarrow> peer_stats list" where
  "waiting peers ts slots = drop (slots - 1) (candidates ts peers)"

lemma select_reserved:
  assumes "0 < slots" and "slots < length (candidates ts peers)"
  shows "waiting peers ts slots \<noteq> []"
    and "select_unchoked_peers peers ts slots index =
      (let peer = waiting peers ts slots ! (index mod length (waiting peers ts slots))
       in \<lparr>unchoked = map st_id (take (slots - 1) (candidates ts peers)) @ [st_id peer], optimistic = Some (st_id peer)\<rparr>)"
  using assms by (simp_all add: waiting_def select_unchoked_peers_def Let_def)

lemma select_unreserved:
  "0 < slots \<Longrightarrow> length (candidates ts peers) \<le> slots \<Longrightarrow> select_unchoked_peers peers ts slots index =
     \<lparr>unchoked = map st_id (candidates ts peers), optimistic = None\<rparr>"
  by (simp add: select_unchoked_peers_def Let_def)

text \<open>
  C17: a choking decision is right. It unchokes only interested peers, each once, and as many as
  there are slots or interested peers; if all interested peers fit, it unchokes all of them;
  otherwise no choked interested peer has a higher rate than a regularly unchoked one, and the
  optimistic peer is one that had no regular slot.
\<close>

theorem select_unchoked_right:
  fixes peers :: "peer_stats list" and ts :: torrent_state and slots index :: nat
  defines "d \<equiv> select_unchoked_peers peers ts slots index"
    and "n \<equiv> length (filter st_interested peers)"
  assumes "distinct (map st_id peers)" and "0 < slots"
  shows "set (unchoked d) \<subseteq> st_id ` {p \<in> set peers. st_interested p} \<and> distinct (unchoked d) \<and>
    length (unchoked d) = min slots n \<and>
    (n \<le> slots \<longrightarrow> set (unchoked d) = st_id ` {p \<in> set peers. st_interested p} \<and> optimistic d = None) \<and>
    (slots < n \<longrightarrow> (\<exists>p \<in> set (waiting peers ts slots). optimistic d = Some (st_id p)) \<and>
       (\<forall>p \<in> set peers. \<forall>q \<in> set peers. st_interested p \<longrightarrow> st_interested q \<longrightarrow>
          st_id p \<in> set (unchoked d) - set_option (optimistic d) \<longrightarrow> st_id q \<notin> set (unchoked d) \<longrightarrow>
          rate_for ts q \<le> rate_for ts p))"
proof (cases "slots < n")
  case False
  then have d: "d = \<lparr>unchoked = map st_id (candidates ts peers), optimistic = None\<rparr>"
    unfolding d_def n_def using assms(4) by (intro select_unreserved) simp_all
  show ?thesis using False distinct_candidates [OF assms(3), of ts] unfolding d by (auto simp: n_def)
next
  case True
  let ?l = "candidates ts peers" and ?w = "waiting peers ts slots"
  let ?o = "?w ! (index mod length ?w)"
  have reserve: "slots < length ?l" using True by (simp add: n_def)
  have d: "unchoked d = map st_id (take (slots - 1) ?l) @ [st_id ?o]" "optimistic d = Some (st_id ?o)"
    unfolding d_def using select_reserved(2) [OF assms(4) reserve] by (simp_all add: Let_def)
  have o: "?o \<in> set ?w" using select_reserved(1) [OF assms(4) reserve] by simp
  have sub: "set ?w \<subseteq> set ?l" by (auto simp: waiting_def dest: in_set_dropD)
  have dl: "distinct (map st_id (take (slots - 1) ?l @ ?w))"
    using distinct_candidates [OF assms(3), of ts] by (simp add: waiting_def)
  have inj: "p = q" if "p \<in> set ?l" "q \<in> set ?l" "st_id p = st_id q" for p q
    using that distinct_candidates [OF assms(3), of ts] by (auto simp: distinct_map inj_on_def)
  have dist: "distinct (unchoked d)" using dl o by (auto simp: d)
  have len: "length (unchoked d) = slots" using reserve assms(4) by (simp add: d)
  have in_set: "set (unchoked d) \<subseteq> st_id ` {p \<in> set peers. st_interested p}"
    using o sub by (auto simp: d dest!: in_set_takeD) 
  have rates: "rate_for ts q \<le> rate_for ts p"
    if "p \<in> set peers" "q \<in> set peers" "st_interested p" "st_interested q"
      and pu: "st_id p \<in> set (unchoked d) - set_option (optimistic d)" and qu: "st_id q \<notin> set (unchoked d)" for p q
  proof (rule candidates_take_drop)
    have pl: "p \<in> set ?l" "q \<in> set ?l" using that by simp_all
    obtain p' where "p' \<in> set (take (slots - 1) ?l)" "st_id p = st_id p'" using pu by (auto simp: d)
    with inj [OF pl(1)] show "p \<in> set (take (slots - 1) ?l)" by (metis in_set_takeD)
    have "q \<notin> set (take (slots - 1) ?l)" using qu by (auto simp: d)
    then show "q \<in> set (drop (slots - 1) ?l)"
      using pl(2) by (metis Un_iff append_take_drop_id set_append)
  qed
  show ?thesis using dist len in_set rates o d(2) True by (auto simp: min_def)
qed

section \<open>Rotation of the optimistic slot\<close>

fun decide_run :: "nat \<Rightarrow> peer_stats list \<Rightarrow> torrent_state \<Rightarrow> choking_scheduler \<Rightarrow> choking_scheduler" where
  "decide_run 0 peers ts s = s"
| "decide_run (Suc k) peers ts s = decide_run k peers ts (fst (decide peers ts s))"

lemma decide_reserved:
  assumes "0 < upload_slots s" and "upload_slots s < length (candidates ts peers)"
  shows "fst (decide peers ts s) =
    (if rounds_since_optimistic_rotation s + 1 \<ge> optimistic_unchoke_rounds s
     then s\<lparr>rounds_since_optimistic_rotation := 0, optimistic_index := (optimistic_index s + 1) mod 2 ^ 64\<rparr>
     else s\<lparr>rounds_since_optimistic_rotation := rounds_since_optimistic_rotation s + 1\<rparr>)"
  using select_reserved(2) [OF assms, of "optimistic_index s"] by (simp add: decide_def Let_def)

text \<open>After enough decisions to fill a round the index has moved on by one.\<close>

lemma decide_run_round:
  assumes "0 < upload_slots s" and "upload_slots s < length (candidates ts peers)"
    and "rounds_since_optimistic_rotation s + k = optimistic_unchoke_rounds s" and "0 < k"
  shows "decide_run k peers ts s =
    s\<lparr>rounds_since_optimistic_rotation := 0, optimistic_index := (optimistic_index s + 1) mod 2 ^ 64\<rparr>"
  using assms
proof (induction k arbitrary: s)
  case (Suc k)
  show ?case
  proof (cases k)
    case 0
    then show ?thesis using Suc.prems by (simp add: decide_reserved)
  next
    case (Suc k')
    let ?s = "s\<lparr>rounds_since_optimistic_rotation := rounds_since_optimistic_rotation s + 1\<rparr>"
    have "fst (decide peers ts s) = ?s" using Suc.prems Suc by (simp add: decide_reserved)
    then show ?thesis using Suc.IH [of ?s] Suc.prems Suc by simp
  qed
qed simp

lemma decide_run_add: "decide_run (a + b) peers ts s = decide_run b peers ts (decide_run a peers ts s)"
  by (induction a arbitrary: s) auto

lemma decide_run_rounds:
  assumes "0 < upload_slots s" and "upload_slots s < length (candidates ts peers)"
    and "rounds_since_optimistic_rotation s = 0" and "0 < optimistic_unchoke_rounds s"
    and "optimistic_index s + k < 2 ^ 64"
  shows "decide_run (k * optimistic_unchoke_rounds s) peers ts s = s\<lparr>optimistic_index := optimistic_index s + k\<rparr>"
  using assms
proof (induction k)
  case (Suc k)
  let ?r = "optimistic_unchoke_rounds s" and ?s = "s\<lparr>optimistic_index := optimistic_index s + k\<rparr>"
  have "decide_run (k * ?r) peers ts s = ?s" using Suc by simp
  moreover have "decide_run ?r peers ts ?s = s\<lparr>optimistic_index := optimistic_index s + Suc k\<rparr>"
    using decide_run_round [of ?s ts peers ?r] Suc.prems by (cases s) simp
  ultimately show ?case by (simp add: decide_run_add add.commute [of ?r])
qed simp

text \<open>
  C18: the optimistic slot starves nobody. While the interested peers and their order stay the same
  and do not all fit, every waiting peer gets the optimistic slot within one rotation through them,
  that is within the number of waiting peers times the rounds per rotation.
\<close>

theorem optimistic_slot_fair:
  assumes "0 < upload_slots s" and "upload_slots s < length (filter st_interested peers)"
    and "rounds_since_optimistic_rotation s = 0" and "0 < optimistic_unchoke_rounds s"
    and "optimistic_index s + length (waiting peers ts (upload_slots s)) < 2 ^ 64"
    and p: "p \<in> set (waiting peers ts (upload_slots s))"
  shows "\<exists>k < length (waiting peers ts (upload_slots s)) * optimistic_unchoke_rounds s.
    optimistic (snd (decide peers ts (decide_run k peers ts s))) = Some (st_id p)"
proof -
  let ?w = "waiting peers ts (upload_slots s)" and ?r = "optimistic_unchoke_rounds s"
  let ?n = "length ?w" and ?i = "optimistic_index s"
  have reserve: "upload_slots s < length (candidates ts peers)" using assms(2) by simp
  obtain j where j: "j < ?n" "p = ?w ! j" using p by (auto simp: in_set_conv_nth)
  define m where "m = (j + ?n - ?i mod ?n) mod ?n"
  have n: "0 < ?n" using j(1) by linarith
  have m: "m < ?n" using n by (simp add: m_def)
  have "(?i + m) mod ?n = (?i mod ?n + (j + ?n - ?i mod ?n)) mod ?n"
    unfolding m_def by (simp add: mod_simps)
  also have "?i mod ?n + (j + ?n - ?i mod ?n) = j + ?n"
    using mod_less_divisor [OF n, of ?i] by linarith
  finally have hit: "(?i + m) mod ?n = j" using j(1) by simp
  have "decide_run (m * ?r) peers ts s = s\<lparr>optimistic_index := ?i + m\<rparr>"
    using assms m by (intro decide_run_rounds) simp_all
  then have "optimistic (snd (decide peers ts (decide_run (m * ?r) peers ts s))) = Some (st_id p)"
    using select_reserved(2) [OF assms(1) reserve, of "?i + m"] hit j(2) by (simp add: decide_def Let_def)
  moreover have "m * ?r < ?n * ?r" using m assms(4) by simp
  ultimately show ?thesis by blast
qed

definition example_stats :: "byte \<Rightarrow> nat \<Rightarrow> peer_stats" where
  "example_stats b rate = \<lparr>st_id = [b], st_interested = True, st_client_choking = True,
     st_download_rate = rate, st_upload_rate = 0\<rparr>"

definition example_stats_list :: "peer_stats list" where
  "example_stats_list = [example_stats 1 5, example_stats 2 9, example_stats 3 7]"

lemma example_waiting: "waiting example_stats_list Downloading 2 = [example_stats 3 7, example_stats 1 5]"
  by code_simp

theorem select_unchoked_right_witness:
  "[2] \<in> set (unchoked (select_unchoked_peers example_stats_list Downloading 2 0)) \<and>
   length (unchoked (select_unchoked_peers example_stats_list Downloading 2 0)) = 2"
proof -
  have pre: "distinct (map st_id example_stats_list)" "0 < (2::nat)" by code_simp+
  have "[2] \<in> set (unchoked (select_unchoked_peers example_stats_list Downloading 2 0))" by code_simp
  with select_unchoked_right [OF pre, of Downloading 0] show ?thesis
    by (simp add: example_stats_list_def example_stats_def)
qed

theorem optimistic_slot_fair_witness:
  "\<exists>k < 2 * 2. optimistic (snd (decide example_stats_list Downloading
     (decide_run k example_stats_list Downloading (choking_new 2 2)))) = Some [1]"
proof -
  let ?s = "choking_new 2 2"
  have s: "upload_slots ?s = 2" "optimistic_unchoke_rounds ?s = 2" "optimistic_index ?s = 0"
    "rounds_since_optimistic_rotation ?s = 0"
    by (simp_all add: choking_new_def)
  have n: "length (filter st_interested example_stats_list) = 3" by code_simp
  have id: "st_id (example_stats 1 5) = [1]" by (simp add: example_stats_def)
  have two: "length [example_stats 3 7, example_stats 1 5] = 2" by simp
  show ?thesis
    using optimistic_slot_fair [of ?s example_stats_list Downloading "example_stats 1 5"]
    unfolding s example_waiting id two n by simp
qed

end
