(* ===== verification/Torrent.thy ===== *)
theory Torrent
  imports Piece_Scheduler Piece_Manager Choking
begin

text \<open>
  The torrent actor: its state (\<^verbatim>\<open>torrent/actor.rs\<close>), request windows (\<^verbatim>\<open>torrent/piece_flow.rs\<close>), peer and
  tracker broadcasts (\<^verbatim>\<open>torrent/swarm.rs\<close>), progress accounting and rechoking (\<^verbatim>\<open>torrent/choking_flow.rs\<close>).

  A handler maps the actor's state to the new state and the list of messages it sends, in program
  order. The peer table is the list of its keys. Output files and the piece cache are part of the
  state; a cache file is named after the hash of its piece, so the cache is a map from directories
  and hashes.
  What other actors, crates and the file system answer is gathered in a record \<open>env\<close>: which peers and
  trackers are alive and accept a message in their mailbox, the statistics of peers, the clock, SHA-1,
  bencode, the outcome of a custom piece manager and of creating a directory. The live view, which only mirrors the state, is left out.
\<close>

datatype tracker = Http string | Udp string | Websocket string

datatype storage_strategy = InFile | Disk rel_path

datatype manager_proxy = DefaultManager file_piece_manager | CustomManager

datatype tracker_event = EmptyEvent | StartedEvent | CompletedEvent | StoppedEvent

datatype tracker_update = UpdUploaded nat | UpdDownloaded nat | UpdLeft nat | UpdEvent tracker_event

datatype torrent_effect =
    NeedPiece peer_id nat nat nat
  | CancelPiece peer_id nat nat nat
  | HavePiece peer_id nat
  | HaveInfoDict peer_id "bool list"
  | SetChoked peer_id bool
  | KillPeer peer_id
  | TellTracker tracker tracker_update
  | TrackerAnnounce tracker
  | StopTracker tracker
  | FireReadyHooks nat
  | KillTracker tracker
  | ScheduleRechoke
  | AbortRechoke

record torrent_settings =
  ts_initial_window :: nat
  ts_max_in_flight :: nat
  ts_request_timeout :: duration

record torrent_actor =
  ta_peers :: "peer_id list"
  ta_trackers :: "tracker list"
  ta_bitfield :: "bool list"
  ta_info_hash :: hash
  ta_resolved :: "torrent_info option"
  ta_metainfo :: "tracker meta_info"
  ta_storage :: storage_strategy
  ta_manager :: manager_proxy
  ta_files :: file_store
  ta_cache :: "rel_path \<times> hash \<rightharpoonup> byte list"
  ta_state :: torrent_state
  ta_sched :: piece_scheduler
  ta_choking :: choking_scheduler
  ta_rechoke :: bool
  ta_start_time :: "instant option"
  ta_sufficient_peers :: nat
  ta_autostart :: bool
  ta_pending_start :: bool
  ta_ready_hooks :: nat
  ta_settings :: torrent_settings

record torrent_env =
  env_alive :: "peer_id \<Rightarrow> bool"
  env_tracker_alive :: "tracker \<Rightarrow> bool"
  env_tracker_accepts :: "tracker \<Rightarrow> bool"
  env_accepts :: "peer_id \<Rightarrow> block_key \<Rightarrow> bool"
  env_stats :: "peer_id \<Rightarrow> peer_stats option"
  env_now :: instant
  env_clock :: "nat \<Rightarrow> instant"
  env_sha1 :: "byte list \<Rightarrow> hash"
  env_info_hash :: "torrent_info \<Rightarrow> string + hash"
  env_decode_info :: "byte list \<Rightarrow> string + torrent_info"
  env_custom_ok :: bool
  env_dir_ok :: "rel_path \<Rightarrow> bool"

type_synonym torrent_action = "torrent_actor \<Rightarrow> torrent_actor \<times> torrent_effect list"

text \<open>Sequencing of handlers.\<close>

definition then_do :: "torrent_action \<Rightarrow> torrent_action \<Rightarrow> torrent_action" where
  "then_do f g t = (let (t1, e1) = f t; (t2, e2) = g t1 in (t2, e1 @ e2))"

definition emit :: "torrent_effect list \<Rightarrow> torrent_action" where
  "emit es t = (t, es)"

lemma then_do_simps [simp]:
  "fst (then_do f g t) = fst (g (fst (f t)))" "snd (then_do f g t) = snd (f t) @ snd (g (fst (f t)))"
  by (simp_all add: then_do_def split_beta Let_def)

lemma emit_simps [simp]: "fst (emit es t) = t" "snd (emit es t) = es"
  by (simp_all add: emit_def)

section \<open>State queries\<close>

definition info_dict :: "torrent_actor \<Rightarrow> torrent_info option" where
  "info_dict t = (case ta_metainfo t of MTorrent f \<Rightarrow> Some (tf_info f) | MMagnet _ \<Rightarrow> ta_resolved t)"

definition torrent_is_empty :: "torrent_actor \<Rightarrow> bool" where
  "torrent_is_empty t = (length (filter (\<lambda>b. \<not> b) (ta_bitfield t)) = length (ta_bitfield t))"

definition torrent_is_full :: "torrent_actor \<Rightarrow> bool" where
  "torrent_is_full t = (length (filter (\<lambda>b. b) (ta_bitfield t)) = length (ta_bitfield t))"

definition is_ready :: "torrent_actor \<Rightarrow> bool" where
  "is_ready t = (info_dict t \<noteq> None \<and> length (ta_peers t) \<ge> ta_sufficient_peers t)"

definition is_ready_to_start :: "torrent_actor \<Rightarrow> bool" where
  "is_ready_to_start t = (is_ready t \<and> can_become_ready (ta_state t))"

definition transition_state :: "torrent_state \<Rightarrow> torrent_actor \<Rightarrow> torrent_actor" where
  "transition_state s t = (if ta_state t = s then t else t\<lparr>ta_state := s\<rparr>)"

lemma transition_state_eq: "transition_state s t = t\<lparr>ta_state := s\<rparr>"
  by (simp add: transition_state_def)

section \<open>Progress\<close>

definition last_piece_len :: "torrent_info \<Rightarrow> nat" where
  "last_piece_len info =
     (if total_length info mod info_piece_length info = 0 then info_piece_length info
      else total_length info mod info_piece_length info)"

definition bitfield_piece_len :: "torrent_info \<Rightarrow> nat \<Rightarrow> nat \<Rightarrow> nat" where
  "bitfield_piece_len info num_pieces i =
     (if i = num_pieces - 1 then last_piece_len info else info_piece_length info)"

text \<open>The loop over the blocks of a partial piece, with its running offset.\<close>

primrec partial_bytes :: "nat \<Rightarrow> bool list \<Rightarrow> nat \<Rightarrow> nat \<Rightarrow> nat" where
  "partial_bytes piece_size [] piece_offset bytes = bytes"
| "partial_bytes piece_size (b # bs) piece_offset bytes =
     partial_bytes piece_size bs
       (saturating_add piece_offset (min BLOCK_SIZE (piece_size - piece_offset)))
       (if b then saturating_add bytes (min (piece_size - piece_offset) BLOCK_SIZE) else bytes)"

text \<open>
  The second loop of the source runs over the entries of a hash map and adds; the model runs over
  the piece indices it accepts, in ascending order.
\<close>

definition total_bytes_downloaded :: "torrent_actor \<Rightarrow> nat option" where
  "total_bytes_downloaded t =
     (case info_dict t of
        None \<Rightarrow> None
      | Some info \<Rightarrow>
          (let num_pieces = length (ta_bitfield t);
               complete = foldl (\<lambda>total i. if ta_bitfield t ! i
                   then saturating_add total (bitfield_piece_len info num_pieces i) else total)
                 0 [0..<num_pieces]
           in Some (foldl (\<lambda>total i.
                case completed_blocks (ta_sched t) i of
                  None \<Rightarrow> total
                | Some blocks \<Rightarrow>
                    if \<not> ta_bitfield t ! i
                    then partial_bytes (bitfield_piece_len info num_pieces i) blocks 0 total else total)
              complete [0..<num_pieces])))"

definition tracker_announce_progress :: "torrent_actor \<Rightarrow> (nat \<times> nat) option" where
  "tracker_announce_progress t =
     (case info_dict t of
        None \<Rightarrow> None
      | Some info \<Rightarrow>
          (case total_bytes_downloaded t of
             None \<Rightarrow> None
           | Some n \<Rightarrow>
               let downloaded = min n (total_length info)
               in Some (downloaded, total_length info - downloaded)))"

text \<open>
  Broadcasts to the tracker actors: live ones receive the message, dead ones are dropped from the
  table.
\<close>

definition tell_trackers :: "torrent_env \<Rightarrow> (tracker \<Rightarrow> torrent_effect) \<Rightarrow> torrent_action" where
  "tell_trackers env msg t =
     (let live = filter (env_tracker_alive env) (ta_trackers t)
      in (t\<lparr>ta_trackers := live\<rparr>, map msg live))"

definition update_trackers :: "torrent_env \<Rightarrow> tracker_update \<Rightarrow> torrent_action" where
  "update_trackers env u = tell_trackers env (\<lambda>tr. TellTracker tr u)"

definition update_trackers_best_effort :: "torrent_env \<Rightarrow> tracker_update \<Rightarrow> torrent_action" where
  "update_trackers_best_effort env u = tell_trackers env (\<lambda>tr. TellTracker tr u)"

definition broadcast_to_trackers :: "torrent_env \<Rightarrow> torrent_action" where
  "broadcast_to_trackers env = tell_trackers env TrackerAnnounce"

definition update_tracker_progress :: "torrent_env \<Rightarrow> torrent_action" where
  "update_tracker_progress env t =
     (case tracker_announce_progress t of
        None \<Rightarrow> (t, [])
      | Some (downloaded, left) \<Rightarrow>
          then_do (update_trackers env (UpdDownloaded downloaded)) (update_trackers env (UpdLeft left)) t)"

definition try_update_tracker_progress :: "torrent_env \<Rightarrow> torrent_action" where
  "try_update_tracker_progress env t =
     (case tracker_announce_progress t of
        None \<Rightarrow> (t, [])
      | Some (downloaded, left) \<Rightarrow>
          then_do (update_trackers_best_effort env (UpdDownloaded downloaded))
            (update_trackers_best_effort env (UpdLeft left)) t)"

definition announce_tracker_event :: "torrent_env \<Rightarrow> tracker_event \<Rightarrow> torrent_action" where
  "announce_tracker_event env e =
     then_do (update_trackers env (UpdEvent e))
       (then_do (broadcast_to_trackers env) (update_trackers env (UpdEvent EmptyEvent)))"

lemma tell_trackers_simps [simp]:
  "fst (tell_trackers env msg t) = t\<lparr>ta_trackers := filter (env_tracker_alive env) (ta_trackers t)\<rparr>"
  "snd (tell_trackers env msg t) = map msg (filter (env_tracker_alive env) (ta_trackers t))"
  by (simp_all add: tell_trackers_def Let_def)

lemmas tracker_broadcasts = update_trackers_def update_trackers_best_effort_def broadcast_to_trackers_def

text \<open>A broadcast only filters the tracker table, and reaches exactly the live trackers.\<close>

lemma announce_event_simps:
  "fst (announce_tracker_event env e t) = t\<lparr>ta_trackers := filter (env_tracker_alive env) (ta_trackers t)\<rparr>"
  "TellTracker tr (UpdEvent e) \<in> set (snd (announce_tracker_event env e t))
     \<longleftrightarrow> tr \<in> set (ta_trackers t) \<and> env_tracker_alive env tr"
  "TrackerAnnounce tr \<in> set (snd (announce_tracker_event env e t))
     \<longleftrightarrow> tr \<in> set (ta_trackers t) \<and> env_tracker_alive env tr"
  by (auto simp: announce_tracker_event_def tracker_broadcasts)

lemma progress_frame:
  "\<exists>trs. fst (update_tracker_progress env t) = t\<lparr>ta_trackers := trs\<rparr>
     \<and> {tr \<in> set trs. env_tracker_alive env tr} = {tr \<in> set (ta_trackers t). env_tracker_alive env tr}"
  "\<exists>trs. fst (try_update_tracker_progress env t) = t\<lparr>ta_trackers := trs\<rparr>"
  by (cases "tracker_announce_progress t";
      auto simp: update_tracker_progress_def try_update_tracker_progress_def tracker_broadcasts
        intro: exI [of _ "ta_trackers t"])+

text \<open>Progress updates tell trackers the progress and nothing else.\<close>

lemma progress_effects:
  "e \<in> set (snd (update_tracker_progress env t)) \<Longrightarrow> \<exists>tr n. e = TellTracker tr (UpdDownloaded n) \<or> e = TellTracker tr (UpdLeft n)"
  "e \<in> set (snd (try_update_tracker_progress env t)) \<Longrightarrow> \<exists>tr n. e = TellTracker tr (UpdDownloaded n) \<or> e = TellTracker tr (UpdLeft n)"
  by (auto simp: update_tracker_progress_def try_update_tracker_progress_def tracker_broadcasts split: option.splits)

section \<open>Peers\<close>

datatype torrent_error = PeerAlreadyConnected peer_id | PeerNotFound peer_id | MissingPeerId
  | InvalidOperation string | TrackerAlreadyExists tracker | TrackerNotFound tracker | UnsupportedTrackerProtocol
  | ActorCommunicationFailed | FileIoError | InvalidSnapshot string | SnapshotUnsupported

definition insert_peer :: "peer_id option \<Rightarrow> torrent_actor \<Rightarrow> (torrent_error + peer_id) \<times> torrent_actor" where
  "insert_peer peer t =
     (case peer of
        None \<Rightarrow> (Inl MissingPeerId, t)
      | Some i \<Rightarrow>
          if i \<in> set (ta_peers t) then (Inl (PeerAlreadyConnected i), t)
          else (Inr i, t\<lparr>ta_peers := ta_peers t @ [i]\<rparr>))"

definition remove_peer :: "peer_id \<Rightarrow> torrent_actor \<Rightarrow> torrent_actor \<times> torrent_effect list \<times> bool" where
  "remove_peer i t =
     (let t1 = t\<lparr>ta_sched := peer_disconnected i (ta_sched t)\<rparr>
      in if i \<in> set (ta_peers t) then (t1\<lparr>ta_peers := removeAll i (ta_peers t)\<rparr>, [KillPeer i], True)
         else (t1, [], False))"

definition broadcast_to_peers :: "torrent_env \<Rightarrow> (peer_id \<Rightarrow> torrent_effect) \<Rightarrow> torrent_action" where
  "broadcast_to_peers env msg t =
     (t\<lparr>ta_peers := filter (env_alive env) (ta_peers t)\<rparr>, map msg (filter (env_alive env) (ta_peers t)))"

definition broadcast_to_peers_best_effort :: "torrent_env \<Rightarrow> (peer_id \<Rightarrow> torrent_effect) \<Rightarrow> torrent_action" where
  "broadcast_to_peers_best_effort env msg t =
     (let dead = filter (\<lambda>i. \<not> env_alive env i) (ta_peers t)
      in (t\<lparr>ta_peers := filter (env_alive env) (ta_peers t), ta_sched := fold peer_disconnected dead (ta_sched t)\<rparr>,
          map msg (filter (env_alive env) (ta_peers t))))"

section \<open>Request windows\<close>

definition send_request ::
  "torrent_env \<Rightarrow> peer_id \<Rightarrow> block_request \<Rightarrow> piece_scheduler \<Rightarrow> piece_scheduler \<times> torrent_effect list" where
  "send_request env p r s =
     (if env_accepts env p (br_key r)
      then (s, [NeedPiece p (br_piece r) (br_offset r) (br_length r)])
      else (release_peer_request p (br_piece r) (br_offset r) s, []))"

primrec send_requests ::
  "torrent_env \<Rightarrow> peer_id \<Rightarrow> block_request list \<Rightarrow> piece_scheduler \<Rightarrow> piece_scheduler \<times> torrent_effect list" where
  "send_requests env p [] s = (s, [])"
| "send_requests env p (r # rs) s =
     (let (s1, e1) = send_request env p r s; (s2, e2) = send_requests env p rs s1 in (s2, e1 @ e2))"

definition fill_window_to :: "torrent_env \<Rightarrow> peer_id \<Rightarrow> nat \<Rightarrow> torrent_action" where
  "fill_window_to env p target t =
     (if ta_state t \<noteq> Downloading \<or> \<not> is_ready t then (t, [])
      else case info_dict t of
        None \<Rightarrow> (t, [])
      | Some info \<Rightarrow>
          if p \<notin> set (ta_peers t) then (t, [])
          else
            let slots = target - in_flight_for_peer (ta_sched t) p
            in if slots = 0 then (t, [])
               else let (s, requests) = requests_for_peer p (env_clock env) slots (info_piece_length info)
                          (total_length info) (ta_sched t);
                        (s', es) = send_requests env p requests s
                    in (t\<lparr>ta_sched := s'\<rparr>, es))"

definition fill_initial_peer_request_window :: "torrent_env \<Rightarrow> peer_id \<Rightarrow> torrent_action" where
  "fill_initial_peer_request_window env p t = fill_window_to env p (ts_initial_window (ta_settings t)) t"

definition fill_peer_request_window :: "torrent_env \<Rightarrow> peer_id \<Rightarrow> torrent_action" where
  "fill_peer_request_window env p t = fill_window_to env p (ts_max_in_flight (ta_settings t)) t"

primrec for_peers :: "(peer_id \<Rightarrow> torrent_action) \<Rightarrow> peer_id list \<Rightarrow> torrent_action" where
  "for_peers f [] t = (t, [])"
| "for_peers f (p # ps) t = then_do (f p) (for_peers f ps) t"

definition fill_all_peer_request_windows :: "torrent_env \<Rightarrow> torrent_action" where
  "fill_all_peer_request_windows env t =
     (if ta_state t \<noteq> Downloading \<or> \<not> is_ready t then (t, [])
      else for_peers (fill_peer_request_window env) (ta_peers t) t)"

section \<open>Rechoking\<close>

definition collect_stats :: "torrent_env \<Rightarrow> torrent_actor \<Rightarrow> peer_stats list" where
  "collect_stats env t = List.map_filter (env_stats env) (filter (env_alive env) (ta_peers t))"

definition choke_effects :: "peer_id list \<Rightarrow> peer_id list \<Rightarrow> peer_stats list \<Rightarrow> torrent_effect list" where
  "choke_effects peers unchoked_ids stats =
     List.map_filter (\<lambda>st. let choked = st_id st \<notin> set unchoked_ids
        in if st_client_choking st = choked \<or> st_id st \<notin> set peers then None
           else Some (SetChoked (st_id st) choked)) stats"

definition rechoke_peers :: "torrent_env \<Rightarrow> torrent_action" where
  "rechoke_peers env t =
     (if \<not> is_transfer_active (ta_state t) then (t, [])
      else
        let stats = collect_stats env t;
            t1 = t\<lparr>ta_sched := fst (release_stale_requests (env_now env) (ts_request_timeout (ta_settings t)) (ta_sched t))\<rparr>;
            (t2, e1) = try_update_tracker_progress env t1;
            (ck, decision) = decide stats (ta_state t2) (ta_choking t2);
            t3 = t2\<lparr>ta_choking := ck\<rparr>;
            (t4, e2) = fill_all_peer_request_windows env t3
        in (t4, e1 @ choke_effects (ta_peers t3) (unchoked decision) stats @ e2))"

definition schedule_next_rechoke :: torrent_action where
  "schedule_next_rechoke t =
     (if \<not> is_transfer_active (ta_state t) then (t, [])
      else (t\<lparr>ta_rechoke := True\<rparr>, (if ta_rechoke t then [AbortRechoke] else []) @ [ScheduleRechoke]))"

section \<open>What the window functions do to the scheduler\<close>

lemma owner_release_peer:
  "owner (in_flight (release_peer_request p i off s)) =
     (if \<exists>r. owner (in_flight s) (i, off div BLOCK_SIZE) = Some r \<and> ifb_peer r = p
      then (owner (in_flight s))((i, off div BLOCK_SIZE) := None) else owner (in_flight s))"
  by (auto simp: release_peer_request_def Let_def in_flight_at_owner owner_remove split: option.splits)

lemma br_offset_block [simp]: "br_offset r div BLOCK_SIZE = br_block r"
  by (simp add: br_offset_def)

definition need_piece :: "peer_id \<Rightarrow> block_request \<Rightarrow> torrent_effect" where
  "need_piece p r = NeedPiece p (br_piece r) (br_offset r) (br_length r)"

lemma send_requests_exact:
  assumes "sched_inv s" and "distinct (map br_key rs)"
    and "\<forall>r \<in> set rs. \<exists>q. owner (in_flight s) (br_key r) = Some q \<and> ifb_peer q = p"
  shows "sched_inv (fst (send_requests env p rs s)) \<and>
    snd (send_requests env p rs s) = map (need_piece p) (filter (\<lambda>r. env_accepts env p (br_key r)) rs) \<and>
    (\<forall>k. owner (in_flight (fst (send_requests env p rs s))) k =
       (if k \<in> br_key ` {r \<in> set rs. \<not> env_accepts env p (br_key r)} then None else owner (in_flight s) k))"
  using assms
proof (induction rs arbitrary: s)
  case (Cons r rs)
  let ?s = "fst (send_request env p r s)"
  have own: "\<exists>q. owner (in_flight s) (br_key r) = Some q \<and> ifb_peer q = p" using Cons.prems(3) by simp
  have inv: "sched_inv ?s" using Cons.prems(1) by (auto simp: send_request_def intro: inv_intros)
  have o: "owner (in_flight ?s) = (if env_accepts env p (br_key r) then owner (in_flight s)
      else (owner (in_flight s))(br_key r := None))"
    using own by (auto simp: send_request_def owner_release_peer br_key_def)
  have keys: "br_key r \<notin> br_key ` set rs" "distinct (map br_key rs)" using Cons.prems(2) by auto
  then have rest: "\<forall>x \<in> set rs. \<exists>q. owner (in_flight ?s) (br_key x) = Some q \<and> ifb_peer q = p"
    using Cons.prems(3) o by (auto simp: image_iff)
  have eff: "snd (send_request env p r s) = (if env_accepts env p (br_key r) then [need_piece p r] else [])"
    by (simp add: send_request_def need_piece_def)
  have step: "send_requests env p (r # rs) s
      = (fst (send_requests env p rs ?s), snd (send_request env p r s) @ snd (send_requests env p rs ?s))"
    by (simp add: split_beta Let_def)
  show ?case
    using Cons.IH [OF inv keys(2) rest] o eff keys(1) unfolding step by auto
qed simp

lemma fill_window_cases:
  obtains "fill_window_to env p target t = (t, [])"
  | info s requests where "ta_state t = Downloading" "is_ready t" "info_dict t = Some info" "p \<in> set (ta_peers t)"
      "in_flight_for_peer (ta_sched t) p < target"
      "requests_for_peer p (env_clock env) (target - in_flight_for_peer (ta_sched t) p) (info_piece_length info)
         (total_length info) (ta_sched t) = (s, requests)"
      "fill_window_to env p target t = (t\<lparr>ta_sched := fst (send_requests env p requests s)\<rparr>,
         snd (send_requests env p requests s))"
proof (cases "ta_state t \<noteq> Downloading \<or> \<not> is_ready t \<or> info_dict t = None \<or> p \<notin> set (ta_peers t) \<or>
    target - in_flight_for_peer (ta_sched t) p = 0")
  case True
  then have "fill_window_to env p target t = (t, [])"
    by (auto simp: fill_window_to_def Let_def split: option.splits)
  with that(1) show ?thesis .
next
  case False
  then obtain info where "info_dict t = Some info" by auto
  with False show ?thesis
    by (intro that(2) [OF _ _ _ _ _ surjective_pairing]) (auto simp: fill_window_to_def Let_def split_beta)
qed

text \<open>Metadata a torrent can be run with: pieces have a length.\<close>

definition info_ok :: "torrent_actor \<Rightarrow> bool" where
  "info_ok t = (\<forall>info. info_dict t = Some info \<longrightarrow> 0 < info_piece_length info)"

lemma fill_window_sched:
  assumes inv: "sched_inv (ta_sched t)" and ok: "info_ok t"
  shows "\<exists>rs. snd (fill_window_to env p target t) = map (need_piece p) rs \<and> distinct (map br_key rs) \<and>
    sched_inv (ta_sched (fst (fill_window_to env p target t))) \<and>
    fst (fill_window_to env p target t) = t\<lparr>ta_sched := ta_sched (fst (fill_window_to env p target t))\<rparr> \<and>
    (\<forall>r \<in> set rs. owner (in_flight (ta_sched t)) (br_key r) = None \<and>
       (\<exists>q. owner (in_flight (ta_sched (fst (fill_window_to env p target t)))) (br_key r) = Some q \<and> ifb_peer q = p)) \<and>
    (\<forall>k. k \<notin> br_key ` set rs \<longrightarrow>
       owner (in_flight (ta_sched (fst (fill_window_to env p target t)))) k = owner (in_flight (ta_sched t)) k) \<and>
    length rs \<le> target - in_flight_for_peer (ta_sched t) p"
proof (cases rule: fill_window_cases [of env p target t])
  case 1
  then show ?thesis using inv by (intro exI [of _ "[]"]) simp
next
  case (2 info s requests)
  let ?ok = "\<lambda>r. env_accepts env p (br_key r)"
  have pl: "0 < info_piece_length info" using ok 2(3) by (simp add: info_ok_def)
  note sound = requests_sound [OF inv pl 2(6)]
  have sinv: "sched_inv s" using sched_inv_requests [OF inv] 2(6) by (metis fst_conv)
  have each: "\<forall>r \<in> set requests. owner (in_flight (ta_sched t)) (br_key r) = None \<and>
      (\<exists>q. owner (in_flight s) (br_key r) = Some q \<and> ifb_peer q = p)"
    using sound by (auto simp: wanted_def split_beta)
  have others: "\<forall>k. k \<notin> br_key ` set requests \<longrightarrow> owner (in_flight s) k = owner (in_flight (ta_sched t)) k"
    and dist: "distinct (map br_key requests)" and len: "length requests \<le> target - in_flight_for_peer (ta_sched t) p"
    using sound by blast+
  note sent = send_requests_exact [OF sinv dist, of p env]
  have sent': "sched_inv (fst (send_requests env p requests s))"
    "snd (send_requests env p requests s) = map (need_piece p) (filter ?ok requests)"
    "\<forall>k. owner (in_flight (fst (send_requests env p requests s))) k =
       (if k \<in> br_key ` {r \<in> set requests. \<not> ?ok r} then None else owner (in_flight s) k)"
    using sent each by blast+
  have inj: "br_key r \<notin> br_key ` {x \<in> set requests. \<not> ?ok x}" if "r \<in> set requests" "?ok r" for r
    using that by (auto simp: image_iff)
  have new: "\<forall>r \<in> set (filter ?ok requests). owner (in_flight (ta_sched t)) (br_key r) = None \<and>
      (\<exists>q. owner (in_flight (fst (send_requests env p requests s))) (br_key r) = Some q \<and> ifb_peer q = p)"
  proof
    fix r
    assume r: "r \<in> set (filter ?ok requests)"
    then have "owner (in_flight (fst (send_requests env p requests s))) (br_key r) = owner (in_flight s) (br_key r)"
      using spec [OF sent'(3), of "br_key r"] inj [of r] by simp
    with each r show "owner (in_flight (ta_sched t)) (br_key r) = None \<and>
        (\<exists>q. owner (in_flight (fst (send_requests env p requests s))) (br_key r) = Some q \<and> ifb_peer q = p)"
      by simp
  qed
  have frame: "owner (in_flight (fst (send_requests env p requests s))) k = owner (in_flight (ta_sched t)) k"
    if "k \<notin> br_key ` set (filter ?ok requests)" for k
  proof (cases "k \<in> br_key ` set requests")
    case True
    then obtain r where "r \<in> set requests" "k = br_key r" "\<not> ?ok r" using \<open>k \<notin> _\<close> by auto
    then show ?thesis using each spec [OF sent'(3), of k] by auto
  next
    case False
    then show ?thesis using spec [OF others, of k] spec [OF sent'(3), of k] by auto
  qed
  show ?thesis
    unfolding 2(7)
    using sent'(1,2) new frame dist le_trans [OF length_filter_le [of ?ok requests] len]
    by (intro exI [of _ "filter ?ok requests"]) (auto simp: distinct_map_filter)
qed

lemma fill_window_held:
  assumes "sched_inv (ta_sched t)" and "info_ok t"
  shows "held_by (owner (in_flight (ta_sched (fst (fill_window_to env p target t))))) q =
    (if q = p then held_by (owner (in_flight (ta_sched t))) p \<union>
       {(i, off div BLOCK_SIZE) | i off len. NeedPiece p i off len \<in> set (snd (fill_window_to env p target t))}
     else held_by (owner (in_flight (ta_sched t))) q)"
    and "in_flight_for_peer (ta_sched (fst (fill_window_to env p target t))) q =
      (if q = p then in_flight_for_peer (ta_sched t) p + length (snd (fill_window_to env p target t))
       else in_flight_for_peer (ta_sched t) q)"
    and "in_flight_for_peer (ta_sched t) p + length (snd (fill_window_to env p target t))
      \<le> max target (in_flight_for_peer (ta_sched t) p)"
    and "sched_inv (ta_sched (fst (fill_window_to env p target t)))"
proof -
  let ?own = "owner (in_flight (ta_sched t))"
  let ?own' = "owner (in_flight (ta_sched (fst (fill_window_to env p target t))))"
  obtain rs where rs: "snd (fill_window_to env p target t) = map (need_piece p) rs" "distinct (map br_key rs)"
      "sched_inv (ta_sched (fst (fill_window_to env p target t)))"
      "\<forall>r \<in> set rs. ?own (br_key r) = None \<and> (\<exists>q. ?own' (br_key r) = Some q \<and> ifb_peer q = p)"
      "\<forall>k. k \<notin> br_key ` set rs \<longrightarrow> ?own' k = ?own k"
      "length rs \<le> target - in_flight_for_peer (ta_sched t) p"
    using fill_window_sched [OF assms, of env p target] by blast
  have keys: "{(i, off div BLOCK_SIZE) | i off len. NeedPiece p i off len \<in> set (snd (fill_window_to env p target t))}
      = br_key ` set rs"
    by (force simp: rs(1) need_piece_def br_key_def image_iff)
  have held: "held_by ?own' x = (if x = p then held_by ?own p \<union> br_key ` set rs else held_by ?own x)" for x
  proof (rule set_eqI)
    fix k
    show "k \<in> held_by ?own' x \<longleftrightarrow> k \<in> (if x = p then held_by ?own p \<union> br_key ` set rs else held_by ?own x)"
      using rs(4) spec [OF rs(5), of k] by (cases "k \<in> br_key ` set rs") (auto simp: held_by_def)
  qed
  show "held_by ?own' q = (if q = p then held_by ?own p \<union>
      {(i, off div BLOCK_SIZE) | i off len. NeedPiece p i off len \<in> set (snd (fill_window_to env p target t))}
      else held_by ?own q)"
    unfolding keys by (rule held)
  have "held_by ?own p \<inter> br_key ` set rs = {}" using rs(4) by (auto simp: held_by_def)
  then have "card (held_by ?own p \<union> br_key ` set rs) = card (held_by ?own p) + length rs"
    using distinct_card [OF rs(2)] by (simp add: card_Un_disjoint)
  then show "in_flight_for_peer (ta_sched (fst (fill_window_to env p target t))) q =
      (if q = p then in_flight_for_peer (ta_sched t) p + length (snd (fill_window_to env p target t))
       else in_flight_for_peer (ta_sched t) q)"
    using assms(1) rs(3) held by (simp add: sched.load_held rs(1))
  show "in_flight_for_peer (ta_sched t) p + length (snd (fill_window_to env p target t))
      \<le> max target (in_flight_for_peer (ta_sched t) p)"
    using rs(6) by (simp add: rs(1))
  show "sched_inv (ta_sched (fst (fill_window_to env p target t)))" by (rule rs(3))
qed

text \<open>
  C16: request windows are exact. Filling the window of a peer sends it requests up to the target
  and no further, and afterwards the scheduler holds for this peer exactly what it held before and
  the blocks of the requests that were sent: a request the peer's mailbox refused is released again.
  The requests of every other peer stay as they are.
\<close>

theorem request_window_exact:
  assumes "sched_inv (ta_sched t)" and "info_ok t" and "fill_window_to env p target t = (t', es)"
  shows "held_by (owner (in_flight (ta_sched t'))) q =
      (if q = p then held_by (owner (in_flight (ta_sched t))) p \<union>
         {(i, off div BLOCK_SIZE) | i off len. NeedPiece p i off len \<in> set es}
       else held_by (owner (in_flight (ta_sched t))) q)
    \<and> in_flight_for_peer (ta_sched t') p = in_flight_for_peer (ta_sched t) p + length es
    \<and> in_flight_for_peer (ta_sched t') p \<le> max target (in_flight_for_peer (ta_sched t) p)
    \<and> sched_inv (ta_sched t')"
  using fill_window_held [OF assms(1,2), where env = env and p = p and target = target] assms(3) by auto

section \<open>Rechoking keeps the windows\<close>

lemma fill_window_frame:
  assumes "sched_inv (ta_sched t)" and "info_ok t"
  shows "fst (fill_window_to env p target t) = t\<lparr>ta_sched := ta_sched (fst (fill_window_to env p target t))\<rparr>"
  using fill_window_sched [OF assms, of env p target] by blast

lemma info_dict_sched [simp]: "info_dict (t\<lparr>ta_sched := s\<rparr>) = info_dict t"
  by (simp add: info_dict_def split: meta_info.split)

lemma info_ok_sched [simp]: "info_ok (t\<lparr>ta_sched := s\<rparr>) = info_ok t"
  by (simp add: info_ok_def)

lemma for_peers_window:
  assumes "sched_inv (ta_sched t)" and "info_ok t"
  shows "sched_inv (ta_sched (fst (for_peers (fill_peer_request_window env) ps t))) \<and>
    (\<exists>s. fst (for_peers (fill_peer_request_window env) ps t) = t\<lparr>ta_sched := s\<rparr>) \<and>
    in_flight_for_peer (ta_sched (fst (for_peers (fill_peer_request_window env) ps t))) q
      \<le> max (ts_max_in_flight (ta_settings t)) (in_flight_for_peer (ta_sched t) q)"
  using assms
proof (induction ps arbitrary: t)
  case Nil
  then show ?case by (auto intro: exI [of _ "ta_sched t"])
next
  case (Cons p ps)
  let ?t = "fst (fill_peer_request_window env p t)"
  have eq: "?t = t\<lparr>ta_sched := ta_sched ?t\<rparr>" and inv: "sched_inv (ta_sched ?t)"
    and load: "in_flight_for_peer (ta_sched ?t) q \<le> max (ts_max_in_flight (ta_settings t)) (in_flight_for_peer (ta_sched t) q)"
    using fill_window_frame [OF Cons.prems] fill_window_held(2-4) [OF Cons.prems, where env = env and p = p and target = "ts_max_in_flight (ta_settings t)"]
    by (auto simp: fill_peer_request_window_def)
  have ok: "info_ok ?t" using Cons.prems(2) eq info_ok_sched by metis
  have settings: "ta_settings ?t = ta_settings t" using arg_cong [OF eq, of ta_settings] by simp
  have over: "?t\<lparr>ta_sched := s\<rparr> = t\<lparr>ta_sched := s\<rparr>" for s by (subst eq) simp
  show ?case using Cons.IH [OF inv ok] load settings over by auto
qed

definition torrent_inv :: "torrent_actor \<Rightarrow> bool" where
  "torrent_inv t = (sched_inv (ta_sched t) \<and> info_ok t)"

lemma fill_all_window:
  assumes "torrent_inv t"
  shows "sched_inv (ta_sched (fst (fill_all_peer_request_windows env t))) \<and>
    (\<exists>s. fst (fill_all_peer_request_windows env t) = t\<lparr>ta_sched := s\<rparr>) \<and>
    in_flight_for_peer (ta_sched (fst (fill_all_peer_request_windows env t))) q
      \<le> max (ts_max_in_flight (ta_settings t)) (in_flight_for_peer (ta_sched t) q)"
  using for_peers_window [of t env "ta_peers t" q] assms
  by (auto simp: fill_all_peer_request_windows_def torrent_inv_def intro: exI [of _ "ta_sched t"])

lemma torrent_inv_fields:
  "info_dict t' = info_dict t \<Longrightarrow> sched_inv (ta_sched t') \<Longrightarrow> torrent_inv t \<Longrightarrow> torrent_inv t'"
  by (simp add: torrent_inv_def info_ok_def)

lemma torrent_inv_fill_all [inv_intros]: "torrent_inv t \<Longrightarrow> torrent_inv (fst (fill_all_peer_request_windows env t))"
  using fill_all_window [of t env undefined] info_ok_sched unfolding torrent_inv_def by metis

lemma torrent_inv_fill [inv_intros]: "torrent_inv t \<Longrightarrow> torrent_inv (fst (fill_window_to env p n t))"
  using fill_window_held(4) [of t env p n] fill_window_frame [of t env p n] info_ok_sched
  unfolding torrent_inv_def by metis

lemma info_dict_choking [simp]: "info_dict (t\<lparr>ta_choking := c\<rparr>) = info_dict t"
  by (simp add: info_dict_def split: meta_info.split)

lemma choke_effects_iff:
  "SetChoked i c \<in> set (choke_effects peers un stats) \<longleftrightarrow>
     i \<in> set peers \<and> (\<exists>st \<in> set stats. st_id st = i \<and> c = (i \<notin> set un) \<and> st_client_choking st \<noteq> c)"
  by (force simp: choke_effects_def set_map_filter Let_def split: if_splits)

text \<open>The state a rechoke round fills the windows in.\<close>

definition rechoke_state :: "torrent_env \<Rightarrow> torrent_actor \<Rightarrow> torrent_actor" where
  "rechoke_state env t =
     (let t1 = t\<lparr>ta_sched := fst (release_stale_requests (env_now env) (ts_request_timeout (ta_settings t)) (ta_sched t))\<rparr>
      in t1\<lparr>ta_trackers := ta_trackers (fst (try_update_tracker_progress env t1)),
            ta_choking := fst (decide (collect_stats env t) (ta_state t) (ta_choking t))\<rparr>)"

lemma rechoke_active:
  assumes "is_transfer_active (ta_state t)"
  shows "fst (rechoke_peers env t) = fst (fill_all_peer_request_windows env (rechoke_state env t))"
    and "\<exists>es. set es \<subseteq> range (\<lambda>(tr, n). TellTracker tr (UpdDownloaded n)) \<union> range (\<lambda>(tr, n). TellTracker tr (UpdLeft n)) \<and>
      snd (rechoke_peers env t) = es @
      choke_effects (ta_peers t) (unchoked (snd (decide (collect_stats env t) (ta_state t) (ta_choking t))))
        (collect_stats env t) @ snd (fill_all_peer_request_windows env (rechoke_state env t))"
proof -
  let ?t1 = "t\<lparr>ta_sched := fst (release_stale_requests (env_now env) (ts_request_timeout (ta_settings t)) (ta_sched t))\<rparr>"
  let ?es = "snd (try_update_tracker_progress env ?t1)"
  obtain trs where trs: "fst (try_update_tracker_progress env ?t1) = ?t1\<lparr>ta_trackers := trs\<rparr>"
    using progress_frame(2) by blast
  have step: "rechoke_state env t = ?t1\<lparr>ta_trackers := trs, ta_choking := fst (decide (collect_stats env t) (ta_state t) (ta_choking t))\<rparr>"
    by (simp add: rechoke_state_def Let_def trs)
  show "fst (rechoke_peers env t) = fst (fill_all_peer_request_windows env (rechoke_state env t))"
    unfolding rechoke_peers_def step using assms trs by (simp add: Let_def split_beta)
  have "set ?es \<subseteq> range (\<lambda>(tr, n). TellTracker tr (UpdDownloaded n)) \<union> range (\<lambda>(tr, n). TellTracker tr (UpdLeft n))"
    using progress_effects(2) [of _ env ?t1] by fastforce
  moreover have "snd (rechoke_peers env t) = ?es @
      choke_effects (ta_peers t) (unchoked (snd (decide (collect_stats env t) (ta_state t) (ta_choking t))))
        (collect_stats env t) @ snd (fill_all_peer_request_windows env (rechoke_state env t))"
    unfolding rechoke_peers_def step using assms trs by (simp add: Let_def split_beta)
  ultimately show "\<exists>es. set es \<subseteq> range (\<lambda>(tr, n). TellTracker tr (UpdDownloaded n)) \<union> range (\<lambda>(tr, n). TellTracker tr (UpdLeft n)) \<and>
      snd (rechoke_peers env t) = es @
      choke_effects (ta_peers t) (unchoked (snd (decide (collect_stats env t) (ta_state t) (ta_choking t))))
        (collect_stats env t) @ snd (fill_all_peer_request_windows env (rechoke_state env t))" by blast
qed

lemma rechoke_state_fields [simp]:
  "ta_sched (rechoke_state env t) = fst (release_stale_requests (env_now env) (ts_request_timeout (ta_settings t)) (ta_sched t))"
  "ta_settings (rechoke_state env t) = ta_settings t" "ta_state (rechoke_state env t) = ta_state t"
  "info_dict (rechoke_state env t) = info_dict t"
  by (simp_all add: rechoke_state_def Let_def info_dict_def split: meta_info.split)

lemma torrent_inv_rechoke_state: "torrent_inv t \<Longrightarrow> torrent_inv (rechoke_state env t)"
  by (rule torrent_inv_fields [of _ t]) (simp_all add: torrent_inv_def sched_inv_release_stale)

lemma need_piece_not_choke:
  assumes "torrent_inv t"
  shows "SetChoked i c \<notin> set (snd (fill_all_peer_request_windows env t))"
proof -
  have "SetChoked i c \<notin> set (snd (for_peers (fill_peer_request_window env) ps t))" if "torrent_inv t" for ps t
    using that
  proof (induction ps arbitrary: t)
    case (Cons p ps)
    have "SetChoked i c \<notin> set (snd (fill_peer_request_window env p t))"
      using fill_window_sched [of t env p "ts_max_in_flight (ta_settings t)"] Cons.prems
      by (auto simp: fill_peer_request_window_def torrent_inv_def need_piece_def)
    moreover have "torrent_inv (fst (fill_peer_request_window env p t))"
      using Cons.prems by (auto simp: fill_peer_request_window_def intro: inv_intros)
    ultimately show ?case using Cons.IH by simp
  qed simp
  then show ?thesis using assms by (simp add: fill_all_peer_request_windows_def)
qed

text \<open>
  A rechoke round applies the choking decision and only that. While the torrent transfers, a
  connected peer is told to change its choke state exactly when its reported state differs from the
  decision, and to the state decided; afterwards no peer has more requests than its window or than
  before; a torrent that does not transfer does nothing.
\<close>

theorem rechoke_applies_decision:
  assumes inv: "torrent_inv t"
  shows "(if is_transfer_active (ta_state t)
    then (SetChoked i c \<in> set (snd (rechoke_peers env t)) \<longleftrightarrow>
       i \<in> set (ta_peers t) \<and> (\<exists>st \<in> set (collect_stats env t). st_id st = i \<and> st_client_choking st \<noteq> c \<and>
          c = (i \<notin> set (unchoked (snd (decide (collect_stats env t) (ta_state t) (ta_choking t)))))))
      \<and> in_flight_for_peer (ta_sched (fst (rechoke_peers env t))) q
          \<le> max (ts_max_in_flight (ta_settings t)) (in_flight_for_peer (ta_sched t) q)
      \<and> torrent_inv (fst (rechoke_peers env t))
    else rechoke_peers env t = (t, []))"
proof (cases "is_transfer_active (ta_state t)")
  case True
  let ?s = "fst (release_stale_requests (env_now env) (ts_request_timeout (ta_settings t)) (ta_sched t))"
  have sinv: "sched_inv (ta_sched t)" using inv by (simp add: torrent_inv_def)
  note inv3 = torrent_inv_rechoke_state [OF inv, of env]
  have load: "in_flight_for_peer ?s q \<le> in_flight_for_peer (ta_sched t) q" using sched.expire_load_le [OF sinv] .
  have "in_flight_for_peer (ta_sched (fst (rechoke_peers env t))) q
      \<le> max (ts_max_in_flight (ta_settings t)) (in_flight_for_peer ?s q)"
    using fill_all_window [OF inv3, of env q] unfolding rechoke_active(1) [OF True] by simp
  then have "in_flight_for_peer (ta_sched (fst (rechoke_peers env t))) q
      \<le> max (ts_max_in_flight (ta_settings t)) (in_flight_for_peer (ta_sched t) q)"
    using load by linarith
  moreover have "torrent_inv (fst (rechoke_peers env t))"
    unfolding rechoke_active(1) [OF True] by (rule torrent_inv_fill_all [OF inv3])
  moreover obtain es where "SetChoked i c \<notin> set es" "snd (rechoke_peers env t) = es @
      choke_effects (ta_peers t) (unchoked (snd (decide (collect_stats env t) (ta_state t) (ta_choking t))))
        (collect_stats env t) @ snd (fill_all_peer_request_windows env (rechoke_state env t))"
    using rechoke_active(2) [OF True, of env] by fastforce
  ultimately show ?thesis
    using True need_piece_not_choke [OF inv3] by (auto simp: choke_effects_iff)
qed (simp add: rechoke_peers_def)

section \<open>A concrete torrent\<close>

definition tiny_info :: torrent_info where
  "tiny_info = \<lparr>info_name = ''f'', info_piece_length = 4, info_pieces = [[10]], info_file_keys = Single 4,
     info_is_private = None\<rparr>"

definition tiny_torrent :: torrent_actor where
  "tiny_torrent =
     \<lparr>ta_peers = [[1]], ta_trackers = [], ta_bitfield = [False], ta_info_hash = [7], ta_resolved = None,
      ta_metainfo = MTorrent \<lparr>tf_announce = None, tf_announce_list = None, tf_info = tiny_info\<rparr>,
      ta_storage = InFile, ta_manager = DefaultManager \<lparr>pm_path = Some [''out''], pm_info = Some tiny_info\<rparr>,
      ta_files = Map.empty, ta_cache = Map.empty, ta_state = Downloading,
      ta_sched = update_peer_availability [1] [True] (sched_new 1),
      ta_choking = choking_new 4 3, ta_rechoke = False, ta_start_time = None, ta_sufficient_peers = 1,
      ta_autostart = True, ta_pending_start = False, ta_ready_hooks = 0,
      ta_settings = \<lparr>ts_initial_window = 2, ts_max_in_flight = 5, ts_request_timeout = 15\<rparr>\<rparr>"

text \<open>A hash for the instances: the sum of the bytes.\<close>

definition sum_hash :: "byte list \<Rightarrow> hash" where
  "sum_hash bs = [sum_list bs]"

definition tiny_env :: torrent_env where
  "tiny_env = \<lparr>env_alive = (\<lambda>_. True), env_tracker_alive = (\<lambda>_. True), env_tracker_accepts = (\<lambda>_. True), env_accepts = (\<lambda>_ _. True), env_stats = (\<lambda>_. None), env_now = 0,
     env_clock = (\<lambda>_. 0), env_sha1 = sum_hash, env_info_hash = (\<lambda>_. Inr [7]), env_decode_info = (\<lambda>_. Inr tiny_info),
     env_custom_ok = True, env_dir_ok = (\<lambda>_. True)\<rparr>"

lemma tiny_torrent_inv: "torrent_inv tiny_torrent"
proof -
  have "sched_inv (ta_sched tiny_torrent)" unfolding tiny_torrent_def by (simp add: inv_intros)
  then show ?thesis
    by (simp add: torrent_inv_def info_ok_def info_dict_def tiny_torrent_def tiny_info_def)
qed

theorem request_window_exact_witness:
  "in_flight_for_peer (ta_sched (fst (fill_window_to tiny_env [1] 5 tiny_torrent))) [1] \<le> 5"
proof -
  have pre: "sched_inv (ta_sched tiny_torrent)" "info_ok tiny_torrent"
    using tiny_torrent_inv by (simp_all add: torrent_inv_def)
  have "in_flight_for_peer (ta_sched tiny_torrent) [1] = 0"
    by (simp add: tiny_torrent_def in_flight_for_peer_def update_peer_availability_def sched_new_def)
  with request_window_exact [OF pre surjective_pairing, where env = tiny_env and p = "[1]" and q = "[1]" and target = 5] show ?thesis by simp
qed

theorem rechoke_applies_decision_witness:
  "in_flight_for_peer (ta_sched (fst (rechoke_peers tiny_env tiny_torrent))) [1] \<le> 5"
proof -
  have "in_flight_for_peer (ta_sched tiny_torrent) [1] = 0" "ta_state tiny_torrent = Downloading"
    "ts_max_in_flight (ta_settings tiny_torrent) = 5"
    by (simp_all add: tiny_torrent_def in_flight_for_peer_def update_peer_availability_def sched_new_def)
  with rechoke_applies_decision [OF tiny_torrent_inv, where env = tiny_env and q = "[1]"] show ?thesis
    by (simp add: torrent_state_defs)
qed

end
