(* ===== verification/Piece_Flow.thy ===== *)
theory Piece_Flow
  imports Torrent
begin

text \<open>
  From a received block to a verified piece, \<^verbatim>\<open>torrent/piece_flow.rs\<close>, with the piece store of
  \<^verbatim>\<open>pieces/piece_store.rs\<close> and the hash check of \<^verbatim>\<open>torrent/util.rs\<close>, and the reading side: the
  \<^verbatim>\<open>request_piece\<close> handler of \<^verbatim>\<open>torrent/messages.rs\<close>. The source divides by the piece length, so a
  torrent with piece length zero makes it panic; the results assume a positive one.
\<close>

section \<open>Storage\<close>

definition validate_piece_bytes :: "(byte list \<Rightarrow> hash) \<Rightarrow> byte list \<Rightarrow> hash \<Rightarrow> bool" where
  "validate_piece_bytes sha1 data h = (sha1 data = h)"

text \<open>The cache file of a piece, or an error when the index is out of bounds or storage is in-file.\<close>

definition get_piece_path :: "torrent_actor \<Rightarrow> nat \<Rightarrow> (rel_path \<times> hash) option" where
  "get_piece_path t index =
     (case info_dict t of
        None \<Rightarrow> None
      | Some info \<Rightarrow>
          if \<not> length (info_pieces info) > index then None
          else (case ta_storage t of Disk dir \<Rightarrow> Some (dir, info_pieces info ! index) | InFile \<Rightarrow> None))"

definition write_block_to_storage :: "nat \<Rightarrow> nat \<Rightarrow> byte list \<Rightarrow> torrent_actor \<Rightarrow> torrent_actor \<times> bool" where
  "write_block_to_storage index offset block t =
     (case ta_storage t of
        Disk _ \<Rightarrow>
          (case get_piece_path t index of
             None \<Rightarrow> (t, False)
           | Some h \<Rightarrow>
               let content = (case ta_cache t h of None \<Rightarrow> [] | Some c \<Rightarrow> c)
               in (t\<lparr>ta_cache := (ta_cache t)(h \<mapsto> write_at content offset block)\<rparr>, True))
      | InFile \<Rightarrow>
          (case ta_manager t of
             DefaultManager m \<Rightarrow>
               (case pm_write_block m index offset block (ta_files t) of
                  Inl _ \<Rightarrow> (t, False)
                | Inr fs \<Rightarrow> (t\<lparr>ta_files := fs\<rparr>, True))
           | CustomManager \<Rightarrow> (t, False)))"

definition manager_recv :: "torrent_env \<Rightarrow> nat \<Rightarrow> byte list \<Rightarrow> torrent_actor \<Rightarrow> torrent_actor \<times> bool" where
  "manager_recv env index data t =
     (case ta_manager t of
        DefaultManager m \<Rightarrow>
          (case pm_recv m index data (ta_files t) of
             Inl _ \<Rightarrow> (t, False) | Inr fs \<Rightarrow> (t\<lparr>ta_files := fs\<rparr>, True))
      | CustomManager \<Rightarrow> (t, env_custom_ok env))"

definition validate_and_commit_piece :: "torrent_env \<Rightarrow> torrent_info \<Rightarrow> nat \<Rightarrow> torrent_actor \<Rightarrow> torrent_actor \<times> bool" where
  "validate_and_commit_piece env info index t =
     (case ta_storage t of
        Disk _ \<Rightarrow>
          (case get_piece_path t index of
             None \<Rightarrow> (t, False)
           | Some path \<Rightarrow>
               (case ta_cache t path of
                  None \<Rightarrow> (t, False)
                | Some data \<Rightarrow>
                    if \<not> validate_piece_bytes (env_sha1 env) data (info_pieces info ! index) then (t, False)
                    else manager_recv env index data t))
      | InFile \<Rightarrow>
          (case ta_manager t of
             CustomManager \<Rightarrow> (t, False)
           | DefaultManager m \<Rightarrow>
               (case pm_read_piece m index (ta_files t) of
                  Inl _ \<Rightarrow> (t, False)
                | Inr data \<Rightarrow>
                    (t, validate_piece_bytes (env_sha1 env) data (info_pieces info ! index)))))"

definition torrent_read_piece_block :: "nat \<Rightarrow> nat \<Rightarrow> nat \<Rightarrow> torrent_actor \<Rightarrow> byte list option" where
  "torrent_read_piece_block index offset len t =
     (case ta_storage t of
        Disk _ \<Rightarrow>
          (case get_piece_path t index of
             None \<Rightarrow> None
           | Some h \<Rightarrow>
               (case ta_cache t h of
                  None \<Rightarrow> None
                | Some content \<Rightarrow>
                    if length (take len (drop offset content)) < len then None
                    else Some (take len (drop offset content))))
      | InFile \<Rightarrow>
          (case ta_manager t of
             DefaultManager m \<Rightarrow>
               (case pm_read_piece_block m index offset len (ta_files t) of
                  Inl _ \<Rightarrow> None | Inr data \<Rightarrow> Some data)
           | CustomManager \<Rightarrow> None))"

section \<open>Receiving blocks\<close>

definition concrete_piece_len :: "torrent_info \<Rightarrow> nat \<Rightarrow> nat" where
  "concrete_piece_len info index =
     (if index = piece_count info - 1 then last_piece_len info else info_piece_length info)"

text \<open>The checks of \<^verbatim>\<open>handle_incoming_piece\<close> before the block is written, in their order.\<close>

definition block_acceptable :: "torrent_info \<Rightarrow> nat \<Rightarrow> nat \<Rightarrow> byte list \<Rightarrow> bool" where
  "block_acceptable info index offset block =
     (if index \<ge> piece_count info then False
      else
        let len = concrete_piece_len info index
        in if offset \<ge> len then False
           else if block = [] then False
           else (case checked_add offset (length block) of
                   None \<Rightarrow> False
                 | Some end_pos \<Rightarrow>
                     if end_pos > len then False
                     else if offset div BLOCK_SIZE \<ge> div_ceil len BLOCK_SIZE then False
                     else length block = min (len - offset) BLOCK_SIZE))"

definition cancel_duplicate :: "peer_id \<Rightarrow> peer_id option \<Rightarrow> nat \<Rightarrow> nat \<Rightarrow> nat \<Rightarrow> torrent_actor \<Rightarrow> torrent_effect list" where
  "cancel_duplicate p assigned index offset len t =
     (case assigned of
        Some q \<Rightarrow> if q \<noteq> p \<and> q \<in> set (ta_peers t) then [CancelPiece q index offset len] else []
      | None \<Rightarrow> [])"

definition finish_download :: "torrent_env \<Rightarrow> torrent_action" where
  "finish_download env =
     then_do (update_tracker_progress env)
       (then_do (\<lambda>t. (transition_state Seeding t, []))
         (then_do (announce_tracker_event env CompletedEvent)
           (then_do (rechoke_peers env) schedule_next_rechoke)))"

definition piece_completed :: "torrent_env \<Rightarrow> peer_id \<Rightarrow> torrent_info \<Rightarrow> nat \<Rightarrow> torrent_action" where
  "piece_completed env p info index t0 =
     (let t1 = t0\<lparr>ta_sched := fst (remove_piece_blocks index (ta_sched t0))\<rparr>;
          (t2, valid) = validate_and_commit_piece env info index t1
      in if \<not> valid then fill_peer_request_window env p t2
         else
           let t3 = t2\<lparr>ta_sched := mark_piece_complete index (ta_sched t2), ta_bitfield := (ta_bitfield t2)[index := True]\<rparr>
           in then_do (broadcast_to_peers_best_effort env (\<lambda>q. HavePiece q index))
                (\<lambda>t. if next_piece (ta_sched t) \<ge> piece_count info then finish_download env t
                     else fill_peer_request_window env p t) t3)"

definition handle_incoming_piece :: "torrent_env \<Rightarrow> peer_id \<Rightarrow> nat \<Rightarrow> nat \<Rightarrow> byte list \<Rightarrow> torrent_action" where
  "handle_incoming_piece env p index offset block t =
     (case info_dict t of
        None \<Rightarrow> (t, [])
      | Some info \<Rightarrow>
          if \<not> block_acceptable info index offset block then (t, [])
          else
            let len = concrete_piece_len info index;
                block_index = offset div BLOCK_SIZE
            in if is_duplicate_block (ta_sched t) index block_index then (t, [])
               else
                 let (t1, written) = write_block_to_storage index offset block t
                 in if \<not> written then (t1, [])
                    else
                      let (s, assigned) = mark_block_complete index block_index (div_ceil len BLOCK_SIZE) (ta_sched t1);
                          t2 = t1\<lparr>ta_sched := s\<rparr>;
                          cancels = cancel_duplicate p assigned index offset (min (len - offset) BLOCK_SIZE) t2;
                          (t3, es) = (if is_piece_complete (ta_sched t2) index
                            then piece_completed env p info index t2 else fill_peer_request_window env p t2)
                      in (t3, cancels @ es))"

definition peer_rejected_request :: "torrent_env \<Rightarrow> peer_id \<Rightarrow> nat \<Rightarrow> nat \<Rightarrow> torrent_action" where
  "peer_rejected_request env p index offset t =
     fill_peer_request_window env p (t\<lparr>ta_sched := release_peer_request p index offset (ta_sched t)\<rparr>)"

section \<open>Serving blocks\<close>

definition request_piece :: "nat \<Rightarrow> nat \<Rightarrow> nat \<Rightarrow> torrent_actor \<Rightarrow> byte list option" where
  "request_piece index offset len t =
     (case info_dict t of
        None \<Rightarrow> None
      | Some info \<Rightarrow>
          if len = 0 then None
          else if len > BLOCK_SIZE then None
          else if index \<ge> piece_count info then None
          else
            let plen = concrete_piece_len info index
            in (case checked_add offset len of
                  None \<Rightarrow> None
                | Some end_pos \<Rightarrow>
                    if offset \<ge> plen \<or> end_pos > plen then None
                    else if (case get_at (ta_bitfield t) index of None \<Rightarrow> False | Some b \<Rightarrow> b)
                    then torrent_read_piece_block index offset len t else None))"

section \<open>Frames\<close>

text \<open>The part of the state that holds the content: files, cache, metadata and the bitfield.\<close>

definition same_content :: "torrent_actor \<Rightarrow> torrent_actor \<Rightarrow> bool" where
  "same_content t t' =
     (ta_files t' = ta_files t \<and> ta_cache t' = ta_cache t \<and> ta_storage t' = ta_storage t \<and>
      ta_manager t' = ta_manager t \<and> ta_metainfo t' = ta_metainfo t \<and> ta_resolved t' = ta_resolved t \<and>
      ta_bitfield t' = ta_bitfield t \<and> ta_settings t' = ta_settings t)"

lemma same_content_refl [simp, intro]: "same_content t t"
  by (simp add: same_content_def)

lemma same_content_trans: "same_content a b \<Longrightarrow> same_content b c \<Longrightarrow> same_content a c"
  by (simp add: same_content_def)

lemma same_content_updates [simp]:
  "same_content t (t\<lparr>ta_sched := s\<rparr>)" "same_content t (t\<lparr>ta_choking := c\<rparr>)" "same_content t (t\<lparr>ta_state := x\<rparr>)"
  "same_content t (t\<lparr>ta_rechoke := b\<rparr>)" "same_content t (t\<lparr>ta_peers := ps\<rparr>)" "same_content t (t\<lparr>ta_trackers := trs\<rparr>)"
  "same_content t (t\<lparr>ta_sched := s, ta_choking := c\<rparr>)" "same_content t (t\<lparr>ta_peers := ps, ta_sched := s\<rparr>)"
  by (simp_all add: same_content_def)

lemma same_content_info: "same_content t t' \<Longrightarrow> info_dict t' = info_dict t"
  by (simp add: same_content_def info_dict_def split: meta_info.split)

lemma same_content_fill: "torrent_inv t \<Longrightarrow> same_content t (fst (fill_window_to env p n t))"
  using fill_window_frame [of t env p n] same_content_updates(1) unfolding torrent_inv_def by metis

lemma same_content_fill_all: "torrent_inv t \<Longrightarrow> same_content t (fst (fill_all_peer_request_windows env t))"
  using fill_all_window [of t env undefined] same_content_updates(1) by metis

lemma same_content_rechoke: "torrent_inv t \<Longrightarrow> same_content t (fst (rechoke_peers env t))"
proof (cases "is_transfer_active (ta_state t)")
  case True
  assume inv: "torrent_inv t"
  have "same_content t (rechoke_state env t)" by (simp add: rechoke_state_def Let_def same_content_def)
  with same_content_fill_all [OF torrent_inv_rechoke_state [OF inv], of env env] show ?thesis
    unfolding rechoke_active(1) [OF True] by (rule same_content_trans [rotated])
qed (simp add: rechoke_peers_def)

lemma torrent_inv_rechoke [inv_intros]: "torrent_inv t \<Longrightarrow> torrent_inv (fst (rechoke_peers env t))"
  by (cases "is_transfer_active (ta_state t)")
    (simp_all add: rechoke_active torrent_inv_fill_all torrent_inv_rechoke_state, simp add: rechoke_peers_def)

lemma torrent_inv_same:
  "torrent_inv t \<Longrightarrow> same_content t t' \<Longrightarrow> sched_inv (ta_sched t') \<Longrightarrow> torrent_inv t'"
  using torrent_inv_fields [OF same_content_info] by blast

lemma sched_inv_disconnect_all: "sched_inv s \<Longrightarrow> sched_inv (fold peer_disconnected ps s)"
  by (induction ps arbitrary: s) (auto intro: inv_intros)

lemma broadcast_best_effort_frame:
  assumes "torrent_inv t"
  shows "same_content t (fst (broadcast_to_peers_best_effort env f t))"
    and "torrent_inv (fst (broadcast_to_peers_best_effort env f t))"
proof -
  show c: "same_content t (fst (broadcast_to_peers_best_effort env f t))"
    by (simp add: broadcast_to_peers_best_effort_def Let_def)
  have "sched_inv (ta_sched (fst (broadcast_to_peers_best_effort env f t)))"
    using assms by (simp add: broadcast_to_peers_best_effort_def Let_def torrent_inv_def sched_inv_disconnect_all)
  with assms c show "torrent_inv (fst (broadcast_to_peers_best_effort env f t))" by (rule torrent_inv_same)
qed

lemma schedule_rechoke_frame:
  "same_content t (fst (schedule_next_rechoke t))" "ta_sched (fst (schedule_next_rechoke t)) = ta_sched t"
  "ta_state (fst (schedule_next_rechoke t)) = ta_state t"
  by (simp_all add: schedule_next_rechoke_def)

lemma finish_download_state:
  "\<exists>trs. {tr \<in> set trs. env_tracker_alive env tr} = {tr \<in> set (ta_trackers t). env_tracker_alive env tr} \<and>
     fst (finish_download env t) = fst (schedule_next_rechoke (fst (rechoke_peers env (t\<lparr>ta_state := Seeding, ta_trackers := trs\<rparr>)))) \<and>
     (\<forall>tr. tr \<in> set (ta_trackers t) \<and> env_tracker_alive env tr
        \<longrightarrow> TellTracker tr (UpdEvent CompletedEvent) \<in> set (snd (finish_download env t)))"
proof -
  obtain trs where trs: "fst (update_tracker_progress env t) = t\<lparr>ta_trackers := trs\<rparr>"
    "{tr \<in> set trs. env_tracker_alive env tr} = {tr \<in> set (ta_trackers t). env_tracker_alive env tr}"
    using progress_frame(1) by blast
  let ?live = "filter (env_tracker_alive env) trs"
  have "fst (finish_download env t) = fst (schedule_next_rechoke (fst (rechoke_peers env (t\<lparr>ta_state := Seeding, ta_trackers := ?live\<rparr>))))"
    by (simp add: finish_download_def trs transition_state_eq announce_event_simps)
  moreover have "TellTracker tr (UpdEvent CompletedEvent) \<in> set (snd (finish_download env t))"
    if "tr \<in> set (ta_trackers t)" "env_tracker_alive env tr" for tr
    using that trs(2) by (auto simp: finish_download_def trs(1) transition_state_eq announce_event_simps)
  ultimately show ?thesis using trs(2) by (intro exI [of _ ?live]) simp
qed

lemma finish_download_frame:
  assumes "torrent_inv t"
  shows "same_content t (fst (finish_download env t))" and "torrent_inv (fst (finish_download env t))"
proof -
  obtain trs where eq: "fst (finish_download env t)
      = fst (schedule_next_rechoke (fst (rechoke_peers env (t\<lparr>ta_state := Seeding, ta_trackers := trs\<rparr>))))"
    using finish_download_state by blast
  let ?t = "t\<lparr>ta_state := Seeding, ta_trackers := trs\<rparr>"
  have c0: "same_content t ?t" by (simp add: same_content_def)
  have inv: "torrent_inv ?t" using assms c0 by (rule torrent_inv_same) (use assms in \<open>simp add: torrent_inv_def\<close>)
  show c: "same_content t (fst (finish_download env t))"
    unfolding eq using same_content_rechoke [OF inv, of env] schedule_rechoke_frame(1) c0
    by (meson same_content_trans)
  show "torrent_inv (fst (finish_download env t))"
    using assms c by (rule torrent_inv_same)
      (use torrent_inv_rechoke [OF inv, of env] in \<open>simp add: eq schedule_rechoke_frame torrent_inv_def\<close>)
qed

text \<open>What follows a committed piece leaves the content alone.\<close>

lemma after_commit_frame:
  fixes t :: torrent_actor and env :: torrent_env and f :: "peer_id \<Rightarrow> torrent_effect" and n :: nat and p :: peer_id
  assumes "torrent_inv t"
  defines "r \<equiv> then_do (broadcast_to_peers_best_effort env f)
      (\<lambda>t. if next_piece (ta_sched t) \<ge> n then finish_download env t else fill_peer_request_window env p t) t"
  shows "same_content t (fst r)" and "torrent_inv (fst r)"
proof -
  let ?t = "fst (broadcast_to_peers_best_effort env f t)"
  note b = broadcast_best_effort_frame [OF assms(1), of env f]
  have "same_content ?t (fst r) \<and> torrent_inv (fst r)"
    using b(2) finish_download_frame [OF b(2), of env] same_content_fill [OF b(2)] torrent_inv_fill [OF b(2)]
    by (simp add: r_def fill_peer_request_window_def)
  with b(1) show "same_content t (fst r)" "torrent_inv (fst r)" by (auto intro: same_content_trans)
qed

section \<open>Stored pieces\<close>

text \<open>
  The bytes a piece is validated against: its cache file with disk storage, its range of the output
  files with in-file storage.
\<close>

definition piece_data :: "torrent_actor \<Rightarrow> nat \<Rightarrow> byte list option" where
  "piece_data t index =
     (case ta_storage t of
        Disk _ \<Rightarrow> Option.bind (get_piece_path t index) (ta_cache t)
      | InFile \<Rightarrow>
          (case ta_manager t of
             DefaultManager m \<Rightarrow> (case pm_read_piece m index (ta_files t) of Inl _ \<Rightarrow> None | Inr d \<Rightarrow> Some d)
           | CustomManager \<Rightarrow> None))"

definition piece_valid :: "(byte list \<Rightarrow> hash) \<Rightarrow> torrent_actor \<Rightarrow> nat \<Rightarrow> bool" where
  "piece_valid sha1 t i =
     (\<exists>info d. info_dict t = Some info \<and> piece_data t i = Some d \<and> sha1 d = info_pieces info ! i)"

text \<open>Every piece the bitfield claims is stored and has the right hash.\<close>

definition verified :: "(byte list \<Rightarrow> hash) \<Rightarrow> torrent_actor \<Rightarrow> bool" where
  "verified sha1 t = (\<forall>i < length (ta_bitfield t). ta_bitfield t ! i \<longrightarrow> piece_valid sha1 t i)"

text \<open>
  Storage in which pieces are apart: the files of the torrent have different paths, and with a piece
  cache different pieces have different hashes, as the hash names the cache file.
\<close>

definition store_ok :: "torrent_actor \<Rightarrow> bool" where
  "store_ok t =
     (\<forall>info. info_dict t = Some info \<longrightarrow>
        (case ta_storage t of
           Disk _ \<Rightarrow> distinct (info_pieces info)
         | InFile \<Rightarrow>
             (case ta_manager t of
                DefaultManager m \<Rightarrow> (\<exists>base fs. manages m base info fs \<and> distinct (map fst fs))
              | CustomManager \<Rightarrow> True)))"

lemma same_content_data:
  assumes "same_content t t'"
  shows "piece_data t' = piece_data t" and "piece_valid sha1 t' = piece_valid sha1 t"
    and "verified sha1 t' = verified sha1 t" and "store_ok t' = store_ok t"
proof -
  note i = same_content_info [OF assms]
  have f: "ta_files t' = ta_files t" "ta_cache t' = ta_cache t" "ta_storage t' = ta_storage t"
    "ta_manager t' = ta_manager t" "ta_bitfield t' = ta_bitfield t"
    using assms by (simp_all add: same_content_def)
  show d: "piece_data t' = piece_data t" unfolding piece_data_def get_piece_path_def i f ..
  show v: "piece_valid sha1 t' = piece_valid sha1 t" unfolding piece_valid_def d i ..
  show "verified sha1 t' = verified sha1 t" unfolding verified_def v f ..
  show "store_ok t' = store_ok t" unfolding store_ok_def i f ..
qed

text \<open>Storage changes only files and cache.\<close>

definition stores :: "torrent_actor \<Rightarrow> torrent_actor \<Rightarrow> bool" where
  "stores t t' = (\<exists>fs c. t' = t\<lparr>ta_files := fs, ta_cache := c\<rparr>)"

lemma storesI: "stores t (t\<lparr>ta_files := fs\<rparr>)" "stores t (t\<lparr>ta_cache := c\<rparr>)" "stores t t"
  unfolding stores_def
  by (rule exI [of _ fs], rule exI [of _ "ta_cache t"], simp)
    (rule exI [of _ "ta_files t"], rule exI [of _ c], simp,
     rule exI [of _ "ta_files t"], rule exI [of _ "ta_cache t"], simp)

lemma stores_fields:
  assumes "stores t t'"
  shows "info_dict t' = info_dict t" "ta_storage t' = ta_storage t" "ta_manager t' = ta_manager t"
    "ta_bitfield t' = ta_bitfield t" "ta_sched t' = ta_sched t" "ta_peers t' = ta_peers t" "ta_state t' = ta_state t"
    "store_ok t' = store_ok t" "torrent_inv t' = torrent_inv t" "get_piece_path t' = get_piece_path t"
    "ta_trackers t' = ta_trackers t"
proof -
  show f: "info_dict t' = info_dict t" "ta_storage t' = ta_storage t" "ta_manager t' = ta_manager t"
    "ta_bitfield t' = ta_bitfield t" "ta_sched t' = ta_sched t" "ta_peers t' = ta_peers t" "ta_state t' = ta_state t"
    "ta_trackers t' = ta_trackers t"
    using assms by (auto simp: stores_def info_dict_def split: meta_info.split)
  show "store_ok t' = store_ok t" unfolding store_ok_def f ..
  show "torrent_inv t' = torrent_inv t" unfolding torrent_inv_def info_ok_def f ..
  show "get_piece_path t' = get_piece_path t" unfolding get_piece_path_def f ..
qed

lemma write_block_stores: "stores t (fst (write_block_to_storage i off block t))"
  by (auto simp: write_block_to_storage_def Let_def storesI
      split: storage_strategy.split option.split manager_proxy.split sum.split)

lemma manager_recv_stores: "stores t (fst (manager_recv env i data t))"
  by (auto simp: manager_recv_def storesI split: manager_proxy.split sum.split)

lemma validate_commit_stores: "stores t (fst (validate_and_commit_piece env info i t))"
  by (auto simp: validate_and_commit_piece_def manager_recv_stores storesI
      split: storage_strategy.split option.split manager_proxy.split sum.split)

lemma manager_recv_cache: "ta_cache (fst (manager_recv env i data t)) = ta_cache t"
  by (simp add: manager_recv_def split: manager_proxy.split sum.split)

lemma concrete_le: "0 < info_piece_length info \<Longrightarrow> concrete_piece_len info i \<le> info_piece_length info"
  by (simp add: concrete_piece_len_def last_piece_len_def)

lemma block_acceptable_iff:
  "block_acceptable info i off block \<longleftrightarrow>
     i < piece_count info \<and> off < concrete_piece_len info i \<and> off + length block \<le> usize_max \<and>
     length block = min (concrete_piece_len info i - off) BLOCK_SIZE"
proof -
  have "off div BLOCK_SIZE < div_ceil (concrete_piece_len info i) BLOCK_SIZE" if "off < concrete_piece_len info i"
    using that by (auto simp: div_ceil_def BLOCK_SIZE_def)
  then show ?thesis
    by (auto simp: block_acceptable_def Let_def checked_add_def min_def split: option.splits)
qed

text \<open>A write to one piece leaves the stored bytes of the others alone.\<close>

lemma write_block_other_data:
  assumes ok: "store_ok t" and info: "info_dict t = Some info" and "j \<noteq> i"
    and fits: "off + length block \<le> info_piece_length info" and d: "piece_data t j = Some d"
  shows "piece_data (fst (write_block_to_storage i off block t)) j = Some d"
proof (cases "ta_storage t")
  case (Disk dir)
  have j: "j < length (info_pieces info)" "ta_cache t (dir, info_pieces info ! j) = Some d"
    using d info Disk by (auto simp: piece_data_def get_piece_path_def split: if_splits)
  have path: "get_piece_path t j = Some (dir, info_pieces info ! j)" using j(1) info Disk by (simp add: get_piece_path_def)
  show ?thesis
  proof (cases "get_piece_path t i")
    case None
    then show ?thesis using Disk d by (simp add: write_block_to_storage_def)
  next
    case (Some h)
    then have i: "i < length (info_pieces info)" "h = (dir, info_pieces info ! i)"
      using info Disk by (auto simp: get_piece_path_def split: if_splits)
    have "distinct (info_pieces info)" using ok info Disk by (simp add: store_ok_def)
    then have "(dir, info_pieces info ! j) \<noteq> h" using i j(1) \<open>j \<noteq> i\<close> by (simp add: nth_eq_iff_index_eq)
    moreover have "get_piece_path (t\<lparr>ta_cache := c\<rparr>) j = get_piece_path t j" for c
      by (rule fun_cong [OF stores_fields(10) [OF storesI(2)]])
    ultimately show ?thesis
      using Disk Some path j(2) by (simp add: write_block_to_storage_def Let_def piece_data_def)
  qed
next
  case InFile
  then obtain m where m: "ta_manager t = DefaultManager m" "pm_read_piece m j (ta_files t) = Inr d"
    using d by (auto simp: piece_data_def split: manager_proxy.splits sum.splits)
  obtain base fs where fs: "manages m base info fs" "distinct (map fst fs)"
    using ok info InFile m(1) by (auto simp: store_ok_def)
  note r = read_piece_as_range [OF fs(1) m(2)]
  show ?thesis
  proof (cases "pm_write_block m i off block (ta_files t)")
    case (Inl e)
    then show ?thesis using InFile m by (simp add: write_block_to_storage_def piece_data_def)
  next
    case (Inr st)
    let ?pl = "info_piece_length info"
    have "i * ?pl + off + length block \<le> j * ?pl + 0 \<or> j * ?pl + 0 + length d \<le> i * ?pl + off"
    proof (cases "i < j")
      case True
      then have "Suc i * ?pl \<le> j * ?pl" by (intro mult_le_mono1) simp
      with fits show ?thesis by simp
    next
      case False
      with \<open>j \<noteq> i\<close> have "Suc j * ?pl \<le> i * ?pl" by (intro mult_le_mono1) simp
      with r(1) show ?thesis by simp
    qed
    from write_range_keeps [OF fs Inr [unfolded pm_write_block_def] r(2) this]
    have "read_piece_range m j 0 (length d) st = Inr d" .
    then have "pm_read_piece m j st = Inr d" by (simp add: r(3))
    then show ?thesis using InFile m(1) Inr by (simp add: write_block_to_storage_def piece_data_def)
  qed
qed

lemma commit_data:
  assumes "info_dict t = Some info"
  shows "piece_data (fst (validate_and_commit_piece env info i t)) = piece_data t"
    and "snd (validate_and_commit_piece env info i t) \<Longrightarrow> piece_valid (env_sha1 env) t i"
proof -
  let ?t = "fst (validate_and_commit_piece env info i t)"
  note f = stores_fields(1,2,3,10) [OF validate_commit_stores [of t env info i]]
  have "ta_storage t = Disk dir \<Longrightarrow> ta_cache ?t = ta_cache t" for dir
    by (auto simp: validate_and_commit_piece_def manager_recv_cache split: option.split)
  moreover have "ta_storage t = InFile \<Longrightarrow> ta_files ?t = ta_files t"
    by (auto simp: validate_and_commit_piece_def split: manager_proxy.split sum.split)
  ultimately show "piece_data ?t = piece_data t"
    by (intro ext) (simp add: piece_data_def f split: storage_strategy.split manager_proxy.split)
  show "piece_valid (env_sha1 env) t i" if "snd (validate_and_commit_piece env info i t)"
    using that assms
    by (auto simp: validate_and_commit_piece_def piece_valid_def piece_data_def validate_piece_bytes_def
        split: storage_strategy.splits option.splits manager_proxy.splits sum.splits if_splits)
qed

section \<open>Verified data stays verified\<close>

text \<open>What a handler may do to the content: store data, and set one bit once the piece is valid.\<close>

definition content_step :: "(byte list \<Rightarrow> hash) \<Rightarrow> nat \<Rightarrow> torrent_actor \<Rightarrow> torrent_actor \<Rightarrow> bool" where
  "content_step sha1 i t t' =
     (piece_data t' = piece_data t \<and> info_dict t' = info_dict t \<and> store_ok t' = store_ok t \<and>
      (ta_bitfield t' = ta_bitfield t \<or> ta_bitfield t' = (ta_bitfield t)[i := True] \<and> piece_valid sha1 t' i))"

lemma same_content_step: "same_content t t' \<Longrightarrow> content_step sha1 i t t'"
  by (simp add: content_step_def same_content_data same_content_info) (simp add: same_content_def)

lemma content_step_same:
  assumes "content_step sha1 i t u" and "same_content u v"
  shows "content_step sha1 i t v"
proof -
  have "ta_bitfield v = ta_bitfield u" using assms(2) by (simp add: same_content_def)
  with assms(1) show ?thesis
    unfolding content_step_def same_content_data [OF assms(2)] same_content_info [OF assms(2)] by simp
qed

lemma content_step_verified:
  assumes "content_step sha1 i t t'" and "verified sha1 t"
  shows "verified sha1 t'"
proof -
  have "piece_valid sha1 t' = piece_valid sha1 t"
    using assms(1) by (intro ext) (simp add: content_step_def piece_valid_def)
  moreover have "(ta_bitfield t)[i := True] ! j \<Longrightarrow> j = i \<or> ta_bitfield t ! j" for j
    by (cases "j = i") auto
  ultimately show ?thesis using assms unfolding content_step_def verified_def by (metis length_list_update)
qed

lemma set_bit_content:
  fixes t :: torrent_actor and s :: piece_scheduler and b :: "bool list"
  defines "u \<equiv> t\<lparr>ta_sched := s, ta_bitfield := b\<rparr>"
  shows "info_dict u = info_dict t" and "piece_data u = piece_data t" and "store_ok u = store_ok t"
proof -
  have f: "ta_files u = ta_files t" "ta_cache u = ta_cache t" "ta_storage u = ta_storage t" "ta_manager u = ta_manager t"
    by (simp_all add: u_def)
  show i: "info_dict u = info_dict t" by (simp add: u_def info_dict_def split: meta_info.split)
  show "piece_data u = piece_data t" unfolding piece_data_def get_piece_path_def i f ..
  show "store_ok u = store_ok t" unfolding store_ok_def i f ..
qed

lemma piece_completed_step:
  assumes inv: "torrent_inv t" and info: "info_dict t = Some info"
  shows "content_step (env_sha1 env) i t (fst (piece_completed env p info i t))"
    and "torrent_inv (fst (piece_completed env p info i t))"
proof -
  let ?t1 = "t\<lparr>ta_sched := fst (remove_piece_blocks i (ta_sched t))\<rparr>"
  let ?t2 = "fst (validate_and_commit_piece env info i ?t1)"
  let ?valid = "snd (validate_and_commit_piece env info i ?t1)"
  let ?t3 = "?t2\<lparr>ta_sched := mark_piece_complete i (ta_sched ?t2), ta_bitfield := (ta_bitfield ?t2)[i := True]\<rparr>"
  note f = stores_fields [OF validate_commit_stores [of ?t1 env info i]]
  have info1: "info_dict ?t1 = Some info" using info by simp
  have "torrent_inv ?t1" by (rule torrent_inv_same [OF inv]) (use inv in \<open>simp_all add: torrent_inv_def inv_intros\<close>)
  then have inv2: "torrent_inv ?t2" by (simp add: f)
  have data2: "piece_data ?t2 = piece_data t"
    using commit_data(1) [OF info1] same_content_data(1) [OF same_content_updates(1)] by metis
  have step2: "content_step (env_sha1 env) i t ?t2"
    unfolding content_step_def data2 using f same_content_data(4) [OF same_content_updates(1)] by simp
  have "content_step (env_sha1 env) i t (fst (piece_completed env p info i t)) \<and>
      torrent_inv (fst (piece_completed env p info i t))"
  proof (cases ?valid)
    case False
    then have "fst (piece_completed env p info i t) = fst (fill_peer_request_window env p ?t2)"
      by (simp add: piece_completed_def Let_def split_beta)
    then show ?thesis
      using content_step_same [OF step2 same_content_fill [OF inv2]] torrent_inv_fill [OF inv2]
      by (simp add: fill_peer_request_window_def)
  next
    case True
    note c3 = set_bit_content [where t = ?t2 and s = "mark_piece_complete i (ta_sched ?t2)" and b = "(ta_bitfield ?t2)[i := True]"]
    have "piece_valid (env_sha1 env) ?t3 i"
      using commit_data(2) [OF info1 True] unfolding piece_valid_def c3 data2 f(1)
      using same_content_data(1) [OF same_content_updates(1) [of t]] by auto
    then have step3: "content_step (env_sha1 env) i t ?t3"
      using step2 unfolding content_step_def c3 by (simp add: f)
    have inv3: "torrent_inv ?t3"
      by (rule torrent_inv_fields [OF c3(1) _ inv2]) (use inv2 in \<open>simp add: torrent_inv_def inv_intros\<close>)
    have eq: "fst (piece_completed env p info i t) = fst (then_do (broadcast_to_peers_best_effort env (\<lambda>q. HavePiece q i))
        (\<lambda>t. if next_piece (ta_sched t) \<ge> piece_count info then finish_download env t
             else fill_peer_request_window env p t) ?t3)"
      using True by (simp only: piece_completed_def Let_def split_beta if_True not_True_eq_False if_False)
    show ?thesis
      unfolding eq using after_commit_frame [OF inv3, of env] content_step_same [OF step3] by blast
  qed
  then show "content_step (env_sha1 env) i t (fst (piece_completed env p info i t))"
    "torrent_inv (fst (piece_completed env p info i t))" by blast+
qed

text \<open>A block is either ignored, or stored and followed up on the new scheduler state.\<close>

definition after_write :: "nat \<Rightarrow> nat \<Rightarrow> byte list \<Rightarrow> torrent_info \<Rightarrow> torrent_actor \<Rightarrow> torrent_actor" where
  "after_write i off block info t =
     (let t1 = fst (write_block_to_storage i off block t)
      in t1\<lparr>ta_sched := fst (mark_block_complete i (off div BLOCK_SIZE) (div_ceil (concrete_piece_len info i) BLOCK_SIZE) (ta_sched t1))\<rparr>)"

definition stored_block :: "nat \<Rightarrow> nat \<Rightarrow> byte list \<Rightarrow> torrent_info \<Rightarrow> torrent_actor \<Rightarrow> bool" where
  "stored_block i off block info t =
     (info_dict t = Some info \<and> block_acceptable info i off block \<and>
      \<not> is_duplicate_block (ta_sched t) i (off div BLOCK_SIZE) \<and> snd (write_block_to_storage i off block t))"

definition block_cancels :: "peer_id \<Rightarrow> nat \<Rightarrow> nat \<Rightarrow> byte list \<Rightarrow> torrent_info \<Rightarrow> torrent_actor \<Rightarrow> torrent_effect list" where
  "block_cancels p i off block info t =
     (let t1 = fst (write_block_to_storage i off block t);
          (s, assigned) = mark_block_complete i (off div BLOCK_SIZE) (div_ceil (concrete_piece_len info i) BLOCK_SIZE) (ta_sched t1)
      in cancel_duplicate p assigned i off (min (concrete_piece_len info i - off) BLOCK_SIZE) (t1\<lparr>ta_sched := s\<rparr>))"

lemma write_block_failed: "\<not> snd (write_block_to_storage i off block t) \<Longrightarrow> fst (write_block_to_storage i off block t) = t"
  by (auto simp: write_block_to_storage_def Let_def split: storage_strategy.splits option.splits manager_proxy.splits sum.splits)

lemma incoming_cases:
  obtains (ignored) "\<nexists>info. stored_block i off block info t" "handle_incoming_piece env p i off block t = (t, [])"
  | (partial) info where "stored_block i off block info t"
      "\<not> is_piece_complete (ta_sched (after_write i off block info t)) i"
      "handle_incoming_piece env p i off block t =
         (fst (fill_peer_request_window env p (after_write i off block info t)), block_cancels p i off block info t
            @ snd (fill_peer_request_window env p (after_write i off block info t)))"
  | (whole) info where "stored_block i off block info t"
      "is_piece_complete (ta_sched (after_write i off block info t)) i"
      "handle_incoming_piece env p i off block t =
         (fst (piece_completed env p info i (after_write i off block info t)), block_cancels p i off block info t
            @ snd (piece_completed env p info i (after_write i off block info t)))"
proof (cases "\<exists>info. stored_block i off block info t")
  case False
  then have "handle_incoming_piece env p i off block t = (t, [])"
    using write_block_failed [of i off block t]
    by (auto simp: handle_incoming_piece_def stored_block_def Let_def split_beta split: option.splits)
  with False ignored show ?thesis by blast
next
  case True
  then obtain info where s: "stored_block i off block info t" by blast
  then have "handle_incoming_piece env p i off block t =
      (if is_piece_complete (ta_sched (after_write i off block info t)) i
       then (fst (piece_completed env p info i (after_write i off block info t)),
             block_cancels p i off block info t @ snd (piece_completed env p info i (after_write i off block info t)))
       else (fst (fill_peer_request_window env p (after_write i off block info t)),
             block_cancels p i off block info t @ snd (fill_peer_request_window env p (after_write i off block info t))))"
    by (simp add: handle_incoming_piece_def stored_block_def after_write_def block_cancels_def Let_def split_beta)
  with s partial whole show ?thesis by (cases "is_piece_complete (ta_sched (after_write i off block info t)) i") auto
qed

lemma after_write_fields:
  assumes "torrent_inv t"
  shows "torrent_inv (after_write i off block info t)" and "ta_bitfield (after_write i off block info t) = ta_bitfield t"
    and "info_dict (after_write i off block info t) = info_dict t" and "store_ok (after_write i off block info t) = store_ok t"
    and "piece_data (after_write i off block info t) = piece_data (fst (write_block_to_storage i off block t))"
    and "ta_state (after_write i off block info t) = ta_state t"
proof -
  let ?t1 = "fst (write_block_to_storage i off block t)"
  note f = stores_fields [OF write_block_stores [of t i off block]]
  have c: "same_content ?t1 (after_write i off block info t)" by (simp add: after_write_def Let_def)
  have "torrent_inv ?t1" using assms by (simp add: f)
  then show "torrent_inv (after_write i off block info t)"
    by (rule torrent_inv_same [OF _ c]) (use assms in \<open>simp add: after_write_def Let_def torrent_inv_def f inv_intros\<close>)
  show "ta_bitfield (after_write i off block info t) = ta_bitfield t" "ta_state (after_write i off block info t) = ta_state t"
    by (simp_all add: after_write_def Let_def f)
  show "info_dict (after_write i off block info t) = info_dict t" "store_ok (after_write i off block info t) = store_ok t"
    "piece_data (after_write i off block info t) = piece_data ?t1"
    using same_content_info [OF c] same_content_data(1,4) [OF c] by (simp_all add: f)
qed

lemma after_write_verified:
  assumes inv: "torrent_inv t" and ok: "store_ok t" and v: "verified sha1 t" and s: "stored_block i off block info t"
    and bit: "get_at (ta_bitfield t) i \<noteq> Some True"
  shows "verified sha1 (after_write i off block info t)"
  unfolding verified_def after_write_fields(2) [OF inv]
proof (intro allI impI)
  fix j
  assume j: "j < length (ta_bitfield t)" "ta_bitfield t ! j"
  then obtain d where d: "piece_data t j = Some d" "sha1 d = info_pieces info ! j"
    using v s by (auto simp: verified_def piece_valid_def stored_block_def)
  have "j \<noteq> i" using j bit by (auto simp: get_at_def)
  moreover have "off + length block \<le> info_piece_length info"
    using s inv concrete_le [of info i] by (auto simp: stored_block_def block_acceptable_iff torrent_inv_def info_ok_def)
  ultimately have "piece_data (after_write i off block info t) j = Some d"
    using write_block_other_data [OF ok _ _ _ d(1)] s unfolding after_write_fields(5) [OF inv]
    by (simp add: stored_block_def)
  then show "piece_valid sha1 (after_write i off block info t) j"
    using d(2) s unfolding piece_valid_def after_write_fields(3) [OF inv] by (simp add: stored_block_def)
qed


section \<open>Completion\<close>

text \<open>The part of the scheduler that records finished pieces; only \<^verbatim>\<open>mark_piece_complete\<close> changes it.\<close>

definition finished :: "piece_scheduler \<Rightarrow> bool list \<times> nat" where
  "finished s = (completed_pieces s, next_piece s)"

lemma finished_assign [simp]: "finished (assign_slot p now env slot s) = finished s"
  by (simp add: finished_def)

lemma finished_request_slots [simp]:
  "finished (fst (request_slots p clock limit env av slots s acc)) = finished s"
  by (induction slots arbitrary: s acc) (simp_all add: request_slots_Cons)

lemma finished_ops [simp]:
  "finished (fst (requests_for_peer p clock limit pl tot s)) = finished s"
  "finished (release_peer_request p i off s) = finished s"
  "finished (peer_disconnected p s) = finished s"
  "finished (fst (release_stale_requests now timeout s)) = finished s"
  "finished (fst (mark_block_complete i b n s)) = finished s"
  "finished (fst (remove_piece_blocks i s)) = finished s"
  by (simp_all add: requests_for_peer_def Let_def split: option.splits)
    (simp_all add: finished_def release_peer_request_def peer_disconnected_def release_stale_requests_def
      mark_block_complete_def remove_piece_blocks_def Let_def split_beta split: option.splits)

lemma finished_sends [simp]: "finished (fst (send_requests env p rs s)) = finished s"
  by (induction rs arbitrary: s) (simp_all add: Let_def split_beta send_request_def)

lemma finished_fill [simp]: "finished (ta_sched (fst (fill_window_to env p n t))) = finished (ta_sched t)"
  using finished_ops(1) [of p "env_clock env"]
  by (auto simp: fill_window_to_def Let_def split_beta split: option.splits)

lemma finished_fill_all [simp]: "finished (ta_sched (fst (fill_all_peer_request_windows env t))) = finished (ta_sched t)"
proof -
  have "finished (ta_sched (fst (for_peers (fill_peer_request_window env) ps t))) = finished (ta_sched t)" for ps
    by (induction ps arbitrary: t) (simp_all add: fill_peer_request_window_def)
  then show ?thesis by (simp add: fill_all_peer_request_windows_def)
qed

lemma finished_rechoke [simp]: "finished (ta_sched (fst (rechoke_peers env t))) = finished (ta_sched t)"
  by (cases "is_transfer_active (ta_state t)") (simp add: rechoke_active, simp add: rechoke_peers_def)

lemma finished_disconnects [simp]: "finished (fold peer_disconnected ps s) = finished s"
  by (induction ps arbitrary: s) simp_all

text \<open>The bitfield and the scheduler agree on which pieces are there, and both cover the torrent.\<close>

definition bits_agree :: "torrent_actor \<Rightarrow> bool" where
  "bits_agree t =
     (completed_pieces (ta_sched t) = ta_bitfield t \<and>
      (\<forall>info. info_dict t = Some info \<longrightarrow> length (ta_bitfield t) = piece_count info))"

lemma bits_agree_frame:
  "same_content t t' \<Longrightarrow> finished (ta_sched t') = finished (ta_sched t) \<Longrightarrow> bits_agree t' = bits_agree t"
  using same_content_info [of t t'] by (simp add: bits_agree_def same_content_def finished_def)

lemma full_iff_next:
  assumes "torrent_inv t" and "bits_agree t" and "info_dict t = Some info"
  shows "torrent_is_full t \<longleftrightarrow> piece_count info \<le> next_piece (ta_sched t)"
proof -
  have n: "next_ok (ta_bitfield t) (next_piece (ta_sched t))" and len: "length (ta_bitfield t) = piece_count info"
    using assms by (simp_all add: torrent_inv_def sched_inv_def bits_agree_def)
  have "torrent_is_full t \<longleftrightarrow> (\<forall>b \<in> set (ta_bitfield t). b)"
    unfolding torrent_is_full_def by (metis filter_True length_filter_less less_irrefl)
  then have "torrent_is_full t \<longleftrightarrow> (\<forall>i < length (ta_bitfield t). ta_bitfield t ! i)"
    by (simp add: all_set_conv_all_nth)
  also have "\<dots> \<longleftrightarrow> length (ta_bitfield t) \<le> next_piece (ta_sched t)"
    using n by (auto simp: next_ok_def) (metis le_neq_implies_less)
  finally show ?thesis by (simp add: len)
qed

text \<open>
  What a handler reports: either the torrent is complete, seeds, and every live tracker is told; or
  no tracker is told and the state stays.
\<close>

definition completed_sent :: "torrent_effect list \<Rightarrow> bool" where
  "completed_sent es = (\<exists>tr. TellTracker tr (UpdEvent CompletedEvent) \<in> set es)"

definition all_told :: "torrent_env \<Rightarrow> torrent_actor \<Rightarrow> torrent_effect list \<Rightarrow> bool" where
  "all_told env t es = (\<forall>tr. tr \<in> set (ta_trackers t) \<and> env_tracker_alive env tr
     \<longrightarrow> TellTracker tr (UpdEvent CompletedEvent) \<in> set es)"

definition reports :: "torrent_env \<Rightarrow> torrent_actor \<Rightarrow> torrent_actor \<times> torrent_effect list \<Rightarrow> bool" where
  "reports env t r =
     (torrent_is_full (fst r) \<and> ta_state (fst r) = Seeding \<and> all_told env t (snd r) \<or>
      \<not> completed_sent (snd r) \<and> ta_state (fst r) = ta_state t \<and>
        (torrent_is_full (fst r) \<longrightarrow> ta_bitfield (fst r) = ta_bitfield t))"

lemma reports_from:
  "reports env u r \<Longrightarrow> ta_state u = ta_state t \<Longrightarrow> ta_bitfield u = ta_bitfield t \<Longrightarrow> ta_trackers u = ta_trackers t
     \<Longrightarrow> reports env t r"
  unfolding reports_def all_told_def by (simp only:)

lemma reports_prefix:
  "reports env t r \<Longrightarrow> \<not> completed_sent cs \<Longrightarrow> reports env t (fst r, cs @ snd r)"
  by (auto simp: reports_def completed_sent_def all_told_def)

lemma fill_reports:
  assumes "torrent_inv t"
  shows "reports env t (fill_window_to env p n t)"
proof -
  obtain rs where "snd (fill_window_to env p n t) = map (need_piece p) rs"
    using fill_window_sched [of t env p n] assms by (auto simp: torrent_inv_def)
  then have "\<not> completed_sent (snd (fill_window_to env p n t))" by (auto simp: need_piece_def completed_sent_def)
  moreover have "ta_bitfield (fst (fill_window_to env p n t)) = ta_bitfield t \<and> ta_state (fst (fill_window_to env p n t)) = ta_state t"
    by (auto simp: fill_window_to_def Let_def split_beta split: option.splits)
  ultimately show ?thesis by (simp add: reports_def)
qed

lemma finish_reports:
  "all_told env t (snd (finish_download env t))"
  "ta_state (fst (finish_download env t)) = Seeding"
  "finished (ta_sched (fst (finish_download env t))) = finished (ta_sched t)"
proof -
  obtain trs where eq: "fst (finish_download env t)
      = fst (schedule_next_rechoke (fst (rechoke_peers env (t\<lparr>ta_state := Seeding, ta_trackers := trs\<rparr>))))"
    and told: "all_told env t (snd (finish_download env t))"
    using finish_download_state [of env t] unfolding all_told_def by blast
  show "all_told env t (snd (finish_download env t))" by (rule told)
  show "ta_state (fst (finish_download env t)) = Seeding"
    by (simp add: eq schedule_rechoke_frame rechoke_active torrent_state_defs fill_all_peer_request_windows_def)
  show "finished (ta_sched (fst (finish_download env t))) = finished (ta_sched t)"
    by (simp add: eq schedule_rechoke_frame)
qed

text \<open>After a commit: completion is announced exactly when no piece is missing.\<close>

lemma after_commit_reports:
  fixes t :: torrent_actor and env :: torrent_env and i :: nat and p :: peer_id and info :: torrent_info
  assumes inv: "torrent_inv t" and agree: "bits_agree t" and info: "info_dict t = Some info"
  defines "r \<equiv> then_do (broadcast_to_peers_best_effort env (\<lambda>q. HavePiece q i))
      (\<lambda>t. if next_piece (ta_sched t) \<ge> piece_count info then finish_download env t
           else fill_peer_request_window env p t) t"
  shows "bits_agree (fst r)"
    and "torrent_is_full (fst r) \<and> ta_state (fst r) = Seeding \<and> all_told env t (snd r)
      \<or> \<not> torrent_is_full (fst r) \<and> ta_state (fst r) = ta_state t \<and> \<not> completed_sent (snd r)"
proof -
  let ?b = "broadcast_to_peers_best_effort env (\<lambda>q. HavePiece q i) t"
  let ?t = "fst ?b"
  note b = broadcast_best_effort_frame [OF inv, of env "\<lambda>q. HavePiece q i"]
  have f: "finished (ta_sched ?t) = finished (ta_sched t)" "ta_state ?t = ta_state t" "ta_trackers ?t = ta_trackers t"
    "\<not> completed_sent (snd ?b)"
    by (auto simp: broadcast_to_peers_best_effort_def Let_def completed_sent_def)
  have agree': "bits_agree ?t" using bits_agree_frame [OF b(1) f(1)] agree by simp
  have full: "torrent_is_full ?t \<longleftrightarrow> piece_count info \<le> next_piece (ta_sched ?t)"
    using full_iff_next [OF b(2) agree'] same_content_info [OF b(1)] info by simp
  have "bits_agree (fst r) \<and> (torrent_is_full (fst r) \<and> ta_state (fst r) = Seeding \<and> all_told env t (snd r)
      \<or> \<not> torrent_is_full (fst r) \<and> ta_state (fst r) = ta_state t \<and> \<not> completed_sent (snd r))"
  proof (cases "piece_count info \<le> next_piece (ta_sched ?t)")
    case True
    then have r: "fst r = fst (finish_download env ?t)" "snd r = snd ?b @ snd (finish_download env ?t)"
      unfolding r_def by simp_all
    have c: "same_content ?t (fst r)" unfolding r using finish_download_frame [OF b(2)] by blast
    then have "torrent_is_full (fst r)" using True full by (simp add: torrent_is_full_def same_content_def)
    moreover have "all_told env t (snd r)"
      using finish_reports(1) [of env ?t] f(3) by (simp add: r all_told_def)
    ultimately show ?thesis using r agree' finish_reports bits_agree_frame [OF c] by simp
  next
    case False
    then have r: "fst r = fst (fill_peer_request_window env p ?t)" "snd r = snd ?b @ snd (fill_peer_request_window env p ?t)"
      unfolding r_def by simp_all
    have c: "same_content ?t (fst r)" unfolding r fill_peer_request_window_def by (rule same_content_fill [OF b(2)])
    then have full': "\<not> torrent_is_full (fst r)" using False full by (simp add: torrent_is_full_def same_content_def)
    have "reports env ?t (fill_peer_request_window env p ?t)"
      unfolding fill_peer_request_window_def by (rule fill_reports [OF b(2)])
    then have "ta_state (fst r) = ta_state t \<and> \<not> completed_sent (snd r)"
      using full' f by (auto simp: reports_def r completed_sent_def)
    moreover have "bits_agree (fst r)" using agree' bits_agree_frame [OF c] r(1) by (simp add: fill_peer_request_window_def)
    ultimately show ?thesis using full' by blast
  qed
  then show "bits_agree (fst r)"
    "torrent_is_full (fst r) \<and> ta_state (fst r) = Seeding \<and> all_told env t (snd r)
      \<or> \<not> torrent_is_full (fst r) \<and> ta_state (fst r) = ta_state t \<and> \<not> completed_sent (snd r)" by blast+
qed

lemma piece_completed_reports:
  assumes inv: "torrent_inv t" and agree: "bits_agree t" and info: "info_dict t = Some info"
  shows "reports env t (piece_completed env p info i t) \<and> bits_agree (fst (piece_completed env p info i t))"
proof -
  let ?t1 = "t\<lparr>ta_sched := fst (remove_piece_blocks i (ta_sched t))\<rparr>"
  let ?t2 = "fst (validate_and_commit_piece env info i ?t1)"
  let ?t3 = "?t2\<lparr>ta_sched := mark_piece_complete i (ta_sched ?t2), ta_bitfield := (ta_bitfield ?t2)[i := True]\<rparr>"
  let ?r = "piece_completed env p info i t"
  note f = stores_fields [OF validate_commit_stores [of ?t1 env info i]]
  have "torrent_inv ?t1" by (rule torrent_inv_same [OF inv]) (use inv in \<open>simp_all add: torrent_inv_def inv_intros\<close>)
  then have inv2: "torrent_inv ?t2" by (simp add: f)
  have "bits_agree ?t1" using agree bits_agree_frame [OF same_content_updates(1) [of t]] by simp
  then have agree2: "bits_agree ?t2" by (simp add: bits_agree_def f)
  show ?thesis
  proof (cases "snd (validate_and_commit_piece env info i ?t1)")
    case False
    then have eq: "?r = fill_window_to env p (ts_max_in_flight (ta_settings ?t2)) ?t2"
      by (simp add: piece_completed_def Let_def split_beta fill_peer_request_window_def)
    have "reports env t ?r"
      unfolding eq by (rule reports_from [OF fill_reports [OF inv2]]) (simp_all add: f)
    then show ?thesis
      using agree2 bits_agree_frame [OF same_content_fill [OF inv2] finished_fill] unfolding eq by simp
  next
    case True
    note c3 = set_bit_content [where t = ?t2 and s = "mark_piece_complete i (ta_sched ?t2)" and b = "(ta_bitfield ?t2)[i := True]"]
    have inv3: "torrent_inv ?t3"
      by (rule torrent_inv_fields [OF c3(1) _ inv2]) (use inv2 in \<open>simp add: torrent_inv_def inv_intros\<close>)
    have agree3: "bits_agree ?t3"
      using agree2 unfolding bits_agree_def c3 by (auto simp: mark_piece_complete_def Let_def list_update_beyond)
    have info3: "info_dict ?t3 = Some info" unfolding c3(1) using info by (simp add: f)
    have st3: "ta_state ?t3 = ta_state t" "ta_trackers ?t3 = ta_trackers t" by (simp_all add: f)
    have eq: "?r = then_do (broadcast_to_peers_best_effort env (\<lambda>q. HavePiece q i))
        (\<lambda>t. if next_piece (ta_sched t) \<ge> piece_count info then finish_download env t
             else fill_peer_request_window env p t) ?t3"
      using True by (simp only: piece_completed_def Let_def split_beta if_True not_True_eq_False if_False)
    have told: "all_told env ?t3 = all_told env t" by (simp add: all_told_def fun_eq_iff st3(2))
    show ?thesis
      using after_commit_reports [OF inv3 agree3 info3, where env = env and i = i and p = p, folded eq, unfolded st3(1) told]
      unfolding reports_def by blast
  qed
qed

lemma after_write_agrees:
  assumes "torrent_inv t" and "bits_agree t"
  shows "bits_agree (after_write i off block info t)"
proof -
  have "completed_pieces (ta_sched (after_write i off block info t)) = completed_pieces (ta_sched t)"
    using finished_ops(5) stores_fields(5) [OF write_block_stores [of t i off block]]
    by (simp add: after_write_def Let_def finished_def)
  with assms(2) show ?thesis by (simp add: bits_agree_def after_write_fields [OF assms(1)])
qed

lemma cancels_not_completed: "\<not> completed_sent (block_cancels p i off block info t)"
  by (auto simp: block_cancels_def cancel_duplicate_def completed_sent_def Let_def split_beta split: option.splits if_splits)

lemma incoming_reports:
  assumes "torrent_inv t" and "bits_agree t" and "handle_incoming_piece env p i off block t = (t', es)"
  shows "bits_agree t' \<and> reports env t (t', es)"
proof -
  have tr: "ta_trackers (after_write i off block info t) = ta_trackers t" for info
    using stores_fields(11) [OF write_block_stores [of t i off block]] by (simp add: after_write_def Let_def)
  show ?thesis
  proof (cases rule: incoming_cases [where i = i and off = off and block = block and t = t and env = env and p = p])
    case ignored
    then show ?thesis using assms by (simp add: reports_def completed_sent_def)
  next
    case (partial info)
    let ?u = "after_write i off block info t"
    note f = after_write_fields [OF assms(1), where i = i and off = off and block = block and info = info]
    have agree: "bits_agree ?u" by (rule after_write_agrees [OF assms(1,2)])
    have c: "same_content ?u t'" "finished (ta_sched t') = finished (ta_sched ?u)"
      using same_content_fill [OF f(1), of env p] partial(3) assms(3) by (simp_all add: fill_peer_request_window_def)
    have "reports env t (fill_peer_request_window env p ?u)"
      unfolding fill_peer_request_window_def by (rule reports_from [OF fill_reports [OF f(1)] f(6,2) tr])
    then show ?thesis
      using bits_agree_frame [OF c] agree reports_prefix [OF _ cancels_not_completed] partial(3) assms(3) by auto
  next
    case (whole info)
    let ?u = "after_write i off block info t"
    note f = after_write_fields [OF assms(1), where i = i and off = off and block = block and info = info]
    have agree: "bits_agree ?u" by (rule after_write_agrees [OF assms(1,2)])
    have "info_dict ?u = Some info" using whole(1) f(3) by (simp add: stored_block_def)
    note pc = piece_completed_reports [OF f(1) agree this, where env = env and p = p and i = i]
    have "reports env t (piece_completed env p info i ?u)" using pc reports_from [OF _ f(6,2) tr] by blast
    then show ?thesis
      using pc reports_prefix [OF _ cancels_not_completed] whole(3) assms(3) by auto
  qed
qed


section \<open>Serving\<close>

lemma request_piece_verified:
  assumes "store_ok t" and "verified sha1 t" and "request_piece i off len t = Some data"
  shows "\<exists>info d. info_dict t = Some info \<and> i < piece_count info \<and> get_at (ta_bitfield t) i = Some True \<and>
    0 < len \<and> len \<le> BLOCK_SIZE \<and> off + len \<le> concrete_piece_len info i \<and>
    piece_data t i = Some d \<and> sha1 d = info_pieces info ! i \<and> data = take len (drop off d) \<and> length data = len"
proof -
  obtain info where info: "info_dict t = Some info" "0 < len" "len \<le> BLOCK_SIZE" "i < piece_count info"
    "off + len \<le> concrete_piece_len info i" "get_at (ta_bitfield t) i = Some True"
    "torrent_read_piece_block i off len t = Some data"
    using assms(3) by (auto simp: request_piece_def Let_def split: option.splits if_splits)
  then obtain d where d: "piece_data t i = Some d" "sha1 d = info_pieces info ! i"
    using assms(2) by (auto simp: verified_def piece_valid_def get_at_Some)
  have "data = take len (drop off d) \<and> length data = len"
  proof (cases "ta_storage t")
    case (Disk dir)
    then show ?thesis
      using info(7) d(1) by (auto simp: torrent_read_piece_block_def piece_data_def split: option.splits if_splits)
  next
    case InFile
    then obtain m where m: "ta_manager t = DefaultManager m" "pm_read_piece m i (ta_files t) = Inr d"
      "read_piece_range m i off len (ta_files t) = Inr data"
      using d(1) info(7)
      by (auto simp: torrent_read_piece_block_def piece_data_def pm_read_piece_block_def
          split: manager_proxy.splits sum.splits)
    obtain base fs where "manages m base info fs"
      using assms(1) info(1) InFile m(1) by (auto simp: store_ok_def)
    from read_block_of_piece [OF this m(2,3) info(2)] show ?thesis by simp
  qed
  with info d show ?thesis by blast
qed

text \<open>
  Peers are served verified bytes only. A request is answered only for a piece the bitfield
  claims and a range of at most one block inside it, and the answer is exactly that range of stored
  bytes whose hash is the one of the metadata.
\<close>

theorem request_piece_serves_verified:
  assumes "store_ok t" and "verified sha1 t" and "request_piece i off len t = Some data"
  shows "\<exists>info d. info_dict t = Some info \<and> i < piece_count info \<and> get_at (ta_bitfield t) i = Some True \<and>
    0 < len \<and> len \<le> BLOCK_SIZE \<and> off + len \<le> concrete_piece_len info i \<and>
    piece_data t i = Some d \<and> sha1 d = info_pieces info ! i \<and> data = take len (drop off d) \<and> length data = len"
  using request_piece_verified [OF assms] .

section \<open>Concrete runs\<close>

lemma tiny_manages:
  "manages \<lparr>pm_path = Some [''out''], pm_info = Some tiny_info\<rparr> [''out''] tiny_info [([''f''], 4)]"
  by (simp add: manages_def tiny_info_def resolve_files_def files_fit_def example_eval)

lemma tiny_store_ok: "ta_storage t = InFile \<Longrightarrow> ta_manager t = ta_manager tiny_torrent \<Longrightarrow>
    info_dict t = Some tiny_info \<Longrightarrow> store_ok t"
  using tiny_manages by (auto simp: store_ok_def tiny_torrent_def intro!: exI [of _ "[([''f''], 4)]"])

lemmas tiny_eval = tiny_torrent_def tiny_env_def tiny_info_def info_dict_def example_eval piece_count_def
  handle_incoming_piece_def block_acceptable_def concrete_piece_len_def last_piece_len_def BLOCK_SIZE_def div_ceil_def
  is_duplicate_block_def write_block_to_storage_def pm_write_block_def write_piece_range_def
  piece_range_segments_def write_at_def pad_to_def mark_block_complete_def remove_in_flight_def in_flight_at_def
  update_peer_availability_def sched_new_def get_at_def cancel_duplicate_def is_piece_complete_def
  piece_completed_def remove_piece_blocks_def validate_and_commit_piece_def pm_read_piece_def read_piece_range_def
  validate_piece_bytes_def sum_hash_def fill_peer_request_window_def fill_window_to_def

text \<open>The state after the whole content of the tiny torrent was received.\<close>

definition tiny_seed :: torrent_actor where
  "tiny_seed = tiny_torrent\<lparr>ta_bitfield := [True], ta_state := Seeding,
     ta_files := [[''out'', ''f''] \<mapsto> [1, 2, 3, 4]],
     ta_sched := mark_piece_complete 0 (sched_new 1)\<rparr>"


text \<open>
  Completion overrides a pause. Blocks in flight are still processed after the user has paused
  the torrent, and the block that completes the last piece moves the torrent from paused to seeding.
\<close>

theorem completion_overrides_pause:
  "let (t', es) = handle_incoming_piece tiny_env [1] 0 0 [1, 2, 3, 4] (tiny_torrent\<lparr>ta_state := Paused\<rparr>)
   in ta_state t' = Seeding \<and> ta_rechoke t' \<and> ScheduleRechoke \<in> set es"
  by (simp add: tiny_eval mark_piece_complete_def skip_complete.simps split_beta broadcast_to_peers_best_effort_def
      finish_download_def transition_state_eq announce_event_simps update_tracker_progress_def tracker_announce_progress_def
      total_bytes_downloaded_def bitfield_piece_len_def tracker_broadcasts
      rechoke_peers_def schedule_next_rechoke_def torrent_state_defs try_update_tracker_progress_def fill_all_peer_request_windows_def)

lemma tiny_info_dict: "info_dict tiny_torrent = Some tiny_info" "info_dict tiny_seed = Some tiny_info"
  by (simp_all add: info_dict_def tiny_torrent_def tiny_seed_def)

lemma tiny_verified: "verified sum_hash tiny_torrent" "verified sum_hash tiny_seed"
  by (simp_all add: tiny_seed_def verified_def piece_valid_def piece_data_def tiny_eval)



theorem request_piece_serves_verified_witness: "request_piece 0 1 2 tiny_seed = Some [2, 3]"
proof -
  have ok: "store_ok tiny_seed" using tiny_store_ok [of tiny_seed] tiny_info_dict by (simp add: tiny_seed_def tiny_torrent_def)
  have "\<exists>d. request_piece 0 1 2 tiny_seed = Some d"
    by (simp add: request_piece_def torrent_read_piece_block_def pm_read_piece_block_def tiny_seed_def tiny_eval)
  then obtain d where d: "request_piece 0 1 2 tiny_seed = Some d" by blast
  have "piece_data tiny_seed 0 = Some [1, 2, 3, 4]"
    by (simp add: tiny_seed_def piece_data_def tiny_eval)
  with request_piece_serves_verified [OF ok tiny_verified(2) d] d show ?thesis by auto
qed

end
