(* ===== verification/Torrent_Lifecycle.thy ===== *)
theory Torrent_Lifecycle
  imports Piece_Flow
begin

text \<open>
  The lifecycle of the torrent actor: creation and shutdown, starting and stopping (\<^verbatim>\<open>torrent/actor.rs\<close>),
  and its remaining message handlers (\<^verbatim>\<open>torrent/messages.rs\<close>, \<^verbatim>\<open>torrent/swarm.rs\<close>). A handler that replies
  returns the reply first. Waiting hooks are counted. The \<^verbatim>\<open>live\<close> feature only mirrors the state and
  is left out, and so is the task that performs a handshake before a peer is registered.
\<close>

section \<open>Starting and stopping\<close>

definition send_ready_hooks :: torrent_action where
  "send_ready_hooks t =
     (t\<lparr>ta_ready_hooks := 0\<rparr>, if ta_ready_hooks t = 0 then [] else [FireReadyHooks (ta_ready_hooks t)])"

definition manager_pre_start :: "torrent_env \<Rightarrow> torrent_info \<Rightarrow> torrent_actor \<Rightarrow> torrent_actor \<times> bool" where
  "manager_pre_start env info t =
     (case ta_manager t of
        DefaultManager m \<Rightarrow>
          (case pre_start (env_info_hash env) info m of
             Inl _ \<Rightarrow> (t, False) | Inr m' \<Rightarrow> (t\<lparr>ta_manager := DefaultManager m'\<rparr>, True))
      | CustomManager \<Rightarrow> (t, env_custom_ok env))"

definition enter_transfer :: "torrent_env \<Rightarrow> torrent_action" where
  "enter_transfer env t =
     (if torrent_is_full t then (transition_state Seeding t, [])
      else ((transition_state Downloading t)\<lparr>ta_start_time := Some (env_now env)\<rparr>, []))"

definition fill_initial_windows :: "torrent_env \<Rightarrow> torrent_action" where
  "fill_initial_windows env t =
     (if ta_state t = Downloading then for_peers (fill_initial_peer_request_window env) (ta_peers t) t else (t, []))"

definition begin_transfer :: "torrent_env \<Rightarrow> torrent_action" where
  "begin_transfer env =
     then_do (update_tracker_progress env)
       (then_do (enter_transfer env)
         (then_do (announce_tracker_event env StartedEvent)
           (then_do (fill_initial_windows env)
             (then_do (rechoke_peers env) schedule_next_rechoke))))"

definition torrent_start :: "torrent_env \<Rightarrow> torrent_action" where
  "torrent_start env t =
     (if \<not> can_start (ta_state t) then (t, [])
      else then_do send_ready_hooks
        (\<lambda>t. case info_dict t of
           None \<Rightarrow> (transition_state ResolvingMetadata t, [])
         | Some info \<Rightarrow>
             (let (t1, ok) = manager_pre_start env info t
              in if \<not> ok then (transition_state Failed t1, []) else begin_transfer env t1)) t)"

definition stop_transfer :: "torrent_env \<Rightarrow> torrent_action" where
  "stop_transfer env t =
     (if ta_state t = Paused then (t, [])
      else
        let was_active = is_transfer_active (ta_state t);
            t1 = (transition_state Paused t)\<lparr>ta_start_time := None, ta_rechoke := False\<rparr>;
            e1 = (if ta_rechoke t then [AbortRechoke] else [])
        in if \<not> was_active then (t1, e1)
           else then_do (emit e1)
             (then_do (broadcast_to_peers env (\<lambda>q. SetChoked q True))
               (then_do (update_tracker_progress env)
                 (then_do (update_trackers env (UpdEvent StoppedEvent))
                   (then_do (broadcast_to_trackers env) (update_trackers env (UpdEvent EmptyEvent)))))) t1)"

definition autostart :: "torrent_env \<Rightarrow> torrent_action" where
  "autostart env t0 =
     (let t = t0\<lparr>ta_pending_start := True\<rparr>;
          (t1, es) = (if is_ready_to_start t
                      then if ta_autostart t then torrent_start env t else send_ready_hooks (transition_state Ready t)
                      else (t, []))
      in (t1\<lparr>ta_pending_start := False\<rparr>, es))"

text \<open>The step before every message: \<^verbatim>\<open>Actor::next\<close>.\<close>

definition torrent_next :: "torrent_env \<Rightarrow> torrent_action" where
  "torrent_next env t = (if \<not> ta_pending_start t then autostart env t else (t, []))"

section \<open>Commands\<close>

definition set_state :: "torrent_env \<Rightarrow> torrent_state \<Rightarrow> torrent_action" where
  "set_state env s t =
     (case s of
        Downloading \<Rightarrow> torrent_start env t
      | Seeding \<Rightarrow> torrent_start env t
      | Paused \<Rightarrow> stop_transfer env t
      | _ \<Rightarrow> (transition_state s t, []))"

definition set_auto_start :: "torrent_env \<Rightarrow> bool \<Rightarrow> torrent_action" where
  "set_auto_start env auto t = torrent_next env (t\<lparr>ta_autostart := auto\<rparr>)"

definition set_sufficient_peers :: "torrent_env \<Rightarrow> nat \<Rightarrow> torrent_action" where
  "set_sufficient_peers env n t = torrent_next env (t\<lparr>ta_sufficient_peers := n\<rparr>)"

definition recover_failed :: "torrent_actor \<Rightarrow> torrent_actor" where
  "recover_failed t = (if ta_state t = Failed then transition_state Paused t else t)"

definition set_piece_storage :: "torrent_env \<Rightarrow> storage_strategy \<Rightarrow> torrent_actor \<Rightarrow> (torrent_error + unit) \<times> torrent_actor" where
  "set_piece_storage env strategy t =
     (if \<not> torrent_is_empty t then (Inl (InvalidOperation ''set piece storage''), t)
      else if ta_manager t = CustomManager \<and> (case strategy of Disk _ \<Rightarrow> False | InFile \<Rightarrow> True)
      then (Inl (InvalidOperation ''set piece storage''), t)
      else if (case strategy of Disk dir \<Rightarrow> \<not> env_dir_ok env dir | InFile \<Rightarrow> False) then (Inl FileIoError, t)
      else (Inr (), recover_failed (t\<lparr>ta_storage := strategy\<rparr>)))"

definition set_piece_manager :: "torrent_env \<Rightarrow> torrent_actor \<Rightarrow> (torrent_error + unit) \<times> torrent_actor" where
  "set_piece_manager env t =
     (if \<not> torrent_is_empty t then (Inl (InvalidOperation ''set piece manager''), t)
      else if \<not> (case ta_storage t of Disk _ \<Rightarrow> True | InFile \<Rightarrow> False)
      then (Inl (InvalidOperation ''set piece manager''), t)
      else if info_dict t \<noteq> None \<and> \<not> env_custom_ok env
      then (Inl (InvalidOperation ''set piece manager''), t)
      else (Inr (), t\<lparr>ta_manager := CustomManager\<rparr>))"

definition set_output_path :: "torrent_env \<Rightarrow> rel_path \<Rightarrow> torrent_actor \<Rightarrow> (torrent_error + unit) \<times> torrent_actor" where
  "set_output_path env path t =
     (if \<not> torrent_is_empty t then (Inl (InvalidOperation ''set output folder''), t)
      else if ta_manager t = CustomManager then (Inl (InvalidOperation ''set output folder''), t)
      else if \<not> env_dir_ok env path then (Inl FileIoError, t)
      else
        let t1 = (case ta_manager t of
                    DefaultManager m \<Rightarrow> t\<lparr>ta_manager := DefaultManager (set_path path m)\<rparr> | CustomManager \<Rightarrow> t)
        in (Inr (), recover_failed t1))"

definition ready_hook :: "torrent_env \<Rightarrow> torrent_action" where
  "ready_hook env t =
     (if ta_state t = Ready \<or> is_transfer_active (ta_state t) then (t, [FireReadyHooks 1])
      else if is_ready_to_start t \<and> \<not> ta_autostart t then (t, [FireReadyHooks 1])
      else autostart env (t\<lparr>ta_ready_hooks := ta_ready_hooks t + 1\<rparr>))"

definition rechoke :: "torrent_env \<Rightarrow> torrent_action" where
  "rechoke env = then_do (rechoke_peers env) schedule_next_rechoke"

definition interesting_pieces :: "bool list \<Rightarrow> torrent_actor \<Rightarrow> bool \<times> nat" where
  "interesting_pieces peer_bitfield t =
     (let n = (if ta_bitfield t = [] then length (filter (\<lambda>b. b) peer_bitfield)
               else length (filter (\<lambda>(peer_has, we_have). peer_has \<and> \<not> we_have) (zip peer_bitfield (ta_bitfield t))))
      in (n > 0, n))"

definition disconnect_peer :: "torrent_env \<Rightarrow> peer_id \<Rightarrow> torrent_actor
    \<Rightarrow> (torrent_error + unit) \<times> torrent_actor \<times> torrent_effect list" where
  "disconnect_peer env i t =
     (let (t1, es, found) = remove_peer i t
      in if \<not> found then (Inl (PeerNotFound i), t1, es)
         else let (t2, es') = fill_all_peer_request_windows env t1 in (Inr (), t2, es @ es'))"

definition kill_peer :: "torrent_env \<Rightarrow> peer_id \<Rightarrow> torrent_action" where
  "kill_peer env i t =
     (let (t1, es, found) = remove_peer i t; (t2, es') = fill_all_peer_request_windows env t1 in (t2, es @ es'))"

section \<open>Trackers\<close>

definition register_tracker_actor :: "tracker \<Rightarrow> torrent_actor \<Rightarrow> (torrent_error + unit) \<times> torrent_actor" where
  "register_tracker_actor tr t =
     (if tr \<in> set (ta_trackers t) then (Inl (TrackerAlreadyExists tr), t)
      else if (case tr of Websocket _ \<Rightarrow> True | _ \<Rightarrow> False) then (Inl UnsupportedTrackerProtocol, t)
      else (Inr (), t\<lparr>ta_trackers := ta_trackers t @ [tr]\<rparr>))"

definition remove_tracker :: "torrent_env \<Rightarrow> tracker \<Rightarrow> torrent_actor
    \<Rightarrow> (torrent_error + unit) \<times> torrent_actor \<times> torrent_effect list" where
  "remove_tracker env tr t =
     (if tr \<notin> set (ta_trackers t) then (Inl (TrackerNotFound tr), t, [])
      else
        let t1 = t\<lparr>ta_trackers := removeAll tr (ta_trackers t)\<rparr>
        in if env_tracker_alive env tr
           then if env_tracker_accepts env tr then (Inr (), t1, [StopTracker tr]) else (Inl ActorCommunicationFailed, t1, [])
           else (Inr (), t1, []))"

definition reannounce_tracker :: "torrent_env \<Rightarrow> tracker \<Rightarrow> torrent_actor \<Rightarrow> (torrent_error + unit) \<times> torrent_effect list" where
  "reannounce_tracker env tr t =
     (if tr \<notin> set (ta_trackers t) then (Inl (TrackerNotFound tr), [])
      else if env_tracker_accepts env tr then (Inr (), [TrackerAnnounce tr]) else (Inl ActorCommunicationFailed, []))"

definition force_reannounce :: "torrent_env \<Rightarrow> torrent_actor \<Rightarrow> (torrent_error + nat) \<times> torrent_effect list" where
  "force_reannounce env t =
     (if ta_trackers t = [] then (Inl (InvalidOperation ''force reannounce''), [])
      else
        let queued = filter (env_tracker_accepts env) (ta_trackers t)
        in (if length queued < length (ta_trackers t) then Inl ActorCommunicationFailed else Inr (length queued),
            map TrackerAnnounce queued))"

section \<open>Events\<close>

definition peer_connected :: "peer_id option \<Rightarrow> torrent_action" where
  "peer_connected peer t = (snd (insert_peer peer t), [])"

definition peer_ready :: "torrent_env \<Rightarrow> peer_id \<Rightarrow> bool list \<Rightarrow> torrent_action" where
  "peer_ready env i available t =
     (let t1 = t\<lparr>ta_sched := update_peer_availability i available (ta_sched t)\<rparr>
      in if i \<in> set (ta_peers t1) \<and> env_alive env i \<and> ta_state t1 = Downloading \<and> is_ready t1
         then fill_peer_request_window env i t1 else (t1, []))"

definition info_bytes :: "torrent_env \<Rightarrow> byte list \<Rightarrow> torrent_action" where
  "info_bytes env bytes t =
     (if info_dict t \<noteq> None then (t, [])
      else if env_sha1 env bytes = ta_info_hash t
      then (case env_decode_info env bytes of
              Inl _ \<Rightarrow> (t, [])
            | Inr info \<Rightarrow>
                let t1 = t\<lparr>ta_bitfield := replicate (piece_count info) False, ta_resolved := Some info\<rparr>;
                    t2 = (if ta_state t1 = ResolvingMetadata then transition_state Added t1 else t1)
                in broadcast_to_peers env (\<lambda>q. HaveInfoDict q (ta_bitfield t2)) t2)
      else (t, []))"

section \<open>Creation and shutdown\<close>

record torrent_args =
  arg_metainfo :: "tracker meta_info"
  arg_storage :: storage_strategy
  arg_autostart :: bool
  arg_sufficient :: nat
  arg_base :: "rel_path option"
  arg_settings :: torrent_settings
  arg_upload_slots :: nat
  arg_optimistic_rounds :: nat

definition meta_info_hash :: "torrent_env \<Rightarrow> (string \<Rightarrow> string + hash) \<Rightarrow> tracker meta_info \<Rightarrow> string + hash" where
  "meta_info_hash env from_hex m =
     (case m of MTorrent f \<Rightarrow> env_info_hash env (tf_info f) | MMagnet u \<Rightarrow> mu_info_hash_of from_hex u)"

text \<open>The actor as it is constructed, before its trackers are registered.\<close>

definition torrent_fresh :: "hash \<Rightarrow> file_store \<Rightarrow> (rel_path \<times> hash \<rightharpoonup> byte list) \<Rightarrow> torrent_args \<Rightarrow> torrent_actor" where
  "torrent_fresh h files cache args =
     (let info = (case arg_metainfo args of MTorrent f \<Rightarrow> Some (tf_info f) | MMagnet _ \<Rightarrow> None);
          n = (case info of None \<Rightarrow> 0 | Some i \<Rightarrow> piece_count i)
      in \<lparr>ta_peers = [], ta_trackers = [], ta_bitfield = replicate n False, ta_info_hash = h,
          ta_resolved = None, ta_metainfo = arg_metainfo args, ta_storage = arg_storage args,
          ta_manager = DefaultManager \<lparr>pm_path = arg_base args, pm_info = info\<rparr>,
          ta_files = files, ta_cache = cache,
          ta_state = (if info \<noteq> None then Added else ResolvingMetadata),
          ta_sched = sched_new n,
          ta_choking = choking_new (arg_upload_slots args) (arg_optimistic_rounds args),
          ta_rechoke = False, ta_start_time = None, ta_sufficient_peers = arg_sufficient args,
          ta_autostart = arg_autostart args, ta_pending_start = False, ta_ready_hooks = 0,
          ta_settings = arg_settings args\<rparr>)"

definition torrent_on_start :: "torrent_env \<Rightarrow> (string \<Rightarrow> string + hash) \<Rightarrow> file_store \<Rightarrow> (rel_path \<times> hash \<rightharpoonup> byte list)
    \<Rightarrow> torrent_args \<Rightarrow> torrent_error + torrent_actor" where
  "torrent_on_start env from_hex files cache args =
     (case meta_info_hash env from_hex (arg_metainfo args) of
        Inl e \<Rightarrow> Inl (InvalidOperation e)
      | Inr h \<Rightarrow>
          if (case arg_storage args of Disk dir \<Rightarrow> \<not> env_dir_ok env dir | InFile \<Rightarrow> False) then Inl FileIoError
          else Inr (fold (\<lambda>tr t. snd (register_tracker_actor tr t)) (meta_announces (arg_metainfo args))
                 (torrent_fresh h files cache args)))"

definition torrent_on_stop :: "bool \<Rightarrow> torrent_action" where
  "torrent_on_stop is_normal t =
     (let t1 = transition_state (if is_normal then Stopping else Restarting) t;
          es = map KillPeer (ta_peers t1) @ map KillTracker (ta_trackers t1) @ (if ta_rechoke t1 then [AbortRechoke] else []);
          t2 = t1\<lparr>ta_rechoke := False\<rparr>
      in (if is_normal then transition_state Stopped t2 else t2, es))"

section \<open>Messages\<close>

datatype torrent_msg =
    PeerConnected "peer_id option"
  | IncomingPiece peer_id nat nat "byte list"
  | PeerRejectedRequest peer_id nat nat
  | InfoBytes "byte list"
  | PeerReady peer_id "bool list"
  | DisconnectPeer peer_id
  | KillPeerMsg peer_id
  | AddTracker tracker
  | RemoveTracker tracker
  | SetPieceStorage storage_strategy
  | SetPieceManager
  | SetOutputPath rel_path
  | SetState torrent_state
  | SetAutoStart bool
  | SetSufficientPeers nat
  | Rechoke
  | ReadyHook

text \<open>The messages that change the state, and what each does to it.\<close>

primrec torrent_receive :: "torrent_env \<Rightarrow> torrent_msg \<Rightarrow> torrent_action" where
  "torrent_receive env (PeerConnected p) t = peer_connected p t"
| "torrent_receive env (IncomingPiece p i off block) t = handle_incoming_piece env p i off block t"
| "torrent_receive env (PeerRejectedRequest p i off) t = peer_rejected_request env p i off t"
| "torrent_receive env (InfoBytes bytes) t = info_bytes env bytes t"
| "torrent_receive env (PeerReady p av) t = peer_ready env p av t"
| "torrent_receive env (DisconnectPeer p) t = snd (disconnect_peer env p t)"
| "torrent_receive env (KillPeerMsg p) t = kill_peer env p t"
| "torrent_receive env (AddTracker tr) t = (snd (register_tracker_actor tr t), [])"
| "torrent_receive env (RemoveTracker tr) t = snd (remove_tracker env tr t)"
| "torrent_receive env (SetPieceStorage s) t = (snd (set_piece_storage env s t), [])"
| "torrent_receive env SetPieceManager t = (snd (set_piece_manager env t), [])"
| "torrent_receive env (SetOutputPath path) t = (snd (set_output_path env path t), [])"
| "torrent_receive env (SetState s) t = set_state env s t"
| "torrent_receive env (SetAutoStart b) t = set_auto_start env b t"
| "torrent_receive env (SetSufficientPeers n) t = set_sufficient_peers env n t"
| "torrent_receive env Rechoke t = rechoke env t"
| "torrent_receive env ReadyHook t = ready_hook env t"

section \<open>Routine steps\<close>

text \<open>
  Most steps leave content and finished pieces alone and keep the scheduler and the tables well
  formed, and they request no blocks of a scheduler that knows no pieces. Such steps compose.
\<close>

definition asks :: "torrent_effect list \<Rightarrow> bool" where
  "asks es = (\<exists>p i off len. NeedPiece p i off len \<in> set es)"

definition quiet :: "torrent_actor \<Rightarrow> torrent_actor \<Rightarrow> bool" where
  "quiet t t' =
     (same_content t t' \<and> finished (ta_sched t') = finished (ta_sched t) \<and> sched_inv (ta_sched t') \<and>
      (distinct (ta_peers t) \<longrightarrow> distinct (ta_peers t')) \<and> (distinct (ta_trackers t) \<longrightarrow> distinct (ta_trackers t')))"

definition routine :: "torrent_action \<Rightarrow> bool" where
  "routine f = (\<forall>t. torrent_inv t \<longrightarrow>
     quiet t (fst (f t)) \<and> (completed_pieces (ta_sched t) = [] \<longrightarrow> \<not> asks (snd (f t))))"

named_theorems routine_intros

lemma quiet_refl: "torrent_inv t \<Longrightarrow> quiet t t"
  by (simp add: quiet_def torrent_inv_def)

lemma quiet_inv: "torrent_inv t \<Longrightarrow> quiet t t' \<Longrightarrow> torrent_inv t'"
  using torrent_inv_same by (auto simp: quiet_def)

lemma quiet_trans: "quiet t u \<Longrightarrow> quiet u v \<Longrightarrow> quiet t v"
  using same_content_trans by (auto simp: quiet_def)

lemma quiet_pieces: "quiet t t' \<Longrightarrow> completed_pieces (ta_sched t') = completed_pieces (ta_sched t)"
  by (simp add: quiet_def finished_def)

lemma routine_then_do [routine_intros]:
  assumes "routine f" and "routine g"
  shows "routine (then_do f g)"
proof (unfold routine_def, intro allI impI)
  fix t
  assume inv: "torrent_inv t"
  let ?u = "fst (f t)"
  have f: "quiet t ?u" "completed_pieces (ta_sched t) = [] \<longrightarrow> \<not> asks (snd (f t))"
    using assms(1) inv by (auto simp: routine_def)
  have g: "quiet ?u (fst (g ?u))" "completed_pieces (ta_sched ?u) = [] \<longrightarrow> \<not> asks (snd (g ?u))"
    using assms(2) quiet_inv [OF inv f(1)] by (auto simp: routine_def)
  show "quiet t (fst (then_do f g t)) \<and> (completed_pieces (ta_sched t) = [] \<longrightarrow> \<not> asks (snd (then_do f g t)))"
    using quiet_trans [OF f(1) g(1)] f(2) g(2) quiet_pieces [OF f(1)] by (auto simp: asks_def)
qed

lemma routine_if [routine_intros]: "routine f \<Longrightarrow> routine g \<Longrightarrow> routine (\<lambda>t. if P t then f t else g t)"
  by (simp add: routine_def)

lemma routine_skip [routine_intros]: "routine (\<lambda>t. (t, []))"
  by (simp add: routine_def quiet_refl asks_def)

lemma routine_id:
  "routine f \<Longrightarrow> (\<And>t. torrent_inv t \<Longrightarrow> g t = f t) \<Longrightarrow> routine g"
  by (simp add: routine_def)

lemma routine_tell [routine_intros]: "(\<And>tr. \<not> asks [msg tr]) \<Longrightarrow> routine (tell_trackers env msg)"
  by (auto simp: routine_def quiet_def torrent_inv_def asks_def)

lemma routine_tracker_ops [routine_intros]:
  "routine (update_trackers env u)" "routine (update_trackers_best_effort env u)" "routine (broadcast_to_trackers env)"
  unfolding tracker_broadcasts by (intro routine_intros; simp add: asks_def)+

lemma routine_progress [routine_intros]:
  "routine (update_tracker_progress env)" "routine (try_update_tracker_progress env)" "routine (announce_tracker_event env e)"
proof -
  have *: "routine (then_do (update_trackers env a) (update_trackers env b))"
    "routine (then_do (update_trackers_best_effort env a) (update_trackers_best_effort env b))" for a b
    by (intro routine_intros)+
  show "routine (update_tracker_progress env)" "routine (try_update_tracker_progress env)"
    using * routine_skip
    by (auto simp: routine_def update_tracker_progress_def try_update_tracker_progress_def split: option.splits)
  show "routine (announce_tracker_event env e)"
    unfolding announce_tracker_event_def by (intro routine_intros)
qed

lemma no_pieces_no_requests:
  "completed_pieces (ta_sched t) = [] \<Longrightarrow> snd (fill_window_to env p n t) = []"
  by (auto simp: fill_window_to_def requests_for_peer_def Let_def split: option.splits)

lemma routine_fill [routine_intros]: "routine (fill_window_to env p n)"
proof (unfold routine_def, intro allI impI)
  fix t
  assume inv: "torrent_inv t"
  have eq: "fst (fill_window_to env p n t) = t\<lparr>ta_sched := ta_sched (fst (fill_window_to env p n t))\<rparr>"
    and s: "sched_inv (ta_sched (fst (fill_window_to env p n t)))"
    using fill_window_frame fill_window_held(4) inv by (auto simp: torrent_inv_def)
  have "ta_peers (fst (fill_window_to env p n t)) = ta_peers t" "ta_trackers (fst (fill_window_to env p n t)) = ta_trackers t"
    using arg_cong [OF eq, of ta_peers] arg_cong [OF eq, of ta_trackers] by simp_all
  then show "quiet t (fst (fill_window_to env p n t)) \<and>
      (completed_pieces (ta_sched t) = [] \<longrightarrow> \<not> asks (snd (fill_window_to env p n t)))"
    using same_content_fill [OF inv] s no_pieces_no_requests [of t] by (simp add: quiet_def asks_def)
qed

lemma routine_windows [routine_intros]:
  "routine (fill_peer_request_window env p)" "routine (fill_initial_peer_request_window env p)"
  using routine_fill by (simp_all add: routine_def fill_peer_request_window_def fill_initial_peer_request_window_def)

lemma routine_for_peers [routine_intros]: "(\<And>p. routine (f p)) \<Longrightarrow> routine (for_peers f ps)"
proof (induction ps)
  case (Cons p ps)
  then have "routine (then_do (f p) (for_peers f ps))" by (intro routine_intros) auto
  then show ?case by (rule routine_id) simp
qed (auto intro: routine_id [OF routine_skip])

lemma routine_fill_all [routine_intros]:
  "routine (fill_all_peer_request_windows env)" "routine (fill_initial_windows env)"
proof -
  have *: "routine (for_peers (fill_peer_request_window env) ps)" "routine (for_peers (fill_initial_peer_request_window env) ps)" for ps
    by (intro routine_intros)+
  show "routine (fill_all_peer_request_windows env)" "routine (fill_initial_windows env)"
    using * routine_skip by (simp_all add: routine_def fill_all_peer_request_windows_def fill_initial_windows_def)
qed

lemma routine_state:
  "(\<And>t. \<exists>s tm rc h ch. fst (f t) = t\<lparr>ta_state := s, ta_start_time := tm, ta_rechoke := rc, ta_ready_hooks := h, ta_choking := ch\<rparr>)
     \<Longrightarrow> (\<And>t. \<not> asks (snd (f t))) \<Longrightarrow> routine f"
  unfolding routine_def quiet_def same_content_def torrent_inv_def
proof (intro allI impI conjI)
  fix t
  assume f: "\<And>t. \<exists>s tm rc h ch. fst (f t) = t\<lparr>ta_state := s, ta_start_time := tm, ta_rechoke := rc, ta_ready_hooks := h, ta_choking := ch\<rparr>"
  obtain s tm rc h ch where "fst (f t) = t\<lparr>ta_state := s, ta_start_time := tm, ta_rechoke := rc, ta_ready_hooks := h, ta_choking := ch\<rparr>"
    using f by blast
  then show "ta_files (fst (f t)) = ta_files t" "ta_cache (fst (f t)) = ta_cache t" "ta_storage (fst (f t)) = ta_storage t"
    "ta_manager (fst (f t)) = ta_manager t" "ta_metainfo (fst (f t)) = ta_metainfo t" "ta_resolved (fst (f t)) = ta_resolved t"
    "ta_bitfield (fst (f t)) = ta_bitfield t" "ta_settings (fst (f t)) = ta_settings t"
    "finished (ta_sched (fst (f t))) = finished (ta_sched t)"
    "sched_inv (ta_sched t) \<and> info_ok t \<Longrightarrow> sched_inv (ta_sched (fst (f t)))"
    "distinct (ta_peers t) \<Longrightarrow> distinct (ta_peers (fst (f t)))" "distinct (ta_trackers t) \<Longrightarrow> distinct (ta_trackers (fst (f t)))"
    by simp_all
qed auto

lemma state_update_same:
  "t = t\<lparr>ta_state := ta_state t, ta_start_time := ta_start_time t, ta_rechoke := ta_rechoke t, ta_ready_hooks := ta_ready_hooks t, ta_choking := ta_choking t\<rparr>"
  by simp

lemma routine_state_ops [routine_intros]:
  "routine send_ready_hooks" "routine schedule_next_rechoke" "routine (enter_transfer env)"
  "routine (\<lambda>t. (transition_state s t, []))" "routine (\<lambda>t. (recover_failed t, []))"
proof -
  have "\<exists>s tm rc h ch. fst (send_ready_hooks t) = t\<lparr>ta_state := s, ta_start_time := tm, ta_rechoke := rc, ta_ready_hooks := h, ta_choking := ch\<rparr>"
    "\<exists>s tm rc h ch. fst (schedule_next_rechoke t) = t\<lparr>ta_state := s, ta_start_time := tm, ta_rechoke := rc, ta_ready_hooks := h, ta_choking := ch\<rparr>"
    "\<exists>s tm rc h ch. fst (enter_transfer env t) = t\<lparr>ta_state := s, ta_start_time := tm, ta_rechoke := rc, ta_ready_hooks := h, ta_choking := ch\<rparr>"
    "\<exists>s' tm rc h ch. transition_state s t = t\<lparr>ta_state := s', ta_start_time := tm, ta_rechoke := rc, ta_ready_hooks := h, ta_choking := ch\<rparr>"
    "\<exists>s tm rc h ch. recover_failed t = t\<lparr>ta_state := s, ta_start_time := tm, ta_rechoke := rc, ta_ready_hooks := h, ta_choking := ch\<rparr>" for t
    by (cases t; auto simp: send_ready_hooks_def schedule_next_rechoke_def enter_transfer_def transition_state_eq recover_failed_def)+
  moreover have "\<not> asks (snd (send_ready_hooks t))" "\<not> asks (snd (schedule_next_rechoke t))" "\<not> asks (snd (enter_transfer env t))" for t
    by (auto simp: asks_def send_ready_hooks_def schedule_next_rechoke_def enter_transfer_def)
  ultimately show "routine send_ready_hooks" "routine schedule_next_rechoke" "routine (enter_transfer env)"
    "routine (\<lambda>t. (transition_state s t, []))" "routine (\<lambda>t. (recover_failed t, []))"
    by (auto intro!: routine_state simp: asks_def)
qed

lemma rechoke_state_quiet: "torrent_inv t \<Longrightarrow> quiet t (rechoke_state env t)"
proof -
  assume inv: "torrent_inv t"
  let ?t1 = "t\<lparr>ta_sched := fst (release_stale_requests (env_now env) (ts_request_timeout (ta_settings t)) (ta_sched t))\<rparr>"
  have "torrent_inv ?t1"
    by (rule torrent_inv_same [OF inv]) (use inv in \<open>simp_all add: torrent_inv_def sched_inv_release_stale\<close>)
  then have "distinct (ta_trackers t) \<longrightarrow> distinct (ta_trackers (fst (try_update_tracker_progress env ?t1)))"
    using routine_progress(2) [of env] by (auto simp: routine_def quiet_def)
  then show ?thesis
    using inv by (auto simp: quiet_def rechoke_state_def Let_def same_content_def torrent_inv_def sched_inv_release_stale)
qed

lemma choke_effects_not_asks: "\<not> asks (choke_effects ps un stats)"
  by (auto simp: asks_def choke_effects_def set_map_filter Let_def split: if_splits)

lemma routine_rechoke [routine_intros]: "routine (rechoke_peers env)"
proof (unfold routine_def, intro allI impI)
  fix t
  assume inv: "torrent_inv t"
  show "quiet t (fst (rechoke_peers env t)) \<and> (completed_pieces (ta_sched t) = [] \<longrightarrow> \<not> asks (snd (rechoke_peers env t)))"
  proof (cases "is_transfer_active (ta_state t)")
    case True
    note q = rechoke_state_quiet [OF inv, of env]
    have f: "quiet (rechoke_state env t) (fst (rechoke_peers env t))"
      "completed_pieces (ta_sched t) = [] \<longrightarrow> \<not> asks (snd (fill_all_peer_request_windows env (rechoke_state env t)))"
      using routine_fill_all(1) [of env] quiet_inv [OF inv q] quiet_pieces [OF q]
      by (auto simp: routine_def rechoke_active(1) [OF True])
    obtain es where "\<not> asks es" "snd (rechoke_peers env t) = es @
      choke_effects (ta_peers t) (unchoked (snd (decide (collect_stats env t) (ta_state t) (ta_choking t))))
        (collect_stats env t) @ snd (fill_all_peer_request_windows env (rechoke_state env t))"
      using rechoke_active(2) [OF True, of env] by (fastforce simp: asks_def)
    then show ?thesis using quiet_trans [OF q f(1)] f(2) choke_effects_not_asks by (auto simp: asks_def)
  qed (simp add: rechoke_peers_def quiet_refl [OF inv] asks_def)
qed

lemma routine_begin [routine_intros]: "routine (begin_transfer env)" "routine (rechoke env)" "routine (finish_download env)"
  unfolding begin_transfer_def rechoke_def finish_download_def by (intro routine_intros)+

lemma routine_broadcasts [routine_intros]:
  assumes "\<And>q. \<not> asks [msg q]"
  shows "routine (broadcast_to_peers env msg)" and "routine (broadcast_to_peers_best_effort env msg)"
  using assms
  by (auto simp: routine_def quiet_def same_content_def torrent_inv_def asks_def broadcast_to_peers_def
      broadcast_to_peers_best_effort_def Let_def sched_inv_disconnect_all)

lemma routine_stop [routine_intros]: "routine (stop_transfer env)"
proof -
  let ?t1 = "\<lambda>t. (transition_state Paused t)\<lparr>ta_start_time := None, ta_rechoke := False\<rparr>"
  let ?e1 = "\<lambda>t. if ta_rechoke t then [AbortRechoke] else []"
  let ?rest = "then_do (broadcast_to_peers env (\<lambda>q. SetChoked q True))
      (then_do (update_tracker_progress env) (then_do (update_trackers env (UpdEvent StoppedEvent))
        (then_do (broadcast_to_trackers env) (update_trackers env (UpdEvent EmptyEvent)))))"
  have pause: "routine (\<lambda>t. (?t1 t, ?e1 t))"
  proof (rule routine_state)
    show "\<exists>s tm rc h ch. fst (?t1 t, ?e1 t) = t\<lparr>ta_state := s, ta_start_time := tm, ta_rechoke := rc, ta_ready_hooks := h, ta_choking := ch\<rparr>" for t
      by (cases t) (auto simp: transition_state_eq)
  qed (auto simp: asks_def)
  have rest: "routine ?rest" by (intro routine_intros; simp add: asks_def)
  have "routine (\<lambda>t. if ta_state t = Paused then (t, []) else if \<not> is_transfer_active (ta_state t) then (?t1 t, ?e1 t)
      else then_do (\<lambda>t. (?t1 t, ?e1 t)) ?rest t)"
    using routine_then_do [OF pause rest] pause routine_skip by (simp add: routine_def)
  then show ?thesis
    by (rule routine_id) (simp add: stop_transfer_def Let_def then_do_def emit_def split_beta)
qed

section \<open>The invariant of the actor\<close>

text \<open>
  A torrent from a file has a scheduler that agrees with the bitfield. The scheduler of a magnet
  link is created before the metadata is known, and knows no pieces.
\<close>

definition is_magnet :: "torrent_actor \<Rightarrow> bool" where
  "is_magnet t = (case ta_metainfo t of MTorrent _ \<Rightarrow> False | MMagnet _ \<Rightarrow> True)"

definition progress_ok :: "torrent_actor \<Rightarrow> bool" where
  "progress_ok t = (if is_magnet t then completed_pieces (ta_sched t) = [] else bits_agree t)"

definition torrent_core :: "torrent_actor \<Rightarrow> bool" where
  "torrent_core t =
     (torrent_inv t \<and> progress_ok t \<and> (ta_manager t = CustomManager \<longrightarrow> ta_storage t \<noteq> InFile) \<and>
      distinct (ta_peers t) \<and> distinct (ta_trackers t))"

definition safe :: "torrent_action \<Rightarrow> bool" where
  "safe f = (\<forall>t. torrent_core t \<longrightarrow>
     torrent_core (fst (f t)) \<and> ta_metainfo (fst (f t)) = ta_metainfo t \<and> (is_magnet t \<longrightarrow> \<not> asks (snd (f t))))"

named_theorems safe_intros

lemma core_quiet:
  assumes "torrent_core t" and "quiet t t'"
  shows "torrent_core t'" and "ta_metainfo t' = ta_metainfo t"
proof -
  have c: "same_content t t'" "finished (ta_sched t') = finished (ta_sched t)" using assms(2) by (simp_all add: quiet_def)
  show "ta_metainfo t' = ta_metainfo t" using c(1) by (simp add: same_content_def)
  then have "is_magnet t' = is_magnet t" by (simp add: is_magnet_def)
  then have "progress_ok t'"
    using assms(1) bits_agree_frame [OF c] c(2) by (simp add: torrent_core_def progress_ok_def finished_def)
  then show "torrent_core t'"
    using assms quiet_inv [OF _ assms(2)] by (auto simp: torrent_core_def quiet_def same_content_def)
qed

lemma safe_routine [safe_intros]: "routine f \<Longrightarrow> safe f"
proof (unfold safe_def, intro allI impI)
  fix t
  assume f: "routine f" and core: "torrent_core t"
  then have q: "quiet t (fst (f t))" "completed_pieces (ta_sched t) = [] \<longrightarrow> \<not> asks (snd (f t))"
    by (simp_all add: routine_def torrent_core_def)
  have "is_magnet t \<Longrightarrow> completed_pieces (ta_sched t) = []" using core by (simp add: torrent_core_def progress_ok_def)
  with q core_quiet [OF core q(1)]
  show "torrent_core (fst (f t)) \<and> ta_metainfo (fst (f t)) = ta_metainfo t \<and> (is_magnet t \<longrightarrow> \<not> asks (snd (f t)))"
    by blast
qed

lemma safe_then_do [safe_intros]: "safe f \<Longrightarrow> safe g \<Longrightarrow> safe (then_do f g)"
  unfolding safe_def is_magnet_def asks_def then_do_simps set_append by (metis Un_iff)

lemma safe_id: "safe f \<Longrightarrow> (\<And>t. torrent_core t \<Longrightarrow> g t = f t) \<Longrightarrow> safe g"
  by (simp add: safe_def)

text \<open>A silent change of fields that the invariant does not restrict, or only restricts as stated.\<close>

lemma core_fields:
  assumes "torrent_core t" and "info_dict t' = info_dict t" and "ta_metainfo t' = ta_metainfo t" and "ta_bitfield t' = ta_bitfield t"
    and "ta_sched t' = ta_sched t" and "ta_manager t' = CustomManager \<longrightarrow> ta_storage t' \<noteq> InFile"
    and "distinct (ta_peers t')" and "distinct (ta_trackers t')"
  shows "torrent_core t'"
  using assms torrent_inv_fields [OF assms(2)]
  by (auto simp: torrent_core_def progress_ok_def is_magnet_def bits_agree_def torrent_inv_def)

lemma core_stores: "torrent_core t \<Longrightarrow> stores t t' \<Longrightarrow> torrent_core t'"
  by (rule core_fields [of t]) (auto simp: stores_fields torrent_core_def, auto simp: stores_def)

lemma stores_meta: "stores t t' \<Longrightarrow> ta_metainfo t' = ta_metainfo t"
  by (auto simp: stores_def)

section \<open>Handlers preserve the invariant\<close>

lemma safe_piece_completed:
  assumes "torrent_core t" and "info_dict t = Some info"
  shows "torrent_core (fst (piece_completed env p info i t)) \<and> ta_metainfo (fst (piece_completed env p info i t)) = ta_metainfo t
    \<and> (is_magnet t \<longrightarrow> \<not> asks (snd (piece_completed env p info i t)))"
proof -
  let ?t1 = "t\<lparr>ta_sched := fst (remove_piece_blocks i (ta_sched t))\<rparr>"
  let ?t2 = "fst (validate_and_commit_piece env info i ?t1)"
  let ?t3 = "?t2\<lparr>ta_sched := mark_piece_complete i (ta_sched ?t2), ta_bitfield := (ta_bitfield ?t2)[i := True]\<rparr>"
  let ?r = "piece_completed env p info i t"
  note st = validate_commit_stores [of ?t1 env info i]
  have "quiet t ?t1" using assms(1) by (simp add: quiet_def torrent_core_def torrent_inv_def inv_intros)
  then have core1: "torrent_core ?t1" using core_quiet(1) assms(1) by blast
  have core2: "torrent_core ?t2" by (rule core_stores [OF core1 st])
  have meta2: "ta_metainfo ?t2 = ta_metainfo t" using stores_meta [OF st] by simp
  show ?thesis
  proof (cases "snd (validate_and_commit_piece env info i ?t1)")
    case False
    then have "?r = fill_peer_request_window env p ?t2" by (simp add: piece_completed_def Let_def split_beta)
    moreover have "safe (fill_peer_request_window env p)" by (intro safe_intros routine_intros)
    ultimately show ?thesis using core2 meta2 by (simp add: safe_def is_magnet_def)
  next
    case True
    note c3 = set_bit_content [where t = ?t2 and s = "mark_piece_complete i (ta_sched ?t2)" and b = "(ta_bitfield ?t2)[i := True]"]
    have "torrent_inv ?t3"
      by (rule torrent_inv_fields [OF c3(1)]) (use core2 in \<open>simp_all add: torrent_core_def torrent_inv_def inv_intros\<close>)
    moreover have "progress_ok ?t3"
      using core2 unfolding torrent_core_def progress_ok_def bits_agree_def c3 is_magnet_def
      by (auto simp: mark_piece_complete_def Let_def list_update_beyond split: if_splits)
    ultimately have core3: "torrent_core ?t3" using core2 by (simp add: torrent_core_def)
    let ?g = "then_do (broadcast_to_peers_best_effort env (\<lambda>q. HavePiece q i))
        (\<lambda>t. if next_piece (ta_sched t) \<ge> piece_count info then finish_download env t
             else fill_peer_request_window env p t)"
    have eq: "?r = ?g ?t3"
      using True by (simp only: piece_completed_def Let_def split_beta if_True not_True_eq_False if_False)
    have "routine (broadcast_to_peers_best_effort env (\<lambda>q. HavePiece q i))"
      by (rule routine_broadcasts(2)) (simp add: asks_def)
    then have "safe ?g" by (intro safe_routine routine_then_do routine_if routine_begin routine_windows)
    then show ?thesis unfolding eq using core3 meta2 by (simp add: safe_def is_magnet_def)
  qed
qed

lemma safe_incoming [safe_intros]: "safe (handle_incoming_piece env p i off block)"
proof (unfold safe_def, intro allI impI)
  fix t
  assume core: "torrent_core t"
  have inv: "torrent_inv t" using core by (simp add: torrent_core_def)
  have written: "torrent_core (after_write i off block info t) \<and> ta_metainfo (after_write i off block info t) = ta_metainfo t" for info
  proof -
    let ?t1 = "fst (write_block_to_storage i off block t)"
    have c1: "torrent_core ?t1" "ta_metainfo ?t1 = ta_metainfo t"
      using core_stores [OF core write_block_stores] stores_meta [OF write_block_stores] by auto
    moreover have "quiet ?t1 (after_write i off block info t)"
      using c1(1) by (simp add: quiet_def after_write_def Let_def torrent_core_def torrent_inv_def inv_intros)
    ultimately show ?thesis using core_quiet by metis
  qed
  have cancels: "\<not> asks (block_cancels p i off block info t)" for info
    by (auto simp: block_cancels_def cancel_duplicate_def asks_def Let_def split_beta split: option.splits if_splits)
  have fill: "safe (fill_peer_request_window env p)" by (intro safe_intros routine_intros)
  show "torrent_core (fst (handle_incoming_piece env p i off block t)) \<and>
      ta_metainfo (fst (handle_incoming_piece env p i off block t)) = ta_metainfo t \<and>
      (is_magnet t \<longrightarrow> \<not> asks (snd (handle_incoming_piece env p i off block t)))"
  proof (cases rule: incoming_cases [where i = i and off = off and block = block and t = t and env = env and p = p])
    case ignored
    then show ?thesis using core by (simp add: asks_def)
  next
    case (partial info)
    then show ?thesis using fill written [of info] cancels [of info] by (auto simp: safe_def is_magnet_def asks_def)
  next
    case (whole info)
    have "info_dict (after_write i off block info t) = Some info"
      using whole(1) after_write_fields(3) [OF inv] by (simp add: stored_block_def)
    from safe_piece_completed [OF conjunct1 [OF written] this, where env = env and p = p and i = i] show ?thesis
      using whole(3) written [of info] cancels [of info] by (auto simp: is_magnet_def asks_def)
  qed
qed

text \<open>Applying a safe step to a state that satisfies the invariant.\<close>

lemma safeD:
  assumes "safe f" and "torrent_core t"
  shows "torrent_core (fst (f t))" and "ta_metainfo (fst (f t)) = ta_metainfo t" and "is_magnet t \<Longrightarrow> \<not> asks (snd (f t))"
  using assms by (auto simp: safe_def)

lemma safe_after:
  assumes "\<And>t. torrent_core t \<Longrightarrow> torrent_core (u t)" and "\<And>t. ta_metainfo (u t) = ta_metainfo t" and "safe f"
  shows "safe (\<lambda>t. f (u t))"
  using assms by (simp add: safe_def is_magnet_def)

lemma core_pre_start:
  "torrent_core t \<Longrightarrow> torrent_core (fst (manager_pre_start env info t))"
  "ta_metainfo (fst (manager_pre_start env info t)) = ta_metainfo t"
proof -
  assume core: "torrent_core t"
  have f: "info_dict (fst (manager_pre_start env info t)) = info_dict t" "ta_bitfield (fst (manager_pre_start env info t)) = ta_bitfield t"
    "ta_sched (fst (manager_pre_start env info t)) = ta_sched t" "ta_metainfo (fst (manager_pre_start env info t)) = ta_metainfo t"
    "ta_manager (fst (manager_pre_start env info t)) = CustomManager \<longrightarrow> ta_manager t = CustomManager"
    "ta_storage (fst (manager_pre_start env info t)) = ta_storage t" "ta_peers (fst (manager_pre_start env info t)) = ta_peers t"
    "ta_trackers (fst (manager_pre_start env info t)) = ta_trackers t"
    by (auto simp: manager_pre_start_def info_dict_def split: manager_proxy.split sum.split meta_info.split)
  then show "torrent_core (fst (manager_pre_start env info t))"
    using core by (intro core_fields [OF core]) (auto simp: torrent_core_def)
qed (simp add: manager_pre_start_def split: manager_proxy.split sum.split)

lemma safe_start [safe_intros]: "safe (torrent_start env)"
proof -
  let ?g = "\<lambda>t. case info_dict t of
       None \<Rightarrow> (transition_state ResolvingMetadata t, [])
     | Some info \<Rightarrow> (let (t1, ok) = manager_pre_start env info t
          in if \<not> ok then (transition_state Failed t1, []) else begin_transfer env t1)"
  have r: "safe (\<lambda>t. (transition_state s t, []))" "safe (begin_transfer env)" for s by (intro safe_intros routine_intros)+
  have "safe ?g"
  proof (unfold safe_def, intro allI impI)
    fix t
    assume core: "torrent_core t"
    show "torrent_core (fst (?g t)) \<and> ta_metainfo (fst (?g t)) = ta_metainfo t \<and> (is_magnet t \<longrightarrow> \<not> asks (snd (?g t)))"
    proof (cases "info_dict t")
      case None
      then show ?thesis using r(1) [of ResolvingMetadata] core by (simp add: safe_def)
    next
      case (Some info)
      let ?t1 = "fst (manager_pre_start env info t)"
      have m: "is_magnet ?t1 = is_magnet t" by (simp add: is_magnet_def core_pre_start(2))
      show ?thesis
        using Some r(1) [of Failed] r(2) core_pre_start [where t = t and env = env and info = info] core m
        by (simp add: safe_def split_beta Let_def asks_def)
    qed
  qed
  then have "safe (then_do send_ready_hooks ?g)" by (rule safe_then_do [OF safe_routine [OF routine_state_ops(1)]])
  moreover have "safe (\<lambda>t. (t, []))" by (intro safe_intros routine_intros)
  ultimately have "safe (\<lambda>t. if \<not> can_start (ta_state t) then (t, []) else then_do send_ready_hooks ?g t)"
    by (simp add: safe_def)
  then show ?thesis by (rule safe_id) (simp add: torrent_start_def)
qed

lemma core_flags [simp]:
  "torrent_core (t\<lparr>ta_pending_start := b\<rparr>) = torrent_core t" "torrent_core (t\<lparr>ta_autostart := b\<rparr>) = torrent_core t"
  "torrent_core (t\<lparr>ta_sufficient_peers := n\<rparr>) = torrent_core t" "torrent_core (t\<lparr>ta_ready_hooks := n\<rparr>) = torrent_core t"
  by (simp_all add: torrent_core_def torrent_inv_def info_ok_def progress_ok_def is_magnet_def bits_agree_def info_dict_def
      split: meta_info.split)

lemma safe_autostart [safe_intros]: "safe (autostart env)" "safe (torrent_next env)"
proof -
  have r: "safe (\<lambda>t. (transition_state Ready t, []))" "safe send_ready_hooks" "safe (torrent_start env)"
    by (intro safe_intros routine_intros)+
  have "safe (\<lambda>t. send_ready_hooks (transition_state Ready t))"
    using safe_then_do [OF r(1,2)] by (rule safe_id) (simp add: then_do_def split_beta)
  then have inner: "safe (\<lambda>t. if is_ready_to_start t then if ta_autostart t then torrent_start env t
      else send_ready_hooks (transition_state Ready t) else (t, []))" (is "safe ?f")
    using r(3) by (simp add: safe_def asks_def)
  show "safe (autostart env)"
    using inner unfolding safe_def autostart_def Let_def split_beta by (simp add: is_magnet_def)
  then show "safe (torrent_next env)" by (simp add: safe_def torrent_next_def asks_def)
qed

lemma safe_settings [safe_intros]:
  "safe (set_state env s)" "safe (set_auto_start env b)" "safe (set_sufficient_peers env n)" "safe (ready_hook env)" "safe (rechoke env)"
proof -
  have r: "safe (torrent_start env)" "safe (stop_transfer env)" "safe (\<lambda>t. (transition_state s t, []))" "safe (autostart env)"
    "safe (torrent_next env)" for s
    by (intro safe_intros routine_intros)+
  show "safe (set_state env s)"
    using r(1,2) r(3) [of s] by (cases s) (simp_all add: safe_def set_state_def)
  show "safe (set_auto_start env b)" "safe (set_sufficient_peers env n)"
    using r(5) by (simp_all add: safe_def set_auto_start_def set_sufficient_peers_def is_magnet_def)
  show "safe (ready_hook env)" using r(4) by (simp add: safe_def ready_hook_def is_magnet_def asks_def)
  show "safe (rechoke env)" by (intro safe_intros routine_intros)
qed

lemma core_recover: "torrent_core t \<Longrightarrow> torrent_core (recover_failed t)" "ta_metainfo (recover_failed t) = ta_metainfo t"
  using safeD(1,2) [OF safe_routine [OF routine_state_ops(5)]] by (auto simp: recover_failed_def transition_state_eq)

lemma core_storage_settings:
  assumes core: "torrent_core t"
  shows "torrent_core (snd (set_piece_storage env st t))" and "torrent_core (snd (set_piece_manager env t))"
    and "torrent_core (snd (set_output_path env path t))"
proof -
  have "torrent_core (t\<lparr>ta_storage := st\<rparr>)" if "ta_manager t = CustomManager \<longrightarrow> st \<noteq> InFile"
    using core that by (intro core_fields [OF core]) (auto simp: torrent_core_def info_dict_def split: meta_info.split)
  then show "torrent_core (snd (set_piece_storage env st t))"
    using core core_recover(1) by (auto simp: set_piece_storage_def split: storage_strategy.splits)
  show "torrent_core (snd (set_piece_manager env t))"
    using core by (auto simp: set_piece_manager_def intro!: core_fields [OF core] split: storage_strategy.splits)
      (auto simp: torrent_core_def info_dict_def split: meta_info.split)
  have "torrent_core (t\<lparr>ta_manager := DefaultManager m\<rparr>)" for m
    using core by (intro core_fields [OF core]) (auto simp: torrent_core_def info_dict_def split: meta_info.split)
  then show "torrent_core (snd (set_output_path env path t))"
    using core core_recover(1) by (auto simp: set_output_path_def Let_def split: manager_proxy.splits)
qed

lemma safe_sched_update:
  assumes "\<And>s. sched_inv s \<Longrightarrow> sched_inv (g s)" and "\<And>s. finished (g s) = finished s" and "safe f"
  shows "safe (\<lambda>t. f (t\<lparr>ta_sched := g (ta_sched t)\<rparr>))"
proof (rule safe_after [OF _ _ assms(3)])
  fix t
  assume core: "torrent_core t"
  then have "quiet t (t\<lparr>ta_sched := g (ta_sched t)\<rparr>)"
    using assms(1,2) by (simp add: quiet_def torrent_core_def torrent_inv_def)
  with core show "torrent_core (t\<lparr>ta_sched := g (ta_sched t)\<rparr>)" by (rule core_quiet(1))
qed simp

lemma finished_availability [simp]: "finished (update_peer_availability p av s) = finished s"
  by (simp add: finished_def update_peer_availability_def)

lemma safe_peer_events [safe_intros]:
  "safe (peer_rejected_request env p i off)" "safe (peer_ready env p av)" "safe (kill_peer env p)"
  "safe (\<lambda>t. snd (disconnect_peer env p t))"
proof -
  have fill: "safe (fill_peer_request_window env p)" "safe (fill_all_peer_request_windows env)" "safe (\<lambda>t. (t, []))"
    by (intro safe_intros routine_intros)+
  show "safe (peer_rejected_request env p i off)"
    using safe_sched_update [where g = "release_peer_request p i off", OF _ _ fill(1)]
    by (simp add: inv_intros peer_rejected_request_def [abs_def])
  have "safe (\<lambda>t. if p \<in> set (ta_peers t) \<and> env_alive env p \<and> ta_state t = Downloading \<and> is_ready t
      then fill_peer_request_window env p t else (t, []))" (is "safe ?f")
    using fill(1) by (simp add: safe_def asks_def)
  from safe_sched_update [where g = "update_peer_availability p av", OF _ _ this] show "safe (peer_ready env p av)"
    by (simp add: inv_intros peer_ready_def [abs_def] Let_def)
  have rm: "torrent_core (fst (remove_peer p t))" "ta_metainfo (fst (remove_peer p t)) = ta_metainfo t"
      "\<not> asks (fst (snd (remove_peer p t)))" if "torrent_core t" for t
  proof -
    have "quiet t (fst (remove_peer p t))"
      using that by (simp add: quiet_def remove_peer_def Let_def torrent_core_def torrent_inv_def inv_intros same_content_def distinct_removeAll)
    with that show "torrent_core (fst (remove_peer p t))" "ta_metainfo (fst (remove_peer p t)) = ta_metainfo t"
      by (rule core_quiet)+
    show "\<not> asks (fst (snd (remove_peer p t)))" by (simp add: remove_peer_def Let_def asks_def)
  qed
  show "safe (kill_peer env p)" "safe (\<lambda>t. snd (disconnect_peer env p t))"
    using rm fill(2) by (auto simp: safe_def kill_peer_def disconnect_peer_def Let_def split_beta asks_def is_magnet_def)
qed

lemma safe_tables [safe_intros]:
  "safe (peer_connected p)" "safe (\<lambda>t. (snd (register_tracker_actor tr t), []))" "safe (\<lambda>t. snd (remove_tracker env tr t))"
proof -
  have peers: "torrent_core (t\<lparr>ta_peers := ps\<rparr>)" if "torrent_core t" "distinct ps" for t ps
    using that by (intro core_fields [OF that(1)]) (auto simp: torrent_core_def info_dict_def split: meta_info.split)
  have trs: "torrent_core (t\<lparr>ta_trackers := ts\<rparr>)" if "torrent_core t" "distinct ts" for t ts
    using that by (intro core_fields [OF that(1)]) (auto simp: torrent_core_def info_dict_def split: meta_info.split)
  have d: "distinct (ta_peers t)" "distinct (ta_trackers t)" if "torrent_core t" for t
    using that by (simp_all add: torrent_core_def)
  show "safe (peer_connected p)"
    using peers d(1) by (auto simp: safe_def peer_connected_def insert_peer_def asks_def split: option.splits)
  show "safe (\<lambda>t. (snd (register_tracker_actor tr t), []))"
    using trs d(2) by (auto simp: safe_def register_tracker_actor_def asks_def)
  show "safe (\<lambda>t. snd (remove_tracker env tr t))"
    using trs d(2) by (auto simp: safe_def remove_tracker_def asks_def Let_def distinct_removeAll)
qed

text \<open>Metadata that a peer supplies is assumed to have a positive piece length.\<close>

definition env_ok :: "torrent_env \<Rightarrow> bool" where
  "env_ok env = (\<forall>bytes info. env_decode_info env bytes = Inr info \<longrightarrow> 0 < info_piece_length info)"

lemma safe_info_bytes [safe_intros]:
  assumes "env_ok env"
  shows "safe (info_bytes env bytes)"
proof (unfold safe_def, intro allI impI)
  fix t
  assume core: "torrent_core t"
  show "torrent_core (fst (info_bytes env bytes t)) \<and> ta_metainfo (fst (info_bytes env bytes t)) = ta_metainfo t \<and>
      (is_magnet t \<longrightarrow> \<not> asks (snd (info_bytes env bytes t)))"
  proof (cases "info_dict t = None \<and> env_sha1 env bytes = ta_info_hash t \<and> (\<exists>info. env_decode_info env bytes = Inr info)")
    case False
    then show ?thesis using core by (auto simp: info_bytes_def asks_def split: sum.splits)
  next
    case True
    then obtain info where info: "env_decode_info env bytes = Inr info" by blast
    let ?s = "if ta_state t = ResolvingMetadata then Added else ta_state t"
    let ?t2 = "t\<lparr>ta_bitfield := replicate (piece_count info) False, ta_resolved := Some info, ta_state := ?s\<rparr>"
    have mag: "is_magnet t" using True by (auto simp: info_dict_def is_magnet_def split: meta_info.splits)
    have "torrent_core ?t2"
      using core mag assms info
      by (auto simp: torrent_core_def torrent_inv_def progress_ok_def is_magnet_def info_ok_def info_dict_def env_ok_def
          split: meta_info.splits)
    moreover have "safe (broadcast_to_peers env (\<lambda>q. HaveInfoDict q (replicate (piece_count info) False)))"
      by (intro safe_intros routine_broadcasts) (simp add: asks_def)
    ultimately show ?thesis
      using True info by (auto simp: info_bytes_def Let_def transition_state_eq safe_def is_magnet_def)
  qed
qed

lemma safe_receive:
  assumes "env_ok env"
  shows "safe (torrent_receive env msg)"
proof (cases msg)
  case (InfoBytes b)
  then show ?thesis using safe_info_bytes [OF assms] by (simp add: safe_def)
next
  case (SetPieceStorage s)
  then show ?thesis
    using core_storage_settings(1) core_recover(2)
    by (auto simp: safe_def asks_def set_piece_storage_def)
next
  case SetPieceManager
  then show ?thesis
    using core_storage_settings(2) by (auto simp: safe_def asks_def set_piece_manager_def)
next
  case (SetOutputPath path)
  then show ?thesis
    using core_storage_settings(3) core_recover(2)
    by (auto simp: safe_def asks_def set_output_path_def Let_def split: manager_proxy.split)
qed (use safe_incoming safe_settings safe_peer_events safe_tables in \<open>simp_all add: safe_def\<close>)

section \<open>The rechoke timer\<close>

text \<open>
  Rechoke rounds keep the transfer going: they expire requests and refill the windows. A round is
  run by a timer message, so a torrent that transfers must always have its timer set.
\<close>

definition timer_ok :: "torrent_actor \<Rightarrow> bool" where
  "timer_ok t = (is_transfer_active (ta_state t) \<longrightarrow> ta_rechoke t)"

definition still :: "torrent_action \<Rightarrow> bool" where
  "still f = (\<forall>t. ta_state (fst (f t)) = ta_state t \<and> ta_rechoke (fst (f t)) = ta_rechoke t)"

definition rearms :: "torrent_action \<Rightarrow> bool" where
  "rearms f = (\<forall>t. timer_ok (fst (f t)))"

named_theorems still_intros

lemma still_timed: "still f \<Longrightarrow> timer_ok t \<Longrightarrow> timer_ok (fst (f t))"
  by (simp add: still_def timer_ok_def)

lemma still_then_do [still_intros]: "still f \<Longrightarrow> still g \<Longrightarrow> still (then_do f g)"
  by (simp add: still_def)

lemma rearms_then_do: "rearms g \<Longrightarrow> rearms (then_do f g)"
  by (simp add: rearms_def)

lemma rearms_schedule: "rearms schedule_next_rechoke"
  by (simp add: rearms_def timer_ok_def schedule_next_rechoke_def)

lemma still_trackers [still_intros]:
  "still (update_trackers env u)" "still (broadcast_to_trackers env)" "still (update_tracker_progress env)"
  "still (try_update_tracker_progress env)" "still (announce_tracker_event env e)"
  by (auto simp: still_def tracker_broadcasts update_tracker_progress_def try_update_tracker_progress_def
      announce_event_simps split: option.split)

lemma still_fill [still_intros]: "still (fill_window_to env p n)"
  by (auto simp: still_def fill_window_to_def Let_def split_beta split: option.split)

lemma still_windows [still_intros]: "still (fill_peer_request_window env p)" "still (fill_initial_peer_request_window env p)"
  using still_fill by (simp_all add: still_def fill_peer_request_window_def fill_initial_peer_request_window_def)

lemma still_for_peers [still_intros]: "(\<And>p. still (f p)) \<Longrightarrow> still (for_peers f ps)"
proof (induction ps)
  case (Cons p ps)
  then show ?case by (simp add: still_def)
qed (simp add: still_def)

lemma still_fill_all [still_intros]: "still (fill_all_peer_request_windows env)"
  using still_for_peers [OF still_windows(1)] by (simp add: still_def fill_all_peer_request_windows_def)

lemma still_rechoke [still_intros]: "still (rechoke_peers env)"
  using still_fill_all [of env]
  by (auto simp: still_def rechoke_peers_def Let_def split_beta still_trackers(4) [unfolded still_def, THEN spec, THEN conjunct1]
      still_trackers(4) [unfolded still_def, THEN spec, THEN conjunct2])

lemma still_broadcasts [still_intros]: "still (broadcast_to_peers env msg)" "still (broadcast_to_peers_best_effort env msg)"
  by (simp_all add: still_def broadcast_to_peers_def broadcast_to_peers_best_effort_def Let_def)

lemma rearming: "rearms (begin_transfer env)" "rearms (rechoke env)" "rearms (finish_download env)"
  unfolding begin_transfer_def rechoke_def finish_download_def by (intro rearms_then_do rearms_schedule)+

lemma timer_start: "timer_ok t \<Longrightarrow> timer_ok (fst (torrent_start env t))"
  using rearming(1) [of env]
  by (auto simp: torrent_start_def Let_def split_beta rearms_def transition_state_eq timer_ok_def torrent_state_defs
      split: option.splits)

lemma timer_stop: "timer_ok t \<Longrightarrow> timer_ok (fst (stop_transfer env t))"
proof -
  have "still (then_do (broadcast_to_peers env (\<lambda>q. SetChoked q True)) (then_do (update_tracker_progress env)
      (then_do (update_trackers env (UpdEvent StoppedEvent)) (then_do (broadcast_to_trackers env) (update_trackers env (UpdEvent EmptyEvent))))))"
    by (intro still_intros)
  then show "timer_ok t \<Longrightarrow> timer_ok (fst (stop_transfer env t))"
    by (simp add: stop_transfer_def Let_def transition_state_eq still_def timer_ok_def torrent_state_defs)
qed

lemma timer_autostart: "timer_ok t \<Longrightarrow> timer_ok (fst (autostart env t))" "timer_ok t \<Longrightarrow> timer_ok (fst (torrent_next env t))"
proof -
  have flag: "timer_ok (t\<lparr>ta_pending_start := b\<rparr>) = timer_ok t" for t b by (simp add: timer_ok_def)
  have *: "timer_ok t \<Longrightarrow> timer_ok (fst (autostart env t))" for t
    using timer_start [of "t\<lparr>ta_pending_start := True\<rparr>" env]
    by (auto simp: autostart_def Let_def split_beta flag send_ready_hooks_def transition_state_eq)
      (simp_all add: timer_ok_def torrent_state_defs)
  then show "timer_ok t \<Longrightarrow> timer_ok (fst (autostart env t))" "timer_ok t \<Longrightarrow> timer_ok (fst (torrent_next env t))"
    by (auto simp: torrent_next_def)
qed

lemma timer_piece_completed: "timer_ok t \<Longrightarrow> timer_ok (fst (piece_completed env p info i t))"
proof -
  assume ok: "timer_ok t"
  let ?t1 = "t\<lparr>ta_sched := fst (remove_piece_blocks i (ta_sched t))\<rparr>"
  have "ta_state (fst (validate_and_commit_piece env info i ?t1)) = ta_state t \<and> ta_rechoke (fst (validate_and_commit_piece env info i ?t1)) = ta_rechoke t"
    using validate_commit_stores [of ?t1 env info i] by (auto simp: stores_def)
  with ok have ok2: "timer_ok (fst (validate_and_commit_piece env info i ?t1))" by (simp add: timer_ok_def)
  show ?thesis
    using rearming(3) [of env] still_broadcasts(2) [of env "\<lambda>q. HavePiece q i"] still_windows(1) [of env p] ok2
    by (auto simp: piece_completed_def Let_def split_beta rearms_def still_def timer_ok_def)
qed

lemma timer_incoming: "timer_ok t \<Longrightarrow> timer_ok (fst (handle_incoming_piece env p i off block t))"
proof -
  assume ok: "timer_ok t"
  have "timer_ok (after_write i off block info t)" for info
    using write_block_stores [of t i off block] ok by (auto simp: stores_def after_write_def Let_def timer_ok_def)
  then show ?thesis
    by (cases rule: incoming_cases [where i = i and off = off and block = block and t = t and env = env and p = p])
      (use ok still_timed [OF still_windows(1)] timer_piece_completed in auto)
qed

lemma timer_receive: "timer_ok t \<Longrightarrow> timer_ok (fst (torrent_receive env msg t))"
proof (cases msg)
  case (IncomingPiece p i off block)
  assume "timer_ok t"
  then show ?thesis using timer_incoming by (simp add: IncomingPiece)
next
  case (SetState s)
  assume "timer_ok t"
  then show ?thesis
    using timer_start timer_stop by (cases s) (auto simp: SetState set_state_def transition_state_eq timer_ok_def torrent_state_defs)
next
  case Rechoke
  then show ?thesis using rearming(2) by (simp add: rearms_def)
next
  case ReadyHook
  assume ok: "timer_ok t"
  then have "timer_ok (t\<lparr>ta_ready_hooks := n\<rparr>)" for n by (simp add: timer_ok_def)
  then show ?thesis using timer_autostart(1) ok by (auto simp: ReadyHook ready_hook_def)
next
  case (SetAutoStart b)
  assume ok: "timer_ok t"
  then have "timer_ok (t\<lparr>ta_autostart := b\<rparr>)" by (simp add: timer_ok_def)
  then show ?thesis using timer_autostart(2) by (simp add: SetAutoStart set_auto_start_def)
next
  case (SetSufficientPeers n)
  assume ok: "timer_ok t"
  then have "timer_ok (t\<lparr>ta_sufficient_peers := n\<rparr>)" by (simp add: timer_ok_def)
  then show ?thesis using timer_autostart(2) by (simp add: SetSufficientPeers set_sufficient_peers_def)
qed (use still_fill_all [of env] still_windows(1) [of env] still_broadcasts(1) [of env] in
    \<open>auto simp: still_def timer_ok_def torrent_state_defs peer_connected_def insert_peer_def peer_rejected_request_def info_bytes_def
      peer_ready_def disconnect_peer_def kill_peer_def remove_peer_def register_tracker_actor_def remove_tracker_def
      set_piece_storage_def set_piece_manager_def set_output_path_def recover_failed_def transition_state_eq Let_def split_beta
      split: option.splits sum.splits manager_proxy.splits storage_strategy.splits\<close>)

section \<open>Reachable states\<close>

definition args_ok :: "torrent_args \<Rightarrow> bool" where
  "args_ok args = (case arg_metainfo args of MTorrent f \<Rightarrow> 0 < info_piece_length (tf_info f) | MMagnet _ \<Rightarrow> True)"

text \<open>A torrent actor runs \<^verbatim>\<open>next\<close> and then one message, in turns; the environment may change at any time.\<close>

inductive torrent_reachable :: "torrent_actor \<Rightarrow> bool" where
  create: "torrent_on_start env from_hex files cache args = Inr t \<Longrightarrow> args_ok args \<Longrightarrow> torrent_reachable t"
| idle: "torrent_reachable t \<Longrightarrow> torrent_reachable (fst (torrent_next env t))"
| message: "torrent_reachable t \<Longrightarrow> env_ok env \<Longrightarrow> torrent_reachable (fst (torrent_receive env msg t))"

lemma register_all_frame:
  "\<exists>trs. fold (\<lambda>tr t. snd (register_tracker_actor tr t)) xs t = t\<lparr>ta_trackers := trs\<rparr>
     \<and> (distinct (ta_trackers t) \<longrightarrow> distinct trs)"
proof (induction xs arbitrary: t)
  case Nil
  show ?case by (intro exI [of _ "ta_trackers t"]) simp
next
  case (Cons x xs)
  let ?u = "snd (register_tracker_actor x t)"
  have "\<exists>us. ?u = t\<lparr>ta_trackers := us\<rparr> \<and> (distinct (ta_trackers t) \<longrightarrow> distinct us)"
    by (cases "snd (register_tracker_actor x t) = t")
      (auto simp: register_tracker_actor_def intro: exI [of _ "ta_trackers t"] split: if_splits)
  then obtain us where us: "?u = t\<lparr>ta_trackers := us\<rparr>" "distinct (ta_trackers t) \<longrightarrow> distinct us" by blast
  obtain trs where "fold (\<lambda>tr t. snd (register_tracker_actor tr t)) xs ?u = ?u\<lparr>ta_trackers := trs\<rparr>"
    "distinct (ta_trackers ?u) \<longrightarrow> distinct trs" using Cons.IH by blast
  with us show ?case by (intro exI [of _ trs]) simp
qed

lemma core_fresh:
  assumes "args_ok args"
  shows "torrent_core (torrent_fresh h files cache args)" and "timer_ok (torrent_fresh h files cache args)"
proof -
  have s: "sched_inv (sched_new n)" "completed_pieces (sched_new n) = replicate n False" for n
    by (rule sched_inv_new) (simp add: sched_new_def)
  show "torrent_core (torrent_fresh h files cache args)"
    using assms s
    by (cases "arg_metainfo args") (simp_all add: torrent_core_def torrent_inv_def info_ok_def args_ok_def progress_ok_def
        is_magnet_def bits_agree_def info_dict_def torrent_fresh_def Let_def)
  show "timer_ok (torrent_fresh h files cache args)"
    by (cases "arg_metainfo args") (simp_all add: torrent_fresh_def Let_def timer_ok_def torrent_state_defs)
qed

lemma core_on_start:
  assumes "torrent_on_start env from_hex files cache args = Inr t" and "args_ok args"
  shows "torrent_core t \<and> timer_ok t"
proof -
  obtain h where u: "t = fold (\<lambda>tr t. snd (register_tracker_actor tr t)) (meta_announces (arg_metainfo args))
      (torrent_fresh h files cache args)" (is "t = fold _ _ ?u")
    using assms(1) by (auto simp: torrent_on_start_def split: sum.splits if_splits)
  note core = core_fresh [OF assms(2), of h files cache]
  have "distinct (ta_trackers ?u)" using core(1) by (simp add: torrent_core_def)
  then obtain trs where trs: "t = ?u\<lparr>ta_trackers := trs\<rparr>" "distinct trs"
    using register_all_frame [of "meta_announces (arg_metainfo args)" ?u] unfolding u by blast
  have "torrent_core (v\<lparr>ta_trackers := trs\<rparr>)" if "torrent_core v" for v
    using that trs(2) by (intro core_fields [OF that]) (auto simp: torrent_core_def info_dict_def split: meta_info.split)
  with core trs(1) show ?thesis by (simp add: timer_ok_def)
qed

lemma reachable_core: "torrent_reachable t \<Longrightarrow> torrent_core t \<and> timer_ok t"
proof (induction rule: torrent_reachable.induct)
  case (create env from_hex files cache args t)
  then show ?case by (rule core_on_start)
next
  case (idle t env)
  then show ?case using safeD(1) [OF safe_autostart(2)] timer_autostart(2) by blast
next
  case (message t env msg)
  then show ?case using safeD(1) [OF safe_receive] timer_receive by blast
qed


text \<open>
  A torrent added from a magnet link never requests a block. Its scheduler is created for zero
  pieces and is not replaced when the metadata arrives, so no message in no reachable state makes
  the torrent send a block request.
\<close>

theorem magnet_never_requests:
  assumes "torrent_reachable t" and "is_magnet t" and "env_ok env"
  shows "NeedPiece p i off len \<notin> set (snd (torrent_receive env msg t)) \<and>
    NeedPiece p i off len \<notin> set (snd (torrent_next env t))"
proof -
  have core: "torrent_core t" using reachable_core [OF assms(1)] by blast
  show ?thesis
    using safeD(3) [OF safe_receive [OF assms(3)] core assms(2), of msg] safeD(3) [OF safe_autostart(2) core assms(2), of env]
    by (auto simp: asks_def)
qed

section \<open>Starting and stopping\<close>

lemma begin_transfer_outcome:
  "ta_state (fst (begin_transfer env t)) = (if torrent_is_full t then Seeding else Downloading)"
  "ta_rechoke (fst (begin_transfer env t))"
  "tr \<in> set (ta_trackers t) \<Longrightarrow> env_tracker_alive env tr \<Longrightarrow>
     TrackerAnnounce tr \<in> set (snd (begin_transfer env t)) \<and>
     TellTracker tr (UpdEvent StartedEvent) \<in> set (snd (begin_transfer env t))"
proof -
  obtain trs where trs: "fst (update_tracker_progress env t) = t\<lparr>ta_trackers := trs\<rparr>"
    "{tr \<in> set trs. env_tracker_alive env tr} = {tr \<in> set (ta_trackers t). env_tracker_alive env tr}"
    using progress_frame(1) by blast
  let ?u = "fst (enter_transfer env (t\<lparr>ta_trackers := trs\<rparr>))"
  let ?rest = "then_do (announce_tracker_event env StartedEvent) (then_do (fill_initial_windows env) (rechoke_peers env))"
  have u: "ta_state ?u = (if torrent_is_full t then Seeding else Downloading)" "ta_trackers ?u = trs"
    by (simp_all add: enter_transfer_def transition_state_eq torrent_is_full_def)
  have init: "still (fill_initial_windows env)"
    using still_for_peers [OF still_windows(2)] by (simp add: still_def fill_initial_windows_def)
  have "still ?rest" by (intro still_intros init)
  then have st: "ta_state (fst (?rest ?u)) = ta_state ?u" by (simp add: still_def)
  have eq: "fst (begin_transfer env t) = fst (schedule_next_rechoke (fst (?rest ?u)))"
    by (simp add: begin_transfer_def trs(1))
  show s: "ta_state (fst (begin_transfer env t)) = (if torrent_is_full t then Seeding else Downloading)"
    unfolding eq schedule_rechoke_frame(3) st by (rule u(1))
  show "ta_rechoke (fst (begin_transfer env t))"
    using rearming(1) [of env] s by (auto simp: rearms_def timer_ok_def torrent_state_defs split: if_splits)
  assume tr: "tr \<in> set (ta_trackers t)" "env_tracker_alive env tr"
  then have "tr \<in> set trs" using trs(2) by auto
  with tr u(2) show "TrackerAnnounce tr \<in> set (snd (begin_transfer env t)) \<and>
      TellTracker tr (UpdEvent StartedEvent) \<in> set (snd (begin_transfer env t))"
    by (simp add: begin_transfer_def trs(1) announce_event_simps)
qed

lemma still_hooks: "ta_ready_hooks (fst (begin_transfer env t)) = ta_ready_hooks t"
proof -
  have fill: "ta_ready_hooks (fst (fill_window_to env p n t)) = ta_ready_hooks t" for p n t
    by (auto simp: fill_window_to_def Let_def split_beta split: option.split)
  have loop: "ta_ready_hooks (fst (for_peers f ps t)) = ta_ready_hooks t"
    if "\<And>p t. ta_ready_hooks (fst (f p t)) = ta_ready_hooks t" for f ps t
    by (induction ps arbitrary: t) (simp_all add: that)
  have all: "ta_ready_hooks (fst (fill_all_peer_request_windows env t)) = ta_ready_hooks t"
    "ta_ready_hooks (fst (fill_initial_windows env t)) = ta_ready_hooks t" for t
    using loop [of "fill_peer_request_window env"] loop [of "fill_initial_peer_request_window env"]
    by (simp_all add: fill_all_peer_request_windows_def fill_initial_windows_def fill_peer_request_window_def
        fill_initial_peer_request_window_def fill)
  have progress: "ta_ready_hooks (fst (update_tracker_progress env t)) = ta_ready_hooks t"
    "ta_ready_hooks (fst (try_update_tracker_progress env t)) = ta_ready_hooks t" for t
    using progress_frame(1) [of env t] progress_frame(2) [of env t] by auto
  have "ta_ready_hooks (fst (rechoke_peers env t)) = ta_ready_hooks t" for t
    by (simp add: rechoke_peers_def Let_def split_beta all progress)
  then show ?thesis
    by (simp add: begin_transfer_def all progress announce_event_simps enter_transfer_def transition_state_eq schedule_next_rechoke_def)
qed

text \<open>
  Starting has one of four outcomes. A torrent that may start fires the waiting hooks and then
  waits for metadata if it has none, fails if the piece manager cannot be initialised, and otherwise
  seeds when every piece is there and downloads when not; in that last case the rechoke timer is
  set and every live tracker is told of the start and asked to announce it. In any other state
  starting does nothing.
\<close>

theorem start_outcome:
  "if can_start (ta_state t)
   then ta_ready_hooks (fst (torrent_start env t)) = 0 \<and>
     (case info_dict t of
        None \<Rightarrow> ta_state (fst (torrent_start env t)) = ResolvingMetadata
      | Some info \<Rightarrow>
          if snd (manager_pre_start env info t)
          then ta_state (fst (torrent_start env t)) = (if torrent_is_full t then Seeding else Downloading) \<and>
            ta_rechoke (fst (torrent_start env t)) \<and>
            TrackerAnnounce ` {tr \<in> set (ta_trackers t). env_tracker_alive env tr} \<subseteq> set (snd (torrent_start env t)) \<and>
            (\<lambda>tr. TellTracker tr (UpdEvent StartedEvent)) ` {tr \<in> set (ta_trackers t). env_tracker_alive env tr}
              \<subseteq> set (snd (torrent_start env t))
          else ta_state (fst (torrent_start env t)) = Failed)
   else torrent_start env t = (t, [])"
proof (cases "can_start (ta_state t)")
  case True
  let ?u = "fst (send_ready_hooks t)"
  have u: "info_dict ?u = info_dict t" "ta_manager ?u = ta_manager t" "ta_trackers ?u = ta_trackers t" "ta_ready_hooks ?u = 0"
    "torrent_is_full ?u = torrent_is_full t"
    by (simp_all add: send_ready_hooks_def info_dict_def torrent_is_full_def split: meta_info.split)
  show ?thesis
  proof (cases "info_dict t")
    case None
    then show ?thesis using True u by (simp add: torrent_start_def transition_state_eq)
  next
    case (Some info)
    let ?v = "fst (manager_pre_start env info ?u)"
    have v: "snd (manager_pre_start env info ?u) = snd (manager_pre_start env info t)" "ta_trackers ?v = ta_trackers t"
      "torrent_is_full ?v = torrent_is_full t" "ta_ready_hooks ?v = 0"
      using u(3-5) by (simp_all add: manager_pre_start_def u(2) torrent_is_full_def split: manager_proxy.split sum.split)
    have eq: "fst (torrent_start env t) = (if snd (manager_pre_start env info t) then fst (begin_transfer env ?v) else transition_state Failed ?v)"
      "snd (manager_pre_start env info t) \<Longrightarrow> snd (torrent_start env t) = snd (send_ready_hooks t) @ snd (begin_transfer env ?v)"
      using True Some v(1) u(1) by (simp_all add: torrent_start_def Let_def split_beta)
    show ?thesis
      using True Some begin_transfer_outcome [where env = env and t = ?v] v(2-4) still_hooks [of env ?v] eq
      by (auto simp: transition_state_eq)
  qed
qed (simp add: torrent_start_def)

section \<open>A torrent at rest\<close>

text \<open>Only a downloading torrent asks for blocks; a step that cannot start the download is dormant.\<close>

definition dormant :: "torrent_action \<Rightarrow> bool" where
  "dormant f = (\<forall>t. ta_state t \<noteq> Downloading \<longrightarrow> ta_state (fst (f t)) \<noteq> Downloading \<and> \<not> asks (snd (f t)))"

named_theorems dormant_intros

lemma dormant_then_do [dormant_intros]: "dormant f \<Longrightarrow> dormant g \<Longrightarrow> dormant (then_do f g)"
  by (auto simp: dormant_def asks_def)

lemma dormant_fill [dormant_intros]:
  "dormant (fill_window_to env p n)" "dormant (fill_peer_request_window env p)" "dormant (fill_initial_peer_request_window env p)"
  by (simp_all add: dormant_def fill_window_to_def fill_peer_request_window_def fill_initial_peer_request_window_def asks_def)

lemma dormant_for_peers [dormant_intros]: "(\<And>p. dormant (f p)) \<Longrightarrow> dormant (for_peers f ps)"
proof (induction ps)
  case (Cons p ps)
  then show ?case by (auto simp: dormant_def asks_def)
qed (simp add: dormant_def asks_def)

lemma dormant_fill_all [dormant_intros]: "dormant (fill_all_peer_request_windows env)"
proof -
  have "dormant (for_peers (fill_peer_request_window env) ps)" for ps by (intro dormant_intros)
  then show ?thesis by (simp add: dormant_def fill_all_peer_request_windows_def asks_def)
qed

lemma dormant_still: "still f \<Longrightarrow> (\<And>t. \<not> asks (snd (f t))) \<Longrightarrow> dormant f"
  by (simp add: dormant_def still_def)

lemma dormant_tell [dormant_intros]: "(\<And>tr. \<not> asks [msg tr]) \<Longrightarrow> dormant (tell_trackers env msg)"
  by (auto simp: dormant_def asks_def)

lemma dormant_trackers [dormant_intros]:
  "dormant (update_trackers env u)" "dormant (update_trackers_best_effort env u)" "dormant (broadcast_to_trackers env)"
  unfolding tracker_broadcasts by (intro dormant_intros; simp add: asks_def)+

lemma dormant_progress [dormant_intros]:
  "dormant (update_tracker_progress env)" "dormant (try_update_tracker_progress env)" "dormant (announce_tracker_event env e)"
proof -
  have *: "dormant (then_do (update_trackers env a) (update_trackers env b))"
    "dormant (then_do (update_trackers_best_effort env a) (update_trackers_best_effort env b))" for a b
    by (intro dormant_intros)+
  show "dormant (update_tracker_progress env)" "dormant (try_update_tracker_progress env)"
    using * by (auto simp: dormant_def update_tracker_progress_def try_update_tracker_progress_def asks_def split: option.splits)
  show "dormant (announce_tracker_event env e)"
    unfolding announce_tracker_event_def by (intro dormant_intros)
qed

lemma dormant_broadcasts [dormant_intros]:
  assumes "\<And>q. \<not> asks [msg q]"
  shows "dormant (broadcast_to_peers env msg)" and "dormant (broadcast_to_peers_best_effort env msg)"
  by (rule dormant_still, rule still_broadcasts,
      use assms in \<open>auto simp: asks_def broadcast_to_peers_def broadcast_to_peers_best_effort_def Let_def\<close>)+

lemma dormant_rechoke [dormant_intros]: "dormant (rechoke_peers env)"
proof (unfold dormant_def, intro allI impI)
  fix t :: torrent_actor
  assume s: "ta_state t \<noteq> Downloading"
  show "ta_state (fst (rechoke_peers env t)) \<noteq> Downloading \<and> \<not> asks (snd (rechoke_peers env t))"
  proof (cases "is_transfer_active (ta_state t)")
    case True
    have "ta_state (rechoke_state env t) = ta_state t"
      using still_trackers(4) by (simp add: rechoke_state_def Let_def still_def)
    then have "\<not> asks (snd (fill_all_peer_request_windows env (rechoke_state env t)))"
      using dormant_fill_all s by (simp add: dormant_def)
    moreover obtain es where "\<not> asks es" "snd (rechoke_peers env t) = es @
      choke_effects (ta_peers t) (unchoked (snd (decide (collect_stats env t) (ta_state t) (ta_choking t))))
        (collect_stats env t) @ snd (fill_all_peer_request_windows env (rechoke_state env t))"
      using rechoke_active(2) [OF True, of env] by (fastforce simp: asks_def)
    ultimately show ?thesis
      using still_rechoke [of env] s choke_effects_not_asks by (auto simp: asks_def still_def)
  qed (simp add: rechoke_peers_def asks_def s)
qed

lemma dormant_finish [dormant_intros]: "dormant (finish_download env)" "dormant (rechoke env)"
proof -
  have *: "dormant schedule_next_rechoke" "dormant (\<lambda>t. (transition_state Seeding t, []))"
    by (simp_all add: dormant_def schedule_next_rechoke_def transition_state_eq asks_def)
  show "dormant (finish_download env)" "dormant (rechoke env)"
    unfolding finish_download_def rechoke_def by (intro dormant_intros *)+
qed

lemma dormant_piece_completed: "dormant (piece_completed env p info i)"
proof (unfold dormant_def, intro allI impI)
  fix t :: torrent_actor
  assume s: "ta_state t \<noteq> Downloading"
  let ?t1 = "t\<lparr>ta_sched := fst (remove_piece_blocks i (ta_sched t))\<rparr>"
  have s2: "ta_state (fst (validate_and_commit_piece env info i ?t1)) \<noteq> Downloading"
    using validate_commit_stores [of ?t1 env info i] s by (auto simp: stores_def)
  have "dormant (then_do (broadcast_to_peers_best_effort env (\<lambda>q. HavePiece q i))
      (\<lambda>t. if next_piece (ta_sched t) \<ge> piece_count info then finish_download env t else fill_peer_request_window env p t))"
    using dormant_finish(1) [of env] dormant_fill(2) [of env p]
    by (intro dormant_intros) (auto simp: asks_def dormant_def)
  with s2 show "ta_state (fst (piece_completed env p info i t)) \<noteq> Downloading \<and> \<not> asks (snd (piece_completed env p info i t))"
    using dormant_fill(2) [of env p] by (auto simp: piece_completed_def Let_def split_beta dormant_def)
qed

lemma dormant_incoming: "dormant (handle_incoming_piece env p i off block)"
proof (unfold dormant_def, intro allI impI)
  fix t :: torrent_actor
  assume s: "ta_state t \<noteq> Downloading"
  have w: "ta_state (after_write i off block info t) \<noteq> Downloading" for info
    using write_block_stores [of t i off block] s by (auto simp: stores_def after_write_def Let_def)
  have c: "\<not> asks (block_cancels p i off block info t)" for info
    by (auto simp: asks_def block_cancels_def cancel_duplicate_def Let_def split: option.splits if_splits)
  show "ta_state (fst (handle_incoming_piece env p i off block t)) \<noteq> Downloading \<and>
      \<not> asks (snd (handle_incoming_piece env p i off block t))"
    by (cases rule: incoming_cases [where i = i and off = off and block = block and t = t and env = env and p = p])
      (use s w c dormant_fill(2) [of env p] dormant_piece_completed [of env p] in \<open>auto simp: dormant_def asks_def\<close>)
qed

lemma paused_idle: "ta_state t = Paused \<Longrightarrow> autostart env t = (t\<lparr>ta_pending_start := False\<rparr>, [])"
  by (simp add: autostart_def Let_def is_ready_to_start_def torrent_state_defs)

lemma paused_next: "ta_state t = Paused \<Longrightarrow> \<not> asks (snd (torrent_next env t)) \<and> ta_state (fst (torrent_next env t)) = Paused"
  by (simp add: torrent_next_def paused_idle asks_def)

text \<open>
  A paused torrent requests no block and does not start on its own. Whatever message arrives,
  other than the command to download or seed, no block request is sent and the torrent is not
  downloading afterwards; and the step before each message leaves it paused.
\<close>

theorem paused_requests_nothing:
  assumes "ta_state t = Paused" and "msg \<notin> {SetState Downloading, SetState Seeding}"
  shows "NeedPiece p i off len \<notin> set (snd (torrent_receive env msg t)) \<and>
    ta_state (fst (torrent_receive env msg t)) \<noteq> Downloading \<and>
    ta_state (fst (torrent_next env t)) = Paused \<and> NeedPiece p i off len \<notin> set (snd (torrent_next env t))"
proof -
  have "\<not> asks (snd (torrent_receive env msg t)) \<and> ta_state (fst (torrent_receive env msg t)) \<noteq> Downloading"
  proof (cases msg)
    case (IncomingPiece p i off block)
    then show ?thesis using assms(1) dormant_incoming by (simp add: dormant_def)
  next
    case (SetState s)
    then show ?thesis
      using assms by (cases s) (auto simp: set_state_def transition_state_eq asks_def stop_transfer_def)
  next
    case Rechoke
    then show ?thesis using assms(1) dormant_finish(2) by (simp add: dormant_def)
  next
    case (InfoBytes bytes)
    have "dormant (broadcast_to_peers env (\<lambda>q. HaveInfoDict q b))" for b by (intro dormant_intros) (simp add: asks_def)
    then show ?thesis
      using assms(1) by (simp add: InfoBytes info_bytes_def Let_def dormant_def asks_def split: sum.split)
  next
    case ReadyHook
    then show ?thesis using assms(1) by (simp add: ready_hook_def paused_idle asks_def)
  next
    case (SetAutoStart b)
    then show ?thesis using assms(1) paused_next [of "t\<lparr>ta_autostart := b\<rparr>"] by (simp add: set_auto_start_def)
  next
    case (SetSufficientPeers n)
    then show ?thesis using assms(1) paused_next [of "t\<lparr>ta_sufficient_peers := n\<rparr>"] by (simp add: set_sufficient_peers_def)
  qed (use assms(1) dormant_fill_all [of env] dormant_fill(2) [of env] in
    \<open>auto simp: dormant_def asks_def peer_connected_def insert_peer_def peer_rejected_request_def
      peer_ready_def disconnect_peer_def kill_peer_def remove_peer_def register_tracker_actor_def remove_tracker_def
      set_piece_storage_def set_piece_manager_def set_output_path_def recover_failed_def transition_state_eq Let_def split_beta
      split: option.splits sum.splits manager_proxy.splits storage_strategy.splits\<close>)
  then show ?thesis using paused_next [OF assms(1)] by (simp add: asks_def)
qed

theorem paused_requests_nothing_witness:
  "NeedPiece [1] 0 0 1 \<notin> set (snd (torrent_receive tiny_env (PeerReady [1] [True]) (tiny_torrent\<lparr>ta_state := Paused\<rparr>)))"
  using paused_requests_nothing [of "tiny_torrent\<lparr>ta_state := Paused\<rparr>" "PeerReady [1] [True]"] by simp

section \<open>Concrete runs\<close>

definition tiny_args :: torrent_args where
  "tiny_args = \<lparr>arg_metainfo = ta_metainfo tiny_torrent, arg_storage = InFile, arg_autostart = True, arg_sufficient = 1,
     arg_base = Some [''out''], arg_settings = ta_settings tiny_torrent, arg_upload_slots = 4, arg_optimistic_rounds = 3\<rparr>"

definition magnet_args :: torrent_args where
  "magnet_args = tiny_args\<lparr>arg_metainfo := MMagnet \<lparr>mu_info_hash = ''urn:btih:07'', mu_name = ''m'', mu_announce_list = None\<rparr>\<rparr>"

text \<open>A magnet link whose metadata has arrived, with a connected peer that has the piece.\<close>

definition magnet_fresh :: torrent_actor where
  "magnet_fresh = torrent_fresh [7] Map.empty Map.empty magnet_args"

definition magnet_resolved :: torrent_actor where
  "magnet_resolved = fst (torrent_receive tiny_env (InfoBytes [7]) (fst (torrent_receive tiny_env (PeerConnected (Some [1])) magnet_fresh)))"

definition magnet_started :: torrent_actor where
  "magnet_started = fst (torrent_next tiny_env magnet_resolved)"

lemma tiny_env_ok: "env_ok tiny_env"
  by (simp add: env_ok_def tiny_env_def tiny_info_def)

lemma magnet_resolved_eq:
  "magnet_resolved = magnet_fresh\<lparr>ta_peers := [[1]], ta_bitfield := [False], ta_resolved := Some tiny_info, ta_state := Added\<rparr>"
  by (simp add: magnet_resolved_def magnet_fresh_def torrent_fresh_def magnet_args_def tiny_args_def peer_connected_def insert_peer_def
      info_bytes_def info_dict_def tiny_env_def sum_hash_def transition_state_eq broadcast_to_peers_def piece_count_def tiny_info_def Let_def)

lemma magnet_reachable: "torrent_reachable magnet_resolved" "torrent_reachable magnet_started"
proof -
  have "torrent_on_start tiny_env (\<lambda>_. Inr [7]) Map.empty Map.empty magnet_args = Inr magnet_fresh"
    by (simp add: torrent_on_start_def meta_info_hash_def magnet_args_def mu_info_hash_of_def tiny_args_def meta_announces_def
        mu_announces_def magnet_fresh_def)
  moreover have "args_ok magnet_args" by (simp add: args_ok_def magnet_args_def)
  ultimately have "torrent_reachable magnet_fresh" by (rule torrent_reachable.create)
  then show "torrent_reachable magnet_resolved"
    unfolding magnet_resolved_def using tiny_env_ok by (intro torrent_reachable.message)
  then show "torrent_reachable magnet_started"
    unfolding magnet_started_def by (rule torrent_reachable.idle)
qed

lemma magnet_started_state:
  "ta_state magnet_started = Downloading" "info_dict magnet_started = Some tiny_info"
proof -
  let ?t = "magnet_resolved\<lparr>ta_pending_start := True\<rparr>"
  have ready: "is_ready_to_start ?t" "ta_autostart ?t" "\<not> ta_pending_start magnet_resolved" and d: "info_dict (fst (send_ready_hooks ?t)) = Some tiny_info"
    and p: "snd (manager_pre_start tiny_env tiny_info (fst (send_ready_hooks ?t)))" "can_start (ta_state ?t)"
    by (simp_all add: magnet_resolved_eq magnet_fresh_def torrent_fresh_def Let_def magnet_args_def tiny_args_def is_ready_to_start_def
        is_ready_def info_dict_def torrent_state_defs manager_pre_start_def send_ready_hooks_def pre_start_def tiny_env_def)
  then have eq: "magnet_started = (fst (torrent_start tiny_env ?t))\<lparr>ta_pending_start := False\<rparr>"
    by (simp add: magnet_started_def torrent_next_def autostart_def Let_def split_beta)
  let ?v = "fst (manager_pre_start tiny_env tiny_info (fst (send_ready_hooks ?t)))"
  have start: "fst (torrent_start tiny_env ?t) = fst (begin_transfer tiny_env ?v)"
    using p by (simp add: torrent_start_def Let_def split_beta d)
  have v: "ta_bitfield ?v = [False]" "info_dict ?v = Some tiny_info" "torrent_inv ?v"
    by (simp_all add: magnet_resolved_eq magnet_fresh_def torrent_fresh_def Let_def magnet_args_def tiny_args_def info_dict_def
        manager_pre_start_def send_ready_hooks_def pre_start_def tiny_env_def torrent_inv_def info_ok_def sched_inv_new tiny_info_def)
  show "ta_state magnet_started = Downloading"
    using v(1) by (simp add: eq start begin_transfer_outcome(1) torrent_is_full_def)
  have q: "quiet ?v (fst (begin_transfer tiny_env ?v))" using routine_begin(1) [of tiny_env] v(3) by (simp add: routine_def)
  have "info_dict (u\<lparr>ta_pending_start := b\<rparr>) = info_dict u" for u b by (simp add: info_dict_def split: meta_info.split)
  then show "info_dict magnet_started = Some tiny_info"
    using same_content_info [of ?v "fst (begin_transfer tiny_env ?v)"] q v(2) unfolding eq start quiet_def by simp
qed


theorem magnet_never_requests_witness:
  "ta_state magnet_started = Downloading \<and> info_dict magnet_started = Some tiny_info \<and>
   NeedPiece [1] 0 0 1 \<notin> set (snd (torrent_receive tiny_env (PeerReady [1] [True]) magnet_started))"
proof -
  have "ta_metainfo magnet_resolved = arg_metainfo magnet_args"
    by (simp add: magnet_resolved_eq magnet_fresh_def torrent_fresh_def Let_def)
  moreover have "torrent_core magnet_resolved"
    using reachable_core magnet_reachable(1) by blast
  ultimately have "is_magnet magnet_started"
    using safeD(2) [OF safe_autostart(2)] by (simp add: is_magnet_def magnet_args_def magnet_started_def)
  then show ?thesis using magnet_started_state magnet_never_requests [OF magnet_reachable(2) _ tiny_env_ok] by blast
qed

end
