(* ===== verification/Peer_Messages.thy ===== *)
theory Peer_Messages
  imports Prelude
begin

text \<open>
  The peer wire protocol: messages, their encoding (\<^verbatim>\<open>protocol/messages.rs\<close>) and the framing of the
  byte stream (\<^verbatim>\<open>protocol/stream.rs\<close>). The bencode libraries are parameters: \<open>ser\<close> and \<open>de\<close> are
  \<^verbatim>\<open>serde_bencode\<close> for the extension dictionary and \<open>events\<close> is the streaming parser. A panic of the
  code is the error \<open>Panicked\<close>. A transport is the list of the chunks its reads return; a read of
  zero bytes, or the end of the list, is the end of the stream.
\<close>

section \<open>Messages\<close>

definition MAGIC_STRING :: "byte list" where
  "MAGIC_STRING = [66, 105, 116, 84, 111, 114, 114, 101, 110, 116, 32, 112, 114, 111, 116, 111, 99, 111, 108]"

datatype extended_message_type = ExtRequest | ExtData | ExtReject

record extended_message =
  em_supported_extensions :: "(string \<times> byte) list option"
  em_local_port :: "u16 option"
  em_version :: "string option"
  em_your_ip :: "ip_addr option"
  em_ipv6 :: "byte list option"
  em_ipv4 :: "byte list option"
  em_outstanding_requests :: "usize option"
  em_metadata_size :: "usize option"
  em_msg_type :: "extended_message_type option"
  em_piece :: "usize option"
  em_total_size :: "usize option"

record handshake =
  hs_protocol :: "byte list"
  hs_reserved :: "byte list"
  hs_info_hash :: hash
  hs_peer_id :: peer_id

datatype peer_message =
    Choke | Unchoke | Interested | NotInterested
  | Have u32
  | Bitfield "bool list"
  | Request u32 u32 u32
  | Piece u32 u32 "byte list"
  | Cancel u32 u32 u32
  | Extended byte "extended_message option" "byte list option"
  | HandshakeMsg handshake
  | KeepAlive

datatype io_kind = UnexpectedEof | ConnectionReset | ConnectionAborted | NotConnected | BrokenPipe | OtherIo | UncategorisedIo

datatype peer_error =
    MessageTooShort nat nat
  | InvalidMessagePayload string
  | MessageParsingFailed string
  | HandshakeFailed string
  | HandshakeMagicMismatch "byte list"
  | HandshakeInfoHashMismatch hash hash
  | ProtocolViolation nat
  | ReceiveFailed io_kind
  | IoError io_kind
  | SendFailed
  | Panicked

definition extended_message_new :: extended_message where
  "extended_message_new = \<lparr>em_supported_extensions = None, em_local_port = None, em_version = None, em_your_ip = None,
     em_ipv6 = None, em_ipv4 = None, em_outstanding_requests = None, em_metadata_size = None, em_msg_type = None,
     em_piece = None, em_total_size = None\<rparr>"

definition supports_bep_0009 :: "extended_message \<Rightarrow> string + byte" where
  "supports_bep_0009 m =
     (case em_supported_extensions m of
        Some d \<Rightarrow> (case map_of d ''ut_metadata'' of Some i \<Rightarrow> Inr i | None \<Rightarrow> Inl ''Peer does not support BEP 0009'')
      | None \<Rightarrow> Inl ''Peer did not send an m dict with the given Extended message'')"

definition is_bep_0009 :: "extended_message_type \<Rightarrow> extended_message \<Rightarrow> string + bool" where
  "is_bep_0009 k m =
     (case em_msg_type m of Some ty \<Rightarrow> Inr (ty = k) | None \<Rightarrow> Inl ''Peer did not supply a msg_type'')"

section \<open>Handshake\<close>

definition handshake_new :: "hash \<Rightarrow> peer_id \<Rightarrow> handshake" where
  "handshake_new info_hash peer_id =
     \<lparr>hs_protocol = MAGIC_STRING, hs_reserved = (replicate 8 0)[5 := 0x10], hs_info_hash = info_hash, hs_peer_id = peer_id\<rparr>"

definition handshake_to_bytes :: "handshake \<Rightarrow> byte list" where
  "handshake_to_bytes h = of_nat (length (hs_protocol h)) # hs_protocol h @ hs_reserved h @ hs_info_hash h @ hs_peer_id h"

definition handshake_from_bytes :: "byte list \<Rightarrow> string + handshake" where
  "handshake_from_bytes bytes =
     (if bytes = [] then Inl ''handshake too short''
      else
        let protocol_len = unat (bytes ! 0)
        in if length bytes < 1 + protocol_len + 8 + 40 then Inl ''handshake too short''
           else Inr \<lparr>hs_protocol = take protocol_len (drop 1 bytes),
                     hs_reserved = take 8 (drop (1 + protocol_len) bytes),
                     hs_info_hash = take 20 (drop (1 + protocol_len + 8) bytes),
                     hs_peer_id = take 20 (drop (1 + protocol_len + 8 + 20) bytes)\<rparr>)"

definition validate_handshake_protocol :: "handshake \<Rightarrow> peer_error + unit" where
  "validate_handshake_protocol h =
     (if hs_protocol h \<noteq> MAGIC_STRING then Inl (HandshakeMagicMismatch (hs_protocol h)) else Inr ())"

definition validate_handshake :: "handshake \<Rightarrow> hash \<Rightarrow> peer_error + unit" where
  "validate_handshake h info_hash =
     (case validate_handshake_protocol h of
        Inl e \<Rightarrow> Inl e
      | Inr _ \<Rightarrow>
          if info_hash \<noteq> hs_info_hash h then Inl (HandshakeInfoHashMismatch (hs_info_hash h) info_hash) else Inr ())"

section \<open>Encoding\<close>

definition create_message_with_id :: "byte \<Rightarrow> byte list \<Rightarrow> byte list" where
  "create_message_with_id i payload = be_bytes 4 (of_nat (1 + length payload) :: u32) @ i # payload"

definition create_message_with_triplet :: "byte \<Rightarrow> u32 \<Rightarrow> u32 \<Rightarrow> u32 \<Rightarrow> byte list" where
  "create_message_with_triplet i a b c = be_bytes 4 (13 :: u32) @ i # be_bytes 4 a @ be_bytes 4 b @ be_bytes 4 c"

definition PIECE_HEADER_LENGTH :: nat where "PIECE_HEADER_LENGTH = 13"
definition LENGTH_PREFIX_LENGTH :: nat where "LENGTH_PREFIX_LENGTH = 4"

definition create_piece_header :: "u32 \<Rightarrow> u32 \<Rightarrow> nat \<Rightarrow> peer_error + byte list" where
  "create_piece_header index begin block_length =
     (case checked_add block_length (PIECE_HEADER_LENGTH - LENGTH_PREFIX_LENGTH) of
        None \<Rightarrow> Inl (InvalidMessagePayload ''Piece length exceeds the protocol limit'')
      | Some n \<Rightarrow>
          if n \<ge> 2 ^ 32 then Inl (InvalidMessagePayload ''Piece length exceeds the protocol limit'')
          else Inr (be_bytes 4 (of_nat n :: u32) @ 7 # be_bytes 4 index @ be_bytes 4 begin))"

text \<open>The bits of a byte are numbered from its most significant end.\<close>

definition set_piece_bit :: "nat \<times> bool \<Rightarrow> byte list \<Rightarrow> byte list" where
  "set_piece_bit = (\<lambda>(i, available) payload.
     if available then payload[i div 8 := (payload ! (i div 8)) OR push_bit (7 - i mod 8) 1] else payload)"

definition encode_bitfield :: "bool list \<Rightarrow> byte list" where
  "encode_bitfield bits = fold set_piece_bit (List.enumerate 0 bits) (replicate (div_ceil (length bits) 8) 0)"

definition decode_bitfield :: "byte list \<Rightarrow> bool list" where
  "decode_bitfield payload = concat (map (\<lambda>b. map (\<lambda>shift. b AND push_bit shift 1 \<noteq> 0) (rev [0..<8])) payload)"

definition message_encode :: "(extended_message \<Rightarrow> string + byte list) \<Rightarrow> peer_message \<Rightarrow> peer_error + byte list" where
  "message_encode ser m =
     (case m of
        HandshakeMsg h \<Rightarrow> Inr (handshake_to_bytes h)
      | Choke \<Rightarrow> Inr (create_message_with_id 0 [])
      | Unchoke \<Rightarrow> Inr (create_message_with_id 1 [])
      | Interested \<Rightarrow> Inr (create_message_with_id 2 [])
      | NotInterested \<Rightarrow> Inr (create_message_with_id 3 [])
      | Have index \<Rightarrow> Inr (create_message_with_id 4 (be_bytes 4 index))
      | Bitfield bits \<Rightarrow> Inr (create_message_with_id 5 (encode_bitfield bits))
      | Request index begin len \<Rightarrow> Inr (create_message_with_triplet 6 index begin len)
      | Cancel index begin len \<Rightarrow> Inr (create_message_with_triplet 8 index begin len)
      | Piece index begin block \<Rightarrow>
          (case create_piece_header index begin (length block) of Inl e \<Rightarrow> Inl e | Inr header \<Rightarrow> Inr (header @ block))
      | Extended extended_id em metadata \<Rightarrow>
          (case (case em of None \<Rightarrow> Inr [] | Some inner \<Rightarrow> ser inner) of
             Inl _ \<Rightarrow> Inl Panicked
           | Inr dict \<Rightarrow>
               Inr (create_message_with_id 20 (extended_id # dict @ (case metadata of None \<Rightarrow> [] | Some d \<Rightarrow> d))))
      | KeepAlive \<Rightarrow> Inr [0, 0, 0, 0])"

section \<open>Decoding\<close>

definition parse_triplet :: "byte list \<Rightarrow> peer_error + (u32 \<times> u32 \<times> u32)" where
  "parse_triplet payload =
     (if length payload \<noteq> 12 then Inl (InvalidMessagePayload ''triplet'')
      else Inr (be_val (take 4 payload), be_val (take 4 (drop 4 payload)), be_val (take 4 (drop 8 payload))))"

datatype bencode_event = DictStart | DictEnd | NumberValue int | ByteStringValue "byte list" | ListStart | ListEnd
  | DictKey "byte list" | BencodeParseError

text \<open>The length of \<^verbatim>\<open>to_string()\<close> of a number.\<close>

fun decimal_length :: "nat \<Rightarrow> nat" where
  "decimal_length n = (if n < 10 then 1 else Suc (decimal_length (n div 10)))"

definition int_length :: "int \<Rightarrow> nat" where
  "int_length v = (if v < 0 then 1 else 0) + decimal_length (nat \<bar>v\<bar>)"

text \<open>The open dictionaries are counted: only \<^verbatim>\<open>DictStart\<close> events are pushed on the stack.\<close>

fun extended_length_loop :: "bencode_event list \<Rightarrow> nat \<Rightarrow> nat \<Rightarrow> nat" where
  "extended_length_loop [] stack n = n"
| "extended_length_loop (DictStart # es) stack n = extended_length_loop es (Suc stack) (n + 1)"
| "extended_length_loop (DictEnd # es) stack n =
     (if stack - 1 = 0 then n + 1 else extended_length_loop es (stack - 1) (n + 1))"
| "extended_length_loop (NumberValue v # es) stack n = extended_length_loop es stack (n + (int_length v + 2))"
| "extended_length_loop (ByteStringValue s # es) stack n =
     extended_length_loop es stack (n + (decimal_length (length s) + 1 + length s))"
| "extended_length_loop (ListStart # es) stack n = extended_length_loop es stack (n + 1)"
| "extended_length_loop (ListEnd # es) stack n = extended_length_loop es stack (n + 1)"
| "extended_length_loop (DictKey s # es) stack n =
     extended_length_loop es stack (n + (decimal_length (length s) + 1 + length s))"
| "extended_length_loop (BencodeParseError # es) stack n = n"

definition get_extended_message_length :: "(byte list \<Rightarrow> bencode_event list) \<Rightarrow> byte list \<Rightarrow> nat" where
  "get_extended_message_length events payload = extended_length_loop (events payload) 0 0"

definition decode_extended :: "(byte list \<Rightarrow> string + extended_message) \<Rightarrow> (byte list \<Rightarrow> bencode_event list) \<Rightarrow> byte list
    \<Rightarrow> peer_error + peer_message" where
  "decode_extended de events payload =
     (case payload of
        [] \<Rightarrow> Inl Panicked
      | extended_id # rest \<Rightarrow>
          if rest = [] then Inr (Extended extended_id None None)
          else
            let n = get_extended_message_length events rest
            in if n = length rest
               then (case de rest of Inl e \<Rightarrow> Inl (MessageParsingFailed e) | Inr m \<Rightarrow> Inr (Extended extended_id (Some m) None))
               else if n > length rest then Inl Panicked
               else (case de (take n rest) of
                       Inl e \<Rightarrow> Inl (MessageParsingFailed e)
                     | Inr m \<Rightarrow> Inr (Extended extended_id (Some m) (Some (drop n rest)))))"

definition decode_payload :: "(byte list \<Rightarrow> string + extended_message) \<Rightarrow> (byte list \<Rightarrow> bencode_event list) \<Rightarrow> byte
    \<Rightarrow> byte list \<Rightarrow> peer_error + peer_message" where
  "decode_payload de events i payload =
     (if i = 0 then Inr Choke
      else if i = 1 then Inr Unchoke
      else if i = 2 then Inr Interested
      else if i = 3 then Inr NotInterested
      else if i = 4 then if length payload \<noteq> 4 then Inl (InvalidMessagePayload ''Have'') else Inr (Have (be_val payload))
      else if i = 5 then Inr (Bitfield (decode_bitfield payload))
      else if i = 6 then
        if length payload \<noteq> 12 then Inl (InvalidMessagePayload ''Request'')
        else (case parse_triplet payload of Inl e \<Rightarrow> Inl e | Inr (a, b, c) \<Rightarrow> Inr (Request a b c))
      else if i = 7 then
        if length payload < 8 then Inl (InvalidMessagePayload ''Piece'')
        else Inr (Piece (be_val (take 4 payload)) (be_val (take 4 (drop 4 payload))) (drop 8 payload))
      else if i = 8 then
        if length payload \<noteq> 12 then Inl (InvalidMessagePayload ''Cancel'')
        else (case parse_triplet payload of Inl e \<Rightarrow> Inl e | Inr (a, b, c) \<Rightarrow> Inr (Cancel a b c))
      else if i = 20 then decode_extended de events payload
      else Inl (MessageParsingFailed ''Unknown message type''))"

definition message_from_bytes :: "(byte list \<Rightarrow> string + extended_message) \<Rightarrow> (byte list \<Rightarrow> bencode_event list) \<Rightarrow> byte list
    \<Rightarrow> peer_error + peer_message" where
  "message_from_bytes de events bytes =
     (if length bytes \<ge> 68 \<and> unat (bytes ! 0) = length MAGIC_STRING \<and> take 19 (drop 1 bytes) = MAGIC_STRING
      then (case handshake_from_bytes bytes of Inl e \<Rightarrow> Inl (HandshakeFailed e) | Inr h \<Rightarrow> Inr (HandshakeMsg h))
      else if length bytes < 4 then Inl (MessageTooShort 4 (length bytes))
      else
        let len = unat (be_val (take 4 bytes) :: u32)
        in if length bytes < 4 + len then Inl (MessageTooShort (4 + len) (length bytes))
           else if len = 0 then Inr KeepAlive
           else decode_payload de events (bytes ! 4) (take (len - 1) (drop 5 bytes)))"

section \<open>The stream\<close>

definition MAX_FRAME_PAYLOAD_LENGTH :: nat where "MAX_FRAME_PAYLOAD_LENGTH = 1024 * 1024"

definition validate_frame_payload_length :: "nat \<Rightarrow> peer_error + unit" where
  "validate_frame_payload_length n = (if n > MAX_FRAME_PAYLOAD_LENGTH then Inl (ProtocolViolation n) else Inr ())"

type_synonym decoder = "byte list \<Rightarrow> peer_error + peer_message"

text \<open>A frame from the read buffer, with the buffer that is left; the frame decoder is a parameter.\<close>

definition buffered_message :: "decoder \<Rightarrow> byte list \<Rightarrow> ((peer_error + peer_message) \<times> byte list) option" where
  "buffered_message dec buf =
     (if length buf < 4 then None
      else
        let len = unat (be_val (take 4 buf) :: u32)
        in if len = 0 then Some (Inr KeepAlive, drop 4 buf)
           else case validate_frame_payload_length len of
             Inl e \<Rightarrow> Some (Inl e, buf)
           | Inr _ \<Rightarrow>
               if length buf < 4 + len then None
               else Some (dec (take (4 + len) buf), drop (4 + len) buf))"

record peer_stream =
  read_buffer :: "byte list"
  transport :: "byte list list"
  bytes_downloaded :: nat

function stream_recv :: "decoder \<Rightarrow> peer_stream \<Rightarrow> (peer_error + peer_message) \<times> peer_stream" where
  "stream_recv dec s =
     (case buffered_message dec (read_buffer s) of
        Some (r, buf) \<Rightarrow> (r, s\<lparr>read_buffer := buf\<rparr>)
      | None \<Rightarrow>
          (case transport s of
             [] \<Rightarrow> (Inl (ReceiveFailed UnexpectedEof), s)
           | c # cs \<Rightarrow>
               if c = [] then (Inl (ReceiveFailed UnexpectedEof), s\<lparr>transport := cs\<rparr>)
               else stream_recv dec (s\<lparr>read_buffer := read_buffer s @ c, transport := cs,
                      bytes_downloaded := bytes_downloaded s + length c\<rparr>)))"
  by pat_completeness auto
termination
  by (relation "measure (\<lambda>(dec, s). length (transport s))") auto

text \<open>
  The reader half of a split connection reads exactly the bytes it needs, first from the inherited
  buffer and then from the transport; its source is the sequence of the remaining bytes.
\<close>

definition read_exact :: "nat \<Rightarrow> byte list \<Rightarrow> (io_kind + byte list) \<times> byte list" where
  "read_exact n bs = (if length bs < n then (Inl UnexpectedEof, []) else (Inr (take n bs), drop n bs))"

definition reader_recv :: "decoder \<Rightarrow> byte list \<Rightarrow> (peer_error + peer_message) \<times> byte list" where
  "reader_recv dec bs =
     (case read_exact 4 bs of
        (Inl e, bs1) \<Rightarrow> (Inl (ReceiveFailed e), bs1)
      | (Inr length_buf, bs1) \<Rightarrow>
          let len = unat (be_val length_buf :: u32)
          in if len = 0 then (Inr KeepAlive, bs1)
             else (case validate_frame_payload_length len of
               Inl e \<Rightarrow> (Inl e, bs1)
             | Inr _ \<Rightarrow>
                 (case read_exact 1 bs1 of
                    (Inl e, bs2) \<Rightarrow> (Inl (ReceiveFailed e), bs2)
                  | (Inr message_type, bs2) \<Rightarrow>
                      (case read_exact (len - 1) bs2 of
                         (Inl e, bs3) \<Rightarrow> (Inl (ReceiveFailed e), bs3)
                       | (Inr rest, bs3) \<Rightarrow> (dec (length_buf @ message_type @ rest), bs3)))))"

definition recv_handshake_message :: "byte list \<Rightarrow> (peer_error + handshake) \<times> byte list" where
  "recv_handshake_message bs =
     (case read_exact 1 bs of
        (Inl e, bs1) \<Rightarrow> (Inl (IoError e), bs1)
      | (Inr first, bs1) \<Rightarrow>
          (case read_exact (unat (hd first) + 8 + 40) bs1 of
             (Inl e, bs2) \<Rightarrow> (Inl (IoError e), bs2)
           | (Inr rest, bs2) \<Rightarrow>
               (case handshake_from_bytes (first @ rest) of
                  Inl e \<Rightarrow> (Inl (HandshakeFailed e), bs2) | Inr h \<Rightarrow> (Inr h, bs2))))"

section \<open>Bit fields\<close>

lemma length_set_piece_bit [simp]: "length (set_piece_bit x payload) = length payload"
  by (simp add: set_piece_bit_def split: prod.split)

lemma length_fold_bits [simp]: "length (fold set_piece_bit xs payload) = length payload"
  by (induction xs arbitrary: payload) simp_all

lemma length_encode_bitfield [simp]: "length (encode_bitfield bits) = div_ceil (length bits) 8"
  by (simp add: encode_bitfield_def)

lemma fold_bits_nth:
  assumes "k < length payload" and "j < 8" and "m + length bits \<le> 8 * length payload"
  shows "bit (fold set_piece_bit (List.enumerate m bits) payload ! k) j
     \<longleftrightarrow> bit (payload ! k) j \<or> (let i = 8 * k + (7 - j) in m \<le> i \<and> i < m + length bits \<and> bits ! (i - m))"
  using assms
proof (induction bits arbitrary: m payload)
  case (Cons b bits)
  let ?p = "set_piece_bit (m, b) payload"
  have m: "m div 8 < length payload" using Cons.prems(3) by auto
  have at: "m = 8 * k + (7 - j) \<longleftrightarrow> m div 8 = k \<and> j = 7 - m mod 8" 
  proof
    assume "m = 8 * k + (7 - j)"
    moreover have "7 - j < 8" by simp
    ultimately have "m div 8 = k" "m mod 8 = 7 - j" by simp_all
    then show "m div 8 = k \<and> j = 7 - m mod 8" using Cons.prems(2) by simp
  next
    assume "m div 8 = k \<and> j = 7 - m mod 8"
    then show "m = 8 * k + (7 - j)" using mult_div_mod_eq [of 8 m] mod_less_divisor [of 8 m] by simp
  qed
  have "bit (push_bit (7 - m mod 8) (1 :: byte)) j \<longleftrightarrow> j = 7 - m mod 8"
    using Cons.prems(2) by (auto simp: bit_simps)
  then have step: "bit (?p ! k) j \<longleftrightarrow> bit (payload ! k) j \<or> (b \<and> m = 8 * k + (7 - j))"
    unfolding at using m Cons.prems(1) by (cases "m div 8 = k") (auto simp: set_piece_bit_def bit_or_iff)
  have "bit (fold set_piece_bit (List.enumerate (Suc m) bits) ?p ! k) j
     \<longleftrightarrow> bit (?p ! k) j \<or> (let i = 8 * k + (7 - j) in Suc m \<le> i \<and> i < Suc m + length bits \<and> bits ! (i - Suc m))"
    using Cons.prems by (intro Cons.IH) auto
  then have fold: "bit (fold set_piece_bit (List.enumerate m (b # bits)) payload ! k) j
     \<longleftrightarrow> (bit (payload ! k) j \<or> (b \<and> m = 8 * k + (7 - j))) \<or>
       (let i = 8 * k + (7 - j) in Suc m \<le> i \<and> i < Suc m + length bits \<and> bits ! (i - Suc m))"
    by (simp add: step)
  define i where "i = 8 * k + (7 - j)"
  show ?case
    unfolding fold Let_def i_def [symmetric] by (cases i m rule: linorder_cases) (auto simp: nth_Cons')
qed (auto simp: Let_def)

lemma bit_encode_bitfield:
  assumes "k < div_ceil (length bits) 8" and "j < 8"
  shows "bit (encode_bitfield bits ! k) j \<longleftrightarrow> 8 * k + (7 - j) < length bits \<and> bits ! (8 * k + (7 - j))"
proof -
  have "length bits \<le> 8 * div_ceil (length bits) 8" using div_ceil_bounds [of 8 "length bits"] by simp
  then show ?thesis
    using assms fold_bits_nth [where m = 0 and payload = "replicate (div_ceil (length bits) 8) 0" and bits = bits and k = k and j = j]
    by (simp add: encode_bitfield_def Let_def)
qed

lemma and_push_bit: "(b :: byte) AND push_bit n 1 \<noteq> 0 \<longleftrightarrow> bit b n"
proof
  assume "b AND push_bit n 1 \<noteq> 0"
  then obtain j where "bit (b AND push_bit n 1) j" by (auto simp: bit_eq_iff)
  then show "bit b n" by (auto simp: bit_simps)
next
  assume *: "bit b n"
  then have "bit (b AND push_bit n 1) n" by (auto simp: bit_simps dest: bit_imp_le_length)
  then show "b AND push_bit n 1 \<noteq> 0" by auto
qed

lemma decode_bitfield_nth:
  "i < 8 * length payload \<Longrightarrow> decode_bitfield payload ! i \<longleftrightarrow> bit (payload ! (i div 8)) (7 - i mod 8)"
proof (induction payload arbitrary: i)
  case (Cons b payload)
  show ?case
  proof (cases "i < 8")
    case True
    then show ?thesis by (simp add: decode_bitfield_def nth_append and_push_bit [simplified] rev_nth)
  next
    case False
    then obtain i' where i: "i = 8 + i'" by (metis le_Suc_ex not_less)
    have "decode_bitfield (b # payload) ! i = decode_bitfield payload ! i'"
      by (simp add: decode_bitfield_def nth_append i)
    moreover have "(8 + i') div 8 = Suc (i' div 8)" by simp
    ultimately show ?thesis using Cons.IH [of i'] Cons.prems by (simp add: i)
  qed
qed simp

lemma length_decode_bitfield [simp]: "length (decode_bitfield payload) = 8 * length payload"
  by (induction payload) (simp_all add: decode_bitfield_def)

lemma bitfield_roundtrip: "decode_bitfield (encode_bitfield bits) = pad_to (8 * div_ceil (length bits) 8) False bits"
proof (rule nth_equalityI)
  have le: "length bits \<le> 8 * div_ceil (length bits) 8" using div_ceil_bounds [of 8 "length bits"] by simp
  then show "length (decode_bitfield (encode_bitfield bits)) = length (pad_to (8 * div_ceil (length bits) 8) False bits)"
    by simp
  fix i
  assume "i < length (decode_bitfield (encode_bitfield bits))"
  then have i: "i < 8 * div_ceil (length bits) 8" by simp
  have "8 * (i div 8) + (7 - (7 - i mod 8)) = i" by presburger
  then show "decode_bitfield (encode_bitfield bits) ! i = pad_to (8 * div_ceil (length bits) 8) False bits ! i"
    using bit_encode_bitfield [of "i div 8" bits "7 - i mod 8"] i
    by (auto simp: decode_bitfield_nth nth_pad_to less_mult_imp_div_less mult.commute)
qed

section \<open>The extension dictionary\<close>

text \<open>
  How an event is written. \<open>dict_closes\<close> recognises the events of one dictionary, nested ones
  included. \<open>ext_codec_ok\<close> states what the code relies on from the bencode libraries for one message:
  it is serialised and read back, and the streaming parser reports the events of the serialised
  dictionary first, whatever follows it.
\<close>

fun dec_bytes :: "nat \<Rightarrow> byte list" where
  "dec_bytes n = (if n < 10 then [of_nat (48 + n)] else dec_bytes (n div 10) @ [of_nat (48 + n mod 10)])"

primrec event_bytes :: "bencode_event \<Rightarrow> byte list" where
  "event_bytes DictStart = [100]"
| "event_bytes DictEnd = [101]"
| "event_bytes (NumberValue v) = 105 # (if v < 0 then [45] else []) @ dec_bytes (nat \<bar>v\<bar>) @ [101]"
| "event_bytes (ByteStringValue s) = dec_bytes (length s) @ 58 # s"
| "event_bytes ListStart = [108]"
| "event_bytes ListEnd = [101]"
| "event_bytes (DictKey s) = dec_bytes (length s) @ 58 # s"
| "event_bytes BencodeParseError = []"

fun dict_closes :: "nat \<Rightarrow> bencode_event list \<Rightarrow> bool" where
  "dict_closes d [] = False"
| "dict_closes d (DictStart # es) = dict_closes (Suc d) es"
| "dict_closes d (DictEnd # es) = (if d \<le> 1 then es = [] else dict_closes (d - 1) es)"
| "dict_closes d (BencodeParseError # es) = False"
| "dict_closes d (e # es) = dict_closes d es"

definition ext_codec_ok :: "(extended_message \<Rightarrow> string + byte list) \<Rightarrow> (byte list \<Rightarrow> string + extended_message)
    \<Rightarrow> (byte list \<Rightarrow> bencode_event list) \<Rightarrow> extended_message \<Rightarrow> bool" where
  "ext_codec_ok ser de events em =
     (\<exists>bs. ser em = Inr bs \<and> de bs = Inr em \<and>
        (\<forall>rest. \<exists>evs later. events (bs @ rest) = evs @ later \<and> dict_closes 0 evs \<and> concat (map event_bytes evs) = bs))"

declare decimal_length.simps [simp del] dec_bytes.simps [simp del]

lemma length_dec_bytes [simp]: "length (dec_bytes n) = decimal_length n"
  by (induction n rule: dec_bytes.induct) (simp add: decimal_length.simps dec_bytes.simps)

lemma extended_length_exact:
  "dict_closes d evs \<Longrightarrow> extended_length_loop (evs @ later) d n = n + length (concat (map event_bytes evs))"
  by (induction d evs arbitrary: n rule: dict_closes.induct) (auto simp: int_length_def split: if_splits)

lemma dict_closes_bytes: "dict_closes d evs \<Longrightarrow> concat (map event_bytes evs) \<noteq> []"
  by (induction d evs rule: dict_closes.induct) (auto split: if_splits)

lemma ext_codec:
  assumes "ext_codec_ok ser de events em"
  obtains bs where "ser em = Inr bs" "de bs = Inr em" "bs \<noteq> []"
    "\<And>rest. get_extended_message_length events (bs @ rest) = length bs"
proof -
  obtain bs where bs: "ser em = Inr bs" "de bs = Inr em"
    and ev: "\<And>rest. \<exists>evs later. events (bs @ rest) = evs @ later \<and> dict_closes 0 evs \<and> concat (map event_bytes evs) = bs"
    using assms by (auto simp: ext_codec_ok_def)
  have "get_extended_message_length events (bs @ rest) = length bs" for rest
  proof -
    obtain evs later where "events (bs @ rest) = evs @ later" "dict_closes 0 evs" "concat (map event_bytes evs) = bs"
      using ev by blast
    then show ?thesis using extended_length_exact by (simp add: get_extended_message_length_def)
  qed
  moreover have "bs \<noteq> []" using ev dict_closes_bytes by blast
  ultimately show thesis using that bs by blast
qed

section \<open>Round trips\<close>

text \<open>
  What the receiver sees: a bit field is padded to whole bytes and empty metadata is no metadata.
\<close>

definition on_wire :: "peer_message \<Rightarrow> peer_message" where
  "on_wire m =
     (case m of
        Bitfield bits \<Rightarrow> Bitfield (pad_to (8 * div_ceil (length bits) 8) False bits)
      | Extended i em metadata \<Rightarrow> Extended i em (if metadata = Some [] then None else metadata)
      | _ \<Rightarrow> m)"

definition handshake_ok :: "handshake \<Rightarrow> bool" where
  "handshake_ok h = (length (hs_protocol h) < 256 \<and> length (hs_reserved h) = 8 \<and> length (hs_info_hash h) = 20 \<and>
     length (hs_peer_id h) = 20)"

text \<open>A message that is sent on an established connection.\<close>

definition sendable :: "(extended_message \<Rightarrow> string + byte list) \<Rightarrow> (byte list \<Rightarrow> string + extended_message)
    \<Rightarrow> (byte list \<Rightarrow> bencode_event list) \<Rightarrow> peer_message \<Rightarrow> bool" where
  "sendable ser de events m =
     ((case m of
         HandshakeMsg _ \<Rightarrow> False
       | Extended i em metadata \<Rightarrow>
           (case em of None \<Rightarrow> metadata = None \<or> metadata = Some [] | Some inner \<Rightarrow> ext_codec_ok ser de events inner)
       | _ \<Rightarrow> True) \<and>
      (case message_encode ser m of Inl _ \<Rightarrow> False | Inr bs \<Rightarrow> length bs \<le> 4 + MAX_FRAME_PAYLOAD_LENGTH))"

lemma unat_be_prefix: "n < 2 ^ 32 \<Longrightarrow> unat (be_val (be_bytes 4 (of_nat n :: u32)) :: u32) = n"
  by (simp add: be_roundtrip unat_of_nat)

lemma be_bytes_4: "be_bytes 4 (w :: u32) = [ucast (drop_bit 24 w), ucast (drop_bit 16 w), ucast (drop_bit 8 w), ucast w]"
proof -
  have "be_bytes (Suc (Suc (Suc (Suc 0)))) w = [ucast (drop_bit 24 w), ucast (drop_bit 16 w), ucast (drop_bit 8 w), ucast w]"
    by (simp only: be_bytes.simps drop_bit_drop_bit append.simps) simp
  moreover have "(4 :: nat) = Suc (Suc (Suc (Suc 0)))" by simp
  ultimately show ?thesis by (simp only:)
qed

lemma prefix_first: "n < 2 ^ 24 \<Longrightarrow> be_bytes 4 (of_nat n :: u32) ! 0 = 0"
proof -
  assume n: "n < 2 ^ 24"
  have "unat (drop_bit 24 (of_nat n :: u32)) = 0"
    using n unfolding unat_drop_bit_eq by (simp add: unat_of_nat drop_bit_eq_div)
  then have "drop_bit 24 (of_nat n :: u32) = 0" by (simp add: unat_eq_zero)
  then show ?thesis by (simp add: be_bytes_4)
qed

text \<open>Every encoded message but a handshake is a frame: its payload length and then the payload.\<close>

definition is_frame :: "byte list \<Rightarrow> byte list \<Rightarrow> bool" where
  "is_frame bs payload = (bs = be_bytes 4 (of_nat (length payload) :: u32) @ payload \<and> length payload \<le> MAX_FRAME_PAYLOAD_LENGTH)"

lemma frame_length: "is_frame bs payload \<Longrightarrow> unat (be_val (take 4 (bs @ rest)) :: u32) = length payload"
  using unat_be_prefix [of "length payload"] by (simp add: is_frame_def MAX_FRAME_PAYLOAD_LENGTH_def)

lemma from_bytes_frame:
  assumes "is_frame bs payload"
  shows "message_from_bytes de events bs =
    (if payload = [] then Inr KeepAlive else decode_payload de events (hd payload) (tl payload))"
proof -
  have first: "bs ! 0 = 0"
    using prefix_first [of "length payload"] assms by (simp add: is_frame_def MAX_FRAME_PAYLOAD_LENGTH_def nth_append)
  have len: "unat (be_val (take 4 bs) :: u32) = length payload" using frame_length [OF assms, of "[]"] by simp
  have "length bs = 4 + length payload" using assms by (simp add: is_frame_def)
  moreover have "bs ! 4 = hd payload" "take (length payload - 1) (drop 5 bs) = tl payload" if "payload \<noteq> []"
    using assms that by (auto simp: is_frame_def nth_append hd_conv_nth drop_Suc numeral_eq_Suc)
  ultimately show ?thesis
    using first len by (simp add: message_from_bytes_def MAGIC_STRING_def Let_def)
qed

lemma id_frame:
  "length payload < MAX_FRAME_PAYLOAD_LENGTH \<Longrightarrow> is_frame (create_message_with_id i payload) (i # payload)"
  by (simp add: is_frame_def create_message_with_id_def)

lemma triplet_frame: "is_frame (create_message_with_triplet i a b c) (i # be_bytes 4 a @ be_bytes 4 b @ be_bytes 4 c)"
  by (simp add: is_frame_def create_message_with_triplet_def MAX_FRAME_PAYLOAD_LENGTH_def)

lemma parse_triplet_bytes: "parse_triplet (be_bytes 4 a @ be_bytes 4 b @ be_bytes 4 c) = Inr (a, b, c)"
  by (simp add: parse_triplet_def be_roundtrip)

lemma decode_extended_bytes:
  assumes "ext_codec_ok ser de events em"
  obtains bs where "ser em = Inr bs"
    "decode_extended de events (i # bs @ rest) = Inr (Extended i (Some em) (if rest = [] then None else Some rest))"
proof -
  obtain bs where bs: "ser em = Inr bs" "de bs = Inr em" "bs \<noteq> []"
    "\<And>rest. get_extended_message_length events (bs @ rest) = length bs"
    using ext_codec [OF assms] by metis
  then have "decode_extended de events (i # bs @ rest) = Inr (Extended i (Some em) (if rest = [] then None else Some rest))"
    by (simp add: decode_extended_def Let_def)
  then show thesis using that bs(1) by blast
qed

lemma sendable_frame:
  assumes "sendable ser de events m"
  obtains payload bs where "message_encode ser m = Inr bs" "is_frame bs payload"
    "message_from_bytes de events bs = Inr (on_wire m)"
proof -
  obtain bs where enc: "message_encode ser m = Inr bs" and len: "length bs \<le> 4 + MAX_FRAME_PAYLOAD_LENGTH"
    using assms by (auto simp: sendable_def split: sum.splits)
  have id: "message_from_bytes de events bs = decode_payload de events i payload \<and> is_frame bs (i # payload)"
    if "bs = create_message_with_id i payload" for i payload
    using that len id_frame [of payload i] from_bytes_frame [of bs "i # payload"] by (simp add: create_message_with_id_def)
  have triplet: "message_from_bytes de events (create_message_with_triplet i a b c)
      = decode_payload de events i (be_bytes 4 a @ be_bytes 4 b @ be_bytes 4 c)" for i a b c
    using from_bytes_frame [OF triplet_frame] by simp
  have "\<exists>payload. is_frame bs payload \<and> message_from_bytes de events bs = Inr (on_wire m)"
  proof (cases m)
    case (Bitfield bits)
    then show ?thesis
      using enc id [of 5 "encode_bitfield bits"] by (auto simp: message_encode_def decode_payload_def bitfield_roundtrip on_wire_def)
  next
    case (Request a b c)
    then show ?thesis
      using enc triplet_frame [of 6 a b c] triplet [of 6 a b c]
      by (auto simp: message_encode_def decode_payload_def parse_triplet_bytes on_wire_def)
  next
    case (Cancel a b c)
    then show ?thesis
      using enc triplet_frame [of 8 a b c] triplet [of 8 a b c]
      by (auto simp: message_encode_def decode_payload_def parse_triplet_bytes on_wire_def)
  next
    case (Piece a b block)
    let ?payload = "7 # be_bytes 4 a @ be_bytes 4 b @ block"
    have "is_frame bs ?payload"
      using enc len by (auto simp: Piece message_encode_def create_piece_header_def is_frame_def MAX_FRAME_PAYLOAD_LENGTH_def
          PIECE_HEADER_LENGTH_def LENGTH_PREFIX_LENGTH_def add.commute split: option.splits if_splits)
    then show ?thesis
      using from_bytes_frame [of bs ?payload] by (auto simp: Piece decode_payload_def be_roundtrip on_wire_def)
  next
    case (Extended i em metadata)
    let ?rest = "case metadata of None \<Rightarrow> [] | Some d \<Rightarrow> d"
    show ?thesis
    proof (cases em)
      case None
      then have "?rest = []" using assms by (auto simp: sendable_def Extended)
      then show ?thesis
        using assms enc id [of 20 "[i]"]
        by (auto simp: None Extended sendable_def message_encode_def decode_payload_def decode_extended_def on_wire_def)
    next
      case (Some inner)
      then have "ext_codec_ok ser de events inner" using assms by (simp add: sendable_def Extended)
      from decode_extended_bytes [OF this, of i ?rest] obtain dict where dict: "ser inner = Inr dict"
        "decode_extended de events (i # dict @ ?rest) = Inr (Extended i (Some inner) (if ?rest = [] then None else Some ?rest))"
        by blast
      have "message_from_bytes de events bs = decode_payload de events 20 (i # dict @ ?rest) \<and> is_frame bs (20 # i # dict @ ?rest)"
        using enc dict(1) by (intro id) (simp add: Some Extended message_encode_def)
      then show ?thesis
        using dict(2) by (cases metadata) (auto simp: Some Extended decode_payload_def on_wire_def)
    qed
  next
    case KeepAlive
    have "is_frame bs []"
      using enc by (simp add: KeepAlive message_encode_def is_frame_def be_bytes_4)
    then show ?thesis using from_bytes_frame [of bs "[]"] by (auto simp: KeepAlive on_wire_def)
  next
    case (Have a)
    then show ?thesis
      using enc id [of 4 "be_bytes 4 a"] by (auto simp: message_encode_def decode_payload_def be_roundtrip on_wire_def)
  next
    case (HandshakeMsg h)
    then show ?thesis using assms by (simp add: sendable_def)
  qed (use enc id [of 0 "[]"] id [of 1 "[]"] id [of 2 "[]"] id [of 3 "[]"] in
      \<open>auto simp: message_encode_def decode_payload_def on_wire_def\<close>)
  then show thesis using that enc by blast
qed

text \<open>
  C15: every message but a handshake survives the wire. Encoding succeeds, and decoding the encoded
  bytes returns the message, with a bit field padded to whole bytes by missing pieces and with
  empty metadata dropped.
\<close>

theorem peer_message_roundtrip:
  assumes "sendable ser de events m"
  shows "\<exists>bs. message_encode ser m = Inr bs \<and> message_from_bytes de events bs = Inr (on_wire m)"
  using sendable_frame [OF assms] by metis

lemma handshake_split:
  "handshake_ok h \<Longrightarrow> handshake_from_bytes (handshake_to_bytes h @ rest) = Inr h"
  by (simp add: handshake_ok_def handshake_from_bytes_def handshake_to_bytes_def unat_of_nat Let_def drop_Cons')

text \<open>
  A handshake is read back exactly as it was sent, whatever follows it on the stream, and what
  follows it is left for the next read.
\<close>

theorem handshake_roundtrip:
  assumes "handshake_ok h"
  shows "handshake_from_bytes (handshake_to_bytes h) = Inr h \<and>
    recv_handshake_message (handshake_to_bytes h @ rest) = (Inr h, rest)"
proof -
  have "length (handshake_to_bytes h) = 1 + length (hs_protocol h) + 48" "unat (hd (handshake_to_bytes h)) = length (hs_protocol h)"
    "handshake_to_bytes h \<noteq> []"
    using assms by (simp_all add: handshake_ok_def handshake_to_bytes_def unat_of_nat)
  then obtain b bs where b: "handshake_to_bytes h = b # bs" "length bs = unat b + 48" "unat b = length (hs_protocol h)"
    by (cases "handshake_to_bytes h") auto
  then show ?thesis
    using handshake_split [OF assms, of "[]"] by (simp add: recv_handshake_message_def read_exact_def)
qed

section \<open>Framing\<close>

lemma buffered_whole:
  assumes "is_frame bs payload" and "payload = [] \<Longrightarrow> dec bs = Inr KeepAlive"
  shows "buffered_message dec (bs @ rest) = Some (dec bs, rest)"
proof -
  have "length bs = 4 + length payload" "length payload \<le> MAX_FRAME_PAYLOAD_LENGTH" using assms(1) by (simp_all add: is_frame_def)
  then show ?thesis
    using frame_length [OF assms(1), of rest] assms(2)
    by (simp add: buffered_message_def validate_frame_payload_length_def Let_def)
qed

lemma buffered_partial:
  assumes "is_frame bs payload" and "bs = buf @ rest" and "rest \<noteq> []"
  shows "buffered_message dec buf = None"
proof (cases "length buf < 4")
  case False
  have len: "length bs = 4 + length payload" "length payload \<le> MAX_FRAME_PAYLOAD_LENGTH" using assms(1) by (simp_all add: is_frame_def)
  have "unat (be_val (take 4 buf) :: u32) = length payload"
    using frame_length [OF assms(1), of "[]"] False by (simp add: assms(2))
  moreover have "length buf + length rest = 4 + length payload" "0 < length rest"
    using len(1) assms(3) unfolding assms(2) by simp_all
  with False have "length buf < 4 + length payload" "length payload \<noteq> 0" by linarith+
  ultimately show ?thesis
    using len(2) by (simp add: buffered_message_def validate_frame_payload_length_def Let_def)
qed (simp add: buffered_message_def)

declare stream_recv.simps [simp del]

lemma recv_frame:
  assumes "is_frame bs payload" and "payload = [] \<Longrightarrow> dec bs = Inr KeepAlive"
    and "read_buffer s @ concat (transport s) = bs @ rest" and "[] \<notin> set (transport s)"
  obtains s' where "stream_recv dec s = (dec bs, s')" "read_buffer s' @ concat (transport s') = rest" "[] \<notin> set (transport s')"
  using assms(3-4)
proof (induction "transport s" arbitrary: s thesis)
  case Nil
  then have "read_buffer s = bs @ rest" by simp
  then have "stream_recv dec s = (dec bs, s\<lparr>read_buffer := rest\<rparr>)"
    using buffered_whole [where dec = dec and rest = rest, OF assms(1)] assms(2) by (simp add: stream_recv.simps)
  then show ?case using Nil.prems(1) Nil.hyps by simp
next
  case (Cons c cs)
  show ?case
  proof (cases "length bs \<le> length (read_buffer s)")
    case True
    then have eq: "read_buffer s = bs @ drop (length bs) (read_buffer s)"
      "drop (length bs) (read_buffer s) @ concat (transport s) = rest"
      using Cons.prems(2) by (metis append_eq_append_conv_if append_take_drop_id, metis append_eq_append_conv_if)
    have "stream_recv dec s = (dec bs, s\<lparr>read_buffer := drop (length bs) (read_buffer s)\<rparr>)"
      using buffered_whole [where rest = "drop (length bs) (read_buffer s)" and dec = dec, OF assms(1)] assms(2) eq(1)
      by (simp add: stream_recv.simps)
    then show ?thesis using Cons.prems(1,3) eq(2) by simp
  next
    case False
    then obtain r where r: "bs = read_buffer s @ r" "r \<noteq> []"
      using Cons.prems(2) by (metis append_eq_append_conv_if append_take_drop_id drop_eq_Nil)
    let ?s = "s\<lparr>read_buffer := read_buffer s @ c, transport := cs, bytes_downloaded := bytes_downloaded s + length c\<rparr>"
    have c: "transport s = c # cs" using Cons.hyps(2) by simp
    have "c \<noteq> []" using Cons.prems(3) unfolding c by auto
    then have step: "stream_recv dec s = stream_recv dec ?s"
      using c buffered_partial [OF assms(1) r] by (simp add: stream_recv.simps [of dec s])
    have "read_buffer ?s @ concat (transport ?s) = bs @ rest" "[] \<notin> set (transport ?s)"
      using Cons.prems(2,3) c by auto
    then show ?thesis using Cons.hyps(1) [of ?s] Cons.prems(1) step by auto
  qed
qed

fun recv_all :: "decoder \<Rightarrow> nat \<Rightarrow> peer_stream \<Rightarrow> (peer_error + peer_message) list \<times> peer_stream" where
  "recv_all dec 0 s = ([], s)"
| "recv_all dec (Suc n) s =
     (let (r, s1) = stream_recv dec s; (rs, s2) = recv_all dec n s1 in (r # rs, s2))"

text \<open>
  C12: framing is independent of how the transport cuts the stream. When messages are sent one after
  the other and their bytes arrive in any non-empty chunks, some of them perhaps already buffered,
  then the receiver returns exactly those messages in order and nothing is left over.
\<close>

theorem stream_delivers:
  assumes "list_all (sendable ser de events) ms"
    and "read_buffer s @ concat (transport s) = concat (map (\<lambda>m. projr (message_encode ser m)) ms)"
    and "[] \<notin> set (transport s)"
  shows "fst (recv_all (message_from_bytes de events) (length ms) s) = map (\<lambda>m. Inr (on_wire m)) ms \<and>
    read_buffer (snd (recv_all (message_from_bytes de events) (length ms) s)) = [] \<and>
    transport (snd (recv_all (message_from_bytes de events) (length ms) s)) = []"
  using assms
proof (induction ms arbitrary: s)
  case Nil
  then show ?case by (cases "transport s") auto
next
  case (Cons m ms)
  let ?dec = "message_from_bytes de events"
  obtain payload bs where f: "message_encode ser m = Inr bs" "is_frame bs payload" "?dec bs = Inr (on_wire m)"
    using sendable_frame [of ser de events m] Cons.prems(1) by (metis list.pred_inject(2))
  have ka: "payload = [] \<Longrightarrow> ?dec bs = Inr KeepAlive" using from_bytes_frame [OF f(2)] by simp
  have "read_buffer s @ concat (transport s) = bs @ concat (map (\<lambda>m. projr (message_encode ser m)) ms)"
    using Cons.prems(2) f(1) by simp
  from recv_frame [where dec = ?dec, OF f(2) ka this Cons.prems(3)] obtain s' where s': "stream_recv ?dec s = (?dec bs, s')"
    "read_buffer s' @ concat (transport s') = concat (map (\<lambda>m. projr (message_encode ser m)) ms)" "[] \<notin> set (transport s')"
    by blast
  then show ?case using Cons.IH [OF _ s'(2,3)] Cons.prems(1) f(3) by (simp add: split_beta)
qed

lemma reader_recv_eq:
  "reader_recv dec bs =
     (if length bs < 4 then (Inl (ReceiveFailed UnexpectedEof), [])
      else
        let len = unat (be_val (take 4 bs) :: u32)
        in if len = 0 then (Inr KeepAlive, drop 4 bs)
           else if len > MAX_FRAME_PAYLOAD_LENGTH then (Inl (ProtocolViolation len), drop 4 bs)
           else if length bs < 4 + len then (Inl (ReceiveFailed UnexpectedEof), [])
           else (dec (take (4 + len) bs), drop (4 + len) bs))"
proof -
  let ?len = "unat (be_val (take 4 bs) :: u32)"
  have "take (4 + n) bs = take 4 bs @ take 1 (drop 4 bs) @ take (n - 1) (drop 5 bs)" if "0 < n" for n
    using that take_add [of 4 n bs] take_add [of 1 "n - 1" "drop 4 bs"] by simp
  then show ?thesis
    by (auto simp: reader_recv_def read_exact_def validate_frame_payload_length_def Let_def)
qed

lemma buffered_some_reader:
  assumes "buffered_message dec buf = Some (r, buf')"
  shows "fst (reader_recv dec (buf @ later)) = r \<and> (\<forall>m. r = Inr m \<longrightarrow> snd (reader_recv dec (buf @ later)) = buf' @ later)"
  using assms
  by (auto simp: reader_recv_eq buffered_message_def validate_frame_payload_length_def Let_def split: if_splits)

lemma buffered_none_reader:
  assumes "buffered_message dec buf = None"
  shows "reader_recv dec buf = (Inl (ReceiveFailed UnexpectedEof), [])"
  using assms
  by (auto simp: reader_recv_eq buffered_message_def validate_frame_payload_length_def Let_def split: if_splits)

text \<open>
  The two receivers agree. On any stream at all, well formed or not, the buffering receiver and
  the reader of a split connection return the same message or the same error, and after a message
  they stand at the same place of the stream.
\<close>

theorem receivers_agree:
  assumes "[] \<notin> set (transport s)"
  shows "fst (stream_recv dec s) = fst (reader_recv dec (read_buffer s @ concat (transport s))) \<and>
    (\<forall>m. fst (stream_recv dec s) = Inr m \<longrightarrow>
       read_buffer (snd (stream_recv dec s)) @ concat (transport (snd (stream_recv dec s)))
         = snd (reader_recv dec (read_buffer s @ concat (transport s))))"
  using assms
proof (induction dec s rule: stream_recv.induct)
  case (1 dec s)
  let ?all = "read_buffer s @ concat (transport s)"
  show ?case
  proof (cases "buffered_message dec (read_buffer s)")
    case (Some p)
    then show ?thesis
      using buffered_some_reader [of dec "read_buffer s" "fst p" "snd p" "concat (transport s)"]
      by (auto simp: stream_recv.simps [of dec s] split_beta)
  next
    case None
    show ?thesis
    proof (cases "transport s")
      case Nil
      then show ?thesis using buffered_none_reader [OF None] by (simp add: stream_recv.simps [of dec s] None)
    next
      case (Cons c cs)
      then have "c \<noteq> []" using "1.prems" by auto
      then show ?thesis using "1.IH" [OF None Cons] "1.prems" by (simp add: stream_recv.simps [of dec s] None Cons)
    qed
  qed
qed

section \<open>Concrete messages\<close>

text \<open>A bencode library that knows one dictionary, the empty one.\<close>

definition empty_ser :: "extended_message \<Rightarrow> string + byte list" where
  "empty_ser m = (if m = extended_message_new then Inr [100, 101] else Inl ''unsupported'')"

definition empty_de :: "byte list \<Rightarrow> string + extended_message" where
  "empty_de bs = (if bs = [100, 101] then Inr extended_message_new else Inl ''unsupported'')"

definition empty_events :: "byte list \<Rightarrow> bencode_event list" where
  "empty_events bs = (if take 2 bs = [100, 101] then [DictStart, DictEnd] else [BencodeParseError])"

lemma empty_codec: "ext_codec_ok empty_ser empty_de empty_events extended_message_new"
  unfolding ext_codec_ok_def
proof (intro exI conjI allI)
  fix rest
  show "empty_events ([100, 101] @ rest) = [DictStart, DictEnd] @ []" by (simp add: empty_events_def)
qed (simp_all add: empty_ser_def empty_de_def)

theorem peer_message_roundtrip_witness:
  "\<exists>bs. message_encode empty_ser (Extended 2 (Some extended_message_new) (Some [7])) = Inr bs \<and>
     message_from_bytes empty_de empty_events bs = Inr (Extended 2 (Some extended_message_new) (Some [7]))"
  using peer_message_roundtrip [of empty_ser empty_de empty_events "Extended 2 (Some extended_message_new) (Some [7])"]
    empty_codec
  by (simp add: sendable_def message_encode_def empty_ser_def create_message_with_id_def MAX_FRAME_PAYLOAD_LENGTH_def on_wire_def)

theorem handshake_roundtrip_witness:
  "recv_handshake_message (handshake_to_bytes (handshake_new (replicate 20 7) (replicate 20 9)) @ [1])
     = (Inr (handshake_new (replicate 20 7) (replicate 20 9)), [1])"
  using handshake_roundtrip [of "handshake_new (replicate 20 7) (replicate 20 9)" "[1]"]
  by (simp add: handshake_ok_def handshake_new_def MAGIC_STRING_def)

definition chunked :: peer_stream where
  "chunked = \<lparr>read_buffer = [0, 0], transport = [[0, 1, 0, 0], [0, 0, 5, 4, 0, 0], [0, 5, 0, 0, 0, 0]], bytes_downloaded = 0\<rparr>"

theorem stream_delivers_witness:
  "fst (recv_all (message_from_bytes empty_de empty_events) 3 chunked) = [Inr Choke, Inr (Have 5), Inr KeepAlive]"
proof -
  have "list_all (sendable empty_ser empty_de empty_events) [Choke, Have 5, KeepAlive]"
    by (simp add: sendable_def message_encode_def create_message_with_id_def MAX_FRAME_PAYLOAD_LENGTH_def)
  moreover have "read_buffer chunked @ concat (transport chunked)
      = concat (map (\<lambda>m. projr (message_encode empty_ser m)) [Choke, Have 5, KeepAlive])"
    by (simp add: chunked_def message_encode_def create_message_with_id_def be_bytes_4)
  moreover have "[] \<notin> set (transport chunked)" by (simp add: chunked_def)
  ultimately show ?thesis
    using stream_delivers [of empty_ser empty_de empty_events "[Choke, Have 5, KeepAlive]" chunked] by (simp add: on_wire_def eval_nat_numeral)
qed

theorem receivers_agree_witness:
  "fst (stream_recv (message_from_bytes empty_de empty_events) chunked)
     = fst (reader_recv (message_from_bytes empty_de empty_events) [0, 0, 0, 1, 0, 0, 0, 0, 5, 4, 0, 0, 0, 5, 0, 0, 0, 0])"
  using receivers_agree [of chunked "message_from_bytes empty_de empty_events"] by (simp add: chunked_def)

text \<open>
  A peer can make the decoder panic. A frame of one byte, the identifier of an extended message
  with nothing after it, is read past its end, whatever the bencode libraries do.
\<close>

theorem empty_extended_panics: "message_from_bytes de events [0, 0, 0, 1, 20] = Inl Panicked"
proof -
  have "is_frame [0, 0, 0, 1, 20] [20]" by (simp add: is_frame_def MAX_FRAME_PAYLOAD_LENGTH_def be_bytes_4)
  then show ?thesis by (simp add: from_bytes_frame decode_payload_def decode_extended_def)
qed

end
