(* ===== verification/Peer_Actor.thy ===== *)
theory Peer_Actor
  imports Torrent_Lifecycle Peer_Messages
begin

text \<open>
  The actor of one connected peer: \<^verbatim>\<open>peer/actor.rs\<close> with its state (\<^verbatim>\<open>peer/state.rs\<close>), the metadata it
  assembles (\<^verbatim>\<open>peer/info.rs\<close>) and the extensions it knows of (\<^verbatim>\<open>peer/supports.rs\<close>). The environment says
  which writes succeed, what the torrent actor would answer (it may be gone), the time, the traffic
  counters shared with the stream and the order in which a hash set is iterated. A handler returns
  the messages it sends and the new state, or no state when it panics. The \<^verbatim>\<open>live\<close> feature is left out.
\<close>

section \<open>State\<close>

record peer_settings =
  ps_keepalive_timeout :: duration
  ps_disconnect_timeout :: duration

record rate_sample =
  rs_at :: instant
  rs_downloaded :: nat
  rs_uploaded :: nat

record peer_actor =
  pa_id :: peer_id
  pa_am_choking :: bool
  pa_peer_interested :: bool
  pa_peer_choking :: bool
  pa_am_interested :: bool
  pa_last_sent :: "instant option"
  pa_last_received :: "instant option"
  pa_pieces :: "bool list"
  pa_bep_0009 :: byte
  pa_bep_0010 :: bool
  pa_info_size :: nat
  pa_info_bytes :: "byte list"
  pa_pending_blocks :: "(nat \<times> nat \<times> nat) list"
  pa_pending_messages :: "peer_message list"
  pa_sample :: rate_sample
  pa_settings :: peer_settings

datatype peer_effect =
    Send peer_message
  | TellTorrent torrent_msg
  | Shutdown

record peer_env =
  pe_now :: instant
  pe_send_ok :: "peer_message \<Rightarrow> bool"
  pe_torrent :: "torrent_actor option"
  pe_downloaded :: nat
  pe_uploaded :: nat
  pe_iter :: "(nat \<times> nat \<times> nat) list \<Rightarrow> (nat \<times> nat \<times> nat) list"

type_synonym peer_step = "peer_actor \<Rightarrow> peer_effect list \<times> peer_actor option"

definition and_then :: "peer_step \<Rightarrow> peer_step \<Rightarrow> peer_step" where
  "and_then f g p =
     (case f p of (es, None) \<Rightarrow> (es, None) | (es, Some q) \<Rightarrow> (let (es', r) = g q in (es @ es', r)))"

definition skip_step :: peer_step where
  "skip_step p = ([], Some p)"

definition modify :: "(peer_actor \<Rightarrow> peer_actor) \<Rightarrow> peer_step" where
  "modify f p = ([], Some (f p))"

text \<open>Sending: a failure is ignored or logged, or it is fatal where the code says \<^verbatim>\<open>expect\<close>.\<close>

definition stream_send :: "peer_env \<Rightarrow> peer_message \<Rightarrow> peer_step" where
  "stream_send env m p = (if pe_send_ok env m then [Send m] else [], Some p)"

definition send_expect :: "peer_env \<Rightarrow> peer_message \<Rightarrow> peer_step" where
  "send_expect env m p = (if pe_send_ok env m then ([Send m], Some p) else ([], None))"

definition tell_torrent :: "peer_env \<Rightarrow> torrent_msg \<Rightarrow> peer_step" where
  "tell_torrent env m p = (if pe_torrent env \<noteq> None then [TellTorrent m] else [], Some p)"

section \<open>Metadata\<close>

definition append_to_bytes :: "byte list \<Rightarrow> peer_actor \<Rightarrow> string + peer_actor" where
  "append_to_bytes bytes p =
     (if length (pa_info_bytes p) + length bytes > pa_info_size p
      then Inl ''The inputted bytes + pre-existing bytes were longer than the metadata size''
      else Inr (p\<lparr>pa_info_bytes := pa_info_bytes p @ bytes\<rparr>))"

definition have_all_bytes :: "peer_actor \<Rightarrow> bool" where
  "have_all_bytes p = (if pa_info_size p = 0 then False else length (pa_info_bytes p) \<ge> pa_info_size p)"

definition send_message :: "peer_env \<Rightarrow> peer_message \<Rightarrow> peer_step" where
  "send_message env m p =
     (if pa_peer_choking p \<and> (case m of Request _ _ _ \<Rightarrow> True | _ \<Rightarrow> False) then ([], Some p) else stream_send env m p)"

definition request_metadata :: "peer_env \<Rightarrow> nat option \<Rightarrow> nat \<Rightarrow> peer_step" where
  "request_metadata env metadata_size piece p0 =
     (let p = (case metadata_size of Some n \<Rightarrow> p0\<lparr>pa_info_size := n\<rparr> | None \<Rightarrow> p0)
      in if pa_info_size p > 0 \<and> \<not> have_all_bytes p
         then send_message env
           (Extended (pa_bep_0009 p) (Some (extended_message_new\<lparr>em_piece := Some piece, em_msg_type := Some ExtRequest\<rparr>)) None) p
         else ([], Some p))"

definition send_extended_handshake :: "peer_env \<Rightarrow> byte \<Rightarrow> peer_step" where
  "send_extended_handshake env extended_id p =
     (if extended_id = 0
      then stream_send env
        (Extended extended_id (Some (extended_message_new\<lparr>em_supported_extensions := Some [(''ut_metadata'', 2)]\<rparr>)) None) p
      else ([], Some p))"

definition store_metadata :: "peer_env \<Rightarrow> extended_message \<Rightarrow> byte list option \<Rightarrow> peer_step" where
  "store_metadata env em metadata p =
     (case (is_bep_0009 ExtData em, metadata) of
        (Inr True, Some bytes) \<Rightarrow>
          (case append_to_bytes bytes p of
             Inl _ \<Rightarrow> ([], Some p)
           | Inr p1 \<Rightarrow>
               if \<not> have_all_bytes p1
               then (case em_piece em of
                       None \<Rightarrow> ([], None)
                     | Some n \<Rightarrow> request_metadata env (em_metadata_size em) (n + 1) p1)
               else ([], Some p1))
      | _ \<Rightarrow> ([], Some p))"

text \<open>
  The reply to an extension handshake. The second value says that the handler returns early, which
  it does when the torrent actor cannot be asked.
\<close>

definition learn_extensions :: "peer_env \<Rightarrow> extended_message \<Rightarrow> peer_actor \<Rightarrow> (peer_effect list \<times> peer_actor option) \<times> bool" where
  "learn_extensions env em p0 =
     (case supports_bep_0009 em of
        Inl _ \<Rightarrow> (([], Some p0), False)
      | Inr i \<Rightarrow>
          let p = p0\<lparr>pa_bep_0009 := i\<rparr>
          in (case em_metadata_size em of
                None \<Rightarrow> (([], Some p), False)
              | Some sz \<Rightarrow>
                  (case pe_torrent env of
                     None \<Rightarrow> (([], Some p), True)
                   | Some t \<Rightarrow>
                       let piece_num = (case em_piece em of None \<Rightarrow> 0 | Some n \<Rightarrow> n)
                       in (if piece_num = 0 \<and> info_dict t = None then request_metadata env (Some sz) piece_num p
                           else ([], Some p), False))))"

definition report_metadata :: "peer_env \<Rightarrow> peer_step" where
  "report_metadata env p =
     (if have_all_bytes p then tell_torrent env (InfoBytes (pa_info_bytes p)) p else ([], Some p))"

definition handle_extended_message :: "peer_env \<Rightarrow> extended_message option \<Rightarrow> byte list option \<Rightarrow> peer_step" where
  "handle_extended_message env em metadata =
     (case em of
        None \<Rightarrow> report_metadata env
      | Some m \<Rightarrow>
          and_then (store_metadata env m metadata)
            (\<lambda>p. let (r, early) = learn_extensions env m p
                 in if early then r else and_then (\<lambda>_. r) (report_metadata env) p))"

section \<open>Interest and queues\<close>

definition determine_interest :: "peer_env \<Rightarrow> peer_step" where
  "determine_interest env p =
     (case pe_torrent env of
        None \<Rightarrow> ([], Some p)
      | Some t \<Rightarrow>
          let b = fst (interesting_pieces (pa_pieces p) t)
          in and_then (send_expect env (if b then Interested else NotInterested)) (modify (\<lambda>p. p\<lparr>pa_am_interested := b\<rparr>)) p)"

text \<open>\<^verbatim>\<open>pop_back\<close> takes the newest queued message first.\<close>

fun flush_messages :: "peer_env \<Rightarrow> peer_message list \<Rightarrow> peer_step" where
  "flush_messages env [] p = ([], Some (p\<lparr>pa_pending_messages := []\<rparr>))"
| "flush_messages env (m # ms) p =
     and_then (send_expect env m) (flush_messages env ms) (p\<lparr>pa_pending_messages := rev ms\<rparr>)"

definition flush_queue :: "peer_env \<Rightarrow> peer_step" where
  "flush_queue env p = flush_messages env (rev (pa_pending_messages p)) p"

definition wire_request :: "nat \<times> nat \<times> nat \<Rightarrow> peer_message" where
  "wire_request = (\<lambda>(index, begin, len). Request (of_nat index) (of_nat begin) (of_nat len))"

definition flush_block_requests :: "peer_env \<Rightarrow> peer_step" where
  "flush_block_requests env p =
     (map Send (filter (pe_send_ok env) (map wire_request (pe_iter env (pa_pending_blocks p)))), Some p)"

definition notify_ready :: "peer_env \<Rightarrow> peer_step" where
  "notify_ready env p = tell_torrent env (PeerReady (pa_id p) (pa_pieces p)) p"

definition reject_piece_request :: "peer_env \<Rightarrow> nat \<Rightarrow> nat \<Rightarrow> peer_step" where
  "reject_piece_request env index begin p = tell_torrent env (PeerRejectedRequest (pa_id p) index begin) p"

section \<open>Messages of the peer\<close>

definition on_piece :: "peer_env \<Rightarrow> u32 \<Rightarrow> u32 \<Rightarrow> byte list \<Rightarrow> peer_step" where
  "on_piece env index offset data p =
     (let key = (unat index, unat offset, length data)
      in if key \<in> set (pa_pending_blocks p)
         then tell_torrent env (IncomingPiece (pa_id p) (unat index) (unat offset) data)
           (p\<lparr>pa_pending_blocks := removeAll key (pa_pending_blocks p)\<rparr>)
         else ([], Some p))"

definition on_have :: "peer_env \<Rightarrow> u32 \<Rightarrow> peer_step" where
  "on_have env piece_index p =
     (let idx = unat piece_index
      in if idx < length (pa_pieces p)
         then let was_set = pa_pieces p ! idx; p1 = p\<lparr>pa_pieces := (pa_pieces p)[idx := True]\<rparr>
              in if \<not> was_set then determine_interest env p1 else ([], Some p1)
         else ([], Some p))"

definition on_request :: "peer_env \<Rightarrow> u32 \<Rightarrow> u32 \<Rightarrow> u32 \<Rightarrow> peer_step" where
  "on_request env index offset len p =
     (if pa_am_choking p then ([], Some p)
      else if len = 0 \<or> unat len > BLOCK_SIZE then ([Shutdown], Some p)
      else (case pe_torrent env of
              None \<Rightarrow> ([], None)
            | Some t \<Rightarrow>
                (case request_piece (unat index) (unat offset) (unat len) t of
                   Some data \<Rightarrow> send_expect env (Piece (of_nat (unat index)) (of_nat (unat offset)) data) p
                 | None \<Rightarrow> ([], Some p))))"

definition handle_peer_message :: "peer_env \<Rightarrow> peer_message \<Rightarrow> peer_step" where
  "handle_peer_message env m p0 =
     (let p = p0\<lparr>pa_last_received := Some (pe_now env)\<rparr>
      in case m of
        Piece index offset data \<Rightarrow> on_piece env index offset data p
      | Choke \<Rightarrow> ([], Some (p\<lparr>pa_peer_choking := True\<rparr>))
      | Unchoke \<Rightarrow>
          and_then (flush_queue env) (and_then (flush_block_requests env) (notify_ready env)) (p\<lparr>pa_peer_choking := False\<rparr>)
      | Interested \<Rightarrow> ([], Some (p\<lparr>pa_peer_interested := True\<rparr>))
      | NotInterested \<Rightarrow> ([], Some (p\<lparr>pa_peer_interested := False\<rparr>))
      | KeepAlive \<Rightarrow> ([], Some p)
      | Have piece_index \<Rightarrow> on_have env piece_index p
      | Request index offset len \<Rightarrow> on_request env index offset len p
      | Extended extended_id em metadata \<Rightarrow>
          and_then (if extended_id = 0 then send_extended_handshake env 0 else skip_step)
            (handle_extended_message env em metadata) p
      | Cancel index offset len \<Rightarrow>
          ([], Some (p\<lparr>pa_pending_blocks := removeAll (unat index, unat offset, unat len) (pa_pending_blocks p)\<rparr>))
      | Bitfield bits \<Rightarrow> and_then (determine_interest env) (notify_ready env) (p\<lparr>pa_pieces := bits\<rparr>)
      | HandshakeMsg _ \<Rightarrow> ([], Some p))"

section \<open>Commands of the torrent\<close>

definition need_piece :: "peer_env \<Rightarrow> nat \<Rightarrow> nat \<Rightarrow> nat \<Rightarrow> peer_step" where
  "need_piece env index begin len p =
     (let p1 = p\<lparr>pa_pending_blocks := List.insert (index, begin, len) (pa_pending_blocks p)\<rparr>
      in if get_at (pa_pieces p) index \<noteq> Some True then reject_piece_request env index begin p
         else if pa_peer_choking p then ([], Some p1)
         else if \<not> pe_send_ok env (wire_request (index, begin, len)) then reject_piece_request env index begin p
         else ([Send (wire_request (index, begin, len))], Some p1))"

definition cancel_piece :: "peer_env \<Rightarrow> nat \<Rightarrow> nat \<Rightarrow> nat \<Rightarrow> peer_step" where
  "cancel_piece env index begin len p =
     (if (index, begin, len) \<notin> set (pa_pending_blocks p) then ([], Some p)
      else stream_send env (Cancel (of_nat index) (of_nat begin) (of_nat len))
        (p\<lparr>pa_pending_blocks := removeAll (index, begin, len) (pa_pending_blocks p)\<rparr>))"

definition set_choked :: "peer_env \<Rightarrow> bool \<Rightarrow> peer_step" where
  "set_choked env choked p =
     (if pa_am_choking p = choked then ([], Some p)
      else
        let m = (if choked then Choke else Unchoke)
        in if \<not> pe_send_ok env m then ([], Some p) else ([Send m], Some (p\<lparr>pa_am_choking := choked\<rparr>)))"

definition have_info_dict :: "peer_env \<Rightarrow> bool list \<Rightarrow> peer_step" where
  "have_info_dict env bitfield = send_message env (Bitfield bitfield)"

definition have_piece :: "peer_env \<Rightarrow> nat \<Rightarrow> peer_step" where
  "have_piece env piece = send_message env (Have (of_nat piece))"

text \<open>Instants count nanoseconds. \<^verbatim>\<open>duration_since\<close> and \<^verbatim>\<open>saturating_sub\<close> do not go below zero.\<close>

definition as_secs :: "duration \<Rightarrow> nat" where
  "as_secs d = d div 1000000000"

definition snapshot_stats :: "peer_env \<Rightarrow> peer_actor \<Rightarrow> peer_stats \<times> peer_actor" where
  "snapshot_stats env p =
     (let elapsed = max (as_secs (pe_now env - rs_at (pa_sample p))) 1;
          download_rate = (pe_downloaded env - rs_downloaded (pa_sample p)) div elapsed;
          upload_rate = (pe_uploaded env - rs_uploaded (pa_sample p)) div elapsed
      in (\<lparr>st_id = pa_id p, st_interested = pa_peer_interested p, st_client_choking = pa_am_choking p,
           st_download_rate = download_rate, st_upload_rate = upload_rate\<rparr>,
          p\<lparr>pa_sample := \<lparr>rs_at = pe_now env, rs_downloaded = pe_downloaded env, rs_uploaded = pe_uploaded env\<rparr>\<rparr>))"

section \<open>The loop\<close>

datatype wait_outcome = StopPeer | WaitFor duration

text \<open>What the loop does before it waits for a command, a message or the deadline.\<close>

definition check_idle :: "peer_env \<Rightarrow> peer_actor \<Rightarrow> peer_effect list \<times> peer_actor \<times> wait_outcome" where
  "check_idle env p =
     (let last_received = (case pa_last_received p of Some r \<Rightarrow> r | None \<Rightarrow> pe_now env);
          idle = pe_now env - last_received;
          keepalive = ps_keepalive_timeout (pa_settings p);
          disconnect = ps_disconnect_timeout (pa_settings p)
      in if idle \<ge> disconnect
         then (if pe_torrent env \<noteq> None then [TellTorrent (KillPeerMsg (pa_id p))] else [], p, StopPeer)
         else
           let keepalive_sent = (case pa_last_sent p of Some s \<Rightarrow> s \<ge> last_received | None \<Rightarrow> False);
               send = (idle \<ge> keepalive \<and> \<not> keepalive_sent)
           in if send \<and> \<not> pe_send_ok env KeepAlive then ([], p, StopPeer)
              else
                let p1 = (if send then p\<lparr>pa_last_sent := Some (pe_now env)\<rparr> else p);
                    next_idle_deadline = (if keepalive_sent \<or> idle \<ge> keepalive then disconnect else min keepalive disconnect)
                in (if send then [Send KeepAlive] else [], p1, WaitFor (max (next_idle_deadline - idle) 1000000)))"

datatype peer_signal = StopSignal | MessageSignal peer_message

definition check_message_signal :: "peer_error + peer_message \<Rightarrow> peer_signal option" where
  "check_message_signal r =
     (case r of
        Inr m \<Rightarrow> Some (MessageSignal m)
      | Inl (IoError k) \<Rightarrow> if k = UncategorisedIo then None else Some StopSignal
      | Inl (ReceiveFailed k) \<Rightarrow> if k = UncategorisedIo then None else Some StopSignal
      | Inl _ \<Rightarrow> None)"

section \<open>Creation and shutdown\<close>

definition from_reserved :: "byte list \<Rightarrow> byte \<times> bool" where
  "from_reserved reserved = (0, (reserved ! 5) AND 0x10 \<noteq> 0)"

definition peer_on_start :: "peer_env \<Rightarrow> peer_id \<Rightarrow> byte list \<Rightarrow> peer_settings \<Rightarrow> peer_effect list \<times> peer_actor option" where
  "peer_on_start env i reserved settings =
     (case pe_torrent env of
        None \<Rightarrow> ([], None)
      | Some t \<Rightarrow>
          let bitfield = ta_bitfield t
          in if bitfield \<noteq> [] \<and> \<not> pe_send_ok env (Bitfield bitfield) then ([], None)
             else
               ((if bitfield \<noteq> [] then [Send (Bitfield bitfield)] else []) @ [TellTorrent (PeerReady i [])],
                Some \<lparr>pa_id = i, pa_am_choking = True, pa_peer_interested = False, pa_peer_choking = True,
                  pa_am_interested = False, pa_last_sent = None, pa_last_received = None, pa_pieces = [],
                  pa_bep_0009 = fst (from_reserved reserved), pa_bep_0010 = snd (from_reserved reserved),
                  pa_info_size = 0, pa_info_bytes = [], pa_pending_blocks = [], pa_pending_messages = [],
                  pa_sample = \<lparr>rs_at = pe_now env, rs_downloaded = pe_downloaded env, rs_uploaded = pe_uploaded env\<rparr>,
                  pa_settings = settings\<rparr>))"

definition peer_on_stop :: "peer_env \<Rightarrow> peer_actor \<Rightarrow> peer_effect list" where
  "peer_on_stop env p = (if pe_torrent env \<noteq> None then [TellTorrent (KillPeerMsg (pa_id p))] else [])"

datatype peer_input =
    FromPeer peer_message
  | CmdNeedPiece nat nat nat
  | CmdCancelPiece nat nat nat
  | CmdSetChoked bool
  | CmdHaveInfoDict "bool list"
  | CmdHave nat
  | CmdStats
  | IdleCheck

text \<open>One turn of the actor.\<close>

primrec peer_turn :: "peer_env \<Rightarrow> peer_input \<Rightarrow> peer_step" where
  "peer_turn env (FromPeer m) p = handle_peer_message env m p"
| "peer_turn env (CmdNeedPiece index begin len) p = need_piece env index begin len p"
| "peer_turn env (CmdCancelPiece index begin len) p = cancel_piece env index begin len p"
| "peer_turn env (CmdSetChoked choked) p = set_choked env choked p"
| "peer_turn env (CmdHaveInfoDict bitfield) p = have_info_dict env bitfield p"
| "peer_turn env (CmdHave piece) p = have_piece env piece p"
| "peer_turn env CmdStats p = ([], Some (snd (snapshot_stats env p)))"
| "peer_turn env IdleCheck p =
     (let (es, p1, w) = check_idle env p in (es, case w of StopPeer \<Rightarrow> None | WaitFor _ \<Rightarrow> Some p1))"

section \<open>Runs\<close>

text \<open>
  A run of the actor: its inputs, everything it sent, and its state, which is gone once it stopped
  or panicked. The environment may be different at every turn.
\<close>

inductive peer_run :: "peer_input list \<Rightarrow> peer_effect list \<Rightarrow> peer_actor option \<Rightarrow> bool" where
  start: "peer_run [] (fst (peer_on_start env i reserved settings)) (snd (peer_on_start env i reserved settings))"
| turn: "peer_run ins es (Some p) \<Longrightarrow> peer_run (ins @ [inp]) (es @ fst (peer_turn env inp p)) (snd (peer_turn env inp p))"

section \<open>Turn relations\<close>

text \<open>
  What holds of every turn is stated as a relation between the state before, the effects and the
  state after. A relation that is closed under sequencing, and that the harmless effects and the
  bookkeeping of the actor respect, is respected by most handlers.
\<close>

fun harmless :: "peer_effect \<Rightarrow> bool" where
  "harmless (Send (Extended _ _ _)) = True"
| "harmless (Send (Bitfield _)) = True"
| "harmless (Send (Have _)) = True"
| "harmless (Send KeepAlive) = True"
| "harmless (TellTorrent (InfoBytes _)) = True"
| "harmless (TellTorrent (PeerReady _ _)) = True"
| "harmless (TellTorrent (PeerRejectedRequest _ _ _)) = True"
| "harmless (TellTorrent (KillPeerMsg _)) = True"
| "harmless Shutdown = True"
| "harmless _ = False"

text \<open>The fields that decide which blocks and messages go out and come in.\<close>

definition same_core :: "peer_actor \<Rightarrow> peer_actor \<Rightarrow> bool" where
  "same_core p q = (pa_am_choking q = pa_am_choking p \<and> pa_am_interested q = pa_am_interested p \<and>
     pa_pending_blocks q = pa_pending_blocks p \<and> pa_pending_messages q = pa_pending_messages p)"

definition obeys :: "(peer_actor \<Rightarrow> peer_effect list \<Rightarrow> peer_actor option \<Rightarrow> bool) \<Rightarrow> peer_step \<Rightarrow> bool" where
  "obeys R f = (\<forall>p. R p (fst (f p)) (snd (f p)))"

locale turn_relation =
  fixes R :: "peer_actor \<Rightarrow> peer_effect list \<Rightarrow> peer_actor option \<Rightarrow> bool"
  assumes seq: "R p es (Some q) \<Longrightarrow> R q es' r \<Longrightarrow> R p (es @ es') r"
    and crash: "R p es (Some q) \<Longrightarrow> R p es None"
    and update: "same_core p q \<Longrightarrow> R p [] (Some q)"
    and quiet_effect: "harmless e \<Longrightarrow> R p [e] (Some p)"
begin

lemma stay: "R p [] (Some p)" "R p [] None"
  using update [of p p] crash by (auto simp: same_core_def)

lemma and_then: "obeys R f \<Longrightarrow> obeys R g \<Longrightarrow> obeys R (and_then f g)"
  unfolding obeys_def and_then_def by (auto simp: split_beta split: option.split) (metis, metis seq)

lemma after_update: "obeys R f \<Longrightarrow> same_core p q \<Longrightarrow> R p (fst (f q)) (snd (f q))"
  using seq [OF update, of p q "fst (f q)" "snd (f q)"] by (simp add: obeys_def)

lemma send: "harmless (Send m) \<Longrightarrow> obeys R (stream_send env m)" "harmless (Send m) \<Longrightarrow> obeys R (send_message env m)"
  by (auto simp: obeys_def stream_send_def send_message_def stay quiet_effect)

lemma tell: "harmless (TellTorrent m) \<Longrightarrow> obeys R (tell_torrent env m)"
  by (auto simp: obeys_def tell_torrent_def stay quiet_effect)

lemma notifications: "obeys R (notify_ready env)" "obeys R (reject_piece_request env i b)" "obeys R (report_metadata env)"
  "obeys R (have_info_dict env bits)" "obeys R (have_piece env n)" "obeys R (send_extended_handshake env k)" "obeys R skip_step"
  using send tell stay
  by (auto simp: obeys_def notify_ready_def reject_piece_request_def report_metadata_def have_info_dict_def have_piece_def
      send_extended_handshake_def skip_step_def)

lemma metadata_request: "obeys R (request_metadata env sz n)"
  unfolding obeys_def
proof
  fix p :: peer_actor
  let ?q = "case sz of Some m \<Rightarrow> p\<lparr>pa_info_size := m\<rparr> | None \<Rightarrow> p"
  let ?m = "Extended (pa_bep_0009 ?q) (Some (extended_message_new\<lparr>em_piece := Some n, em_msg_type := Some ExtRequest\<rparr>)) None"
  have "same_core p ?q" by (simp add: same_core_def split: option.split)
  then have "R p (fst (send_message env ?m ?q)) (snd (send_message env ?m ?q))" "R p [] (Some ?q)"
    using after_update [OF send(2) [of ?m env]] update by auto
  then show "R p (fst (request_metadata env sz n p)) (snd (request_metadata env sz n p))"
    by (auto simp: request_metadata_def Let_def)
qed

lemma metadata_store: "obeys R (store_metadata env em metadata)"
  unfolding obeys_def
proof
  fix p :: peer_actor
  have "same_core p (p\<lparr>pa_info_bytes := b\<rparr>)" for b by (simp add: same_core_def)
  then show "R p (fst (store_metadata env em metadata p)) (snd (store_metadata env em metadata p))"
    using after_update [OF metadata_request] update stay
    by (auto simp: store_metadata_def append_to_bytes_def split: sum.split option.split bool.split)
qed

lemma learn: "obeys R (\<lambda>p. fst (learn_extensions env em p))"
  unfolding obeys_def
proof
  fix p :: peer_actor
  have "same_core p (p\<lparr>pa_bep_0009 := b\<rparr>)" for b by (simp add: same_core_def)
  then show "R p (fst (fst (learn_extensions env em p))) (snd (fst (learn_extensions env em p)))"
    using after_update [OF metadata_request] update stay
    by (auto simp: learn_extensions_def Let_def split: sum.split option.split)
qed

lemma extended: "obeys R (handle_extended_message env em metadata)"
proof (cases em)
  case None
  then show ?thesis using notifications(3) by (simp add: handle_extended_message_def)
next
  case (Some m)
  have "obeys R (\<lambda>p. let (r, early) = learn_extensions env m p in if early then r else and_then (\<lambda>_. r) (report_metadata env) p)"
    unfolding obeys_def
  proof
    fix p
    have "and_then (\<lambda>_. fst (learn_extensions env m p)) (report_metadata env) p
        = and_then (\<lambda>p. fst (learn_extensions env m p)) (report_metadata env) p"
      by (simp add: and_then_def)
    then show "R p (fst (let (r, early) = learn_extensions env m p in if early then r else and_then (\<lambda>_. r) (report_metadata env) p))
        (snd (let (r, early) = learn_extensions env m p in if early then r else and_then (\<lambda>_. r) (report_metadata env) p))"
      using learn [of env m] and_then [OF learn [of env m] notifications(3) [of env]] by (simp add: obeys_def split_beta Let_def)
  qed
  then show ?thesis unfolding handle_extended_message_def Some using and_then [OF metadata_store] by simp
qed

lemma idle: "obeys R (peer_turn env IdleCheck)" "obeys R (peer_turn env CmdStats)"
proof -
  have "same_core p (p\<lparr>pa_last_sent := a\<rparr>)" "same_core p (p\<lparr>pa_sample := c\<rparr>)" for p a c by (simp_all add: same_core_def)
  note u = this [THEN update]
  have ka: "R p [Send KeepAlive] (Some (p\<lparr>pa_last_sent := a\<rparr>))" for p a
    using seq [OF quiet_effect u(1), of "Send KeepAlive" p a] by simp
  show "obeys R (peer_turn env CmdStats)"
    using u(2) by (simp add: obeys_def snapshot_stats_def Let_def)
  show "obeys R (peer_turn env IdleCheck)"
    using stay quiet_effect [THEN crash] ka by (auto simp: obeys_def check_idle_def Let_def)
qed

lemma rest:
  "obeys R (peer_turn env (CmdHaveInfoDict bits))" "obeys R (peer_turn env (CmdHave n))"
  "m \<in> {Interested, NotInterested, KeepAlive, HandshakeMsg h} \<Longrightarrow> obeys R (handle_peer_message env m)"
  "obeys R (handle_peer_message env (Extended k em d))" "obeys R (handle_peer_message env Choke)"
proof -
  show "obeys R (peer_turn env (CmdHaveInfoDict bits))" "obeys R (peer_turn env (CmdHave n))"
    using notifications(4,5) by (simp_all add: obeys_def)
  have "same_core p (p\<lparr>pa_last_received := a\<rparr>)" "same_core p (p\<lparr>pa_last_received := a, pa_peer_interested := b\<rparr>)"
    "same_core p (p\<lparr>pa_last_received := a, pa_peer_choking := b\<rparr>)" for p a b
    by (simp_all add: same_core_def)
  note u = this
  show "m \<in> {Interested, NotInterested, KeepAlive, HandshakeMsg h} \<Longrightarrow> obeys R (handle_peer_message env m)"
    "obeys R (handle_peer_message env Choke)"
    using u [THEN update] by (auto simp: obeys_def handle_peer_message_def)
  have "obeys R (and_then (if k = 0 then send_extended_handshake env 0 else skip_step) (handle_extended_message env em d))"
    using and_then extended notifications(6,7) by simp
  from after_update [OF this u(1)] show "obeys R (handle_peer_message env (Extended k em d))"
    by (simp add: obeys_def handle_peer_message_def)
qed

end

text \<open>The relations that announcing interest respects as well.\<close>

locale wire_relation = turn_relation +
  assumes interest: "obeys R (determine_interest env)"
begin

lemma availability: "obeys R (handle_peer_message env (Have i))" "obeys R (handle_peer_message env (Bitfield bits))"
proof -
  have "same_core p (p\<lparr>pa_last_received := a\<rparr>)" "same_core p (p\<lparr>pa_last_received := a, pa_pieces := b\<rparr>)" for p a b
    by (simp_all add: same_core_def)
  note core = this
  show "obeys R (handle_peer_message env (Have i))"
    using after_update [OF interest [of env] core(2)] update [OF core(1)] update [OF core(2)]
    by (simp add: obeys_def handle_peer_message_def on_have_def Let_def)
  show "obeys R (handle_peer_message env (Bitfield bits))"
    using after_update [OF and_then [OF interest [of env] notifications(1) [of env]] core(2)]
    by (simp add: obeys_def handle_peer_message_def)
qed

lemma unchoke:
  assumes "obeys R (flush_queue env)" and "obeys R (flush_block_requests env)"
  shows "obeys R (handle_peer_message env Unchoke)"
proof -
  have "obeys R (and_then (flush_queue env) (and_then (flush_block_requests env) (notify_ready env)))"
    by (intro and_then assms notifications(1))
  moreover have "same_core p (p\<lparr>pa_last_received := a, pa_peer_choking := b\<rparr>)" for p a b by (simp add: same_core_def)
  ultimately show ?thesis using after_update by (simp add: obeys_def handle_peer_message_def)
qed

end

section \<open>Choking and interest\<close>

text \<open>What the other side knows of our choking and our interest after a sequence of effects.\<close>

fun observe :: "peer_effect \<Rightarrow> bool \<times> bool \<Rightarrow> bool \<times> bool" where
  "observe (Send Choke) v = (True, snd v)"
| "observe (Send Unchoke) v = (False, snd v)"
| "observe (Send Interested) v = (fst v, True)"
| "observe (Send NotInterested) v = (fst v, False)"
| "observe e v = v"

definition our_view :: "peer_actor \<Rightarrow> bool \<times> bool" where
  "our_view p = (pa_am_choking p, pa_am_interested p)"

definition in_step :: "peer_actor \<Rightarrow> peer_effect list \<Rightarrow> peer_actor option \<Rightarrow> bool" where
  "in_step p es r = (pa_pending_messages p = [] \<longrightarrow>
     (\<forall>q. r = Some q \<longrightarrow> pa_pending_messages q = [] \<and> fold observe es (our_view p) = our_view q))"

lemma observe_harmless: "harmless e \<Longrightarrow> observe e v = v"
proof (cases e)
  case (Send m)
  then show "harmless e \<Longrightarrow> ?thesis" by (cases m) simp_all
qed simp_all

interpretation steps: turn_relation in_step
proof unfold_locales
  show "in_step p (es @ es') r" if "in_step p es (Some q)" "in_step q es' r" for p es q es' r
    unfolding in_step_def
  proof (intro impI allI)
    fix q'
    assume p: "pa_pending_messages p = []" and r: "r = Some q'"
    from that(1) p have "pa_pending_messages q = []" "fold observe es (our_view p) = our_view q" by (simp_all add: in_step_def)
    with that(2) r show "pa_pending_messages q' = [] \<and> fold observe (es @ es') (our_view p) = our_view q'"
      by (simp add: in_step_def)
  qed
  show "in_step p [] (Some q)" if "same_core p q" for p q
    using that by (simp add: in_step_def same_core_def our_view_def)
  show "in_step p es None" for p es by (simp add: in_step_def)
  show "in_step p [e] (Some p)" if "harmless e" for p e using observe_harmless [OF that] by (simp add: in_step_def)
qed

lemma in_step_flush: "obeys in_step (flush_queue env)" "obeys in_step (flush_block_requests env)"
proof -
  have "fold observe (map Send (filter P (map wire_request ks))) v = v" for P ks v
    by (induction ks) (auto simp: wire_request_def)
  then show "obeys in_step (flush_queue env)" "obeys in_step (flush_block_requests env)"
    by (simp_all add: obeys_def in_step_def flush_queue_def flush_block_requests_def our_view_def)
qed

lemma in_step_interest: "obeys in_step (determine_interest env)"
  by (auto simp: obeys_def in_step_def our_view_def determine_interest_def and_then_def send_expect_def modify_def Let_def
      split: option.splits if_splits)

interpretation steps_wire: wire_relation in_step
  by unfold_locales (rule in_step_interest)

lemma in_step_peer_message: "obeys in_step (handle_peer_message env m)"
proof (cases m)
  case (Extended k em d)
  then show ?thesis using steps.rest(4) by simp
next
  case (Request i b n)
  then show ?thesis
    by (auto simp: obeys_def in_step_def our_view_def handle_peer_message_def on_request_def send_expect_def Let_def
        split: option.splits if_splits)
next
  case (Piece i b d)
  then show ?thesis
    by (auto simp: obeys_def in_step_def our_view_def handle_peer_message_def on_piece_def tell_torrent_def Let_def)
next
  case (Cancel i b n)
  then show ?thesis by (auto simp: obeys_def in_step_def our_view_def handle_peer_message_def)
qed (use steps.rest(3,5) steps_wire.availability steps_wire.unchoke [OF in_step_flush] in auto)

lemma in_step_turn: "obeys in_step (peer_turn env inp)"
proof (cases inp)
  case (FromPeer m)
  then show ?thesis using in_step_peer_message by (simp add: obeys_def)
next
  case (CmdNeedPiece i b n)
  then show ?thesis
    by (auto simp: obeys_def in_step_def our_view_def need_piece_def reject_piece_request_def tell_torrent_def wire_request_def Let_def)
next
  case (CmdCancelPiece i b n)
  then show ?thesis by (auto simp: obeys_def in_step_def our_view_def cancel_piece_def stream_send_def)
next
  case (CmdSetChoked c)
  then show ?thesis by (auto simp: obeys_def in_step_def our_view_def set_choked_def Let_def)
next
  case IdleCheck
  then show ?thesis using steps.idle(1) by simp
next
  case CmdStats
  then show ?thesis using steps.idle(2) by simp
qed (use steps.rest(1,2) in auto)

lemma run_in_step:
  "peer_run ins es r \<Longrightarrow> r = Some p \<Longrightarrow> pa_pending_messages p = [] \<and> fold observe es (True, False) = our_view p"
proof (induction arbitrary: p rule: peer_run.induct)
  case (start env i reserved settings)
  then show ?case by (auto simp: peer_on_start_def our_view_def Let_def split: option.splits if_splits)
next
  case (turn ins es p' inp env)
  then show ?case using in_step_turn [of env inp] by (auto simp: obeys_def in_step_def)
qed

text \<open>
  C14: both sides agree on choking and interest. After any run, what the peer can conclude from the
  messages it was sent, having started choked and without interest, is exactly the choking and the
  interest the actor records, even when writes failed in between. The queue of pending messages is
  always empty.
\<close>

theorem peer_view_consistent:
  assumes "peer_run ins es (Some p)"
  shows "fold observe es (True, False) = (pa_am_choking p, pa_am_interested p) \<and> pa_pending_messages p = []"
  using run_in_step [OF assms refl] by (simp add: our_view_def)

section \<open>Blocks\<close>

text \<open>How often a block was handed to the torrent, and how often it was asked for.\<close>

definition is_forward :: "nat \<times> nat \<times> nat \<Rightarrow> peer_effect \<Rightarrow> bool" where
  "is_forward key e = (case e of TellTorrent (IncomingPiece _ i off b) \<Rightarrow> (i, off, length b) = key | _ \<Rightarrow> False)"

definition forwarded :: "nat \<times> nat \<times> nat \<Rightarrow> peer_effect list \<Rightarrow> nat" where
  "forwarded key es = length (filter (is_forward key) es)"

definition asked_for :: "nat \<times> nat \<times> nat \<Rightarrow> peer_input list \<Rightarrow> nat" where
  "asked_for key ins = length (filter (\<lambda>i. case i of CmdNeedPiece a b c \<Rightarrow> (a, b, c) = key | _ \<Rightarrow> False) ins)"

definition held :: "nat \<times> nat \<times> nat \<Rightarrow> peer_actor option \<Rightarrow> nat" where
  "held key r = (case r of None \<Rightarrow> 0 | Some p \<Rightarrow> if key \<in> set (pa_pending_blocks p) then 1 else 0)"

definition books :: "nat \<times> nat \<times> nat \<Rightarrow> peer_actor \<Rightarrow> peer_effect list \<Rightarrow> peer_actor option \<Rightarrow> bool" where
  "books key p es r = (forwarded key es + held key r \<le> held key (Some p))"

lemma forwarded_simps [simp]: "forwarded key [] = 0" "forwarded key (es @ es') = forwarded key es + forwarded key es'"
  "forwarded key (e # es) = (if is_forward key e then 1 else 0) + forwarded key es"
  by (simp_all add: forwarded_def)

lemma forward_harmless: "harmless e \<Longrightarrow> \<not> is_forward key e"
proof (cases e)
  case (TellTorrent m)
  then show "harmless e \<Longrightarrow> ?thesis" by (cases m) (simp_all add: is_forward_def)
qed (simp_all add: is_forward_def)

lemma forward_send [simp]: "\<not> is_forward key (Send m)"
  by (simp add: is_forward_def)

interpretation books: turn_relation "books key" for key
proof unfold_locales
  show "books key p [] (Some q)" if "same_core p q" for p q
    using that by (simp add: books_def held_def same_core_def)
qed (simp_all add: books_def held_def forward_harmless)

lemma books_frame:
  assumes "\<And>p. forwarded key (fst (f p)) = 0" and "\<And>p q. snd (f p) = Some q \<Longrightarrow> set (pa_pending_blocks q) \<subseteq> set (pa_pending_blocks p)"
  shows "obeys (books key) f"
  using assms by (auto simp: obeys_def books_def held_def split: option.splits)

lemma books_flush: "obeys (books key) (flush_queue env)" "obeys (books key) (flush_block_requests env)"
  "obeys (books key) (determine_interest env)"
proof -
  have send: "obeys (books key) (send_expect env m)" for m
    by (rule books_frame) (auto simp: send_expect_def split: if_splits)
  have modify: "obeys (books key) (modify (\<lambda>p. p\<lparr>pa_am_interested := b\<rparr>))" for b
    by (rule books_frame) (auto simp: modify_def)
  have "books key p (fst (flush_messages env ms q)) (snd (flush_messages env ms q))" if "pa_pending_blocks q = pa_pending_blocks p" for ms p q
    using that
  proof (induction ms arbitrary: p q)
    case (Cons m ms)
    let ?q = "q\<lparr>pa_pending_messages := rev ms\<rparr>"
    have "snd (send_expect env m ?q) = Some ?q \<or> snd (send_expect env m ?q) = None" "forwarded key (fst (send_expect env m ?q)) = 0"
      by (auto simp: send_expect_def)
    then show ?case
      using Cons.IH [of ?q ?q] Cons.prems
      by (auto simp: and_then_def split_beta books_def held_def split: option.splits if_splits)
  qed (simp add: books_def held_def)
  then show "obeys (books key) (flush_queue env)" by (simp add: obeys_def flush_queue_def)
  show "obeys (books key) (flush_block_requests env)"
    by (rule books_frame) (auto simp: flush_block_requests_def forwarded_def filter_empty_conv)
  show "obeys (books key) (determine_interest env)"
    using books.and_then [OF send modify] books.stay by (auto simp: obeys_def determine_interest_def Let_def split: option.split)
qed

interpretation books_wire: wire_relation "books key" for key
  by unfold_locales (rule books_flush(3))

lemma books_peer_message: "obeys (books key) (handle_peer_message env m)"
proof (cases m)
  case (Extended k em d)
  then show ?thesis using books.rest(4) by simp
next
  case (Request i b n)
  then show ?thesis
    by (intro books_frame) (auto simp: handle_peer_message_def on_request_def send_expect_def Let_def is_forward_def
        split: option.splits if_splits)
next
  case (Piece i b d)
  then show ?thesis
    by (auto simp: obeys_def books_def held_def handle_peer_message_def on_piece_def tell_torrent_def Let_def is_forward_def
        split: if_splits)
next
  case (Cancel i b n)
  then show ?thesis by (intro books_frame) (auto simp: handle_peer_message_def)
qed (use books.rest(3,5) books_wire.availability books_wire.unchoke [OF books_flush(1,2)] in auto)

lemma books_turn:
  "forwarded key (fst (peer_turn env inp p)) + held key (snd (peer_turn env inp p)) \<le> held key (Some p) + asked_for key [inp]"
proof (cases "\<exists>i b n. inp = CmdNeedPiece i b n")
  case True
  then show ?thesis
    by (auto simp: held_def asked_for_def need_piece_def reject_piece_request_def tell_torrent_def Let_def is_forward_def split: if_splits)
next
  case False
  have "obeys (books key) (peer_turn env inp)"
  proof (cases inp)
    case (FromPeer m)
    then show ?thesis using books_peer_message by (simp add: obeys_def)
  next
    case (CmdCancelPiece i b n)
    then show ?thesis by (intro books_frame) (auto simp: cancel_piece_def stream_send_def split: if_splits)
  next
    case (CmdSetChoked c)
    then show ?thesis by (intro books_frame) (auto simp: set_choked_def Let_def split: if_splits)
  next
    case IdleCheck
    then show ?thesis using books.idle(1) by simp
  next
    case CmdStats
    then show ?thesis using books.idle(2) by simp
  qed (use False books.rest(1,2) in auto)
  then show ?thesis by (simp add: obeys_def books_def trans_le_add1)
qed

text \<open>
  C13: only requested blocks reach the torrent, and each request is answered at most once. In any run,
  a block (piece, offset and length) is handed to the torrent at most as often as the torrent asked
  for it, whatever the peer sends; what is still pending counts against the same bound.
\<close>

theorem blocks_only_on_request:
  assumes "peer_run ins es r"
  shows "forwarded key es + held key r \<le> asked_for key ins"
  using assms
proof (induction rule: peer_run.induct)
  case (start env i reserved settings)
  then show ?case by (auto simp: peer_on_start_def held_def is_forward_def Let_def split: option.split)
next
  case (turn ins es p inp env)
  then show ?case using books_turn [of key env inp p] by (simp add: asked_for_def)
qed

section \<open>Sending blocks and requests\<close>

fun is_piece :: "peer_message \<Rightarrow> bool" where
  "is_piece (Piece _ _ _) = True"
| "is_piece _ = False"

fun is_request :: "peer_message \<Rightarrow> bool" where
  "is_request (Request _ _ _) = True"
| "is_request _ = False"

definition sends_no :: "(peer_message \<Rightarrow> bool) \<Rightarrow> peer_actor \<Rightarrow> peer_effect list \<Rightarrow> peer_actor option \<Rightarrow> bool" where
  "sends_no Q p es r = (pa_pending_messages p = [] \<longrightarrow>
     (\<forall>m. Send m \<in> set es \<longrightarrow> \<not> Q m) \<and> (\<forall>q. r = Some q \<longrightarrow> pa_pending_messages q = []))"

lemma sends_no_relation:
  assumes "\<And>m. harmless (Send m) \<Longrightarrow> \<not> Q m"
  shows "turn_relation (sends_no Q)"
proof unfold_locales
  show "sends_no Q p [e] (Some p)" if "harmless e" for p e using assms that by (auto simp: sends_no_def)
  show "sends_no Q p (es @ es') r" if "sends_no Q p es (Some q)" "sends_no Q q es' r" for p es q es' r
    unfolding sends_no_def
  proof (intro impI)
    assume p: "pa_pending_messages p = []"
    with that(1) have q: "pa_pending_messages q = []" "\<forall>m. Send m \<in> set es \<longrightarrow> \<not> Q m" by (simp_all add: sends_no_def)
    with that(2) have "\<forall>m. Send m \<in> set es' \<longrightarrow> \<not> Q m" "\<forall>q. r = Some q \<longrightarrow> pa_pending_messages q = []" by (simp_all add: sends_no_def)
    with q(2) show "(\<forall>m. Send m \<in> set (es @ es') \<longrightarrow> \<not> Q m) \<and> (\<forall>q. r = Some q \<longrightarrow> pa_pending_messages q = [])" by auto
  qed
  show "sends_no Q p [] (Some q)" if "same_core p q" for p q using that by (simp add: sends_no_def same_core_def)
  show "sends_no Q p es None" if "sends_no Q p es (Some q)" for p es q using that by (simp add: sends_no_def)
qed

interpretation no_piece: turn_relation "sends_no is_piece"
proof (rule sends_no_relation)
  fix m
  show "harmless (Send m) \<Longrightarrow> \<not> is_piece m" by (cases m) simp_all
qed

interpretation no_request: turn_relation "sends_no is_request"
proof (rule sends_no_relation)
  fix m
  show "harmless (Send m) \<Longrightarrow> \<not> is_request m" by (cases m) simp_all
qed

lemma sends_no_interest:
  "\<not> Q Interested \<Longrightarrow> \<not> Q NotInterested \<Longrightarrow> obeys (sends_no Q) (determine_interest env)"
  by (auto simp: obeys_def sends_no_def determine_interest_def and_then_def send_expect_def modify_def Let_def
      split: option.splits if_splits)

interpretation no_piece_wire: wire_relation "sends_no is_piece"
  by unfold_locales (rule sends_no_interest; simp)

interpretation no_request_wire: wire_relation "sends_no is_request"
  by unfold_locales (rule sends_no_interest; simp)

lemma no_request_message:
  assumes "m \<noteq> Unchoke"
  shows "obeys (sends_no is_request) (handle_peer_message env m)"
proof (cases m)
  case (Extended k em d)
  then show ?thesis using no_request.rest(4) by simp
next
  case (Request i b n)
  then show ?thesis
    by (auto simp: obeys_def sends_no_def handle_peer_message_def on_request_def send_expect_def Let_def split: option.splits if_splits)
next
  case (Piece i b d)
  then show ?thesis
    by (auto simp: obeys_def sends_no_def handle_peer_message_def on_piece_def tell_torrent_def Let_def)
next
  case (Cancel i b n)
  then show ?thesis by (auto simp: obeys_def sends_no_def handle_peer_message_def)
next
  case Unchoke
  then show ?thesis using assms by simp
qed (use no_request.rest(3,5) no_request_wire.availability in auto)

lemma no_request_turn:
  assumes "inp \<noteq> FromPeer Unchoke" and "\<nexists>i b n. inp = CmdNeedPiece i b n"
  shows "obeys (sends_no is_request) (peer_turn env inp)"
proof (cases inp)
  case (FromPeer m)
  then show ?thesis using no_request_message [of m env] assms(1) by (simp add: obeys_def)
next
  case (CmdCancelPiece i b n)
  then show ?thesis by (auto simp: obeys_def sends_no_def cancel_piece_def stream_send_def)
next
  case (CmdSetChoked c)
  then show ?thesis by (auto simp: obeys_def sends_no_def set_choked_def Let_def)
next
  case IdleCheck
  then show ?thesis using no_request.idle(1) by simp
next
  case CmdStats
  then show ?thesis using no_request.idle(2) by simp
qed (use assms(2) no_request.rest(1,2) in auto)

text \<open>The order in which a hash set is iterated is some order of its elements.\<close>

definition iter_ok :: "peer_env \<Rightarrow> bool" where
  "iter_ok env = (\<forall>xs. set (pe_iter env xs) = set xs)"

lemma unchoke_turn:
  "pa_pending_messages p = [] \<Longrightarrow> handle_peer_message env Unchoke p =
     (let q = p\<lparr>pa_last_received := Some (pe_now env), pa_peer_choking := False, pa_pending_messages := []\<rparr>
      in (map Send (filter (pe_send_ok env) (map wire_request (pe_iter env (pa_pending_blocks p)))) @ fst (notify_ready env q), Some q))"
  by (simp add: handle_peer_message_def and_then_def flush_queue_def flush_block_requests_def notify_ready_def tell_torrent_def Let_def)

text \<open>
  Requests are sent only to a peer that does not choke us, and a request that is sent is on
  record. Whenever a turn of a run puts a block request on the wire, the peer is not choking us
  afterwards and the block is among the pending ones, so that its answer will be accepted.
\<close>

theorem requests_only_unchoked:
  assumes "peer_run ins es (Some p)" and "iter_ok env"
    and "Send (Request a b c) \<in> set (fst (peer_turn env inp p))" and "snd (peer_turn env inp p) = Some q"
  shows "\<not> pa_peer_choking q \<and> Request a b c \<in> wire_request ` set (pa_pending_blocks q)"
proof -
  have pend: "pa_pending_messages p = []" using run_in_step [OF assms(1) refl] by simp
  have "inp = FromPeer Unchoke \<or> (\<exists>i b n. inp = CmdNeedPiece i b n)"
    using no_request_turn [of inp env] assms(3) pend by (fastforce simp: obeys_def sends_no_def)
  then show ?thesis
  proof (elim disjE exE)
    assume "inp = FromPeer Unchoke"
    then show ?thesis
      using assms(2-4) by (auto simp: unchoke_turn [OF pend] Let_def iter_ok_def notify_ready_def tell_torrent_def)
  next
    fix i b n
    assume "inp = CmdNeedPiece i b n"
    then show ?thesis
      using assms(3,4) by (auto simp: need_piece_def reject_piece_request_def tell_torrent_def Let_def split: if_splits)
  qed
qed

lemma no_piece_turn:
  assumes "\<nexists>i b n. inp = FromPeer (Request i b n)"
  shows "obeys (sends_no is_piece) (peer_turn env inp)"
proof (cases inp)
  case (FromPeer m)
  show ?thesis
  proof (cases m)
    case Unchoke
    then show ?thesis
      unfolding FromPeer by (auto simp: obeys_def sends_no_def unchoke_turn Let_def notify_ready_def tell_torrent_def wire_request_def)
  next
    case (Piece i b d)
    then show ?thesis
      unfolding FromPeer by (auto simp: obeys_def sends_no_def handle_peer_message_def on_piece_def tell_torrent_def Let_def)
  next
    case (Cancel i b n)
    then show ?thesis unfolding FromPeer by (auto simp: obeys_def sends_no_def handle_peer_message_def)
  next
    case (Extended k em d)
    then show ?thesis using no_piece.rest(4) [of env] by (simp add: FromPeer obeys_def)
  next
    case (Request i b n)
    then show ?thesis using assms FromPeer by simp
  qed (use no_piece.rest(3,5) no_piece_wire.availability in \<open>auto simp: FromPeer obeys_def\<close>)
next
  case (CmdNeedPiece i b n)
  then show ?thesis
    by (auto simp: obeys_def sends_no_def need_piece_def reject_piece_request_def tell_torrent_def wire_request_def Let_def)
next
  case (CmdCancelPiece i b n)
  then show ?thesis by (auto simp: obeys_def sends_no_def cancel_piece_def stream_send_def)
next
  case (CmdSetChoked c)
  then show ?thesis by (auto simp: obeys_def sends_no_def set_choked_def Let_def)
next
  case IdleCheck
  then show ?thesis using no_piece.idle(1) by simp
next
  case CmdStats
  then show ?thesis using no_piece.idle(2) by simp
qed (use no_piece.rest(1,2) in auto)


section \<open>Idle peers\<close>

text \<open>
  The idle policy. For a peer that was last heard of at time \<open>r\<close>, once the disconnect timeout has
  passed the actor stops and tells the torrent to drop the peer; before that, while writes succeed,
  it waits for a positive time that does not go past the deadline by more than the minimal sleep of
  a millisecond; and a keepalive, once sent, is not repeated until the peer is heard of again.
\<close>

theorem idle_peer_policy:
  assumes "pa_last_received p = Some r" and "r \<le> pe_now env"
  shows "(ps_disconnect_timeout (pa_settings p) \<le> pe_now env - r \<longrightarrow> snd (snd (check_idle env p)) = StopPeer \<and>
      (pe_torrent env \<noteq> None \<longrightarrow> fst (check_idle env p) = [TellTorrent (KillPeerMsg (pa_id p))])) \<and>
    (pe_now env - r < ps_disconnect_timeout (pa_settings p) \<and> pe_send_ok env KeepAlive \<longrightarrow>
      (\<exists>w. snd (snd (check_idle env p)) = WaitFor w \<and> 0 < w \<and>
         pe_now env + w \<le> max (r + ps_disconnect_timeout (pa_settings p)) (pe_now env + 1000000))) \<and>
    (Send KeepAlive \<in> set (fst (check_idle env p)) \<longrightarrow>
      Send KeepAlive \<notin> set (fst (check_idle env' (fst (snd (check_idle env p))))))"
proof -
  let ?d = "ps_disconnect_timeout (pa_settings p)" and ?k = "ps_keepalive_timeout (pa_settings p)" and ?now = "pe_now env"
  have stop: "check_idle env p = (if pe_torrent env \<noteq> None then [TellTorrent (KillPeerMsg (pa_id p))] else [], p, StopPeer)"
    if "?d \<le> ?now - r"
    using that assms(1) by (simp add: check_idle_def)
  have wait: "\<exists>w. snd (snd (check_idle env p)) = WaitFor w \<and> 0 < w \<and> ?now + w \<le> max (r + ?d) (?now + 1000000)"
    if "?now - r < ?d" "pe_send_ok env KeepAlive"
  proof -
    have "snd (snd (check_idle env p)) \<in> {WaitFor (max (?d - (?now - r)) 1000000), WaitFor (max (min ?k ?d - (?now - r)) 1000000)}"
      using that assms(1) by (simp add: check_idle_def Let_def)
    moreover have "?now + max (min ?k ?d - (?now - r)) 1000000 \<le> max (r + ?d) (?now + 1000000)"
      "?now + max (?d - (?now - r)) 1000000 \<le> max (r + ?d) (?now + 1000000)"
      using assms(2) by linarith+
    moreover have "0 < max a (1000000 :: nat)" for a by (rule less_le_trans [OF _ max.cobounded2]) simp
    ultimately show ?thesis unfolding insert_iff empty_iff by blast
  qed
  have once: "Send KeepAlive \<notin> set (fst (check_idle env' (fst (snd (check_idle env p)))))" if "Send KeepAlive \<in> set (fst (check_idle env p))"
  proof -
    have "fst (snd (check_idle env p)) = p\<lparr>pa_last_sent := Some ?now\<rparr>"
      using that assms(1) by (simp add: check_idle_def Let_def split: if_split_asm)
    then show ?thesis using assms by (simp add: check_idle_def Let_def)
  qed
  show ?thesis using stop wait once by simp
qed

text \<open>
  A peer that never sends anything is never dropped. Until the first message arrives the actor
  takes the current time for the time of the last one, so at any time whatever it finds the peer not
  idle, sends no keepalive and waits again.
\<close>

theorem never_heard_never_dropped:
  assumes "pa_last_received p = None" and "0 < ps_keepalive_timeout (pa_settings p)" and "0 < ps_disconnect_timeout (pa_settings p)"
  shows "\<exists>w. check_idle env p = ([], p, WaitFor w)"
  using assms by (auto simp: check_idle_def Let_def split: option.split)

text \<open>
  An oversized frame stops the stream for good. A buffer that starts with a length above the
  limit yields a protocol violation and stays as it is, the error is not one that stops the actor,
  and so the same error is found again at every read.
\<close>

theorem oversized_frame_stuck:
  assumes "4 \<le> length (read_buffer s)" and "MAX_FRAME_PAYLOAD_LENGTH < unat (be_val (take 4 (read_buffer s)) :: u32)"
  shows "stream_recv dec s = (Inl (ProtocolViolation (unat (be_val (take 4 (read_buffer s)) :: u32))), s) \<and>
    check_message_signal (fst (stream_recv dec s)) = None"
  using assms by (simp add: stream_recv.simps buffered_message_def validate_frame_payload_length_def check_message_signal_def Let_def)

text \<open>
  A peer's cancel withdraws our own request. A cancel message of the peer, which by the protocol
  withdraws a request of the peer, removes the equal block from our pending requests, and when the
  block then arrives it is dropped.
\<close>

theorem remote_cancel_drops_block:
  assumes "length data = unat len"
  shows "\<exists>q. peer_turn env (FromPeer (Cancel i off len)) p = ([], Some q) \<and>
    fst (peer_turn env' (FromPeer (Piece i off data)) q) = []"
  using assms by (simp add: handle_peer_message_def on_piece_def Let_def)

text \<open>
  A metadata message without a piece number makes the actor panic, as soon as its data fits and
  does not complete the metadata.
\<close>

theorem metadata_without_piece_panics:
  assumes "em_msg_type em = Some ExtData" and "em_piece em = None"
    and "length (pa_info_bytes p) + length data < pa_info_size p" and "k \<noteq> 0"
  shows "snd (peer_turn env (FromPeer (Extended k (Some em) (Some data))) p) = None"
proof -
  have "snd (store_metadata env em (Some data) q) = None" if "pa_info_bytes q = pa_info_bytes p" "pa_info_size q = pa_info_size p" for q
    using assms that by (simp add: store_metadata_def is_bep_0009_def append_to_bytes_def have_all_bytes_def)
  then obtain es where "store_metadata env em (Some data) (p\<lparr>pa_last_received := Some (pe_now env)\<rparr>) = (es, None)"
    by (metis (no_types, lifting) peer_actor.ext_inject peer_actor.surjective peer_actor.update_convs(7) prod.collapse)
  then show ?thesis
    using assms(4) by (simp add: handle_peer_message_def and_then_def skip_step_def handle_extended_message_def Let_def)
qed

section \<open>Concrete runs\<close>

definition tiny_peer_env :: peer_env where
  "tiny_peer_env = \<lparr>pe_now = 500, pe_send_ok = (\<lambda>_. True), pe_torrent = Some tiny_seed, pe_downloaded = 0, pe_uploaded = 0,
     pe_iter = (\<lambda>xs. xs)\<rparr>"

definition tiny_settings :: peer_settings where
  "tiny_settings = \<lparr>ps_keepalive_timeout = 120, ps_disconnect_timeout = 240\<rparr>"

definition tiny_peer :: peer_actor where
  "tiny_peer = \<lparr>pa_id = [1], pa_am_choking = True, pa_peer_interested = False, pa_peer_choking = True,
     pa_am_interested = False, pa_last_sent = None, pa_last_received = None, pa_pieces = [], pa_bep_0009 = 0,
     pa_bep_0010 = False, pa_info_size = 0, pa_info_bytes = [], pa_pending_blocks = [], pa_pending_messages = [],
     pa_sample = \<lparr>rs_at = 500, rs_downloaded = 0, rs_uploaded = 0\<rparr>, pa_settings = tiny_settings\<rparr>"

lemma tiny_peer_start:
  "peer_on_start tiny_peer_env [1] (replicate 8 0) tiny_settings = ([Send (Bitfield [True]), TellTorrent (PeerReady [1] [])], Some tiny_peer)"
  by (simp add: peer_on_start_def tiny_peer_env_def tiny_peer_def tiny_seed_def tiny_torrent_def from_reserved_def)

lemma tiny_run: "peer_run [] [Send (Bitfield [True]), TellTorrent (PeerReady [1] [])] (Some tiny_peer)"
  using peer_run.start [of tiny_peer_env "[1]" "replicate 8 0" tiny_settings] by (simp add: tiny_peer_start)

text \<open>The peer has the piece, and we do not choke it.\<close>

definition tiny_unchoked :: peer_actor where
  "tiny_unchoked = tiny_peer\<lparr>pa_am_choking := False\<rparr>"

lemma tiny_run_unchoked:
  "peer_run [CmdSetChoked False] [Send (Bitfield [True]), TellTorrent (PeerReady [1] []), Send Unchoke] (Some tiny_unchoked)"
  using peer_run.turn [OF tiny_run, of "CmdSetChoked False" tiny_peer_env]
  by (simp add: set_choked_def tiny_peer_def tiny_peer_env_def tiny_unchoked_def)

theorem peer_view_consistent_witness:
  "fold observe [Send (Bitfield [True]), TellTorrent (PeerReady [1] []), Send Unchoke] (True, False) = (False, False)"
  using peer_view_consistent [OF tiny_run_unchoked] by (simp add: tiny_unchoked_def tiny_peer_def)

theorem blocks_only_on_request_witness:
  "forwarded (0, 0, 4) [Send (Bitfield [True]), TellTorrent (PeerReady [1] []), Send Unchoke] = 0"
  using blocks_only_on_request [OF tiny_run_unchoked, of "(0, 0, 4)"] by (simp add: asked_for_def)

text \<open>The peer announces its piece and unchokes us, and we request a block.\<close>

definition tiny_ready :: peer_actor where
  "tiny_ready = tiny_unchoked\<lparr>pa_last_received := Some 500, pa_pieces := [True], pa_peer_choking := False\<rparr>"

lemma tiny_run_ready: "\<exists>ins es. peer_run ins es (Some tiny_ready)"
proof -
  have "\<not> fst (interesting_pieces [True] tiny_seed)"
    by (simp add: interesting_pieces_def tiny_seed_def)
  then have "snd (peer_turn tiny_peer_env (FromPeer (Bitfield [True])) tiny_unchoked)
      = Some (tiny_unchoked\<lparr>pa_last_received := Some 500, pa_pieces := [True]\<rparr>)"
    by (simp add: handle_peer_message_def and_then_def determine_interest_def send_expect_def modify_def notify_ready_def
        tell_torrent_def tiny_peer_env_def tiny_unchoked_def tiny_peer_def Let_def)
  moreover have "snd (peer_turn tiny_peer_env (FromPeer Unchoke) (tiny_unchoked\<lparr>pa_last_received := Some 500, pa_pieces := [True]\<rparr>)) = Some tiny_ready"
    by (simp add: unchoke_turn Let_def tiny_unchoked_def tiny_peer_def tiny_peer_env_def tiny_ready_def)
  ultimately show ?thesis
    using peer_run.turn [OF tiny_run_unchoked, of "FromPeer (Bitfield [True])" tiny_peer_env] peer_run.turn [of _ _ _ "FromPeer Unchoke" tiny_peer_env]
    by metis
qed

theorem requests_only_unchoked_witness:
  "\<exists>q. snd (peer_turn tiny_peer_env (CmdNeedPiece 0 0 4) tiny_ready) = Some q \<and> Request 0 0 4 \<in> wire_request ` set (pa_pending_blocks q)"
proof -
  obtain ins es where run: "peer_run ins es (Some tiny_ready)" using tiny_run_ready by blast
  have "iter_ok tiny_peer_env" by (simp add: iter_ok_def tiny_peer_env_def)
  moreover have "Send (Request 0 0 4) \<in> set (fst (peer_turn tiny_peer_env (CmdNeedPiece 0 0 4) tiny_ready))"
    "\<exists>q. snd (peer_turn tiny_peer_env (CmdNeedPiece 0 0 4) tiny_ready) = Some q"
    by (simp_all add: need_piece_def tiny_ready_def tiny_peer_env_def get_at_def wire_request_def)
  ultimately show ?thesis using requests_only_unchoked [OF run] by blast
qed


theorem idle_peer_policy_witness:
  "snd (snd (check_idle tiny_peer_env (tiny_peer\<lparr>pa_last_received := Some 100\<rparr>))) = StopPeer"
  using idle_peer_policy [of "tiny_peer\<lparr>pa_last_received := Some 100\<rparr>" 100 tiny_peer_env]
  by (simp add: tiny_peer_def tiny_settings_def tiny_peer_env_def)

theorem never_heard_never_dropped_witness: "\<exists>w. check_idle (tiny_peer_env\<lparr>pe_now := 10 ^ 12\<rparr>) tiny_peer = ([], tiny_peer, WaitFor w)"
  using never_heard_never_dropped [of tiny_peer] by (simp add: tiny_peer_def tiny_settings_def)

theorem oversized_frame_stuck_witness:
  "check_message_signal (fst (stream_recv (\<lambda>_. Inr KeepAlive) \<lparr>read_buffer = [1, 0, 0, 0], transport = [], bytes_downloaded = 4\<rparr>)) = None"
proof -
  have "(be_val [1, 0, 0, 0] :: u32) = 16777216" by (simp add: be_val_def)
  then show ?thesis
    using oversized_frame_stuck [of "\<lparr>read_buffer = [1, 0, 0, 0], transport = [], bytes_downloaded = 4\<rparr>" "\<lambda>_. Inr KeepAlive"]
    by (simp add: MAX_FRAME_PAYLOAD_LENGTH_def check_message_signal_def)
qed

theorem remote_cancel_drops_block_witness:
  "\<exists>q. peer_turn tiny_peer_env (FromPeer (Cancel 0 0 4)) (tiny_ready\<lparr>pa_pending_blocks := [(0, 0, 4)]\<rparr>) = ([], Some q) \<and>
    fst (peer_turn tiny_peer_env (FromPeer (Piece 0 0 [1, 2, 3, 4])) q) = []"
  using remote_cancel_drops_block [of "[1, 2, 3, 4]" 4] by simp

theorem metadata_without_piece_panics_witness:
  "snd (peer_turn tiny_peer_env (FromPeer (Extended 2 (Some (extended_message_new\<lparr>em_msg_type := Some ExtData\<rparr>)) (Some [1])))
     (tiny_peer\<lparr>pa_info_size := 2\<rparr>)) = None"
  using metadata_without_piece_panics [of "extended_message_new\<lparr>em_msg_type := Some ExtData\<rparr>" "tiny_peer\<lparr>pa_info_size := 2\<rparr>" "[1]" 2 tiny_peer_env]
  by (simp add: extended_message_new_def tiny_peer_def)

end
