(* ===== verification/Texts.thy ===== *)
theory Texts
  imports Prelude
begin

text \<open>
  Texts: the formatting of numbers, joining and splitting, and the lossy decoding of UTF-8 as the Rust
  standard library documents them. A Rust \<^verbatim>\<open>String\<close> whose contents come from the network is the list of
  its UTF-8 bytes; texts the program writes itself are strings of characters.
\<close>

section \<open>Numbers\<close>

definition hex_digits :: string where "hex_digits = ''0123456789abcdef''"

fun show_base :: "nat \<Rightarrow> nat \<Rightarrow> string" where
  "show_base b n = (if n < b \<or> b < 2 then [hex_digits ! n] else show_base b (n div b) @ [hex_digits ! (n mod b)])"

declare show_base.simps [simp del]

abbreviation show_nat :: "nat \<Rightarrow> string" where
  "show_nat n \<equiv> show_base 10 n"

section \<open>Joining and splitting\<close>

fun join :: "'a list \<Rightarrow> 'a list list \<Rightarrow> 'a list" where
  "join sep [] = []"
| "join sep [x] = x"
| "join sep (x # y # xs) = x @ sep @ join sep (y # xs)"

fun split_on :: "'a \<Rightarrow> 'a list \<Rightarrow> 'a list list" where
  "split_on c [] = [[]]"
| "split_on c (x # xs) = (if x = c then [] # split_on c xs else (case split_on c xs of [] \<Rightarrow> [[x]] | y # ys \<Rightarrow> (x # y) # ys))"

lemma split_on_char: "c \<notin> set xs \<Longrightarrow> split_on c xs = [xs]"
  by (induction xs) auto

lemma split_on_sep: "c \<notin> set xs \<Longrightarrow> split_on c (xs @ c # ys) = xs # split_on c ys"
  by (induction xs) auto

lemma split_on_join: "xs \<noteq> [] \<Longrightarrow> \<forall>x \<in> set xs. c \<notin> set x \<Longrightarrow> split_on c (join [c] xs) = xs"
  by (induction "[c]" xs rule: join.induct) (simp_all add: split_on_char split_on_sep)

lemma join_append: "xs \<noteq> [] \<Longrightarrow> ys \<noteq> [] \<Longrightarrow> join sep (xs @ ys) = join sep xs @ sep @ join sep ys"
  by (induction sep xs rule: join.induct) (auto simp: neq_Nil_conv)

lemma length_split_on: "length (split_on c xs) = Suc (count_list xs c)"
proof (induction xs)
  case (Cons x xs)
  then show ?case by (cases "split_on c xs") auto
qed simp

definition trim_end :: "'a \<Rightarrow> 'a list \<Rightarrow> 'a list" where
  "trim_end c xs = rev (dropWhile (\<lambda>x. x = c) (rev xs))"

lemma count_trim_end_le: "count_list (trim_end c xs) c \<le> count_list xs c"
proof -
  have "rev xs = takeWhile (\<lambda>x. x = c) (rev xs) @ dropWhile (\<lambda>x. x = c) (rev xs)" by simp
  then have "count_list (rev xs) c = count_list (takeWhile (\<lambda>x. x = c) (rev xs)) c + count_list (dropWhile (\<lambda>x. x = c) (rev xs)) c"
    by (metis count_list_append)
  then show ?thesis by (simp add: trim_end_def)
qed

lemma trim_end_last: "last xs \<noteq> c \<Longrightarrow> trim_end c xs = xs"
  by (cases xs rule: rev_cases) (simp_all add: trim_end_def)

section \<open>UTF-8\<close>

text \<open>
  \<^verbatim>\<open>String::from_utf8_lossy\<close> keeps well-formed characters and replaces every maximal ill-formed sequence by
  the replacement character. \<open>utf8_step\<close> says whether the bytes begin with a character, and how many bytes
  it, or the ill-formed sequence, takes.
\<close>

definition utf8_width :: "byte \<Rightarrow> nat" where
  "utf8_width b =
     (if b < 0x80 then 1 else if 0xC2 \<le> b \<and> b \<le> 0xDF then 2 else if 0xE0 \<le> b \<and> b \<le> 0xEF then 3
      else if 0xF0 \<le> b \<and> b \<le> 0xF4 then 4 else 0)"

definition utf8_cont :: "byte list \<Rightarrow> nat \<Rightarrow> bool" where
  "utf8_cont bs i = (i < length bs \<and> 0x80 \<le> bs ! i \<and> bs ! i \<le> 0xBF)"

definition utf8_second :: "byte list \<Rightarrow> bool" where
  "utf8_second bs =
     (utf8_cont bs 1 \<and>
      (hd bs = 0xE0 \<longrightarrow> 0xA0 \<le> bs ! 1) \<and> (hd bs = 0xED \<longrightarrow> bs ! 1 \<le> 0x9F) \<and>
      (hd bs = 0xF0 \<longrightarrow> 0x90 \<le> bs ! 1) \<and> (hd bs = 0xF4 \<longrightarrow> bs ! 1 \<le> 0x8F))"

definition utf8_step :: "byte list \<Rightarrow> bool \<times> nat" where
  "utf8_step bs =
     (let w = utf8_width (hd bs)
      in if w = 0 then (False, 1)
         else if w = 1 then (True, 1)
         else if \<not> utf8_second bs then (False, 1)
         else if w = 2 then (True, 2)
         else if \<not> utf8_cont bs 2 then (False, 2)
         else if w = 3 then (True, 3)
         else if \<not> utf8_cont bs 3 then (False, 3)
         else (True, 4))"

lemma utf8_step_pos: "0 < snd (utf8_step bs)"
  by (simp add: utf8_step_def Let_def)

definition REPLACEMENT :: "byte list" where "REPLACEMENT = [0xEF, 0xBF, 0xBD]"

function from_utf8_lossy :: "byte list \<Rightarrow> byte list" where
  "from_utf8_lossy bs =
     (if bs = [] then []
      else (if fst (utf8_step bs) then take (snd (utf8_step bs)) bs else REPLACEMENT) @ from_utf8_lossy (drop (snd (utf8_step bs)) bs))"
  by pat_completeness auto

termination
  by (relation "measure length") (simp_all add: utf8_step_pos)

declare from_utf8_lossy.simps [simp del]

lemma from_utf8_lossy_Nil [simp]: "from_utf8_lossy [] = []"
  by (simp add: from_utf8_lossy.simps)

lemma from_utf8_lossy_ascii [simp]: "b < 0x80 \<Longrightarrow> from_utf8_lossy (b # bs) = b # from_utf8_lossy bs"
  by (subst from_utf8_lossy.simps) (simp add: utf8_step_def utf8_width_def)

text \<open>An ASCII character of the result was in the input, as often as in the result.\<close>

lemma count_lossy_le: "c < 0x80 \<Longrightarrow> count_list (from_utf8_lossy bs) c \<le> count_list bs c"
proof (induction bs rule: from_utf8_lossy.induct)
  case (1 bs)
  show ?case
  proof (cases "bs = []")
    case False
    let ?n = "snd (utf8_step bs)"
    have "count_list (from_utf8_lossy (drop ?n bs)) c \<le> count_list (drop ?n bs) c" using 1 False by simp
    moreover have "count_list REPLACEMENT c = 0" using 1(2) by (auto simp: REPLACEMENT_def)
    moreover have "count_list bs c = count_list (take ?n bs) c + count_list (drop ?n bs) c"
      by (metis append_take_drop_id count_list_append)
    ultimately show ?thesis using False by (subst from_utf8_lossy.simps) simp
  qed simp
qed

text \<open>A byte read as the character of that number (\<^verbatim>\<open>b as char\<close>), encoded.\<close>

definition char_bytes :: "byte \<Rightarrow> byte list" where
  "char_bytes b = (if b < 0x80 then [b] else [of_nat (192 + unat b div 64), of_nat (128 + unat b mod 64)])"

end
