(* ===== verification/Hashes.thy ===== *)
theory Hashes
  imports Metainfo Texts
begin

text \<open>
  Hashes of any length and their text and serialised forms, \<^verbatim>\<open>hashes.rs\<close>: the hexadecimal form, and the visitors that
  read a hash or a vector of hashes from a byte string or from a sequence of elements, each of which may fail
  to decode. The length is the argument \<open>n\<close>; the hexadecimal crate is a pair of parameters.
\<close>

section \<open>Hexadecimal\<close>

definition to_hex :: "(byte list \<Rightarrow> byte list) \<Rightarrow> hash \<Rightarrow> byte list" where
  "to_hex encode h = encode h"

definition hash_from_hex :: "(byte list \<Rightarrow> string + byte list) \<Rightarrow> nat \<Rightarrow> byte list \<Rightarrow> string + hash" where
  "hash_from_hex decode n hex =
     (case decode hex of Inl e \<Rightarrow> Inl e | Inr bytes \<Rightarrow> if length bytes = n then Inr bytes else Inl ''Invalid string length'')"

section \<open>Visitors\<close>

definition hash_visit_bytes :: "nat \<Rightarrow> byte list \<Rightarrow> string + hash" where
  "hash_visit_bytes n v =
     (if length v = n then Inr v else Inl (''Expected length is '' @ show_nat n @ '', found '' @ show_nat (length v)))"

datatype seq_error = ElementFailed string | InvalidLength nat

fun read_elements :: "(string + byte) list \<Rightarrow> byte list \<Rightarrow> seq_error + byte list" where
  "read_elements [] bytes = Inr bytes"
| "read_elements (Inl e # _) bytes = Inl (ElementFailed e)"
| "read_elements (Inr b # rest) bytes = read_elements rest (bytes @ [b])"

definition hash_visit_seq :: "nat \<Rightarrow> (string + byte) list \<Rightarrow> seq_error + hash" where
  "hash_visit_seq n elements =
     (case read_elements elements [] of
        Inl e \<Rightarrow> Inl e
      | Inr bytes \<Rightarrow> if length bytes = n then Inr bytes else Inl (InvalidLength (length bytes)))"

definition hashvec_visit_seq :: "nat \<Rightarrow> (string + byte) list \<Rightarrow> seq_error + hash list" where
  "hashvec_visit_seq n elements =
     (case read_elements elements [] of
        Inl e \<Rightarrow> Inl e
      | Inr bytes \<Rightarrow> if length bytes mod n = 0 then Inr (chunks n bytes) else Inl (InvalidLength (length bytes)))"

section \<open>Results\<close>

lemma read_elements_ok: "read_elements (map Inr v) bytes = Inr (bytes @ v)"
  by (induction v arbitrary: bytes) simp_all

lemma read_elements_exact: "read_elements elements bytes = Inr v \<longleftrightarrow> (\<exists>w. elements = map Inr w \<and> v = bytes @ w)"
proof (induction elements bytes rule: read_elements.induct)
  case (3 b rest bytes)
  show ?case
  proof
    assume "read_elements (Inr b # rest) bytes = Inr v"
    then obtain w where "rest = map Inr w" "v = (bytes @ [b]) @ w" using 3 by auto
    then show "\<exists>w. Inr b # rest = map Inr w \<and> v = bytes @ w" by (intro exI [of _ "b # w"]) simp
  qed (use 3 in auto)
qed auto

text \<open>
  The three forms of a hash agree: the hexadecimal text of a hash reads back as the hash, and a sequence is
  read as a hash exactly when all elements decode and the byte string they form is one.
\<close>

theorem hash_forms_agree:
  assumes "\<And>b. decode (encode b) = Inr b" and "length h = n"
  shows "hash_from_hex decode n (to_hex encode h) = Inr h \<and> hash_visit_bytes n h = Inr h \<and>
    (\<forall>elements. hash_visit_seq n elements = Inr h \<longleftrightarrow> elements = map Inr h)"
proof -
  have "hash_visit_seq n elements = Inr h \<longleftrightarrow> elements = map Inr h" for elements
  proof -
    have "hash_visit_seq n elements = Inr h \<longleftrightarrow> read_elements elements [] = Inr h"
      using assms(2) by (auto simp: hash_visit_seq_def split: sum.split)
    then show ?thesis by (simp add: read_elements_exact)
  qed
  then show ?thesis using assms by (simp add: hash_from_hex_def to_hex_def hash_visit_bytes_def)
qed

text \<open>A vector of hashes is read back from the sequence of its flattened bytes, for every positive length.\<close>

lemma hashvec_seq_roundtrip:
  assumes "0 < n" and "\<forall>h \<in> set hs. length h = n"
  shows "hashvec_visit_seq n (map Inr (hashvec_flatten hs)) = Inr hs"
proof -
  have "length (concat hs) = n * length hs" using assms(2) by (induction hs) simp_all
  then show ?thesis using chunks_concat [OF assms(1), of hs] assms(2) by (simp add: hashvec_visit_seq_def read_elements_ok hashvec_flatten_def foldl_append)
qed

theorem hash_forms_agree_witness: "hash_from_hex Inr 3 (to_hex (\<lambda>b. b) [18, 52, 86]) = Inr [18, 52, 86]"
  using hash_forms_agree [of Inr "\<lambda>b. b" "[18, 52, 86]" 3] by simp

end
