(* ===== verification/Partial_Blocks.thy ===== *)
theory Partial_Blocks
  imports Torrent_Lifecycle
begin

text \<open>
  The blocks of pieces that are not complete yet. Only a received block changes the records of the
  scheduler, so in every reachable state of a torrent they belong to pieces of the torrent and have one
  bit for each block of their piece. A snapshot stores these records.
\<close>

section \<open>Actions that leave the blocks alone\<close>

definition inert :: "torrent_action \<Rightarrow> bool" where
  "inert f = (\<forall>t. completed_blocks (ta_sched (fst (f t))) = completed_blocks (ta_sched t) \<and>
     ta_resolved (fst (f t)) = ta_resolved t \<and> ta_metainfo (fst (f t)) = ta_metainfo t)"

named_theorems inert_intros

lemma inertD:
  assumes "inert f"
  shows "completed_blocks (ta_sched (fst (f t))) = completed_blocks (ta_sched t)" "ta_resolved (fst (f t)) = ta_resolved t"
    "ta_metainfo (fst (f t)) = ta_metainfo t"
  using assms by (simp_all add: inert_def)

lemma inert_then_do [inert_intros]: "inert f \<Longrightarrow> inert g \<Longrightarrow> inert (then_do f g)"
  by (simp add: inert_def)

lemma inert_trackers [inert_intros]:
  "inert (update_trackers env u)" "inert (broadcast_to_trackers env)" "inert (update_tracker_progress env)"
  "inert (try_update_tracker_progress env)" "inert (announce_tracker_event env e)"
  by (auto simp: inert_def tracker_broadcasts update_tracker_progress_def try_update_tracker_progress_def
      announce_event_simps split: option.split)

lemma blocks_request_slots [simp]:
  "completed_blocks (fst (request_slots p clock limit env av slots s acc)) = completed_blocks s"
  by (induction slots arbitrary: s acc) (simp_all add: request_slots_Cons)

lemma blocks_ops [simp]:
  "completed_blocks (fst (requests_for_peer p clock limit pl tot s)) = completed_blocks s"
  "completed_blocks (release_peer_request p i off s) = completed_blocks s"
  "completed_blocks (peer_disconnected p s) = completed_blocks s"
  "completed_blocks (fst (release_stale_requests now timeout s)) = completed_blocks s"
  "completed_blocks (update_peer_availability p av s) = completed_blocks s"
  by (simp_all add: requests_for_peer_def Let_def split: option.splits)
    (simp_all add: release_peer_request_def peer_disconnected_def release_stale_requests_def update_peer_availability_def
      Let_def split_beta split: option.splits)

lemma blocks_disconnects [simp]: "completed_blocks (fold peer_disconnected ps s) = completed_blocks s"
  by (induction ps arbitrary: s) simp_all

lemma blocks_sends [simp]: "completed_blocks (fst (send_requests env p rs s)) = completed_blocks s"
  by (induction rs arbitrary: s) (simp_all add: Let_def split_beta send_request_def)

lemma inert_fill [inert_intros]: "inert (fill_window_to env p n)"
  using blocks_ops(1) [of p "env_clock env"]
  by (auto simp: inert_def fill_window_to_def Let_def split_beta split: option.split)

lemma inert_windows [inert_intros]: "inert (fill_peer_request_window env p)" "inert (fill_initial_peer_request_window env p)"
  using inert_fill by (simp_all add: inert_def fill_peer_request_window_def fill_initial_peer_request_window_def)

lemma inert_for_peers [inert_intros]: "(\<And>p. inert (f p)) \<Longrightarrow> inert (for_peers f ps)"
proof (induction ps)
  case (Cons p ps)
  then show ?case by (simp add: inert_def)
qed (simp add: inert_def)

lemma inert_fill_all [inert_intros]: "inert (fill_all_peer_request_windows env)"
  using inert_for_peers [OF inert_windows(1)] by (simp add: inert_def fill_all_peer_request_windows_def)

lemma inert_rechoke [inert_intros]: "inert (rechoke_peers env)"
  using inert_fill_all [of env]
  by (auto simp: inert_def rechoke_peers_def Let_def split_beta inertD [OF inert_trackers(4)])

lemma inert_small [inert_intros]:
  "inert (broadcast_to_peers env msg)" "inert (broadcast_to_peers_best_effort env msg)" "inert schedule_next_rechoke"
  "inert (\<lambda>t. (transition_state st t, []))" "inert send_ready_hooks" "inert (enter_transfer env)"
  by (simp_all add: inert_def broadcast_to_peers_def broadcast_to_peers_best_effort_def schedule_next_rechoke_def transition_state_eq
      send_ready_hooks_def enter_transfer_def Let_def)

lemma inert_initial [inert_intros]: "inert (fill_initial_windows env)"
  using inert_for_peers [OF inert_windows(2)] by (simp add: inert_def fill_initial_windows_def)

lemma inert_transfers [inert_intros]: "inert (begin_transfer env)" "inert (rechoke env)" "inert (finish_download env)"
  unfolding begin_transfer_def rechoke_def finish_download_def by (intro inert_intros)+

lemma inert_start [inert_intros]: "inert (torrent_start env)"
  using inert_transfers(1) [of env]
  by (auto simp: inert_def torrent_start_def send_ready_hooks_def manager_pre_start_def Let_def split_beta transition_state_eq
      split: option.splits manager_proxy.splits sum.splits)

lemma inert_stop [inert_intros]: "inert (stop_transfer env)"
proof -
  have "inert (then_do (broadcast_to_peers env (\<lambda>q. SetChoked q True)) (then_do (update_tracker_progress env)
      (then_do (update_trackers env (UpdEvent StoppedEvent)) (then_do (broadcast_to_trackers env) (update_trackers env (UpdEvent EmptyEvent))))))"
    by (intro inert_intros)
  then show ?thesis by (simp add: inert_def stop_transfer_def Let_def transition_state_eq)
qed

lemma inert_autostart [inert_intros]: "inert (autostart env)" "inert (torrent_next env)"
proof -
  show *: "inert (autostart env)"
    using inert_start [of env]
    by (auto simp: inert_def autostart_def Let_def split_beta send_ready_hooks_def transition_state_eq)
  then show "inert (torrent_next env)" by (simp add: inert_def torrent_next_def)
qed

text \<open>Metadata arrives only where there is none, that is, never for a torrent file.\<close>

lemma info_bytes_torrent: "ta_metainfo t = MTorrent f \<Longrightarrow> info_bytes env bytes t = (t, [])"
  by (simp add: info_bytes_def info_dict_def)

lemma inert_receive:
  assumes "ta_metainfo t = MTorrent f" and "\<And>p i off block. msg \<noteq> IncomingPiece p i off block"
  shows "completed_blocks (ta_sched (fst (torrent_receive env msg t))) = completed_blocks (ta_sched t) \<and>
    ta_resolved (fst (torrent_receive env msg t)) = ta_resolved t \<and> ta_metainfo (fst (torrent_receive env msg t)) = ta_metainfo t"
proof (cases msg)
  case (SetState s)
  then show ?thesis
    using inertD [OF inert_start] inertD [OF inert_stop] by (cases s) (simp_all add: set_state_def transition_state_eq)
qed (use assms inertD [OF inert_transfers(2)] inertD [OF inert_autostart(1)] inertD [OF inert_autostart(2)] inertD [OF inert_fill_all]
    inertD [OF inert_windows(1)] in
    \<open>auto simp: info_bytes_torrent peer_connected_def insert_peer_def peer_rejected_request_def ready_hook_def set_auto_start_def
      set_sufficient_peers_def peer_ready_def disconnect_peer_def kill_peer_def remove_peer_def register_tracker_actor_def remove_tracker_def
      set_piece_storage_def set_piece_manager_def set_output_path_def recover_failed_def transition_state_eq Let_def split_beta
      split: option.splits sum.splits manager_proxy.splits storage_strategy.splits\<close>)

section \<open>The invariant\<close>

definition blocks_ok :: "torrent_info \<Rightarrow> (nat \<rightharpoonup> bool list) \<Rightarrow> bool" where
  "blocks_ok info m = (\<forall>i bs. m i = Some bs \<longrightarrow> i < piece_count info \<and> length bs = div_ceil (concrete_piece_len info i) BLOCK_SIZE)"

lemma blocks_ok_remove: "blocks_ok info m \<Longrightarrow> blocks_ok info (m(i := None))"
  by (simp add: blocks_ok_def)

lemma blocks_ok_mark:
  assumes "blocks_ok info (completed_blocks s)" and "i < piece_count info"
  shows "blocks_ok info (completed_blocks (fst (mark_block_complete i b (div_ceil (concrete_piece_len info i) BLOCK_SIZE) s)))"
proof -
  have keep: "completed_blocks (decrement_in_flight p s') = completed_blocks s'" for p s'
    by (simp add: decrement_in_flight_def split: option.split)
  let ?n = "div_ceil (concrete_piece_len info i) BLOCK_SIZE"
  define old where "old = (case completed_blocks s i of None \<Rightarrow> replicate ?n False | Some bs \<Rightarrow> bs)"
  have "completed_blocks (fst (mark_block_complete i b ?n s)) = (completed_blocks s)(i \<mapsto> (if b < length old then old[b := True] else old))"
    using keep by (auto simp: mark_block_complete_def Let_def split_beta old_def split: option.splits)
  moreover have "length old = ?n" using assms(1) by (auto simp: old_def blocks_ok_def split: option.splits)
  ultimately show ?thesis using assms by (auto simp: blocks_ok_def)
qed

lemma commit_blocks:
  "ta_sched (fst (validate_and_commit_piece env info i t)) = ta_sched t" "ta_resolved (fst (validate_and_commit_piece env info i t)) = ta_resolved t"
  "ta_metainfo (fst (validate_and_commit_piece env info i t)) = ta_metainfo t"
  using validate_commit_stores [of t env info i] by (auto simp: stores_def)

lemma write_blocks:
  "ta_sched (fst (write_block_to_storage i off block t)) = ta_sched t" "ta_resolved (fst (write_block_to_storage i off block t)) = ta_resolved t"
  "ta_metainfo (fst (write_block_to_storage i off block t)) = ta_metainfo t"
  using write_block_stores [of t i off block] by (auto simp: stores_def)

lemma piece_completed_blocks:
  assumes "blocks_ok info (completed_blocks (ta_sched t))"
  shows "blocks_ok info (completed_blocks (ta_sched (fst (piece_completed env p info i t)))) \<and>
    ta_resolved (fst (piece_completed env p info i t)) = ta_resolved t \<and> ta_metainfo (fst (piece_completed env p info i t)) = ta_metainfo t"
proof -
  have "completed_blocks (fst (remove_piece_blocks i s)) = (completed_blocks s)(i := None)"
    "completed_blocks (mark_piece_complete i s) = (completed_blocks s)(i := None)" for s
    by (simp_all add: remove_piece_blocks_def mark_piece_complete_def Let_def)
  then show ?thesis
    using assms inertD [OF inert_windows(1)] inertD [OF inert_small(2)] inertD [OF inert_transfers(3)]
    by (auto simp: piece_completed_def Let_def split_beta commit_blocks intro!: blocks_ok_remove)
qed

lemma incoming_blocks:
  assumes "ta_metainfo t = MTorrent f" and "blocks_ok (tf_info f) (completed_blocks (ta_sched t))"
  shows "blocks_ok (tf_info f) (completed_blocks (ta_sched (fst (handle_incoming_piece env p i off block t)))) \<and>
    ta_resolved (fst (handle_incoming_piece env p i off block t)) = ta_resolved t \<and>
    ta_metainfo (fst (handle_incoming_piece env p i off block t)) = ta_metainfo t"
proof -
  have aw: "blocks_ok (tf_info f) (completed_blocks (ta_sched (after_write i off block info t))) \<and>
      ta_resolved (after_write i off block info t) = ta_resolved t \<and> ta_metainfo (after_write i off block info t) = ta_metainfo t \<and> info = tf_info f"
    if "stored_block i off block info t" for info
  proof -
    have "info = tf_info f" "i < piece_count info"
      using that assms(1) by (auto simp: stored_block_def info_dict_def block_acceptable_def split: if_splits)
    then show ?thesis using assms(2) blocks_ok_mark by (simp add: after_write_def Let_def write_blocks)
  qed
  show ?thesis
  proof (cases rule: incoming_cases [where i = i and off = off and block = block and t = t and env = env and p = p])
    case ignored
    then show ?thesis using assms(2) by simp
  next
    case (partial info)
    have info: "tf_info f = info" using aw [OF partial(1)] by simp
    show ?thesis using aw [OF partial(1)] inertD [OF inert_windows(1)] unfolding info partial(3) by simp
  next
    case (whole info)
    have info: "tf_info f = info" using aw [OF whole(1)] by simp
    show ?thesis using aw [OF whole(1)] piece_completed_blocks [of info "after_write i off block info t"] unfolding info whole(3) by simp
  qed
qed

lemma torrent_on_start_fold:
  assumes "torrent_on_start env from_hex files cache args = Inr t"
  shows "\<exists>h. t = fold (\<lambda>tr t. snd (register_tracker_actor tr t)) (meta_announces (arg_metainfo args)) (torrent_fresh h files cache args)"
  using assms by (auto simp: torrent_on_start_def split: sum.splits if_splits)

lemma reachable_blocks:
  "torrent_reachable t \<Longrightarrow> ta_metainfo t = MTorrent f \<Longrightarrow> ta_resolved t = None \<and> blocks_ok (tf_info f) (completed_blocks (ta_sched t))"
proof (induction rule: torrent_reachable.induct)
  case (create env from_hex files cache args t)
  obtain h where h: "t = fold (\<lambda>tr t. snd (register_tracker_actor tr t)) (meta_announces (arg_metainfo args)) (torrent_fresh h files cache args)"
    using torrent_on_start_fold [OF create(1)] by blast
  obtain trs where "t = (torrent_fresh h files cache args)\<lparr>ta_trackers := trs\<rparr>"
    unfolding h using register_all_frame by blast
  then show ?case by (simp add: torrent_fresh_def Let_def sched_new_def blocks_ok_def)
next
  case (idle t env)
  then show ?case using inertD [OF inert_autostart(2)] by simp
next
  case (message t env msg)
  have meta: "ta_metainfo t = MTorrent f"
  proof -
    have "ta_metainfo (fst (torrent_receive env msg t)) = ta_metainfo t"
      using safe_receive [OF message(2)] reachable_core [OF message(1)] unfolding safe_def by blast
    with message.prems show ?thesis by simp
  qed
  show ?case
  proof (cases "\<exists>p i off block. msg = IncomingPiece p i off block")
    case True
    then show ?thesis using incoming_blocks [OF meta] message.IH [OF meta] by auto
  next
    case False
    then show ?thesis using inert_receive [OF meta] message.IH [OF meta] by simp
  qed
qed

end
