(* ===== verification/Snapshot.thy ===== *)
theory Snapshot
  imports Partial_Blocks
begin

text \<open>
  Persistence of a torrent: taking a snapshot (\<^verbatim>\<open>TorrentActor::snapshot\<close> of \<^verbatim>\<open>torrent/actor.rs\<close>), migrating,
  validating and reconciling it with the stored data (\<^verbatim>\<open>torrent/snapshot.rs\<close>), and restoring it
  (\<^verbatim>\<open>restore_snapshot\<close> of \<^verbatim>\<open>torrent/messages.rs\<close>). The serialisation format itself is Serde's; what the code
  decides about the decoded forms is modelled. Sizes fit a 64-bit platform, so the conversions between
  \<^verbatim>\<open>u64\<close> and \<^verbatim>\<open>usize\<close> do not fail.
\<close>

section \<open>Snapshots\<close>

definition TORRENT_SNAPSHOT_VERSION :: nat where "TORRENT_SNAPSHOT_VERSION = 2"

datatype restore_verification = FullVerification | FileMetadata | TrustSnapshot

record torrent_snapshot =
  sn_version :: nat
  sn_info_hash :: hash
  sn_state :: torrent_state
  sn_auto_start :: bool
  sn_sufficient_peers :: nat
  sn_output_path :: "rel_path option"
  sn_metainfo :: "tracker meta_info"
  sn_storage :: storage_strategy
  sn_resolved :: "torrent_info option"
  sn_bitfield :: "bool list"
  sn_block_map :: "(nat \<times> bool list) list"

datatype snapshot_error =
    UnsupportedVersion nat
  | MetainfoHashFailed string
  | InfoHashMismatch
  | DuplicatedInfo
  | NoOutputPath
  | ResolvedHashFailed string
  | ResolvedMismatch
  | BitfieldLength nat nat
  | PartialTwice nat
  | PartialOutOfRange
  | PartialOfCompleted
  | PartialWithoutMetadata
  | PartialBlockCount nat nat nat
  | PieceLengthZero
  | WireShape string
  | OutputUnreadable
  | OutputNotDirectory
  | CustomManagerUnsupported

definition snapshot_u64 :: "nat \<Rightarrow> nat" where
  "snapshot_u64 n = (if n \<le> usize_max then n else usize_max)"

definition torrent_snapshot_of :: "torrent_actor \<Rightarrow> snapshot_error + torrent_snapshot" where
  "torrent_snapshot_of t =
     (case ta_manager t of
        CustomManager \<Rightarrow> Inl CustomManagerUnsupported
      | DefaultManager m \<Rightarrow>
          Inr \<lparr>sn_version = TORRENT_SNAPSHOT_VERSION, sn_info_hash = ta_info_hash t, sn_state = ta_state t,
               sn_auto_start = ta_autostart t, sn_sufficient_peers = snapshot_u64 (ta_sufficient_peers t),
               sn_output_path = pm_path m, sn_metainfo = ta_metainfo t, sn_storage = ta_storage t,
               sn_resolved = ta_resolved t, sn_bitfield = ta_bitfield t,
               sn_block_map = map (\<lambda>i. (snapshot_u64 i, the (completed_blocks (ta_sched t) i)))
                 (sorted_list_of_set (dom (completed_blocks (ta_sched t))))\<rparr>)"

section \<open>Migration\<close>

text \<open>
  The decoded forms: a list in the current schema, a map or a bit vector in version 1. The bits of
  a bit vector are its boolean values in order, the entries of a map are in key order.
\<close>

datatype block_map_wire = PortableMap "(nat \<times> bool list) list" | MapV1 "(nat \<times> bool list) list"

datatype bitfield_wire = PortableBits "bool list" | BitsV1 "bool list"

record snapshot_wire =
  sw_snapshot :: torrent_snapshot
  sw_bitfield :: bitfield_wire
  sw_block_map :: block_map_wire

definition migrate_block_map :: "nat \<Rightarrow> block_map_wire \<Rightarrow> snapshot_error + (nat \<times> (nat \<times> bool list) list)" where
  "migrate_block_map version w =
     (case w of
        MapV1 entries \<Rightarrow>
          if version = 1 then Inr (TORRENT_SNAPSHOT_VERSION, entries)
          else Inl (WireShape ''map-shaped block state is only supported by snapshot version 1'')
      | PortableMap entries \<Rightarrow>
          if version = 1 \<or> version = TORRENT_SNAPSHOT_VERSION then Inr (TORRENT_SNAPSHOT_VERSION, entries)
          else Inr (version, entries))"

definition migrate_bitfield :: "nat \<Rightarrow> bitfield_wire \<Rightarrow> snapshot_error + bool list" where
  "migrate_bitfield version w =
     (case w of
        BitsV1 bits \<Rightarrow>
          if version = 1 then Inr bits
          else Inl (WireShape ''bitvec-shaped bitfields are only supported by snapshot version 1'')
      | PortableBits bits \<Rightarrow> Inr bits)"

definition snapshot_deserialize :: "snapshot_wire \<Rightarrow> snapshot_error + torrent_snapshot" where
  "snapshot_deserialize w =
     (let s = sw_snapshot w
      in case migrate_block_map (sn_version s) (sw_block_map w) of
           Inl e \<Rightarrow> Inl e
         | Inr (version, entries) \<Rightarrow>
             (let resolved = (case sn_metainfo s of
                    MTorrent _ \<Rightarrow> if sn_version s = 1 then None else sn_resolved s
                  | MMagnet _ \<Rightarrow> sn_resolved s)
              in case migrate_bitfield (sn_version s) (sw_bitfield w) of
                   Inl e \<Rightarrow> Inl e
                 | Inr bits \<Rightarrow> Inr (s\<lparr>sn_version := version, sn_resolved := resolved, sn_bitfield := bits, sn_block_map := entries\<rparr>)))"

section \<open>Validation\<close>

definition resolved_info :: "torrent_snapshot \<Rightarrow> torrent_info option" where
  "resolved_info s = (case sn_metainfo s of MTorrent f \<Rightarrow> Some (tf_info f) | MMagnet _ \<Rightarrow> sn_resolved s)"

definition piece_length :: "torrent_info \<Rightarrow> nat \<Rightarrow> snapshot_error + nat" where
  "piece_length info index =
     (let standard = info_piece_length info
      in if standard = 0 then Inl PieceLengthZero
         else
           let last_piece = piece_count info - 1
           in if index = last_piece then Inr (total_length info - saturating_mul standard last_piece) else Inr standard)"

text \<open>The loop over the partial pieces; \<open>seen\<close> are the indices met so far.\<close>

fun validate_partials :: "torrent_info option \<Rightarrow> nat \<Rightarrow> bool list \<Rightarrow> nat list \<Rightarrow> (nat \<times> bool list) list \<Rightarrow> snapshot_error + unit" where
  "validate_partials info n bitfield seen [] = Inr ()"
| "validate_partials info n bitfield seen ((index, blocks) # rest) =
     (if index \<in> set seen then Inl (PartialTwice index)
      else if index \<ge> n then Inl PartialOutOfRange
      else if bitfield ! index then Inl PartialOfCompleted
      else case info of
             None \<Rightarrow> Inl PartialWithoutMetadata
           | Some i \<Rightarrow>
               (case piece_length i index of
                  Inl e \<Rightarrow> Inl e
                | Inr len \<Rightarrow>
                    if length blocks \<noteq> div_ceil len BLOCK_SIZE then Inl (PartialBlockCount index (length blocks) (div_ceil len BLOCK_SIZE))
                    else validate_partials info n bitfield (index # seen) rest))"

definition snapshot_validate :: "torrent_env \<Rightarrow> (string \<Rightarrow> string + hash) \<Rightarrow> torrent_snapshot \<Rightarrow> snapshot_error + unit" where
  "snapshot_validate env from_hex s =
     (if sn_version s \<noteq> TORRENT_SNAPSHOT_VERSION then Inl (UnsupportedVersion (sn_version s))
      else case meta_info_hash env from_hex (sn_metainfo s) of
        Inl e \<Rightarrow> Inl (MetainfoHashFailed e)
      | Inr h \<Rightarrow>
          if h \<noteq> sn_info_hash s then Inl InfoHashMismatch
          else if (case sn_metainfo s of MTorrent _ \<Rightarrow> True | MMagnet _ \<Rightarrow> False) \<and> sn_resolved s \<noteq> None then Inl DuplicatedInfo
          else if sn_output_path s = None then Inl NoOutputPath
          else
            (case (case sn_resolved s of
                     None \<Rightarrow> Inr ()
                   | Some info \<Rightarrow>
                       (case env_info_hash env info of
                          Inl e \<Rightarrow> Inl (ResolvedHashFailed e)
                        | Inr h' \<Rightarrow> if h' \<noteq> sn_info_hash s then Inl ResolvedMismatch else Inr ())) of
               Inl e \<Rightarrow> Inl e
             | Inr _ \<Rightarrow>
                 (let n = (case resolved_info s of None \<Rightarrow> 0 | Some info \<Rightarrow> piece_count info)
                  in if length (sn_bitfield s) \<noteq> n then Inl (BitfieldLength (length (sn_bitfield s)) n)
                     else validate_partials (resolved_info s) n (sn_bitfield s) [] (sn_block_map s))))"

section \<open>Reconciliation with the stored data\<close>

text \<open>
  What is on the disk: the output files and the piece cache, and what the output path is: none when its
  metadata cannot be read, otherwise whether it is a directory.
\<close>

record disk =
  dk_files :: file_store
  dk_cache :: "rel_path \<times> hash \<rightharpoonup> byte list"
  dk_dir :: "rel_path \<Rightarrow> bool option"

definition cached :: "disk \<Rightarrow> rel_path \<Rightarrow> torrent_info \<Rightarrow> nat \<Rightarrow> byte list option" where
  "cached d dir info index = dk_cache d (dir, info_pieces info ! index)"

definition piece_stored :: "torrent_env \<Rightarrow> disk \<Rightarrow> restore_verification \<Rightarrow> storage_strategy \<Rightarrow> file_piece_manager \<Rightarrow> torrent_info \<Rightarrow> nat
    \<Rightarrow> snapshot_error + bool" where
  "piece_stored env d verification storage m info index =
     (case storage of
        Disk dir \<Rightarrow>
          (case verification of
             FullVerification \<Rightarrow>
               Inr (case cached d dir info index of None \<Rightarrow> False | Some c \<Rightarrow> validate_piece_bytes (env_sha1 env) c (info_pieces info ! index))
           | FileMetadata \<Rightarrow>
               (case piece_length info index of
                  Inl e \<Rightarrow> Inl e
                | Inr len \<Rightarrow> Inr (case cached d dir info index of None \<Rightarrow> False | Some c \<Rightarrow> len \<le> length c))
           | TrustSnapshot \<Rightarrow> Inr True)
      | InFile \<Rightarrow>
          (case pm_read_piece m index (dk_files d) of
             Inl _ \<Rightarrow> Inr False
           | Inr bytes \<Rightarrow>
               if verification = FileMetadata
               then (case piece_length info index of Inl e \<Rightarrow> Inl e | Inr len \<Rightarrow> Inr (length bytes = len))
               else Inr (validate_piece_bytes (env_sha1 env) bytes (info_pieces info ! index))))"

fun reconcile_pieces :: "(nat \<Rightarrow> snapshot_error + bool) \<Rightarrow> nat list \<Rightarrow> bool list \<Rightarrow> snapshot_error + bool list" where
  "reconcile_pieces stored [] bits = Inr bits"
| "reconcile_pieces stored (i # is) bits =
     (case stored i of
        Inl e \<Rightarrow> Inl e
      | Inr valid \<Rightarrow> reconcile_pieces stored is (if valid then bits else bits[i := False]))"

definition block_stored :: "disk \<Rightarrow> storage_strategy \<Rightarrow> file_piece_manager \<Rightarrow> torrent_info \<Rightarrow> nat \<Rightarrow> nat \<Rightarrow> nat \<Rightarrow> bool" where
  "block_stored d storage m info index piece_len block_index =
     (let offset = saturating_mul block_index BLOCK_SIZE;
          len = min (piece_len - offset) BLOCK_SIZE
      in case storage of
           Disk dir \<Rightarrow> (case cached d dir info index of None \<Rightarrow> False | Some c \<Rightarrow> saturating_add offset len \<le> length c)
         | InFile \<Rightarrow> (case pm_read_piece_block m index offset len (dk_files d) of Inl _ \<Rightarrow> False | Inr bytes \<Rightarrow> length bytes = len))"

fun reconcile_blocks :: "disk \<Rightarrow> storage_strategy \<Rightarrow> file_piece_manager \<Rightarrow> torrent_info \<Rightarrow> (nat \<times> bool list) list
    \<Rightarrow> snapshot_error + (nat \<times> bool list) list" where
  "reconcile_blocks d storage m info [] = Inr []"
| "reconcile_blocks d storage m info ((index, blocks) # rest) =
     (case piece_length info index of
        Inl e \<Rightarrow> Inl e
      | Inr len \<Rightarrow>
          (case reconcile_blocks d storage m info rest of
             Inl e \<Rightarrow> Inl e
           | Inr rest' \<Rightarrow>
               Inr ((index, map (\<lambda>j. blocks ! j \<and> block_stored d storage m info index len j) [0..<length blocks]) # rest')))"

definition reconcile_storage :: "torrent_env \<Rightarrow> disk \<Rightarrow> restore_verification \<Rightarrow> torrent_snapshot \<Rightarrow> snapshot_error + torrent_snapshot" where
  "reconcile_storage env d verification s =
     (if verification = TrustSnapshot then Inr s
      else case sn_output_path s of
        None \<Rightarrow> Inl NoOutputPath
      | Some path \<Rightarrow>
          (case dk_dir d path of
             None \<Rightarrow> Inl OutputUnreadable
           | Some is_dir \<Rightarrow>
               if \<not> is_dir then Inl OutputNotDirectory
               else (case resolved_info s of
                 None \<Rightarrow> Inr s
               | Some info \<Rightarrow>
                   (let m = \<lparr>pm_path = sn_output_path s, pm_info = Some info\<rparr>
                    in case reconcile_pieces (piece_stored env d verification (sn_storage s) m info)
                         (filter (\<lambda>i. sn_bitfield s ! i) [0..<length (sn_bitfield s)]) (sn_bitfield s) of
                         Inl e \<Rightarrow> Inl e
                       | Inr bits \<Rightarrow>
                           (case reconcile_blocks d (sn_storage s) m info (sn_block_map s) of
                              Inl e \<Rightarrow> Inl e
                            | Inr blocks \<Rightarrow>
                                Inr (s\<lparr>sn_bitfield := bits, sn_block_map := filter (\<lambda>(_, bs). list_ex (\<lambda>b. b) bs) blocks\<rparr>))))))"

section \<open>Restoring\<close>

definition restored_state :: "torrent_state \<Rightarrow> torrent_state" where
  "restored_state s = (if s \<in> {Downloading, Seeding, Restarting, Stopping, Stopped} then Paused else s)"

definition restored_scheduler :: "nat \<Rightarrow> bool list \<Rightarrow> (nat \<times> bool list) list \<Rightarrow> piece_scheduler" where
  "restored_scheduler n bits blocks =
     fold (\<lambda>(i, bs). restore_piece_blocks i bs) blocks
       (fold mark_piece_complete (filter (\<lambda>i. bits ! i) [0..<length bits]) (sched_new n))"

text \<open>The actor's handler; of the snapshot it gets what \<^verbatim>\<open>into_restore_parts\<close> leaves of it.\<close>

definition restore_snapshot :: "torrent_snapshot \<Rightarrow> torrent_actor \<Rightarrow> torrent_actor" where
  "restore_snapshot s t =
     (let t1 = t\<lparr>ta_resolved := sn_resolved s\<rparr>;
          n = (case info_dict t1 of None \<Rightarrow> 0 | Some info \<Rightarrow> piece_count info)
      in transition_state (restored_state (sn_state s))
           (t1\<lparr>ta_bitfield := sn_bitfield s, ta_sched := restored_scheduler n (sn_bitfield s) (sn_block_map s),
               ta_autostart := sn_auto_start s, ta_sufficient_peers := sn_sufficient_peers s\<rparr>))"


section \<open>Reconciliation keeps what is stored\<close>

lemma reconcile_pieces_result:
  "reconcile_pieces stored is bits = Inr bits' \<Longrightarrow>
     length bits' = length bits \<and> (\<forall>j < length bits. bits' ! j = (bits ! j \<and> (j \<in> set is \<longrightarrow> stored j = Inr True)))"
proof (induction "is" arbitrary: bits)
  case (Cons i "is")
  obtain valid where v: "stored i = Inr valid" using Cons.prems by (cases "stored i") auto
  then have "reconcile_pieces stored is (if valid then bits else bits[i := False]) = Inr bits'" using Cons.prems by simp
  moreover have "bits[i := False] ! j = (bits ! j \<and> j \<noteq> i)" if "j < length bits" for j
    using that by (cases "i = j") simp_all
  ultimately show ?case using Cons.IH v by (cases valid) fastforce+
qed simp

lemma reconcile_blocks_shape:
  "reconcile_blocks d storage m info bs = Inr bs' \<Longrightarrow>
     list_all2 (\<lambda>(i, xs) (i', xs'). i' = i \<and> length xs' = length xs) bs bs'"
  by (induction d storage m info bs arbitrary: bs' rule: reconcile_blocks.induct) (auto split: sum.splits)

lemma validate_partials_iff:
  "validate_partials info n bitfield seen bs = Inr () \<longleftrightarrow>
     distinct (map fst bs) \<and> set (map fst bs) \<inter> set seen = {} \<and>
     (\<forall>(i, xs) \<in> set bs. i < n \<and> \<not> bitfield ! i \<and>
        (\<exists>inf len. info = Some inf \<and> piece_length inf i = Inr len \<and> length xs = div_ceil len BLOCK_SIZE))"
  by (induction info n bitfield seen bs rule: validate_partials.induct) (auto split: option.splits sum.splits if_splits)

lemma validate_iff:
  "snapshot_validate env from_hex s = Inr () \<longleftrightarrow>
     sn_version s = TORRENT_SNAPSHOT_VERSION \<and> meta_info_hash env from_hex (sn_metainfo s) = Inr (sn_info_hash s) \<and>
     (case sn_metainfo s of MTorrent _ \<Rightarrow> sn_resolved s = None | MMagnet _ \<Rightarrow> True) \<and> sn_output_path s \<noteq> None \<and>
     (\<forall>info. sn_resolved s = Some info \<longrightarrow> env_info_hash env info = Inr (sn_info_hash s)) \<and>
     length (sn_bitfield s) = (case resolved_info s of None \<Rightarrow> 0 | Some info \<Rightarrow> piece_count info) \<and>
     validate_partials (resolved_info s) (length (sn_bitfield s)) (sn_bitfield s) [] (sn_block_map s) = Inr ()"
  by (auto simp: snapshot_validate_def Let_def split: sum.splits option.splits meta_info.splits if_splits)


text \<open>Reconciliation of a snapshot with metadata, as one statement.\<close>

lemma reconcile_result:
  assumes "reconcile_storage env d verification s = Inr s'" and "verification \<noteq> TrustSnapshot" and "resolved_info s = Some info"
  defines "m \<equiv> \<lparr>pm_path = sn_output_path s, pm_info = Some info\<rparr>"
  obtains bits blocks where "s' = s\<lparr>sn_bitfield := bits, sn_block_map := filter (\<lambda>(_, bs). list_ex (\<lambda>b. b) bs) blocks\<rparr>"
    and "length bits = length (sn_bitfield s)"
    and "\<And>i. i < length bits \<Longrightarrow> bits ! i = (sn_bitfield s ! i \<and> piece_stored env d verification (sn_storage s) m info i = Inr True)"
    and "reconcile_blocks d (sn_storage s) m info (sn_block_map s) = Inr blocks"
proof -
  let ?ones = "filter (\<lambda>i. sn_bitfield s ! i) [0..<length (sn_bitfield s)]"
  obtain bits blocks where b: "reconcile_pieces (piece_stored env d verification (sn_storage s) m info) ?ones (sn_bitfield s) = Inr bits"
    "reconcile_blocks d (sn_storage s) m info (sn_block_map s) = Inr blocks"
    "s' = s\<lparr>sn_bitfield := bits, sn_block_map := filter (\<lambda>(_, bs). list_ex (\<lambda>b. b) bs) blocks\<rparr>"
    using assms(1-3) unfolding m_def by (auto simp: reconcile_storage_def Let_def split: option.splits sum.splits if_splits)
  have "length bits = length (sn_bitfield s)" "\<And>i. i < length bits \<Longrightarrow> bits ! i = (sn_bitfield s ! i \<and> piece_stored env d verification (sn_storage s) m info i = Inr True)"
    using reconcile_pieces_result [OF b(1)] by auto
  then show ?thesis using that b(2,3) by blast
qed

lemma reconcile_validates:
  assumes "snapshot_validate env from_hex s = Inr ()" and "reconcile_storage env' d verification s = Inr s'"
  shows "snapshot_validate env from_hex s' = Inr ()"
proof (cases "verification = TrustSnapshot \<or> resolved_info s = None")
  case True
  then have "s' = s" using assms(2) by (auto simp: reconcile_storage_def split: option.splits if_splits)
  then show ?thesis using assms(1) by simp
next
  case False
  then obtain info where info: "resolved_info s = Some info" and v: "verification \<noteq> TrustSnapshot" by auto
  obtain bits blocks where r: "s' = s\<lparr>sn_bitfield := bits, sn_block_map := filter (\<lambda>(_, bs). list_ex (\<lambda>b. b) bs) blocks\<rparr>"
    "length bits = length (sn_bitfield s)" "\<And>i. i < length bits \<Longrightarrow> bits ! i \<longrightarrow> sn_bitfield s ! i"
    "reconcile_blocks d (sn_storage s) \<lparr>pm_path = sn_output_path s, pm_info = Some info\<rparr> info (sn_block_map s) = Inr blocks"
    using reconcile_result [OF assms(2) v info] by metis
  note shape = reconcile_blocks_shape [OF r(4)]
  have fsts: "map fst blocks = map fst (sn_block_map s)"
    using shape by (induction rule: list_all2_induct) auto
  have lens: "\<exists>xs. (i, xs) \<in> set (sn_block_map s) \<and> length xs = length ys" if "(i, ys) \<in> set blocks" for i ys
    using shape that by (induction rule: list_all2_induct) fastforce+
  have ri: "resolved_info s' = resolved_info s" by (simp add: r(1) resolved_info_def split: meta_info.split)
  have p: "validate_partials (resolved_info s) (length (sn_bitfield s)) (sn_bitfield s) [] (sn_block_map s) = Inr ()"
    using assms(1) unfolding validate_iff by blast
  let ?bm = "filter (\<lambda>(_, bs). list_ex (\<lambda>b. b) bs) blocks"
  have "validate_partials (resolved_info s) (length bits) bits [] ?bm = Inr ()"
    unfolding validate_partials_iff
  proof (intro conjI)
    show "distinct (map fst ?bm)" using p fsts unfolding validate_partials_iff by (metis distinct_map_filter)
    show "\<forall>(i, xs) \<in> set ?bm. i < length bits \<and> \<not> bits ! i \<and>
        (\<exists>inf len. resolved_info s = Some inf \<and> piece_length inf i = Inr len \<and> length xs = div_ceil len BLOCK_SIZE)"
    proof (clarsimp simp del: split_paired_Ex)
      fix i ys
      assume "(i, ys) \<in> set blocks"
      then obtain xs where "(i, xs) \<in> set (sn_block_map s)" "length xs = length ys" using lens by blast
      then show "i < length bits \<and> \<not> bits ! i \<and> (\<exists>inf. resolved_info s = Some inf \<and> (\<exists>len. piece_length inf i = Inr len \<and> length ys = div_ceil len BLOCK_SIZE))"
        using p r(2,3) unfolding validate_partials_iff by fastforce
    qed
  qed simp
  moreover have "sn_version s' = sn_version s" "sn_metainfo s' = sn_metainfo s" "sn_info_hash s' = sn_info_hash s" "sn_resolved s' = sn_resolved s"
    "sn_output_path s' = sn_output_path s" "sn_bitfield s' = bits" "sn_block_map s' = ?bm"
    by (simp_all add: r(1))
  ultimately show ?thesis
    using assms(1) ri r(2) unfolding validate_iff by (simp split: meta_info.splits)
qed


section \<open>Restoring\<close>

lemma fold_restore_blocks:
  "distinct (map fst bs) \<Longrightarrow>
     fold (\<lambda>(i, xs). restore_piece_blocks i xs) bs s = s\<lparr>completed_blocks := completed_blocks s ++ map_of bs\<rparr>"
proof (induction bs arbitrary: s)
  case (Cons b bs)
  obtain i xs where b: "b = (i, xs)" by (cases b)
  then have "i \<notin> dom (map_of bs)" using Cons.prems by (simp add: dom_map_of_conv_image_fst)
  then have eq: "(completed_blocks s)(i \<mapsto> xs) ++ map_of bs = completed_blocks s ++ map_of (b # bs)"
    by (auto simp: b fun_eq_iff map_add_def split: option.splits)
  let ?s = "restore_piece_blocks i xs s"
  have "distinct (map fst bs)" using Cons.prems by simp
  then have "fold (\<lambda>(i, xs). restore_piece_blocks i xs) bs ?s = ?s\<lparr>completed_blocks := completed_blocks ?s ++ map_of bs\<rparr>"
    by (rule Cons.IH)
  also have "\<dots> = s\<lparr>completed_blocks := (completed_blocks s)(i \<mapsto> xs) ++ map_of bs\<rparr>"
    by (simp add: restore_piece_blocks_def)
  finally show ?case unfolding eq by (simp only: b fold_Cons comp_apply prod.case)
qed simp

lemma fold_mark_complete:
  fixes s :: piece_scheduler
  assumes "\<forall>i \<in> set is. i < length (completed_pieces s)"
  shows "length (completed_pieces (fold mark_piece_complete is s)) = length (completed_pieces s) \<and>
    (\<forall>j < length (completed_pieces s). completed_pieces (fold mark_piece_complete is s) ! j = (completed_pieces s ! j \<or> j \<in> set is)) \<and>
    (completed_blocks s = Map.empty \<longrightarrow> completed_blocks (fold mark_piece_complete is s) = Map.empty)"
  using assms
proof (induction "is" arbitrary: s)
  case (Cons i "is")
  let ?s = "mark_piece_complete i s"
  have "completed_pieces ?s = (completed_pieces s)[i := True]" "completed_blocks ?s = (completed_blocks s)(i := None)"
    using Cons.prems by (simp_all add: mark_piece_complete_def Let_def)
  then show ?case using Cons.IH [of ?s] Cons.prems by (auto simp: nth_list_update)
qed simp

lemma sched_inv_fold_mark: "sched_inv s \<Longrightarrow> sched_inv (fold mark_piece_complete is s)"
  by (induction "is" arbitrary: s) (auto intro: inv_intros)

lemma restored_scheduler_fields:
  assumes "length bits = n" and "distinct (map fst bs)"
  shows "completed_pieces (restored_scheduler n bits bs) = bits" and "completed_blocks (restored_scheduler n bits bs) = map_of bs"
    and "sched_inv (restored_scheduler n bits bs)"
proof -
  let ?is = "filter (\<lambda>i. bits ! i) [0..<length bits]" and ?new = "sched_new n"
  note f = fold_mark_complete [of ?is ?new]
  have in_range: "\<forall>i \<in> set ?is. i < length (completed_pieces ?new)" using assms(1) by (simp add: sched_new_def)
  let ?m = "fold mark_piece_complete ?is ?new"
  have r: "restored_scheduler n bits bs = ?m\<lparr>completed_blocks := completed_blocks ?m ++ map_of bs\<rparr>"
    by (simp add: restored_scheduler_def fold_restore_blocks [OF assms(2)])
  show "completed_pieces (restored_scheduler n bits bs) = bits"
    using f [OF in_range] assms(1) unfolding r by (auto intro!: nth_equalityI simp: sched_new_def)
  show "completed_blocks (restored_scheduler n bits bs) = map_of bs"
    using f [OF in_range] unfolding r by (simp add: sched_new_def)
  have "sched_inv ?m" using sched_inv_fold_mark inv_intros by (metis sched_inv_new)
  then show "sched_inv (restored_scheduler n bits bs)" unfolding r by (simp add: sched_inv_def counters_ok_def in_flight_for_peer_def)
qed

lemma restore_fields:
  assumes "snapshot_validate env from_hex s = Inr ()" and "ta_metainfo t = sn_metainfo s"
  defines "t' \<equiv> restore_snapshot s t"
  shows "ta_bitfield t' = sn_bitfield s" and "ta_resolved t' = sn_resolved s" and "info_dict t' = resolved_info s"
    and "completed_pieces (ta_sched t') = sn_bitfield s" and "completed_blocks (ta_sched t') = map_of (sn_block_map s)"
    and "sched_inv (ta_sched t')" and "ta_autostart t' = sn_auto_start s" and "ta_sufficient_peers t' = sn_sufficient_peers s"
    and "ta_state t' = restored_state (sn_state s)" and "ta_metainfo t' = ta_metainfo t" and "ta_storage t' = ta_storage t"
    and "ta_manager t' = ta_manager t" and "ta_files t' = ta_files t" and "ta_cache t' = ta_cache t"
proof -
  have n: "length (sn_bitfield s) = (case resolved_info s of None \<Rightarrow> 0 | Some info \<Rightarrow> piece_count info)"
    and d: "distinct (map fst (sn_block_map s))"
    using assms(1) unfolding validate_iff validate_partials_iff by blast+
  have i: "info_dict (t\<lparr>ta_resolved := sn_resolved s\<rparr>) = resolved_info s"
    by (simp add: info_dict_def resolved_info_def assms(2) split: meta_info.split)
  note f = restored_scheduler_fields [OF n d]
  show "completed_pieces (ta_sched t') = sn_bitfield s" "completed_blocks (ta_sched t') = map_of (sn_block_map s)" "sched_inv (ta_sched t')"
    using f by (simp_all add: t'_def restore_snapshot_def Let_def i transition_state_eq)
  show "ta_bitfield t' = sn_bitfield s" "ta_resolved t' = sn_resolved s" "ta_autostart t' = sn_auto_start s"
    "ta_sufficient_peers t' = sn_sufficient_peers s" "ta_state t' = restored_state (sn_state s)" "ta_metainfo t' = ta_metainfo t"
    "ta_storage t' = ta_storage t" "ta_manager t' = ta_manager t" "ta_files t' = ta_files t" "ta_cache t' = ta_cache t"
    by (simp_all add: t'_def restore_snapshot_def Let_def transition_state_eq)
  then show "info_dict t' = resolved_info s"
    by (simp add: info_dict_def resolved_info_def assms(2) split: meta_info.split)
qed

text \<open>The numbers of an actor that fit a machine word, as they do.\<close>

definition usize_ok :: "torrent_actor \<Rightarrow> bool" where
  "usize_ok t = (finite (dom (completed_blocks (ta_sched t))) \<and> dom (completed_blocks (ta_sched t)) \<subseteq> {..usize_max} \<and>
     ta_sufficient_peers t \<le> usize_max)"

lemma snapshot_fields:
  assumes "torrent_snapshot_of t = Inr s" and "usize_ok t"
  shows "sn_version s = TORRENT_SNAPSHOT_VERSION" "sn_info_hash s = ta_info_hash t" "sn_state s = ta_state t" "sn_auto_start s = ta_autostart t"
    "sn_sufficient_peers s = ta_sufficient_peers t" "sn_metainfo s = ta_metainfo t" "sn_storage s = ta_storage t" "sn_resolved s = ta_resolved t"
    "sn_bitfield s = ta_bitfield t" "distinct (map fst (sn_block_map s))" "map_of (sn_block_map s) = completed_blocks (ta_sched t)"
    "resolved_info s = info_dict t"
proof -
  let ?b = "completed_blocks (ta_sched t)"
  have eq: "sn_block_map s = map (\<lambda>i. (i, the (?b i))) (sorted_list_of_set (dom ?b))"
  proof -
    have "sn_block_map s = map (\<lambda>i. (snapshot_u64 i, the (?b i))) (sorted_list_of_set (dom ?b))"
      using assms(1) by (auto simp: torrent_snapshot_of_def split: manager_proxy.splits)
    moreover have "snapshot_u64 i = i" if "i \<in> dom ?b" for i using assms(2) that by (auto simp: usize_ok_def snapshot_u64_def)
    ultimately show ?thesis using assms(2) by (simp add: usize_ok_def)
  qed
  have fin: "finite (dom ?b)" using assms(2) by (simp add: usize_ok_def)
  show "distinct (map fst (sn_block_map s))" by (simp add: eq comp_def)
  show "map_of (sn_block_map s) = ?b"
    using fin by (auto simp: eq map_of_map_restrict restrict_map_def fun_eq_iff comp_def domIff)
  show "sn_version s = TORRENT_SNAPSHOT_VERSION" "sn_info_hash s = ta_info_hash t" "sn_state s = ta_state t" "sn_auto_start s = ta_autostart t"
    "sn_metainfo s = ta_metainfo t" "sn_storage s = ta_storage t" "sn_resolved s = ta_resolved t" "sn_bitfield s = ta_bitfield t"
    "sn_sufficient_peers s = ta_sufficient_peers t"
    using assms by (auto simp: torrent_snapshot_of_def snapshot_u64_def usize_ok_def split: manager_proxy.splits)
  then show "resolved_info s = info_dict t" by (simp add: resolved_info_def info_dict_def split: meta_info.split)
qed


text \<open>
  C33: a session survives its snapshot. Whatever snapshot of a torrent passes validation, restoring it
  into a new actor for the same torrent brings back the metadata, the bitfield, every partial block and
  the settings; the scheduler is consistent and agrees with the bitfield, and a torrent that was
  transferring or shutting down comes back paused.
\<close>

theorem snapshot_restore_roundtrip:
  assumes "torrent_snapshot_of t = Inr s" and "usize_ok t" and "snapshot_validate env from_hex s = Inr ()" and "ta_metainfo t0 = ta_metainfo t"
  shows "info_dict (restore_snapshot s t0) = info_dict t \<and> ta_bitfield (restore_snapshot s t0) = ta_bitfield t \<and>
    completed_pieces (ta_sched (restore_snapshot s t0)) = ta_bitfield t \<and>
    completed_blocks (ta_sched (restore_snapshot s t0)) = completed_blocks (ta_sched t) \<and>
    sched_inv (ta_sched (restore_snapshot s t0)) \<and> in_flight_for_peer (ta_sched (restore_snapshot s t0)) q = in_flight_for_peer (sched_new 0) q \<and>
    ta_autostart (restore_snapshot s t0) = ta_autostart t \<and> ta_sufficient_peers (restore_snapshot s t0) = ta_sufficient_peers t \<and>
    ta_state (restore_snapshot s t0) = (if ta_state t \<in> {Downloading, Seeding, Restarting, Stopping, Stopped} then Paused else ta_state t)"
proof -
  note f = snapshot_fields [OF assms(1,2)]
  have m: "ta_metainfo t0 = sn_metainfo s" using assms(4) f(6) by simp
  note r = restore_fields [OF assms(3) m]
  have "in_flight (fold mark_piece_complete is s0) = in_flight s0" "in_flight_per_peer (fold mark_piece_complete is s0) = in_flight_per_peer s0" for "is" s0
    by (induction "is" arbitrary: s0) (simp_all add: mark_piece_complete_def Let_def)
  moreover have "in_flight_per_peer (ta_sched (restore_snapshot s t0)) = Map.empty"
    using calculation(2) fold_restore_blocks [OF f(10)]
    by (simp add: restore_snapshot_def transition_state_eq restored_scheduler_def sched_new_def Let_def)
  ultimately show ?thesis
    using r f by (simp add: restored_state_def in_flight_for_peer_def sched_new_def)
qed

section \<open>Restoring verified data\<close>

lemma on_start_fields:
  assumes "torrent_on_start env from_hex files cache args = Inr t"
  shows "ta_metainfo t = arg_metainfo args" and "ta_storage t = arg_storage args" and "ta_files t = files" and "ta_cache t = cache"
    and "ta_manager t = DefaultManager \<lparr>pm_path = arg_base args, pm_info = (case arg_metainfo args of MTorrent f \<Rightarrow> Some (tf_info f) | MMagnet _ \<Rightarrow> None)\<rparr>"
proof -
  obtain h where "t = fold (\<lambda>tr t. snd (register_tracker_actor tr t)) (meta_announces (arg_metainfo args)) (torrent_fresh h files cache args)"
    using assms by (auto simp: torrent_on_start_def split: sum.splits if_splits)
  then obtain trs where t: "t = (torrent_fresh h files cache args)\<lparr>ta_trackers := trs\<rparr>" using register_all_frame by metis
  show "ta_metainfo t = arg_metainfo args" "ta_storage t = arg_storage args" "ta_files t = files" "ta_cache t = cache"
    "ta_manager t = DefaultManager \<lparr>pm_path = arg_base args, pm_info = (case arg_metainfo args of MTorrent f \<Rightarrow> Some (tf_info f) | MMagnet _ \<Rightarrow> None)\<rparr>"
    by (simp_all add: t torrent_fresh_def Let_def)
qed

text \<open>The actor the engine restores a snapshot into: created for the metadata, storage and output path of the snapshot.\<close>

definition restore_target :: "torrent_snapshot \<Rightarrow> torrent_args \<Rightarrow> bool" where
  "restore_target s args = (arg_metainfo args = sn_metainfo s \<and> arg_storage args = sn_storage s \<and> arg_base args = sn_output_path s)"

lemma full_piece_valid:
  assumes stored: "piece_stored env d FullVerification (sn_storage s) \<lparr>pm_path = sn_output_path s, pm_info = Some info\<rparr> info i = Inr True"
    and start: "torrent_on_start env from_hex (dk_files d) (dk_cache d) args = Inr t0" and target: "restore_target s args"
    and info: "info_dict t = Some info" "i < length (info_pieces info)"
    and kept: "ta_storage t = ta_storage t0" "ta_manager t = ta_manager t0" "ta_files t = ta_files t0" "ta_cache t = ta_cache t0"
    and known: "sn_storage s = InFile \<Longrightarrow> \<exists>f. sn_metainfo s = MTorrent f \<and> tf_info f = info"
  shows "piece_valid (env_sha1 env) t i"
proof (cases "sn_storage s")
  case InFile
  then obtain f where f: "sn_metainfo s = MTorrent f" "tf_info f = info" using known by blast
  then have "ta_manager t = DefaultManager \<lparr>pm_path = sn_output_path s, pm_info = Some info\<rparr>" "ta_storage t = InFile" "ta_files t = dk_files d"
    using on_start_fields [OF start] target kept InFile by (simp_all add: restore_target_def)
  then show ?thesis
    using stored info InFile
    by (auto simp: piece_stored_def piece_valid_def piece_data_def validate_piece_bytes_def split: sum.splits)
next
  case (Disk dir)
  then have "ta_storage t = Disk dir" "ta_cache t = dk_cache d"
    using on_start_fields [OF start] target kept by (simp_all add: restore_target_def)
  then show ?thesis
    using stored info Disk
    by (auto simp: piece_stored_def piece_valid_def piece_data_def validate_piece_bytes_def get_piece_path_def cached_def split: option.splits)
qed

text \<open>
  After full verification the restored torrent claims a piece exactly when the snapshot claimed it and
  the stored bytes have its hash; the reconciled snapshot still validates. For data kept in the output
  files this needs the metadata at creation.
\<close>

lemma restored_pieces_verified:
  assumes "snapshot_validate env from_hex s = Inr ()" and "reconcile_storage env d FullVerification s = Inr s'"
    and "torrent_on_start env from_hex (dk_files d) (dk_cache d) args = Inr t0" and "restore_target s args"
    and "sn_storage s = InFile \<Longrightarrow> \<exists>f. sn_metainfo s = MTorrent f"
  shows "verified (env_sha1 env) (restore_snapshot s' t0) \<and> snapshot_validate env from_hex s' = Inr () \<and>
    length (ta_bitfield (restore_snapshot s' t0)) = length (sn_bitfield s) \<and>
    (\<forall>i < length (sn_bitfield s). ta_bitfield (restore_snapshot s' t0) ! i =
       (sn_bitfield s ! i \<and> (\<exists>info. resolved_info s = Some info \<and>
          piece_stored env d FullVerification (sn_storage s) \<lparr>pm_path = sn_output_path s, pm_info = Some info\<rparr> info i = Inr True)))"
proof -
  have v: "snapshot_validate env from_hex s' = Inr ()" using assms(1,2) by (rule reconcile_validates)
  have n: "length (sn_bitfield s) = (case resolved_info s of None \<Rightarrow> 0 | Some info \<Rightarrow> piece_count info)"
    using assms(1) unfolding validate_iff by blast
  have meta: "sn_metainfo s' = sn_metainfo s"
    using assms(2) by (auto simp: reconcile_storage_def Let_def split: option.splits sum.splits if_splits)
  have "ta_metainfo t0 = sn_metainfo s'" using on_start_fields(1) [OF assms(3)] assms(4) meta by (simp add: restore_target_def)
  note r = restore_fields [OF v this]
  show ?thesis
  proof (cases "resolved_info s")
    case None
    then have "s' = s" using assms(2) by (auto simp: reconcile_storage_def split: option.splits if_splits)
    then show ?thesis using n None r(1) v by (simp add: verified_def)
  next
    case (Some info)
    obtain bits blocks where b: "s' = s\<lparr>sn_bitfield := bits, sn_block_map := filter (\<lambda>(_, bs). list_ex (\<lambda>b. b) bs) blocks\<rparr>"
      "length bits = length (sn_bitfield s)"
      "\<And>i. i < length bits \<Longrightarrow> bits ! i = (sn_bitfield s ! i \<and>
         piece_stored env d FullVerification (sn_storage s) \<lparr>pm_path = sn_output_path s, pm_info = Some info\<rparr> info i = Inr True)"
      using reconcile_result [OF assms(2) _ Some] by (metis restore_verification.distinct(3))
    have bf: "ta_bitfield (restore_snapshot s' t0) = bits" using r(1) b(1) by simp
    have inf: "info_dict (restore_snapshot s' t0) = Some info"
      using r(3) Some b(1) by (simp add: resolved_info_def split: meta_info.splits)
    have "piece_valid (env_sha1 env) (restore_snapshot s' t0) i" if "i < length bits" "bits ! i" for i
    proof (rule full_piece_valid [OF _ assms(3,4) inf _ r(11-14)])
      show "piece_stored env d FullVerification (sn_storage s) \<lparr>pm_path = sn_output_path s, pm_info = Some info\<rparr> info i = Inr True"
        using b(3) [OF that(1)] that(2) by blast
      show "i < length (info_pieces info)" using that(1) b(2) n Some by (simp add: piece_count_def)
      show "\<exists>f. sn_metainfo s = MTorrent f \<and> tf_info f = info" if "sn_storage s = InFile"
        using assms(5) [OF that] Some by (auto simp: resolved_info_def)
    qed
    then show ?thesis using b bf v Some by (simp add: verified_def)
  qed
qed


section \<open>Which snapshots validate\<close>

text \<open>Metadata whose pieces cover the content: the last piece is neither empty nor longer than the others.\<close>

definition lengths_ok :: "torrent_info \<Rightarrow> bool" where
  "lengths_ok info =
     (0 < info_piece_length info \<and> 0 < piece_count info \<and> piece_count info \<le> usize_max \<and> total_length info \<le> usize_max \<and>
      info_piece_length info * (piece_count info - 1) < total_length info \<and> total_length info \<le> info_piece_length info * piece_count info)"

lemma last_remainder:
  fixes p q t :: nat
  assumes "p * q < t" and "t \<le> p * (q + 1)" and "0 < p"
  shows "(if t mod p = 0 then p else t mod p) = t - p * q"
proof -
  obtain r where r: "0 < r" "p * q + r = t" using less_imp_add_positive [OF assms(1)] by blast
  then have "r \<le> p" using assms(2) by auto
  then show ?thesis using r assms(3) by (cases "r = p") (auto simp: r(2) [symmetric])
qed

lemma piece_length_concrete:
  assumes "lengths_ok info"
  shows "piece_length info i = Inr (concrete_piece_len info i)"
proof -
  let ?q = "piece_count info - 1"
  have "total_length info \<le> info_piece_length info * (?q + 1)" "info_piece_length info * ?q < total_length info" "0 < info_piece_length info"
    using assms by (simp_all add: lengths_ok_def)
  then have "last_piece_len info = total_length info - info_piece_length info * ?q"
    unfolding last_piece_len_def by (intro last_remainder)
  moreover have "saturating_mul (info_piece_length info) ?q = info_piece_length info * ?q"
    using assms by (simp add: lengths_ok_def saturating_mul_def)
  ultimately show ?thesis using assms by (simp add: piece_length_def concrete_piece_len_def lengths_ok_def)
qed

text \<open>
  Which snapshots of a running torrent can be restored. In every reachable state of a torrent
  file with an output path, the snapshot that is taken passes validation exactly when no piece the
  bitfield claims still has a record of partial blocks; nothing else can go wrong.
\<close>

theorem snapshot_valid_iff:
  assumes "torrent_reachable t" and "ta_metainfo t = MTorrent f" and "env_info_hash env (tf_info f) = Inr (ta_info_hash t)"
    and "lengths_ok (tf_info f)" and "torrent_snapshot_of t = Inr s" and "sn_output_path s \<noteq> None" and "ta_sufficient_peers t \<le> usize_max"
  shows "snapshot_validate env from_hex s = Inr () \<longleftrightarrow>
    (\<forall>i < piece_count (tf_info f). ta_bitfield t ! i \<longrightarrow> completed_blocks (ta_sched t) i = None)"
proof -
  have none: "ta_resolved t = None" and ok: "blocks_ok (tf_info f) (completed_blocks (ta_sched t))"
    using reachable_blocks [OF assms(1,2)] by simp_all
  have "dom (completed_blocks (ta_sched t)) \<subseteq> {..<piece_count (tf_info f)}" using ok by (auto simp: blocks_ok_def)
  moreover have "piece_count (tf_info f) \<le> usize_max" using assms(4) by (simp add: lengths_ok_def)
  ultimately have "usize_ok t" using assms(7) by (auto simp: usize_ok_def intro: finite_subset)
  note s = snapshot_fields [OF assms(5) this]
  have info: "info_dict t = Some (tf_info f)" using assms(2) by (simp add: info_dict_def)
  have "torrent_core t" using reachable_core [OF assms(1)] by simp
  then have len: "length (ta_bitfield t) = piece_count (tf_info f)"
    using assms(2) info by (simp add: torrent_core_def progress_ok_def is_magnet_def bits_agree_def)
  have mem: "(i, bs) \<in> set (sn_block_map s) \<longleftrightarrow> completed_blocks (ta_sched t) i = Some bs" for i bs
    using s(10) unfolding s(11) [symmetric] by simp
  have "snapshot_validate env from_hex s = Inr () \<longleftrightarrow>
      validate_partials (Some (tf_info f)) (piece_count (tf_info f)) (ta_bitfield t) [] (sn_block_map s) = Inr ()"
    unfolding validate_iff s none info using assms(2,3,6) len by (simp add: meta_info_hash_def)
  also have "\<dots> \<longleftrightarrow> (\<forall>i bs. completed_blocks (ta_sched t) i = Some bs \<longrightarrow> i < piece_count (tf_info f) \<and> \<not> ta_bitfield t ! i \<and>
      length bs = div_ceil (concrete_piece_len (tf_info f) i) BLOCK_SIZE)"
    using s(10) by (simp add: validate_partials_iff piece_length_concrete [OF assms(4)] Ball_def mem)
  also have "\<dots> \<longleftrightarrow> (\<forall>i < piece_count (tf_info f). ta_bitfield t ! i \<longrightarrow> completed_blocks (ta_sched t) i = None)"
    using ok unfolding blocks_ok_def by (metis not_None_eq)
  finally show ?thesis .
qed

text \<open>
  One late block makes a session unrestorable. A block of a piece that is already complete is not
  refused; when the piece has several blocks, the scheduler then keeps a record of partial blocks for a
  completed piece, and the snapshot of the torrent fails its own validation.
\<close>

theorem late_block_unrestorable:
  assumes "torrent_inv t" and "stored_block i off block info t" and "1 < div_ceil (concrete_piece_len info i) BLOCK_SIZE"
    and "ta_bitfield t ! i" and "i < length (ta_bitfield t)" and "completed_blocks (ta_sched t) i = None"
    and "usize_ok t" and "i \<le> usize_max" and "ta_manager t = DefaultManager m"
  shows "\<exists>s. torrent_snapshot_of (fst (handle_incoming_piece env p i off block t)) = Inr s \<and> snapshot_validate env' from_hex s \<noteq> Inr ()"
proof -
  let ?t = "after_write i off block info t" and ?n = "div_ceil (concrete_piece_len info i) BLOCK_SIZE"
  let ?t' = "fst (handle_incoming_piece env p i off block t)"
  have keep: "completed_blocks (decrement_in_flight p s') = completed_blocks s'" for p s'
    by (simp add: decrement_in_flight_def split: option.split)
  define j where "j = off div BLOCK_SIZE"
  have blocks: "completed_blocks (ta_sched ?t) = (completed_blocks (ta_sched t))(i \<mapsto> (replicate ?n False)[j := True])"
    using assms(6) keep
    by (auto simp: j_def after_write_def mark_block_complete_def Let_def split_beta write_blocks list_update_beyond split: option.splits)
  have "\<exists>k < ?n. k \<noteq> j" using assms(3) by (metis One_nat_def less_Suc0 less_trans nat_neq_iff)
  then have "\<not> is_piece_complete (ta_sched ?t) i"
    using blocks by (auto simp: is_piece_complete_def list_all_length nth_list_update)
  then have h: "?t' = fst (fill_peer_request_window env p ?t)"
    using assms(2)
    by (cases rule: incoming_cases [where i = i and off = off and block = block and t = t and env = env and p = p])
      (auto simp: stored_block_def)
  have inv: "torrent_inv ?t" by (rule after_write_fields(1) [OF assms(1)])
  then obtain sc where sc: "?t' = ?t\<lparr>ta_sched := sc\<rparr>"
    unfolding h fill_peer_request_window_def torrent_inv_def using fill_window_frame by blast
  have t': "completed_blocks (ta_sched ?t') = (completed_blocks (ta_sched t))(i \<mapsto> (replicate ?n False)[j := True])"
    using inertD(1) [OF inert_windows(1)] blocks unfolding h by simp
  have frame: "ta_bitfield ?t' = ta_bitfield t" "ta_manager ?t' = ta_manager t" "ta_sufficient_peers ?t' = ta_sufficient_peers t"
    using write_block_stores [of t i off block] unfolding sc by (auto simp: after_write_def Let_def stores_def)
  have "usize_ok ?t'" using assms(7,8) frame(3) by (auto simp: usize_ok_def t')
  moreover obtain s where s: "torrent_snapshot_of ?t' = Inr s" using assms(9) frame(2) by (simp add: torrent_snapshot_of_def)
  ultimately have f: "map_of (sn_block_map s) i \<noteq> None" "sn_bitfield s ! i"
    using snapshot_fields(9,11) [OF s] frame(1) assms(4) by (simp_all add: t')
  then obtain bs where "(i, bs) \<in> set (sn_block_map s)" by (metis map_of_SomeD not_None_eq)
  then have "snapshot_validate env' from_hex s \<noteq> Inr ()" using f(2) unfolding validate_iff validate_partials_iff by fastforce
  with s show ?thesis by blast
qed

section \<open>Concrete sessions\<close>

definition tiny_snapshot :: torrent_snapshot where
  "tiny_snapshot = \<lparr>sn_version = 2, sn_info_hash = [7], sn_state = Seeding, sn_auto_start = True, sn_sufficient_peers = 1,
     sn_output_path = Some [''out''], sn_metainfo = MTorrent \<lparr>tf_announce = None, tf_announce_list = None, tf_info = tiny_info\<rparr>,
     sn_storage = InFile, sn_resolved = None, sn_bitfield = [True], sn_block_map = []\<rparr>"

lemma tiny_seed_blocks: "completed_blocks (ta_sched tiny_seed) = Map.empty"
  by (simp add: tiny_seed_def mark_piece_complete_def sched_new_def Let_def)

lemma tiny_snapshot_taken: "torrent_snapshot_of tiny_seed = Inr tiny_snapshot"
  by (simp add: torrent_snapshot_of_def tiny_snapshot_def tiny_seed_def tiny_torrent_def mark_piece_complete_def sched_new_def Let_def
      TORRENT_SNAPSHOT_VERSION_def snapshot_u64_def usize_max_def)

lemma tiny_snapshot_valid: "snapshot_validate tiny_env from_hex tiny_snapshot = Inr ()"
  by (simp add: snapshot_validate_def tiny_snapshot_def TORRENT_SNAPSHOT_VERSION_def meta_info_hash_def tiny_env_def resolved_info_def
      tiny_info_def piece_count_def)

lemma tiny_seed_fits: "usize_ok tiny_seed"
  using tiny_seed_blocks by (simp add: usize_ok_def) (simp add: tiny_seed_def tiny_torrent_def usize_max_def)

theorem snapshot_restore_roundtrip_witness:
  "ta_bitfield (restore_snapshot tiny_snapshot tiny_torrent) = [True] \<and> ta_state (restore_snapshot tiny_snapshot tiny_torrent) = Paused"
proof -
  have "ta_metainfo tiny_torrent = ta_metainfo tiny_seed" by (simp add: tiny_seed_def)
  from snapshot_restore_roundtrip [OF tiny_snapshot_taken tiny_seed_fits tiny_snapshot_valid this] show ?thesis
    by (simp add: tiny_seed_def)
qed

definition tiny_disk :: disk where
  "tiny_disk = \<lparr>dk_files = [[''out'', ''f''] \<mapsto> [1, 2, 3, 4]], dk_cache = Map.empty, dk_dir = (\<lambda>_. Some True)\<rparr>"

definition restore_args :: torrent_args where
  "restore_args = \<lparr>arg_metainfo = sn_metainfo tiny_snapshot, arg_storage = InFile, arg_autostart = False, arg_sufficient = 1,
     arg_base = Some [''out''], arg_settings = ta_settings tiny_torrent, arg_upload_slots = 4, arg_optimistic_rounds = 3\<rparr>"

definition no_hex :: "string \<Rightarrow> string + hash" where "no_hex _ = Inl ''hex''"

lemma tiny_started: "\<exists>t. torrent_on_start tiny_env no_hex (dk_files tiny_disk) (dk_cache tiny_disk) restore_args = Inr t"
  by (simp add: torrent_on_start_def restore_args_def tiny_snapshot_def meta_info_hash_def tiny_env_def)

lemma tiny_piece_stored: "piece_stored tiny_env tiny_disk FullVerification InFile \<lparr>pm_path = Some [''out''], pm_info = Some tiny_info\<rparr> tiny_info 0 = Inr True"
proof -
  have "pm_read_piece \<lparr>pm_path = Some [''out''], pm_info = Some tiny_info\<rparr> 0 [[''out'', ''f''] \<mapsto> [1, 2, 3, 4]] = Inr [1, 2, 3, 4]"
    by (simp add: tiny_eval)
  then show ?thesis
    by (simp add: piece_stored_def tiny_disk_def validate_piece_bytes_def tiny_env_def sum_hash_def) (simp add: tiny_info_def)
qed

lemma tiny_reconciled: "reconcile_storage tiny_env tiny_disk FullVerification tiny_snapshot = Inr tiny_snapshot"
  using tiny_piece_stored by (simp add: reconcile_storage_def tiny_snapshot_def tiny_disk_def resolved_info_def)

lemma tiny_lengths: "lengths_ok tiny_info"
  by (simp add: lengths_ok_def tiny_info_def piece_count_def total_length_def usize_max_def)

lemma tiny_start:
  obtains t trs where "torrent_reachable t" and "t = (torrent_fresh [7] (dk_files tiny_disk) (dk_cache tiny_disk) restore_args)\<lparr>ta_trackers := trs\<rparr>"
proof -
  obtain t where t: "torrent_on_start tiny_env no_hex (dk_files tiny_disk) (dk_cache tiny_disk) restore_args = Inr t"
    using tiny_started by blast
  have "t = fold (\<lambda>tr t. snd (register_tracker_actor tr t)) (meta_announces (arg_metainfo restore_args)) (torrent_fresh [7] (dk_files tiny_disk) (dk_cache tiny_disk) restore_args)"
    using t by (simp add: torrent_on_start_def restore_args_def tiny_snapshot_def meta_info_hash_def tiny_env_def)
  moreover have "torrent_reachable t" using t by (rule create) (simp add: args_ok_def restore_args_def tiny_snapshot_def tiny_info_def)
  ultimately show thesis using that register_all_frame by metis
qed

theorem snapshot_valid_iff_witness:
  "\<exists>t s. torrent_reachable t \<and> torrent_snapshot_of t = Inr s \<and> snapshot_validate tiny_env no_hex s = Inr ()"
proof -
  obtain t trs where r: "torrent_reachable t" and u: "t = (torrent_fresh [7] (dk_files tiny_disk) (dk_cache tiny_disk) restore_args)\<lparr>ta_trackers := trs\<rparr>"
    by (rule tiny_start)
  obtain s where s: "torrent_snapshot_of t = Inr s" "sn_output_path s \<noteq> None"
    by (simp add: torrent_snapshot_of_def u torrent_fresh_def Let_def restore_args_def)
  have "snapshot_validate tiny_env no_hex s = Inr ()"
    using snapshot_valid_iff [OF r _ _ _ s, of "\<lparr>tf_announce = None, tf_announce_list = None, tf_info = tiny_info\<rparr>" tiny_env no_hex] tiny_lengths
    by (simp add: u torrent_fresh_def restore_args_def tiny_snapshot_def tiny_env_def sched_new_def usize_max_def Let_def)
  with r s(1) show ?thesis by blast
qed

definition wide_info :: torrent_info where
  "wide_info = \<lparr>info_name = ''f'', info_piece_length = 16385, info_pieces = [[10]], info_file_keys = Single 16385, info_is_private = None\<rparr>"

definition wide_seed :: torrent_actor where
  "wide_seed = tiny_seed\<lparr>ta_metainfo := MTorrent \<lparr>tf_announce = None, tf_announce_list = None, tf_info = wide_info\<rparr>, ta_storage := Disk [''c'']\<rparr>"

lemma wide_seed_inv: "torrent_inv wide_seed"
proof -
  have "sched_inv (ta_sched wide_seed)" by (simp add: wide_seed_def tiny_seed_def inv_intros)
  then show ?thesis by (simp add: torrent_inv_def info_ok_def info_dict_def wide_seed_def wide_info_def)
qed

lemma wide_stored: "stored_block 0 16384 [9] wide_info wide_seed"
  by (simp add: stored_block_def block_acceptable_def info_dict_def wide_seed_def wide_info_def piece_count_def concrete_piece_len_def
      last_piece_len_def total_length_def BLOCK_SIZE_def checked_add_def usize_max_def div_ceil_def is_duplicate_block_def
      write_block_to_storage_def get_piece_path_def tiny_seed_def mark_piece_complete_def sched_new_def Let_def)


theorem late_block_unrestorable_witness:
  "\<exists>s. torrent_snapshot_of (fst (handle_incoming_piece tiny_env [1] 0 16384 [9] wide_seed)) = Inr s \<and> snapshot_validate tiny_env no_hex s \<noteq> Inr ()"
proof (rule late_block_unrestorable [OF wide_seed_inv wide_stored])
  show "1 < div_ceil (concrete_piece_len wide_info 0) BLOCK_SIZE"
    by (simp add: wide_info_def concrete_piece_len_def last_piece_len_def total_length_def piece_count_def BLOCK_SIZE_def div_ceil_def)
  show "usize_ok wide_seed" using tiny_seed_fits by (simp add: usize_ok_def wide_seed_def)
  show "completed_blocks (ta_sched wide_seed) 0 = None" using tiny_seed_blocks by (simp add: wide_seed_def)
  show "ta_bitfield wide_seed ! 0" "0 < length (ta_bitfield wide_seed)" by (simp_all add: wide_seed_def tiny_seed_def)
  show "ta_manager wide_seed = DefaultManager \<lparr>pm_path = Some [''out''], pm_info = Some tiny_info\<rparr>"
    by (simp add: wide_seed_def tiny_seed_def tiny_torrent_def)
qed simp

end
