(* ===== verification/Engine.thy ===== *)
theory Engine
  imports Snapshot Peer_Messages "HOL-Library.List_Lexorder"
begin

text \<open>
  The engine (\<^verbatim>\<open>engine/actor.rs\<close>, \<^verbatim>\<open>engine/messages.rs\<close>, \<^verbatim>\<open>engine/snapshot.rs\<close>): it owns the
  torrent actors, routes incoming peers to them, registers public torrents with the DHT, and takes and
  restores snapshots of the whole session. A torrent actor in the table is modelled by its state. The
  engine waits for the answers to its requests while the torrent goes on receiving messages, so what a
  torrent has become when it serves the \<open>k\<close>-th request, or that it has died, is a parameter. Built with
  the default feature \<^verbatim>\<open>live\<close>.
\<close>

section \<open>State\<close>

record engine_actor =
  en_torrents :: "(hash \<times> torrent_actor) list"
  en_dht :: bool
  en_storage :: storage_strategy
  en_base :: "rel_path option"
  en_torrent_settings :: torrent_settings
  en_autostart :: bool
  en_sufficient :: nat
  en_upload_slots :: nat
  en_optimistic_rounds :: nat

datatype engine_error =
    TorrentAlreadyExists hash
  | TorrentNotFound hash
  | InvalidTorrentSnapshot snapshot_error
  | InvalidEngineSnapshot string
  | EngineCommunicationFailed string
  | EngineOther string
  | TorrentHandleMissing hash
  | InvalidTorrentSource string string
  | MetaInfoDeserializeError
  | MetaInfoFetchError string
  | NetworkSetupFailed string

datatype engine_effect =
    DhtRegister hash nat
  | DhtUnregister hash
  | StopTorrent hash
  | KillTorrent hash
  | TellStart hash
  | RoutePeer hash peer_id "byte list"
  | DropStream
  | KillDht

record engine_env =
  ee_torrent :: torrent_env
  ee_from_hex :: "string \<Rightarrow> string + hash"
  ee_disk :: disk
  ee_port :: "nat option"
  ee_serve :: "hash \<Rightarrow> nat \<Rightarrow> torrent_actor \<Rightarrow> torrent_actor option"

type_synonym 'a engine_result = "(engine_error + 'a) \<times> engine_actor \<times> engine_effect list"

section \<open>Torrents\<close>

definition discard_failed_torrent :: "hash \<Rightarrow> engine_actor \<Rightarrow> engine_actor \<times> engine_effect list" where
  "discard_failed_torrent h e =
     (e\<lparr>en_torrents := AList.delete h (en_torrents e)\<rparr>,
      (if map_of (en_torrents e) h \<noteq> None \<and> en_dht e then [DhtUnregister h] else []) @ [StopTorrent h])"

definition get_torrent :: "hash \<Rightarrow> engine_actor \<Rightarrow> engine_error + torrent_actor" where
  "get_torrent h e = (case map_of (en_torrents e) h of None \<Rightarrow> Inl (TorrentNotFound h) | Some t \<Rightarrow> Inr t)"

definition remove_torrent :: "hash \<Rightarrow> engine_actor \<Rightarrow> torrent_actor engine_result" where
  "remove_torrent h e =
     (case map_of (en_torrents e) h of
        None \<Rightarrow> (Inl (TorrentNotFound h), e, [])
      | Some t \<Rightarrow> (Inr t, e\<lparr>en_torrents := AList.delete h (en_torrents e)\<rparr>, if en_dht e then [DhtUnregister h] else []))"

datatype create_request = New "tracker meta_info" | Restore bool torrent_snapshot restore_verification

record create_plan =
  cp_metainfo :: "tracker meta_info"
  cp_restore :: "torrent_snapshot option"
  cp_storage :: storage_strategy
  cp_base :: "rel_path option"
  cp_resume :: bool

text \<open>The first part of \<^verbatim>\<open>create_torrent\<close>; the flag of a restore says that the snapshot was validated before.\<close>

definition create_plan_of :: "engine_env \<Rightarrow> engine_actor \<Rightarrow> create_request \<Rightarrow> engine_error + create_plan" where
  "create_plan_of env e req =
     (case req of
        New m \<Rightarrow> Inr \<lparr>cp_metainfo = m, cp_restore = None, cp_storage = en_storage e, cp_base = en_base e, cp_resume = False\<rparr>
      | Restore validated s verification \<Rightarrow>
          (case (if validated then Inr () else snapshot_validate (ee_torrent env) (ee_from_hex env) s) of
             Inl err \<Rightarrow> Inl (InvalidTorrentSnapshot err)
           | Inr _ \<Rightarrow>
               (case reconcile_storage (ee_torrent env) (ee_disk env) verification s of
                  Inl err \<Rightarrow> Inl (InvalidTorrentSnapshot err)
                | Inr s' \<Rightarrow> Inr \<lparr>cp_metainfo = sn_metainfo s', cp_restore = Some s', cp_storage = sn_storage s', cp_base = sn_output_path s',
                     cp_resume = is_transfer_active (sn_state s')\<rparr>)))"

definition plan_args :: "engine_actor \<Rightarrow> create_plan \<Rightarrow> torrent_args" where
  "plan_args e p =
     \<lparr>arg_metainfo = cp_metainfo p, arg_storage = cp_storage p,
      arg_autostart = (if cp_restore p \<noteq> None then False else en_autostart e),
      arg_sufficient = (if cp_restore p \<noteq> None then usize_max else en_sufficient e),
      arg_base = cp_base p, arg_settings = en_torrent_settings e, arg_upload_slots = en_upload_slots e,
      arg_optimistic_rounds = en_optimistic_rounds e\<rparr>"

text \<open>A request to a torrent actor that may have died.\<close>

definition ask :: "engine_env \<Rightarrow> hash \<Rightarrow> nat \<Rightarrow> (torrent_actor \<Rightarrow> torrent_actor) \<Rightarrow> torrent_actor option \<Rightarrow> torrent_actor option" where
  "ask env h k f actor = map_option f (Option.bind actor (ee_serve env h k))"

definition dht_registration :: "engine_env \<Rightarrow> engine_actor \<Rightarrow> create_plan \<Rightarrow> hash \<Rightarrow> engine_effect list" where
  "dht_registration env e p h =
     (if \<not> meta_is_private (cp_metainfo p) \<and> en_dht e then (case ee_port env of Some local_port \<Rightarrow> [DhtRegister h local_port] | None \<Rightarrow> []) else [])"

text \<open>
  The second part: the actor is spawned, restored, entered into the table and registered, resumed and
  asked for its first view; where a request fails the torrent is discarded.
\<close>

definition create_torrent :: "engine_env \<Rightarrow> create_request \<Rightarrow> engine_actor \<Rightarrow> hash engine_result" where
  "create_torrent env req e =
     (case create_plan_of env e req of
        Inl err \<Rightarrow> (Inl err, e, [])
      | Inr p \<Rightarrow>
          (case meta_info_hash (ee_torrent env) (ee_from_hex env) (cp_metainfo p) of
             Inl err \<Rightarrow> (Inl (EngineOther err), e, [])
           | Inr h \<Rightarrow>
               if map_of (en_torrents e) h \<noteq> None then (Inl (TorrentAlreadyExists h), e, [])
               else
                 let spawned = (case torrent_on_start (ee_torrent env) (ee_from_hex env) (dk_files (ee_disk env)) (dk_cache (ee_disk env)) (plan_args e p) of
                       Inl _ \<Rightarrow> None | Inr t \<Rightarrow> Some t);
                     restored = (case cp_restore p of None \<Rightarrow> spawned | Some s \<Rightarrow> ask env h 0 (restore_snapshot s) spawned)
                 in if cp_restore p \<noteq> None \<and> restored = None
                    then (let (e1, es) = discard_failed_torrent h e in (Inl (EngineCommunicationFailed ''restore torrent snapshot''), e1, es))
                    else
                      let registered = dht_registration env e p h;
                          resumed = (if cp_resume p then ask env h 1 (\<lambda>t. fst (set_state (ee_torrent env) Downloading t)) restored else restored);
                          inserted = (\<lambda>t. e\<lparr>en_torrents := AList.update h t (en_torrents e)\<rparr>);
                          discarded = (\<lambda>what. (Inl (EngineCommunicationFailed what), e\<lparr>en_torrents := AList.delete h (en_torrents e)\<rparr>,
                            registered @ (if en_dht e then [DhtUnregister h] else []) @ [StopTorrent h]))
                      in if cp_resume p \<and> resumed = None then discarded ''resume restored torrent''
                         else (case ask env h 2 (\<lambda>t. t) resumed of
                                 None \<Rightarrow> discarded ''initialize torrent live state''
                               | Some t \<Rightarrow> (Inr h, inserted t, registered))))"

definition start_all :: "engine_actor \<Rightarrow> engine_effect list" where
  "start_all e = map (\<lambda>(h, _). TellStart h) (en_torrents e)"

section \<open>Incoming peers\<close>

definition engine_incoming_peer :: "bool \<Rightarrow> bool \<Rightarrow> byte list \<Rightarrow> engine_actor \<Rightarrow> engine_effect list" where
  "engine_incoming_peer in_time has_addr bytes e =
     (if \<not> in_time then []
      else case fst (recv_handshake_message bytes) of
        Inl _ \<Rightarrow> []
      | Inr hs \<Rightarrow>
          if \<not> has_addr then []
          else (case validate_handshake_protocol hs of
             Inl _ \<Rightarrow> []
           | Inr _ \<Rightarrow>
               if map_of (en_torrents e) (hs_info_hash hs) \<noteq> None then [RoutePeer (hs_info_hash hs) (hs_peer_id hs) (hs_reserved hs)]
               else [DropStream]))"

section \<open>Sessions\<close>

definition ENGINE_SNAPSHOT_VERSION :: nat where "ENGINE_SNAPSHOT_VERSION = 2"

record engine_snapshot =
  es_version :: nat
  es_torrents :: "torrent_snapshot list"

definition engine_deserialize :: "engine_snapshot \<Rightarrow> engine_snapshot" where
  "engine_deserialize w = w\<lparr>es_version := (if es_version w = 1 then ENGINE_SNAPSHOT_VERSION else es_version w)\<rparr>"

fun validate_torrents :: "engine_env \<Rightarrow> hash list \<Rightarrow> torrent_snapshot list \<Rightarrow> engine_error + unit" where
  "validate_torrents env seen [] = Inr ()"
| "validate_torrents env seen (s # rest) =
     (case snapshot_validate (ee_torrent env) (ee_from_hex env) s of
        Inl err \<Rightarrow> Inl (InvalidTorrentSnapshot err)
      | Inr _ \<Rightarrow>
          if sn_info_hash s \<in> set seen then Inl (InvalidEngineSnapshot ''snapshot contains duplicate torrent info hashes'')
          else validate_torrents env (sn_info_hash s # seen) rest)"

definition engine_validate :: "engine_env \<Rightarrow> engine_snapshot \<Rightarrow> engine_error + unit" where
  "engine_validate env s =
     (if es_version s \<noteq> ENGINE_SNAPSHOT_VERSION then Inl (InvalidEngineSnapshot ''unsupported version'')
      else validate_torrents env [] (es_torrents s))"

fun rollback :: "hash list \<Rightarrow> engine_actor \<Rightarrow> engine_actor \<times> engine_effect list" where
  "rollback [] e = (e, [])"
| "rollback (h # hs) e =
     (case remove_torrent h e of
        (Inl _, e1, es) \<Rightarrow> (let (e2, es') = rollback hs e1 in (e2, es @ es'))
      | (Inr _, e1, es) \<Rightarrow> (let (e2, es') = rollback hs e1 in (e2, es @ KillTorrent h # es')))"

fun restore_loop :: "engine_env \<Rightarrow> restore_verification \<Rightarrow> hash list \<Rightarrow> torrent_snapshot list \<Rightarrow> engine_actor \<Rightarrow> hash list engine_result" where
  "restore_loop env verification restored [] e = (Inr restored, e, [])"
| "restore_loop env verification restored (s # rest) e =
     (case create_torrent env (Restore True s verification) e of
        (Inr _, e1, es) \<Rightarrow>
          (let (r, e2, es') = restore_loop env verification (restored @ [sn_info_hash s]) rest e1 in (r, e2, es @ es'))
      | (Inl err, e1, es) \<Rightarrow> (let (e2, es') = rollback restored e1 in (Inl err, e2, es @ es')))"

definition restore_engine :: "engine_env \<Rightarrow> engine_snapshot \<Rightarrow> restore_verification \<Rightarrow> engine_actor \<Rightarrow> hash list engine_result" where
  "restore_engine env s verification e =
     (case engine_validate env s of
        Inl err \<Rightarrow> (Inl err, e, [])
      | Inr _ \<Rightarrow>
          if en_torrents e \<noteq> [] then (Inl (InvalidEngineSnapshot ''target engine already manages torrents''), e, [])
          else restore_loop env verification [] (es_torrents s) e)"

text \<open>The torrents are asked for their snapshots at the same time; any failure fails the whole.\<close>

definition ask_snapshot :: "engine_env \<Rightarrow> hash \<times> torrent_actor \<Rightarrow> engine_error + torrent_snapshot" where
  "ask_snapshot env x =
     (case ee_serve env (fst x) 0 (snd x) of
        None \<Rightarrow> Inl (EngineCommunicationFailed ''snapshot torrent'')
      | Some t \<Rightarrow> (case torrent_snapshot_of t of Inl err \<Rightarrow> Inl (InvalidTorrentSnapshot err) | Inr s \<Rightarrow> Inr s))"

definition snapshot_engine :: "engine_env \<Rightarrow> engine_actor \<Rightarrow> engine_error + engine_snapshot" where
  "snapshot_engine env e =
     (case collect_results (ask_snapshot env) (en_torrents e) of
        Inl err \<Rightarrow> Inl err
      | Inr ss \<Rightarrow> Inr \<lparr>es_version = ENGINE_SNAPSHOT_VERSION, es_torrents = sort_key sn_info_hash ss\<rparr>)"

definition engine_on_stop :: "engine_actor \<Rightarrow> engine_actor \<times> engine_effect list" where
  "engine_on_stop e =
     (e\<lparr>en_torrents := [], en_dht := False\<rparr>, map (\<lambda>(h, _). StopTorrent h) (en_torrents e) @ (if en_dht e then [KillDht] else []))"


section \<open>The table and the DHT\<close>

text \<open>The torrents registered with the DHT after a sequence of effects.\<close>

fun dht_after :: "engine_effect list \<Rightarrow> hash set \<Rightarrow> hash set" where
  "dht_after [] D = D"
| "dht_after (DhtRegister h _ # es) D = dht_after es (insert h D)"
| "dht_after (DhtUnregister h # es) D = dht_after es (D - {h})"
| "dht_after (_ # es) D = dht_after es D"

lemma dht_after_append [simp]: "dht_after (es @ es') D = dht_after es' (dht_after es D)"
  by (induction es D rule: dht_after.induct) simp_all

definition keys :: "engine_actor \<Rightarrow> hash list" where
  "keys e = map fst (en_torrents e)"

lemma update_absent: "k \<notin> fst ` set al \<Longrightarrow> AList.update k v al = al @ [(k, v)]"
  by (induction al) auto

lemma keys_iff: "map_of (en_torrents e) h \<noteq> None \<longleftrightarrow> h \<in> set (keys e)"
  by (simp add: keys_def map_of_eq_None_iff)

text \<open>What creating a torrent does to the table and to the DHT, on every path.\<close>

lemma create_torrent_cases:
  assumes "create_torrent env req e = (res, e', es)"
  obtains (failed) err h where "res = Inl err" "e' = e" "dht_after es D = D \<or> h \<notin> set (keys e) \<and> en_dht e \<and> dht_after es D = D - {h}"
      "\<forall>k q. DhtRegister k q \<in> set es \<longrightarrow> (\<exists>p. create_plan_of env e req = Inr p \<and> \<not> meta_is_private (cp_metainfo p) \<and> en_dht e)"
  | (created) h p t where "res = Inr h" "create_plan_of env e req = Inr p"
      "meta_info_hash (ee_torrent env) (ee_from_hex env) (cp_metainfo p) = Inr h" "h \<notin> set (keys e)"
      "e' = e\<lparr>en_torrents := en_torrents e @ [(h, t)]\<rparr>" "es = dht_registration env e p h"
proof -
  let ?R = "\<lambda>p h. dht_registration env e p h"
  have registered: "DhtRegister k q \<in> set (?R p h) \<Longrightarrow> \<not> meta_is_private (cp_metainfo p) \<and> en_dht e" for k q p h
    by (cases "ee_port env"; cases "meta_is_private (cp_metainfo p)"; cases "en_dht e") (simp_all add: dht_registration_def)
  have reg: "dht_after (?R p h) D \<subseteq> insert h D \<and> D \<subseteq> dht_after (?R p h) D \<and> (\<not> en_dht e \<longrightarrow> dht_after (?R p h) D = D)" for p h
    by (auto simp: dht_registration_def split: option.split)
  show thesis
  proof (cases "create_plan_of env e req")
    case (Inl err)
    then show ?thesis using assms by (intro failed [of err]) (simp_all add: create_torrent_def)
  next
    case (Inr p)
    show ?thesis
    proof (cases "meta_info_hash (ee_torrent env) (ee_from_hex env) (cp_metainfo p)")
      case (Inl err)
      then show ?thesis using assms Inr by (intro failed [of "EngineOther err"]) (simp_all add: create_torrent_def)
    next
      case h: (Inr h)
      show ?thesis
      proof (cases "map_of (en_torrents e) h = None")
        case False
        then show ?thesis using assms Inr h by (intro failed [of "TorrentAlreadyExists h"]) (auto simp: create_torrent_def)
      next
        case True
        then have fresh: "h \<notin> set (keys e)" using keys_iff by blast
        then have del: "AList.delete h (en_torrents e) = en_torrents e" and upd: "\<And>t. AList.update h t (en_torrents e) = en_torrents e @ [(h, t)]"
          by (simp_all add: keys_def delete_idem update_absent)
        consider err where "res = Inl err" "e' = e" "es = [StopTorrent h] \<or> es = ?R p h @ (if en_dht e then [DhtUnregister h] else []) @ [StopTorrent h]"
          | t where "res = Inr h" "e' = e\<lparr>en_torrents := en_torrents e @ [(h, t)]\<rparr>" "es = ?R p h"
          using assms Inr h True
          by (auto simp: create_torrent_def Let_def discard_failed_torrent_def del upd split: option.splits sum.splits if_splits)
        then show ?thesis
        proof cases
          case (1 err)
          show ?thesis
          proof (rule failed [OF 1(1,2)])
            show "dht_after es D = D \<or> h \<notin> set (keys e) \<and> en_dht e \<and> dht_after es D = D - {h}"
              using 1(3) fresh reg [of p h] by (cases "en_dht e") auto
            have "\<not> meta_is_private (cp_metainfo p) \<and> en_dht e" if "DhtRegister k q \<in> set es" for k q
              using 1(3) that registered [of k q p h] by (auto split: if_splits)
            then show "\<forall>k q. DhtRegister k q \<in> set es \<longrightarrow> (\<exists>p. create_plan_of env e req = Inr p \<and> \<not> meta_is_private (cp_metainfo p) \<and> en_dht e)"
              using Inr by auto
          qed
        next
          case (2 t)
          then show ?thesis using created Inr h fresh by blast
        qed
      qed
    qed
  qed
qed


definition engine_ok :: "engine_actor \<Rightarrow> hash set \<Rightarrow> bool" where
  "engine_ok e D = (distinct (keys e) \<and> D \<subseteq> set (keys e) \<and> (\<not> en_dht e \<longrightarrow> D = {}))"

lemma registration_after:
  "dht_after (dht_registration env e p h) D =
     (if \<not> meta_is_private (cp_metainfo p) \<and> en_dht e \<and> ee_port env \<noteq> None then insert h D else D)"
  by (auto simp: dht_registration_def split: option.split)

lemma engine_ok_create:
  assumes "engine_ok e D" and "create_torrent env req e = (res, e', es)"
  shows "engine_ok e' (dht_after es D)"
  using assms(2)
proof (cases rule: create_torrent_cases [where D = D])
  case (failed err h)
  then show ?thesis using assms(1) by (auto simp: engine_ok_def)
next
  case (created h p t)
  then show ?thesis using assms(1) by (auto simp: engine_ok_def keys_def registration_after)
qed

lemma remove_torrent_cases:
  assumes "remove_torrent h e = (res, e', es)"
  shows "if h \<in> set (keys e) then (\<exists>t. res = Inr t) \<and> e' = e\<lparr>en_torrents := AList.delete h (en_torrents e)\<rparr> \<and> es = (if en_dht e then [DhtUnregister h] else [])
    else res = Inl (TorrentNotFound h) \<and> e' = e \<and> es = []"
  using assms keys_iff [of e h] by (auto simp: remove_torrent_def split: option.splits)

lemma keys_delete: "keys (e\<lparr>en_torrents := AList.delete h (en_torrents e)\<rparr>) = filter (\<lambda>k. k \<noteq> h) (keys e)"
proof -
  have "map fst (AList.delete h al) = filter (\<lambda>k. k \<noteq> h) (map fst al)" for al :: "(hash \<times> torrent_actor) list"
    by (induction al) auto
  then show ?thesis by (simp add: keys_def)
qed

lemma engine_ok_remove:
  assumes "engine_ok e D" and "remove_torrent h e = (res, e', es)"
  shows "engine_ok e' (dht_after es D)"
  using assms(1) remove_torrent_cases [OF assms(2)]
  by (cases "h \<in> set (keys e)") (auto simp: engine_ok_def keys_delete)

lemma rollback_result:
  "engine_ok e D \<Longrightarrow> rollback hs e = (e', es) \<Longrightarrow>
     engine_ok e' (dht_after es D) \<and> keys e' = filter (\<lambda>k. k \<notin> set hs) (keys e) \<and> (\<exists>ts. e' = e\<lparr>en_torrents := ts\<rparr>)"
proof (induction hs arbitrary: e e' D es)
  case Nil
  then show ?case by (auto intro: exI [of _ "en_torrents e"])
next
  case (Cons h hs)
  obtain res e1 es1 where r: "remove_torrent h e = (res, e1, es1)" by (cases "remove_torrent h e")
  obtain e2 es2 where b: "rollback hs e1 = (e2, es2)" by force
  have ok1: "engine_ok e1 (dht_after es1 D)" by (rule engine_ok_remove [OF Cons.prems(1) r])
  note IH = Cons.IH [OF ok1 b]
  have k1: "keys e1 = filter (\<lambda>k. k \<noteq> h) (keys e)" "\<exists>ts. e1 = e\<lparr>en_torrents := ts\<rparr>"
  proof -
    have "h \<notin> set (keys e) \<Longrightarrow> filter (\<lambda>k. k \<noteq> h) (keys e) = keys e" by (auto simp: filter_id_conv)
    then show "keys e1 = filter (\<lambda>k. k \<noteq> h) (keys e)" "\<exists>ts. e1 = e\<lparr>en_torrents := ts\<rparr>"
      using remove_torrent_cases [OF r] by (auto simp: keys_delete split: if_splits intro: exI [of _ "en_torrents e"])
  qed
  have eq: "e' = e2" "dht_after es D = dht_after es2 (dht_after es1 D)"
    using Cons.prems(2) r b by (cases res; auto)+
  show ?case using IH k1 by (auto simp: eq conj_commute)
qed

lemma reconcile_metainfo: "reconcile_storage env d v s = Inr s' \<Longrightarrow> sn_metainfo s' = sn_metainfo s"
  by (auto simp: reconcile_storage_def Let_def split: option.splits sum.splits if_splits)

lemma restored_hash:
  assumes "snapshot_validate (ee_torrent env) (ee_from_hex env) s = Inr ()" and "create_plan_of env e (Restore b s v) = Inr p"
    and "meta_info_hash (ee_torrent env) (ee_from_hex env) (cp_metainfo p) = Inr h"
  shows "h = sn_info_hash s"
proof -
  have "cp_metainfo p = sn_metainfo s"
    using assms(2) reconcile_metainfo by (auto simp: create_plan_of_def split: sum.splits if_splits)
  moreover have "meta_info_hash (ee_torrent env) (ee_from_hex env) (sn_metainfo s) = Inr (sn_info_hash s)"
    using assms(1) unfolding validate_iff by blast
  ultimately show ?thesis using assms(3) by simp
qed

lemma restore_loop_result:
  assumes "engine_ok e D" and "\<forall>s \<in> set ss. snapshot_validate (ee_torrent env) (ee_from_hex env) s = Inr ()"
    and "restore_loop env v restored ss e = (res, e', es)"
  shows "engine_ok e' (dht_after es D) \<and> (\<exists>ts. e' = e\<lparr>en_torrents := ts\<rparr>) \<and>
    (case res of
       Inl _ \<Rightarrow> keys e' = filter (\<lambda>k. k \<notin> set restored) (keys e)
     | Inr hs \<Rightarrow> hs = restored @ map sn_info_hash ss \<and> keys e' = keys e @ map sn_info_hash ss)"
  using assms
proof (induction ss arbitrary: e D restored es)
  case Nil
  then show ?case by (auto intro: exI [of _ "en_torrents e"])
next
  case (Cons s ss)
  obtain r1 e1 es1 where c: "create_torrent env (Restore True s v) e = (r1, e1, es1)" by (cases "create_torrent env (Restore True s v) e")
  have ok1: "engine_ok e1 (dht_after es1 D)" by (rule engine_ok_create [OF Cons.prems(1) c])
  from c show ?case
  proof (cases rule: create_torrent_cases [where D = D])
    case (failed err h)
    obtain e2 es2 where b: "rollback restored e1 = (e2, es2)" by force
    have "res = Inl err" "e' = e2" "es = es1 @ es2" using Cons.prems(3) c failed(1) b by simp_all
    then show ?thesis using rollback_result [OF ok1 b] failed(2) by simp
  next
    case (created h p t)
    have h: "h = sn_info_hash s" using restored_hash [OF _ created(2,3)] Cons.prems(2) by simp
    obtain r2 e2 es2 where l: "restore_loop env v (restored @ [sn_info_hash s]) ss e1 = (r2, e2, es2)"
      by (cases "restore_loop env v (restored @ [sn_info_hash s]) ss e1")
    have eqs: "res = r2" "e' = e2" "es = es1 @ es2" using Cons.prems(3) c created(1) l by simp_all
    have "\<forall>s \<in> set ss. snapshot_validate (ee_torrent env) (ee_from_hex env) s = Inr ()" using Cons.prems(2) by simp
    note IH = Cons.IH [OF ok1 this, of "restored @ [sn_info_hash s]" es2]
    have keys1: "keys e1 = keys e @ [sn_info_hash s]" "\<exists>ts. e1 = e\<lparr>en_torrents := ts\<rparr>"
      using created(5) h by (auto simp: keys_def)
    have "filter (\<lambda>k. k \<notin> set (restored @ [sn_info_hash s])) (keys e) = filter (\<lambda>k. k \<notin> set restored) (keys e)"
      using created(4) h by (intro filter_cong) auto
    then show ?thesis using IH l eqs keys1 by (cases r2) (auto simp: eqs)
  qed
qed

lemma restore_engine_result:
  assumes "en_torrents e = []" and "restore_engine env s v e = (res, e', es)"
  shows "engine_ok e' (dht_after es {}) \<and>
    (case res of Inl _ \<Rightarrow> e' = e | Inr hs \<Rightarrow> hs = map sn_info_hash (es_torrents s) \<and> map fst (en_torrents e') = hs)"
proof -
  have ok: "engine_ok e {}" using assms(1) by (simp add: engine_ok_def keys_def)
  show ?thesis
  proof (cases "engine_validate env s")
    case (Inl err)
    then show ?thesis using assms ok by (auto simp: restore_engine_def)
  next
    case (Inr u)
    have "validate_torrents env seen ss = Inr () \<Longrightarrow> \<forall>s \<in> set ss. snapshot_validate (ee_torrent env) (ee_from_hex env) s = Inr ()" for seen ss
      by (induction ss arbitrary: seen) (auto split: sum.splits if_splits)
    then have v: "\<forall>s \<in> set (es_torrents s). snapshot_validate (ee_torrent env) (ee_from_hex env) s = Inr ()"
      using Inr by (auto simp: engine_validate_def split: if_splits)
    have "restore_loop env v [] (es_torrents s) e = (res, e', es)" using assms Inr by (simp add: restore_engine_def)
    from restore_loop_result [OF ok v this] assms(1) show ?thesis
      by (cases res) (auto simp: keys_def)
  qed
qed

text \<open>
  C25: restoring a session is all or nothing. From an engine without torrents, a restore either enters
  exactly the torrents of the snapshot, in its order, or fails and leaves the engine as it was: every
  torrent that had been restored before the failure is removed again, and none of them stays registered
  with the DHT.
\<close>

theorem restore_engine_atomic:
  assumes "en_torrents e = []" and "restore_engine env s v e = (res, e', es)"
  shows "case res of
      Inl _ \<Rightarrow> e' = e \<and> dht_after es {} = {}
    | Inr hs \<Rightarrow> hs = map sn_info_hash (es_torrents s) \<and> map fst (en_torrents e') = hs \<and> distinct hs \<and> dht_after es {} \<subseteq> set hs"
proof (cases res)
  case (Inl err)
  then show ?thesis using restore_engine_result [OF assms] assms(1) by (auto simp: engine_ok_def keys_def)
next
  case (Inr hs)
  note r = restore_engine_result [OF assms, unfolded Inr sum.case engine_ok_def]
  then have hs: "hs = map sn_info_hash (es_torrents s)" "keys e' = hs" by (simp_all add: keys_def)
  have "distinct (keys e')" "dht_after es {} \<subseteq> set (keys e')" using r by blast+
  then show ?thesis using hs unfolding hs(2) Inr keys_def by simp
qed

section \<open>Every history of an engine\<close>

inductive engine_reachable :: "engine_actor \<Rightarrow> hash set \<Rightarrow> bool" where
  started: "en_torrents e = [] \<Longrightarrow> engine_reachable e {}"
| created: "engine_reachable e D \<Longrightarrow> create_torrent env req e = (res, e', es) \<Longrightarrow> engine_reachable e' (dht_after es D)"
| removed: "engine_reachable e D \<Longrightarrow> remove_torrent h e = (res, e', es) \<Longrightarrow> engine_reachable e' (dht_after es D)"
| restored: "engine_reachable e D \<Longrightarrow> restore_engine env s v e = (res, e', es) \<Longrightarrow> engine_reachable e' (dht_after es D)"
| progress: "engine_reachable e D \<Longrightarrow> map fst ts = map fst (en_torrents e) \<Longrightarrow> engine_reachable (e\<lparr>en_torrents := ts\<rparr>) D"

lemma engine_reachable_ok: "engine_reachable e D \<Longrightarrow> engine_ok e D"
proof (induction rule: engine_reachable.induct)
  case (restored e D env s v res e' es)
  show ?case
  proof (cases "engine_validate env s = Inr () \<and> en_torrents e = []")
    case True
    then have "D = {}" using restored.IH by (simp add: engine_ok_def keys_def)
    then show ?thesis
      using restore_engine_result restored.hyps(2) True by blast
  next
    case False
    then show ?thesis using restored by (auto simp: restore_engine_def split: sum.splits if_splits)
  qed
next
  case (created e D env req res e' es)
  then show ?case using engine_ok_create by blast
next
  case (removed e D h res e' es)
  then show ?case using engine_ok_remove by blast
next
  case (progress e D ts)
  then show ?case by (simp add: engine_ok_def keys_def)
qed (simp add: engine_ok_def keys_def)




section \<open>Restored data\<close>

lemma prestart_verified:
  assumes "verified sha1 t" and "info_dict t = Some info" and "ta_storage t = InFile \<Longrightarrow> \<exists>m. ta_manager t = DefaultManager m \<and> pm_info m = Some info"
  shows "verified sha1 (fst (manager_pre_start env info (t\<lparr>ta_ready_hooks := 0\<rparr>)))"
proof -
  let ?t = "fst (manager_pre_start env info (t\<lparr>ta_ready_hooks := 0\<rparr>))"
  have f: "ta_storage ?t = ta_storage t" "ta_bitfield ?t = ta_bitfield t" "ta_cache ?t = ta_cache t" "ta_files ?t = ta_files t" "info_dict ?t = info_dict t"
    by (auto simp: manager_pre_start_def info_dict_def split: manager_proxy.splits sum.splits meta_info.splits)
  have "ta_storage t = InFile \<Longrightarrow> ta_manager ?t = ta_manager t"
    using assms(3) by (auto simp: manager_pre_start_def pre_start_def split: option.splits sum.splits)
  then have "piece_data ?t i = piece_data t i" for i
    unfolding piece_data_def get_piece_path_def f by (cases "ta_storage t") simp_all
  then show ?thesis using assms(1) f by (simp add: verified_def piece_valid_def)
qed

lemma start_bitfield:
  assumes "torrent_inv t"
  shows "ta_bitfield (fst (torrent_start env t)) = ta_bitfield t"
proof -
  have "ta_bitfield (fst (begin_transfer env u)) = ta_bitfield u" if "torrent_inv u" for u
    using routine_begin(1) [of env] that by (simp add: routine_def quiet_def same_content_def)
  moreover have "torrent_inv (fst (manager_pre_start env info (t\<lparr>ta_ready_hooks := 0\<rparr>)))"
    "ta_bitfield (fst (manager_pre_start env info (t\<lparr>ta_ready_hooks := 0\<rparr>))) = ta_bitfield t" for info
    using assms by (auto simp: manager_pre_start_def torrent_inv_def info_ok_def info_dict_def split: manager_proxy.splits sum.splits meta_info.splits)
  ultimately show ?thesis
    by (simp add: torrent_start_def send_ready_hooks_def Let_def split_beta transition_state_eq split: option.split)
qed

lemma start_verified:
  assumes "torrent_inv t" and "verified sha1 t" and "ta_storage t = InFile \<Longrightarrow> \<exists>m. ta_manager t = DefaultManager m \<and> pm_info m = info_dict t"
  shows "verified sha1 (fst (torrent_start env t))"
proof -
  let ?h = "t\<lparr>ta_ready_hooks := 0\<rparr>"
  have state: "verified sha1 (transition_state st u) = verified sha1 u" for st u
    unfolding transition_state_eq by (rule same_content_data(3) [OF same_content_updates(3)])
  have "same_content t ?h" by (simp add: same_content_def)
  then have h: "verified sha1 ?h" using assms(2) same_content_data(3) by blast
  show ?thesis
  proof (cases "can_start (ta_state t)")
    case False
    then show ?thesis using assms(2) by (simp add: torrent_start_def)
  next
    case start: True
    have idict: "info_dict ?h = info_dict t" by (simp add: info_dict_def split: meta_info.split)
    show ?thesis
    proof (cases "info_dict t")
      case None
      then show ?thesis using start h state idict by (simp add: torrent_start_def send_ready_hooks_def)
    next
      case (Some info)
      let ?p = "fst (manager_pre_start env info ?h)"
      have p: "verified sha1 ?p" using prestart_verified [OF assms(2) Some] assms(3) Some by simp
      have "torrent_inv ?p"
      proof -
        have "ta_sched ?p = ta_sched t" "info_dict ?p = info_dict t"
          by (auto simp: manager_pre_start_def info_dict_def split: manager_proxy.splits sum.splits meta_info.splits)
        then show ?thesis using assms(1) by (simp add: torrent_inv_def info_ok_def)
      qed
      then have "same_content ?p (fst (begin_transfer env ?p))" using routine_begin(1) [of env] by (simp add: routine_def quiet_def)
      then have "verified sha1 (fst (begin_transfer env ?p))" using p same_content_data(3) by blast
      then show ?thesis using start Some idict p state by (simp add: torrent_start_def send_ready_hooks_def Let_def split_beta)
    qed
  qed
qed


text \<open>A network in which the torrents do nothing else while they are being restored.\<close>

definition undisturbed :: "engine_env \<Rightarrow> bool" where
  "undisturbed env = (\<forall>h k t. ee_serve env h k t = Some t)"

lemma restored_entry:
  assumes "create_torrent env (Restore False s v) e = (Inr h, e', es)" and "undisturbed env"
  obtains s' t0 where "snapshot_validate (ee_torrent env) (ee_from_hex env) s = Inr ()" "reconcile_storage (ee_torrent env) (ee_disk env) v s = Inr s'"
    "torrent_on_start (ee_torrent env) (ee_from_hex env) (dk_files (ee_disk env)) (dk_cache (ee_disk env)) (plan_args e
       \<lparr>cp_metainfo = sn_metainfo s', cp_restore = Some s', cp_storage = sn_storage s', cp_base = sn_output_path s', cp_resume = is_transfer_active (sn_state s')\<rparr>) = Inr t0"
    "map_of (en_torrents e') h = Some (if is_transfer_active (sn_state s') then fst (torrent_start (ee_torrent env) (restore_snapshot s' t0)) else restore_snapshot s' t0)"
    "h = sn_info_hash s"
proof -
  obtain p where p: "create_plan_of env e (Restore False s v) = Inr p"
    using assms(1) by (auto simp: create_torrent_def split: sum.splits)
  then obtain s' where s': "snapshot_validate (ee_torrent env) (ee_from_hex env) s = Inr ()" "reconcile_storage (ee_torrent env) (ee_disk env) v s = Inr s'"
    "p = \<lparr>cp_metainfo = sn_metainfo s', cp_restore = Some s', cp_storage = sn_storage s', cp_base = sn_output_path s', cp_resume = is_transfer_active (sn_state s')\<rparr>"
    by (auto simp: create_plan_of_def split: sum.splits)
  obtain k where k: "meta_info_hash (ee_torrent env) (ee_from_hex env) (cp_metainfo p) = Inr k"
    using assms(1) p by (auto simp: create_torrent_def split: sum.splits)
  let ?start = "torrent_on_start (ee_torrent env) (ee_from_hex env) (dk_files (ee_disk env)) (dk_cache (ee_disk env)) (plan_args e p)"
  have fresh: "map_of (en_torrents e) k = None"
    using assms(1) p k by (cases "map_of (en_torrents e) k") (simp_all add: create_torrent_def)
  obtain t0 where t0: "?start = Inr t0"
    using assms(1) p k fresh s'(3) by (cases ?start) (simp_all add: create_torrent_def Let_def ask_def discard_failed_torrent_def)
  have serve: "ee_serve env h k t = Some t" for h k t using assms(2) by (simp add: undisturbed_def)
  have "h = k" "e' = e\<lparr>en_torrents := AList.update k (if cp_resume p then fst (torrent_start (ee_torrent env) (restore_snapshot s' t0)) else restore_snapshot s' t0) (en_torrents e)\<rparr>"
    using assms(1) p k fresh t0 s'(3) by (auto simp: create_torrent_def Let_def ask_def serve set_state_def split: if_splits)
  then have "map_of (en_torrents e') h = Some (if is_transfer_active (sn_state s') then fst (torrent_start (ee_torrent env) (restore_snapshot s' t0)) else restore_snapshot s' t0)"
    by (simp add: update_conv' s'(3))
  moreover have "h = sn_info_hash s" using restored_hash [OF s'(1) p k] \<open>h = k\<close> by simp
  ultimately show thesis using that s'(1,2) t0 unfolding s'(3) by blast
qed



section \<open>Routing\<close>

text \<open>
  Incoming connections reach their torrent. The handshake of a peer is routed exactly when it is read in
  time, speaks the protocol and names a torrent of the engine: to that torrent, with the identifier and
  the extension bits the peer sent, whatever follows the handshake on the stream; for an unknown torrent
  the connection is dropped.
\<close>

theorem incoming_peer_routed:
  assumes "handshake_ok hs"
  shows "engine_incoming_peer in_time has_addr (handshake_to_bytes hs @ rest) e =
    (if in_time \<and> has_addr \<and> hs_protocol hs = MAGIC_STRING
     then if hs_info_hash hs \<in> set (map fst (en_torrents e)) then [RoutePeer (hs_info_hash hs) (hs_peer_id hs) (hs_reserved hs)] else [DropStream]
     else [])"
proof -
  have "fst (recv_handshake_message (handshake_to_bytes hs @ rest)) = Inr hs" using handshake_roundtrip [OF assms] by simp
  then show ?thesis
    using keys_iff [of e "hs_info_hash hs"]
    by (simp add: engine_incoming_peer_def validate_handshake_protocol_def keys_def)
qed

section \<open>A concrete session\<close>

definition tiny_engine :: engine_actor where
  "tiny_engine = \<lparr>en_torrents = [], en_dht = True, en_storage = InFile, en_base = Some [''out''], en_torrent_settings = ta_settings tiny_torrent,
     en_autostart = True, en_sufficient = 1, en_upload_slots = 4, en_optimistic_rounds = 3\<rparr>"

definition tiny_engine_env :: engine_env where
  "tiny_engine_env = \<lparr>ee_torrent = tiny_env, ee_from_hex = no_hex, ee_disk = tiny_disk, ee_port = Some 6881, ee_serve = (\<lambda>_ _ t. Some t)\<rparr>"

lemma tiny_engine_calm: "undisturbed tiny_engine_env"
  by (simp add: undisturbed_def tiny_engine_env_def)

lemma tiny_create: "\<exists>e' es. create_torrent tiny_engine_env (Restore False tiny_snapshot FullVerification) tiny_engine = (Inr [7], e', es)"
proof -
  define p where "p = \<lparr>cp_metainfo = sn_metainfo tiny_snapshot, cp_restore = Some tiny_snapshot, cp_storage = sn_storage tiny_snapshot,
    cp_base = sn_output_path tiny_snapshot, cp_resume = is_transfer_active (sn_state tiny_snapshot)\<rparr>"
  have plan: "create_plan_of tiny_engine_env tiny_engine (Restore False tiny_snapshot FullVerification) = Inr p"
    using tiny_snapshot_valid [of no_hex] tiny_reconciled by (simp add: create_plan_of_def tiny_engine_env_def p_def)
  have hash: "meta_info_hash (ee_torrent tiny_engine_env) (ee_from_hex tiny_engine_env) (cp_metainfo p) = Inr [7]"
    by (simp add: p_def tiny_engine_env_def tiny_env_def meta_info_hash_def tiny_snapshot_def)
  have r: "cp_restore p = Some tiny_snapshot" and s: "sn_storage tiny_snapshot = InFile" and e: "en_torrents tiny_engine = []"
    and serve: "ee_serve tiny_engine_env = (\<lambda>_ _ t. Some t)"
    by (simp_all add: p_def tiny_snapshot_def tiny_engine_def tiny_engine_env_def)
  obtain t where "torrent_on_start (ee_torrent tiny_engine_env) (ee_from_hex tiny_engine_env) (dk_files (ee_disk tiny_engine_env))
      (dk_cache (ee_disk tiny_engine_env)) (plan_args tiny_engine p) = Inr t"
    using hash s by (auto simp: torrent_on_start_def plan_args_def p_def)
  with plan hash r serve e show ?thesis
    by (cases "cp_resume p") (simp_all add: create_torrent_def ask_def)
qed


theorem restore_engine_atomic_witness:
  "fst (snd (restore_engine tiny_engine_env \<lparr>es_version = 3, es_torrents = []\<rparr> FullVerification tiny_engine)) = tiny_engine"
proof -
  obtain res e' es where r: "restore_engine tiny_engine_env \<lparr>es_version = 3, es_torrents = []\<rparr> FullVerification tiny_engine = (res, e', es)"
    by (cases "restore_engine tiny_engine_env \<lparr>es_version = 3, es_torrents = []\<rparr> FullVerification tiny_engine")
  moreover have "\<exists>err. res = Inl err"
    using r by (auto simp: restore_engine_def engine_validate_def ENGINE_SNAPSHOT_VERSION_def)
  moreover have "en_torrents tiny_engine = []" by (simp add: tiny_engine_def)
  ultimately show ?thesis using restore_engine_atomic [of tiny_engine] by fastforce
qed


theorem incoming_peer_routed_witness:
  "engine_incoming_peer True True (handshake_to_bytes (handshake_new (replicate 20 7) (replicate 20 9)) @ [1]) tiny_engine = [DropStream]"
proof -
  have "handshake_ok (handshake_new (replicate 20 7) (replicate 20 9))"
    by (simp add: handshake_ok_def handshake_new_def MAGIC_STRING_def)
  from incoming_peer_routed [OF this] show ?thesis by (simp add: handshake_new_def tiny_engine_def)
qed

end
