(* ===== verification/Engine_Source.thy ===== *)
theory Engine_Source
  imports Engine
begin

text \<open>
  Where torrents come from, \<^verbatim>\<open>engine/source.rs\<close>: magnet links, torrent files, their bytes, and files fetched from
  the web. The magnet, bencode, URL and HTTP crates and the file system are parameters; a response is its
  declared length and the sequence of results of \<^verbatim>\<open>chunk\<close>.
\<close>

section \<open>Sources\<close>

definition MAX_TORRENT_FILE_SIZE :: nat where "MAX_TORRENT_FILE_SIZE = 10 * 1024 * 1024"

datatype torrent_source =
    MagnetSource string
  | TorrentFilePath string
  | TorrentFileBytes "byte list"
  | RemoteTorrentUrl string

record http_reply =
  hr_content_length :: "nat option"
  hr_chunks :: "(string + byte list) list"

record source_env =
  sv_magnet :: "string \<Rightarrow> string + tracker magnet_uri"
  sv_bencode :: "byte list \<Rightarrow> string + tracker torrent_file"
  sv_read :: "string \<Rightarrow> string + byte list"
  sv_url_scheme :: "string \<Rightarrow> string + string"
  sv_get :: "string \<Rightarrow> string + http_reply"

definition metainfo_from_magnet :: "source_env \<Rightarrow> string \<Rightarrow> engine_error + tracker meta_info" where
  "metainfo_from_magnet env uri =
     (if take 7 uri \<noteq> ''magnet:'' then Inl (InvalidTorrentSource ''magnet URI'' ''expected a source beginning with `magnet:`'')
      else case sv_magnet env uri of
        Inl err \<Rightarrow> Inl (InvalidTorrentSource ''magnet URI'' (''failed to parse magnet URI: '' @ err))
      | Inr m \<Rightarrow> Inr (MMagnet m))"

definition metainfo_from_bytes :: "source_env \<Rightarrow> byte list \<Rightarrow> engine_error + tracker meta_info" where
  "metainfo_from_bytes env bytes = (case sv_bencode env bytes of Inl _ \<Rightarrow> Inl MetaInfoDeserializeError | Inr f \<Rightarrow> Inr (MTorrent f))"

definition metainfo_from_path :: "source_env \<Rightarrow> string \<Rightarrow> engine_error + tracker meta_info" where
  "metainfo_from_path env path =
     (case sv_read env path of
        Inl _ \<Rightarrow> Inl MetaInfoDeserializeError
      | Inr bytes \<Rightarrow> (case sv_bencode env bytes of Inl _ \<Rightarrow> Inl MetaInfoDeserializeError | Inr f \<Rightarrow> Inr (MTorrent f)))"

definition validate_remote_torrent_url :: "source_env \<Rightarrow> string \<Rightarrow> engine_error + unit" where
  "validate_remote_torrent_url env url =
     (case sv_url_scheme env url of
        Inl err \<Rightarrow> Inl (InvalidTorrentSource ''remote URL'' err)
      | Inr scheme \<Rightarrow>
          if scheme = ''http'' \<or> scheme = ''https'' then Inr ()
          else Inl (InvalidTorrentSource ''remote URL'' (''expected http or https URL, got '' @ scheme)))"

fun receive_chunks :: "byte list \<Rightarrow> (string + byte list) list \<Rightarrow> engine_error + byte list" where
  "receive_chunks received [] = Inr received"
| "receive_chunks received (Inl err # _) = Inl (MetaInfoFetchError err)"
| "receive_chunks received (Inr chunk # rest) =
     (if length received + length chunk > MAX_TORRENT_FILE_SIZE
      then Inl (InvalidTorrentSource ''remote URL'' ''torrent file exceeds maximum size'')
      else receive_chunks (received @ chunk) rest)"

definition metainfo_from_remote_url :: "source_env \<Rightarrow> string \<Rightarrow> engine_error + tracker meta_info" where
  "metainfo_from_remote_url env url =
     (case validate_remote_torrent_url env url of
        Inl err \<Rightarrow> Inl err
      | Inr _ \<Rightarrow>
          (case sv_get env url of
             Inl err \<Rightarrow> Inl (MetaInfoFetchError err)
           | Inr response \<Rightarrow>
               if (case hr_content_length response of None \<Rightarrow> 0 | Some n \<Rightarrow> n) > MAX_TORRENT_FILE_SIZE
               then Inl (InvalidTorrentSource ''remote URL'' ''torrent file too large'')
               else (case receive_chunks [] (hr_chunks response) of
                       Inl err \<Rightarrow> Inl err
                     | Inr bytes \<Rightarrow> metainfo_from_bytes env bytes)))"

definition into_metainfo :: "source_env \<Rightarrow> torrent_source \<Rightarrow> engine_error + tracker meta_info" where
  "into_metainfo env source =
     (case source of
        MagnetSource uri \<Rightarrow> metainfo_from_magnet env uri
      | TorrentFilePath path \<Rightarrow> metainfo_from_path env path
      | TorrentFileBytes bytes \<Rightarrow> metainfo_from_bytes env bytes
      | RemoteTorrentUrl url \<Rightarrow> metainfo_from_remote_url env url)"

section \<open>Fetched files are bounded\<close>

lemma receive_chunks_iff:
  "receive_chunks received results = Inr bytes \<longleftrightarrow>
     (\<exists>cs. results = map Inr cs \<and> bytes = received @ concat cs \<and> (cs \<noteq> [] \<longrightarrow> length bytes \<le> MAX_TORRENT_FILE_SIZE))"
proof (induction received results rule: receive_chunks.induct)
  case (3 received chunk rest)
  show ?case
  proof (cases "length received + length chunk > MAX_TORRENT_FILE_SIZE")
    case True
    then show ?thesis by (auto simp: map_eq_Cons_conv Cons_eq_map_conv)
  next
    case False
    have "(\<exists>cs. rest = map Inr cs \<and> bytes = (received @ chunk) @ concat cs \<and> (cs \<noteq> [] \<longrightarrow> length bytes \<le> MAX_TORRENT_FILE_SIZE)) \<longleftrightarrow>
        (\<exists>cs. Inr chunk # rest = map Inr cs \<and> bytes = received @ concat cs \<and> (cs \<noteq> [] \<longrightarrow> length bytes \<le> MAX_TORRENT_FILE_SIZE))"
      (is "?L \<longleftrightarrow> ?R")
    proof
      assume ?L
      then obtain cs where c: "rest = map Inr cs" "bytes = received @ chunk @ concat cs" "cs \<noteq> [] \<longrightarrow> length bytes \<le> MAX_TORRENT_FILE_SIZE" by auto
      then show ?R using False by (intro exI [of _ "chunk # cs"]) (cases "cs = []"; simp)
    next
      assume ?R
      then show ?L by (auto simp: Cons_eq_map_conv)
    qed
    then show ?thesis using 3 False by simp
  qed
qed auto

lemma receive_all_iff:
  "receive_chunks [] results = Inr bytes \<longleftrightarrow> (\<exists>cs. results = map Inr cs \<and> bytes = concat cs \<and> length (concat cs) \<le> MAX_TORRENT_FILE_SIZE)"
proof -
  have "(cs \<noteq> [] \<longrightarrow> length (concat cs) \<le> MAX_TORRENT_FILE_SIZE) = (length (concat cs) \<le> MAX_TORRENT_FILE_SIZE)" for cs :: "byte list list"
    by (cases cs) simp_all
  then show ?thesis unfolding receive_chunks_iff by auto
qed

lemma receive_chunks_exceeded:
  assumes "MAX_TORRENT_FILE_SIZE < length (received @ concat cs)" and "length received \<le> MAX_TORRENT_FILE_SIZE"
  shows "receive_chunks received (map Inr cs @ rest) = Inl (InvalidTorrentSource ''remote URL'' ''torrent file exceeds maximum size'')"
  using assms
proof (induction cs arbitrary: received)
  case (Cons c cs)
  show ?case
  proof (cases "length received + length c > MAX_TORRENT_FILE_SIZE")
    case False
    then show ?thesis using Cons.prems Cons.IH [of "received @ c"] by simp
  qed simp
qed simp

text \<open>
  C31: a torrent file fetched from the web is accepted exactly when the address is an http or https URL, the
  declared length and the whole body stay within ten mebibytes, every chunk arrives, and the concatenation
  of the chunks is a torrent file. A server that goes on sending is cut off at the first chunk that
  exceeds the limit, whatever would follow.
\<close>

theorem remote_source_bounded:
  "(into_metainfo env (RemoteTorrentUrl url) = Inr m \<longleftrightarrow>
     (\<exists>scheme response cs f. sv_url_scheme env url = Inr scheme \<and> scheme \<in> {''http'', ''https''} \<and> sv_get env url = Inr response \<and>
        (\<forall>n \<in> set_option (hr_content_length response). n \<le> MAX_TORRENT_FILE_SIZE) \<and>
        hr_chunks response = map Inr cs \<and> length (concat cs) \<le> MAX_TORRENT_FILE_SIZE \<and>
        sv_bencode env (concat cs) = Inr f \<and> m = MTorrent f)) \<and>
   (MAX_TORRENT_FILE_SIZE < length (concat sent) \<longrightarrow>
      receive_chunks [] (map Inr sent @ rest) = Inl (InvalidTorrentSource ''remote URL'' ''torrent file exceeds maximum size''))"
proof (rule conjI; rule iffI impI)
  assume "into_metainfo env (RemoteTorrentUrl url) = Inr m"
  then have run: "metainfo_from_remote_url env url = Inr m" by (simp add: into_metainfo_def)
  then obtain scheme response bytes where r: "sv_url_scheme env url = Inr scheme" "scheme = ''http'' \<or> scheme = ''https''"
    "sv_get env url = Inr response" "\<not> (case hr_content_length response of None \<Rightarrow> 0 | Some n \<Rightarrow> n) > MAX_TORRENT_FILE_SIZE"
    "receive_chunks [] (hr_chunks response) = Inr bytes" "metainfo_from_bytes env bytes = Inr m"
    by (auto simp: metainfo_from_remote_url_def validate_remote_torrent_url_def split: sum.splits if_splits)
  moreover obtain cs where "hr_chunks response = map Inr cs" "bytes = concat cs" "length (concat cs) \<le> MAX_TORRENT_FILE_SIZE"
    using r(5) unfolding receive_all_iff by blast
  moreover obtain f where "sv_bencode env bytes = Inr f" "m = MTorrent f"
    using r(6) by (auto simp: metainfo_from_bytes_def split: sum.splits)
  ultimately show "\<exists>scheme response cs f. sv_url_scheme env url = Inr scheme \<and> scheme \<in> {''http'', ''https''} \<and> sv_get env url = Inr response \<and>
      (\<forall>n \<in> set_option (hr_content_length response). n \<le> MAX_TORRENT_FILE_SIZE) \<and>
      hr_chunks response = map Inr cs \<and> length (concat cs) \<le> MAX_TORRENT_FILE_SIZE \<and> sv_bencode env (concat cs) = Inr f \<and> m = MTorrent f"
    by (intro exI [of _ scheme] exI [of _ response] exI [of _ cs] exI [of _ f]) auto
next
  assume "\<exists>scheme response cs f. sv_url_scheme env url = Inr scheme \<and> scheme \<in> {''http'', ''https''} \<and> sv_get env url = Inr response \<and>
      (\<forall>n \<in> set_option (hr_content_length response). n \<le> MAX_TORRENT_FILE_SIZE) \<and>
      hr_chunks response = map Inr cs \<and> length (concat cs) \<le> MAX_TORRENT_FILE_SIZE \<and> sv_bencode env (concat cs) = Inr f \<and> m = MTorrent f"
  then obtain scheme response cs f where r: "sv_url_scheme env url = Inr scheme" "scheme = ''http'' \<or> scheme = ''https''" "sv_get env url = Inr response"
    "\<forall>n \<in> set_option (hr_content_length response). n \<le> MAX_TORRENT_FILE_SIZE" "hr_chunks response = map Inr cs"
    "length (concat cs) \<le> MAX_TORRENT_FILE_SIZE" "sv_bencode env (concat cs) = Inr f" "m = MTorrent f" by auto
  have "receive_chunks [] (hr_chunks response) = Inr (concat cs)" using r(5,6) unfolding receive_all_iff by blast
  moreover have "\<not> (case hr_content_length response of None \<Rightarrow> 0 | Some n \<Rightarrow> n) > MAX_TORRENT_FILE_SIZE"
    using r(4) by (cases "hr_content_length response") auto
  ultimately show "into_metainfo env (RemoteTorrentUrl url) = Inr m"
    using r by (auto simp: into_metainfo_def metainfo_from_remote_url_def validate_remote_torrent_url_def metainfo_from_bytes_def)
next
  assume "MAX_TORRENT_FILE_SIZE < length (concat sent)"
  then show "receive_chunks [] (map Inr sent @ rest) = Inl (InvalidTorrentSource ''remote URL'' ''torrent file exceeds maximum size'')"
    using receive_chunks_exceeded [of "[]" sent rest] by simp
qed

text \<open>A server that declares no length and sends more than the limit in one chunk.\<close>

theorem remote_source_bounded_witness:
  "receive_chunks [] [Inr (replicate (MAX_TORRENT_FILE_SIZE + 1) 0), Inr [1]] =
     Inl (InvalidTorrentSource ''remote URL'' ''torrent file exceeds maximum size'')"
proof -
  have "MAX_TORRENT_FILE_SIZE < length (concat [replicate (MAX_TORRENT_FILE_SIZE + 1) 0])" by simp
  then have "receive_chunks [] (map Inr [replicate (MAX_TORRENT_FILE_SIZE + 1) 0] @ [Inr [1]]) =
      Inl (InvalidTorrentSource ''remote URL'' ''torrent file exceeds maximum size'')"
    using remote_source_bounded by blast
  then show ?thesis by simp
qed

end
