(* ===== verification/Metrics.thy ===== *)
theory Metrics
  imports Prelude
begin

text \<open>
  Transfer measurements, \<^verbatim>\<open>metrics.rs\<close>: saturating byte counters, rates derived from two observations of the
  counters, the aggregation of the metrics of peers and trackers, and the remaining time. Counters are
  \<^verbatim>\<open>u64\<close>, kept as natural numbers with the saturation written out; durations are in nanoseconds. The
  floating-point progress fraction is left out.
\<close>

section \<open>Counters and rates\<close>

definition U64_MAX :: nat where "U64_MAX = 2 ^ 64 - 1"
definition U128_MAX :: nat where "U128_MAX = 2 ^ 128 - 1"

definition u64_saturating_add :: "nat \<Rightarrow> nat \<Rightarrow> nat" where
  "u64_saturating_add a b = min (a + b) U64_MAX"

definition u128_saturating_mul :: "nat \<Rightarrow> nat \<Rightarrow> nat" where
  "u128_saturating_mul a b = min (a * b) U128_MAX"

record traffic_totals =
  tot_downloaded :: nat
  tot_uploaded :: nat

definition totals_add :: "traffic_totals \<Rightarrow> traffic_totals \<Rightarrow> traffic_totals" where
  "totals_add a b = \<lparr>tot_downloaded = u64_saturating_add (tot_downloaded a) (tot_downloaded b),
     tot_uploaded = u64_saturating_add (tot_uploaded a) (tot_uploaded b)\<rparr>"

record transfer_rates =
  tr_download :: nat
  tr_upload :: nat

definition rates_add :: "transfer_rates \<Rightarrow> transfer_rates \<Rightarrow> transfer_rates" where
  "rates_add a b = \<lparr>tr_download = u64_saturating_add (tr_download a) (tr_download b),
     tr_upload = u64_saturating_add (tr_upload a) (tr_upload b)\<rparr>"

definition rate :: "nat \<Rightarrow> nat \<Rightarrow> duration \<Rightarrow> nat" where
  "rate previous current elapsed =
     (if elapsed = 0 \<or> current < previous then 0
      else min (u128_saturating_mul (current - previous) 1000000000 div elapsed) U64_MAX)"

definition rates_between :: "traffic_totals \<Rightarrow> traffic_totals \<Rightarrow> duration \<Rightarrow> transfer_rates" where
  "rates_between previous current elapsed =
     \<lparr>tr_download = rate (tot_downloaded previous) (tot_downloaded current) elapsed,
      tr_upload = rate (tot_uploaded previous) (tot_uploaded current) elapsed\<rparr>"

section \<open>Samples and metrics\<close>

record transfer_sample =
  sa_previous :: traffic_totals
  sa_current :: traffic_totals
  sa_elapsed :: duration

definition sample_rates :: "transfer_sample \<Rightarrow> transfer_rates" where
  "sample_rates s = rates_between (sa_previous s) (sa_current s) (sa_elapsed s)"

record transfer_metrics =
  tm_totals :: traffic_totals
  tm_samples :: "transfer_sample list"

definition zero_totals :: traffic_totals where "zero_totals = \<lparr>tot_downloaded = 0, tot_uploaded = 0\<rparr>"
definition zero_rates :: transfer_rates where "zero_rates = \<lparr>tr_download = 0, tr_upload = 0\<rparr>"
definition metrics_default :: transfer_metrics where "metrics_default = \<lparr>tm_totals = zero_totals, tm_samples = []\<rparr>"

definition metrics_from_sample :: "transfer_sample \<Rightarrow> transfer_metrics" where
  "metrics_from_sample s = \<lparr>tm_totals = sa_current s, tm_samples = [s]\<rparr>"

definition add_to :: "transfer_rates option \<Rightarrow> transfer_rates \<Rightarrow> transfer_rates option" where
  "add_to aggregate r = Some (rates_add (case aggregate of None \<Rightarrow> zero_rates | Some a \<Rightarrow> a) r)"

definition metrics_rates :: "transfer_metrics \<Rightarrow> transfer_rates option" where
  "metrics_rates m = fold (\<lambda>s aggregate. add_to aggregate (sample_rates s)) (tm_samples m) None"

definition rates_aggregate :: "transfer_metrics list \<Rightarrow> transfer_rates option" where
  "rates_aggregate sources =
     fold (\<lambda>m aggregate. case metrics_rates m of None \<Rightarrow> aggregate | Some r \<Rightarrow> add_to aggregate r) sources None"

definition metrics_aggregate :: "transfer_metrics list \<Rightarrow> transfer_metrics" where
  "metrics_aggregate sources =
     fold (\<lambda>m aggregate. \<lparr>tm_totals = totals_add (tm_totals aggregate) (tm_totals m), tm_samples = tm_samples aggregate @ tm_samples m\<rparr>)
       sources metrics_default"

record timed_sample =
  ts_at :: instant
  ts_totals :: traffic_totals

definition sample_since :: "timed_sample \<Rightarrow> timed_sample \<Rightarrow> transfer_sample" where
  "sample_since now previous = \<lparr>sa_previous = ts_totals previous, sa_current = ts_totals now, sa_elapsed = ts_at now - ts_at previous\<rparr>"

record peer_metrics =
  pmx_transfer :: transfer_metrics
  pmx_peer_choking :: bool
  pmx_peer_interested :: bool
  pmx_client_choking :: bool
  pmx_client_interested :: bool
  pmx_available_pieces :: nat

record tracker_metrics =
  tmx_transfer :: transfer_metrics
  tmx_attempts :: nat
  tmx_successes :: nat
  tmx_peers :: nat
  tmx_latest_peers :: "nat option"

record content_progress =
  cpr_total :: "nat option"
  cpr_verified :: nat
  cpr_remaining :: "nat option"
  cpr_completed_pieces :: nat
  cpr_partial_pieces :: nat
  cpr_total_pieces :: nat

record torrent_metrics =
  tmt_traffic :: transfer_metrics
  tmt_progress :: content_progress
  tmt_eta :: "nat option"

definition calculate_eta :: "content_progress \<Rightarrow> transfer_rates option \<Rightarrow> nat option" where
  "calculate_eta progress rates =
     (case (cpr_remaining progress, rates) of
        (Some remaining, Some r) \<Rightarrow> if 0 < tr_download r then Some (div_ceil remaining (tr_download r)) else None
      | _ \<Rightarrow> None)"

definition torrent_metrics_new :: "transfer_metrics \<Rightarrow> content_progress \<Rightarrow> torrent_metrics" where
  "torrent_metrics_new traffic progress =
     \<lparr>tmt_traffic = traffic, tmt_progress = progress, tmt_eta = calculate_eta progress (metrics_rates traffic)\<rparr>"

section \<open>Saturating sums\<close>

definition sat_sum :: "nat list \<Rightarrow> nat" where
  "sat_sum xs = min (sum_list xs) U64_MAX"

lemma min_min_add: "min (min a m + min b m) m = min (a + b) (m :: nat)"
  by (auto simp: min_def)

lemma sat_sum_append: "sat_sum (xs @ ys) = u64_saturating_add (sat_sum xs) (sat_sum ys)"
  by (simp add: sat_sum_def u64_saturating_add_def min_min_add)

lemma sat_sum_Nil [simp]: "sat_sum [] = 0"
  by (simp add: sat_sum_def)

lemma sat_sum_le: "u64_saturating_add 0 (sat_sum xs) = sat_sum xs"
  by (simp add: sat_sum_def u64_saturating_add_def)

lemma sum_list_perm: "mset xs = mset ys \<Longrightarrow> sum_list (map f xs) = (sum_list (map f ys) :: 'a::comm_monoid_add)"
  by (simp flip: sum_mset_sum_list)

text \<open>The rates of a collection of samples: none without samples, otherwise the saturating sums.\<close>

definition sum_rates :: "transfer_rates list \<Rightarrow> transfer_rates option" where
  "sum_rates rs = (if rs = [] then None
     else Some \<lparr>tr_download = sat_sum (map tr_download rs), tr_upload = sat_sum (map tr_upload rs)\<rparr>)"

lemma add_to_sum: "r = \<lparr>tr_download = sat_sum ds, tr_upload = sat_sum us\<rparr> \<Longrightarrow>
    add_to (sum_rates rs) r = Some \<lparr>tr_download = sat_sum (map tr_download rs @ ds), tr_upload = sat_sum (map tr_upload rs @ us)\<rparr>"
  by (simp add: add_to_def sum_rates_def sat_sum_append rates_add_def zero_rates_def sat_sum_le)

lemma rate_bound: "rate p c e \<le> U64_MAX"
  by (simp add: rate_def)

lemma sample_rates_sum: "sample_rates s = \<lparr>tr_download = sat_sum [tr_download (sample_rates s)], tr_upload = sat_sum [tr_upload (sample_rates s)]\<rparr>"
  using rate_bound by (simp add: sample_rates_def rates_between_def sat_sum_def)

lemma fold_samples:
  "fold (\<lambda>s aggregate. add_to aggregate (sample_rates s)) ss (sum_rates rs) = sum_rates (rs @ map sample_rates ss)"
proof (induction ss arbitrary: rs)
  case (Cons s ss)
  have "add_to (sum_rates rs) (sample_rates s) = sum_rates (rs @ [sample_rates s])"
    using add_to_sum [OF sample_rates_sum] by (simp add: sum_rates_def)
  then show ?case using Cons.IH [of "rs @ [sample_rates s]"] by simp
qed simp

lemma metrics_rates_sum: "metrics_rates m = sum_rates (map sample_rates (tm_samples m))"
  using fold_samples [of "tm_samples m" "[]"] by (simp add: metrics_rates_def sum_rates_def)

definition all_rates :: "transfer_metrics list \<Rightarrow> transfer_rates list" where
  "all_rates ms = concat (map (\<lambda>m. map sample_rates (tm_samples m)) ms)"

lemma fold_sources:
  "fold (\<lambda>m aggregate. case metrics_rates m of None \<Rightarrow> aggregate | Some r \<Rightarrow> add_to aggregate r) ms (sum_rates rs)
     = sum_rates (rs @ all_rates ms)"
proof (induction ms arbitrary: rs)
  case (Cons m ms)
  let ?new = "map sample_rates (tm_samples m)"
  have "(case metrics_rates m of None \<Rightarrow> sum_rates rs | Some r \<Rightarrow> add_to (sum_rates rs) r) = sum_rates (rs @ ?new)"
    using add_to_sum [OF refl] by (cases "?new = []") (simp_all add: metrics_rates_sum sum_rates_def)
  then show ?case using Cons.IH [of "rs @ ?new"] by (simp add: all_rates_def)
qed (simp add: all_rates_def)

lemma fold_metrics:
  "fold (\<lambda>m aggregate. \<lparr>tm_totals = totals_add (tm_totals aggregate) (tm_totals m), tm_samples = tm_samples aggregate @ tm_samples m\<rparr>) ms
      \<lparr>tm_totals = \<lparr>tot_downloaded = sat_sum ds, tot_uploaded = sat_sum us\<rparr>, tm_samples = ss\<rparr>
     = \<lparr>tm_totals = \<lparr>tot_downloaded = sat_sum (ds @ map (tot_downloaded \<circ> tm_totals) ms), tot_uploaded = sat_sum (us @ map (tot_uploaded \<circ> tm_totals) ms)\<rparr>,
        tm_samples = ss @ concat (map tm_samples ms)\<rparr>"
proof (induction ms arbitrary: ds us ss)
  case (Cons m ms)
  have "u64_saturating_add (sat_sum xs) x = sat_sum (xs @ [x])" for xs x
    by (simp add: u64_saturating_add_def sat_sum_def)
  then show ?case using Cons.IH by (simp add: totals_add_def)
qed simp

section \<open>Results\<close>

text \<open>
  Aggregating loses nothing. The rates of the combined metrics are the combination of the rates, in
  whatever order the sources come: the saturating sum over all samples, and no rate exactly when there is
  no sample. The combined counters are the saturating sums of the counters.
\<close>

theorem aggregate_rates_exact:
  assumes "mset ms = mset ms'"
  shows "metrics_rates (metrics_aggregate ms) = rates_aggregate ms' \<and>
    rates_aggregate ms' = sum_rates (all_rates ms') \<and>
    tot_downloaded (tm_totals (metrics_aggregate ms)) = min (\<Sum>m \<in># mset ms'. tot_downloaded (tm_totals m)) U64_MAX"
proof -
  have agg: "metrics_aggregate ms = \<lparr>tm_totals = \<lparr>tot_downloaded = sat_sum (map (tot_downloaded \<circ> tm_totals) ms),
      tot_uploaded = sat_sum (map (tot_uploaded \<circ> tm_totals) ms)\<rparr>, tm_samples = concat (map tm_samples ms)\<rparr>"
    using fold_metrics [of ms "[]" "[]" "[]"] by (simp add: metrics_aggregate_def metrics_default_def zero_totals_def sat_sum_def)
  then have "metrics_rates (metrics_aggregate ms) = sum_rates (all_rates ms)"
    by (simp add: metrics_rates_sum all_rates_def map_concat comp_def)
  moreover have "sum_rates (all_rates ms) = sum_rates (all_rates ms')"
  proof -
    have perm: "mset (all_rates ms) = mset (all_rates ms')"
      using sum_list_perm [OF assms, of "\<lambda>m. mset (map sample_rates (tm_samples m))"]
      by (simp add: all_rates_def mset_concat comp_def)
    then have "all_rates ms = [] \<longleftrightarrow> all_rates ms' = []" by (metis mset_zero_iff)
    then show ?thesis
      using sum_list_perm [OF perm, of tr_download] sum_list_perm [OF perm, of tr_upload] by (simp add: sum_rates_def sat_sum_def)
  qed
  moreover have "rates_aggregate ms' = sum_rates (all_rates ms')"
    using fold_sources [of ms' "[]"] by (simp add: rates_aggregate_def sum_rates_def)
  moreover have "sum_list (map (tot_downloaded \<circ> tm_totals) ms) = (\<Sum>m \<in># mset ms'. tot_downloaded (tm_totals m))"
    using sum_list_perm [OF assms, of "tot_downloaded \<circ> tm_totals"] by (simp add: comp_def flip: sum_mset_sum_list)
  ultimately show ?thesis using agg by (simp add: sat_sum_def)
qed

text \<open>A rate that did not saturate is the number of whole bytes per second of the interval.\<close>

lemma rate_exact:
  assumes "previous \<le> current" and "current \<le> U64_MAX" and "0 < elapsed" and "rate previous current elapsed < U64_MAX"
  shows "rate previous current elapsed * elapsed \<le> (current - previous) * 1000000000 \<and>
    (current - previous) * 1000000000 < (rate previous current elapsed + 1) * elapsed"
proof -
  let ?n = "(current - previous) * 1000000000"
  have "?n \<le> U64_MAX * 1000000000" using assms(2) by (intro mult_right_mono) simp_all
  also have "\<dots> \<le> U128_MAX" by (simp add: U64_MAX_def U128_MAX_def)
  finally have "rate previous current elapsed = min (?n div elapsed) U64_MAX"
    using assms(1,3) by (simp add: rate_def u128_saturating_mul_def)
  then have "rate previous current elapsed = ?n div elapsed" using assms(4) by auto
  moreover have "?n < (?n div elapsed + 1) * elapsed"
    using div_mult_mod_eq [of ?n elapsed] mod_less_divisor [OF assms(3), of ?n] unfolding add_mult_distrib by linarith
  ultimately show ?thesis by simp
qed

text \<open>
  The estimated time is the least number of whole seconds in which the download, at the sampled rate,
  covers what remains, and there is none exactly when the remaining amount or the rate is unknown or the
  rate is zero.
\<close>

theorem eta_least:
  "case tmt_eta (torrent_metrics_new traffic progress) of
     None \<Rightarrow> cpr_remaining progress = None \<or> tm_samples traffic = [] \<or> (\<exists>r. metrics_rates traffic = Some r \<and> tr_download r = 0)
   | Some seconds \<Rightarrow> \<exists>remaining r. cpr_remaining progress = Some remaining \<and> metrics_rates traffic = Some r \<and>
       (\<forall>n. remaining \<le> n * tr_download r \<longleftrightarrow> seconds \<le> n)"
proof -
  have "remaining \<le> n * d \<longleftrightarrow> div_ceil remaining d \<le> n" if "0 < d" for remaining d n
    using less_div_ceil_iff [OF that, of n remaining] by (metis linorder_not_le)
  moreover have "metrics_rates traffic = None \<longleftrightarrow> tm_samples traffic = []"
    by (simp add: metrics_rates_sum sum_rates_def)
  ultimately show ?thesis
    by (auto simp: torrent_metrics_new_def calculate_eta_def split: option.split)
qed

section \<open>Concrete measurements\<close>

definition one_second :: "nat \<Rightarrow> nat \<Rightarrow> transfer_sample" where
  "one_second d u = \<lparr>sa_previous = zero_totals, sa_current = \<lparr>tot_downloaded = d, tot_uploaded = u\<rparr>, sa_elapsed = 1000000000\<rparr>"

theorem aggregate_rates_exact_witness:
  "metrics_rates (metrics_aggregate [metrics_from_sample (one_second 3 2), metrics_from_sample (one_second 4 1)])
     = Some \<lparr>tr_download = 7, tr_upload = 3\<rparr>"
proof -
  have "rates_aggregate [metrics_from_sample (one_second 4 1), metrics_from_sample (one_second 3 2)] = Some \<lparr>tr_download = 7, tr_upload = 3\<rparr>"
    by (simp add: rates_aggregate_def metrics_rates_def metrics_from_sample_def add_to_def rates_add_def zero_rates_def
        u64_saturating_add_def U64_MAX_def sample_rates_def rates_between_def rate_def u128_saturating_mul_def U128_MAX_def
        one_second_def zero_totals_def)
  then show ?thesis
    using aggregate_rates_exact [of "[metrics_from_sample (one_second 3 2), metrics_from_sample (one_second 4 1)]"
        "[metrics_from_sample (one_second 4 1), metrics_from_sample (one_second 3 2)]"] by simp
qed

end
