(* ===== verification/Live_Stream.thy ===== *)
theory Live_Stream
  imports Metrics
begin

text \<open>
  Live publishers, \<^verbatim>\<open>live/stream.rs\<close>: a current view together with a numbered stream of events. The
  broadcast channel is Tokio's; it is represented by the events that were sent into it. A receiver is a
  position in that sequence: it reads the events sent after it was created, and learns how many it lost
  when the bounded buffer has dropped some before it read them; how far the buffer has moved on is a
  parameter of reading.
\<close>

section \<open>Publishers\<close>

record ('v, 'e) publisher =
  pub_view :: 'v
  pub_sequence :: nat
  pub_closed :: bool
  pub_capacity :: nat
  pub_channel :: bool
  pub_sent :: "(nat \<times> 'e) list"

definition publisher_new :: "'v \<Rightarrow> nat \<Rightarrow> ('v, 'e) publisher" where
  "publisher_new view capacity =
     \<lparr>pub_view = view, pub_sequence = 0, pub_closed = False, pub_capacity = max capacity 1, pub_channel = False, pub_sent = []\<rparr>"

definition send_if_subscribed :: "nat \<times> 'e \<Rightarrow> ('v, 'e) publisher \<Rightarrow> ('v, 'e) publisher" where
  "send_if_subscribed event p = (if pub_channel p then p\<lparr>pub_sent := pub_sent p @ [event]\<rparr> else p)"

definition replace_view :: "'v \<Rightarrow> ('v, 'e) publisher \<Rightarrow> bool \<times> ('v, 'e) publisher" where
  "replace_view view p = (if pub_closed p then (False, p) else (True, p\<lparr>pub_view := view\<rparr>))"

definition apply_and_emit :: "('v \<Rightarrow> 'v) \<Rightarrow> 'e \<Rightarrow> ('v, 'e) publisher \<Rightarrow> bool \<times> ('v, 'e) publisher" where
  "apply_and_emit edit event p =
     (if pub_closed p then (False, p)
      else
        let p1 = p\<lparr>pub_view := edit (pub_view p), pub_sequence := u64_saturating_add (pub_sequence p) 1\<rparr>
        in (True, send_if_subscribed (pub_sequence p1, event) p1))"

definition replace_view_and_emit :: "'v \<Rightarrow> 'e \<Rightarrow> ('v, 'e) publisher \<Rightarrow> bool \<times> ('v, 'e) publisher" where
  "replace_view_and_emit view = apply_and_emit (\<lambda>_. view)"

definition emit_without_view_change :: "'e \<Rightarrow> ('v, 'e) publisher \<Rightarrow> bool \<times> ('v, 'e) publisher" where
  "emit_without_view_change = apply_and_emit (\<lambda>v. v)"

definition close_with_terminal_event :: "'v \<Rightarrow> 'e \<Rightarrow> ('v, 'e) publisher \<Rightarrow> bool \<times> ('v, 'e) publisher" where
  "close_with_terminal_event view event p =
     (if pub_closed p then (False, p)
      else
        let p1 = p\<lparr>pub_view := view, pub_sequence := u64_saturating_add (pub_sequence p) 1, pub_closed := True\<rparr>;
            p2 = send_if_subscribed (pub_sequence p1, event) p1
        in (True, p2\<lparr>pub_channel := False\<rparr>))"

definition install_initial_view :: "'v \<Rightarrow> ('v option, 'e) publisher \<Rightarrow> bool \<times> ('v option, 'e) publisher" where
  "install_initial_view view p =
     (if pub_closed p \<or> pub_view p \<noteq> None then (False, p) else (True, p\<lparr>pub_view := Some view\<rparr>))"

lemmas publisher_defs = replace_view_def apply_and_emit_def replace_view_and_emit_def emit_without_view_change_def
  close_with_terminal_event_def install_initial_view_def send_if_subscribed_def

section \<open>Subscriptions\<close>

text \<open>A subscription to a closed publisher has no position and only reports the end.\<close>

type_synonym subscription = "nat option"

definition subscribe :: "('v, 'e) publisher \<Rightarrow> subscription \<times> ('v, 'e) publisher" where
  "subscribe p = (if pub_closed p then (None, p) else (Some (length (pub_sent p)), p\<lparr>pub_channel := True\<rparr>))"

definition resubscribe :: "('v, 'e) publisher \<Rightarrow> subscription" where
  "resubscribe p = (if pub_channel p then Some (length (pub_sent p)) else None)"

datatype 'e received = Event nat 'e | Lagged nat | EndOfStream | NotYet

text \<open>One read; \<open>retained\<close> is the position of the oldest event the buffer still holds.\<close>

definition poll_next :: "nat \<Rightarrow> ('v, 'e) publisher \<Rightarrow> subscription \<Rightarrow> 'e received \<times> subscription" where
  "poll_next retained p s =
     (case s of
        None \<Rightarrow> (EndOfStream, None)
      | Some i \<Rightarrow>
          if i < retained then (Lagged (retained - i), Some retained)
          else if i < length (pub_sent p) then (case pub_sent p ! i of (n, e) \<Rightarrow> (Event n e, Some (i + 1)))
          else if pub_channel p then (NotYet, s) else (EndOfStream, s))"

section \<open>Runs\<close>

datatype ('v, 'e) pub_op = Replace 'v | Emit "'v \<Rightarrow> 'v" 'e | Close 'v 'e | Subscribe

fun pub_step :: "('v, 'e) pub_op \<Rightarrow> ('v, 'e) publisher \<Rightarrow> ('v, 'e) publisher" where
  "pub_step (Replace v) p = snd (replace_view v p)"
| "pub_step (Emit f e) p = snd (apply_and_emit f e p)"
| "pub_step (Close v e) p = snd (close_with_terminal_event v e p)"
| "pub_step Subscribe p = snd (subscribe p)"

text \<open>What a run publishes: nothing counts after the first close.\<close>

fun published :: "('v, 'e) pub_op list \<Rightarrow> 'e list" where
  "published [] = []"
| "published (Close _ e # _) = [e]"
| "published (Emit _ e # ops) = e # published ops"
| "published (_ # ops) = published ops"

fun view_after :: "('v, 'e) pub_op list \<Rightarrow> 'v \<Rightarrow> 'v" where
  "view_after [] v = v"
| "view_after (Close w _ # _) v = w"
| "view_after (Emit f _ # ops) v = view_after ops (f v)"
| "view_after (Replace w # ops) v = view_after ops w"
| "view_after (Subscribe # ops) v = view_after ops v"

definition closes :: "('v, 'e) pub_op list \<Rightarrow> bool" where
  "closes ops = list_ex (\<lambda>op. case op of Close _ _ \<Rightarrow> True | _ \<Rightarrow> False) ops"

lemma closes_simps [simp]:
  "\<not> closes []" "closes (Close v e # ops)" "closes (Emit f e # ops) = closes ops" "closes (Replace v # ops) = closes ops"
  "closes (Subscribe # ops) = closes ops"
  by (simp_all add: closes_def)

lemma closed_step: "pub_closed p \<Longrightarrow> pub_step op p = p"
  by (cases op) (simp_all add: publisher_defs subscribe_def)

lemma closed_run: "pub_closed p \<Longrightarrow> fold pub_step ops p = p"
  by (induction ops) (simp_all add: closed_step)

text \<open>Events carry consecutive numbers, the last of them the current one.\<close>

primrec numbered :: "nat \<Rightarrow> 'e list \<Rightarrow> (nat \<times> 'e) list" where
  "numbered n [] = []"
| "numbered n (e # es) = (n + 1, e) # numbered (n + 1) es"

lemma length_numbered [simp]: "length (numbered n es) = length es"
  by (induction es arbitrary: n) simp_all

lemma nth_numbered [simp]: "i < length es \<Longrightarrow> numbered n es ! i = (n + 1 + i, es ! i)"
  by (induction es arbitrary: n i) (auto simp: nth_Cons split: nat.split)

lemma run_publishes:
  assumes "\<not> pub_closed p" and "pub_channel p" and "pub_sequence p + length (published ops) \<le> U64_MAX"
  shows "pub_sent (fold pub_step ops p) = pub_sent p @ numbered (pub_sequence p) (published ops) \<and>
    pub_view (fold pub_step ops p) = view_after ops (pub_view p) \<and>
    pub_sequence (fold pub_step ops p) = pub_sequence p + length (published ops) \<and>
    pub_closed (fold pub_step ops p) = closes ops \<and> pub_channel (fold pub_step ops p) = (\<not> closes ops)"
  using assms
proof (induction ops arbitrary: p)
  case (Cons op ops)
  show ?case
  proof (cases op)
    case (Close v e)
    then show ?thesis
      using Cons.prems closed_run [of "pub_step op p" ops] by (simp add: publisher_defs u64_saturating_add_def)
  next
    case (Emit f e)
    then show ?thesis using Cons.prems Cons.IH [of "pub_step op p"] by (simp add: publisher_defs u64_saturating_add_def)
  next
    case (Replace v)
    then show ?thesis using Cons.prems Cons.IH [of "pub_step op p"] by (simp add: publisher_defs)
  next
    case Subscribe
    then show ?thesis using Cons.prems Cons.IH [of "pub_step op p"] by (simp add: subscribe_def)
  qed
qed simp

text \<open>All that a receiver reads as long as it keeps up.\<close>

fun read_all :: "nat \<Rightarrow> ('v, 'e) publisher \<Rightarrow> subscription \<Rightarrow> 'e received list" where
  "read_all 0 p s = []"
| "read_all (Suc n) p s = (case poll_next 0 p s of (r, s') \<Rightarrow> r # read_all n p s')"

lemma read_all_sent:
  "i \<le> length (pub_sent p) \<Longrightarrow>
     read_all (length (pub_sent p) - i + 1) p (Some i) =
       map (\<lambda>(n, e). Event n e) (drop i (pub_sent p)) @ [if pub_channel p then NotYet else EndOfStream]"
proof (induction "length (pub_sent p) - i" arbitrary: i)
  case 0
  then show ?case by (simp add: poll_next_def)
next
  case (Suc k)
  then have i: "i < length (pub_sent p)" by simp
  obtain n e where ne: "pub_sent p ! i = (n, e)" by (cases "pub_sent p ! i")
  have "length (pub_sent p) - i + 1 = Suc (length (pub_sent p) - (i + 1) + 1)" using i by simp
  moreover have "read_all (length (pub_sent p) - (i + 1) + 1) p (Some (i + 1)) =
      map (\<lambda>(n, e). Event n e) (drop (i + 1) (pub_sent p)) @ [if pub_channel p then NotYet else EndOfStream]"
    using Suc.hyps(1) [of "i + 1"] Suc.hyps(2) i by simp
  ultimately show ?case using i ne by (simp add: poll_next_def Cons_nth_drop_Suc [symmetric])
qed

section \<open>Results\<close>

text \<open>
  C38: a listener sees everything. Whatever operations follow a subscription to an open publisher, a
  receiver that keeps up reads exactly the published events, in order and with consecutive numbers, up to
  the terminal event of the first close and then the end of the stream; nothing is published after a
  close. The view is at every moment the one the published operations produce. The number of events
  stays below the range of a 64-bit counter.
\<close>

theorem listener_sees_everything:
  assumes "\<not> pub_closed p" and "subscribe p = (s, p1)" and "pub_sequence p + length (published ops) \<le> U64_MAX"
  shows "read_all (length (published ops) + 1) (fold pub_step ops p1) s =
      map (\<lambda>(n, e). Event n e) (numbered (pub_sequence p) (published ops)) @ [if closes ops then EndOfStream else NotYet] \<and>
    pub_view (fold pub_step ops p1) = view_after ops (pub_view p) \<and>
    pub_closed (fold pub_step ops p1) = closes ops"
proof -
  have p1: "s = Some (length (pub_sent p))" "p1 = p\<lparr>pub_channel := True\<rparr>" using assms(1,2) by (simp_all add: subscribe_def)
  let ?q = "fold pub_step ops p1"
  have q: "pub_sent ?q = pub_sent p @ numbered (pub_sequence p) (published ops)" "pub_view ?q = view_after ops (pub_view p)"
    "pub_closed ?q = closes ops" "pub_channel ?q = (\<not> closes ops)"
    using run_publishes [of p1 ops] assms(1,3) by (simp_all add: p1(2))
  then show ?thesis using read_all_sent [of "length (pub_sent p)" ?q] q p1(1) by simp
qed

text \<open>
  A gap is visible. When a receiver has read an event and the channel then reports that events were
  lost, the number of the next event it reads is higher by exactly the lost events and one.
\<close>

theorem lag_is_visible:
  assumes "\<not> pub_closed p" and "subscribe p = (Some i, p1)" and "pub_sequence p + length (published ops) \<le> U64_MAX"
    and q: "q = fold pub_step ops p1" and "i \<le> j"
    and "poll_next r q (Some j) = (Event n e, Some k)"
    and "poll_next r' q (Some k) = (Lagged lost, Some k')" and "r' < length (pub_sent q)"
  shows "\<exists>e'. poll_next r' q (Some k') = (Event (n + lost + 1) e', Some (k' + 1))"
proof -
  have p1: "i = length (pub_sent p)" "p1 = p\<lparr>pub_channel := True\<rparr>" using assms(1,2) by (simp_all add: subscribe_def)
  have sent: "pub_sent q = pub_sent p @ numbered (pub_sequence p) (published ops)"
    using run_publishes [of p1 ops] assms(1,3) q by (simp add: p1(2))
  have nth: "fst (pub_sent q ! m) = pub_sequence p + 1 + (m - i)" if "i \<le> m" "m < length (pub_sent q)" for m
    using that by (simp add: sent p1(1) nth_append)
  have j: "j < length (pub_sent q)" "fst (pub_sent q ! j) = n" "k = j + 1"
    using assms(6) by (auto simp: poll_next_def split: if_splits prod.splits)
  have k: "k < r'" "lost = r' - k" "k' = r'"
    using assms(7) by (auto simp: poll_next_def split: if_splits prod.splits)
  obtain m e' where e': "pub_sent q ! r' = (m, e')" by (cases "pub_sent q ! r'")
  have "n = pub_sequence p + 1 + (j - i)" using nth [of j] j assms(5) by simp
  moreover have "m = pub_sequence p + 1 + (r' - i)" using nth [of r'] e' assms(5,8) j(3) k(1) by simp
  ultimately have "m = n + lost + 1" using assms(5) j(3) k by simp
  then show ?thesis using e' k(3) assms(8) by (simp add: poll_next_def)
qed

section \<open>A concrete stream\<close>

definition demo_publisher :: "(nat, string) publisher" where
  "demo_publisher = publisher_new 0 8"

definition demo_ops :: "(nat, string) pub_op list" where
  "demo_ops = [Emit (\<lambda>_. 1) ''a'', Emit (\<lambda>_. 2) ''b'', Replace 5, Close 3 ''c'', Emit (\<lambda>_. 4) ''d'']"

lemma demo_published: "published demo_ops = [''a'', ''b'', ''c'']"
  by (simp add: demo_ops_def)

theorem listener_sees_everything_witness:
  "read_all 4 (fold pub_step demo_ops (snd (subscribe demo_publisher))) (Some 0)
     = [Event 1 ''a'', Event 2 ''b'', Event 3 ''c'', EndOfStream]"
proof -
  have s: "subscribe demo_publisher = (Some 0, snd (subscribe demo_publisher))" "\<not> pub_closed demo_publisher" "pub_sequence demo_publisher = 0"
    by (simp_all add: subscribe_def demo_publisher_def publisher_new_def)
  have "closes demo_ops" "length (published demo_ops) + 1 = 4" by (simp_all add: demo_ops_def)
  moreover have "pub_sequence demo_publisher + length (published demo_ops) \<le> U64_MAX" by (simp add: s(3) demo_published U64_MAX_def)
  ultimately have "read_all 4 (fold pub_step demo_ops (snd (subscribe demo_publisher))) (Some 0)
      = map (\<lambda>(n, e). Event n e) (numbered 0 [''a'', ''b'', ''c'']) @ [EndOfStream]"
    using listener_sees_everything [OF s(2,1), of demo_ops] by (simp only: s(3) demo_published if_True)
  then show ?thesis by (simp del: read_all.simps add: numeral_eq_Suc)
qed

theorem lag_is_visible_witness:
  "\<exists>e'. poll_next 2 (fold pub_step demo_ops (snd (subscribe demo_publisher))) (Some 2) = (Event (1 + 1 + 1) e', Some 3)"
proof -
  have s: "subscribe demo_publisher = (Some 0, snd (subscribe demo_publisher))" "\<not> pub_closed demo_publisher" "pub_sequence demo_publisher = 0"
    by (simp_all add: subscribe_def demo_publisher_def publisher_new_def)
  have sent: "pub_sent (fold pub_step demo_ops (snd (subscribe demo_publisher))) = [(1, ''a''), (2, ''b''), (3, ''c'')]"
    by (simp add: demo_ops_def demo_publisher_def publisher_new_def subscribe_def publisher_defs u64_saturating_add_def U64_MAX_def)
  show ?thesis
    using lag_is_visible [OF s(2,1) _ refl, of demo_ops 0 0 1 "''a''" 1 2 1 2]
    by (simp add: demo_published s(3) U64_MAX_def sent poll_next_def)
qed

end
