(* ===== verification/Peer_Id.thy ===== *)
theory Peer_Id
  imports Texts
begin

text \<open>
  Peer identifiers, \<^verbatim>\<open>peer/id.rs\<close>: the table of known clients, the classification of an identifier by its
  format, the client version an identifier carries, and the identifiers this client generates. The macro
  of the source makes one enum variant for each row of the table; here a variant is its row. Random bytes
  and the package version are parameters.
\<close>

section \<open>Clients\<close>

datatype peer_id_format = AzureusFormat | ShadowFormat | MainlineFormat | BitCometLegacyFormat | XbtFormat | OperaFormat
  | MlDonkeyFormat | BitsOnWheelsFormat | QueenBeeFormat | BitTyrantFormat | TorrenTopiaFormat | BitSpiritFormat | RufusFormat
  | G3TorrentFormat | FlashGetFormat | AllPeersFormat

record client_info =
  ci_variant :: string
  ci_prefix :: "byte list"
  ci_name :: "byte list"
  ci_format :: peer_id_format

definition ascii :: "string \<Rightarrow> byte list" where
  "ascii s = map of_char s"

definition client :: "string \<Rightarrow> string \<Rightarrow> byte list \<Rightarrow> peer_id_format \<Rightarrow> client_info" where
  "client variant prefix name format = \<lparr>ci_variant = variant, ci_prefix = ascii prefix, ci_name = name, ci_format = format\<rparr>"

definition azureus_clients :: "client_info list" where
  "azureus_clients =
     [client ''Ares'' ''AG'' (ascii ''Ares'') AzureusFormat,
      client ''AresV2'' ''A~'' (ascii ''AresV2'') AzureusFormat,
      client ''Arctic'' ''AR'' (ascii ''Arctic'') AzureusFormat,
      client ''Avicora'' ''AV'' (ascii ''Avicora'') AzureusFormat,
      client ''BitPump'' ''AX'' (ascii ''BitPump'') AzureusFormat,
      client ''Azureus'' ''AZ'' (ascii ''Azureus'') AzureusFormat,
      client ''BitBuddy'' ''BB'' (ascii ''BitBuddy'') AzureusFormat,
      client ''BitComet'' ''BC'' (ascii ''BitComet'') AzureusFormat,
      client ''Bitflu'' ''BF'' (ascii ''Bitflu'') AzureusFormat,
      client ''Btg'' ''BG'' (ascii ''BTG'') AzureusFormat,
      client ''BitRocket'' ''BR'' (ascii ''BitRocket'') AzureusFormat,
      client ''BtSlave'' ''BS'' (ascii ''BTSlave'') AzureusFormat,
      client ''BittorrentX'' ''BX'' (ascii ''BitTorrent X'') AzureusFormat,
      client ''EnhancedCTorrent'' ''CD'' (ascii ''Enhanced CTorrent'') AzureusFormat,
      client ''Ctorrent'' ''CT'' (ascii ''CTorrent'') AzureusFormat,
      client ''Deluge'' ''DE'' (ascii ''Deluge'') AzureusFormat,
      client ''PropagateData'' ''DP'' (ascii ''Propagate Data Client'') AzureusFormat,
      client ''EBit'' ''EB'' (ascii ''EBit'') AzureusFormat,
      client ''ElectricSheep'' ''ES'' (ascii ''Electric Sheep'') AzureusFormat,
      client ''FoxTorrent'' ''FT'' (ascii ''FoxTorrent'') AzureusFormat,
      client ''FrostWire'' ''FW'' (ascii ''FrostWire'') AzureusFormat,
      client ''Freebox'' ''FX'' (ascii ''Freebox BitTorrent'') AzureusFormat,
      client ''GsTorrent'' ''GS'' (ascii ''GSTorrent'') AzureusFormat,
      client ''Halite'' ''HL'' (ascii ''Halite'') AzureusFormat,
      client ''Hydranode'' ''HN'' (ascii ''Hydranode'') AzureusFormat,
      client ''KGet'' ''KG'' (ascii ''KGet'') AzureusFormat,
      client ''KTorrent'' ''KT'' (ascii ''KTorrent'') AzureusFormat,
      client ''LhAbc'' ''LH'' (ascii ''LH-ABC'') AzureusFormat,
      client ''Lphant'' ''LP'' (ascii ''Lphant'') AzureusFormat,
      client ''Libtorrent'' ''LT'' (ascii ''libtorrent'') AzureusFormat,
      client ''LibTorrent'' ''lt'' (ascii ''libTorrent'') AzureusFormat,
      client ''LimeWire'' ''LW'' (ascii ''LimeWire'') AzureusFormat,
      client ''MonoTorrent'' ''MO'' (ascii ''MonoTorrent'') AzureusFormat,
      client ''MooPolice'' ''MP'' (ascii ''MooPolice'') AzureusFormat,
      client ''Miro'' ''MR'' (ascii ''Miro'') AzureusFormat,
      client ''MoonlightTorrent'' ''MT'' (ascii ''MoonlightTorrent'') AzureusFormat,
      client ''NetTransport'' ''NX'' (ascii ''Net Transport'') AzureusFormat,
      client ''Pando'' ''PD'' (ascii ''Pando'') AzureusFormat,
      client ''Qbittorrent'' ''qB'' (ascii ''qBittorrent'') AzureusFormat,
      client ''QqDownload'' ''QD'' (ascii ''QQDownload'') AzureusFormat,
      client ''QtExample'' ''QT'' (ascii ''Qt 4 Torrent example'') AzureusFormat,
      client ''Retriever'' ''RT'' (ascii ''Retriever'') AzureusFormat,
      client ''ShareazaAlpha'' ''S~'' (ascii ''Shareaza (alpha/beta)'') AzureusFormat,
      client ''Swiftbit'' ''SB'' (ascii ''Swiftbit'') AzureusFormat,
      client ''SwarmScope'' ''SS'' (ascii ''SwarmScope'') AzureusFormat,
      client ''SymTorrent'' ''ST'' (ascii ''SymTorrent'') AzureusFormat,
      client ''Sharktorrent'' ''st'' (ascii ''sharktorrent'') AzureusFormat,
      client ''Shareaza'' ''SZ'' (ascii ''Shareaza'') AzureusFormat,
      client ''Tortillas'' ''TO'' (ascii ''Tortillas'') AzureusFormat,
      client ''TorrentDotNet'' ''TN'' (ascii ''TorrentDotNET'') AzureusFormat,
      client ''Transmission'' ''TR'' (ascii ''Transmission'') AzureusFormat,
      client ''Torrentstorm'' ''TS'' (ascii ''Torrentstorm'') AzureusFormat,
      client ''TuoTu'' ''TT'' (ascii ''TuoTu'') AzureusFormat,
      client ''ULeecher'' ''UL'' (ascii ''uLeecher!'') AzureusFormat,
      client ''Utorrent'' ''UT'' ([0xC2, 0xB5] @ ascii ''Torrent'') AzureusFormat,
      client ''UtorrentWeb'' ''UW'' ([0xC2, 0xB5] @ ascii ''Torrent Web'') AzureusFormat,
      client ''Vagaa'' ''VG'' (ascii ''Vagaa'') AzureusFormat,
      client ''WebTorrentDesktop'' ''WD'' (ascii ''WebTorrent Desktop'') AzureusFormat,
      client ''BitLet'' ''WT'' (ascii ''BitLet'') AzureusFormat,
      client ''WebTorrent'' ''WW'' (ascii ''WebTorrent'') AzureusFormat,
      client ''FireTorrent'' ''WY'' (ascii ''FireTorrent'') AzureusFormat,
      client ''Xunlei'' ''XL'' (ascii ''Xunlei'') AzureusFormat,
      client ''XanTorrent'' ''XT'' (ascii ''XanTorrent'') AzureusFormat,
      client ''Xtorrent'' ''XX'' (ascii ''Xtorrent'') AzureusFormat,
      client ''ZipTorrent'' ''ZT'' (ascii ''ZipTorrent'') AzureusFormat]"

definition shadow_clients :: "client_info list" where
  "shadow_clients =
     [client ''Abc'' ''A'' (ascii ''ABC'') ShadowFormat,
      client ''OspreyPermaseed'' ''O'' (ascii ''Osprey Permaseed'') ShadowFormat,
      client ''BtQueue'' ''Q'' (ascii ''BTQueue'') ShadowFormat,
      client ''Tribler'' ''R'' (ascii ''Tribler'') ShadowFormat,
      client ''ShadowClient'' ''S'' (ascii (''Shadow'' @ CHR 0x27 # ''s client'')) ShadowFormat,
      client ''BitTornado'' ''T'' (ascii ''BitTornado'') ShadowFormat,
      client ''UpnpNatBitTorrent'' ''U'' (ascii ''UPnP NAT Bit Torrent'') ShadowFormat]"

definition other_clients :: "client_info list" where
  "other_clients =
     [client ''MainlineBitTorrent'' ''M'' (ascii ''Mainline BitTorrent'') MainlineFormat,
      client ''BitCometLegacy'' ''exbc'' (ascii ''BitComet (legacy)'') BitCometLegacyFormat,
      client ''XbtClient'' ''XBT'' (ascii ''XBT Client'') XbtFormat,
      client ''Opera'' ''OP'' (ascii ''Opera'') OperaFormat,
      client ''MlDonkey'' ''-ML'' (ascii ''MLdonkey'') MlDonkeyFormat,
      client ''BitsOnWheels'' ''-BOW'' (ascii ''Bits on Wheels'') BitsOnWheelsFormat,
      client ''QueenBee'' ''Q1-'' (ascii ''Queen Bee'') QueenBeeFormat,
      client ''BitTyrant'' ''AZ2500BT'' (ascii ''BitTyrant'') BitTyrantFormat,
      client ''TorrenTopia'' ''346-'' (ascii ''TorrenTopia'') TorrenTopiaFormat,
      client ''BitSpirit'' '''' (ascii ''BitSpirit'') BitSpiritFormat,
      client ''Rufus'' ''RS'' (ascii ''Rufus'') RufusFormat,
      client ''G3Torrent'' ''-G3'' (ascii ''G3 Torrent'') G3TorrentFormat,
      client ''FlashGet'' ''FG'' (ascii ''FlashGet'') FlashGetFormat,
      client ''AllPeers'' ''AP'' (ascii ''AllPeers'') AllPeersFormat]"

definition CLIENT_INFO :: "client_info list" where
  "CLIENT_INFO = azureus_clients @ shadow_clients @ other_clients"

datatype peer_ident = KnownPeer client_info "byte list" | UnknownPeer "byte list"

primrec ident_bytes :: "peer_ident \<Rightarrow> byte list" where
  "ident_bytes (KnownPeer _ i) = i"
| "ident_bytes (UnknownPeer i) = i"

fun ident_info :: "peer_ident \<Rightarrow> client_info" where
  "ident_info (KnownPeer c _) = c"
| "ident_info (UnknownPeer _) = client ''Unknown'' ''??'' (ascii ''Unknown'') AzureusFormat"

definition client_name :: "peer_ident \<Rightarrow> byte list" where
  "client_name p = ci_name (ident_info p)"

section \<open>Classification\<close>

definition DASH :: byte where "DASH = 45"

definition azureus_layout :: "byte list \<Rightarrow> bool" where
  "azureus_layout i = (8 \<le> length i \<and> i ! 0 = DASH \<and> i ! 7 = DASH)"

definition starts_with :: "byte list \<Rightarrow> byte list \<Rightarrow> bool" where
  "starts_with i prefix = (take (length prefix) i = prefix)"

fun matches_format :: "byte list \<Rightarrow> byte list \<Rightarrow> peer_id_format \<Rightarrow> bool" where
  "matches_format i prefix AzureusFormat = (azureus_layout i \<and> take 2 (drop 1 i) = prefix)"
| "matches_format i prefix ShadowFormat = (6 \<le> length i \<and> length prefix \<le> length i \<and> starts_with i prefix)"
| "matches_format i prefix MainlineFormat = (0 < length i \<and> starts_with i prefix)"
| "matches_format i prefix BitCometLegacyFormat = (4 \<le> length i \<and> starts_with i prefix)"
| "matches_format i prefix XbtFormat = (6 \<le> length i \<and> starts_with i prefix)"
| "matches_format i prefix OperaFormat = (6 \<le> length i \<and> starts_with i prefix)"
| "matches_format i prefix MlDonkeyFormat = (3 \<le> length i \<and> starts_with i prefix)"
| "matches_format i prefix BitsOnWheelsFormat = (4 \<le> length i \<and> starts_with i prefix)"
| "matches_format i prefix QueenBeeFormat = (3 \<le> length i \<and> starts_with i prefix)"
| "matches_format i prefix BitTyrantFormat = (9 \<le> length i \<and> starts_with i prefix)"
| "matches_format i prefix TorrenTopiaFormat = (4 \<le> length i \<and> starts_with i prefix)"
| "matches_format i prefix BitSpiritFormat = (4 \<le> length i \<and> i ! 0 = 0 \<and> i ! 1 = 3 \<and> i ! 2 = 66 \<and> i ! 3 = 83)"
| "matches_format i prefix RufusFormat = (4 \<le> length i \<and> take 2 (drop 2 i) = ascii ''RS'')"
| "matches_format i prefix G3TorrentFormat = (3 \<le> length i \<and> starts_with i prefix)"
| "matches_format i prefix FlashGetFormat = (2 \<le> length i \<and> starts_with i prefix)"
| "matches_format i prefix AllPeersFormat = (2 \<le> length i \<and> starts_with i prefix)"

definition azureus_client :: "byte list \<Rightarrow> client_info option" where
  "azureus_client i =
     (if azureus_layout i then find (\<lambda>c. ci_format c = AzureusFormat \<and> take 2 (drop 1 i) = ci_prefix c) CLIENT_INFO else None)"

definition peer_id_from :: "byte list \<Rightarrow> peer_ident" where
  "peer_id_from i =
     (case azureus_client i of
        Some c \<Rightarrow> KnownPeer c i
      | None \<Rightarrow> (case find (\<lambda>c. matches_format i (ci_prefix c) (ci_format c)) CLIENT_INFO of
                   Some c \<Rightarrow> KnownPeer c i | None \<Rightarrow> UnknownPeer i))"

definition peer_id_from_str :: "byte list \<Rightarrow> peer_ident option" where
  "peer_id_from_str s = (if length s = 20 then Some (peer_id_from s) else None)"

section \<open>Versions\<close>

text \<open>What a function of the source returns, or that it panics.\<close>

datatype 'a outcome = Returns 'a | Panics

definition two_digits :: "nat \<Rightarrow> string" where
  "two_digits n = (if n < 10 then CHR ''0'' # show_nat n else show_nat n)"

definition mainline_version :: "byte list \<Rightarrow> byte list option outcome" where
  "mainline_version text =
     (if text = [] then Returns None
      else let parts = split_on DASH text
           in if length parts < 3 then Panics else Returns (Some (parts ! 0 @ ascii ''.'' @ parts ! 1 @ ascii ''.'' @ parts ! 2)))"

fun version_in :: "peer_id_format \<Rightarrow> byte list \<Rightarrow> byte list option outcome" where
  "version_in AzureusFormat i =
     Returns (if azureus_layout i
       then Some (char_bytes (i ! 3) @ ascii ''.'' @ char_bytes (i ! 4) @ ascii ''.'' @ char_bytes (i ! 5) @ char_bytes (i ! 6)) else None)"
| "version_in ShadowFormat i =
     Returns (if 6 \<le> length i
       then let text = trim_end DASH (from_utf8_lossy (take 5 (drop 1 i))) in if text = [] then None else Some text else None)"
| "version_in MainlineFormat i =
     (if 1 < length i \<and> i ! 0 = 77 then mainline_version (trim_end DASH (from_utf8_lossy (drop 1 i))) else Returns None)"
| "version_in BitCometLegacyFormat i =
     Returns (if 6 \<le> length i \<and> take 4 i = ascii ''exbc''
       then Some (ascii (show_nat (unat (i ! 4)) @ ''.'' @ two_digits (unat (i ! 5)))) else None)"
| "version_in XbtFormat i =
     Returns (if 6 \<le> length i \<and> take 3 i = ascii ''XBT''
       then Some (char_bytes (i ! 3) @ ascii ''.'' @ char_bytes (i ! 4) @ ascii ''.'' @ char_bytes (i ! 5)) else None)"
| "version_in OperaFormat i =
     Returns (if 6 \<le> length i \<and> take 2 i = ascii ''OP'' then Some (ascii ''build '' @ from_utf8_lossy (take 4 (drop 2 i))) else None)"
| "version_in _ i = Returns None"

definition peer_version :: "peer_ident \<Rightarrow> byte list option outcome" where
  "peer_version p = version_in (ci_format (ident_info p)) (ident_bytes p)"

definition peer_display :: "peer_ident \<Rightarrow> byte list outcome" where
  "peer_display p =
     (case peer_version p of
        Panics \<Rightarrow> Panics
      | Returns (Some version) \<Rightarrow> Returns (client_name p @ ascii '' '' @ version)
      | Returns None \<Rightarrow> Returns (client_name p))"

section \<open>Our own identifier\<close>

definition is_digit :: "char \<Rightarrow> bool" where
  "is_digit c = (c \<in> set ''0123456789'')"

definition version_digits :: "string \<Rightarrow> string" where
  "version_digits version =
     (let digits = filter is_digit (takeWhile (\<lambda>c. is_digit c \<or> c = CHR ''.'') version)
      in take 4 (digits @ replicate (4 - length digits) (CHR ''0'')))"

definition tortillas :: client_info where
  "tortillas = client ''Tortillas'' ''TO'' (ascii ''Tortillas'') AzureusFormat"

definition peer_id_default :: "string \<Rightarrow> byte list \<Rightarrow> peer_ident" where
  "peer_id_default version random =
     KnownPeer tortillas (DASH # ascii ''TO'' @ ascii (version_digits version) @ DASH # drop 8 random)"


section \<open>Classification is sound and ordered\<close>

lemma find_append: "find P (xs @ ys) = (case find P xs of None \<Rightarrow> find P ys | Some x \<Rightarrow> Some x)"
  by (induction xs) auto

lemma find_SomeD: "find P xs = Some x \<Longrightarrow> x \<in> set xs \<and> P x"
  by (induction xs) (auto split: if_splits)

lemma client_formats:
  "c \<in> set azureus_clients \<Longrightarrow> ci_format c = AzureusFormat"
  "c \<in> set shadow_clients \<Longrightarrow> ci_format c = ShadowFormat"
  by (auto simp: azureus_clients_def shadow_clients_def client_def)

lemma azureus_client_matches:
  assumes "azureus_client i = Some c"
  shows "c \<in> set CLIENT_INFO \<and> matches_format i (ci_prefix c) (ci_format c)"
  using assms by (auto simp: azureus_client_def split: if_splits dest: find_SomeD)

text \<open>
  Every identifier keeps its bytes. A known client is a row of the table whose format it has, and an
  identifier is unknown only if it has none of the formats.
\<close>

theorem peer_id_classified:
  "ident_bytes (peer_id_from i) = i \<and>
   (case peer_id_from i of
      KnownPeer c _ \<Rightarrow> c \<in> set CLIENT_INFO \<and> matches_format i (ci_prefix c) (ci_format c)
    | UnknownPeer _ \<Rightarrow> \<not> list_ex (\<lambda>c. matches_format i (ci_prefix c) (ci_format c)) CLIENT_INFO)"
proof (cases "azureus_client i")
  case (Some c)
  then show ?thesis using azureus_client_matches by (simp add: peer_id_from_def)
next
  case None
  let ?P = "\<lambda>c. matches_format i (ci_prefix c) (ci_format c)"
  show ?thesis
  proof (cases "find ?P CLIENT_INFO")
    case None': None
    then have "\<not> list_ex ?P CLIENT_INFO" by (auto simp: find_None_iff list_ex_iff)
    then show ?thesis using None None' by (simp add: peer_id_from_def)
  next
    case (Some c)
    then show ?thesis using None find_SomeD [of ?P] by (simp add: peer_id_from_def)
  qed
qed

text \<open>An identifier without the Azureus layout that starts with a letter of a Shadow client is given to that client.\<close>

lemma shadow_first:
  assumes "6 \<le> length i" and "s \<in> set shadow_clients" and "starts_with i (ci_prefix s)"
  shows "\<exists>c. peer_id_from i = KnownPeer c i \<and> ci_format c \<in> {AzureusFormat, ShadowFormat}"
proof (cases "azureus_client i")
  case (Some c)
  then have "ci_format c = AzureusFormat" by (auto simp: azureus_client_def split: if_splits dest: find_SomeD)
  with Some show ?thesis by (simp add: peer_id_from_def)
next
  case None
  let ?P = "\<lambda>c. matches_format i (ci_prefix c) (ci_format c)"
  have "length (ci_prefix s) = 1" using assms(2) by (auto simp: shadow_clients_def client_def ascii_def)
  then have "?P s" using assms client_formats(2) [OF assms(2)] by simp
  then have "find ?P (azureus_clients @ shadow_clients) \<noteq> None" using assms(2) by (auto simp: find_None_iff)
  then obtain c where c: "find ?P (azureus_clients @ shadow_clients) = Some c" by blast
  then have "find ?P CLIENT_INFO = Some c"
    using find_append [of ?P "azureus_clients @ shadow_clients" other_clients] by (simp add: CLIENT_INFO_def)
  moreover have "ci_format c \<in> {AzureusFormat, ShadowFormat}" using find_SomeD [OF c] client_formats by auto
  ultimately show ?thesis using None by (simp add: peer_id_from_def)
qed

lemma hidden_prefixes:
  assumes "c \<in> set CLIENT_INFO" and "ci_format c \<in> {OperaFormat, QueenBeeFormat, BitTyrantFormat, AllPeersFormat}"
  shows "list_ex (\<lambda>s. take 1 (ci_prefix c) = ci_prefix s) shadow_clients"
proof -
  have "c \<in> set other_clients" using assms client_formats by (auto simp: CLIENT_INFO_def)
  moreover have "list_all (\<lambda>c. ci_format c \<in> {OperaFormat, QueenBeeFormat, BitTyrantFormat, AllPeersFormat} \<longrightarrow>
      list_ex (\<lambda>s. take 1 (ci_prefix c) = ci_prefix s) shadow_clients) other_clients"
    by code_simp
  ultimately show ?thesis using assms(2) unfolding list_all_iff by blast
qed

text \<open>
  Four clients of the table are never recognised. Opera, Queen Bee, BitTyrant and AllPeers
  identifiers start with a letter that a Shadow-style client claims earlier in the table (O, Q, A),
  so that client is reported instead.
\<close>

theorem shadowed_clients:
  assumes "length i = 20" and "peer_id_from i = KnownPeer c j"
  shows "ci_format c \<notin> {OperaFormat, QueenBeeFormat, BitTyrantFormat, AllPeersFormat}"
proof
  assume hidden: "ci_format c \<in> {OperaFormat, QueenBeeFormat, BitTyrantFormat, AllPeersFormat}"
  have c: "c \<in> set CLIENT_INFO" "matches_format i (ci_prefix c) (ci_format c)"
    using peer_id_classified [of i] assms(2) by simp_all
  obtain s where s: "s \<in> set shadow_clients" "take 1 (ci_prefix c) = ci_prefix s"
    using hidden_prefixes [OF c(1) hidden] by (auto simp: list_ex_iff)
  have pre: "starts_with i (ci_prefix c)" using c(2) hidden by auto
  have "take 1 (take (length (ci_prefix c)) i) = take 1 (ci_prefix c)" using pre by (simp add: starts_with_def)
  moreover have "length (ci_prefix s) = 1" using s(1) by (auto simp: shadow_clients_def client_def ascii_def)
  ultimately have "starts_with i (ci_prefix s)" using s(2) by (cases "ci_prefix c") (auto simp: starts_with_def)
  then obtain c' where "peer_id_from i = KnownPeer c' i" "ci_format c' \<in> {AzureusFormat, ShadowFormat}"
    using shadow_first [OF _ s(1)] assms(1) by force
  then have "ci_format c \<in> {AzureusFormat, ShadowFormat}" using assms(2) by simp
  with hidden show False by auto
qed

section \<open>Our own identifier is recognised\<close>

lemma version_digits_length: "length (version_digits version) = 4"
  by (simp add: version_digits_def Let_def)

lemma version_digits_ascii: "x \<in> set (version_digits version) \<Longrightarrow> char_bytes (of_char x) = [of_char x]"
proof -
  assume "x \<in> set (version_digits version)"
  then have "x \<in> set (filter is_digit (takeWhile (\<lambda>c. is_digit c \<or> c = CHR ''.'') version)) \<or> x = CHR ''0''"
    by (auto simp: version_digits_def Let_def dest: in_set_takeD)
  then have "is_digit x" by (auto simp: is_digit_def)
  moreover have "list_all (\<lambda>c. char_bytes (of_char c) = [of_char c]) ''0123456789''" by code_simp
  ultimately show ?thesis unfolding is_digit_def list_all_iff by blast
qed

lemma tortillas_found:
  "find (\<lambda>c. ci_format c = AzureusFormat \<and> ascii ''TO'' = ci_prefix c) CLIENT_INFO = Some tortillas"
  by code_simp

text \<open>
  The identifier this client generates has twenty bytes whatever the random ones are, other clients of
  this library read it back as the same identifier, and it carries the digits of the version.
\<close>

theorem own_id_recognised:
  assumes "length random = 20"
  shows "length (ident_bytes (peer_id_default version random)) = 20 \<and>
    peer_id_from (ident_bytes (peer_id_default version random)) = peer_id_default version random \<and>
    peer_version (peer_id_default version random) =
      (let d = version_digits version in Returns (Some (ascii [d ! 0, CHR ''.'', d ! 1, CHR ''.'', d ! 2, d ! 3])))"
proof -
  obtain a b c d where digits: "version_digits version = [a, b, c, d]"
    using version_digits_length [of version] by (auto simp: length_Suc_conv numeral_eq_Suc)
  define i where "i = DASH # ascii ''TO'' @ ascii [a, b, c, d] @ DASH # drop 8 random"
  have p: "peer_id_default version random = KnownPeer tortillas i" by (simp add: peer_id_default_def digits i_def)
  have bytes: "i = [DASH, 84, 79, of_char a, of_char b, of_char c, of_char d, DASH] @ drop 8 random" by (simp add: i_def ascii_def)
  have len: "length i = 20" using assms by (simp add: bytes)
  have nth: "i ! 0 = DASH" "i ! 3 = of_char a" "i ! 4 = of_char b" "i ! 5 = of_char c" "i ! 6 = of_char d" "i ! 7 = DASH"
    by (simp_all add: bytes)
  have layout: "azureus_layout i" using len nth(1,6) by (simp add: azureus_layout_def)
  have "take 2 (drop 1 i) = ascii ''TO''" by (simp add: bytes ascii_def)
  then have "azureus_client i = Some tortillas" using tortillas_found layout by (simp add: azureus_client_def)
  then have from_i: "peer_id_from i = KnownPeer tortillas i" by (simp add: peer_id_from_def)
  have "char_bytes (of_char x) = [of_char x]" if "x \<in> set [a, b, c, d]" for x
    using version_digits_ascii that unfolding digits [symmetric] by blast
  then have "version_in AzureusFormat i = Returns (Some (ascii [a, CHR ''.'', b, CHR ''.'', c, d]))"
    using layout nth by (simp add: ascii_def)
  moreover have "ci_format tortillas = AzureusFormat" by (simp add: tortillas_def client_def)
  ultimately have "peer_version (KnownPeer tortillas i) = Returns (Some (ascii [a, CHR ''.'', b, CHR ''.'', c, d]))"
    by (simp add: peer_version_def)
  with len from_i show ?thesis by (simp add: p digits)
qed

section \<open>Mainline versions\<close>

lemma length_lossy: "length bs \<le> length (from_utf8_lossy bs)"
proof (induction bs rule: from_utf8_lossy.induct)
  case (1 bs)
  show ?case
  proof (cases "bs = []")
    case False
    have "snd (utf8_step bs) \<le> 3" if "\<not> fst (utf8_step bs)"
      using that by (auto simp: utf8_step_def Let_def split: if_splits)
    then show ?thesis using 1 False by (subst from_utf8_lossy.simps) (auto simp: REPLACEMENT_def)
  qed simp
qed

lemma trim_end_Nil: "trim_end c xs = [] \<Longrightarrow> count_list xs c = length xs"
proof -
  assume "trim_end c xs = []"
  then have "\<forall>x \<in> set xs. x = c" by (simp add: trim_end_def)
  then show ?thesis by (induction xs) auto
qed

lemma mainline_classified:
  assumes "length i = 20" and "i ! 0 = 77"
  shows "\<exists>c. peer_id_from i = KnownPeer c i \<and> ci_format c = MainlineFormat"
proof -
  obtain bs where i: "i = 77 # bs" using assms by (cases i) auto
  have az: "\<not> azureus_layout i" using assms(2) by (simp add: azureus_layout_def DASH_def)
  let ?P = "\<lambda>c. matches_format i (ci_prefix c) (ci_format c)"
  have "find ?P azureus_clients = None" using az client_formats(1) by (fastforce simp: find_None_iff)
  moreover have "find ?P shadow_clients = None"
    by (auto simp: find_None_iff shadow_clients_def client_def ascii_def starts_with_def i)
  moreover have "find ?P other_clients = Some (hd other_clients)"
    using assms(1) by (simp add: other_clients_def client_def ascii_def starts_with_def i)
  ultimately have "find ?P CLIENT_INFO = Some (hd other_clients)" by (simp add: CLIENT_INFO_def find_append)
  moreover have "ci_format (hd other_clients) = MainlineFormat" by (simp add: other_clients_def client_def)
  ultimately show ?thesis using az by (simp add: peer_id_from_def azureus_client_def)
qed

text \<open>
  Displaying a peer can panic. An identifier that starts with M and has fewer than two dashes counts as
  Mainline, and formatting it, as the log line for every new peer does, indexes past the end of the parts
  of its version.
\<close>

theorem mainline_display_panics:
  assumes "length i = 20" and "i ! 0 = 77" and "count_list i DASH < 2"
  shows "peer_display (peer_id_from i) = Panics"
proof -
  obtain c where c: "peer_id_from i = KnownPeer c i" "ci_format c = MainlineFormat"
    using mainline_classified [OF assms(1,2)] by blast
  let ?text = "from_utf8_lossy (drop 1 i)"
  have dash: "DASH < 0x80" by (simp add: DASH_def)
  have "count_list (take 1 i @ drop 1 i) DASH = count_list (take 1 i) DASH + count_list (drop 1 i) DASH" by (rule count_list_append)
  then have n: "count_list ?text DASH < 2" using count_lossy_le [OF dash, of "drop 1 i"] assms(3) by simp
  moreover have "19 \<le> length ?text" using length_lossy [of "drop 1 i"] assms(1) by simp
  ultimately have "trim_end DASH ?text \<noteq> []" using trim_end_Nil [of DASH ?text] by auto
  moreover have "length (split_on DASH (trim_end DASH ?text)) < 3"
    using n count_trim_end_le [of DASH ?text] by (simp add: length_split_on)
  ultimately have "peer_version (peer_id_from i) = Panics"
    using c assms(1,2) by (simp add: peer_version_def mainline_version_def Let_def)
  then show ?thesis by (simp add: peer_display_def)
qed

section \<open>Concrete identifiers\<close>

theorem shadowed_clients_witness:
  "\<exists>c. peer_id_from (ascii ''AZ2500BTabcdefghijkl'') = KnownPeer c (ascii ''AZ2500BTabcdefghijkl'') \<and> ci_variant c = ''Abc'' \<and>
     ci_format c \<notin> {OperaFormat, QueenBeeFormat, BitTyrantFormat, AllPeersFormat}"
proof -
  have "peer_id_from (ascii ''AZ2500BTabcdefghijkl'') = KnownPeer (hd shadow_clients) (ascii ''AZ2500BTabcdefghijkl'')" by code_simp
  moreover have "ci_variant (hd shadow_clients) = ''Abc''" by code_simp
  ultimately show ?thesis using shadowed_clients [of "ascii ''AZ2500BTabcdefghijkl''"] by (simp add: ascii_def)
qed

theorem own_id_recognised_witness:
  "peer_version (peer_id_default ''0.0.0'' (replicate 20 97)) = Returns (Some (ascii ''0.0.00''))"
proof -
  have "version_digits ''0.0.0'' = ''0000''" by code_simp
  then show ?thesis using own_id_recognised [of "replicate 20 97" "''0.0.0''"] by simp
qed

theorem mainline_display_panics_witness:
  "peer_display (peer_id_from (77 # replicate 19 97)) = Panics"
proof -
  have "count_list (77 # replicate 19 97) DASH = 0" by code_simp
  then show ?thesis using mainline_display_panics [of "77 # replicate 19 97"] by simp
qed

text \<open>Identifiers of the unit tests of the source.\<close>

lemma known_versions:
  "version_in AzureusFormat (ascii ''-UT1234-abcdefghijkn'') = Returns (Some (ascii ''1.2.34''))"
  "version_in ShadowFormat (ascii ''T58B-----abcdefghijk'') = Returns (Some (ascii ''58B''))"
  "version_in BitCometLegacyFormat (ascii ''exbc'' @ [1, 2] @ ascii ''abcdefghijklmn'') = Returns (Some (ascii ''1.02''))"
  by code_simp+

end
