(* ===== verification/Live_Hub.thy ===== *)
theory Live_Hub
  imports Live_Stream Peer_Id Torrent
begin

text \<open>
  The live projection, \<^verbatim>\<open>live/hub.rs\<close> with the handles of \<^verbatim>\<open>live/handle.rs\<close>, the events of \<^verbatim>\<open>live/event.rs\<close> and the
  views of \<^verbatim>\<open>live/view.rs\<close>: a tree of publishers for the engine, its torrents, and their peers and trackers.
  Shared scopes (\<^verbatim>\<open>Arc\<close>) live in stores and are known by their address there, so a handle that outlives the
  registration of its scope is an address, and \<^verbatim>\<open>Arc::ptr_eq\<close> is equality of addresses. A call of the hub is
  one step; the publication lock of the source orders the publications of a torrent. The floating-point
  progress fraction and the use of a hub that has been dropped, which does nothing, are left out.
\<close>

section \<open>Views and events\<close>

record torrent_view =
  tv_info_hash :: hash
  tv_name :: string
  tv_state :: torrent_state
  tv_auto_start :: bool
  tv_sufficient_peers :: nat
  tv_peer_count :: nat
  tv_tracker_count :: nat
  tv_output_path :: "rel_path option"
  tv_metrics :: torrent_metrics

record peer_view =
  pv_address :: "socket_addr option"
  pv_client :: "byte list option"
  pv_connected :: bool
  pv_metrics :: peer_metrics

definition peer_view_from_metrics :: "socket_addr \<Rightarrow> peer_id \<Rightarrow> bool \<Rightarrow> peer_metrics \<Rightarrow> peer_view" where
  "peer_view_from_metrics addr i connected metrics =
     \<lparr>pv_address = Some addr, pv_client = Some (client_name (peer_id_from i)), pv_connected = connected, pv_metrics = metrics\<rparr>"

datatype tracker_status = StatusPending | StatusHealthy | StatusDegraded | StatusRestarting | StatusStopped

definition status_is_active :: "tracker_status \<Rightarrow> bool" where
  "status_is_active s = (s \<noteq> StatusStopped)"

record tracker_view =
  tkv_endpoint :: string
  tkv_status :: tracker_status
  tkv_metrics :: tracker_metrics

datatype engine_status = EngineStarting | EngineFailed | EngineRunning | EngineStopping | EngineStopped

record engine_view =
  ev_status :: engine_status
  ev_torrents :: "torrent_view list"

datatype health_level = HealthWarning | HealthError

record live_health =
  lh_torrent :: "hash option"
  lh_level :: health_level
  lh_message :: string

datatype peer_event = PeStateChanged | PeMetricsChanged peer_metrics | PeDisconnected

datatype tracker_live_event = TkAnnounceSucceeded nat | TkAnnounceFailed | TkRestarting | TkStopped

type_synonym address = nat

datatype torrent_event =
    TeAdded
  | TeUpdated
  | TeStateChanged torrent_state torrent_state
  | TeMetadataResolved
  | TeMetricsChanged torrent_metrics
  | TePeerConnected address
  | TePeerDisconnected address
  | TeTrackerAnnounceSucceeded address
  | TeTrackerAnnounceFailed address
  | TeTrackerRestarting address
  | TeTrackerStopped address
  | TeHealth live_health
  | TeRemoved

text \<open>A torrent handle is the hash and the address of its publisher.\<close>

type_synonym torrent_handle = "hash \<times> address"

datatype engine_event =
    EeStarted engine_view
  | EeTorrent torrent_handle torrent_event
  | EeHealth live_health
  | EeShutdown engine_view

fun event_torrent :: "engine_event \<Rightarrow> hash option" where
  "event_torrent (EeTorrent hn _) = Some (fst hn)"
| "event_torrent (EeHealth health) = lh_torrent health"
| "event_torrent _ = None"

section \<open>The scope tree\<close>

record peer_scope =
  psc_torrent :: hash
  psc_peer :: peer_id
  psc_pub :: "(peer_view, peer_event) publisher"

record tracker_scope =
  tsc_torrent :: hash
  tsc_id :: nat
  tsc_pub :: "(tracker_view, tracker_live_event) publisher"

record torrent_scope =
  sc_pub :: address
  sc_peers :: "(peer_id \<times> address) list"
  sc_trackers :: "(tracker \<times> address) list"
  sc_handle :: "torrent_handle option"

record live_settings =
  ls_engine_capacity :: nat
  ls_torrent_capacity :: nat
  ls_peer_capacity :: nat
  ls_tracker_capacity :: nat

record hub =
  hub_engine :: "(engine_status, engine_event) publisher"
  hub_torrents :: "(hash \<times> torrent_scope) list"
  hub_settings :: live_settings
  hub_next_tracker :: nat
  hub_torrent_pubs :: "(torrent_view option, torrent_event) publisher list"
  hub_peers :: "peer_scope list"
  hub_trackers :: "tracker_scope list"

definition hub_new :: "live_settings \<Rightarrow> hub" where
  "hub_new settings =
     \<lparr>hub_engine = publisher_new EngineStarting (ls_engine_capacity settings), hub_torrents = [], hub_settings = settings,
      hub_next_tracker = 1, hub_torrent_pubs = [], hub_peers = [], hub_trackers = []\<rparr>"

abbreviation scope_at :: "hub \<Rightarrow> hash \<Rightarrow> torrent_scope option" where
  "scope_at H h \<equiv> map_of (hub_torrents H) h"

abbreviation torrent_pub :: "hub \<Rightarrow> address \<Rightarrow> (torrent_view option, torrent_event) publisher" where
  "torrent_pub H a \<equiv> hub_torrent_pubs H ! a"

definition put_scope :: "hash \<Rightarrow> torrent_scope \<Rightarrow> hub \<Rightarrow> hub" where
  "put_scope h s H = H\<lparr>hub_torrents := AList.update h s (hub_torrents H)\<rparr>"

definition put_torrent_pub :: "address \<Rightarrow> (torrent_view option, torrent_event) publisher \<Rightarrow> hub \<Rightarrow> hub" where
  "put_torrent_pub a p H = H\<lparr>hub_torrent_pubs := (hub_torrent_pubs H)[a := p]\<rparr>"

definition put_peer_pub :: "address \<Rightarrow> (peer_view, peer_event) publisher \<Rightarrow> hub \<Rightarrow> hub" where
  "put_peer_pub a p H = H\<lparr>hub_peers := (hub_peers H)[a := (hub_peers H ! a)\<lparr>psc_pub := p\<rparr>]\<rparr>"

definition put_tracker_pub :: "address \<Rightarrow> (tracker_view, tracker_live_event) publisher \<Rightarrow> hub \<Rightarrow> hub" where
  "put_tracker_pub a p H = H\<lparr>hub_trackers := (hub_trackers H)[a := (hub_trackers H ! a)\<lparr>tsc_pub := p\<rparr>]\<rparr>"

definition engine_emit :: "engine_event \<Rightarrow> hub \<Rightarrow> hub" where
  "engine_emit ev H = H\<lparr>hub_engine := snd (emit_without_view_change ev (hub_engine H))\<rparr>"

section \<open>The engine\<close>

definition registered_view :: "hub \<Rightarrow> hash \<times> torrent_scope \<Rightarrow> torrent_view option" where
  "registered_view H entry = (if sc_handle (snd entry) \<noteq> None then pub_view (torrent_pub H (sc_pub (snd entry))) else None)"

definition hub_view :: "hub \<Rightarrow> engine_view" where
  "hub_view H =
     \<lparr>ev_status = pub_view (hub_engine H),
      ev_torrents = sort_key tv_info_hash (List.map_filter (registered_view H) (hub_torrents H))\<rparr>"

definition engine_started :: "hub \<Rightarrow> hub" where
  "engine_started H =
     (let H1 = H\<lparr>hub_engine := snd (replace_view EngineRunning (hub_engine H))\<rparr> in engine_emit (EeStarted (hub_view H1)) H1)"

definition engine_start_failed :: "string \<Rightarrow> hub \<Rightarrow> hub" where
  "engine_start_failed message H =
     H\<lparr>hub_engine := snd (close_with_terminal_event EngineFailed
        (EeHealth \<lparr>lh_torrent = None, lh_level = HealthError, lh_message = message\<rparr>) (hub_engine H))\<rparr>"

definition engine_stopping :: "hub \<Rightarrow> hub" where
  "engine_stopping H = H\<lparr>hub_engine := snd (replace_view EngineStopping (hub_engine H))\<rparr>"

definition engine_stopped :: "hub \<Rightarrow> hub" where
  "engine_stopped H =
     H\<lparr>hub_engine := snd (close_with_terminal_event EngineStopped (EeShutdown ((hub_view H)\<lparr>ev_status := EngineStopped\<rparr>)) (hub_engine H))\<rparr>"

section \<open>Torrents\<close>

definition ensure_torrent_scope :: "hash \<Rightarrow> hub \<Rightarrow> torrent_scope \<times> hub" where
  "ensure_torrent_scope h H =
     (case scope_at H h of
        Some s \<Rightarrow> (s, H)
      | None \<Rightarrow>
          let s = \<lparr>sc_pub = length (hub_torrent_pubs H), sc_peers = [], sc_trackers = [], sc_handle = None\<rparr>
          in (s, H\<lparr>hub_torrents := hub_torrents H @ [(h, s)],
                  hub_torrent_pubs := hub_torrent_pubs H @ [publisher_new None (ls_torrent_capacity (hub_settings H))]\<rparr>))"

definition torrent_handle_of :: "hash \<Rightarrow> hub \<Rightarrow> torrent_handle option" where
  "torrent_handle_of h H = Option.bind (scope_at H h) sc_handle"

definition initialize_torrent_projection :: "torrent_view \<Rightarrow> hub \<Rightarrow> hub" where
  "initialize_torrent_projection v H =
     (let (s, H1) = ensure_torrent_scope (tv_info_hash v) H
      in put_torrent_pub (sc_pub s) (snd (replace_view (Some v) (torrent_pub H1 (sc_pub s)))) H1)"

definition new_with_hub :: "hash \<Rightarrow> torrent_view option \<Rightarrow> hub \<Rightarrow> torrent_handle \<times> hub" where
  "new_with_hub h initial H =
     (let (s, H1) = ensure_torrent_scope h H
      in ((h, sc_pub s),
          case initial of
            None \<Rightarrow> H1
          | Some v \<Rightarrow> put_torrent_pub (sc_pub s) (snd (install_initial_view v (torrent_pub H1 (sc_pub s)))) H1))"

text \<open>Publication in a torrent scope, repeated on the stream of the engine.\<close>

definition publish :: "torrent_scope \<Rightarrow> torrent_event \<Rightarrow> bool \<times> (torrent_view option, torrent_event) publisher \<Rightarrow> hub \<Rightarrow> hub" where
  "publish s ev result H =
     (case result of
        (False, _) \<Rightarrow> H
      | (True, p) \<Rightarrow>
          let H1 = put_torrent_pub (sc_pub s) p H
          in (case sc_handle s of None \<Rightarrow> H1 | Some hn \<Rightarrow> engine_emit (EeTorrent hn ev) H1))"

definition register_torrent_scope :: "torrent_handle \<Rightarrow> hub \<Rightarrow> hub" where
  "register_torrent_scope hn H =
     (let (s, H1) = ensure_torrent_scope (fst hn) H
      in if sc_handle s \<noteq> None then H1
         else
           let s1 = s\<lparr>sc_handle := Some hn\<rparr>; H2 = put_scope (fst hn) s1 H1
           in if pub_view (torrent_pub H2 (sc_pub s)) = None then H2
              else publish s1 TeAdded (emit_without_view_change TeAdded (torrent_pub H2 (sc_pub s))) H2)"

definition replace_torrent_view_and_emit :: "torrent_view \<Rightarrow> torrent_event \<Rightarrow> hub \<Rightarrow> hub" where
  "replace_torrent_view_and_emit v ev H =
     (case scope_at H (tv_info_hash v) of
        None \<Rightarrow> H
      | Some s \<Rightarrow> publish s ev (replace_view_and_emit (Some v) ev (torrent_pub H (sc_pub s))) H)"

definition emit_without_torrent_view_change :: "torrent_scope \<Rightarrow> torrent_event \<Rightarrow> hub \<Rightarrow> hub" where
  "emit_without_torrent_view_change s ev H =
     (case sc_handle s of
        None \<Rightarrow> H
      | Some _ \<Rightarrow> publish s ev (emit_without_view_change ev (torrent_pub H (sc_pub s))) H)"

definition emit_health :: "hash option \<Rightarrow> health_level \<Rightarrow> string \<Rightarrow> hub \<Rightarrow> hub" where
  "emit_health torrent level message H =
     (let health = \<lparr>lh_torrent = torrent, lh_level = level, lh_message = message\<rparr>
      in case Option.bind torrent (scope_at H) of
           Some s \<Rightarrow> emit_without_torrent_view_change s (TeHealth health) H
         | None \<Rightarrow> engine_emit (EeHealth health) H)"

section \<open>Peers\<close>

definition register_peer_scope :: "hash \<Rightarrow> peer_id \<Rightarrow> peer_view \<Rightarrow> hub \<Rightarrow> address \<times> hub" where
  "register_peer_scope h i view H =
     (let (s, H1) = ensure_torrent_scope h H;
          a = length (hub_peers H1);
          peer = \<lparr>psc_torrent = h, psc_peer = i, psc_pub = publisher_new view (ls_peer_capacity (hub_settings H1))\<rparr>
      in (a, put_scope h (s\<lparr>sc_peers := AList.update i a (sc_peers s)\<rparr>) (H1\<lparr>hub_peers := hub_peers H1 @ [peer]\<rparr>)))"

definition emit_peer_connected :: "address \<Rightarrow> hub \<Rightarrow> hub" where
  "emit_peer_connected a H =
     (case scope_at H (psc_torrent (hub_peers H ! a)) of
        None \<Rightarrow> H
      | Some s \<Rightarrow>
          if map_of (sc_peers s) (psc_peer (hub_peers H ! a)) \<noteq> None
          then emit_without_torrent_view_change s (TePeerConnected a) H else H)"

definition mark_peer_disconnected :: "address \<Rightarrow> hub \<Rightarrow> hub" where
  "mark_peer_disconnected a H =
     (let peer = hub_peers H ! a
      in case scope_at H (psc_torrent peer) of
           None \<Rightarrow> H
         | Some s \<Rightarrow>
             if map_of (sc_peers s) (psc_peer peer) = None then H
             else
               let s1 = s\<lparr>sc_peers := AList.delete (psc_peer peer) (sc_peers s)\<rparr>
               in emit_without_torrent_view_change s1 (TePeerDisconnected a) (put_scope (psc_torrent peer) s1 H))"

definition peer_publish_state :: "address \<Rightarrow> peer_view \<Rightarrow> hub \<Rightarrow> hub" where
  "peer_publish_state a v H = put_peer_pub a (snd (replace_view_and_emit v PeStateChanged (psc_pub (hub_peers H ! a)))) H"

definition peer_publish_metrics :: "address \<Rightarrow> peer_view \<Rightarrow> hub \<Rightarrow> hub" where
  "peer_publish_metrics a v H =
     put_peer_pub a (snd (replace_view_and_emit v (PeMetricsChanged (pv_metrics v)) (psc_pub (hub_peers H ! a)))) H"

definition close_peer :: "address \<Rightarrow> hub \<Rightarrow> bool \<times> hub" where
  "close_peer a H =
     (let p = psc_pub (hub_peers H ! a);
          (closed, p1) = close_with_terminal_event ((pub_view p)\<lparr>pv_connected := False\<rparr>) PeDisconnected p
      in (closed, put_peer_pub a p1 H))"

definition peer_handle_disconnected :: "address \<Rightarrow> hub \<Rightarrow> hub" where
  "peer_handle_disconnected a H = (case close_peer a H of (closed, H1) \<Rightarrow> if closed then mark_peer_disconnected a H1 else H1)"

definition close_peer_without_parent_event :: "address \<Rightarrow> hub \<Rightarrow> hub" where
  "close_peer_without_parent_event a H = snd (close_peer a H)"

definition peer_handles :: "hash \<Rightarrow> hub \<Rightarrow> address list" where
  "peer_handles h H =
     (case scope_at H h of
        None \<Rightarrow> []
      | Some s \<Rightarrow> filter (\<lambda>a. pv_connected (pub_view (psc_pub (hub_peers H ! a)))) (map snd (sc_peers s)))"

definition close_peer_scopes_for_torrent_restart :: "hash \<Rightarrow> hub \<Rightarrow> hub" where
  "close_peer_scopes_for_torrent_restart h H =
     (case scope_at H h of
        None \<Rightarrow> H
      | Some s \<Rightarrow> fold close_peer_without_parent_event (map snd (sc_peers s)) (put_scope h (s\<lparr>sc_peers := []\<rparr>) H))"

section \<open>Trackers\<close>

definition tracker_handles :: "hash \<Rightarrow> hub \<Rightarrow> address list" where
  "tracker_handles h H = (case scope_at H h of None \<Rightarrow> [] | Some s \<Rightarrow> map snd (sc_trackers s))"

definition tracker_handle :: "hash \<Rightarrow> tracker \<Rightarrow> hub \<Rightarrow> address option" where
  "tracker_handle h source H = Option.bind (scope_at H h) (\<lambda>s. map_of (sc_trackers s) source)"

definition key_for_value :: "address \<Rightarrow> ('k \<times> address) list \<Rightarrow> 'k option" where
  "key_for_value a entries = map_option fst (find (\<lambda>(_, b). b = a) entries)"

definition tracker_source :: "address \<Rightarrow> hub \<Rightarrow> tracker option" where
  "tracker_source a H = Option.bind (scope_at H (tsc_torrent (hub_trackers H ! a))) (\<lambda>s. key_for_value a (sc_trackers s))"

definition remove_value :: "address \<Rightarrow> ('k \<times> address) list \<Rightarrow> ('k \<times> address) list" where
  "remove_value a entries = (case key_for_value a entries of None \<Rightarrow> entries | Some k \<Rightarrow> AList.delete k entries)"

definition remove_tracker_scope :: "address \<Rightarrow> hub \<Rightarrow> hub" where
  "remove_tracker_scope a H =
     (let h = tsc_torrent (hub_trackers H ! a)
      in case scope_at H h of None \<Rightarrow> H | Some s \<Rightarrow> put_scope h (s\<lparr>sc_trackers := remove_value a (sc_trackers s)\<rparr>) H)"

definition insert_tracker :: "hash \<Rightarrow> tracker \<Rightarrow> tracker_view \<Rightarrow> torrent_scope \<Rightarrow> hub \<Rightarrow> address \<times> hub" where
  "insert_tracker h source view s H =
     (let a = length (hub_trackers H);
          tr = \<lparr>tsc_torrent = h, tsc_id = hub_next_tracker H, tsc_pub = publisher_new view (ls_tracker_capacity (hub_settings H))\<rparr>
      in (a, put_scope h (s\<lparr>sc_trackers := AList.update source a (sc_trackers s)\<rparr>)
               (H\<lparr>hub_trackers := hub_trackers H @ [tr], hub_next_tracker := hub_next_tracker H + 1\<rparr>)))"

definition register_tracker_scope :: "hash \<Rightarrow> tracker \<Rightarrow> tracker_view \<Rightarrow> hub \<Rightarrow> address \<times> hub" where
  "register_tracker_scope h source view H =
     (let (s, H1) = ensure_torrent_scope h H
      in case map_of (sc_trackers s) source of
           Some a \<Rightarrow>
             if \<not> pub_closed (tsc_pub (hub_trackers H1 ! a)) then (a, H1)
             else insert_tracker h source view (s\<lparr>sc_trackers := remove_value a (sc_trackers s)\<rparr>) H1
         | None \<Rightarrow> insert_tracker h source view s H1)"

definition emit_tracker_event :: "address \<Rightarrow> tracker_live_event \<Rightarrow> hub \<Rightarrow> hub" where
  "emit_tracker_event a event H =
     (case scope_at H (tsc_torrent (hub_trackers H ! a)) of
        None \<Rightarrow> H
      | Some s \<Rightarrow>
          emit_without_torrent_view_change s
            (case event of TkAnnounceSucceeded _ \<Rightarrow> TeTrackerAnnounceSucceeded a | TkAnnounceFailed \<Rightarrow> TeTrackerAnnounceFailed a
                         | TkRestarting \<Rightarrow> TeTrackerRestarting a | TkStopped \<Rightarrow> TeTrackerStopped a) H)"

definition tracker_publish_metrics :: "address \<Rightarrow> tracker_metrics \<Rightarrow> hub \<Rightarrow> hub" where
  "tracker_publish_metrics a metrics H =
     (let p = tsc_pub (hub_trackers H ! a) in put_tracker_pub a (snd (replace_view ((pub_view p)\<lparr>tkv_metrics := metrics\<rparr>) p)) H)"

text \<open>The tracker publishes on its own stream and, if that was open, on the stream of the torrent.\<close>

definition tracker_publish :: "address \<Rightarrow> (tracker_view \<Rightarrow> tracker_view) \<Rightarrow> tracker_live_event \<Rightarrow> hub \<Rightarrow> hub" where
  "tracker_publish a edit event H =
     (let p = tsc_pub (hub_trackers H ! a)
      in case replace_view_and_emit (edit (pub_view p)) event p of
           (False, _) \<Rightarrow> H
         | (True, p1) \<Rightarrow> emit_tracker_event a event (put_tracker_pub a p1 H))"

definition announce_succeeded_view :: "address \<Rightarrow> tracker_metrics \<Rightarrow> hub \<Rightarrow> hub" where
  "announce_succeeded_view a metrics H =
     tracker_publish a (\<lambda>v. v\<lparr>tkv_status := StatusHealthy, tkv_metrics := metrics\<rparr>)
       (TkAnnounceSucceeded (case tmx_latest_peers metrics of None \<Rightarrow> 0 | Some n \<Rightarrow> n)) H"

definition announce_failed_view :: "address \<Rightarrow> tracker_metrics \<Rightarrow> hub \<Rightarrow> hub" where
  "announce_failed_view a metrics H =
     tracker_publish a (\<lambda>v. v\<lparr>tkv_status := StatusDegraded, tkv_metrics := metrics\<rparr>) TkAnnounceFailed H"

definition tracker_restarting :: "address \<Rightarrow> hub \<Rightarrow> hub" where
  "tracker_restarting a H = tracker_publish a (\<lambda>v. v\<lparr>tkv_status := StatusRestarting\<rparr>) TkRestarting H"

definition close_tracker :: "address \<Rightarrow> hub \<Rightarrow> bool \<times> hub" where
  "close_tracker a H =
     (let p = tsc_pub (hub_trackers H ! a);
          (closed, p1) = close_with_terminal_event ((pub_view p)\<lparr>tkv_status := StatusStopped\<rparr>) TkStopped p
      in (closed, remove_tracker_scope a (put_tracker_pub a p1 H)))"

definition tracker_stopped :: "address \<Rightarrow> hub \<Rightarrow> hub" where
  "tracker_stopped a H = (case close_tracker a H of (closed, H1) \<Rightarrow> if closed then emit_tracker_event a TkStopped H1 else H1)"

definition close_tracker_without_parent_event :: "address \<Rightarrow> hub \<Rightarrow> hub" where
  "close_tracker_without_parent_event a H = snd (close_tracker a H)"

section \<open>Removal\<close>

definition close_children :: "torrent_scope \<Rightarrow> hub \<Rightarrow> hub" where
  "close_children s H =
     fold close_tracker_without_parent_event (map snd (sc_trackers s)) (fold close_peer_without_parent_event (map snd (sc_peers s)) H)"

definition remove_torrent_scope :: "hash \<Rightarrow> hub \<Rightarrow> hub" where
  "remove_torrent_scope h H =
     (case scope_at H h of
        None \<Rightarrow> H
      | Some s \<Rightarrow>
          let H1 = close_children s H
          in (case close_with_terminal_event None TeRemoved (torrent_pub H1 (sc_pub s)) of
                (False, _) \<Rightarrow> H1
              | (True, p) \<Rightarrow>
                  let H2 = (put_torrent_pub (sc_pub s) p H1)\<lparr>hub_torrents := AList.delete h (hub_torrents H1)\<rparr>
                  in (case sc_handle s of None \<Rightarrow> H2 | Some hn \<Rightarrow> engine_emit (EeTorrent hn TeRemoved) H2)))"

section \<open>Calls\<close>

datatype hub_call =
    EngineStarted
  | EngineStartFailed string
  | EngineStoppingCall
  | EngineStoppedCall
  | SubscribeEngine
  | SubscribeTorrent address
  | InitializeTorrent torrent_view
  | RegisterTorrent hash "torrent_view option"
  | ReplaceTorrentView torrent_view torrent_event
  | EmitHealth "hash option" health_level string
  | RemoveTorrent hash
  | RegisterPeer hash peer_id peer_view
  | PeerConnectedCall address
  | PeerState address peer_view
  | PeerMetricsCall address peer_view
  | PeerDisconnectedCall address
  | RestartPeers hash
  | RegisterTracker hash tracker tracker_view
  | TrackerMetricsCall address tracker_metrics
  | TrackerSucceeded address tracker_metrics
  | TrackerFailed address tracker_metrics
  | TrackerRestart address
  | TrackerStop address

fun hub_step :: "hub_call \<Rightarrow> hub \<Rightarrow> hub" where
  "hub_step EngineStarted H = engine_started H"
| "hub_step (EngineStartFailed message) H = engine_start_failed message H"
| "hub_step EngineStoppingCall H = engine_stopping H"
| "hub_step EngineStoppedCall H = engine_stopped H"
| "hub_step SubscribeEngine H = H\<lparr>hub_engine := snd (subscribe (hub_engine H))\<rparr>"
| "hub_step (SubscribeTorrent a) H = put_torrent_pub a (snd (subscribe (torrent_pub H a))) H"
| "hub_step (InitializeTorrent v) H = initialize_torrent_projection v H"
| "hub_step (RegisterTorrent h initial) H = (case new_with_hub h initial H of (hn, H1) \<Rightarrow> register_torrent_scope hn H1)"
| "hub_step (ReplaceTorrentView v ev) H = replace_torrent_view_and_emit v ev H"
| "hub_step (EmitHealth torrent level message) H = emit_health torrent level message H"
| "hub_step (RemoveTorrent h) H = remove_torrent_scope h H"
| "hub_step (RegisterPeer h i v) H = snd (register_peer_scope h i v H)"
| "hub_step (PeerConnectedCall a) H = emit_peer_connected a H"
| "hub_step (PeerState a v) H = peer_publish_state a v H"
| "hub_step (PeerMetricsCall a v) H = peer_publish_metrics a v H"
| "hub_step (PeerDisconnectedCall a) H = peer_handle_disconnected a H"
| "hub_step (RestartPeers h) H = close_peer_scopes_for_torrent_restart h H"
| "hub_step (RegisterTracker h source v) H = snd (register_tracker_scope h source v H)"
| "hub_step (TrackerMetricsCall a metrics) H = tracker_publish_metrics a metrics H"
| "hub_step (TrackerSucceeded a metrics) H = announce_succeeded_view a metrics H"
| "hub_step (TrackerFailed a metrics) H = announce_failed_view a metrics H"
| "hub_step (TrackerRestart a) H = tracker_restarting a H"
| "hub_step (TrackerStop a) H = tracker_stopped a H"


text \<open>Handles are obtained by registration, so the addresses of a call exist; a view carries the hash of its torrent.\<close>

fun call_ok :: "hub_call \<Rightarrow> hub \<Rightarrow> bool" where
  "call_ok (SubscribeTorrent a) H = (a < length (hub_torrent_pubs H))"
| "call_ok (RegisterTorrent h initial) H = (case initial of None \<Rightarrow> True | Some v \<Rightarrow> tv_info_hash v = h)"
| "call_ok (PeerConnectedCall a) H = (a < length (hub_peers H))"
| "call_ok (PeerState a v) H = (a < length (hub_peers H))"
| "call_ok (PeerMetricsCall a v) H = (a < length (hub_peers H))"
| "call_ok (PeerDisconnectedCall a) H = (a < length (hub_peers H))"
| "call_ok (TrackerMetricsCall a m) H = (a < length (hub_trackers H))"
| "call_ok (TrackerSucceeded a m) H = (a < length (hub_trackers H))"
| "call_ok (TrackerFailed a m) H = (a < length (hub_trackers H))"
| "call_ok (TrackerRestart a) H = (a < length (hub_trackers H))"
| "call_ok (TrackerStop a) H = (a < length (hub_trackers H))"
| "call_ok _ H = True"

inductive hub_reachable :: "hub \<Rightarrow> bool" where
  start: "hub_reachable (hub_new settings)"
| call: "hub_reachable H \<Longrightarrow> call_ok c H \<Longrightarrow> hub_reachable (hub_step c H)"

section \<open>What an update of a publisher may do\<close>

definition pub_ok :: "('v, 'e) publisher \<Rightarrow> bool" where
  "pub_ok p = (pub_closed p \<longrightarrow> \<not> pub_channel p)"

definition update_ok :: "('v, 'e) publisher \<Rightarrow> ('v, 'e) publisher \<Rightarrow> bool" where
  "update_ok p p' = ((pub_closed p \<longrightarrow> p' = p) \<and> (pub_ok p \<longrightarrow> pub_ok p'))"

lemma update_ok_ops:
  "update_ok p (snd (replace_view v p))" "update_ok p (snd (apply_and_emit f e p))" "update_ok p (snd (replace_view_and_emit v e p))"
  "update_ok p (snd (emit_without_view_change e p))" "update_ok p (snd (close_with_terminal_event v e p))" "update_ok p (snd (subscribe p))"
  "update_ok q (snd (install_initial_view w q))" "update_ok p p"
  by (auto simp: update_ok_def pub_ok_def publisher_defs subscribe_def Let_def)

lemma open_ops:
  "pub_closed (snd (replace_view v p)) = pub_closed p" "pub_closed (snd (apply_and_emit f e p)) = pub_closed p"
  "pub_closed (snd (replace_view_and_emit v e p)) = pub_closed p" "pub_closed (snd (emit_without_view_change e p)) = pub_closed p"
  "pub_closed (snd (subscribe p)) = pub_closed p" "pub_closed (snd (install_initial_view w q)) = pub_closed q"
  by (auto simp: publisher_defs subscribe_def Let_def)

lemma fst_ops:
  "fst (replace_view v p) = (\<not> pub_closed p)" "fst (apply_and_emit f e p) = (\<not> pub_closed p)"
  "fst (replace_view_and_emit v e p) = (\<not> pub_closed p)" "fst (emit_without_view_change e p) = (\<not> pub_closed p)"
  "fst (close_with_terminal_event v e p) = (\<not> pub_closed p)"
  by (auto simp: publisher_defs Let_def)

lemma view_ops:
  "\<not> pub_closed p \<Longrightarrow> pub_view (snd (replace_view v p)) = v" "\<not> pub_closed p \<Longrightarrow> pub_view (snd (replace_view_and_emit v e p)) = v"
  "pub_view (snd (emit_without_view_change e p)) = pub_view p" "\<not> pub_closed p \<Longrightarrow> pub_view (snd (close_with_terminal_event v e p)) = v"
  "pub_view (snd (subscribe p)) = pub_view p"
  by (auto simp: publisher_defs subscribe_def Let_def)

lemma closed_ops:
  "pub_closed p \<Longrightarrow> snd (replace_view v p) = p" "pub_closed p \<Longrightarrow> snd (replace_view_and_emit v e p) = p"
  "pub_closed p \<Longrightarrow> snd (close_with_terminal_event v e p) = p" "pub_closed (snd (close_with_terminal_event v e p))"
  by (auto simp: publisher_defs Let_def)

section \<open>Invariant\<close>

definition scope_ok :: "hub \<Rightarrow> hash \<Rightarrow> torrent_scope \<Rightarrow> bool" where
  "scope_ok H h s =
     (sc_pub s < length (hub_torrent_pubs H) \<and> \<not> pub_closed (torrent_pub H (sc_pub s)) \<and>
      (\<forall>v. pub_view (torrent_pub H (sc_pub s)) = Some v \<longrightarrow> tv_info_hash v = h) \<and>
      (sc_handle s = None \<or> sc_handle s = Some (h, sc_pub s)) \<and>
      distinct (map fst (sc_peers s)) \<and>
      (\<forall>(i, a) \<in> set (sc_peers s). a < length (hub_peers H) \<and> psc_torrent (hub_peers H ! a) = h \<and> psc_peer (hub_peers H ! a) = i) \<and>
      distinct (map fst (sc_trackers s)) \<and>
      (\<forall>(_, a) \<in> set (sc_trackers s). a < length (hub_trackers H) \<and> tsc_torrent (hub_trackers H ! a) = h))"

definition stores_ok :: "hub \<Rightarrow> bool" where
  "stores_ok H =
     (pub_ok (hub_engine H) \<and> list_all pub_ok (hub_torrent_pubs H) \<and>
      list_all (\<lambda>s. pub_closed (psc_pub s) \<longrightarrow> \<not> pv_connected (pub_view (psc_pub s))) (hub_peers H) \<and>
      list_all (\<lambda>s. pub_closed (tsc_pub s) \<longrightarrow> tkv_status (pub_view (tsc_pub s)) = StatusStopped) (hub_trackers H) \<and>
      map tsc_id (hub_trackers H) = [1..<length (hub_trackers H) + 1] \<and> hub_next_tracker H = length (hub_trackers H) + 1)"

definition hub_inv :: "hub \<Rightarrow> bool" where
  "hub_inv H =
     (stores_ok H \<and> distinct (map fst (hub_torrents H)) \<and>
      (\<forall>h s. scope_at H h = Some s \<longrightarrow> scope_ok H h s) \<and>
      (\<forall>h s h' s'. scope_at H h = Some s \<longrightarrow> scope_at H h' = Some s' \<longrightarrow> sc_pub s = sc_pub s' \<longrightarrow> h = h'))"

lemma hub_invD:
  assumes "hub_inv H"
  shows "stores_ok H" "distinct (map fst (hub_torrents H))" "scope_at H h = Some s \<Longrightarrow> scope_ok H h s"
    "scope_at H h = Some s \<Longrightarrow> scope_at H h' = Some s' \<Longrightarrow> sc_pub s = sc_pub s' \<Longrightarrow> h = h'"
  using assms unfolding hub_inv_def by blast+

lemma inv_new: "hub_inv (hub_new settings)"
  by (simp add: hub_inv_def stores_ok_def hub_new_def pub_ok_def publisher_new_def)

text \<open>The parts of the hub that an update leaves alone.\<close>

lemma put_simps [simp]:
  "hub_engine (put_scope h s H) = hub_engine H" "hub_torrent_pubs (put_scope h s H) = hub_torrent_pubs H"
  "hub_peers (put_scope h s H) = hub_peers H" "hub_trackers (put_scope h s H) = hub_trackers H"
  "hub_next_tracker (put_scope h s H) = hub_next_tracker H" "hub_settings (put_scope h s H) = hub_settings H"
  "hub_torrents (put_scope h s H) = AList.update h s (hub_torrents H)"
  "hub_engine (put_torrent_pub a p H) = hub_engine H" "hub_torrents (put_torrent_pub a p H) = hub_torrents H"
  "hub_peers (put_torrent_pub a p H) = hub_peers H" "hub_trackers (put_torrent_pub a p H) = hub_trackers H"
  "hub_next_tracker (put_torrent_pub a p H) = hub_next_tracker H" "hub_torrent_pubs (put_torrent_pub a p H) = (hub_torrent_pubs H)[a := p]"
  "hub_engine (put_peer_pub a q H) = hub_engine H" "hub_torrents (put_peer_pub a q H) = hub_torrents H"
  "hub_torrent_pubs (put_peer_pub a q H) = hub_torrent_pubs H" "hub_trackers (put_peer_pub a q H) = hub_trackers H"
  "hub_next_tracker (put_peer_pub a q H) = hub_next_tracker H"
  "hub_engine (put_tracker_pub a r H) = hub_engine H" "hub_torrents (put_tracker_pub a r H) = hub_torrents H"
  "hub_torrent_pubs (put_tracker_pub a r H) = hub_torrent_pubs H" "hub_peers (put_tracker_pub a r H) = hub_peers H"
  "hub_next_tracker (put_tracker_pub a r H) = hub_next_tracker H"
  "hub_torrents (engine_emit ev H) = hub_torrents H" "hub_torrent_pubs (engine_emit ev H) = hub_torrent_pubs H"
  "hub_peers (engine_emit ev H) = hub_peers H" "hub_trackers (engine_emit ev H) = hub_trackers H"
  "hub_next_tracker (engine_emit ev H) = hub_next_tracker H"
  by (simp_all add: put_scope_def put_torrent_pub_def put_peer_pub_def put_tracker_pub_def engine_emit_def)

lemma nth_update_if: "xs[i := x] ! j = (if j = i \<and> i < length xs then x else xs ! j)"
  by (cases "i < length xs") (auto simp: nth_list_update list_update_beyond)

lemma put_child_simps [simp]:
  "length (hub_peers (put_peer_pub a q H)) = length (hub_peers H)" "length (hub_trackers (put_tracker_pub a r H)) = length (hub_trackers H)"
  "psc_torrent (hub_peers (put_peer_pub a q H) ! b) = psc_torrent (hub_peers H ! b)"
  "psc_peer (hub_peers (put_peer_pub a q H) ! b) = psc_peer (hub_peers H ! b)"
  "tsc_torrent (hub_trackers (put_tracker_pub a r H) ! b) = tsc_torrent (hub_trackers H ! b)"
  "tsc_id (hub_trackers (put_tracker_pub a r H) ! b) = tsc_id (hub_trackers H ! b)"
  "psc_pub (hub_peers (put_peer_pub a q H) ! b) = (if b = a \<and> a < length (hub_peers H) then q else psc_pub (hub_peers H ! b))"
  "tsc_pub (hub_trackers (put_tracker_pub a r H) ! b) = (if b = a \<and> a < length (hub_trackers H) then r else tsc_pub (hub_trackers H ! b))"
  using nth_update_if [of "hub_peers H" a _ b] nth_update_if [of "hub_trackers H" a _ b]
  by (simp_all add: put_peer_pub_def put_tracker_pub_def)

text \<open>Preservation by the elementary updates.\<close>

lemma inv_engine:
  assumes "hub_inv H" and "update_ok (hub_engine H) p"
  shows "hub_inv (H\<lparr>hub_engine := p\<rparr>)"
  using assms by (simp add: hub_inv_def stores_ok_def scope_ok_def update_ok_def)

lemma inv_engine_emit: "hub_inv H \<Longrightarrow> hub_inv (engine_emit ev H)"
  unfolding engine_emit_def by (rule inv_engine) (simp_all add: update_ok_ops)

lemma inv_put_torrent_pub:
  assumes "hub_inv H" and "update_ok (torrent_pub H a) p" and "a < length (hub_torrent_pubs H)"
    and "pub_closed p = pub_closed (torrent_pub H a)"
    and "\<And>h s v. scope_at H h = Some s \<Longrightarrow> sc_pub s = a \<Longrightarrow> pub_view p = Some v \<Longrightarrow> tv_info_hash v = h"
  shows "hub_inv (put_torrent_pub a p H)"
proof -
  have "pub_ok p" using assms(1,2,3) by (simp add: hub_inv_def stores_ok_def update_ok_def list_all_length)
  then have "stores_ok (put_torrent_pub a p H)"
    using hub_invD(1) [OF assms(1)] assms(3) by (auto simp: stores_ok_def list_all_length nth_list_update)
  moreover have "scope_ok (put_torrent_pub a p H) h s" if s: "scope_at H h = Some s" for h s
    using hub_invD(3) [OF assms(1) s] assms(3,4) assms(5) [OF s] by (cases "sc_pub s = a") (auto simp: scope_ok_def)
  ultimately show ?thesis using assms(1) by (simp add: hub_inv_def)
qed

lemma inv_put_scope:
  assumes "hub_inv H" and "scope_at H h = Some s" and "scope_ok H h s'" and "sc_pub s' = sc_pub s"
  shows "hub_inv (put_scope h s' H)"
proof -
  have "scope_ok (put_scope h s' H) k u = scope_ok H k u" for k u by (simp add: scope_ok_def)
  moreover have "stores_ok (put_scope h s' H) = stores_ok H" by (simp add: stores_ok_def)
  ultimately show ?thesis
    using assms by (auto simp: hub_inv_def update_conv' distinct_update)
qed

lemma inv_put_peer_pub:
  assumes "hub_inv H" and "update_ok (psc_pub (hub_peers H ! a)) p" and "pub_closed p \<Longrightarrow> \<not> pv_connected (pub_view p)"
  shows "hub_inv (put_peer_pub a p H)"
proof -
  have "scope_ok (put_peer_pub a p H) k u = scope_ok H k u" for k u
    by (simp add: scope_ok_def)
  moreover have "stores_ok (put_peer_pub a p H)"
    using hub_invD(1) [OF assms(1)] assms(3) by (simp add: stores_ok_def list_all_length)
  ultimately show ?thesis using assms(1) by (auto simp: hub_inv_def)
qed

lemma inv_put_tracker_pub:
  assumes "hub_inv H" and "pub_closed p \<Longrightarrow> tkv_status (pub_view p) = StatusStopped"
  shows "hub_inv (put_tracker_pub a p H)"
proof -
  have "scope_ok (put_tracker_pub a p H) k u = scope_ok H k u" for k u
    by (simp add: scope_ok_def)
  moreover have "map tsc_id (hub_trackers (put_tracker_pub a p H)) = map tsc_id (hub_trackers H)"
    by (rule nth_equalityI) simp_all
  then have "stores_ok (put_tracker_pub a p H)"
    using hub_invD(1) [OF assms(1)] assms(2) by (simp add: stores_ok_def list_all_length)
  ultimately show ?thesis using assms(1) by (auto simp: hub_inv_def)
qed

lemma ensure_scope:
  assumes "hub_inv H" and "ensure_torrent_scope h H = (s, H')"
  shows "hub_inv H'" and "scope_at H' h = Some s" and "hub_engine H' = hub_engine H" and "hub_peers H' = hub_peers H"
    and "hub_trackers H' = hub_trackers H" and "hub_next_tracker H' = hub_next_tracker H" and "hub_settings H' = hub_settings H"
    and "\<exists>ps. hub_torrent_pubs H' = hub_torrent_pubs H @ ps"
    and "\<And>k u. scope_at H k = Some u \<Longrightarrow> scope_at H' k = Some u"
proof -
  show "scope_at H' h = Some s" "hub_engine H' = hub_engine H" "hub_peers H' = hub_peers H" "hub_trackers H' = hub_trackers H"
    "hub_next_tracker H' = hub_next_tracker H" "hub_settings H' = hub_settings H" "\<exists>ps. hub_torrent_pubs H' = hub_torrent_pubs H @ ps"
    "\<And>k u. scope_at H k = Some u \<Longrightarrow> scope_at H' k = Some u"
    using assms(2) by (auto simp: ensure_torrent_scope_def Let_def map_add_def split: option.splits)
  show "hub_inv H'"
  proof (cases "scope_at H h")
    case (Some u)
    then show ?thesis using assms by (simp add: ensure_torrent_scope_def)
  next
    case None
    let ?p = "publisher_new None (ls_torrent_capacity (hub_settings H)) :: (torrent_view option, torrent_event) publisher"
    have H': "H' = H\<lparr>hub_torrents := hub_torrents H @ [(h, s)], hub_torrent_pubs := hub_torrent_pubs H @ [?p]\<rparr>"
      and s: "s = \<lparr>sc_pub = length (hub_torrent_pubs H), sc_peers = [], sc_trackers = [], sc_handle = None\<rparr>"
      using assms(2) None by (auto simp: ensure_torrent_scope_def Let_def)
    have at: "scope_at H' k = (if k = h then Some s else scope_at H k)" for k
      using None by (auto simp: H' map_add_def split: option.splits)
    have old: "scope_ok H' k u" if "scope_at H k = Some u" for k u
      using hub_invD(3) [OF assms(1) that] by (auto simp: scope_ok_def H' nth_append)
    have new: "scope_ok H' h s" by (simp add: scope_ok_def H' s publisher_new_def)
    have "stores_ok H'" using hub_invD(1) [OF assms(1)] by (simp add: stores_ok_def H' publisher_new_def pub_ok_def)
    moreover have "h \<notin> fst ` set (hub_torrents H)" using None by (simp add: map_of_eq_None_iff)
    then have "distinct (map fst (hub_torrents H'))" using hub_invD(2) [OF assms(1)] by (simp add: H')
    moreover have "sc_pub u < sc_pub s" if "scope_at H k = Some u" for k u
      using hub_invD(3) [OF assms(1) that] by (simp add: scope_ok_def s)
    then have "k = k'" if "scope_at H' k = Some u" "scope_at H' k' = Some u'" "sc_pub u = sc_pub u'" for k u k' u'
      using that hub_invD(4) [OF assms(1), of k u k' u'] unfolding at by (cases "k = h"; cases "k' = h") fastforce+
    moreover have "scope_ok H' k u" if "scope_at H' k = Some u" for k u
      using that old new unfolding at by (cases "k = h") auto
    ultimately show ?thesis unfolding hub_inv_def by blast
  qed
qed


section \<open>Every call keeps the invariant\<close>

lemma scope_pub: "hub_inv H \<Longrightarrow> scope_at H h = Some s \<Longrightarrow> sc_pub s < length (hub_torrent_pubs H) \<and> \<not> pub_closed (torrent_pub H (sc_pub s))"
  using hub_invD(3) [of H h s] by (simp add: scope_ok_def)

lemma view_hash:
  "hub_inv H \<Longrightarrow> scope_at H h = Some s \<Longrightarrow> sc_pub s = a \<Longrightarrow> pub_view (torrent_pub H a) = Some v \<Longrightarrow> tv_info_hash v = h"
  using hub_invD(3) [of H h s] by (auto simp: scope_ok_def)

text \<open>Publishing an event, with a view that carries the right hash or with the view as it is.\<close>

lemma inv_publish:
  assumes "hub_inv H" and "scope_at H h = Some u" and "sc_pub s = sc_pub u"
    and "result = replace_view_and_emit (Some v) ev (torrent_pub H (sc_pub s)) \<and> tv_info_hash v = h \<or>
         result = emit_without_view_change ev (torrent_pub H (sc_pub s))"
  shows "hub_inv (publish s ev result H)"
proof -
  let ?p = "torrent_pub H (sc_pub u)"
  have open_pub: "\<not> pub_closed ?p" "sc_pub u < length (hub_torrent_pubs H)" using scope_pub [OF assms(1,2)] by simp_all
  have r: "fst result" "update_ok ?p (snd result)" "pub_closed (snd result) = pub_closed ?p"
    using assms(3,4) open_pub(1) by (auto simp: fst_ops update_ok_ops open_ops)
  have "tv_info_hash w = k" if "scope_at H k = Some u'" "sc_pub u' = sc_pub u" "pub_view (snd result) = Some w" for k u' w
  proof -
    have "k = h" using hub_invD(4) [OF assms(1) that(1) assms(2) that(2)] .
    then show ?thesis
      using assms(3,4) that(3) open_pub(1) view_hash [OF assms(1,2) refl] by (auto simp: view_ops)
  qed
  then have "hub_inv (put_torrent_pub (sc_pub u) (snd result) H)"
    using inv_put_torrent_pub [OF assms(1) r(2) open_pub(2) r(3)] by blast
  then show ?thesis
    using r(1) assms(3) by (cases result) (auto simp: publish_def Let_def inv_engine_emit split: option.split)
qed

lemma inv_emit:
  assumes "hub_inv H" and "scope_at H h = Some s"
  shows "hub_inv (emit_without_torrent_view_change s ev H)"
  using assms inv_publish [OF assms refl] by (auto simp: emit_without_torrent_view_change_def split: option.split)

text \<open>A scope with other peers or trackers.\<close>

lemma inv_peers:
  assumes "hub_inv H" and "scope_at H h = Some s" and "distinct (map fst peers)"
    and "\<And>i a. (i, a) \<in> set peers \<Longrightarrow> a < length (hub_peers H) \<and> psc_torrent (hub_peers H ! a) = h \<and> psc_peer (hub_peers H ! a) = i"
  shows "hub_inv (put_scope h (s\<lparr>sc_peers := peers\<rparr>) H)"
proof (rule inv_put_scope [OF assms(1,2)])
  show "scope_ok H h (s\<lparr>sc_peers := peers\<rparr>)" using hub_invD(3) [OF assms(1,2)] assms(3,4) by (auto simp: scope_ok_def)
qed simp

lemma inv_trackers:
  assumes "hub_inv H" and "scope_at H h = Some s" and "distinct (map fst trackers)"
    and "\<And>k a. (k, a) \<in> set trackers \<Longrightarrow> a < length (hub_trackers H) \<and> tsc_torrent (hub_trackers H ! a) = h"
  shows "hub_inv (put_scope h (s\<lparr>sc_trackers := trackers\<rparr>) H)"
proof (rule inv_put_scope [OF assms(1,2)])
  show "scope_ok H h (s\<lparr>sc_trackers := trackers\<rparr>)" using hub_invD(3) [OF assms(1,2)] assms(3,4) by (auto simp: scope_ok_def)
qed simp

lemma scope_peersD:
  assumes "hub_inv H" and "scope_at H h = Some s"
  shows "distinct (map fst (sc_peers s))"
    and "(i, a) \<in> set (sc_peers s) \<Longrightarrow> a < length (hub_peers H) \<and> psc_torrent (hub_peers H ! a) = h \<and> psc_peer (hub_peers H ! a) = i"
    and "distinct (map fst (sc_trackers s))"
    and "(k, a) \<in> set (sc_trackers s) \<Longrightarrow> a < length (hub_trackers H) \<and> tsc_torrent (hub_trackers H ! a) = h"
  using hub_invD(3) [OF assms] by (auto simp: scope_ok_def)

lemma set_delete: "set (AList.delete k al) \<subseteq> set al"
  by (auto simp: AList.delete_eq)

lemma set_remove_value: "set (remove_value a al) \<subseteq> set al"
  by (auto simp: remove_value_def split: option.split dest: subsetD [OF set_delete])

lemma distinct_remove_value: "distinct (map fst al) \<Longrightarrow> distinct (map fst (remove_value a al))"
  by (simp add: remove_value_def distinct_delete split: option.split)

lemma close_peer_eq:
  "close_peer a H = (\<not> pub_closed (psc_pub (hub_peers H ! a)),
     put_peer_pub a (snd (close_with_terminal_event ((pub_view (psc_pub (hub_peers H ! a)))\<lparr>pv_connected := False\<rparr>) PeDisconnected (psc_pub (hub_peers H ! a)))) H)"
  by (simp add: close_peer_def Let_def split_beta fst_ops)

lemma close_tracker_eq:
  "close_tracker a H = (\<not> pub_closed (tsc_pub (hub_trackers H ! a)),
     remove_tracker_scope a (put_tracker_pub a
       (snd (close_with_terminal_event ((pub_view (tsc_pub (hub_trackers H ! a)))\<lparr>tkv_status := StatusStopped\<rparr>) TkStopped (tsc_pub (hub_trackers H ! a)))) H))"
  by (simp add: close_tracker_def Let_def split_beta fst_ops)

lemma inv_close_peer:
  assumes "hub_inv H" and "a < length (hub_peers H)"
  shows "hub_inv (snd (close_peer a H))"
proof -
  let ?p = "psc_pub (hub_peers H ! a)"
  have "\<not> pv_connected (pub_view (snd (close_with_terminal_event ((pub_view ?p)\<lparr>pv_connected := False\<rparr>) PeDisconnected ?p)))"
    using hub_invD(1) [OF assms(1)] assms(2)
    by (cases "pub_closed ?p") (auto simp: closed_ops view_ops stores_ok_def list_all_length)
  then show ?thesis unfolding close_peer_eq using inv_put_peer_pub [OF assms(1) update_ok_ops(5)] by simp
qed

lemma inv_remove_tracker:
  assumes "hub_inv H"
  shows "hub_inv (remove_tracker_scope a H)"
proof (cases "scope_at H (tsc_torrent (hub_trackers H ! a))")
  case (Some s)
  then show ?thesis
    using inv_trackers [OF assms Some distinct_remove_value [OF scope_peersD(3) [OF assms Some]], of a] scope_peersD(4) [OF assms Some]
      set_remove_value [of a "sc_trackers s"]
    by (auto simp: remove_tracker_scope_def)
qed (simp add: remove_tracker_scope_def assms)

lemma inv_close_tracker:
  assumes "hub_inv H" and "a < length (hub_trackers H)"
  shows "hub_inv (snd (close_tracker a H))"
proof -
  let ?p = "tsc_pub (hub_trackers H ! a)"
  have "tkv_status (pub_view (snd (close_with_terminal_event ((pub_view ?p)\<lparr>tkv_status := StatusStopped\<rparr>) TkStopped ?p))) = StatusStopped"
    using hub_invD(1) [OF assms(1)] assms(2)
    by (cases "pub_closed ?p") (auto simp: closed_ops view_ops stores_ok_def list_all_length)
  then show ?thesis unfolding close_tracker_eq using inv_remove_tracker [OF inv_put_tracker_pub [OF assms(1)]] by simp
qed

lemma remove_tracker_simps [simp]:
  "hub_engine (remove_tracker_scope a H) = hub_engine H" "hub_torrent_pubs (remove_tracker_scope a H) = hub_torrent_pubs H"
  "hub_peers (remove_tracker_scope a H) = hub_peers H" "hub_trackers (remove_tracker_scope a H) = hub_trackers H"
  by (simp_all add: remove_tracker_scope_def Let_def split: option.split)

lemma close_simps [simp]:
  "hub_engine (snd (close_peer a H)) = hub_engine H" "hub_torrent_pubs (snd (close_peer a H)) = hub_torrent_pubs H"
  "length (hub_peers (snd (close_peer a H))) = length (hub_peers H)" "hub_trackers (snd (close_peer a H)) = hub_trackers H"
  "hub_torrents (snd (close_peer a H)) = hub_torrents H"
  "hub_engine (snd (close_tracker b H)) = hub_engine H" "hub_torrent_pubs (snd (close_tracker b H)) = hub_torrent_pubs H"
  "hub_peers (snd (close_tracker b H)) = hub_peers H" "length (hub_trackers (snd (close_tracker b H))) = length (hub_trackers H)"
  by (simp_all add: close_peer_eq close_tracker_eq)

lemma fold_close_peers:
  "hub_inv H \<Longrightarrow> \<forall>a \<in> set as. a < length (hub_peers H) \<Longrightarrow>
     hub_inv (fold close_peer_without_parent_event as H) \<and>
     hub_engine (fold close_peer_without_parent_event as H) = hub_engine H \<and>
     hub_torrent_pubs (fold close_peer_without_parent_event as H) = hub_torrent_pubs H \<and>
     hub_torrents (fold close_peer_without_parent_event as H) = hub_torrents H \<and>
     hub_trackers (fold close_peer_without_parent_event as H) = hub_trackers H \<and>
     length (hub_peers (fold close_peer_without_parent_event as H)) = length (hub_peers H)"
  by (induction as arbitrary: H) (simp_all add: close_peer_without_parent_event_def inv_close_peer)

lemma fold_close_trackers:
  "hub_inv H \<Longrightarrow> \<forall>a \<in> set as. a < length (hub_trackers H) \<Longrightarrow>
     hub_inv (fold close_tracker_without_parent_event as H) \<and>
     hub_engine (fold close_tracker_without_parent_event as H) = hub_engine H \<and>
     hub_torrent_pubs (fold close_tracker_without_parent_event as H) = hub_torrent_pubs H \<and>
     hub_peers (fold close_tracker_without_parent_event as H) = hub_peers H \<and>
     length (hub_trackers (fold close_tracker_without_parent_event as H)) = length (hub_trackers H)"
  by (induction as arbitrary: H) (simp_all add: close_tracker_without_parent_event_def inv_close_tracker)

lemma close_children_frame:
  assumes "hub_inv H" and "scope_at H h = Some s"
  shows "hub_inv (close_children s H)" and "hub_engine (close_children s H) = hub_engine H"
    and "hub_torrent_pubs (close_children s H) = hub_torrent_pubs H"
proof -
  have "\<forall>a \<in> set (map snd (sc_peers s)). a < length (hub_peers H)" "\<forall>a \<in> set (map snd (sc_trackers s)). a < length (hub_trackers H)"
    using scope_peersD(2,4) [OF assms] by auto
  then show "hub_inv (close_children s H)" "hub_engine (close_children s H) = hub_engine H"
    "hub_torrent_pubs (close_children s H) = hub_torrent_pubs H"
    using fold_close_peers [OF assms(1), of "map snd (sc_peers s)"] fold_close_trackers [of _ "map snd (sc_trackers s)"]
    by (simp_all add: close_children_def)
qed


text \<open>Publisher and handle of a scope, which the registration of peers and trackers does not touch.\<close>

definition scope_key :: "hub \<Rightarrow> hash \<Rightarrow> (address \<times> torrent_handle option) option" where
  "scope_key H h = map_option (\<lambda>s. (sc_pub s, sc_handle s)) (scope_at H h)"

lemma scope_key_put_scope: "scope_at H h = Some s \<Longrightarrow> sc_pub s' = sc_pub s \<Longrightarrow> sc_handle s' = sc_handle s \<Longrightarrow> scope_key (put_scope h s' H) k = scope_key H k"
  by (simp add: scope_key_def update_conv')

lemma scope_key_close_tracker: "scope_key (snd (close_tracker a H)) k = scope_key H k"
proof -
  have "scope_key (remove_tracker_scope a H) k = scope_key H k" for H
    by (auto simp: remove_tracker_scope_def Let_def scope_key_put_scope split: option.split)
  then show ?thesis by (simp add: close_tracker_eq scope_key_def)
qed

lemma scope_key_close_children:
  assumes "hub_inv H" and "scope_at H h = Some s"
  shows "scope_key (close_children s H) k = scope_key H k"
proof -
  have "scope_key (fold close_tracker_without_parent_event as H') k = scope_key H' k" for as H'
    by (induction as arbitrary: H') (simp_all add: close_tracker_without_parent_event_def scope_key_close_tracker)
  moreover have "\<forall>a \<in> set (map snd (sc_peers s)). a < length (hub_peers H)" using scope_peersD(2) [OF assms] by auto
  then have "hub_torrents (fold close_peer_without_parent_event (map snd (sc_peers s)) H) = hub_torrents H"
    using fold_close_peers [OF assms(1)] by blast
  ultimately show ?thesis by (simp add: close_children_def scope_key_def)
qed

lemma remove_torrent_eq:
  assumes "scope_at H h = Some s" and "\<not> pub_closed (torrent_pub (close_children s H) (sc_pub s))"
  defines "H2 \<equiv> (put_torrent_pub (sc_pub s) (snd (close_with_terminal_event None TeRemoved (torrent_pub (close_children s H) (sc_pub s)))) (close_children s H))
       \<lparr>hub_torrents := AList.delete h (hub_torrents (close_children s H))\<rparr>"
  shows "remove_torrent_scope h H = (case sc_handle s of None \<Rightarrow> H2 | Some hn \<Rightarrow> engine_emit (EeTorrent hn TeRemoved) H2)"
proof -
  obtain p where "close_with_terminal_event None TeRemoved (torrent_pub (close_children s H) (sc_pub s)) = (True, p)"
    using assms(2) by (cases "close_with_terminal_event None TeRemoved (torrent_pub (close_children s H) (sc_pub s))")
      (auto dest: arg_cong [of _ _ fst] simp: fst_ops)
  then show ?thesis unfolding H2_def using assms(1) by (simp add: remove_torrent_scope_def Let_def split: option.split)
qed

lemma inv_remove_torrent:
  assumes "hub_inv H"
  shows "hub_inv (remove_torrent_scope h H)"
proof (cases "scope_at H h")
  case (Some s)
  let ?H1 = "close_children s H" and ?a = "sc_pub s"
  note c = close_children_frame [OF assms Some]
  let ?p = "snd (close_with_terminal_event None TeRemoved (torrent_pub ?H1 ?a))"
  let ?H2 = "(put_torrent_pub ?a ?p ?H1)\<lparr>hub_torrents := AList.delete h (hub_torrents ?H1)\<rparr>"
  have a: "?a < length (hub_torrent_pubs ?H1)" "\<not> pub_closed (torrent_pub ?H1 ?a)"
    using scope_pub [OF assms Some] c(3) by simp_all
  have at: "scope_at ?H2 k = (if k = h then None else scope_at ?H1 k)" for k by (simp add: delete_conv')
  obtain s1 where s1: "scope_at ?H1 h = Some s1" "sc_pub s1 = ?a"
    using scope_key_close_children [OF assms Some, of h] Some by (auto simp: scope_key_def)
  have ok: "scope_ok ?H2 k u" if "scope_at ?H2 k = Some u" for k u
  proof -
    have k: "k \<noteq> h" "scope_at ?H1 k = Some u" using that unfolding at by (auto split: if_splits)
    then have "sc_pub u \<noteq> ?a" using hub_invD(4) [OF c(1) k(2) s1(1)] s1(2) by metis
    then show ?thesis using hub_invD(3) [OF c(1) k(2)] by (simp add: scope_ok_def)
  qed
  have "pub_ok ?p" using update_ok_ops(5) [of "torrent_pub ?H1 ?a"] hub_invD(1) [OF c(1)] a(1)
    by (auto simp: update_ok_def stores_ok_def list_all_length)
  then have "stores_ok ?H2" using hub_invD(1) [OF c(1)] a(1) by (auto simp: stores_ok_def list_all_length nth_list_update)
  moreover have "distinct (map fst (hub_torrents ?H2))" using hub_invD(2) [OF c(1)] by (simp add: distinct_delete)
  moreover have "k = k'" if "scope_at ?H2 k = Some u" "scope_at ?H2 k' = Some u'" "sc_pub u = sc_pub u'" for k u k' u'
    using that hub_invD(4) [OF c(1), of k u k' u'] unfolding at by (auto split: if_splits)
  ultimately have "hub_inv ?H2" unfolding hub_inv_def using ok by blast
  moreover have "remove_torrent_scope h H = (case sc_handle s of None \<Rightarrow> ?H2 | Some hn \<Rightarrow> engine_emit (EeTorrent hn TeRemoved) ?H2)"
    by (rule remove_torrent_eq [OF Some a(2)])
  ultimately show ?thesis by (auto simp: inv_engine_emit split: option.split)
qed (simp add: remove_torrent_scope_def assms)

lemma inv_initialize: "hub_inv H \<Longrightarrow> hub_inv (initialize_torrent_projection v H)"
proof -
  assume H: "hub_inv H"
  obtain s H1 where e: "ensure_torrent_scope (tv_info_hash v) H = (s, H1)" by force
  note i = ensure_scope(1,2) [OF H e]
  have "tv_info_hash w = k" if "scope_at H1 k = Some u" "sc_pub u = sc_pub s" "pub_view (snd (replace_view (Some v) (torrent_pub H1 (sc_pub s)))) = Some w" for k u w
    using hub_invD(4) [OF i(1) that(1) i(2) that(2)] that(3) scope_pub [OF i] by (simp add: view_ops)
  then show ?thesis
    using inv_put_torrent_pub [OF i(1) update_ok_ops(1) _ open_ops(1)] scope_pub [OF i] e by (simp add: initialize_torrent_projection_def)
qed

lemma inv_new_with_hub:
  assumes "hub_inv H" and "new_with_hub h initial H = (hn, H')" and "\<And>v. initial = Some v \<Longrightarrow> tv_info_hash v = h"
  shows "hub_inv H'" and "fst hn = h" and "\<exists>s. scope_at H' h = Some s \<and> sc_pub s = snd hn"
proof -
  obtain s H1 where e: "ensure_torrent_scope h H = (s, H1)" by force
  note i = ensure_scope(1,2) [OF assms(1) e]
  show "fst hn = h" "\<exists>s. scope_at H' h = Some s \<and> sc_pub s = snd hn"
    using assms(2) e i(2) by (auto simp: new_with_hub_def split: option.splits)
  show "hub_inv H'"
  proof (cases initial)
    case (Some v)
    have "tv_info_hash w = k" if "scope_at H1 k = Some u" "sc_pub u = sc_pub s" "pub_view (snd (install_initial_view v (torrent_pub H1 (sc_pub s)))) = Some w" for k u w
      using hub_invD(4) [OF i(1) that(1) i(2) that(2)] that(3) assms(3) [OF Some] view_hash [OF i refl]
      by (auto simp: install_initial_view_def split: if_splits)
    then show ?thesis
      using inv_put_torrent_pub [OF i(1) update_ok_ops(7) _ open_ops(6)] scope_pub [OF i] e Some assms(2) by (auto simp: new_with_hub_def)
  next
    case None
    then show ?thesis using assms(2) e i(1) by (simp add: new_with_hub_def)
  qed
qed

lemma inv_register_torrent:
  assumes "hub_inv H" and "scope_at H h = Some s" and "hn = (h, sc_pub s)"
  shows "hub_inv (register_torrent_scope hn H)"
proof -
  let ?s1 = "s\<lparr>sc_handle := Some hn\<rparr>" let ?H2 = "put_scope h ?s1 H"
  have e: "ensure_torrent_scope h H = (s, H)" using assms(2) by (simp add: ensure_torrent_scope_def)
  have "scope_ok H h ?s1" using hub_invD(3) [OF assms(1,2)] assms(3) by (simp add: scope_ok_def)
  then have H2: "hub_inv ?H2" using inv_put_scope [OF assms(1,2)] by simp
  have "scope_at ?H2 h = Some ?s1" by (simp add: update_conv')
  then show ?thesis using inv_publish [OF H2 _ refl, of h ?s1] H2 assms(1,3) e by (simp add: register_torrent_scope_def Let_def)
qed

lemma inv_register_peer:
  assumes "hub_inv H"
  shows "hub_inv (snd (register_peer_scope h i v H))"
proof -
  obtain s H1 where e: "ensure_torrent_scope h H = (s, H1)" by force
  note inv = ensure_scope(1,2) [OF assms e]
  let ?peer = "\<lparr>psc_torrent = h, psc_peer = i, psc_pub = publisher_new v (ls_peer_capacity (hub_settings H1))\<rparr>"
  let ?H2 = "H1\<lparr>hub_peers := hub_peers H1 @ [?peer]\<rparr>"
  have "scope_ok ?H2 k u" if "scope_at H1 k = Some u" for k u
    using hub_invD(3) [OF inv(1) that] by (auto simp: scope_ok_def nth_append)
  moreover have "stores_ok ?H2" using hub_invD(1) [OF inv(1)] by (simp add: stores_ok_def publisher_new_def)
  ultimately have H2: "hub_inv ?H2" using inv(1) by (simp add: hub_inv_def)
  have "distinct (map fst (AList.update i (length (hub_peers H1)) (sc_peers s)))" using scope_peersD(1) [OF inv] by (simp add: distinct_update)
  moreover have "a < length (hub_peers ?H2) \<and> psc_torrent (hub_peers ?H2 ! a) = h \<and> psc_peer (hub_peers ?H2 ! a) = j"
    if "(j, a) \<in> set (AList.update i (length (hub_peers H1)) (sc_peers s))" for j a
    using that set_alist_update [of i "length (hub_peers H1)" "sc_peers s"] scope_peersD(2) [OF inv, of j a] by (auto simp: nth_append)
  ultimately show ?thesis using inv_peers [OF H2, of h s] inv(2) e by (simp add: register_peer_scope_def Let_def)
qed

lemma inv_insert_tracker:
  assumes "hub_inv H" and "scope_at H h = Some s" and "distinct (map fst trs)" and "set trs \<subseteq> set (sc_trackers s)"
  shows "hub_inv (snd (insert_tracker h source v (s\<lparr>sc_trackers := trs\<rparr>) H))"
proof -
  let ?tr = "\<lparr>tsc_torrent = h, tsc_id = hub_next_tracker H, tsc_pub = publisher_new v (ls_tracker_capacity (hub_settings H))\<rparr>"
  let ?H2 = "H\<lparr>hub_trackers := hub_trackers H @ [?tr], hub_next_tracker := hub_next_tracker H + 1\<rparr>"
  have "scope_ok ?H2 k u" if "scope_at H k = Some u" for k u
    using hub_invD(3) [OF assms(1) that] by (auto simp: scope_ok_def nth_append)
  moreover have "stores_ok ?H2" using hub_invD(1) [OF assms(1)] by (simp add: stores_ok_def publisher_new_def)
  ultimately have H2: "hub_inv ?H2" using assms(1) by (simp add: hub_inv_def)
  have "distinct (map fst (AList.update source (length (hub_trackers H)) trs))" using assms(3) by (simp add: distinct_update)
  moreover have "a < length (hub_trackers ?H2) \<and> tsc_torrent (hub_trackers ?H2 ! a) = h"
    if "(k, a) \<in> set (AList.update source (length (hub_trackers H)) trs)" for k a
  proof -
    have "a = length (hub_trackers H) \<or> (k, a) \<in> set (sc_trackers s)"
      using that set_alist_update [of source "length (hub_trackers H)" trs] assms(4) by auto
    then show ?thesis using scope_peersD(4) [OF assms(1,2), of k a] by (auto simp: nth_append)
  qed
  ultimately show ?thesis using inv_trackers [OF H2, of h s] assms(2) by (simp add: insert_tracker_def Let_def)
qed


lemma inv_register_tracker:
  assumes "hub_inv H"
  shows "hub_inv (snd (register_tracker_scope h source v H))"
proof -
  obtain s H1 where e: "ensure_torrent_scope h H = (s, H1)" by force
  note inv = ensure_scope(1,2) [OF assms e]
  note ins = inv_insert_tracker [OF inv, of _ source v]
  have "s = s\<lparr>sc_trackers := sc_trackers s\<rparr>" by simp
  then have "hub_inv (snd (insert_tracker h source v s H1))" using ins [of "sc_trackers s"] scope_peersD(3) [OF inv] by simp
  moreover have "hub_inv (snd (insert_tracker h source v (s\<lparr>sc_trackers := remove_value a (sc_trackers s)\<rparr>) H1))" for a
    using ins [of "remove_value a (sc_trackers s)"] distinct_remove_value [OF scope_peersD(3) [OF inv]] set_remove_value by blast
  ultimately show ?thesis using inv(1) e by (simp add: register_tracker_scope_def split: option.split)
qed

lemma inv_mark_peer:
  assumes "hub_inv H"
  shows "hub_inv (mark_peer_disconnected a H)"
proof (cases "scope_at H (psc_torrent (hub_peers H ! a))")
  case (Some s)
  let ?s1 = "s\<lparr>sc_peers := AList.delete (psc_peer (hub_peers H ! a)) (sc_peers s)\<rparr>"
  have "hub_inv (put_scope (psc_torrent (hub_peers H ! a)) ?s1 H)"
    using inv_peers [OF assms Some distinct_delete [OF scope_peersD(1) [OF assms Some]]] scope_peersD(2) [OF assms Some]
      set_delete [of _ "sc_peers s"] by blast
  then show ?thesis
    using inv_emit [of "put_scope (psc_torrent (hub_peers H ! a)) ?s1 H" "psc_torrent (hub_peers H ! a)" ?s1] Some assms
    by (simp add: mark_peer_disconnected_def Let_def update_conv')
qed (simp add: mark_peer_disconnected_def assms)

lemma inv_tracker_event: "hub_inv H \<Longrightarrow> hub_inv (emit_tracker_event a ev H)"
  using inv_emit [of H] by (simp add: emit_tracker_event_def split: option.split)

lemma inv_tracker_publish:
  assumes "hub_inv H"
  shows "hub_inv (tracker_publish a edit ev H)"
proof (cases "replace_view_and_emit (edit (pub_view (tsc_pub (hub_trackers H ! a)))) ev (tsc_pub (hub_trackers H ! a))")
  case (Pair ok p)
  have "\<not> pub_closed p" if ok
    using that fst_ops(3) open_ops(3) Pair by (metis fst_conv snd_conv)
  then show ?thesis
    using Pair inv_tracker_event [OF inv_put_tracker_pub [OF assms, of p a]] assms by (cases ok) (simp_all add: tracker_publish_def)
qed

lemma inv_restart_peers:
  assumes "hub_inv H"
  shows "hub_inv (close_peer_scopes_for_torrent_restart h H)"
proof (cases "scope_at H h")
  case (Some s)
  have "hub_inv (put_scope h (s\<lparr>sc_peers := []\<rparr>) H)" using inv_peers [OF assms Some, of "[]"] by simp
  moreover have "\<forall>a \<in> set (map snd (sc_peers s)). a < length (hub_peers H)" using scope_peersD(2) [OF assms Some] by auto
  ultimately show ?thesis using fold_close_peers [of "put_scope h (s\<lparr>sc_peers := []\<rparr>) H"] Some
    by (simp add: close_peer_scopes_for_torrent_restart_def)
qed (simp add: close_peer_scopes_for_torrent_restart_def assms)

lemma closed_children:
  assumes "hub_inv H"
  shows "a < length (hub_peers H) \<Longrightarrow> pub_closed (psc_pub (hub_peers H ! a)) \<Longrightarrow> \<not> pv_connected (pub_view (psc_pub (hub_peers H ! a)))"
    and "b < length (hub_trackers H) \<Longrightarrow> pub_closed (tsc_pub (hub_trackers H ! b)) \<Longrightarrow> tkv_status (pub_view (tsc_pub (hub_trackers H ! b))) = StatusStopped"
  using hub_invD(1) [OF assms] by (simp_all add: stores_ok_def list_all_length)

lemma inv_peer_put:
  assumes "hub_inv H" and "a < length (hub_peers H)"
  shows "hub_inv (put_peer_pub a (snd (replace_view_and_emit v ev (psc_pub (hub_peers H ! a)))) H)"
proof (rule inv_put_peer_pub [OF assms(1) update_ok_ops(3)])
  assume c: "pub_closed (snd (replace_view_and_emit v ev (psc_pub (hub_peers H ! a))))"
  then show "\<not> pv_connected (pub_view (snd (replace_view_and_emit v ev (psc_pub (hub_peers H ! a)))))"
    using closed_children(1) [OF assms] by (simp add: open_ops closed_ops)
qed

lemma inv_tracker_metrics:
  assumes "hub_inv H" and "a < length (hub_trackers H)"
  shows "hub_inv (tracker_publish_metrics a m H)"
  unfolding tracker_publish_metrics_def Let_def
proof (rule inv_put_tracker_pub [OF assms(1)])
  let ?q = "snd (replace_view ((pub_view (tsc_pub (hub_trackers H ! a)))\<lparr>tkv_metrics := m\<rparr>) (tsc_pub (hub_trackers H ! a)))"
  assume "pub_closed ?q"
  then show "tkv_status (pub_view ?q) = StatusStopped" using closed_children(2) [OF assms] by (simp add: open_ops closed_ops)
qed

lemma inv_peer_handle_disconnected: "hub_inv H \<Longrightarrow> a < length (hub_peers H) \<Longrightarrow> hub_inv (peer_handle_disconnected a H)"
  using inv_close_peer [of H a] inv_mark_peer by (auto simp: peer_handle_disconnected_def split: prod.split)

lemma inv_tracker_stopped: "hub_inv H \<Longrightarrow> a < length (hub_trackers H) \<Longrightarrow> hub_inv (tracker_stopped a H)"
  using inv_close_tracker [of H a] inv_tracker_event by (auto simp: tracker_stopped_def split: prod.split)

lemma inv_replace_torrent: "hub_inv H \<Longrightarrow> hub_inv (replace_torrent_view_and_emit v ev H)"
  using inv_publish [of H "tv_info_hash v" _ _ _ v ev] by (auto simp: replace_torrent_view_and_emit_def split: option.split)

lemma inv_health: "hub_inv H \<Longrightarrow> hub_inv (emit_health t l m H)"
  using inv_emit [of H] inv_engine_emit [of H] by (auto simp: emit_health_def Let_def bind_eq_Some_conv split: option.split)

lemma inv_step:
  assumes "hub_inv H" and "call_ok c H"
  shows "hub_inv (hub_step c H)"
proof (cases c)
  case EngineStarted
  have "hub_inv (H\<lparr>hub_engine := snd (replace_view EngineRunning (hub_engine H))\<rparr>)" by (rule inv_engine) (simp_all add: assms(1) update_ok_ops)
  then show ?thesis using EngineStarted by (simp add: engine_started_def Let_def inv_engine_emit)
next
  case (SubscribeTorrent a)
  then show ?thesis
    using assms inv_put_torrent_pub [OF assms(1) update_ok_ops(6) _ open_ops(5)] view_hash [OF assms(1)] by (simp add: view_ops)
next
  case (RegisterTorrent h initial)
  obtain hn H1 where n: "new_with_hub h initial H = (hn, H1)" by (cases "new_with_hub h initial H")
  have "\<And>v. initial = Some v \<Longrightarrow> tv_info_hash v = h" using assms(2) RegisterTorrent by simp
  note i = inv_new_with_hub [OF assms(1) n this]
  then obtain s where "scope_at H1 h = Some s" "hn = (h, sc_pub s)" by (metis prod.collapse)
  then show ?thesis using inv_register_torrent [OF i(1)] n RegisterTorrent by simp
next
  case (PeerConnectedCall a)
  then show ?thesis using assms(1) inv_emit [OF assms(1)] by (simp add: emit_peer_connected_def split: option.split)
qed (use assms in \<open>simp_all add: engine_start_failed_def engine_stopping_def engine_stopped_def inv_engine update_ok_ops inv_initialize
  inv_replace_torrent inv_health inv_remove_torrent inv_register_peer peer_publish_state_def peer_publish_metrics_def inv_peer_put
  inv_peer_handle_disconnected inv_restart_peers inv_register_tracker inv_tracker_metrics announce_succeeded_view_def announce_failed_view_def
  tracker_restarting_def inv_tracker_publish inv_tracker_stopped\<close>)

lemma reachable_inv: "hub_reachable H \<Longrightarrow> hub_inv H"
  by (induction rule: hub_reachable.induct) (simp_all add: inv_new inv_step)

end
