(* ===== verification/Live_Mirror.thy ===== *)
theory Live_Mirror
  imports Live_Hub
begin

text \<open>
  What the listeners of the live projection see (\<^verbatim>\<open>live/hub.rs\<close>): the engine's stream repeats the stream of every
  registered torrent, the removal of a torrent closes the whole tree below it, and the engine's view is
  the list of the registered torrents. The results hold in every state that calls of the hub can reach.
\<close>

section \<open>The engine repeats the stream of a torrent\<close>

definition mirrored :: "torrent_handle \<Rightarrow> (nat \<times> engine_event) list \<Rightarrow> torrent_event list" where
  "mirrored hn es = List.map_filter (\<lambda>(_, e). case e of EeTorrent hn' ev \<Rightarrow> if hn' = hn then Some ev else None | _ \<Rightarrow> None) es"

lemma mirrored_simps [simp]:
  "mirrored hn [] = []" "mirrored hn (es @ fs) = mirrored hn es @ mirrored hn fs"
  "mirrored hn [(n, EeTorrent hn' ev)] = (if hn' = hn then [ev] else [])" "mirrored hn [(n, EeStarted v)] = []"
  "mirrored hn [(n, EeHealth l)] = []" "mirrored hn [(n, EeShutdown v)] = []"
  by (simp_all add: mirrored_def List.map_filter_def)

text \<open>A torrent whose handle has been given out, with listeners on its stream and on that of the engine.\<close>

definition tracked :: "torrent_handle \<Rightarrow> hub \<Rightarrow> bool" where
  "tracked hn H =
     (snd hn < length (hub_torrent_pubs H) \<and> (pub_closed (hub_engine H) \<or> pub_channel (hub_engine H)) \<and>
      (pub_closed (torrent_pub H (snd hn)) \<or> pub_channel (torrent_pub H (snd hn))) \<and>
      (\<forall>k s. scope_at H k = Some s \<longrightarrow> sc_pub s = snd hn \<longrightarrow> sc_handle s = Some hn))"

definition mirror_step :: "torrent_handle \<Rightarrow> hub \<Rightarrow> hub \<Rightarrow> bool" where
  "mirror_step hn H H' =
     (tracked hn H' \<and> (pub_closed (hub_engine H) \<longrightarrow> pub_closed (hub_engine H')) \<and>
      (\<not> pub_closed (hub_engine H') \<longrightarrow>
        (\<exists>es fs. pub_sent (torrent_pub H' (snd hn)) = pub_sent (torrent_pub H (snd hn)) @ es \<and>
                 pub_sent (hub_engine H') = pub_sent (hub_engine H) @ fs \<and> mirrored hn fs = map snd es)))"

lemma mirror_refl: "tracked hn H \<Longrightarrow> mirror_step hn H H"
  by (simp add: mirror_step_def)

lemma mirror_trans:
  assumes "mirror_step hn H H'" and "mirror_step hn H' H''"
  shows "mirror_step hn H H''"
proof -
  have "\<exists>es fs. pub_sent (torrent_pub H'' (snd hn)) = pub_sent (torrent_pub H (snd hn)) @ es \<and>
      pub_sent (hub_engine H'') = pub_sent (hub_engine H) @ fs \<and> mirrored hn fs = map snd es" if o: "\<not> pub_closed (hub_engine H'')"
  proof -
    obtain es fs es' fs' where
      "pub_sent (torrent_pub H' (snd hn)) = pub_sent (torrent_pub H (snd hn)) @ es" "pub_sent (hub_engine H') = pub_sent (hub_engine H) @ fs"
      "pub_sent (torrent_pub H'' (snd hn)) = pub_sent (torrent_pub H' (snd hn)) @ es'" "pub_sent (hub_engine H'') = pub_sent (hub_engine H') @ fs'"
      "mirrored hn fs = map snd es" "mirrored hn fs' = map snd es'"
      using assms o unfolding mirror_step_def by blast
    then show ?thesis by (intro exI [of _ "es @ es'"] exI [of _ "fs @ fs'"]) simp
  qed
  then show ?thesis using assms by (simp add: mirror_step_def)
qed

lemma mirror_tracked: "mirror_step hn H H' \<Longrightarrow> tracked hn H'"
  by (simp add: mirror_step_def)

lemma mirror_then: "mirror_step hn H H' \<Longrightarrow> (tracked hn H' \<Longrightarrow> mirror_step hn H' H'') \<Longrightarrow> mirror_step hn H H''"
  using mirror_trans mirror_tracked by blast

text \<open>Changes that publish nothing and keep what identifies a scope, new scopes apart.\<close>

lemma mirror_frame:
  assumes "tracked hn H" and "hub_engine H' = hub_engine H" and "\<exists>ps. hub_torrent_pubs H' = hub_torrent_pubs H @ ps"
    and "\<And>k s. scope_at H' k = Some s \<Longrightarrow> scope_key H k = Some (sc_pub s, sc_handle s) \<or> length (hub_torrent_pubs H) \<le> sc_pub s"
  shows "mirror_step hn H H'"
proof -
  have "sc_handle s = Some hn" if s: "scope_at H' k = Some s" "sc_pub s = snd hn" for k s
    using assms(4) [OF s(1)] s(2) assms(1) by (auto simp: tracked_def scope_key_def)
  then show ?thesis using assms(1-3) by (auto simp: mirror_step_def tracked_def nth_append)
qed

lemma mirror_keys:
  assumes "tracked hn H" and "hub_engine H' = hub_engine H" and "hub_torrent_pubs H' = hub_torrent_pubs H"
    and "\<And>k. scope_key H' k = scope_key H k"
  shows "mirror_step hn H H'"
proof (rule mirror_frame [OF assms(1,2)])
  show "scope_key H k = Some (sc_pub s, sc_handle s) \<or> length (hub_torrent_pubs H) \<le> sc_pub s" if "scope_at H' k = Some s" for k s
    using that assms(4) [of k] by (simp add: scope_key_def)
qed (simp add: assms(3))

lemma mirror_ensure:
  assumes "tracked hn H" and "hub_inv H" and e: "ensure_torrent_scope h H = (s, H')"
  shows "mirror_step hn H H'"
proof (rule mirror_frame [OF assms(1)])
  show "scope_key H k = Some (sc_pub u, sc_handle u) \<or> length (hub_torrent_pubs H) \<le> sc_pub u" if "scope_at H' k = Some u" for k u
    using that e by (auto simp: ensure_torrent_scope_def scope_key_def Let_def map_add_def split: option.splits if_splits)
qed (use ensure_scope [OF assms(2) e] in simp_all)

text \<open>Changes of one publisher that send nothing to the listeners of a torrent.\<close>

lemma mirror_engine:
  assumes "tracked hn H" and "pub_closed (hub_engine H) \<Longrightarrow> p = hub_engine H" and "pub_channel (hub_engine H) \<Longrightarrow> \<not> pub_closed p \<Longrightarrow> pub_channel p"
    and "\<not> pub_closed p \<Longrightarrow> \<exists>fs. pub_sent p = pub_sent (hub_engine H) @ fs \<and> mirrored hn fs = []"
  shows "mirror_step hn H (H\<lparr>hub_engine := p\<rparr>)"
  using assms by (auto simp: mirror_step_def tracked_def)

lemma mirror_quiet:
  assumes "tracked hn H" and "pub_sent p = pub_sent (torrent_pub H a)" and "pub_closed p = pub_closed (torrent_pub H a)"
    and "pub_channel (torrent_pub H a) \<Longrightarrow> pub_channel p"
  shows "mirror_step hn H (put_torrent_pub a p H)"
  using assms by (auto simp: mirror_step_def tracked_def nth_update_if)


lemma scope_handle: "hub_inv H \<Longrightarrow> scope_at H h = Some s \<Longrightarrow> sc_handle s = None \<or> sc_handle s = Some (h, sc_pub s)"
  using hub_invD(3) [of H h s] by (auto simp: scope_ok_def)

lemma sent_ops:
  "\<not> pub_closed p \<Longrightarrow> pub_channel p \<Longrightarrow> \<exists>n. pub_sent (snd (apply_and_emit f e p)) = pub_sent p @ [(n, e)]"
  "\<not> pub_closed p \<Longrightarrow> pub_channel p \<Longrightarrow> \<exists>n. pub_sent (snd (close_with_terminal_event v e p)) = pub_sent p @ [(n, e)]"
  "pub_channel (snd (apply_and_emit f e p)) = pub_channel p"
  by (auto simp: publisher_defs Let_def)

text \<open>An event of one scope goes to its own stream and, under its handle, to the engine.\<close>

lemma mirror_two:
  assumes t: "tracked hn H" and keys: "\<And>k s. scope_at H' k = Some s \<Longrightarrow> scope_key H k = Some (sc_pub s, sc_handle s)"
    and pubs: "hub_torrent_pubs H' = (hub_torrent_pubs H)[a := p]" and "\<not> pub_closed (torrent_pub H a)" and "pub_closed p \<or> pub_channel p \<or> \<not> pub_channel (torrent_pub H a)"
    and sent: "pub_channel (torrent_pub H a) \<Longrightarrow> \<exists>n. pub_sent p = pub_sent (torrent_pub H a) @ [(n, ev)]"
    and eng: "hub_engine H' = (case who of None \<Rightarrow> hub_engine H | Some g \<Rightarrow> hub_engine (engine_emit (EeTorrent g ev) H))"
    and who: "who = None \<and> a \<noteq> snd hn \<or> (\<exists>k. who = Some (k, a)) \<and> (a = snd hn \<longrightarrow> who = Some hn)"
  shows "mirror_step hn H H'"
proof -
  have "sc_handle s = Some hn" if "scope_at H' k = Some s" "sc_pub s = snd hn" for k s
    using keys [OF that(1)] that(2) t by (auto simp: tracked_def scope_key_def)
  moreover have "pub_closed (torrent_pub H' (snd hn)) \<or> pub_channel (torrent_pub H' (snd hn))"
    using t assms(4,5) pubs by (auto simp: tracked_def nth_update_if)
  moreover have "pub_closed (hub_engine H') \<or> pub_channel (hub_engine H')"
    using t eng by (auto simp: tracked_def engine_emit_def emit_without_view_change_def open_ops sent_ops split: option.splits)
  ultimately have tr: "tracked hn H'" using t pubs by (simp add: tracked_def)
  have mono: "pub_closed (hub_engine H') = pub_closed (hub_engine H)" using eng
    by (auto simp: engine_emit_def open_ops split: option.splits)
  have "\<exists>es fs. pub_sent (torrent_pub H' (snd hn)) = pub_sent (torrent_pub H (snd hn)) @ es \<and>
      pub_sent (hub_engine H') = pub_sent (hub_engine H) @ fs \<and> mirrored hn fs = map snd es" if o: "\<not> pub_closed (hub_engine H')"
  proof -
    have c: "\<not> pub_closed (hub_engine H)" "pub_channel (hub_engine H)" using o mono t by (auto simp: tracked_def)
    obtain m where m: "pub_sent (hub_engine H') = pub_sent (hub_engine H) @ (case who of None \<Rightarrow> [] | Some g \<Rightarrow> [(m, EeTorrent g ev)])"
      using eng sent_ops(1) [OF c, of "\<lambda>v. v"] by (auto simp: engine_emit_def emit_without_view_change_def split: option.splits)
    show ?thesis
    proof (cases "a = snd hn")
      case True
      then have "pub_channel (torrent_pub H a)" "a < length (hub_torrent_pubs H)" using t assms(4) by (auto simp: tracked_def)
      then obtain n where "pub_sent (torrent_pub H' (snd hn)) = pub_sent (torrent_pub H (snd hn)) @ [(n, ev)]"
        using sent pubs True by (auto simp: nth_update_if)
      then show ?thesis using m who True by auto
    next
      case False
      then have "torrent_pub H' (snd hn) = torrent_pub H (snd hn)" "who \<noteq> Some hn" using pubs who by (auto simp: nth_update_if)
      then show ?thesis using m by (cases who) auto
    qed
  qed
  then show ?thesis using tr mono by (simp add: mirror_step_def)
qed

lemma mirror_publish:
  assumes t: "tracked hn H" and "hub_inv H" and s: "scope_at H h = Some s" and r: "result = apply_and_emit f ev (torrent_pub H (sc_pub s))"
  shows "mirror_step hn H (publish s ev result H)"
proof -
  let ?a = "sc_pub s"
  have o: "\<not> pub_closed (torrent_pub H ?a)" using scope_pub [OF assms(2) s] by simp
  obtain p where p: "result = (True, p)" "p = snd result" using fst_ops(2) o r by (metis prod.collapse)
  have who: "sc_handle s = None \<and> ?a \<noteq> snd hn \<or> (\<exists>k. sc_handle s = Some (k, ?a)) \<and> (?a = snd hn \<longrightarrow> sc_handle s = Some hn)"
    using scope_handle [OF assms(2) s] t s by (auto simp: tracked_def)
  show ?thesis
  proof (rule mirror_two [OF t _ _ o _ _ _ who])
    show "scope_key H k = Some (sc_pub u, sc_handle u)" if "scope_at (publish s ev result H) k = Some u" for k u
      using that p(1) by (simp add: publish_def Let_def scope_key_def split: option.splits)
    show "hub_torrent_pubs (publish s ev result H) = (hub_torrent_pubs H)[?a := p]"
      using p(1) by (simp add: publish_def Let_def split: option.split)
    show "pub_closed p \<or> pub_channel p \<or> \<not> pub_channel (torrent_pub H ?a)" using p(2) r by (simp add: sent_ops)
    show "\<exists>n. pub_sent p = pub_sent (torrent_pub H ?a) @ [(n, ev)]" if "pub_channel (torrent_pub H ?a)"
      using sent_ops(1) [OF o that] p(2) r by simp
    show "hub_engine (publish s ev result H) = (case sc_handle s of None \<Rightarrow> hub_engine H | Some g \<Rightarrow> hub_engine (engine_emit (EeTorrent g ev) H))"
      using p(1) by (simp add: publish_def Let_def engine_emit_def put_torrent_pub_def split: option.split)
  qed
qed

lemma mirror_emit:
  assumes "tracked hn H" and "hub_inv H" and "scope_at H h = Some s"
  shows "mirror_step hn H (emit_without_torrent_view_change s ev H)"
  using mirror_publish [OF assms] mirror_refl [OF assms(1)]
  by (simp add: emit_without_torrent_view_change_def emit_without_view_change_def split: option.split)

lemma mirror_remove:
  assumes t: "tracked hn H" and "hub_inv H"
  shows "mirror_step hn H (remove_torrent_scope h H)"
proof (cases "scope_at H h")
  case (Some s)
  let ?H1 = "close_children s H" and ?a = "sc_pub s"
  note c = close_children_frame [OF assms(2) Some] and key = scope_key_close_children [OF assms(2) Some]
  have step1: "mirror_step hn H ?H1" by (rule mirror_keys [OF t c(2,3) key])
  then have t1: "tracked hn ?H1" by (simp add: mirror_step_def)
  obtain s1 where s1: "scope_at ?H1 h = Some s1" "sc_pub s1 = ?a" "sc_handle s1 = sc_handle s"
    using key [of h] Some by (auto simp: scope_key_def)
  let ?p = "snd (close_with_terminal_event None TeRemoved (torrent_pub ?H1 ?a))"
  let ?R = "remove_torrent_scope h H"
  have o: "\<not> pub_closed (torrent_pub ?H1 ?a)" using scope_pub [OF assms(2) Some] c(3) by simp
  note R = remove_torrent_eq [OF Some o]
  have who: "sc_handle s = None \<and> ?a \<noteq> snd hn \<or> (\<exists>k. sc_handle s = Some (k, ?a)) \<and> (?a = snd hn \<longrightarrow> sc_handle s = Some hn)"
    using scope_handle [OF assms(2) Some] t Some by (auto simp: tracked_def)
  have "mirror_step hn ?H1 ?R"
  proof (rule mirror_two [OF t1 _ _ o _ _ _ who])
    show "scope_key ?H1 k = Some (sc_pub u, sc_handle u)" if "scope_at ?R k = Some u" for k u
      using that unfolding R by (auto simp: scope_key_def delete_conv' split: option.splits if_splits)
    show "hub_torrent_pubs ?R = (hub_torrent_pubs ?H1)[?a := ?p]" unfolding R by (simp split: option.split)
    show "pub_closed ?p \<or> pub_channel ?p \<or> \<not> pub_channel (torrent_pub ?H1 ?a)" by (simp add: closed_ops)
    show "\<exists>n. pub_sent ?p = pub_sent (torrent_pub ?H1 ?a) @ [(n, TeRemoved)]" if "pub_channel (torrent_pub ?H1 ?a)" by (rule sent_ops(2) [OF o that])
    show "hub_engine ?R = (case sc_handle s of None \<Rightarrow> hub_engine ?H1 | Some g \<Rightarrow> hub_engine (engine_emit (EeTorrent g TeRemoved) ?H1))"
      unfolding R by (simp add: engine_emit_def put_torrent_pub_def split: option.split)
  qed
  then show ?thesis by (rule mirror_trans [OF step1])
qed (simp add: remove_torrent_scope_def mirror_refl t)


lemma mirror_child:
  assumes "tracked hn H"
  shows "mirror_step hn H (put_peer_pub a p H)" and "mirror_step hn H (put_tracker_pub b q H)"
    and "mirror_step hn H (snd (close_peer a H))" and "mirror_step hn H (snd (close_tracker b H))"
  using scope_key_close_tracker [of b H] by (auto intro!: mirror_keys [OF assms] simp: scope_key_def)

lemma mirror_put_scope:
  assumes "tracked hn H" and "scope_at H h = Some s" and "sc_pub s' = sc_pub s" and "sc_handle s' = sc_handle s"
  shows "mirror_step hn H (put_scope h s' H)"
  using scope_key_put_scope [OF assms(2-4)] by (auto intro: mirror_keys [OF assms(1)])

lemma mirror_register:
  assumes t: "tracked hn H" and "hub_inv H" and s: "scope_at H h = Some s" and g: "g = (h, sc_pub s)"
  shows "mirror_step hn H (register_torrent_scope g H)"
proof (cases "sc_handle s")
  case None
  let ?s1 = "s\<lparr>sc_handle := Some g\<rparr>" let ?H2 = "put_scope h ?s1 H"
  have e: "ensure_torrent_scope h H = (s, H)" using s by (simp add: ensure_torrent_scope_def)
  have "sc_pub s \<noteq> snd hn" using t s None by (auto simp: tracked_def)
  then have step: "mirror_step hn H ?H2" using t by (auto simp: mirror_step_def tracked_def update_conv')
  have "scope_ok H h ?s1" using hub_invD(3) [OF assms(2) s] g by (simp add: scope_ok_def)
  then have inv: "hub_inv ?H2" using inv_put_scope [OF assms(2) s] by simp
  have at: "scope_at ?H2 h = Some ?s1" by (simp add: update_conv')
  have "mirror_step hn ?H2 (publish ?s1 TeAdded (emit_without_view_change TeAdded (torrent_pub ?H2 (sc_pub ?s1))) ?H2)"
    using mirror_publish [OF _ inv at] step by (simp add: mirror_step_def emit_without_view_change_def)
  then show ?thesis using mirror_trans [OF step] step None e g by (simp add: register_torrent_scope_def Let_def)
qed (use s g mirror_refl [OF t] in \<open>simp add: register_torrent_scope_def ensure_torrent_scope_def\<close>)

lemma mirror_new_with_hub:
  assumes "tracked hn H" and "hub_inv H" and "new_with_hub h initial H = (g, H')"
  shows "mirror_step hn H H'"
proof -
  obtain s H1 where e: "ensure_torrent_scope h H = (s, H1)" by (cases "ensure_torrent_scope h H")
  note m = mirror_ensure [OF assms(1,2) e]
  have "mirror_step hn H1 (put_torrent_pub a (snd (install_initial_view v (torrent_pub H1 a))) H1)" for a v
    using m by (intro mirror_quiet) (auto simp: mirror_step_def install_initial_view_def)
  then show ?thesis using m mirror_trans [OF m] assms(3) e by (auto simp: new_with_hub_def split: option.splits)
qed

lemma mirror_initialize:
  assumes "tracked hn H" and "hub_inv H"
  shows "mirror_step hn H (initialize_torrent_projection v H)"
proof -
  obtain s H1 where e: "ensure_torrent_scope (tv_info_hash v) H = (s, H1)" by (cases "ensure_torrent_scope (tv_info_hash v) H")
  note m = mirror_ensure [OF assms e]
  have "mirror_step hn H1 (put_torrent_pub a (snd (replace_view (Some v) (torrent_pub H1 a))) H1)" for a
    using m by (intro mirror_quiet) (auto simp: mirror_step_def replace_view_def)
  then show ?thesis using mirror_trans [OF m] e by (simp add: initialize_torrent_projection_def)
qed

lemma mirror_mark:
  assumes t: "tracked hn H" and "hub_inv H"
  shows "mirror_step hn H (mark_peer_disconnected a H)"
proof (cases "scope_at H (psc_torrent (hub_peers H ! a))")
  case (Some s)
  let ?h = "psc_torrent (hub_peers H ! a)" let ?s1 = "s\<lparr>sc_peers := AList.delete (psc_peer (hub_peers H ! a)) (sc_peers s)\<rparr>"
  let ?H1 = "put_scope ?h ?s1 H"
  have step: "mirror_step hn H ?H1" by (rule mirror_put_scope [OF t Some]) simp_all
  have "hub_inv ?H1"
    using inv_peers [OF assms(2) Some distinct_delete [OF scope_peersD(1) [OF assms(2) Some]]] scope_peersD(2) [OF assms(2) Some]
      set_delete [of _ "sc_peers s"] by blast
  then have "mirror_step hn ?H1 (emit_without_torrent_view_change ?s1 ev ?H1)" for ev
    using mirror_emit [of hn ?H1 ?h ?s1] step by (simp add: mirror_step_def update_conv')
  then show ?thesis using mirror_trans [OF step] mirror_refl [OF t] Some by (simp add: mark_peer_disconnected_def Let_def)
qed (simp add: mark_peer_disconnected_def mirror_refl t)

lemma mirror_tracker_event: "tracked hn H \<Longrightarrow> hub_inv H \<Longrightarrow> mirror_step hn H (emit_tracker_event a ev H)"
  using mirror_emit [of hn H] mirror_refl [of hn H] by (simp add: emit_tracker_event_def split: option.split)

lemma mirror_tracker_publish:
  assumes t: "tracked hn H" and "hub_inv H"
  shows "mirror_step hn H (tracker_publish a edit ev H)"
proof (cases "replace_view_and_emit (edit (pub_view (tsc_pub (hub_trackers H ! a)))) ev (tsc_pub (hub_trackers H ! a))")
  case (Pair ok p)
  have "\<not> pub_closed p" if ok
    using that fst_ops(3) open_ops(3) Pair by (metis fst_conv snd_conv)
  then have "hub_inv (put_tracker_pub a p H)" if ok using that inv_put_tracker_pub [OF assms(2), of p a] by simp
  then have "mirror_step hn H (emit_tracker_event a ev (put_tracker_pub a p H))" if ok
    using that mirror_tracker_event by (intro mirror_then [OF mirror_child(2) [OF t]]) simp
  then show ?thesis using Pair mirror_refl [OF t] by (cases ok) (simp_all add: tracker_publish_def)
qed

lemma mirror_tracker_stopped:
  assumes t: "tracked hn H" and "hub_inv H" and "a < length (hub_trackers H)"
  shows "mirror_step hn H (tracker_stopped a H)"
proof -
  have "mirror_step hn H (emit_tracker_event a TkStopped (snd (close_tracker a H)))"
    using mirror_tracker_event inv_close_tracker [OF assms(2,3)] by (intro mirror_then [OF mirror_child(4) [OF t, of a]]) simp
  then show ?thesis using mirror_child(4) [OF t, of a] by (cases "close_tracker a H") (simp add: tracker_stopped_def)
qed

lemma mirror_peer_handle_disconnected:
  assumes t: "tracked hn H" and "hub_inv H" and "a < length (hub_peers H)"
  shows "mirror_step hn H (peer_handle_disconnected a H)"
proof -
  have "mirror_step hn H (mark_peer_disconnected a (snd (close_peer a H)))"
    using mirror_mark inv_close_peer [OF assms(2,3)] by (intro mirror_then [OF mirror_child(3) [OF t, of a]]) simp
  then show ?thesis using mirror_child(3) [OF t, of a] by (cases "close_peer a H") (simp add: peer_handle_disconnected_def)
qed

lemma mirror_close_peers: "tracked hn H \<Longrightarrow> mirror_step hn H (fold close_peer_without_parent_event as H)"
  by (induction as arbitrary: H) (auto simp: mirror_refl close_peer_without_parent_event_def intro: mirror_then [OF mirror_child(3)])

lemma mirror_restart_peers:
  assumes t: "tracked hn H" and "hub_inv H"
  shows "mirror_step hn H (close_peer_scopes_for_torrent_restart h H)"
proof (cases "scope_at H h")
  case (Some s)
  have "mirror_step hn H (put_scope h (s\<lparr>sc_peers := []\<rparr>) H)" by (rule mirror_put_scope [OF t Some]) simp_all
  from mirror_then [OF this mirror_close_peers] show ?thesis using Some by (simp add: close_peer_scopes_for_torrent_restart_def)
qed (simp add: close_peer_scopes_for_torrent_restart_def mirror_refl t)


lemma mirror_engine_ops:
  assumes "tracked hn H"
  shows "mirror_step hn H (H\<lparr>hub_engine := snd (replace_view v (hub_engine H))\<rparr>)"
    and "mirror_step hn H (H\<lparr>hub_engine := snd (subscribe (hub_engine H))\<rparr>)"
    and "mirror_step hn H (H\<lparr>hub_engine := snd (close_with_terminal_event v ev (hub_engine H))\<rparr>)"
    and "(\<And>n. mirrored hn [(n, ev)] = []) \<Longrightarrow> mirror_step hn H (engine_emit ev H)"
proof -
  show "mirror_step hn H (H\<lparr>hub_engine := snd (replace_view v (hub_engine H))\<rparr>)"
    "mirror_step hn H (H\<lparr>hub_engine := snd (subscribe (hub_engine H))\<rparr>)"
    by (rule mirror_engine [OF assms]; auto simp: replace_view_def subscribe_def)+
  show "mirror_step hn H (H\<lparr>hub_engine := snd (close_with_terminal_event v ev (hub_engine H))\<rparr>)"
    by (rule mirror_engine [OF assms]) (simp_all add: closed_ops)
  show "mirror_step hn H (engine_emit ev H)" if "\<And>n. mirrored hn [(n, ev)] = []"
    unfolding engine_emit_def by (rule mirror_engine [OF assms]) (auto simp: publisher_defs Let_def that)
qed

lemma mirror_hub_step:
  assumes t: "tracked hn H" and i: "hub_inv H" and "call_ok c H"
  shows "mirror_step hn H (hub_step c H)"
proof (cases c)
  case EngineStarted
  have "mirror_step hn H (engine_emit (EeStarted v) (H\<lparr>hub_engine := snd (replace_view EngineRunning (hub_engine H))\<rparr>))" for v
    by (rule mirror_then [OF mirror_engine_ops(1) [OF t]]) (rule mirror_engine_ops(4), simp_all)
  then show ?thesis using EngineStarted by (simp add: engine_started_def Let_def)
next
  case (SubscribeTorrent a)
  then show ?thesis using mirror_quiet [OF t, of "snd (subscribe (torrent_pub H a))" a] by (simp add: open_ops subscribe_def)
next
  case (RegisterTorrent h initial)
  obtain g H1 where n: "new_with_hub h initial H = (g, H1)" by (cases "new_with_hub h initial H")
  have "\<And>v. initial = Some v \<Longrightarrow> tv_info_hash v = h" using assms(3) RegisterTorrent by simp
  note new = inv_new_with_hub [OF i n this]
  then obtain s where "scope_at H1 h = Some s" "g = (h, sc_pub s)" by (metis prod.collapse)
  then have "mirror_step hn H (register_torrent_scope g H1)"
    using mirror_register new(1) by (intro mirror_then [OF mirror_new_with_hub [OF t i n]]) blast
  then show ?thesis using n RegisterTorrent by simp
next
  case (ReplaceTorrentView v ev)
  then show ?thesis using mirror_publish [OF t i] mirror_refl [OF t]
    by (simp add: replace_torrent_view_and_emit_def replace_view_and_emit_def split: option.split)
next
  case (EmitHealth torrent level message)
  then show ?thesis using mirror_emit [OF t i] mirror_engine_ops(4) [OF t]
    by (auto simp: emit_health_def Let_def bind_eq_Some_conv split: option.split)
next
  case (RegisterPeer h j v)
  obtain s H1 where e: "ensure_torrent_scope h H = (s, H1)" by (cases "ensure_torrent_scope h H")
  then show ?thesis
    using RegisterPeer ensure_scope(2) [OF i e] by (auto simp: register_peer_scope_def Let_def scope_key_def update_conv'
      intro!: mirror_then [OF mirror_ensure [OF t i e]] mirror_keys)
next
  case (RegisterTracker h source v)
  obtain s H1 where e: "ensure_torrent_scope h H = (s, H1)" by (cases "ensure_torrent_scope h H")
  have "mirror_step hn H (snd (insert_tracker h source v (s\<lparr>sc_trackers := trs\<rparr>) H1))" for trs
    using ensure_scope(2) [OF i e] by (auto simp: insert_tracker_def Let_def scope_key_def update_conv'
      intro!: mirror_then [OF mirror_ensure [OF t i e]] mirror_keys)
  from this this [of "sc_trackers s"] show ?thesis
    using RegisterTracker e mirror_ensure [OF t i e] by (simp add: register_tracker_scope_def split: option.split)
next
  case (PeerConnectedCall a)
  then show ?thesis using mirror_emit [OF t i] mirror_refl [OF t] by (simp add: emit_peer_connected_def split: option.split)
qed (use assms mirror_engine_ops [OF t] mirror_child [OF t] in \<open>simp_all add: engine_start_failed_def engine_stopping_def engine_stopped_def
  mirror_initialize mirror_remove peer_publish_state_def peer_publish_metrics_def mirror_peer_handle_disconnected mirror_restart_peers
  tracker_publish_metrics_def Let_def announce_succeeded_view_def announce_failed_view_def tracker_restarting_def mirror_tracker_publish
  mirror_tracker_stopped\<close>)

text \<open>A sequence of calls, each on handles that exist when it is made.\<close>

fun calls_ok :: "hub_call list \<Rightarrow> hub \<Rightarrow> bool" where
  "calls_ok [] H = True"
| "calls_ok (c # cs) H = (call_ok c H \<and> calls_ok cs (hub_step c H))"

lemma mirror_run: "tracked hn H \<Longrightarrow> hub_inv H \<Longrightarrow> calls_ok cs H \<Longrightarrow> mirror_step hn H (fold hub_step cs H)"
proof (induction cs arbitrary: H)
  case (Cons c cs)
  then have c: "call_ok c H" "calls_ok cs (hub_step c H)" by simp_all
  show ?case using mirror_then [OF mirror_hub_step [OF Cons.prems(1,2) c(1)] Cons.IH [OF _ inv_step [OF Cons.prems(2) c(1)] c(2)]] by simp
qed (simp add: mirror_refl)


section \<open>Results\<close>

lemma handle_tracked:
  assumes "hub_inv H" and "torrent_handle_of h H = Some hn" and "pub_channel (hub_engine H)" and "pub_channel (torrent_pub H (snd hn))"
  shows "tracked hn H"
proof -
  obtain s where s: "scope_at H h = Some s" "sc_handle s = Some hn" using assms(2) by (auto simp: torrent_handle_of_def bind_eq_Some_conv)
  then have hn: "hn = (h, sc_pub s)" using scope_handle [OF assms(1)] by fastforce
  have "sc_handle u = Some hn" if "scope_at H k = Some u" "sc_pub u = snd hn" for k u
    using hub_invD(4) [OF assms(1) that(1) s(1)] that hn s by simp
  then show ?thesis using assms(3,4) scope_pub [OF assms(1) s(1)] hn by (simp add: tracked_def)
qed

text \<open>
  C37: the engine repeats the stream of every torrent. Take a torrent whose handle is registered, with
  listeners on its stream and on the stream of the engine. Whatever calls follow, of any component and for
  any torrent, peer or tracker, and as long as the engine has not been stopped, the events that the
  engine's listeners see under that handle are exactly those that the torrent's listeners see, in the same
  order; this holds beyond the removal of the torrent and a new registration under the same hash, whose
  events appear under another handle.
\<close>

theorem torrent_events_mirrored:
  assumes "hub_reachable H" and "torrent_handle_of h H = Some hn" and "pub_channel (hub_engine H)" and "pub_channel (torrent_pub H (snd hn))"
    and "calls_ok cs H" and "\<not> pub_closed (hub_engine (fold hub_step cs H))"
  shows "\<exists>es fs. pub_sent (torrent_pub (fold hub_step cs H) (snd hn)) = pub_sent (torrent_pub H (snd hn)) @ es \<and>
    pub_sent (hub_engine (fold hub_step cs H)) = pub_sent (hub_engine H) @ fs \<and> mirrored hn fs = map snd es"
  using mirror_run [OF handle_tracked [OF reachable_inv [OF assms(1)] assms(2-4)] reachable_inv [OF assms(1)] assms(5)] assms(6)
  unfolding mirror_step_def by blast

text \<open>Closing the children of a scope.\<close>

lemma close_peer_closes:
  assumes "a < length (hub_peers H)"
  shows "pub_closed (psc_pub (hub_peers (snd (close_peer a H)) ! a))"
    and "pub_closed (psc_pub (hub_peers H ! b)) \<Longrightarrow> pub_closed (psc_pub (hub_peers (snd (close_peer a H)) ! b))"
  using assms by (auto simp: close_peer_eq closed_ops)

lemma fold_close_peers_closes:
  "hub_inv H \<Longrightarrow> \<forall>a \<in> set as. a < length (hub_peers H) \<Longrightarrow>
     (\<forall>b. b \<in> set as \<or> pub_closed (psc_pub (hub_peers H ! b)) \<longrightarrow> pub_closed (psc_pub (hub_peers (fold close_peer_without_parent_event as H) ! b)))"
proof (induction as arbitrary: H)
  case (Cons a as)
  have "hub_inv (snd (close_peer a H))" "\<forall>b \<in> set as. b < length (hub_peers (snd (close_peer a H)))"
    using Cons.prems inv_close_peer by simp_all
  from Cons.IH [OF this] show ?case
    using close_peer_closes [of a H] Cons.prems(2) by (auto simp: close_peer_without_parent_event_def)
qed simp

lemma close_tracker_closes:
  assumes "a < length (hub_trackers H)"
  shows "pub_closed (tsc_pub (hub_trackers (snd (close_tracker a H)) ! a))"
    and "pub_closed (tsc_pub (hub_trackers H ! b)) \<Longrightarrow> pub_closed (tsc_pub (hub_trackers (snd (close_tracker a H)) ! b))"
  using assms by (auto simp: close_tracker_eq closed_ops)

lemma fold_close_trackers_closes:
  "hub_inv H \<Longrightarrow> \<forall>a \<in> set as. a < length (hub_trackers H) \<Longrightarrow>
     (\<forall>b. b \<in> set as \<or> pub_closed (tsc_pub (hub_trackers H ! b)) \<longrightarrow> pub_closed (tsc_pub (hub_trackers (fold close_tracker_without_parent_event as H) ! b)))"
proof (induction as arbitrary: H)
  case (Cons a as)
  have "hub_inv (snd (close_tracker a H))" "\<forall>b \<in> set as. b < length (hub_trackers (snd (close_tracker a H)))"
    using Cons.prems inv_close_tracker by simp_all
  from Cons.IH [OF this] show ?case
    using close_tracker_closes [of a H] Cons.prems(2) by (auto simp: close_tracker_without_parent_event_def)
qed simp

lemma close_children_closes:
  assumes i: "hub_inv H" and s: "scope_at H h = Some s"
  shows "(j, a) \<in> set (sc_peers s) \<Longrightarrow> pub_closed (psc_pub (hub_peers (close_children s H) ! a)) \<and> \<not> pv_connected (pub_view (psc_pub (hub_peers (close_children s H) ! a)))"
    and "(k, b) \<in> set (sc_trackers s) \<Longrightarrow> pub_closed (tsc_pub (hub_trackers (close_children s H) ! b)) \<and> tkv_status (pub_view (tsc_pub (hub_trackers (close_children s H) ! b))) = StatusStopped"
proof -
  let ?H1 = "fold close_peer_without_parent_event (map snd (sc_peers s)) H"
  have p: "\<forall>a \<in> set (map snd (sc_peers s)). a < length (hub_peers H)" and q: "\<forall>a \<in> set (map snd (sc_trackers s)). a < length (hub_trackers H)"
    using scope_peersD(2,4) [OF assms] by auto
  have H1: "hub_inv ?H1" "hub_trackers ?H1 = hub_trackers H" "length (hub_peers ?H1) = length (hub_peers H)" using fold_close_peers [OF i p] by simp_all
  have q1: "\<forall>a \<in> set (map snd (sc_trackers s)). a < length (hub_trackers ?H1)" using q H1(2) by simp
  note f = fold_close_trackers [OF H1(1) q1, folded close_children_def]
  note c = closed_children [OF close_children_frame(1) [OF assms]]
  show "pub_closed (psc_pub (hub_peers (close_children s H) ! a)) \<and> \<not> pv_connected (pub_view (psc_pub (hub_peers (close_children s H) ! a)))"
    if "(j, a) \<in> set (sc_peers s)"
  proof -
    have "a \<in> set (map snd (sc_peers s))" using that by force
    then have "pub_closed (psc_pub (hub_peers (close_children s H) ! a))" using fold_close_peers_closes [OF i p] f by simp
    moreover have "a < length (hub_peers (close_children s H))" using scope_peersD(2) [OF assms that] f H1(3) by simp
    ultimately show ?thesis using c(1) by blast
  qed
  show "pub_closed (tsc_pub (hub_trackers (close_children s H) ! b)) \<and> tkv_status (pub_view (tsc_pub (hub_trackers (close_children s H) ! b))) = StatusStopped"
    if "(k, b) \<in> set (sc_trackers s)"
  proof -
    have "b \<in> set (map snd (sc_trackers s))" using that by force
    then have "pub_closed (tsc_pub (hub_trackers (close_children s H) ! b))"
      using fold_close_trackers_closes [OF H1(1) q1] by (simp add: close_children_def)
    moreover have "b < length (hub_trackers (close_children s H))" using scope_peersD(4) [OF assms that] f H1(2) by simp
    ultimately show ?thesis using c(2) by blast
  qed
qed


lemma map_filter_keys:
  "(\<And>x v. x \<in> set xs \<Longrightarrow> f x = Some v \<Longrightarrow> key v = fst x) \<Longrightarrow> map key (List.map_filter f xs) = map fst (filter (\<lambda>x. f x \<noteq> None) xs)"
  by (induction xs) (auto split: option.split)

lemma set_map_filter_iff: "v \<in> set (List.map_filter f xs) \<longleftrightarrow> (\<exists>x \<in> set xs. f x = Some v)"
  by (induction xs) (auto split: option.split)

text \<open>
  The view of the engine. In every reachable state the engine's view lists exactly the current views of
  the registered torrents, one for each info hash, in the order of the hashes.
\<close>

theorem engine_view_exact:
  assumes "hub_reachable H"
  shows "sorted (map tv_info_hash (ev_torrents (hub_view H))) \<and> distinct (map tv_info_hash (ev_torrents (hub_view H))) \<and>
    (\<forall>v. v \<in> set (ev_torrents (hub_view H)) \<longleftrightarrow>
       (\<exists>s. scope_at H (tv_info_hash v) = Some s \<and> sc_handle s \<noteq> None \<and> pub_view (torrent_pub H (sc_pub s)) = Some v))"
proof -
  note i = reachable_inv [OF assms]
  let ?vs = "List.map_filter (registered_view H) (hub_torrents H)"
  have at: "x \<in> set (hub_torrents H) \<longleftrightarrow> scope_at H (fst x) = Some (snd x)" for x
    using map_of_eq_Some_iff [OF hub_invD(2) [OF i], of "fst x" "snd x"] by simp
  have f: "registered_view H x = Some v \<longleftrightarrow> sc_handle (snd x) \<noteq> None \<and> pub_view (torrent_pub H (sc_pub (snd x))) = Some v" for x v
    by (simp add: registered_view_def)
  have hash: "tv_info_hash v = fst x" if "x \<in> set (hub_torrents H)" "registered_view H x = Some v" for x v
    using that view_hash [OF i _ refl, of "fst x" "snd x" v] unfolding at f by blast
  have "map tv_info_hash ?vs = map fst (filter (\<lambda>x. registered_view H x \<noteq> None) (hub_torrents H))"
    by (rule map_filter_keys) (rule hash)
  then have d: "distinct (map tv_info_hash ?vs)" using distinct_map_filter [OF hub_invD(2) [OF i]] by simp
  have m: "v \<in> set ?vs \<longleftrightarrow> (\<exists>s. scope_at H (tv_info_hash v) = Some s \<and> sc_handle s \<noteq> None \<and> pub_view (torrent_pub H (sc_pub s)) = Some v)" for v
  proof
    assume "v \<in> set ?vs"
    then obtain x where x: "x \<in> set (hub_torrents H)" "registered_view H x = Some v" unfolding set_map_filter_iff by blast
    then show "\<exists>s. scope_at H (tv_info_hash v) = Some s \<and> sc_handle s \<noteq> None \<and> pub_view (torrent_pub H (sc_pub s)) = Some v"
      unfolding hash [OF x] using x unfolding at f by blast
  next
    assume "\<exists>s. scope_at H (tv_info_hash v) = Some s \<and> sc_handle s \<noteq> None \<and> pub_view (torrent_pub H (sc_pub s)) = Some v"
    then obtain s where "scope_at H (tv_info_hash v) = Some s" "sc_handle s \<noteq> None" "pub_view (torrent_pub H (sc_pub s)) = Some v" by blast
    then have "(tv_info_hash v, s) \<in> set (hub_torrents H)" "registered_view H (tv_info_hash v, s) = Some v" unfolding at f by simp_all
    then show "v \<in> set ?vs" unfolding set_map_filter_iff by blast
  qed
  have "distinct (map tv_info_hash (sort_key tv_info_hash ?vs))" using d by (simp add: distinct_map)
  then show ?thesis using m by (simp add: hub_view_def)
qed

section \<open>A concrete torrent\<close>

definition demo_hash :: hash where
  "demo_hash = replicate 20 4"

definition demo_view :: torrent_view where
  "demo_view = \<lparr>tv_info_hash = demo_hash, tv_name = ''demo'', tv_state = Downloading, tv_auto_start = True, tv_sufficient_peers = 1,
     tv_peer_count = 0, tv_tracker_count = 0, tv_output_path = None,
     tv_metrics = torrent_metrics_new metrics_default
       \<lparr>cpr_total = None, cpr_verified = 0, cpr_remaining = None, cpr_completed_pieces = 0, cpr_partial_pieces = 0, cpr_total_pieces = 0\<rparr>\<rparr>"

lemma demo_view_hash: "tv_info_hash demo_view = demo_hash"
  by (simp add: demo_view_def)

definition demo_peer :: peer_view where
  "demo_peer = \<lparr>pv_address = None, pv_client = None, pv_connected = True, pv_metrics =
     \<lparr>pmx_transfer = metrics_default, pmx_peer_choking = True, pmx_peer_interested = False, pmx_client_choking = True,
      pmx_client_interested = False, pmx_available_pieces = 0\<rparr>\<rparr>"

definition demo_tracker :: tracker_view where
  "demo_tracker = \<lparr>tkv_endpoint = ''tracker'', tkv_status = StatusPending, tkv_metrics =
     \<lparr>tmx_transfer = metrics_default, tmx_attempts = 0, tmx_successes = 0, tmx_peers = 0, tmx_latest_peers = None\<rparr>\<rparr>"

definition demo_peer_id :: peer_id where
  "demo_peer_id = replicate 20 5"

definition demo_setup :: "hub_call list" where
  "demo_setup = [InitializeTorrent demo_view, RegisterTorrent demo_hash None, SubscribeEngine, SubscribeTorrent 0,
     RegisterPeer demo_hash demo_peer_id demo_peer, RegisterTracker demo_hash (Http ''tracker'') demo_tracker]"

definition demo_calls :: "hub_call list" where
  "demo_calls = [PeerConnectedCall 0, ReplaceTorrentView demo_view TeUpdated, RemoveTorrent demo_hash]"

definition demo_start :: hub where
  "demo_start = hub_new \<lparr>ls_engine_capacity = 8, ls_torrent_capacity = 8, ls_peer_capacity = 8, ls_tracker_capacity = 8\<rparr>"

text \<open>A hub with this torrent: number of its events, listeners, handle, children, and the events that were sent.\<close>

definition demo_state :: "nat \<Rightarrow> bool \<Rightarrow> bool \<Rightarrow> torrent_scope \<Rightarrow> peer_scope list \<Rightarrow> tracker_scope list \<Rightarrow> torrent_event list \<Rightarrow> hub" where
  "demo_state n ec tc s ps ts es =
     \<lparr>hub_engine = \<lparr>pub_view = EngineStarting, pub_sequence = n, pub_closed = False, pub_capacity = 8, pub_channel = ec,
        pub_sent = zip [2..<2 + length es] (map (EeTorrent (demo_hash, 0)) es)\<rparr>,
      hub_torrents = [(demo_hash, s)],
      hub_settings = \<lparr>ls_engine_capacity = 8, ls_torrent_capacity = 8, ls_peer_capacity = 8, ls_tracker_capacity = 8\<rparr>,
      hub_next_tracker = length ts + 1,
      hub_torrent_pubs = [\<lparr>pub_view = Some demo_view, pub_sequence = n, pub_closed = False, pub_capacity = 8, pub_channel = tc,
        pub_sent = zip [2..<2 + length es] es\<rparr>],
      hub_peers = ps, hub_trackers = ts\<rparr>"

abbreviation demo_scope :: "(peer_id \<times> address) list \<Rightarrow> (tracker \<times> address) list \<Rightarrow> torrent_handle option \<Rightarrow> torrent_scope" where
  "demo_scope ps ts g \<equiv> \<lparr>sc_pub = 0, sc_peers = ps, sc_trackers = ts, sc_handle = g\<rparr>"

abbreviation demo_peer_scope :: peer_scope where
  "demo_peer_scope \<equiv> \<lparr>psc_torrent = demo_hash, psc_peer = demo_peer_id, psc_pub = publisher_new demo_peer 8\<rparr>"

abbreviation demo_tracker_scope :: tracker_scope where
  "demo_tracker_scope \<equiv> \<lparr>tsc_torrent = demo_hash, tsc_id = 1, tsc_pub = publisher_new demo_tracker 8\<rparr>"

definition demo_hub :: hub where
  "demo_hub = demo_state 1 True True (demo_scope [(demo_peer_id, 0)] [(Http ''tracker'', 0)] (Some (demo_hash, 0))) [demo_peer_scope] [demo_tracker_scope] []"

lemmas hub_eval = hub_new_def initialize_torrent_projection_def new_with_hub_def register_torrent_scope_def ensure_torrent_scope_def
  register_peer_scope_def register_tracker_scope_def insert_tracker_def put_scope_def put_torrent_pub_def put_peer_pub_def put_tracker_pub_def
  emit_peer_connected_def emit_without_torrent_view_change_def replace_torrent_view_and_emit_def
  publish_def engine_emit_def publisher_new_def publisher_defs subscribe_def u64_saturating_add_def U64_MAX_def demo_view_hash Let_def

lemma demo_steps:
  "hub_step (InitializeTorrent demo_view) demo_start = demo_state 0 False False (demo_scope [] [] None) [] [] []"
  "hub_step (RegisterTorrent demo_hash None) (demo_state 0 False False (demo_scope [] [] None) [] [] [])
     = demo_state 1 False False (demo_scope [] [] (Some (demo_hash, 0))) [] [] []"
  "hub_step SubscribeEngine (demo_state 1 False False s [] [] []) = demo_state 1 True False s [] [] []"
  "hub_step (SubscribeTorrent 0) (demo_state 1 True False s [] [] []) = demo_state 1 True True s [] [] []"
  "hub_step (RegisterPeer demo_hash demo_peer_id demo_peer) (demo_state 1 True True (demo_scope [] [] g) [] [] [])
     = demo_state 1 True True (demo_scope [(demo_peer_id, 0)] [] g) [demo_peer_scope] [] []"
  "hub_step (RegisterTracker demo_hash (Http ''tracker'') demo_tracker) (demo_state 1 True True (demo_scope ps [] g) qs [] [])
     = demo_state 1 True True (demo_scope ps [(Http ''tracker'', 0)] g) qs [demo_tracker_scope] []"
  by (simp_all add: demo_state_def demo_start_def hub_eval)

lemma demo_call_steps:
  "hub_step (PeerConnectedCall 0) demo_hub =
     demo_state 2 True True (demo_scope [(demo_peer_id, 0)] [(Http ''tracker'', 0)] (Some (demo_hash, 0))) [demo_peer_scope] [demo_tracker_scope] [TePeerConnected 0]"
  "hub_step (ReplaceTorrentView demo_view TeUpdated) (demo_state 2 True True (demo_scope ps ts (Some (demo_hash, 0))) qs us [e])
     = demo_state 3 True True (demo_scope ps ts (Some (demo_hash, 0))) qs us [e, TeUpdated]"
  by (simp_all add: demo_hub_def demo_state_def hub_eval)


lemma demo_setup_run: "fold hub_step demo_setup demo_start = demo_hub" and demo_setup_ok: "calls_ok demo_setup demo_start"
  unfolding demo_setup_def demo_hub_def
  by (simp_all only: fold_simps calls_ok.simps demo_steps) (simp add: demo_state_def)

lemma reachable_run: "hub_reachable H \<Longrightarrow> calls_ok cs H \<Longrightarrow> hub_reachable (fold hub_step cs H)"
  by (induction cs arbitrary: H) (auto intro: hub_reachable.call)

lemma demo_reachable: "hub_reachable demo_hub"
proof -
  have "hub_reachable demo_start" unfolding demo_start_def by (rule hub_reachable.start)
  from reachable_run [OF this demo_setup_ok] show ?thesis by (simp only: demo_setup_run)
qed

lemma demo_hub_facts:
  "torrent_handle_of demo_hash demo_hub = Some (demo_hash, 0)" "pub_channel (hub_engine demo_hub)" "pub_channel (torrent_pub demo_hub 0)"
  "pub_sent (torrent_pub demo_hub 0) = []"
  "scope_at demo_hub demo_hash = Some (demo_scope [(demo_peer_id, 0)] [(Http ''tracker'', 0)] (Some (demo_hash, 0)))"
  "pub_view (torrent_pub demo_hub 0) = Some demo_view"
  by (simp_all add: demo_hub_def demo_state_def torrent_handle_of_def)

text \<open>The removal, on a hub of this shape with both children open.\<close>

lemma demo_removed:
  defines "H \<equiv> remove_torrent_scope demo_hash
    (demo_state 3 True True (demo_scope [(demo_peer_id, 0)] [(Http ''tracker'', 0)] (Some (demo_hash, 0))) [demo_peer_scope] [demo_tracker_scope] [TePeerConnected 0, TeUpdated])"
  shows "map snd (pub_sent (torrent_pub H 0)) = [TePeerConnected 0, TeUpdated, TeRemoved]" and "\<not> pub_closed (hub_engine H)"
  unfolding H_def demo_state_def remove_torrent_scope_def close_children_def close_peer_without_parent_event_def close_peer_def
    close_tracker_without_parent_event_def close_tracker_def remove_tracker_scope_def remove_value_def key_for_value_def
  by (simp_all add: hub_eval)

lemma demo_calls_run:
  "calls_ok demo_calls demo_hub" "\<not> pub_closed (hub_engine (fold hub_step demo_calls demo_hub))"
  "map snd (pub_sent (torrent_pub (fold hub_step demo_calls demo_hub) 0)) = [TePeerConnected 0, TeUpdated, TeRemoved]"
  unfolding demo_calls_def
  by (simp_all only: fold_simps calls_ok.simps demo_call_steps hub_step.simps(11) demo_removed) (simp_all add: demo_hub_def demo_state_def)

theorem torrent_events_mirrored_witness:
  "\<exists>fs. pub_sent (hub_engine (fold hub_step demo_calls demo_hub)) = pub_sent (hub_engine demo_hub) @ fs \<and>
     mirrored (demo_hash, 0) fs = [TePeerConnected 0, TeUpdated, TeRemoved]"
proof -
  have c: "pub_channel (torrent_pub demo_hub (snd (demo_hash, 0::nat)))" using demo_hub_facts(3) by simp
  from torrent_events_mirrored [OF demo_reachable demo_hub_facts(1,2) c demo_calls_run(1,2)]
  show ?thesis using demo_hub_facts(4) demo_calls_run(3) by auto
qed


theorem engine_view_exact_witness: "demo_view \<in> set (ev_torrents (hub_view demo_hub))"
proof -
  have "\<exists>s. scope_at demo_hub (tv_info_hash demo_view) = Some s \<and> sc_handle s \<noteq> None \<and> pub_view (torrent_pub demo_hub (sc_pub s)) = Some demo_view"
    by (simp add: demo_view_hash demo_hub_facts)
  then show ?thesis using engine_view_exact [OF demo_reachable] by blast
qed

end
