(* ===== verification/Torrent_Live.thy ===== *)
theory Torrent_Live
  imports Live_Mirror Snapshot
begin

text \<open>
  What a torrent shows of itself: its live view and the publications of the torrent actor (\<^verbatim>\<open>live_view\<close> and the
  \<^verbatim>\<open>publish\<close> functions of \<^verbatim>\<open>torrent/actor.rs\<close>), and the handlers that connect and disconnect peers together with
  their live scopes (\<^verbatim>\<open>torrent/swarm.rs\<close>, \<^verbatim>\<open>torrent/messages.rs\<close>). A handler takes the actor and the hub it holds.
\<close>

section \<open>The live view\<close>

definition total_verified_bytes :: "torrent_actor \<Rightarrow> nat option" where
  "total_verified_bytes t =
     (case info_dict t of
        None \<Rightarrow> None
      | Some info \<Rightarrow>
          let total = total_length info;
              last_piece = length (ta_bitfield t) - 1;
              sizes = map (\<lambda>i. if i = last_piece then total - saturating_mul (info_piece_length info) last_piece else info_piece_length info)
                (filter (\<lambda>i. ta_bitfield t ! i) [0..<length (ta_bitfield t)])
          in Some (min (foldl saturating_add 0 sizes) total))"

definition display_name :: "torrent_actor \<Rightarrow> string" where
  "display_name t = (case ta_metainfo t of MTorrent f \<Rightarrow> info_name (tf_info f) | MMagnet m \<Rightarrow> mu_name m)"

definition live_progress :: "torrent_actor \<Rightarrow> content_progress" where
  "live_progress t =
     (let total = map_option (\<lambda>info. snapshot_u64 (total_length info)) (info_dict t);
          verified = snapshot_u64 (case total_verified_bytes t of None \<Rightarrow> 0 | Some n \<Rightarrow> n);
          n = length (ta_bitfield t)
      in \<lparr>cpr_total = total, cpr_verified = verified, cpr_remaining = map_option (\<lambda>bytes. bytes - verified) total,
          cpr_completed_pieces = snapshot_u64 (length (filter (\<lambda>b. b) (ta_bitfield t))),
          cpr_partial_pieces = snapshot_u64 (length (filter
            (\<lambda>i. \<not> ta_bitfield t ! i \<and> (case completed_blocks (ta_sched t) i of None \<Rightarrow> False | Some blocks \<Rightarrow> list_ex (\<lambda>b. b) blocks)) [0..<n])),
          cpr_total_pieces = snapshot_u64 n\<rparr>)"

definition live_sources :: "hash \<Rightarrow> hub \<Rightarrow> transfer_metrics list" where
  "live_sources h H =
     map (\<lambda>a. pmx_transfer (pv_metrics (pub_view (psc_pub (hub_peers H ! a))))) (peer_handles h H) @
     map (\<lambda>a. tmx_transfer (tkv_metrics (pub_view (tsc_pub (hub_trackers H ! a))))) (tracker_handles h H)"

definition live_view :: "torrent_actor \<Rightarrow> hub \<Rightarrow> torrent_view" where
  "live_view t H =
     \<lparr>tv_info_hash = ta_info_hash t, tv_name = display_name t, tv_state = ta_state t, tv_auto_start = ta_autostart t,
      tv_sufficient_peers = snapshot_u64 (ta_sufficient_peers t), tv_peer_count = snapshot_u64 (length (ta_peers t)),
      tv_tracker_count = snapshot_u64 (length (ta_trackers t)),
      tv_output_path = (case ta_manager t of DefaultManager m \<Rightarrow> pm_path m | CustomManager \<Rightarrow> None),
      tv_metrics = torrent_metrics_new (metrics_aggregate (live_sources (ta_info_hash t) H)) (live_progress t)\<rparr>"

definition publish_live_view :: "torrent_actor \<Rightarrow> (torrent_view \<Rightarrow> torrent_event) \<Rightarrow> hub \<Rightarrow> hub" where
  "publish_live_view t event H = replace_torrent_view_and_emit (live_view t H) (event (live_view t H)) H"

definition publish_updated :: "torrent_actor \<Rightarrow> hub \<Rightarrow> hub" where
  "publish_updated t = publish_live_view t (\<lambda>_. TeUpdated)"

definition publish_metrics_changed :: "torrent_actor \<Rightarrow> hub \<Rightarrow> hub" where
  "publish_metrics_changed t = publish_live_view t (\<lambda>view. TeMetricsChanged (tv_metrics view))"

definition publish_metadata_resolved :: "torrent_actor \<Rightarrow> hub \<Rightarrow> hub" where
  "publish_metadata_resolved t = publish_live_view t (\<lambda>_. TeMetadataResolved)"

definition live_transition_state :: "torrent_state \<Rightarrow> torrent_actor \<times> hub \<Rightarrow> torrent_actor \<times> hub" where
  "live_transition_state s th =
     (case th of (t, H) \<Rightarrow>
        if ta_state t = s then (t, H)
        else (t\<lparr>ta_state := s\<rparr>, publish_live_view (t\<lparr>ta_state := s\<rparr>) (\<lambda>_. TeStateChanged (ta_state t) s) H))"

section \<open>Peers\<close>

definition peer_view_connected :: "socket_addr \<Rightarrow> peer_id \<Rightarrow> peer_view" where
  "peer_view_connected addr i =
     peer_view_from_metrics addr i True
       \<lparr>pmx_transfer = metrics_default, pmx_peer_choking = False, pmx_peer_interested = False, pmx_client_choking = False,
        pmx_client_interested = False, pmx_available_pieces = 0\<rparr>"

definition live_insert_peer :: "socket_addr \<Rightarrow> peer_id option \<Rightarrow> torrent_actor \<times> hub \<Rightarrow> (torrent_error + address) \<times> torrent_actor \<times> hub" where
  "live_insert_peer addr peer th =
     (case th of (t, H) \<Rightarrow>
        (case insert_peer peer t of
           (Inl e, t1) \<Rightarrow> (Inl e, t1, H)
         | (Inr i, t1) \<Rightarrow>
             let (a, H1) = register_peer_scope (ta_info_hash t) i (peer_view_connected addr i) H
             in (Inr a, t1, emit_peer_connected a (publish_updated t1 H1))))"

definition live_kill_peer :: "torrent_env \<Rightarrow> peer_id \<Rightarrow> address \<Rightarrow> torrent_actor \<times> hub \<Rightarrow> (torrent_actor \<times> hub) \<times> torrent_effect list" where
  "live_kill_peer env i handle th =
     (case th of (t, H) \<Rightarrow>
        let (t1, es, _) = remove_peer i t;
            H1 = publish_updated t1 (peer_handle_disconnected handle H);
            (t2, es') = fill_all_peer_request_windows env t1
        in ((t2, H1), es @ es'))"

definition live_disconnect_peer ::
  "torrent_env \<Rightarrow> peer_id \<Rightarrow> address \<Rightarrow> torrent_actor \<times> hub \<Rightarrow> (torrent_error + unit) \<times> (torrent_actor \<times> hub) \<times> torrent_effect list" where
  "live_disconnect_peer env i handle th =
     (case th of (t, H) \<Rightarrow>
        let (t1, es, found) = remove_peer i t
        in if \<not> found then (Inl (PeerNotFound i), (t1, H), es)
           else let H1 = publish_updated t1 (peer_handle_disconnected handle H); (t2, es') = fill_all_peer_request_windows env t1
                in (Inr (), (t2, H1), es @ es'))"

section \<open>Progress is exact\<close>

lemma sum_filter_split: "sum_list (map f (filter P xs)) + sum_list (map f (filter (\<lambda>x. \<not> P x) xs)) = (sum_list (map f xs) :: nat)"
  by (induction xs) simp_all

lemma sum_filter_full:
  assumes "\<And>x. x \<in> set xs \<Longrightarrow> 0 < (f x :: nat)"
  shows "sum_list (map f (filter P xs)) = sum_list (map f xs) \<longleftrightarrow> (\<forall>x \<in> set xs. P x)"
proof -
  have "sum_list (map f (filter (\<lambda>x. \<not> P x) xs)) = 0 \<longleftrightarrow> (\<forall>x \<in> set xs. P x)"
    using assms by (induction xs) auto
  then show ?thesis using sum_filter_split [of f P xs] by linarith
qed

lemma concrete_last:
  assumes "lengths_ok info"
  shows "concrete_piece_len info i = (if i = piece_count info - 1 then total_length info - info_piece_length info * (piece_count info - 1) else info_piece_length info)"
    and "0 < concrete_piece_len info i"
proof -
  let ?q = "piece_count info - 1"
  have "total_length info \<le> info_piece_length info * (?q + 1)" "info_piece_length info * ?q < total_length info" "0 < info_piece_length info"
    using assms by (simp_all add: lengths_ok_def)
  note l = this last_remainder [OF this(2,1,3)]
  then show "concrete_piece_len info i = (if i = ?q then total_length info - info_piece_length info * ?q else info_piece_length info)"
    by (simp add: concrete_piece_len_def last_piece_len_def)
  then show "0 < concrete_piece_len info i" using l by simp
qed

lemma pieces_cover:
  assumes "lengths_ok info"
  shows "sum_list (map (concrete_piece_len info) [0..<piece_count info]) = total_length info"
proof -
  let ?q = "piece_count info - 1"
  have "[0..<piece_count info] = [0..<?q] @ [?q]" using assms by (simp add: lengths_ok_def upt_Suc_append [symmetric] del: upt_Suc)
  moreover have "map (concrete_piece_len info) [0..<?q] = replicate ?q (info_piece_length info)"
    using concrete_last(1) [OF assms] by (intro nth_equalityI) simp_all
  ultimately show ?thesis
    using concrete_last(1) [OF assms, of ?q] assms by (simp add: sum_list_replicate lengths_ok_def mult.commute)
qed

text \<open>The claimed bytes of a torrent: the lengths of the pieces its bitfield claims.\<close>

definition claimed_bytes :: "torrent_info \<Rightarrow> bool list \<Rightarrow> nat" where
  "claimed_bytes info bits = sum_list (map (concrete_piece_len info) (filter (\<lambda>i. bits ! i) [0..<length bits]))"

lemma claimed_bounds:
  assumes "lengths_ok info" and "length bits = piece_count info"
  shows "claimed_bytes info bits \<le> total_length info" and "claimed_bytes info bits = total_length info \<longleftrightarrow> list_all (\<lambda>b. b) bits"
proof -
  show "claimed_bytes info bits \<le> total_length info"
    using sum_filter_split [of "concrete_piece_len info" "\<lambda>i. bits ! i" "[0..<length bits]"] pieces_cover [OF assms(1)] assms(2)
    by (simp add: claimed_bytes_def)
  show "claimed_bytes info bits = total_length info \<longleftrightarrow> list_all (\<lambda>b. b) bits"
    using sum_filter_full [of "[0..<length bits]" "concrete_piece_len info" "\<lambda>i. bits ! i"] concrete_last(2) [OF assms(1)]
      pieces_cover [OF assms(1)] assms(2) by (simp add: claimed_bytes_def list_all_length Ball_def)
qed

lemma verified_bytes_exact:
  assumes "info_dict t = Some info" and "lengths_ok info" and "length (ta_bitfield t) = piece_count info"
  shows "total_verified_bytes t = Some (claimed_bytes info (ta_bitfield t))"
proof -
  let ?n = "length (ta_bitfield t)" and ?on = "filter (\<lambda>i. ta_bitfield t ! i) [0..<length (ta_bitfield t)]"
  have m: "saturating_mul (info_piece_length info) (?n - 1) = info_piece_length info * (?n - 1)"
    using assms(2,3) by (simp add: lengths_ok_def saturating_mul_def)
  have "map (\<lambda>i. if i = ?n - 1 then total_length info - saturating_mul (info_piece_length info) (?n - 1) else info_piece_length info) ?on
      = map (concrete_piece_len info) ?on"
    unfolding m using concrete_last(1) [OF assms(2)] assms(3) by simp
  moreover have "foldl saturating_add 0 (map (concrete_piece_len info) ?on) = claimed_bytes info (ta_bitfield t)"
    using claimed_bounds(1) [OF assms(2,3)] assms(2) by (auto simp: foldl_saturating_add claimed_bytes_def lengths_ok_def)
  ultimately show ?thesis
    using claimed_bounds(1) [OF assms(2,3)] by (simp only: total_verified_bytes_def assms(1) option.case Let_def min_absorb1)
qed

text \<open>
  C32: the progress that is shown is exact. In every reachable state of a torrent file whose piece lengths
  cover its content, the live view reports as verified the sum of the lengths of the pieces the bitfield
  claims, as remaining the rest of the content, and as completed the number of claimed pieces; nothing
  remains exactly when every piece is claimed.
\<close>

theorem live_progress_exact:
  assumes "torrent_reachable t" and "ta_metainfo t = MTorrent f" and "lengths_ok (tf_info f)"
    and p: "p = tmt_progress (tv_metrics (live_view t H))"
  shows "cpr_total p = Some (total_length (tf_info f)) \<and> cpr_verified p = claimed_bytes (tf_info f) (ta_bitfield t) \<and>
    cpr_remaining p = Some (total_length (tf_info f) - claimed_bytes (tf_info f) (ta_bitfield t)) \<and>
    cpr_completed_pieces p = length (filter (\<lambda>b. b) (ta_bitfield t)) \<and> cpr_total_pieces p = piece_count (tf_info f) \<and>
    (cpr_remaining p = Some 0 \<longleftrightarrow> torrent_is_full t)"
proof -
  have i: "info_dict t = Some (tf_info f)" using assms(2) by (simp add: info_dict_def)
  have n: "length (ta_bitfield t) = piece_count (tf_info f)"
    using reachable_core [OF assms(1)] assms(2) i by (simp add: torrent_core_def progress_ok_def is_magnet_def bits_agree_def)
  note v = verified_bytes_exact [OF i assms(3) n] and c = claimed_bounds [OF assms(3) n]
  have u: "snapshot_u64 m = m" if "m \<le> usize_max" for m using that by (simp add: snapshot_u64_def)
  have full: "torrent_is_full t \<longleftrightarrow> list_all (\<lambda>b. b) (ta_bitfield t)"
    using length_filter_less [of _ "ta_bitfield t" "\<lambda>b. b"] by (fastforce simp: torrent_is_full_def list_all_iff)
  have le: "claimed_bytes (tf_info f) (ta_bitfield t) \<le> usize_max" "total_length (tf_info f) \<le> usize_max" "length (ta_bitfield t) \<le> usize_max"
    "length (filter (\<lambda>b. b) (ta_bitfield t)) \<le> usize_max"
    using c(1) assms(3) n by (auto simp: lengths_ok_def intro: order_trans [OF length_filter_le])
  have "cpr_total p = Some (total_length (tf_info f))" "cpr_verified p = claimed_bytes (tf_info f) (ta_bitfield t)"
    "cpr_remaining p = Some (total_length (tf_info f) - claimed_bytes (tf_info f) (ta_bitfield t))"
    "cpr_completed_pieces p = length (filter (\<lambda>b. b) (ta_bitfield t))" "cpr_total_pieces p = piece_count (tf_info f)"
    using le by (simp_all add: p live_view_def torrent_metrics_new_def live_progress_def Let_def i v u n)
  moreover have "total_length (tf_info f) - claimed_bytes (tf_info f) (ta_bitfield t) = 0 \<longleftrightarrow> torrent_is_full t" using c full by linarith
  ultimately show ?thesis by simp
qed


text \<open>
  What is published is what is shown. When the actor of a registered torrent publishes, the engine's view
  contains for its info hash exactly the view computed from the actor's state, and the entries of all other
  torrents are those they were.
\<close>

theorem published_view_current:
  assumes "hub_reachable H" and "torrent_handle_of (ta_info_hash t) H \<noteq> None" and "H' = publish_live_view t event H"
  shows "\<forall>v. v \<in> set (ev_torrents (hub_view H')) \<longleftrightarrow>
    v = live_view t H \<or> v \<in> set (ev_torrents (hub_view H)) \<and> tv_info_hash v \<noteq> ta_info_hash t"
proof -
  let ?h = "ta_info_hash t" and ?v = "live_view t H"
  note inv = reachable_inv [OF assms(1)]
  have h: "tv_info_hash ?v = ?h" by (simp add: live_view_def)
  have H': "H' = hub_step (ReplaceTorrentView ?v (event ?v)) H" using assms(3) by (simp add: publish_live_view_def)
  have reach: "hub_reachable H'" unfolding H' by (rule hub_reachable.call [OF assms(1)]) simp
  obtain s hn where s: "scope_at H ?h = Some s" "sc_handle s = Some hn" using assms(2) by (auto simp: torrent_handle_of_def bind_eq_Some_conv)
  note o = scope_pub [OF inv s(1)]
  obtain p where p: "replace_view_and_emit (Some ?v) (event ?v) (torrent_pub H (sc_pub s)) = (True, p)" "pub_view p = Some ?v"
    using o view_ops(2) [of "torrent_pub H (sc_pub s)" "Some ?v" "event ?v"] fst_ops(3) [of "Some ?v" "event ?v" "torrent_pub H (sc_pub s)"]
    by (metis prod.collapse)
  have frame: "hub_torrents H' = hub_torrents H" "hub_torrent_pubs H' = (hub_torrent_pubs H)[sc_pub s := p]"
    using s p(1) by (simp_all add: H' replace_torrent_view_and_emit_def h publish_def Let_def)
  have other: "torrent_pub H' (sc_pub u) = torrent_pub H (sc_pub u)" if "scope_at H k = Some u" "k \<noteq> ?h" for k u
    using hub_invD(4) [OF inv that(1) s(1)] that(2) by (auto simp: frame(2) nth_update_if)
  have same: "pub_view (torrent_pub H' (sc_pub s)) = Some ?v" using o p(2) by (simp add: frame(2))
  note e = engine_view_exact [OF assms(1)] engine_view_exact [OF reach]
  show ?thesis
  proof (intro allI, goal_cases)
    case (1 v)
    show ?case
    proof (cases "tv_info_hash v = ?h")
      case True
      then show ?thesis using e(2) s same h by (auto simp: frame(1))
    next
      case False
      then show ?thesis using e other h by (force simp: frame(1))
    qed
  qed
qed


section \<open>A late report of a closed connection\<close>

lemma peers_fill [simp]: "ta_peers (fst (fill_window_to env p n t)) = ta_peers t"
  by (simp add: fill_window_to_def Let_def split_beta split: option.split)

lemma peers_windows [simp]: "ta_peers (fst (fill_peer_request_window env p t)) = ta_peers t"
  by (simp add: fill_peer_request_window_def)

lemma peers_for_peers: "(\<And>p t. ta_peers (fst (f p t)) = ta_peers t) \<Longrightarrow> ta_peers (fst (for_peers f ps t)) = ta_peers t"
  by (induction ps arbitrary: t) (simp_all add: then_do_def split_beta)

lemma peers_fill_all [simp]: "ta_peers (fst (fill_all_peer_request_windows env t)) = ta_peers t"
  by (simp add: fill_all_peer_request_windows_def peers_for_peers)

text \<open>The peer scopes are left alone by publications on the stream of the torrent.\<close>

lemma hub_peers_publish [simp]:
  "hub_peers (publish s ev r H) = hub_peers H" "hub_peers (emit_without_torrent_view_change s ev H) = hub_peers H"
  "hub_peers (mark_peer_disconnected a H) = hub_peers H" "hub_peers (emit_peer_connected a H) = hub_peers H"
  "hub_peers (publish_live_view t f H) = hub_peers H" "hub_peers (snd (ensure_torrent_scope h H)) = hub_peers H"
proof -
  show p: "hub_peers (publish s ev r H) = hub_peers H" for s ev r H by (auto simp: publish_def Let_def split: prod.split bool.split option.split)
  show e: "hub_peers (emit_without_torrent_view_change s ev H) = hub_peers H" for s ev H
    by (simp add: emit_without_torrent_view_change_def p split: option.split)
  show "hub_peers (mark_peer_disconnected a H) = hub_peers H" "hub_peers (emit_peer_connected a H) = hub_peers H"
    by (simp_all add: mark_peer_disconnected_def emit_peer_connected_def Let_def e split: option.split)
  show "hub_peers (publish_live_view t f H) = hub_peers H"
    by (simp add: publish_live_view_def replace_torrent_view_and_emit_def p split: option.split)
  show "hub_peers (snd (ensure_torrent_scope h H)) = hub_peers H" by (simp add: ensure_torrent_scope_def Let_def split: option.split)
qed

lemma disconnected_peers: "hub_peers (peer_handle_disconnected a H) = hub_peers (snd (close_peer a H))"
  by (simp add: peer_handle_disconnected_def split: prod.split)

lemma close_closed: "pub_closed (psc_pub (hub_peers H ! a)) \<Longrightarrow> hub_peers (snd (close_peer a H)) = hub_peers H"
  by (simp add: close_peer_eq closed_ops put_peer_pub_def)

lemma insert_scope:
  assumes "live_insert_peer addr (Some i) (t, H) = (Inr new, t', H')"
  shows "new = length (hub_peers H)" and "\<exists>peer. hub_peers H' = hub_peers H @ [peer] \<and> pv_connected (pub_view (psc_pub peer))"
proof -
  obtain u where "insert_peer (Some i) t = (Inr i, u)" using assms by (auto simp: live_insert_peer_def insert_peer_def Let_def split: prod.splits if_splits)
  then have e: "new = fst (register_peer_scope (ta_info_hash t) i (peer_view_connected addr i) H)"
    "hub_peers H' = hub_peers (snd (register_peer_scope (ta_info_hash t) i (peer_view_connected addr i) H))"
    using assms by (auto simp: live_insert_peer_def publish_updated_def Let_def split: prod.splits)
  then show "new = length (hub_peers H)" "\<exists>peer. hub_peers H' = hub_peers H @ [peer] \<and> pv_connected (pub_view (psc_pub peer))"
    using hub_peers_publish(6) [of "ta_info_hash t" H]
    by (auto simp: register_peer_scope_def Let_def split_beta publisher_new_def peer_view_connected_def peer_view_from_metrics_def)
qed

text \<open>
  The late report of a closed connection drops a new one. Every connection reports its end with the
  identifier of the peer. When a peer is disconnected and connects again before the report of its first
  connection is handled, the report removes the new connection from the swarm and stops it, while the
  live scope of the new connection still shows it as connected.
\<close>

theorem late_kill_drops_new_connection:
  assumes "old < length (hub_peers H)" and "live_disconnect_peer env i old (t, H) = (Inr (), (t1, H1), es1)"
    and "live_insert_peer addr (Some i) (t1, H1) = (Inr new, t2, H2)"
    and "live_kill_peer env' i old (t2, H2) = ((t3, H3), es3)"
  shows "i \<in> set (ta_peers t2) \<and> KillPeer i \<in> set es3 \<and> i \<notin> set (ta_peers t3) \<and> pv_connected (pub_view (psc_pub (hub_peers H3 ! new)))"
proof -
  have t2: "i \<in> set (ta_peers t2)"
    using assms(3) by (auto simp: live_insert_peer_def insert_peer_def Let_def split: prod.splits if_splits)
  have t3: "t3 = fst (fill_all_peer_request_windows env' (fst (remove_peer i t2)))" "es3 = fst (snd (remove_peer i t2)) @ snd (fill_all_peer_request_windows env' (fst (remove_peer i t2)))"
    and H3: "hub_peers H3 = hub_peers (snd (close_peer old H2))"
    using assms(4) by (auto simp: live_kill_peer_def publish_updated_def disconnected_peers Let_def split: prod.splits)
  have H1: "hub_peers H1 = hub_peers (snd (close_peer old H))"
    using assms(2) by (auto simp: live_disconnect_peer_def publish_updated_def disconnected_peers Let_def split: prod.splits if_splits)
  then have closed: "pub_closed (psc_pub (hub_peers H1 ! old))" "old < length (hub_peers H1)" using close_peer_closes(1) [OF assms(1)] assms(1) by simp_all
  obtain peer where peer: "hub_peers H2 = hub_peers H1 @ [peer]" "pv_connected (pub_view (psc_pub peer))" "new = length (hub_peers H1)"
    using insert_scope [OF assms(3)] by blast
  then have "hub_peers H3 = hub_peers H1 @ [peer]" using H3 close_closed [of H2 old] closed by (simp add: nth_append)
  then show ?thesis using t2 t3 peer by (simp add: remove_peer_def Let_def)
qed


section \<open>Instances\<close>

theorem live_progress_exact_witness:
  "\<exists>t. torrent_reachable t \<and> cpr_total (tmt_progress (tv_metrics (live_view t demo_hub))) = Some 4 \<and>
     cpr_remaining (tmt_progress (tv_metrics (live_view t demo_hub))) = Some 4"
proof -
  obtain t trs where r: "torrent_reachable t" and u: "t = (torrent_fresh [7] (dk_files tiny_disk) (dk_cache tiny_disk) restore_args)\<lparr>ta_trackers := trs\<rparr>"
    by (rule tiny_start)
  have m: "ta_metainfo t = MTorrent \<lparr>tf_announce = None, tf_announce_list = None, tf_info = tiny_info\<rparr>" "ta_bitfield t = [False]"
    by (simp_all add: u torrent_fresh_def restore_args_def tiny_snapshot_def Let_def piece_count_def tiny_info_def)
  have "total_length tiny_info = 4" "claimed_bytes tiny_info [False] = 0" by (simp_all add: tiny_info_def total_length_def claimed_bytes_def)
  then show ?thesis using live_progress_exact [OF r m(1) _ refl, of demo_hub] tiny_lengths r by (auto simp: m(2))
qed

definition shown_torrent :: torrent_actor where
  "shown_torrent = tiny_torrent\<lparr>ta_info_hash := demo_hash, ta_peers := [demo_peer_id]\<rparr>"

theorem published_view_current_witness:
  "live_view shown_torrent demo_hub \<in> set (ev_torrents (hub_view (publish_updated shown_torrent demo_hub)))"
proof -
  have "torrent_handle_of (ta_info_hash shown_torrent) demo_hub \<noteq> None" by (simp add: shown_torrent_def demo_hub_facts)
  from published_view_current [OF demo_reachable this refl] show ?thesis by (simp add: publish_updated_def)
qed

theorem late_kill_drops_new_connection_witness:
  "\<exists>addr t1 H1 es1 t2 H2 new t3 H3 es3.
     live_disconnect_peer tiny_env demo_peer_id 0 (shown_torrent, demo_hub) = (Inr (), (t1, H1), es1) \<and>
     live_insert_peer addr (Some demo_peer_id) (t1, H1) = (Inr new, t2, H2) \<and>
     live_kill_peer tiny_env demo_peer_id 0 (t2, H2) = ((t3, H3), es3) \<and> demo_peer_id \<notin> set (ta_peers t3)"
proof -
  obtain u where u: "remove_peer demo_peer_id shown_torrent = (u, [KillPeer demo_peer_id], True)" "ta_peers u = []"
    by (auto simp: remove_peer_def shown_torrent_def Let_def)
  obtain t1 es where f: "fill_all_peer_request_windows tiny_env u = (t1, es)" by (cases "fill_all_peer_request_windows tiny_env u")
  have t1: "ta_peers t1 = []" using peers_fill_all [of tiny_env u] f u(2) by simp
  obtain H1 es1 where d: "live_disconnect_peer tiny_env demo_peer_id 0 (shown_torrent, demo_hub) = (Inr (), (t1, H1), es1)"
    using f u(1) by (simp add: live_disconnect_peer_def)
  obtain new t2 H2 where n: "live_insert_peer \<lparr>ip = V4 [10, 0, 0, 2], port = 6881\<rparr> (Some demo_peer_id) (t1, H1) = (Inr new, t2, H2)"
    using t1 by (cases "register_peer_scope (ta_info_hash t1) demo_peer_id (peer_view_connected \<lparr>ip = V4 [10, 0, 0, 2], port = 6881\<rparr> demo_peer_id) H1")
      (auto simp: live_insert_peer_def insert_peer_def Let_def)
  obtain t3 H3 es3 where k: "live_kill_peer tiny_env demo_peer_id 0 (t2, H2) = ((t3, H3), es3)"
    by (metis prod.collapse)
  have "0 < length (hub_peers demo_hub)" by (simp add: demo_hub_def demo_state_def)
  from late_kill_drops_new_connection [OF this d n k] show ?thesis using d n k by blast
qed

end
