(* ===== verification/Engine_Live.thy ===== *)
theory Engine_Live
  imports Engine_Source Torrent_Live
begin

text \<open>
  The engine as its users meet it: the handle \<^verbatim>\<open>Engine\<close> of \<^verbatim>\<open>engine/mod.rs\<close> over the engine actor and the live hub
  they share (\<^verbatim>\<open>engine/actor.rs\<close>, \<^verbatim>\<open>engine/messages.rs\<close>), and the operations of a torrent handle that go through
  the hub (\<^verbatim>\<open>torrent/handle.rs\<close>). The torrents, peers and trackers publish in the hub while the engine works: what
  they call while the engine is busy with a torrent is a parameter. A session is the state of the actor,
  absent when it has stopped, and the hub. Durations are nanoseconds; the texts of errors are shortened.
\<close>

section \<open>Starting and stopping\<close>

record engine_settings =
  st_tcp :: socket_addr
  st_utp :: socket_addr
  st_udp :: socket_addr
  st_mailbox :: nat
  st_dht :: bool
  st_live :: live_settings
  st_autostart :: bool
  st_sufficient :: nat
  st_torrent :: torrent_settings
  st_upload_slots :: nat
  st_optimistic_rounds :: nat

definition unspecified_addr :: socket_addr where
  "unspecified_addr = \<lparr>ip = V4 [0, 0, 0, 0], port = 0\<rparr>"

definition default_live_settings :: live_settings where
  "default_live_settings = \<lparr>ls_engine_capacity = 256, ls_torrent_capacity = 256, ls_peer_capacity = 64, ls_tracker_capacity = 64\<rparr>"

definition default_torrent_settings :: torrent_settings where
  "default_torrent_settings = \<lparr>ts_initial_window = 32, ts_max_in_flight = 32, ts_request_timeout = 15000000000\<rparr>"

definition default_settings :: engine_settings where
  "default_settings =
     \<lparr>st_tcp = unspecified_addr, st_utp = unspecified_addr, st_udp = unspecified_addr, st_mailbox = 64, st_dht = True,
      st_live = default_live_settings, st_autostart = True, st_sufficient = 6, st_torrent = default_torrent_settings,
      st_upload_slots = 4, st_optimistic_rounds = 3\<rparr>"

text \<open>The arguments of \<^verbatim>\<open>Engine::new\<close>; the output path with the flag that it is absolute.\<close>

record engine_options =
  eo_tcp :: "socket_addr option"
  eo_utp :: "socket_addr option"
  eo_udp :: "socket_addr option"
  eo_storage :: storage_strategy
  eo_settings :: "engine_settings option"
  eo_mailbox :: "nat option"
  eo_autostart :: "bool option"
  eo_sufficient :: "nat option"
  eo_output :: "(bool \<times> rel_path) option"

record engine_args =
  ea_tcp :: "socket_addr option"
  ea_utp :: "socket_addr option"
  ea_udp :: "socket_addr option"
  ea_storage :: storage_strategy
  ea_settings :: engine_settings
  ea_base :: "rel_path option"

definition or_else :: "'a option \<Rightarrow> 'a \<Rightarrow> 'a" where
  "or_else x d = (case x of None \<Rightarrow> d | Some v \<Rightarrow> v)"

definition effective_settings :: "engine_options \<Rightarrow> engine_settings" where
  "effective_settings opts =
     (let s = or_else (eo_settings opts) default_settings
      in s\<lparr>st_mailbox := or_else (eo_mailbox opts) (st_mailbox s), st_autostart := or_else (eo_autostart opts) (st_autostart s),
           st_sufficient := or_else (eo_sufficient opts) (st_sufficient s)\<rparr>)"

definition output_base :: "rel_path option \<Rightarrow> (bool \<times> rel_path) option \<Rightarrow> rel_path" where
  "output_base current_dir output =
     (case output of
        Some (absolute, path) \<Rightarrow> if absolute then path else or_else current_dir [''.''] @ path
      | None \<Rightarrow> or_else current_dir [''.''])"

definition engine_new :: "rel_path option \<Rightarrow> engine_options \<Rightarrow> engine_args \<times> hub" where
  "engine_new current_dir opts =
     (let s = effective_settings opts
      in (\<lparr>ea_tcp = eo_tcp opts, ea_utp = eo_utp opts, ea_udp = eo_udp opts, ea_storage = eo_storage opts, ea_settings = s,
           ea_base = Some (output_base current_dir (eo_output opts))\<rparr>, hub_new (st_live s)))"

text \<open>What binding a socket to an address answers: nothing, or an error.\<close>

record bind_net =
  bn_tcp :: "socket_addr \<Rightarrow> string option"
  bn_utp :: "socket_addr \<Rightarrow> string option"
  bn_udp :: "socket_addr \<Rightarrow> string option"

definition engine_on_start :: "bind_net \<Rightarrow> engine_args \<Rightarrow> hub \<Rightarrow> (engine_error + engine_actor) \<times> hub" where
  "engine_on_start net args H =
     (let s = ea_settings args
      in case bn_tcp net (or_else (ea_tcp args) (st_tcp s)) of
           Some err \<Rightarrow> (Inl (NetworkSetupFailed (''tcp bind: '' @ err)), engine_start_failed (''tcp bind: '' @ err) H)
         | None \<Rightarrow>
      (case bn_utp net (or_else (ea_utp args) (st_utp s)) of
           Some err \<Rightarrow> (Inl (NetworkSetupFailed (''utp bind: '' @ err)), engine_start_failed (''utp bind: '' @ err) H)
         | None \<Rightarrow>
      (case bn_udp net (or_else (ea_udp args) (st_udp s)) of
           Some err \<Rightarrow> (Inl (NetworkSetupFailed (''udp bind: '' @ err)), engine_start_failed (''udp bind: '' @ err) H)
         | None \<Rightarrow>
             (Inr \<lparr>en_torrents = [], en_dht = st_dht s, en_storage = ea_storage args, en_base = ea_base args, en_torrent_settings = st_torrent s,
                en_autostart = st_autostart s, en_sufficient = st_sufficient s, en_upload_slots = st_upload_slots s,
                en_optimistic_rounds = st_optimistic_rounds s\<rparr>,
              engine_started H))))"

text \<open>
  Calls of other actors, each made on a handle that exists at that time; the calls reserved to the engine
  are not among them.
\<close>

fun child_call :: "hub_call \<Rightarrow> bool" where
  "child_call EngineStarted = False"
| "child_call (EngineStartFailed _) = False"
| "child_call EngineStoppingCall = False"
| "child_call EngineStoppedCall = False"
| "child_call (RegisterTorrent _ _) = False"
| "child_call (RemoveTorrent _) = False"
| "child_call _ = True"

definition run_calls :: "hub_call list \<Rightarrow> hub \<Rightarrow> hub" where
  "run_calls cs H = fold (\<lambda>c H. if child_call c \<and> call_ok c H then hub_step c H else H) cs H"

type_synonym activity = "hash \<Rightarrow> hub_call list"

text \<open>A torrent stops, publishing what it has to, and its scope is removed.\<close>

definition discard_scope :: "activity \<Rightarrow> hash \<Rightarrow> hub \<Rightarrow> hub" where
  "discard_scope calls h H = remove_torrent_scope h (run_calls (calls h) H)"

definition stopped_torrents :: "engine_effect list \<Rightarrow> hash list" where
  "stopped_torrents es = List.map_filter (\<lambda>x. case x of StopTorrent h \<Rightarrow> Some h | KillTorrent h \<Rightarrow> Some h | _ \<Rightarrow> None) es"

definition live_on_stop :: "activity \<Rightarrow> engine_actor \<times> hub \<Rightarrow> (engine_actor \<times> hub) \<times> engine_effect list" where
  "live_on_stop calls eh =
     (case eh of (e, H) \<Rightarrow>
        let (e', es) = engine_on_stop e
        in ((e', engine_stopped (fold (discard_scope calls) (stopped_torrents es) (engine_stopping H))), es))"

section \<open>Torrents\<close>

definition live_create_torrent ::
  "engine_env \<Rightarrow> activity \<Rightarrow> create_request \<Rightarrow> engine_actor \<times> hub \<Rightarrow> (engine_error + hash) \<times> (engine_actor \<times> hub) \<times> engine_effect list" where
  "live_create_torrent env calls req eh =
     (case eh of (e, H) \<Rightarrow>
        (case create_torrent env req e of
           (Inl err, e', es) \<Rightarrow> (Inl err, (e', fold (discard_scope calls) (stopped_torrents es) H), es)
         | (Inr h, e', es) \<Rightarrow>
             let H1 = run_calls (calls h) H;
                 (hn, H2) = new_with_hub h (map_option (\<lambda>t. live_view t H1) (map_of (en_torrents e') h)) H1
             in (Inr h, (e', register_torrent_scope hn H2), es)))"

fun live_restore_loop ::
  "engine_env \<Rightarrow> activity \<Rightarrow> restore_verification \<Rightarrow> hash list \<Rightarrow> torrent_snapshot list \<Rightarrow> engine_actor \<times> hub
     \<Rightarrow> (engine_error + hash list) \<times> (engine_actor \<times> hub) \<times> engine_effect list" where
  "live_restore_loop env calls verification restored [] eh = (Inr restored, eh, [])"
| "live_restore_loop env calls verification restored (s # rest) eh =
     (case live_create_torrent env calls (Restore True s verification) eh of
        (Inr _, eh1, es) \<Rightarrow>
          (let (r, eh2, es') = live_restore_loop env calls verification (restored @ [sn_info_hash s]) rest eh1 in (r, eh2, es @ es'))
      | (Inl err, (e1, H1), es) \<Rightarrow>
          (let (e2, es') = rollback restored e1
           in (Inl err, (e2, fold (discard_scope calls) (stopped_torrents es') H1), es @ es')))"

definition live_restore_engine ::
  "engine_env \<Rightarrow> activity \<Rightarrow> engine_snapshot \<Rightarrow> restore_verification \<Rightarrow> engine_actor \<times> hub
     \<Rightarrow> (engine_error + hash list) \<times> (engine_actor \<times> hub) \<times> engine_effect list" where
  "live_restore_engine env calls s verification eh =
     (case engine_validate env s of
        Inl err \<Rightarrow> (Inl err, eh, [])
      | Inr _ \<Rightarrow>
          if en_torrents (fst eh) \<noteq> [] then (Inl (InvalidEngineSnapshot ''target engine already manages torrents''), eh, [])
          else live_restore_loop env calls verification [] (es_torrents s) eh)"

section \<open>The engine handle\<close>

type_synonym session = "engine_actor option \<times> hub"

definition torrent_from_actor :: "hash \<Rightarrow> hub \<Rightarrow> engine_error + torrent_handle" where
  "torrent_from_actor h H = (case torrent_handle_of h H of None \<Rightarrow> Inl (TorrentHandleMissing h) | Some hn \<Rightarrow> Inr hn)"

definition add_torrent ::
  "engine_env \<Rightarrow> source_env \<Rightarrow> activity \<Rightarrow> torrent_source \<Rightarrow> session \<Rightarrow> (engine_error + torrent_handle) \<times> session \<times> engine_effect list" where
  "add_torrent env senv calls source S =
     (case into_metainfo senv source of
        Inl err \<Rightarrow> (Inl err, S, [])
      | Inr m \<Rightarrow>
          (case meta_info_hash (ee_torrent env) (ee_from_hex env) m of
             Inl err \<Rightarrow> (Inl (EngineOther err), S, [])
           | Inr h \<Rightarrow>
               (case S of
                  (None, H) \<Rightarrow> (Inl (EngineCommunicationFailed ''add torrent''), S, [])
                | (Some e, H) \<Rightarrow>
                    (case live_create_torrent env calls (New m) (e, H) of
                       (Inl err, (e', H'), es) \<Rightarrow> (Inl err, (Some e', H'), es)
                     | (Inr _, (e', H'), es) \<Rightarrow> (torrent_from_actor h H', (Some e', H'), es)))))"

definition restore_torrent ::
  "engine_env \<Rightarrow> activity \<Rightarrow> restore_verification \<Rightarrow> torrent_snapshot \<Rightarrow> session \<Rightarrow> (engine_error + torrent_handle) \<times> session \<times> engine_effect list" where
  "restore_torrent env calls verification s S =
     (case S of
        (None, H) \<Rightarrow> (Inl (EngineCommunicationFailed ''restore torrent''), S, [])
      | (Some e, H) \<Rightarrow>
          (case live_create_torrent env calls (Restore False s verification) (e, H) of
             (Inl err, (e', H'), es) \<Rightarrow> (Inl err, (Some e', H'), es)
           | (Inr _, (e', H'), es) \<Rightarrow> (torrent_from_actor (sn_info_hash s) H', (Some e', H'), es)))"

definition restore_session ::
  "engine_env \<Rightarrow> activity \<Rightarrow> restore_verification \<Rightarrow> engine_snapshot \<Rightarrow> session \<Rightarrow> (engine_error + torrent_handle list) \<times> session \<times> engine_effect list" where
  "restore_session env calls verification s S =
     (case S of
        (None, H) \<Rightarrow> (Inl (EngineCommunicationFailed ''restore engine''), S, [])
      | (Some e, H) \<Rightarrow>
          (case live_restore_engine env calls s verification (e, H) of
             (Inl err, (e', H'), es) \<Rightarrow> (Inl err, (Some e', H'), es)
           | (Inr hs, (e', H'), es) \<Rightarrow> (collect_results (\<lambda>h. torrent_from_actor h H') hs, (Some e', H'), es)))"

definition find_torrent :: "hash \<Rightarrow> session \<Rightarrow> engine_error + torrent_handle" where
  "find_torrent h S =
     (case S of
        (None, H) \<Rightarrow> Inl (EngineCommunicationFailed ''get torrent'')
      | (Some e, H) \<Rightarrow> (case get_torrent h e of Inl err \<Rightarrow> Inl err | Inr _ \<Rightarrow> torrent_from_actor h H))"

text \<open>
  The removal of a torrent takes two steps, with other messages of the engine possible in between: the actor
  forgets the torrent, and once it has shut down the handle removes its scope.
\<close>

definition removal_begins :: "hash \<Rightarrow> session \<Rightarrow> (engine_error + torrent_actor) \<times> session \<times> engine_effect list" where
  "removal_begins h S =
     (case S of
        (None, H) \<Rightarrow> (Inl (EngineCommunicationFailed ''remove torrent''), S, [])
      | (Some e, H) \<Rightarrow> (case remove_torrent h e of (r, e', es) \<Rightarrow> (r, (Some e', H), es)))"

definition removal_ends :: "activity \<Rightarrow> hash \<Rightarrow> session \<Rightarrow> session" where
  "removal_ends calls h S = (fst S, discard_scope calls h (snd S))"

definition remove_managed :: "activity \<Rightarrow> bool \<Rightarrow> hash \<Rightarrow> session \<Rightarrow> (engine_error + unit) \<times> session \<times> engine_effect list" where
  "remove_managed calls delivered h S =
     (case removal_begins h S of
        (Inl err, S', es) \<Rightarrow> (Inl err, S', es)
      | (Inr _, S', es) \<Rightarrow>
          (if delivered then Inr () else Inl (EngineCommunicationFailed ''stop torrent''), removal_ends calls h S', es @ [StopTorrent h]))"

definition shutdown :: "activity \<Rightarrow> session \<Rightarrow> (engine_error + unit) \<times> session \<times> engine_effect list" where
  "shutdown calls S =
     (case S of
        (None, H) \<Rightarrow> (Inl (EngineCommunicationFailed ''shut down engine''), S, [])
      | (Some e, H) \<Rightarrow> (case live_on_stop calls (e, H) of ((_, H'), es) \<Rightarrow> (Inr (), (None, H'), es)))"

section \<open>Torrent handles\<close>

definition ensure_torrent_identity :: "torrent_handle \<Rightarrow> hash \<Rightarrow> string \<Rightarrow> torrent_error + unit" where
  "ensure_torrent_identity hn h operation = (if h = fst hn then Inr () else Inl (InvalidOperation operation))"

definition handle_disconnect_peer ::
  "torrent_env \<Rightarrow> torrent_handle \<Rightarrow> address \<Rightarrow> torrent_actor \<times> hub \<Rightarrow> (torrent_error + unit) \<times> (torrent_actor \<times> hub) \<times> torrent_effect list" where
  "handle_disconnect_peer env hn a th =
     (let peer = hub_peers (snd th) ! a
      in case ensure_torrent_identity hn (psc_torrent peer) ''disconnect peer'' of
           Inl err \<Rightarrow> (Inl err, th, [])
         | Inr _ \<Rightarrow> live_disconnect_peer env (psc_peer peer) a th)"

section \<open>The registry of handles\<close>

text \<open>
  What the engine needs from the hub: a registered torrent has a handle until its scope is discarded, and
  nothing else changes which torrents have one.
\<close>

locale handle_registry =
  fixes ok :: "'s \<Rightarrow> bool"
    and registered :: "'s \<Rightarrow> 'h set"
    and register :: "'h \<Rightarrow> 'v \<Rightarrow> 's \<Rightarrow> 's"
    and fits :: "'h \<Rightarrow> 'v \<Rightarrow> bool"
    and discard :: "'h \<Rightarrow> 's \<Rightarrow> 's"
    and run :: "'c \<Rightarrow> 's \<Rightarrow> 's"
  assumes register_law: "ok s \<Longrightarrow> fits h v \<Longrightarrow> ok (register h v s) \<and> registered (register h v s) = insert h (registered s)"
    and discard_law: "ok s \<Longrightarrow> ok (discard h s) \<and> registered (discard h s) = registered s - {h}"
    and run_law: "ok s \<Longrightarrow> ok (run c s) \<and> registered (run c s) = registered s"
begin

lemma discard_all: "ok s \<Longrightarrow> ok (fold discard hs s) \<and> registered (fold discard hs s) = registered s - set hs"
  by (induction hs arbitrary: s) (auto simp: discard_law)

lemma register_after: "ok s \<Longrightarrow> fits h v \<Longrightarrow> ok (register h v (run c s)) \<and> registered (register h v (run c s)) = insert h (registered s)"
  by (simp add: register_law run_law)

end

definition registered_torrents :: "hub \<Rightarrow> hash set" where
  "registered_torrents H = {h. torrent_handle_of h H \<noteq> None}"

text \<open>Which torrents have a handle depends on the scopes only.\<close>

lemma handle_same: "hub_torrents H' = hub_torrents H \<Longrightarrow> torrent_handle_of k H' = torrent_handle_of k H"
  by (simp add: torrent_handle_of_def)

lemma handle_ensure: "ensure_torrent_scope h H = (s, H') \<Longrightarrow> torrent_handle_of k H' = torrent_handle_of k H"
  by (auto simp: ensure_torrent_scope_def torrent_handle_of_def Let_def map_add_def split: option.splits if_splits)

lemma handle_put_scope: "scope_at H h = Some s \<Longrightarrow> sc_handle s' = sc_handle s \<Longrightarrow> torrent_handle_of k (put_scope h s' H) = torrent_handle_of k H"
  by (simp add: torrent_handle_of_def update_conv')

lemma torrents_publish [simp]:
  "hub_torrents (publish s ev r H) = hub_torrents H" "hub_torrents (emit_without_torrent_view_change s ev H) = hub_torrents H"
proof -
  show p: "hub_torrents (publish s ev r H) = hub_torrents H" for s ev r H by (auto simp: publish_def Let_def split: prod.split bool.split option.split)
  show "hub_torrents (emit_without_torrent_view_change s ev H) = hub_torrents H"
    by (simp add: emit_without_torrent_view_change_def p split: option.split)
qed

lemma handle_key: "scope_key H' k = scope_key H k \<Longrightarrow> torrent_handle_of k H' = torrent_handle_of k H"
  by (auto simp: scope_key_def torrent_handle_of_def map_option_case split: option.splits)

lemma handle_mark: "torrent_handle_of k (mark_peer_disconnected a H) = torrent_handle_of k H"
proof (cases "scope_at H (psc_torrent (hub_peers H ! a))")
  case (Some s)
  let ?s1 = "s\<lparr>sc_peers := AList.delete (psc_peer (hub_peers H ! a)) (sc_peers s)\<rparr>"
  have "torrent_handle_of k (put_scope (psc_torrent (hub_peers H ! a)) ?s1 H) = torrent_handle_of k H" by (rule handle_put_scope [OF Some]) simp
  moreover have "torrent_handle_of k (emit_without_torrent_view_change u ev H1) = torrent_handle_of k H1" for u ev H1 by (rule handle_same) simp
  ultimately show ?thesis using Some by (simp add: mark_peer_disconnected_def Let_def)
qed (simp add: mark_peer_disconnected_def)

lemma torrents_close_peers [simp]: "hub_torrents (fold close_peer_without_parent_event as H) = hub_torrents H"
  by (induction as arbitrary: H) (simp_all add: close_peer_without_parent_event_def)

lemma torrents_tracker_event [simp]: "hub_torrents (emit_tracker_event a ev H) = hub_torrents H"
  by (simp add: emit_tracker_event_def split: option.split)

lemma torrents_tracker_publish [simp]: "hub_torrents (tracker_publish a edit ev H) = hub_torrents H"
  by (simp add: tracker_publish_def Let_def split: prod.split bool.split)

lemma handle_child_call:
  assumes "child_call c" and "hub_inv H"
  shows "torrent_handle_of k (hub_step c H) = torrent_handle_of k H"
proof (cases c)
  case (RegisterPeer h j v)
  obtain s H1 where e: "ensure_torrent_scope h H = (s, H1)" by force
  have "scope_at H1 h = Some s" by (rule ensure_scope(2) [OF assms(2) e])
  then show ?thesis using RegisterPeer handle_ensure [OF e, of k] e
    by (cases "k = h") (simp_all add: register_peer_scope_def Let_def torrent_handle_of_def update_conv')
next
  case (RegisterTracker h source v)
  obtain s H1 where e: "ensure_torrent_scope h H = (s, H1)" by force
  have s: "scope_at H1 h = Some s" by (rule ensure_scope(2) [OF assms(2) e])
  have "torrent_handle_of k (snd (insert_tracker h source v (s\<lparr>sc_trackers := trs\<rparr>) H1)) = torrent_handle_of k H1" for trs
    using s by (simp add: insert_tracker_def Let_def torrent_handle_of_def update_conv')
  from this this [of "sc_trackers s"] show ?thesis using RegisterTracker handle_ensure [OF e, of k] e
    by (simp add: register_tracker_scope_def split: option.split)
next
  case (InitializeTorrent v)
  obtain s H1 where e: "ensure_torrent_scope (tv_info_hash v) H = (s, H1)" by force
  then show ?thesis using InitializeTorrent handle_ensure [OF e, of k] by (simp add: initialize_torrent_projection_def torrent_handle_of_def)
next
  case (RestartPeers h)
  show ?thesis
  proof (cases "scope_at H h")
    case (Some s)
    have "torrent_handle_of k (put_scope h (s\<lparr>sc_peers := []\<rparr>) H) = torrent_handle_of k H" by (rule handle_put_scope [OF Some]) simp
    moreover have "torrent_handle_of k (fold close_peer_without_parent_event as H1) = torrent_handle_of k H1" for as H1 by (rule handle_same) simp
    ultimately show ?thesis using RestartPeers Some by (simp add: close_peer_scopes_for_torrent_restart_def)
  qed (simp add: RestartPeers close_peer_scopes_for_torrent_restart_def)
next
  case (PeerDisconnectedCall a)
  have "torrent_handle_of k (snd (close_peer a H)) = torrent_handle_of k H" by (rule handle_same) simp
  then show ?thesis using PeerDisconnectedCall handle_mark by (simp add: peer_handle_disconnected_def split_beta)
next
  case (TrackerStop a)
  have "torrent_handle_of k (snd (close_tracker a H)) = torrent_handle_of k H" by (rule handle_key) (rule scope_key_close_tracker)
  moreover have "torrent_handle_of k (emit_tracker_event a ev H1) = torrent_handle_of k H1" for ev H1 by (rule handle_same) simp
  ultimately show ?thesis using TrackerStop by (simp add: tracker_stopped_def split_beta)
qed (use assms(1) in \<open>simp_all add: torrent_handle_of_def replace_torrent_view_and_emit_def emit_health_def emit_peer_connected_def peer_publish_state_def
  peer_publish_metrics_def tracker_publish_metrics_def announce_succeeded_view_def announce_failed_view_def tracker_restarting_def Let_def
  split: option.split\<close>)

lemma run_calls_kept:
  assumes "hub_inv H"
  shows "hub_inv (run_calls cs H)" and "torrent_handle_of k (run_calls cs H) = torrent_handle_of k H"
proof -
  have "hub_inv (run_calls cs H) \<and> torrent_handle_of k (run_calls cs H) = torrent_handle_of k H"
    using assms
  proof (induction cs arbitrary: H)
    case (Cons c cs)
    then show ?case using inv_step [of H c] handle_child_call [of c H k] by (cases "child_call c \<and> call_ok c H") (simp_all add: run_calls_def)
  qed (simp add: run_calls_def)
  then show "hub_inv (run_calls cs H)" "torrent_handle_of k (run_calls cs H) = torrent_handle_of k H" by simp_all
qed

lemma handle_remove:
  assumes "hub_inv H"
  shows "torrent_handle_of k (remove_torrent_scope h H) = (if k = h then None else torrent_handle_of k H)"
proof (cases "scope_at H h")
  case (Some s)
  have o: "\<not> pub_closed (torrent_pub (close_children s H) (sc_pub s))"
    using scope_pub [OF assms Some] close_children_frame(3) [OF assms Some] by simp
  have "torrent_handle_of k (close_children s H) = torrent_handle_of k H" by (rule handle_key) (rule scope_key_close_children [OF assms Some])
  then show ?thesis unfolding remove_torrent_eq [OF Some o] by (auto simp: torrent_handle_of_def delete_conv' split: option.split)
qed (auto simp: remove_torrent_scope_def torrent_handle_of_def)

definition register_view :: "hash \<Rightarrow> torrent_view option \<Rightarrow> hub \<Rightarrow> hub" where
  "register_view h v H = (case new_with_hub h v H of (hn, H1) \<Rightarrow> register_torrent_scope hn H1)"

lemma register_view_handle:
  assumes "hub_inv H"
  shows "torrent_handle_of k (register_view h v H) =
    (if k = h \<and> torrent_handle_of h H = None then Some (h, sc_pub (fst (ensure_torrent_scope h H))) else torrent_handle_of k H)"
proof -
  obtain s H1 where e: "ensure_torrent_scope h H = (s, H1)" by force
  obtain H2 where n: "new_with_hub h v H = ((h, sc_pub s), H2)" "hub_torrents H2 = hub_torrents H1"
    using e by (cases v) (simp_all add: new_with_hub_def)
  have s: "scope_at H2 h = Some s" using ensure_scope(2) [OF assms e] n(2) by simp
  then have e2: "ensure_torrent_scope h H2 = (s, H2)" by (simp add: ensure_torrent_scope_def)
  have old: "torrent_handle_of j H2 = torrent_handle_of j H" for j using handle_ensure [OF e] handle_same [OF n(2)] by simp
  have hs: "torrent_handle_of h H = sc_handle s" using old [of h] s by (simp add: torrent_handle_of_def)
  have "torrent_handle_of k (register_torrent_scope (h, sc_pub s) H2) =
      (if k = h \<and> sc_handle s = None then Some (h, sc_pub s) else torrent_handle_of k H2)"
    using s e2 by (auto simp: register_torrent_scope_def Let_def torrent_handle_of_def update_conv')
  then show ?thesis using n(1) e old hs by (simp add: register_view_def)
qed

text \<open>The stream of the engine is closed by the two calls at the end of its life only.\<close>

lemma emit_open [simp]: "pub_closed (hub_engine (engine_emit ev H)) = pub_closed (hub_engine H)"
  by (simp add: engine_emit_def open_ops)

lemma publish_open [simp]:
  "pub_closed (hub_engine (publish s ev r H)) = pub_closed (hub_engine H)"
  "pub_closed (hub_engine (emit_without_torrent_view_change s ev H)) = pub_closed (hub_engine H)"
proof -
  show p: "pub_closed (hub_engine (publish s ev r H)) = pub_closed (hub_engine H)" for s ev r H
    by (auto simp: publish_def Let_def split: prod.split bool.split option.split)
  show "pub_closed (hub_engine (emit_without_torrent_view_change s ev H)) = pub_closed (hub_engine H)"
    by (simp add: emit_without_torrent_view_change_def p split: option.split)
qed

lemma ensure_engine [simp]: "hub_engine (snd (ensure_torrent_scope h H)) = hub_engine H"
  by (simp add: ensure_torrent_scope_def Let_def split: option.split)

lemma children_engine [simp]:
  "hub_engine (fold close_peer_without_parent_event as H) = hub_engine H" "hub_engine (fold close_tracker_without_parent_event as H) = hub_engine H"
  "hub_engine (close_children s H) = hub_engine H"
proof -
  show p: "hub_engine (fold close_peer_without_parent_event as H) = hub_engine H" for as H
    by (induction as arbitrary: H) (simp_all add: close_peer_without_parent_event_def)
  show t: "hub_engine (fold close_tracker_without_parent_event as H) = hub_engine H" for as H
    by (induction as arbitrary: H) (simp_all add: close_tracker_without_parent_event_def)
  show "hub_engine (close_children s H) = hub_engine H" by (simp add: close_children_def p t)
qed

lemma events_open [simp]:
  "pub_closed (hub_engine (emit_tracker_event a ev H)) = pub_closed (hub_engine H)"
  "pub_closed (hub_engine (mark_peer_disconnected b H)) = pub_closed (hub_engine H)"
  by (simp_all add: emit_tracker_event_def mark_peer_disconnected_def Let_def split: option.split)

lemma tracker_publish_open [simp]: "pub_closed (hub_engine (tracker_publish a edit ev H)) = pub_closed (hub_engine H)"
  by (simp add: tracker_publish_def Let_def split: prod.split bool.split)

lemma remove_open [simp]: "pub_closed (hub_engine (remove_torrent_scope h H)) = pub_closed (hub_engine H)"
  by (simp add: remove_torrent_scope_def Let_def split: option.split prod.split bool.split)

lemma child_open: "child_call c \<Longrightarrow> pub_closed (hub_engine (hub_step c H)) = pub_closed (hub_engine H)"
  by (cases c) (simp_all add: initialize_torrent_projection_def replace_torrent_view_and_emit_def emit_health_def register_peer_scope_def
    emit_peer_connected_def peer_publish_state_def peer_publish_metrics_def peer_handle_disconnected_def close_peer_scopes_for_torrent_restart_def
    register_tracker_scope_def insert_tracker_def tracker_publish_metrics_def announce_succeeded_view_def announce_failed_view_def
    tracker_restarting_def tracker_stopped_def open_ops split_beta Let_def split: option.split)

lemma run_calls_open: "pub_closed (hub_engine (run_calls cs H)) = pub_closed (hub_engine H)"
  by (induction cs arbitrary: H) (simp_all add: run_calls_def child_open)

lemma register_view_open: "pub_closed (hub_engine (register_view h v H)) = pub_closed (hub_engine H)"
  by (simp add: register_view_def new_with_hub_def register_torrent_scope_def Let_def split_beta split: option.split)

definition hub_live :: "hub \<Rightarrow> bool" where
  "hub_live H = (hub_inv H \<and> \<not> pub_closed (hub_engine H))"

interpretation reg: handle_registry hub_live registered_torrents register_view
  "\<lambda>h (v :: torrent_view option). \<forall>w. v = Some w \<longrightarrow> tv_info_hash w = h" "discard_scope calls" run_calls for calls
proof unfold_locales
  fix H h and v :: "torrent_view option"
  assume "hub_live H" and v: "\<forall>w. v = Some w \<longrightarrow> tv_info_hash w = h"
  then have H: "hub_inv H" "\<not> pub_closed (hub_engine H)" by (simp_all add: hub_live_def)
  have "call_ok (RegisterTorrent h v) H" using v by (simp split: option.split)
  then have "hub_live (register_view h v H)"
    using inv_step [OF H(1), of "RegisterTorrent h v"] H(2) register_view_open [of h v H] by (simp add: register_view_def hub_live_def)
  moreover have "registered_torrents (register_view h v H) = insert h (registered_torrents H)"
    by (auto simp: registered_torrents_def register_view_handle [OF H(1)])
  ultimately show "hub_live (register_view h v H) \<and> registered_torrents (register_view h v H) = insert h (registered_torrents H)" ..
next
  fix H h
  assume "hub_live H"
  then have H: "hub_inv H" "\<not> pub_closed (hub_engine H)" by (simp_all add: hub_live_def)
  have "hub_live (discard_scope calls h H)"
    using inv_remove_torrent [OF run_calls_kept(1) [OF H(1)]] H(2) by (simp add: discard_scope_def hub_live_def run_calls_open)
  then show "hub_live (discard_scope calls h H) \<and> registered_torrents (discard_scope calls h H) = registered_torrents H - {h}"
    using handle_remove [OF run_calls_kept(1) [OF H(1)]] run_calls_kept(2) [OF H(1)] by (auto simp: discard_scope_def registered_torrents_def)
next
  fix H cs
  assume "hub_live H"
  then show "hub_live (run_calls cs H) \<and> registered_torrents (run_calls cs H) = registered_torrents H"
    using run_calls_kept run_calls_open by (simp add: registered_torrents_def hub_live_def)
qed

section \<open>The engine keeps its handles\<close>

text \<open>The hash of a torrent is set at its creation; starting and restoring keep it.\<close>

lemma hash_then_do: "(\<And>t. ta_info_hash (fst (f t)) = ta_info_hash t) \<Longrightarrow> (\<And>t. ta_info_hash (fst (g t)) = ta_info_hash t) \<Longrightarrow>
  ta_info_hash (fst (then_do f g t)) = ta_info_hash t"
  by (simp add: then_do_def split_beta)

lemma hash_for_peers: "(\<And>p t. ta_info_hash (fst (f p t)) = ta_info_hash t) \<Longrightarrow> ta_info_hash (fst (for_peers f ps t)) = ta_info_hash t"
  by (induction ps arbitrary: t) (simp_all add: then_do_def split_beta)

lemma hash_fill: "ta_info_hash (fst (fill_window_to env p n t)) = ta_info_hash t"
  by (simp add: fill_window_to_def Let_def split_beta split: option.split)

lemma hash_windows: "ta_info_hash (fst (fill_all_peer_request_windows env t)) = ta_info_hash t" "ta_info_hash (fst (fill_initial_windows env t)) = ta_info_hash t"
  by (simp_all add: fill_all_peer_request_windows_def fill_initial_windows_def fill_peer_request_window_def fill_initial_peer_request_window_def
      hash_for_peers hash_fill)

lemma hash_rechoke: "ta_info_hash (fst (rechoke_peers env t)) = ta_info_hash t"
proof -
  have "ta_info_hash (fst (try_update_tracker_progress env t)) = ta_info_hash t" for t
    by (auto simp: try_update_tracker_progress_def tracker_broadcasts hash_then_do split: option.split)
  then show ?thesis by (simp add: rechoke_peers_def Let_def split_beta hash_windows)
qed

lemma hash_begin: "ta_info_hash (fst (begin_transfer env t)) = ta_info_hash t"
proof -
  have u: "ta_info_hash (fst (update_tracker_progress env t)) = ta_info_hash t" for t
    by (auto simp: update_tracker_progress_def tracker_broadcasts hash_then_do split: option.split)
  have a: "ta_info_hash (fst (announce_tracker_event env e t)) = ta_info_hash t" for e t
    unfolding announce_tracker_event_def by (intro hash_then_do) (simp_all add: tracker_broadcasts)
  have "ta_info_hash (fst (enter_transfer env t)) = ta_info_hash t" "ta_info_hash (fst (schedule_next_rechoke t)) = ta_info_hash t" for t
    by (simp_all add: enter_transfer_def transition_state_eq schedule_next_rechoke_def)
  then show ?thesis
    unfolding begin_transfer_def by (intro hash_then_do u a hash_windows hash_rechoke)
qed

lemma hash_start: "ta_info_hash (fst (torrent_start env t)) = ta_info_hash t"
proof -
  have "ta_info_hash (fst (manager_pre_start env info t)) = ta_info_hash t" for info t
    by (simp add: manager_pre_start_def split: manager_proxy.split sum.split)
  then show ?thesis
    by (simp add: torrent_start_def then_do_def send_ready_hooks_def split_beta Let_def hash_begin transition_state_eq split: option.split)
qed

lemma hash_restore: "ta_info_hash (restore_snapshot s t) = ta_info_hash t"
  by (simp add: restore_snapshot_def Let_def transition_state_eq)

text \<open>Whatever a torrent does while the engine waits for it, its hash stays.\<close>

definition keeps_hash :: "engine_env \<Rightarrow> bool" where
  "keeps_hash env = (\<forall>h k t t'. ee_serve env h k t = Some t' \<longrightarrow> ta_info_hash t' = ta_info_hash t)"

lemma ask_hash:
  assumes "ask env h k f actor = Some u" and "keeps_hash env" and "\<And>t. ta_info_hash (f t) = ta_info_hash t"
    and "\<And>v. actor = Some v \<Longrightarrow> ta_info_hash v = g"
  shows "ta_info_hash u = g"
  using assms by (cases actor) (auto simp: ask_def keeps_hash_def)

lemma hash_on_start:
  assumes "torrent_on_start env from_hex files cache args = Inr t" and "meta_info_hash env from_hex (arg_metainfo args) = Inr h"
  shows "ta_info_hash t = h"
proof -
  have "ta_info_hash (fold (\<lambda>tr t. snd (register_tracker_actor tr t)) trs t) = ta_info_hash t" for trs t
    by (induction trs arbitrary: t) (simp_all add: register_tracker_actor_def split: tracker.split)
  then show ?thesis using assms by (auto simp: torrent_on_start_def torrent_fresh_def Let_def split: if_splits)
qed

text \<open>The actor of a new torrent: spawned, restored and resumed, absent where it has died.\<close>

definition spawned_actor :: "engine_env \<Rightarrow> engine_actor \<Rightarrow> create_plan \<Rightarrow> torrent_actor option" where
  "spawned_actor env e p =
     (case torrent_on_start (ee_torrent env) (ee_from_hex env) (dk_files (ee_disk env)) (dk_cache (ee_disk env)) (plan_args e p) of
        Inl _ \<Rightarrow> None | Inr t \<Rightarrow> Some t)"

definition restored_actor :: "engine_env \<Rightarrow> hash \<Rightarrow> create_plan \<Rightarrow> torrent_actor option \<Rightarrow> torrent_actor option" where
  "restored_actor env h p actor = (case cp_restore p of None \<Rightarrow> actor | Some s \<Rightarrow> ask env h 0 (restore_snapshot s) actor)"

definition resumed_actor :: "engine_env \<Rightarrow> hash \<Rightarrow> create_plan \<Rightarrow> torrent_actor option \<Rightarrow> torrent_actor option" where
  "resumed_actor env h p actor = (if cp_resume p then ask env h 1 (\<lambda>t. fst (set_state (ee_torrent env) Downloading t)) actor else actor)"

lemma create_run:
  assumes p: "create_plan_of env e req = Inr p" and h: "meta_info_hash (ee_torrent env) (ee_from_hex env) (cp_metainfo p) = Inr h"
    and fresh: "map_of (en_torrents e) h = None"
  defines "R \<equiv> restored_actor env h p (spawned_actor env e p)"
  defines "U \<equiv> resumed_actor env h p R"
  defines "stop \<equiv> dht_registration env e p h @ (if en_dht e then [DhtUnregister h] else []) @ [StopTorrent h]"
  shows "create_torrent env req e =
    (if cp_restore p \<noteq> None \<and> R = None then (Inl (EngineCommunicationFailed ''restore torrent snapshot''), e, [StopTorrent h])
     else if cp_resume p \<and> U = None then (Inl (EngineCommunicationFailed ''resume restored torrent''), e, stop)
     else (case ask env h 2 (\<lambda>t. t) U of
             None \<Rightarrow> (Inl (EngineCommunicationFailed ''initialize torrent live state''), e, stop)
           | Some t \<Rightarrow> (Inr h, e\<lparr>en_torrents := AList.update h t (en_torrents e)\<rparr>, dht_registration env e p h)))"
proof -
  have "AList.delete h (en_torrents e) = en_torrents e" using fresh by (simp add: delete_idem map_of_eq_None_iff)
  then have del: "e\<lparr>en_torrents := AList.delete h (en_torrents e)\<rparr> = e" by simp
  show ?thesis
    unfolding create_torrent_def p h U_def R_def stop_def resumed_actor_def restored_actor_def spawned_actor_def Let_def
    by (simp only: p h sum.case fresh if_False simp_thms discard_failed_torrent_def prod.case del append_Nil)
qed

lemma create_hash:
  assumes c: "create_torrent env req e = (Inr h, e', es)" and k: "keeps_hash env" and t: "map_of (en_torrents e') h = Some t"
  shows "ta_info_hash t = h"
proof -
  obtain p where p: "create_plan_of env e req = Inr p" "meta_info_hash (ee_torrent env) (ee_from_hex env) (cp_metainfo p) = Inr h"
    "h \<notin> set (keys e)"
    using c by (cases rule: create_torrent_cases [where D = "{}"]) blast+
  then have fresh: "map_of (en_torrents e) h = None" using keys_iff by blast
  let ?S = "spawned_actor env e p" let ?R = "restored_actor env h p ?S" let ?U = "resumed_actor env h p ?R"
  have run: "ask env h 2 (\<lambda>t. t) ?U = Some t"
    using c t unfolding create_run [OF p(1,2) fresh] by (cases "ask env h 2 (\<lambda>t. t) ?U") (auto simp: update_conv' split: if_splits)
  have s: "ta_info_hash u = h" if "?S = Some u" for u
    using that hash_on_start p(2) by (auto simp: spawned_actor_def plan_args_def split: sum.splits)
  have r: "ta_info_hash u = h" if "?R = Some u" for u
    using that s ask_hash [OF _ k hash_restore s] by (cases "cp_restore p") (simp_all add: restored_actor_def)
  have set: "ta_info_hash (fst (set_state (ee_torrent env) Downloading t)) = ta_info_hash t" for t by (simp add: set_state_def hash_start)
  have u: "ta_info_hash u = h" if "?U = Some u" for u
    using that r ask_hash [OF _ k set r] by (cases "cp_resume p") (simp_all add: resumed_actor_def)
  show ?thesis by (rule ask_hash [OF run k _ u]) simp_all
qed

text \<open>Only a torrent the engine does not manage is discarded by a failed creation.\<close>

lemma stopped_simps [simp]:
  "stopped_torrents [] = []" "stopped_torrents (xs @ ys) = stopped_torrents xs @ stopped_torrents ys"
  "stopped_torrents (StopTorrent h # xs) = h # stopped_torrents xs" "stopped_torrents (KillTorrent h # xs) = h # stopped_torrents xs"
  "stopped_torrents (DhtUnregister h # xs) = stopped_torrents xs" "stopped_torrents (DhtRegister h q # xs) = stopped_torrents xs"
  "stopped_torrents (KillDht # xs) = stopped_torrents xs"
  by (simp_all add: stopped_torrents_def List.map_filter_def)

lemma stopped_registration [simp]: "stopped_torrents (dht_registration env e p h) = []"
  by (cases "ee_port env") (simp_all add: dht_registration_def)

lemma create_failed_same: "create_torrent env req e = (Inl err, e', es) \<Longrightarrow> e' = e"
  by (erule create_torrent_cases [where D = "{}"]) simp_all

lemma create_failed_stops:
  assumes "create_torrent env req e = (Inl err, e', es)"
  shows "set (stopped_torrents es) \<inter> set (keys e) = {}"
proof (cases "create_plan_of env e req")
  case (Inl err)
  then show ?thesis using assms by (auto simp: create_torrent_def)
next
  case p: (Inr p)
  show ?thesis
  proof (cases "meta_info_hash (ee_torrent env) (ee_from_hex env) (cp_metainfo p)")
    case (Inl err)
    then show ?thesis using assms p by (auto simp: create_torrent_def)
  next
    case h: (Inr h)
    show ?thesis
    proof (cases "map_of (en_torrents e) h")
      case None
      then have "set (stopped_torrents es) \<subseteq> {h}"
        using assms unfolding create_run [OF p h None] by (auto split: if_splits option.splits)
      then show ?thesis using None keys_iff [of e h] by auto
    next
      case (Some t)
      then show ?thesis using assms p h by (auto simp: create_torrent_def)
    qed
  qed
qed

lemma remove_stops:
  "remove_torrent h e = (r, e', es) \<Longrightarrow> set (keys e') = set (keys e) - {h} \<and> stopped_torrents es = [] \<and> ((\<exists>t. r = Inr t) \<longleftrightarrow> h \<in> set (keys e))"
proof -
  assume r: "remove_torrent h e = (r, e', es)"
  show ?thesis
  proof (cases "map_of (en_torrents e) h")
    case None
    then show ?thesis using r keys_iff [of e h] by (auto simp: remove_torrent_def)
  next
    case (Some t)
    then have "h \<in> set (keys e)" using keys_iff [of e h] by simp
    then show ?thesis using r Some by (auto simp: remove_torrent_def keys_def AList.delete_eq)
  qed
qed

lemma rollback_stops:
  "rollback hs e = (e', es) \<Longrightarrow> set (stopped_torrents es) = set (keys e) \<inter> set hs \<and> set (keys e') = set (keys e) - set hs"
proof (induction hs arbitrary: e e' es)
  case (Cons h hs)
  obtain r e1 es1 where r: "remove_torrent h e = (r, e1, es1)" by (cases "remove_torrent h e")
  obtain e2 es2 where b: "rollback hs e1 = (e2, es2)" by force
  note IH = Cons.IH [OF b] and s = remove_stops [OF r]
  show ?case
  proof (cases r)
    case (Inl err)
    then have "e' = e2" "es = es1 @ es2" "h \<notin> set (keys e)" using Cons.prems r b s by auto
    then show ?thesis using IH s by auto
  next
    case (Inr t)
    then have "e' = e2" "es = es1 @ KillTorrent h # es2" "h \<in> set (keys e)" using Cons.prems r b s by auto
    then show ?thesis using IH s by auto
  qed
qed simp

definition session_ok :: "engine_actor \<times> hub \<Rightarrow> bool" where
  "session_ok eh = (hub_live (snd eh) \<and> registered_torrents (snd eh) = set (keys (fst eh)))"

lemma create_ok:
  assumes "session_ok (e, H)" and "keeps_hash env" and c: "live_create_torrent env calls req (e, H) = (r, (e', H'), es)"
  shows "session_ok (e', H')" and "r = Inr h \<Longrightarrow> h \<in> set (keys e')" and "r = Inl err \<Longrightarrow> e' = e"
proof -
  obtain r0 e0 es0 where c0: "create_torrent env req e = (r0, e0, es0)" by (cases "create_torrent env req e")
  have H: "hub_live H" "registered_torrents H = set (keys e)" using assms(1) by (simp_all add: session_ok_def)
  have "session_ok (e', H') \<and> (\<forall>h. r = Inr h \<longrightarrow> h \<in> set (keys e')) \<and> (\<forall>err. r = Inl err \<longrightarrow> e' = e)"
  proof (cases r0)
    case (Inl err)
    note stops = create_failed_stops [OF c0 [unfolded Inl]] create_failed_same [OF c0 [unfolded Inl]]
    have eq: "e' = e" "H' = fold (discard_scope calls) (stopped_torrents es0) H" "r = Inl err"
      using c c0 Inl stops(2) by (auto simp: live_create_torrent_def)
    have "hub_live H'" "registered_torrents H' = registered_torrents H - set (stopped_torrents es0)"
      unfolding eq using reg.discard_all [OF H(1)] by blast+
    then show ?thesis using stops(1) H(2) eq by (auto simp: session_ok_def)
  next
    case (Inr h)
    obtain t where e0: "h \<notin> set (keys e)" "e0 = e\<lparr>en_torrents := en_torrents e @ [(h, t)]\<rparr>"
      using c0 Inr by (cases rule: create_torrent_cases [where D = "{}"]) auto
    then have k: "keys e0 = keys e @ [h]" and t: "map_of (en_torrents e0) h = Some t"
      using keys_iff [of e h] by (simp_all add: keys_def map_add_def)
    have hash: "ta_info_hash t = h" by (rule create_hash [OF c0 [unfolded Inr] assms(2) t])
    have eq: "r = Inr h" "e' = e0" "H' = register_view h (Some (live_view t (run_calls (calls h) H))) (run_calls (calls h) H)"
      using c c0 Inr t by (auto simp: live_create_torrent_def register_view_def Let_def split_beta)
    have "tv_info_hash (live_view t G) = h" for G using hash by (simp add: live_view_def)
    then have "hub_live H' \<and> registered_torrents H' = insert h (registered_torrents H)"
      unfolding eq by (intro reg.register_after [OF H(1)]) simp
    then show ?thesis using H(2) k eq by (auto simp: session_ok_def)
  qed
  then show "session_ok (e', H')" "r = Inr h \<Longrightarrow> h \<in> set (keys e')" "r = Inl err \<Longrightarrow> e' = e" by blast+
qed

lemma restore_loop_ok:
  assumes "keeps_hash env"
  shows "session_ok (e, H) \<Longrightarrow> live_restore_loop env calls v restored ss (e, H) = (r, (e', H'), es) \<Longrightarrow> session_ok (e', H')"
proof (induction ss arbitrary: restored e H r e' H' es)
  case (Cons s ss)
  obtain rc e1 H1 es1 where c: "live_create_torrent env calls (Restore True s v) (e, H) = (rc, (e1, H1), es1)"
    by (metis prod.collapse)
  note ok = create_ok(1) [OF Cons.prems(1) assms c]
  show ?case
  proof (cases rc)
    case (Inr h)
    obtain r2 e2 H2 es2 where l: "live_restore_loop env calls v (restored @ [sn_info_hash s]) ss (e1, H1) = (r2, (e2, H2), es2)"
      by (metis prod.collapse)
    have "e' = e2" "H' = H2" using Cons.prems(2) c Inr l by simp_all
    then show ?thesis using Cons.IH [OF ok l] by simp
  next
    case (Inl err)
    obtain e2 es2 where b: "rollback restored e1 = (e2, es2)" by force
    have eq: "e' = e2" "H' = fold (discard_scope calls) (stopped_torrents es2) H1" using Cons.prems(2) c Inl b by auto
    have H1: "hub_live H1" "registered_torrents H1 = set (keys e1)" using ok by (simp_all add: session_ok_def)
    show ?thesis using reg.discard_all [OF H1(1), of calls "stopped_torrents es2"] rollback_stops [OF b] H1(2) eq by (auto simp: session_ok_def)
  qed
qed simp

lemma stopped_all: "stopped_torrents (snd (engine_on_stop e)) = keys e"
proof -
  have "stopped_torrents (map (\<lambda>(h, _). StopTorrent h) xs) = map fst xs" for xs :: "(hash \<times> torrent_actor) list"
    by (induction xs) auto
  then show ?thesis by (simp add: engine_on_stop_def keys_def)
qed

lemma stop_empties:
  assumes "session_ok (e, H)" and "live_on_stop calls (e, H) = ((e', H'), es)"
  shows "hub_inv H'" and "registered_torrents H' = {}" and "pub_closed (hub_engine H')" and "pub_view (hub_engine H') = EngineStopped"
proof -
  let ?H1 = "engine_stopping H"
  have H: "hub_inv H" "\<not> pub_closed (hub_engine H)" "registered_torrents H = set (keys e)" using assms(1) by (simp_all add: session_ok_def hub_live_def)
  have "hub_inv ?H1" using inv_step [OF H(1), of EngineStoppingCall] by simp
  moreover have "torrent_handle_of k ?H1 = torrent_handle_of k H" for k by (rule handle_same) (simp add: engine_stopping_def)
  moreover have "\<not> pub_closed (hub_engine ?H1)" using H(2) by (simp add: engine_stopping_def open_ops)
  ultimately have H1: "hub_live ?H1" "registered_torrents ?H1 = set (keys e)" using H(3) by (simp_all add: hub_live_def registered_torrents_def)
  let ?H2 = "fold (discard_scope calls) (keys e) ?H1"
  have H2: "hub_live ?H2" "registered_torrents ?H2 = {}" using reg.discard_all [OF H1(1), of calls "keys e"] H1(2) by simp_all
  have H': "H' = engine_stopped ?H2" using assms(2) stopped_all [of e] by (auto simp: live_on_stop_def split: prod.splits)
  show "hub_inv H'" using inv_step [of ?H2 EngineStoppedCall] H2(1) by (simp add: H' hub_live_def)
  have "torrent_handle_of k (engine_stopped ?H2) = torrent_handle_of k ?H2" for k by (rule handle_same) (simp add: engine_stopped_def)
  then show "registered_torrents H' = {}" using H2(2) by (simp add: H' registered_torrents_def)
  show "pub_closed (hub_engine H')" "pub_view (hub_engine H') = EngineStopped"
    using H2(1) by (simp_all add: H' engine_stopped_def closed_ops view_ops hub_live_def)
qed

section \<open>Sessions\<close>

inductive session_reachable :: "session \<Rightarrow> bool" where
  start: "engine_new current_dir opts = (args, H0) \<Longrightarrow> engine_on_start net args H0 = (r, H) \<Longrightarrow>
    session_reachable (case r of Inl _ \<Rightarrow> None | Inr e \<Rightarrow> Some e, H)"
| add: "session_reachable S \<Longrightarrow> keeps_hash env \<Longrightarrow> add_torrent env senv calls source S = (r, S', es) \<Longrightarrow> session_reachable S'"
| restore_one: "session_reachable S \<Longrightarrow> keeps_hash env \<Longrightarrow> restore_torrent env calls v s S = (r2, S', es) \<Longrightarrow> session_reachable S'"
| restore_all: "session_reachable S \<Longrightarrow> keeps_hash env \<Longrightarrow> restore_session env calls v sn S = (r3, S', es) \<Longrightarrow> session_reachable S'"
| remove: "session_reachable S \<Longrightarrow> remove_managed calls delivered h S = (r4, S', es) \<Longrightarrow> session_reachable S'"
| stop: "session_reachable S \<Longrightarrow> shutdown calls S = (r4, S', es) \<Longrightarrow> session_reachable S'"
| others: "session_reachable S \<Longrightarrow> session_reachable (fst S, run_calls cs (snd S))"

definition session_inv :: "session \<Rightarrow> bool" where
  "session_inv S = (case fst S of None \<Rightarrow> hub_inv (snd S) \<and> registered_torrents (snd S) = {} | Some e \<Rightarrow> session_ok (e, snd S))"

lemma inv_start:
  assumes "engine_new current_dir opts = (args, H0)" and "engine_on_start net args H0 = (r, H)"
  shows "session_inv (case r of Inl _ \<Rightarrow> None | Inr e \<Rightarrow> Some e, H)"
proof -
  have H0: "H0 = hub_new (st_live (effective_settings opts))" using assms(1) by (auto simp: engine_new_def Let_def)
  have i: "hub_inv H0" unfolding H0 by (rule inv_new)
  have o: "\<not> pub_closed (hub_engine H0)" and n: "torrent_handle_of k H0 = None" for k
    by (simp_all add: H0 hub_new_def publisher_new_def torrent_handle_of_def)
  have "hub_inv (engine_start_failed m H0)" for m using inv_step [OF i, of "EngineStartFailed m"] by simp
  moreover have "torrent_handle_of k (engine_start_failed m H0) = None" "torrent_handle_of k (engine_started H0) = None" for k m
    using n [of k] by (simp_all add: engine_start_failed_def engine_started_def torrent_handle_of_def Let_def)
  moreover have "hub_inv (engine_started H0)" using inv_step [OF i, of EngineStarted] by simp
  moreover have "\<not> pub_closed (hub_engine (engine_started H0))" using o by (simp add: engine_started_def Let_def open_ops)
  ultimately show ?thesis
    using assms(2) by (auto simp: engine_on_start_def Let_def session_inv_def session_ok_def hub_live_def registered_torrents_def keys_def
      split: option.splits)
qed

lemma inv_remove:
  assumes "session_ok (e, H)" and "remove_managed calls delivered h (Some e, H) = (r, S', es)"
  shows "session_inv S'"
proof -
  obtain r0 e1 es1 where c: "remove_torrent h e = (r0, e1, es1)" by (cases "remove_torrent h e")
  note s = remove_stops [OF c]
  have H: "hub_live H" "registered_torrents H = set (keys e)" using assms(1) by (simp_all add: session_ok_def)
  show ?thesis
  proof (cases r0)
    case (Inl err)
    then show ?thesis using assms(2) c s H by (auto simp: remove_managed_def removal_begins_def session_inv_def session_ok_def)
  next
    case (Inr t)
    then have "S' = (Some e1, discard_scope calls h H)" using assms(2) c by (auto simp: remove_managed_def removal_begins_def removal_ends_def)
    then show ?thesis using reg.discard_law [OF H(1), of calls h] s H(2) by (auto simp: session_inv_def session_ok_def)
  qed
qed

lemma session_reachable_inv: "session_reachable S \<Longrightarrow> session_inv S"
proof (induction rule: session_reachable.induct)
  case (start current_dir opts args H0 net r H)
  then show ?case by (rule inv_start)
next
  case (add S env senv calls source r S' es)
  obtain eo H where S: "S = (eo, H)" by (cases S)
  then show ?case using add create_ok(1) [OF _ add.hyps(2)]
    by (auto simp: add_torrent_def session_inv_def split: sum.splits option.splits prod.splits)
next
  case (restore_one S env calls v s r2 S' es)
  obtain eo H where S: "S = (eo, H)" by (cases S)
  then show ?case using restore_one create_ok(1) [OF _ restore_one.hyps(2)]
    by (auto simp: restore_torrent_def session_inv_def split: sum.splits option.splits prod.splits)
next
  case (restore_all S env calls v sn r3 S' es)
  obtain eo H where S: "S = (eo, H)" by (cases S)
  then show ?case using restore_all restore_loop_ok [OF restore_all.hyps(2)]
    by (auto simp: restore_session_def live_restore_engine_def session_inv_def split: sum.splits option.splits prod.splits if_splits)
next
  case (remove S calls delivered h r4 S' es)
  obtain eo H where S: "S = (eo, H)" by (cases S)
  show ?case
  proof (cases eo)
    case None
    then have "S' = S" using remove.hyps(2) S by (simp add: remove_managed_def removal_begins_def)
    then show ?thesis using remove.IH by simp
  next
    case (Some e)
    then show ?thesis using remove.IH remove.hyps(2) S inv_remove [of e H] by (auto simp: session_inv_def)
  qed
next
  case (stop S calls r4 S' es)
  obtain eo H where S: "S = (eo, H)" by (cases S)
  show ?case
  proof (cases eo)
    case None
    then have "S' = S" using stop.hyps(2) S by (simp add: shutdown_def)
    then show ?thesis using stop.IH by simp
  next
    case (Some e)
    then have "session_ok (e, H)" using stop.IH S by (simp add: session_inv_def)
    then show ?thesis using stop.hyps(2) S Some stop_empties [of e H calls] by (auto simp: shutdown_def session_inv_def split: prod.splits)
  qed
next
  case (others S cs)
  then show ?case using run_calls_kept [where H = "snd S" and cs = cs] reg.run_law [of "snd S" cs]
    by (cases "fst S") (auto simp: session_inv_def session_ok_def registered_torrents_def)
qed

lemma receive_error: "receive_chunks received results = Inl err \<Longrightarrow> \<forall>h. err \<noteq> TorrentHandleMissing h"
  by (induction received results rule: receive_chunks.induct) (auto split: if_splits)

lemma live_create_result: "fst (live_create_torrent env calls req (e, H)) = fst (create_torrent env req e)"
  by (cases "create_torrent env req e"; cases "fst (create_torrent env req e)") (simp_all add: live_create_torrent_def Let_def split_beta)

lemma create_error: "fst (create_torrent env req e) = Inl err \<Longrightarrow> err \<noteq> TorrentHandleMissing h"
  unfolding create_torrent_def create_plan_of_def Let_def discard_failed_torrent_def
  by (auto split: create_request.splits sum.splits option.splits if_splits)

lemma session_handles:
  assumes "session_inv (Some e, H)"
  shows "torrent_handle_of h H \<noteq> None \<longleftrightarrow> h \<in> set (keys e)" and "torrent_handle_of h H = Some hn \<Longrightarrow> fst hn = h" and "hub_inv H"
proof -
  show "hub_inv H" using assms by (simp add: session_inv_def session_ok_def hub_live_def)
  show "torrent_handle_of h H \<noteq> None \<longleftrightarrow> h \<in> set (keys e)"
    using assms by (auto simp: session_inv_def session_ok_def registered_torrents_def)
  show "fst hn = h" if "torrent_handle_of h H = Some hn"
    using that scope_handle [OF \<open>hub_inv H\<close>, of h] by (fastforce simp: torrent_handle_of_def bind_eq_Some_conv)
qed

lemma created_hash:
  assumes "live_create_torrent env calls (New m) (e, H) = (Inr g, eh, es)" and "meta_info_hash (ee_torrent env) (ee_from_hex env) m = Inr h"
  shows "g = h"
proof -
  have "fst (create_torrent env (New m) e) = Inr g" using live_create_result [of env calls "New m" e H] assms(1) by simp
  then obtain e0 es0 where "create_torrent env (New m) e = (Inr g, e0, es0)" by (metis prod.collapse)
  then show ?thesis using assms(2) by (cases rule: create_torrent_cases [where D = "{}"]) (auto simp: create_plan_of_def)
qed

text \<open>What adding a torrent comes to when the engine runs and answers.\<close>

lemma add_torrent_cases:
  assumes a: "add_torrent env senv calls source (Some e, H) = (r, S', es)" and inv: "session_inv (Some e, H)" and k: "keeps_hash env"
  obtains (failed) err where "r = Inl err" "\<And>h. err \<noteq> TorrentHandleMissing h"
  | (added) m h e' H' where "live_create_torrent env calls (New m) (e, H) = (Inr h, (e', H'), es)" "S' = (Some e', H')" "h \<in> set (keys e')"
      "torrent_handle_of h H' \<noteq> None" "r = torrent_from_actor h H'"
proof (cases "into_metainfo senv source")
  case (Inl err)
  then have "err \<noteq> TorrentHandleMissing h" for h
    by (auto simp: into_metainfo_def metainfo_from_magnet_def metainfo_from_path_def metainfo_from_bytes_def metainfo_from_remote_url_def
        validate_remote_torrent_url_def split: torrent_source.splits sum.splits if_splits dest!: receive_error)
  then show ?thesis using a Inl by (intro failed [of err]) (simp_all add: add_torrent_def)
next
  case m: (Inr m)
  show ?thesis
  proof (cases "meta_info_hash (ee_torrent env) (ee_from_hex env) m")
    case (Inl err)
    then show ?thesis using a m by (intro failed [of "EngineOther err"]) (simp_all add: add_torrent_def)
  next
    case h: (Inr h)
    obtain r0 e' H' es0 where c: "live_create_torrent env calls (New m) (e, H) = (r0, (e', H'), es0)" by (metis prod.collapse)
    have ok: "session_ok (e, H)" using inv by (simp add: session_inv_def)
    show ?thesis
    proof (cases r0)
      case (Inl err)
      then have "err \<noteq> TorrentHandleMissing g" for g using c live_create_result [of env calls "New m" e H] create_error by (metis fst_conv)
      then show ?thesis using a m h c Inl by (intro failed [of err]) (simp_all add: add_torrent_def)
    next
      case (Inr g)
      have g: "g = h" using created_hash [OF c [unfolded Inr] h] .
      have s: "session_inv (Some e', H')" using create_ok(1) [OF ok k c] by (simp add: session_inv_def)
      have "h \<in> set (keys e')" using create_ok(2) [OF ok k c] Inr g by blast
      then show ?thesis using added [of m h e' H'] a m h c Inr g session_handles(1) [OF s, of h] by (simp add: add_torrent_def)
    qed
  qed
qed

text \<open>
  C27: a user who calls the engine one operation at a time always gets handles. In every state of a session,
  whatever torrents, peers and trackers publish in between, looking up a torrent succeeds exactly for the
  torrents the engine manages and gives a handle with its hash; adding a torrent never reports a missing
  handle, and what it returns is the handle of a torrent the engine now manages.
\<close>

theorem managed_torrents_have_handles:
  assumes "session_reachable (Some e, H)"
  shows "((\<exists>a. find_torrent h (Some e, H) = Inr (h, a)) \<longleftrightarrow> h \<in> set (keys e)) \<and>
    (h \<notin> set (keys e) \<longrightarrow> find_torrent h (Some e, H) = Inl (TorrentNotFound h)) \<and>
    (keeps_hash env \<longrightarrow> add_torrent env senv calls source (Some e, H) = (r, S', es) \<longrightarrow>
      (case r of Inl err \<Rightarrow> err \<noteq> TorrentHandleMissing k | Inr hn \<Rightarrow> \<exists>e'. fst S' = Some e' \<and> fst hn \<in> set (keys e') \<and> find_torrent (fst hn) S' = Inr hn))"
proof (intro conjI)
  have inv: "session_inv (Some e, H)" by (rule session_reachable_inv [OF assms])
  have find: "find_torrent g (Some e', H') = (if g \<in> set (keys e') then torrent_from_actor g H' else Inl (TorrentNotFound g))" for g e' H'
    using keys_iff [of e' g] by (auto simp: find_torrent_def get_torrent_def split: option.splits)
  show "(\<exists>a. find_torrent h (Some e, H) = Inr (h, a)) \<longleftrightarrow> h \<in> set (keys e)"
    using session_handles(1,2) [OF inv, of h] by (fastforce simp: find torrent_from_actor_def split: option.splits if_splits)
  show "h \<notin> set (keys e) \<longrightarrow> find_torrent h (Some e, H) = Inl (TorrentNotFound h)" by (simp add: find)
  show "keeps_hash env \<longrightarrow> add_torrent env senv calls source (Some e, H) = (r, S', es) \<longrightarrow>
      (case r of Inl err \<Rightarrow> err \<noteq> TorrentHandleMissing k | Inr hn \<Rightarrow> \<exists>e'. fst S' = Some e' \<and> fst hn \<in> set (keys e') \<and> find_torrent (fst hn) S' = Inr hn)"
  proof (intro impI)
    assume k: "keeps_hash env" and a: "add_torrent env senv calls source (Some e, H) = (r, S', es)"
    from a inv k show "case r of Inl err \<Rightarrow> err \<noteq> TorrentHandleMissing k | Inr hn \<Rightarrow> \<exists>e'. fst S' = Some e' \<and> fst hn \<in> set (keys e') \<and> find_torrent (fst hn) S' = Inr hn"
    proof (cases rule: add_torrent_cases)
      case (added m h e' H')
      have "session_ok (e, H)" using inv by (simp add: session_inv_def)
      then have s: "session_inv (Some e', H')" using create_ok(1) [OF _ k added(1)] by (simp add: session_inv_def)
      obtain hn where hn: "torrent_handle_of h H' = Some hn" using added(4) by auto
      then have "fst hn = h" by (rule session_handles(2) [OF s])
      then show ?thesis using added hn by (simp add: find torrent_from_actor_def)
    qed simp
  qed
qed

text \<open>
  C28: adding a torrent again while its removal is still under way loses it. The engine has forgotten the old
  torrent, so the new one is accepted, but its scope in the hub is still that of the old one: the user is
  given the handle of the torrent that is being stopped, and when the removal finishes it removes the scope
  of the new torrent. From then on the engine runs a torrent for which it can give out no handle.
\<close>

theorem readd_during_removal_loses_handle:
  assumes "session_reachable (Some e, H)" and "removal_begins h (Some e, H) = (Inr t, S1, es1)" and "keeps_hash env"
    and "add_torrent env senv calls source S1 = (Inr hn, S2, es2)" and "fst hn = h"
  shows "torrent_handle_of h H = Some hn \<and> (\<exists>e2. fst S2 = Some e2 \<and> h \<in> set (keys e2)) \<and>
    find_torrent h (removal_ends calls' h S2) = Inl (TorrentHandleMissing h)"
proof -
  have inv: "session_inv (Some e, H)" by (rule session_reachable_inv [OF assms(1)])
  then have H: "hub_inv H" by (rule session_handles(3))
  obtain e1 where e1: "remove_torrent h e = (Inr t, e1, es1)" "S1 = (Some e1, H)"
    using assms(2) by (auto simp: removal_begins_def split: prod.splits)
  have managed: "torrent_handle_of h H \<noteq> None" using remove_stops [OF e1(1)] session_handles(1) [OF inv, of h] by blast
  obtain m where m: "into_metainfo senv source = Inr m" using assms(4) by (cases "into_metainfo senv source") (simp_all add: add_torrent_def)
  obtain g where g: "meta_info_hash (ee_torrent env) (ee_from_hex env) m = Inr g"
    using assms(4) m by (cases "meta_info_hash (ee_torrent env) (ee_from_hex env) m") (simp_all add: add_torrent_def)
  obtain r0 e2 H2 es0 where c: "live_create_torrent env calls (New m) (e1, H) = (r0, (e2, H2), es0)" by (metis prod.collapse)
  obtain g' where r0: "r0 = Inr g'" using assms(4) e1(2) m g c by (cases r0) (simp_all add: add_torrent_def)
  have S2: "S2 = (Some e2, H2)" "torrent_from_actor g H2 = Inr hn" using assms(4) e1(2) m g c r0 by (simp_all add: add_torrent_def)
  have "g' = g" using created_hash [OF c [unfolded r0] g] .
  obtain e3 es3 where cr: "create_torrent env (New m) e1 = (Inr g, e3, es3)"
    using live_create_result [of env calls "New m" e1 H] c r0 \<open>g' = g\<close> by (metis fst_conv prod.collapse)
  have "g \<in> set (keys e3)" using cr by (cases rule: create_torrent_cases [where D = "{}"]) (simp_all add: keys_def)
  then obtain u where u: "map_of (en_torrents e3) g = Some u" "g \<in> set (keys e3)" using keys_iff [of e3 g] by auto
  let ?G = "run_calls (calls g) H"
  have e3: "e2 = e3" and H2: "H2 = register_view g (Some (live_view u ?G)) ?G"
    using c cr u(1) by (auto simp: live_create_torrent_def register_view_def Let_def split_beta)
  have handles: "torrent_handle_of k ?G = torrent_handle_of k H" and G: "hub_inv ?G" for k using run_calls_kept [OF H] by blast+
  have hash: "tv_info_hash (live_view u ?G) = g"
    using create_hash [OF cr assms(3) u(1)] by (simp add: live_view_def)
  have "call_ok (RegisterTorrent g (Some (live_view u ?G))) ?G" using hash by simp
  then have H2': "hub_inv H2" using inv_step [OF G, of "RegisterTorrent g (Some (live_view u ?G))"] H2 by (simp add: register_view_def)
  obtain hn' where "torrent_handle_of g H2 = Some hn'" "hn' = hn" using S2(2) by (auto simp: torrent_from_actor_def split: option.splits)
  then have hn: "torrent_handle_of g H2 = Some hn" by simp
  have "fst hn = g" using hn scope_handle [OF H2', of g] by (fastforce simp: torrent_handle_of_def bind_eq_Some_conv)
  then have gh: "g = h" using assms(5) by simp
  have "torrent_handle_of h H2 = torrent_handle_of h H"
    using register_view_handle [OF G, of h g "Some (live_view u ?G)"] managed gh handles H2 by auto
  moreover have "torrent_handle_of h (discard_scope calls' h H2) = None"
    using handle_remove [OF run_calls_kept(1) [OF H2']] by (simp add: discard_scope_def)
  ultimately show ?thesis
    using hn gh S2(1) e3 u(2) keys_iff [of e3 h]
    by (auto simp: removal_ends_def find_torrent_def get_torrent_def torrent_from_actor_def)
qed

text \<open>
  C29: shutting the engine down ends everything. Every managed torrent is stopped, no torrent keeps a handle,
  the last view shows a stopped engine without torrents, the stream of the engine is closed, and later
  requests are refused.
\<close>

theorem shutdown_ends_session:
  assumes "session_reachable (Some e, H)" and "shutdown calls (Some e, H) = (r, S', es)"
  shows "r = Inr () \<and> set (keys e) = {h. StopTorrent h \<in> set es} \<and> (\<forall>h. torrent_handle_of h (snd S') = None) \<and>
    hub_view (snd S') = \<lparr>ev_status = EngineStopped, ev_torrents = []\<rparr> \<and> pub_closed (hub_engine (snd S')) \<and>
    (\<forall>h. find_torrent h S' = Inl (EngineCommunicationFailed ''get torrent''))"
proof -
  have ok: "session_ok (e, H)" using session_reachable_inv [OF assms(1)] by (simp add: session_inv_def)
  obtain e' H' es' where s: "live_on_stop calls (e, H) = ((e', H'), es')" by (metis prod.collapse)
  note c = stop_empties [OF ok s]
  have r: "r = Inr ()" "S' = (None, H')" "es = es'" using assms(2) s by (simp_all add: shutdown_def)
  have "es' = snd (engine_on_stop e)" using s by (auto simp: live_on_stop_def split: prod.splits)
  then have "set (keys e) = {h. StopTorrent h \<in> set es}" by (force simp: r(3) engine_on_stop_def keys_def)
  moreover have none: "torrent_handle_of h H' = None" for h using c(2) unfolding registered_torrents_def by blast
  moreover have "registered_view H' x = None" if "x \<in> set (hub_torrents H')" for x
  proof -
    have "scope_at H' (fst x) = Some (snd x)" using that hub_invD(2) [OF c(1)] by (metis map_of_is_SomeI prod.collapse)
    then show ?thesis using none [of "fst x"] by (simp add: registered_view_def torrent_handle_of_def)
  qed
  then have "List.map_filter (registered_view H') (hub_torrents H') = []"
    by (auto simp: List.map_filter_def filter_empty_conv)
  ultimately show ?thesis using r c(3,4) by (simp add: hub_view_def find_torrent_def)
qed

section \<open>A concrete session\<close>

definition quiet_net :: bind_net where
  "quiet_net = \<lparr>bn_tcp = (\<lambda>_. None), bn_utp = (\<lambda>_. None), bn_udp = (\<lambda>_. None)\<rparr>"

definition tiny_options :: engine_options where
  "tiny_options = \<lparr>eo_tcp = None, eo_utp = None, eo_udp = None, eo_storage = InFile,
     eo_settings = None, eo_mailbox = None, eo_autostart = Some False, eo_sufficient = None, eo_output = Some (True, [''out''])\<rparr>"

definition tiny_source :: source_env where
  "tiny_source = \<lparr>sv_magnet = (\<lambda>_. Inl ''unused''), sv_bencode = (\<lambda>_. case sn_metainfo tiny_snapshot of MTorrent f \<Rightarrow> Inr f | MMagnet _ \<Rightarrow> Inl ''unused''),
     sv_read = (\<lambda>_. Inl ''unused''), sv_url_scheme = (\<lambda>_. Inl ''unused''), sv_get = (\<lambda>_. Inl ''unused'')\<rparr>"

lemma tiny_keeps: "keeps_hash tiny_engine_env"
  by (simp add: keeps_hash_def tiny_engine_env_def)

lemma tiny_session_started: "\<exists>e H. session_reachable (Some e, H) \<and> keys e = [] \<and> en_storage e = InFile"
proof -
  obtain args H0 where n: "engine_new None tiny_options = (args, H0)" by force
  obtain e H where s: "engine_on_start quiet_net args H0 = (Inr e, H)" "en_torrents e = []" "en_storage e = ea_storage args"
    by (simp add: engine_on_start_def quiet_net_def Let_def)
  have "ea_storage args = InFile" using n by (auto simp: engine_new_def tiny_options_def Let_def)
  then show ?thesis using session_reachable.start [OF n s(1)] s(2,3) by (auto simp: keys_def)
qed

lemma tiny_added:
  assumes "keys e = []" and "en_storage e = InFile"
  obtains t es where "create_torrent tiny_engine_env (New (sn_metainfo tiny_snapshot)) e = (Inr [7], e\<lparr>en_torrents := [([7], t)]\<rparr>, es)"
proof -
  define p where "p = \<lparr>cp_metainfo = sn_metainfo tiny_snapshot, cp_restore = None, cp_storage = en_storage e, cp_base = en_base e, cp_resume = False\<rparr>"
  have e: "en_torrents e = []" using assms(1) by (simp add: keys_def)
  have p: "create_plan_of tiny_engine_env e (New (sn_metainfo tiny_snapshot)) = Inr p" by (simp add: create_plan_of_def p_def)
  have h: "meta_info_hash (ee_torrent tiny_engine_env) (ee_from_hex tiny_engine_env) (cp_metainfo p) = Inr [7]"
    by (simp add: p_def tiny_engine_env_def tiny_env_def meta_info_hash_def tiny_snapshot_def)
  obtain t where t: "spawned_actor tiny_engine_env e p = Some t"
    using h assms(2) by (auto simp: spawned_actor_def torrent_on_start_def plan_args_def p_def)
  have "ask tiny_engine_env [7] 2 (\<lambda>t. t) (resumed_actor tiny_engine_env [7] p (restored_actor tiny_engine_env [7] p (Some t))) = Some t"
    by (simp add: restored_actor_def resumed_actor_def p_def ask_def tiny_engine_env_def)
  then have "create_torrent tiny_engine_env (New (sn_metainfo tiny_snapshot)) e = (Inr [7], e\<lparr>en_torrents := [([7], t)]\<rparr>, dht_registration tiny_engine_env e p [7])"
    unfolding create_run [OF p h, unfolded e, simplified] t by (simp add: p_def e)
  then show thesis by (rule that)
qed

lemma tiny_add:
  assumes "hub_inv H" and "keys e = []" and "en_storage e = InFile"
  obtains e' H' es hn where "add_torrent tiny_engine_env tiny_source (\<lambda>_. []) (TorrentFileBytes []) (Some e, H) = (Inr hn, (Some e', H'), es)"
    "fst hn = [7]" "keys e' = [[7]]" "en_storage e' = InFile"
proof -
  let ?m = "sn_metainfo tiny_snapshot"
  obtain t es where c: "create_torrent tiny_engine_env (New ?m) e = (Inr [7], e\<lparr>en_torrents := [([7], t)]\<rparr>, es)"
    using tiny_added [OF assms(2,3)] by blast
  define H' where "H' = register_view [7] (Some (live_view t H)) H"
  have l: "live_create_torrent tiny_engine_env (\<lambda>_. []) (New ?m) (e, H) = (Inr [7], (e\<lparr>en_torrents := [([7], t)]\<rparr>, H'), es)"
    using c by (simp add: live_create_torrent_def H'_def register_view_def run_calls_def Let_def split_beta)
  have m: "into_metainfo tiny_source (TorrentFileBytes []) = Inr ?m"
    by (simp add: into_metainfo_def metainfo_from_bytes_def tiny_source_def tiny_snapshot_def)
  have h: "meta_info_hash (ee_torrent tiny_engine_env) (ee_from_hex tiny_engine_env) ?m = Inr [7]"
    by (simp add: tiny_engine_env_def tiny_env_def meta_info_hash_def tiny_snapshot_def)
  obtain hn where hn: "torrent_handle_of [7] H' = Some hn" "fst hn = [7]"
  proof (cases "torrent_handle_of [7] H")
    case None
    then show ?thesis using register_view_handle [OF assms(1), of "[7]" "[7]"] that by (simp add: H'_def)
  next
    case (Some hn)
    then have "fst hn = [7]" using scope_handle [OF assms(1), of "[7]"] by (fastforce simp: torrent_handle_of_def bind_eq_Some_conv)
    then show ?thesis using register_view_handle [OF assms(1), of "[7]" "[7]"] that Some by (simp add: H'_def)
  qed
  then have "add_torrent tiny_engine_env tiny_source (\<lambda>_. []) (TorrentFileBytes []) (Some e, H) = (Inr hn, (Some (e\<lparr>en_torrents := [([7], t)]\<rparr>), H'), es)"
    using m h l by (simp add: add_torrent_def torrent_from_actor_def)
  then show thesis using that hn(2) assms(3) by (simp add: keys_def)
qed

lemma tiny_session:
  obtains e H where "session_reachable (Some e, H)" "keys e = [[7]]" "en_storage e = InFile"
proof -
  obtain e H where r: "session_reachable (Some e, H)" "keys e = []" "en_storage e = InFile" using tiny_session_started by blast
  have "hub_inv H" by (rule session_handles(3) [OF session_reachable_inv [OF r(1)]])
  then obtain e' H' es hn where a: "add_torrent tiny_engine_env tiny_source (\<lambda>_. []) (TorrentFileBytes []) (Some e, H) = (Inr hn, (Some e', H'), es)"
    "keys e' = [[7]]" "en_storage e' = InFile"
    using tiny_add r(2,3) by metis
  show thesis using that session_reachable.add [OF r(1) tiny_keeps a(1)] a(2,3) by blast
qed

theorem managed_torrents_have_handles_witness:
  "\<exists>e H a. session_reachable (Some e, H) \<and> find_torrent [7] (Some e, H) = Inr ([7], a) \<and> find_torrent [8] (Some e, H) = Inl (TorrentNotFound [8])"
proof -
  obtain e H where r: "session_reachable (Some e, H)" "keys e = [[7]]" using tiny_session by blast
  have "\<exists>a. find_torrent [7] (Some e, H) = Inr ([7], a)" using managed_torrents_have_handles [OF r(1), of "[7]"] r(2) by simp
  then obtain a where "find_torrent [7] (Some e, H) = Inr ([7], a)" ..
  moreover have "find_torrent [8] (Some e, H) = Inl (TorrentNotFound [8])" using managed_torrents_have_handles [OF r(1), of "[8]"] r(2) by simp
  ultimately show ?thesis using r(1) by blast
qed

theorem readd_during_removal_loses_handle_witness:
  "\<exists>e2 H2. [7] \<in> set (keys e2) \<and> find_torrent [7] (removal_ends (\<lambda>_. []) [7] (Some e2, H2)) = Inl (TorrentHandleMissing [7])"
proof -
  obtain e H where r: "session_reachable (Some e, H)" "keys e = [[7]]" "en_storage e = InFile" using tiny_session by blast
  obtain t where t: "en_torrents e = [([7], t)]" using r(2) by (auto simp: keys_def map_eq_Cons_conv)
  define e1 where "e1 = e\<lparr>en_torrents := []\<rparr>"
  have b: "removal_begins [7] (Some e, H) = (Inr t, (Some e1, H), if en_dht e then [DhtUnregister [7]] else [])"
    using t by (simp add: removal_begins_def remove_torrent_def e1_def)
  have "hub_inv H" by (rule session_handles(3) [OF session_reachable_inv [OF r(1)]])
  moreover have "keys e1 = []" "en_storage e1 = InFile" using r(3) by (simp_all add: e1_def keys_def)
  ultimately obtain e2 H2 es hn where a: "add_torrent tiny_engine_env tiny_source (\<lambda>_. []) (TorrentFileBytes []) (Some e1, H) = (Inr hn, (Some e2, H2), es)"
    "fst hn = [7]"
    using tiny_add by metis
  show ?thesis using readd_during_removal_loses_handle [OF r(1) b tiny_keeps a, of "\<lambda>_. []"] by auto
qed

theorem shutdown_ends_session_witness:
  "\<exists>S es. (StopTorrent [7] \<in> set es) \<and> fst S = None \<and> hub_view (snd S) = \<lparr>ev_status = EngineStopped, ev_torrents = []\<rparr> \<and>
    find_torrent [7] S = Inl (EngineCommunicationFailed ''get torrent'')"
proof -
  obtain e H where r: "session_reachable (Some e, H)" "keys e = [[7]]" using tiny_session by blast
  obtain res S es where s: "shutdown (\<lambda>_. []) (Some e, H) = (res, S, es)" by (cases "shutdown (\<lambda>_. []) (Some e, H)")
  then have "fst S = None" by (auto simp: shutdown_def split: prod.splits)
  moreover have "StopTorrent [7] \<in> set es" using shutdown_ends_session [OF r(1) s] r(2) by auto
  ultimately show ?thesis using shutdown_ends_session [OF r(1) s] by (intro exI [of _ S] exI [of _ es]) simp
qed

end
