(* ===== verification/Tracker_Base.thy ===== *)
theory Tracker_Base
  imports Torrent
begin

text \<open>
  What UDP and HTTP trackers share: errors, statistics (\<^verbatim>\<open>tracker/stats.rs\<close>) and the contract of the
  trait \<^verbatim>\<open>TrackerBase\<close> (\<^verbatim>\<open>tracker/model.rs\<close>) as a locale, with what follows from it for any sequence of
  announces and updates. The byte counters and time stamps of the statistics are left out.
\<close>

section \<open>Errors and statistics\<close>

datatype tracker_error =
    ResponseTooShort nat nat
  | InvalidAction u32
  | InvalidResponse string
  | TransactionMismatch u32 u32
  | TrackerError string
  | RequestTimeout nat
  | HttpError
  | BencodeDecoding string
  | NotReady
  | Unreachable

record tracker_stats =
  tst_attempts :: nat
  tst_successes :: nat
  tst_peers :: nat

definition stats_default :: tracker_stats where
  "stats_default = \<lparr>tst_attempts = 0, tst_successes = 0, tst_peers = 0\<rparr>"

definition increment_announce_attempts :: "tracker_stats \<Rightarrow> tracker_stats" where
  "increment_announce_attempts s = s\<lparr>tst_attempts := tst_attempts s + 1\<rparr>"

definition increment_announce_successes :: "tracker_stats \<Rightarrow> tracker_stats" where
  "increment_announce_successes s = s\<lparr>tst_successes := tst_successes s + 1\<rparr>"

definition increment_total_peers_received :: "nat \<Rightarrow> tracker_stats \<Rightarrow> tracker_stats" where
  "increment_total_peers_received n s = s\<lparr>tst_peers := tst_peers s + n\<rparr>"

lemmas stats_defs = stats_default_def increment_announce_attempts_def increment_announce_successes_def increment_total_peers_received_def

text \<open>A peer as a tracker reports it: its address and, from HTTP trackers, perhaps its identifier.\<close>

type_synonym wire_peer = "socket_addr \<times> peer_id option"

section \<open>The contract\<close>

datatype 'n tracker_op = OpAnnounce 'n | OpUpdate tracker_update

fun run_ops :: "('n \<Rightarrow> 't \<Rightarrow> (tracker_error + wire_peer list) \<times> 't) \<Rightarrow> (tracker_update \<Rightarrow> 't \<Rightarrow> 't) \<Rightarrow> 'n tracker_op list \<Rightarrow> 't
    \<Rightarrow> wire_peer list \<times> 't" where
  "run_ops announce update [] t = ([], t)"
| "run_ops announce update (OpAnnounce net # ops) t =
     (let (res, t1) = announce net t; (ps, t2) = run_ops announce update ops t1
      in ((case res of Inl _ \<Rightarrow> [] | Inr peers \<Rightarrow> peers) @ ps, t2))"
| "run_ops announce update (OpUpdate u # ops) t = run_ops announce update ops (update u t)"

locale tracker_base =
  fixes announce :: "'n \<Rightarrow> 't \<Rightarrow> (tracker_error + wire_peer list) \<times> 't"
    and update :: "tracker_update \<Rightarrow> 't \<Rightarrow> 't"
    and interval :: "'t \<Rightarrow> nat"
    and stats :: "'t \<Rightarrow> tracker_stats"
  assumes success: "announce net t = (Inr peers, t') \<Longrightarrow>
      stats t' = increment_total_peers_received (length peers) (increment_announce_successes (increment_announce_attempts (stats t)))"
    and failure: "announce net t = (Inl e, t') \<Longrightarrow>
      interval t' = interval t \<and> (stats t' = stats t \<or> stats t' = increment_announce_attempts (stats t))"
    and update_keeps: "interval (update u t) = interval t \<and> stats (update u t) = stats t"
begin

lemma run_counts:
  assumes "run_ops announce update ops t = (peers, t')"
  shows "tst_peers (stats t') = tst_peers (stats t) + length peers \<and>
    tst_successes (stats t') + tst_attempts (stats t) \<le> tst_attempts (stats t') + tst_successes (stats t)"
  using assms
proof (induction ops arbitrary: t peers)
  case (Cons op ops)
  show ?case
  proof (cases op)
    case (OpUpdate u)
    then show ?thesis using Cons.IH [of "update u t" peers] Cons.prems update_keeps [of u t] by simp
  next
    case (OpAnnounce net)
    obtain res t1 where a: "announce net t = (res, t1)" by force
    obtain ps t2 where r2: "run_ops announce update ops t1 = (ps, t2)" by force
    have r: "run_ops announce update ops t1 = (ps, t')" "peers = (case res of Inl _ \<Rightarrow> [] | Inr qs \<Rightarrow> qs) @ ps"
      using Cons.prems a r2 by (simp_all add: OpAnnounce)
    show ?thesis
    proof (cases res)
      case (Inl e)
      then have "stats t1 = stats t \<or> stats t1 = increment_announce_attempts (stats t)" using failure a by blast
      then show ?thesis using Cons.IH [OF r(1)] r(2) Inl by (auto simp: stats_defs)
    next
      case (Inr qs)
      then have "stats t1 = increment_total_peers_received (length qs) (increment_announce_successes (increment_announce_attempts (stats t)))"
        using success a by blast
      then show ?thesis using Cons.IH [OF r(1)] r(2) Inr by (simp add: stats_defs)
    qed
  qed
qed simp

lemma run_counts_fresh:
  assumes "run_ops announce update ops t = (peers, t')" and "stats t = stats_default"
  shows "tst_peers (stats t') = length peers" and "tst_successes (stats t') \<le> tst_attempts (stats t')"
  using run_counts [OF assms(1)] by (simp_all add: assms(2) stats_default_def)

end

end
