(* ===== verification/Connections.thy ===== *)
theory Connections
  imports Engine Tracker_Base
begin

text \<open>
  Establishing peer connections: dialling (\<^verbatim>\<open>PeerStream::connect\<close> of \<^verbatim>\<open>protocol/stream.rs\<close>), and the task that performs
  the handshake and then registers the peer with its torrent (\<^verbatim>\<open>spawn_peer_connection\<close> of \<^verbatim>\<open>torrent/swarm.rs\<close>),
  for peers we dial and for incoming peers that the engine has routed to the torrent. What the network does
  is gathered in a record: which of the two dials ends first and how, whether what we write is taken, the
  bytes the remote side sends, and whether all this ends before the timeout.
\<close>

section \<open>Dialling\<close>

datatype transport_kind = OverUtp | OverTcp

record dial =
  dial_utp :: "io_kind + unit"
  dial_tcp :: "io_kind + unit"
  dial_utp_first :: bool

text \<open>The branch of \<^verbatim>\<open>select!\<close> whose future ends first decides, and the other future is dropped.\<close>

definition stream_connect :: "bool \<Rightarrow> dial \<Rightarrow> io_kind + transport_kind" where
  "stream_connect utp_socket d =
     (if utp_socket \<and> dial_utp_first d then (case dial_utp d of Inl e \<Rightarrow> Inl e | Inr _ \<Rightarrow> Inr OverUtp)
      else (case dial_tcp d of Inl e \<Rightarrow> Inl e | Inr _ \<Rightarrow> Inr OverTcp))"

section \<open>The connection task\<close>

record connection_net =
  cn_dial :: dial
  cn_write :: "io_kind + unit"
  cn_remote :: "byte list"
  cn_in_time :: bool

datatype connection_error =
    PeerFailed peer_error
  | PeerTimeout nat
  | ConnectionWithoutId
  | OwnPeerId
  | RegistrationFailed torrent_error

text \<open>
  The handshake: an incoming peer has sent its own already and only gets ours; a dialled peer gets ours and
  must answer with one for the same torrent. The result is what the remote side supports and, for dialled
  peers, its identifier.
\<close>

definition connection_handshake ::
  "hash \<Rightarrow> peer_id \<Rightarrow> byte list option \<Rightarrow> connection_net \<Rightarrow> (peer_error + byte list \<times> peer_id option) \<times> byte list" where
  "connection_handshake info_hash our_id incoming net =
     (let ours = handshake_to_bytes (handshake_new info_hash our_id)
      in case incoming of
           Some reserved \<Rightarrow> (case cn_write net of Inl _ \<Rightarrow> (Inl SendFailed, []) | Inr _ \<Rightarrow> (Inr (reserved, None), ours))
         | None \<Rightarrow>
             (case stream_connect True (cn_dial net) of
                Inl e \<Rightarrow> (Inl (IoError e), [])
              | Inr _ \<Rightarrow>
                  (case cn_write net of
                     Inl e \<Rightarrow> (Inl (IoError e), [])
                   | Inr _ \<Rightarrow>
                       (case fst (recv_handshake_message (cn_remote net)) of
                          Inl e \<Rightarrow> (Inl e, ours)
                        | Inr hs \<Rightarrow>
                            (case validate_handshake hs info_hash of
                               Inl e \<Rightarrow> (Inl e, ours)
                             | Inr _ \<Rightarrow> (Inr (hs_reserved hs, Some (hs_peer_id hs)), ours))))))"

definition connection_task ::
  "nat \<Rightarrow> hash \<Rightarrow> peer_id \<Rightarrow> wire_peer \<Rightarrow> byte list option \<Rightarrow> connection_net \<Rightarrow> connection_error + wire_peer \<times> byte list" where
  "connection_task seconds info_hash our_id peer incoming net =
     (if \<not> cn_in_time net then Inl (PeerTimeout (max seconds 1))
      else case fst (connection_handshake info_hash our_id incoming net) of
        Inl e \<Rightarrow> Inl (PeerFailed e)
      | Inr (reserved, handshake_id) \<Rightarrow>
          (case (if snd peer \<noteq> None then snd peer else handshake_id) of
             None \<Rightarrow> Inl ConnectionWithoutId
           | Some i \<Rightarrow> if i = our_id then Inl OwnPeerId else Inr ((fst peer, Some i), reserved)))"

text \<open>The whole connection, with the registration by the torrent actor.\<close>

definition spawn_peer_connection ::
  "nat \<Rightarrow> peer_id \<Rightarrow> wire_peer \<Rightarrow> byte list option \<Rightarrow> connection_net \<Rightarrow> torrent_actor \<Rightarrow> (connection_error + peer_id) \<times> torrent_actor" where
  "spawn_peer_connection seconds our_id peer incoming net t =
     (case connection_task seconds (ta_info_hash t) our_id peer incoming net of
        Inl e \<Rightarrow> (Inl e, t)
      | Inr (connected, _) \<Rightarrow>
          (case insert_peer (snd connected) t of (Inl e, t1) \<Rightarrow> (Inl (RegistrationFailed e), t1) | (Inr i, t1) \<Rightarrow> (Inr i, t1)))"


section \<open>Results\<close>

lemma task_cases:
  assumes "connection_task seconds h our_id peer incoming net = Inr (connected, reserved)"
  obtains i hid where "connected = (fst peer, Some i)" and "i \<noteq> our_id"
    and "fst (connection_handshake h our_id incoming net) = Inr (reserved, hid)" and "Some i = (if snd peer \<noteq> None then snd peer else hid)"
  using assms by (auto simp: connection_task_def split: if_splits sum.splits option.splits)

lemma handshake_valid:
  assumes "fst (connection_handshake h our_id None net) = Inr (reserved, hid)"
  obtains hs rest where "recv_handshake_message (cn_remote net) = (Inr hs, rest)" and "hs_protocol hs = MAGIC_STRING"
    and "hs_info_hash hs = h" and "hid = Some (hs_peer_id hs)" and "reserved = hs_reserved hs"
proof -
  obtain hs where "fst (recv_handshake_message (cn_remote net)) = Inr hs" "validate_handshake hs h = Inr ()" "hid = Some (hs_peer_id hs)" "reserved = hs_reserved hs"
    using assms by (auto simp: connection_handshake_def Let_def split: sum.splits)
  then show thesis
    using that [of hs "snd (recv_handshake_message (cn_remote net))"]
    by (auto simp: validate_handshake_def validate_handshake_protocol_def prod_eq_iff split: sum.splits if_splits)
qed

lemma connected_cases:
  assumes "spawn_peer_connection seconds our_id peer incoming net t = (Inr i, t')"
  obtains reserved where "connection_task seconds (ta_info_hash t) our_id peer incoming net = Inr ((fst peer, Some i), reserved)"
    and "i \<notin> set (ta_peers t)" and "t' = t\<lparr>ta_peers := ta_peers t @ [i]\<rparr>"
proof -
  obtain c reserved where c: "connection_task seconds (ta_info_hash t) our_id peer incoming net = Inr (c, reserved)" "insert_peer (snd c) t = (Inr i, t')"
    using assms by (auto simp: spawn_peer_connection_def split: sum.splits prod.splits)
  then have "snd c = Some i" "i \<notin> set (ta_peers t)" "t' = t\<lparr>ta_peers := ta_peers t @ [i]\<rparr>"
    by (auto simp: insert_peer_def split: option.splits if_splits)
  moreover have "fst c = fst peer" using task_cases [OF c(1)] by force
  ultimately show thesis using that c(1) by (cases c) simp
qed

text \<open>
  Who becomes a peer. A connection that succeeds adds one peer to the table of the torrent: not ourselves
  and not one that is connected already. For a peer we dialled, what it sent begins with a handshake of the
  protocol for this very torrent, and unless it was announced with an identifier its identifier is the one of
  that handshake. A connection that fails in any way leaves the torrent as it was.
\<close>

theorem connected_peer_valid:
  assumes "spawn_peer_connection seconds our_id peer incoming net t = (result, t')"
  shows "case result of
      Inl _ \<Rightarrow> t' = t
    | Inr i \<Rightarrow> t' = t\<lparr>ta_peers := ta_peers t @ [i]\<rparr> \<and> i \<notin> set (ta_peers t) \<and> i \<noteq> our_id \<and> cn_in_time net \<and>
        (incoming = None \<longrightarrow> (\<exists>hs rest. recv_handshake_message (cn_remote net) = (Inr hs, rest) \<and> hs_protocol hs = MAGIC_STRING \<and>
           hs_info_hash hs = ta_info_hash t \<and> (snd peer = None \<longrightarrow> hs_peer_id hs = i)))"
proof (cases result)
  case (Inl e)
  then show ?thesis using assms by (auto simp: spawn_peer_connection_def insert_peer_def split: sum.splits prod.splits option.splits if_splits)
next
  case (Inr i)
  obtain reserved where c: "connection_task seconds (ta_info_hash t) our_id peer incoming net = Inr ((fst peer, Some i), reserved)"
    and t': "i \<notin> set (ta_peers t)" "t' = t\<lparr>ta_peers := ta_peers t @ [i]\<rparr>"
    using connected_cases assms Inr by blast
  obtain hid where h: "i \<noteq> our_id" "fst (connection_handshake (ta_info_hash t) our_id incoming net) = Inr (reserved, hid)"
    "Some i = (if snd peer \<noteq> None then snd peer else hid)"
    using task_cases [OF c] by (metis Pair_inject option.inject)
  have "cn_in_time net" using c by (simp add: connection_task_def split: if_splits)
  moreover have "\<exists>hs rest. recv_handshake_message (cn_remote net) = (Inr hs, rest) \<and> hs_protocol hs = MAGIC_STRING \<and>
      hs_info_hash hs = ta_info_hash t \<and> (snd peer = None \<longrightarrow> hs_peer_id hs = i)" if "incoming = None"
    using handshake_valid [of "ta_info_hash t" our_id net reserved hid] h(2,3) that by (metis option.inject)
  ultimately show ?thesis using Inr t' h(1) by simp
qed

text \<open>
  The bytes of the two sides of a connection: \<open>A\<close> dials \<open>B\<close> and writes its handshake; the engine of \<open>B\<close> reads it
  and routes the peer to its torrent, whose task answers; \<open>A\<close> reads the answer.
\<close>

definition answering_net :: "byte list \<Rightarrow> connection_net" where
  "answering_net bytes =
     \<lparr>cn_dial = \<lparr>dial_utp = Inr (), dial_tcp = Inr (), dial_utp_first = True\<rparr>, cn_write = Inr (), cn_remote = bytes, cn_in_time = True\<rparr>"

lemma handshake_read:
  assumes "length h = 20" and "length i = 20"
  shows "recv_handshake_message (handshake_to_bytes (handshake_new h i) @ rest) = (Inr (handshake_new h i), rest)"
  using handshake_roundtrip [of "handshake_new h i" rest] assms by (simp add: handshake_ok_def handshake_new_def MAGIC_STRING_def)

lemma handshake_fields:
  "validate_handshake (handshake_new h i) h = Inr ()" "validate_handshake_protocol (handshake_new h i) = Inr ()"
  "hs_info_hash (handshake_new h i) = h" "hs_peer_id (handshake_new h i) = i"
  by (simp_all add: validate_handshake_def validate_handshake_protocol_def handshake_new_def)

text \<open>
  C30: two clients with the same torrent connect. When one dials the other and the network carries what they
  write, the engine that accepts the connection routes it to its torrent with the identifier of the dialling
  side; the torrent registers that peer and answers, and the dialling side registers the identifier of the
  other; provided the two identifiers differ and neither knows the other yet.
\<close>

theorem two_clients_connect:
  assumes "length h = 20" and "length id_a = 20" and "length id_b = 20" and "id_a \<noteq> id_b"
    and "ta_info_hash a = h" and "id_b \<notin> set (ta_peers a)"
    and "map_of (en_torrents engine_b) h = Some b" and "ta_info_hash b = h" and "id_a \<notin> set (ta_peers b)"
    and "to_b = snd (connection_handshake h id_a None (answering_net []))"
    and "routed = engine_incoming_peer True True to_b engine_b" and "net_b = answering_net []"
    and "to_a = snd (connection_handshake h id_b (Some reserved) net_b)"
  shows "routed = [RoutePeer h id_a (hs_reserved (handshake_new h id_a))] \<and>
    spawn_peer_connection seconds id_b (addr_a, Some id_a) (Some reserved) net_b b = (Inr id_a, b\<lparr>ta_peers := ta_peers b @ [id_a]\<rparr>) \<and>
    spawn_peer_connection seconds id_a (addr_b, None) None (answering_net to_a) a = (Inr id_b, a\<lparr>ta_peers := ta_peers a @ [id_b]\<rparr>)"
proof -
  have to_b: "to_b = handshake_to_bytes (handshake_new h id_a)"
    using assms(10) by (simp add: connection_handshake_def answering_net_def stream_connect_def recv_handshake_message_def read_exact_def Let_def split: sum.split)
  have to_a: "to_a = handshake_to_bytes (handshake_new h id_b)"
    using assms(12,13) by (simp add: connection_handshake_def answering_net_def)
  have "fst (recv_handshake_message to_b) = Inr (handshake_new h id_a)"
    using handshake_read [OF assms(1,2), of "[]"] by (simp add: to_b)
  then have "routed = [RoutePeer h id_a (hs_reserved (handshake_new h id_a))]"
    using assms(7,11) by (simp add: engine_incoming_peer_def handshake_fields)
  moreover have "spawn_peer_connection seconds id_b (addr_a, Some id_a) (Some reserved) net_b b = (Inr id_a, b\<lparr>ta_peers := ta_peers b @ [id_a]\<rparr>)"
    using assms(4,9,12) by (simp add: spawn_peer_connection_def connection_task_def connection_handshake_def answering_net_def insert_peer_def)
  moreover have "fst (recv_handshake_message to_a) = Inr (handshake_new h id_b)"
    using handshake_read [OF assms(1,3), of "[]"] by (simp add: to_a)
  then have "spawn_peer_connection seconds id_a (addr_b, None) None (answering_net to_a) a = (Inr id_b, a\<lparr>ta_peers := ta_peers a @ [id_b]\<rparr>)"
    using assms(4,5,6)
    by (auto simp: spawn_peer_connection_def connection_task_def connection_handshake_def answering_net_def stream_connect_def insert_peer_def handshake_fields)
  ultimately show ?thesis by blast
qed

text \<open>
  An announced identifier replaces the one of the handshake. A peer that a tracker announced with an
  identifier is registered under it whatever identifier it shows in its handshake, even when that is our own:
  the check against connecting to ourselves does not look at the handshake then.
\<close>

theorem announced_id_hides_self:
  assumes "length (ta_info_hash t) = 20" and "length our_id = 20" and "i \<noteq> our_id" and "i \<notin> set (ta_peers t)"
  shows "spawn_peer_connection seconds our_id (addr, Some i) None (answering_net (handshake_to_bytes (handshake_new (ta_info_hash t) our_id))) t
    = (Inr i, t\<lparr>ta_peers := ta_peers t @ [i]\<rparr>)"
proof -
  have "fst (recv_handshake_message (handshake_to_bytes (handshake_new (ta_info_hash t) our_id))) = Inr (handshake_new (ta_info_hash t) our_id)"
    using handshake_read [OF assms(1,2), of "[]"] by simp
  then show ?thesis
    using assms(3,4) by (simp add: spawn_peer_connection_def connection_task_def connection_handshake_def answering_net_def stream_connect_def
        insert_peer_def handshake_fields)
qed

text \<open>
  A quick uTP failure ends the dial. The two dials race, and the first one that ends decides: when uTP
  fails before TCP has connected, the connection fails although TCP would have succeeded.
\<close>

theorem early_utp_failure_is_final:
  "stream_connect True \<lparr>dial_utp = Inl e, dial_tcp = Inr (), dial_utp_first = True\<rparr> = Inl e \<and>
   stream_connect False \<lparr>dial_utp = Inl e, dial_tcp = Inr (), dial_utp_first = True\<rparr> = Inr OverTcp"
  by (simp add: stream_connect_def)


section \<open>Concrete connections\<close>

definition demo_torrent :: torrent_actor where
  "demo_torrent = tiny_torrent\<lparr>ta_info_hash := replicate 20 7, ta_peers := []\<rparr>"

definition demo_addr :: socket_addr where
  "demo_addr = \<lparr>ip = V4 [10, 0, 0, 2], port = 6881\<rparr>"

lemma demo_torrent_fields: "ta_info_hash demo_torrent = replicate 20 7" "ta_peers demo_torrent = []"
  by (simp_all add: demo_torrent_def)

lemma demo_ids: "replicate 20 (1 :: byte) \<noteq> replicate 20 2"
  by simp

theorem two_clients_connect_witness:
  "spawn_peer_connection 10 (replicate 20 1) (demo_addr, None) None
     (answering_net (snd (connection_handshake (replicate 20 7) (replicate 20 2) (Some (replicate 8 0)) (answering_net [])))) demo_torrent
   = (Inr (replicate 20 2), demo_torrent\<lparr>ta_peers := [replicate 20 2]\<rparr>)"
proof -
  have m: "map_of (en_torrents (tiny_engine\<lparr>en_torrents := [(replicate 20 7, demo_torrent)]\<rparr>)) (replicate 20 7) = Some demo_torrent"
    by simp
  have p: "replicate 20 2 \<notin> set (ta_peers demo_torrent)" "replicate 20 1 \<notin> set (ta_peers demo_torrent)" by (simp_all add: demo_torrent_fields)
  have l: "length (replicate 20 x) = 20" for x :: byte by simp
  from two_clients_connect [OF l l l demo_ids demo_torrent_fields(1) p(1) m demo_torrent_fields(1) p(2) refl refl refl refl,
    of 10 _ "replicate 8 0" "demo_addr"]
  show ?thesis by (simp add: demo_torrent_fields)
qed

theorem connected_peer_valid_witness:
  "\<exists>hs rest. recv_handshake_message (handshake_to_bytes (handshake_new (replicate 20 7) (replicate 20 2))) = (Inr hs, rest) \<and> hs_peer_id hs = replicate 20 2"
proof -
  have "fst (recv_handshake_message (handshake_to_bytes (handshake_new (replicate 20 7) (replicate 20 2)))) = Inr (handshake_new (replicate 20 7) (replicate 20 2))"
    using handshake_read [of "replicate 20 7" "replicate 20 2" "[]"] by simp
  then have "spawn_peer_connection 10 (replicate 20 1) (demo_addr, None) None
      (answering_net (handshake_to_bytes (handshake_new (replicate 20 7) (replicate 20 2)))) demo_torrent
    = (Inr (replicate 20 2), demo_torrent\<lparr>ta_peers := [replicate 20 2]\<rparr>)"
    using demo_ids by (auto simp: spawn_peer_connection_def connection_task_def connection_handshake_def answering_net_def stream_connect_def
      insert_peer_def handshake_fields demo_torrent_fields)
  from connected_peer_valid [OF this] show ?thesis by (auto simp: answering_net_def)
qed

theorem announced_id_hides_self_witness:
  "ta_peers (snd (spawn_peer_connection 10 (replicate 20 1) (demo_addr, Some (replicate 20 2)) None
     (answering_net (handshake_to_bytes (handshake_new (replicate 20 7) (replicate 20 1)))) demo_torrent)) = [replicate 20 2]"
  using announced_id_hides_self [of demo_torrent "replicate 20 1" "replicate 20 2" 10 "demo_addr"]
  by (simp add: demo_torrent_fields)

end
