(* ===== verification/Udp_Tracker.thy ===== *)
theory Udp_Tracker
  imports Tracker_Base Dht_Compact
begin

text \<open>
  UDP trackers (\<^verbatim>\<open>tracker/udp.rs\<close>): the binary
  requests and responses, the server that routes responses by transaction identifier, connecting and
  announcing with reconnection. What an exchange with the tracker
  returns, after the retries of the \<^verbatim>\<open>tokio_retry2\<close> library, is a parameter, and so are the random
  transaction identifiers and the decoding of UTF-8.
\<close>

section \<open>Requests\<close>

definition MAGIC_CONSTANT :: u64 where "MAGIC_CONSTANT = 0x41727101980"
definition MIN_CONNECT_RESPONSE_SIZE :: nat where "MIN_CONNECT_RESPONSE_SIZE = 16"
definition MIN_ANNOUNCE_RESPONSE_SIZE :: nat where "MIN_ANNOUNCE_RESPONSE_SIZE = 20"
definition MIN_ERROR_RESPONSE_SIZE :: nat where "MIN_ERROR_RESPONSE_SIZE = 8"
definition PEER_SIZE :: nat where "PEER_SIZE = 6"

lemmas udp_sizes = MIN_CONNECT_RESPONSE_SIZE_def MIN_ANNOUNCE_RESPONSE_SIZE_def MIN_ERROR_RESPONSE_SIZE_def PEER_SIZE_def

datatype tracker_action = ConnectAction | AnnounceAction | ScrapeAction | ErrorAction

primrec action_code :: "tracker_action \<Rightarrow> u32" where
  "action_code ConnectAction = 0"
| "action_code AnnounceAction = 1"
| "action_code ScrapeAction = 2"
| "action_code ErrorAction = 3"

definition action_try_from :: "u32 \<Rightarrow> tracker_action option" where
  "action_try_from w =
     (if w = 0 then Some ConnectAction else if w = 1 then Some AnnounceAction
      else if w = 2 then Some ScrapeAction else if w = 3 then Some ErrorAction else None)"

primrec event_code :: "tracker_event \<Rightarrow> u32" where
  "event_code EmptyEvent = 0"
| "event_code StartedEvent = 1"
| "event_code CompletedEvent = 2"
| "event_code StoppedEvent = 3"

record announce_request =
  ar_connection_id :: u64
  ar_transaction_id :: u32
  ar_info_hash :: hash
  ar_peer_id :: peer_id
  ar_downloaded :: u64
  ar_left :: u64
  ar_uploaded :: u64
  ar_event :: tracker_event
  ar_ip_address :: u32
  ar_key :: u32
  ar_num_want :: u32
  ar_port :: u16

datatype tracker_request = ConnectRequest u64 tracker_action u32 | AnnounceRequest announce_request

primrec request_transaction_id :: "tracker_request \<Rightarrow> u32" where
  "request_transaction_id (ConnectRequest _ _ tid) = tid"
| "request_transaction_id (AnnounceRequest r) = ar_transaction_id r"

primrec request_to_bytes :: "tracker_request \<Rightarrow> byte list" where
  "request_to_bytes (ConnectRequest i action tid) = be_bytes 8 i @ be_bytes 4 (action_code action) @ be_bytes 4 tid"
| "request_to_bytes (AnnounceRequest r) =
     be_bytes 8 (ar_connection_id r) @ be_bytes 4 (action_code AnnounceAction) @ be_bytes 4 (ar_transaction_id r) @
     ar_info_hash r @ ar_peer_id r @ be_bytes 8 (ar_downloaded r) @ be_bytes 8 (ar_left r) @ be_bytes 8 (ar_uploaded r) @
     be_bytes 4 (event_code (ar_event r)) @ be_bytes 4 (ar_ip_address r) @ be_bytes 4 (ar_key r) @ be_bytes 4 (ar_num_want r) @
     be_bytes 2 (ar_port r)"

section \<open>Responses\<close>

datatype tracker_response =
    ConnectResponse u64 u32
  | AnnounceResponse u32 u32 u32 u32 "socket_addr list"
  | ErrorResponse u32 string

primrec response_transaction_id :: "tracker_response \<Rightarrow> u32" where
  "response_transaction_id (ConnectResponse _ tid) = tid"
| "response_transaction_id (AnnounceResponse tid _ _ _ _) = tid"
| "response_transaction_id (ErrorResponse tid _) = tid"

text \<open>The loop that reads the peers; \<open>n\<close> counts the rounds that are left.\<close>

fun read_udp_peers :: "nat \<Rightarrow> byte list \<Rightarrow> socket_addr list" where
  "read_udp_peers 0 buf = []"
| "read_udp_peers (Suc n) buf =
     (if length buf < PEER_SIZE then []
      else \<lparr>ip = V4 (take 4 buf), port = be_val (take 2 (drop 4 buf))\<rparr> # read_udp_peers n (drop 6 buf))"

definition response_from_bytes :: "(byte list \<Rightarrow> string) \<Rightarrow> byte list \<Rightarrow> tracker_error + tracker_response" where
  "response_from_bytes from_utf8_lossy bytes =
     (if length bytes < 4 then Inl (ResponseTooShort 4 (length bytes))
      else
        let code = be_val (take 4 bytes); tid = be_val (take 4 (drop 4 bytes))
        in (case action_try_from code of
              None \<Rightarrow> Inl (InvalidAction code)
            | Some ConnectAction \<Rightarrow>
                if length bytes < MIN_CONNECT_RESPONSE_SIZE then Inl (ResponseTooShort MIN_CONNECT_RESPONSE_SIZE (length bytes))
                else Inr (ConnectResponse (be_val (take 8 (drop 8 bytes))) tid)
            | Some AnnounceAction \<Rightarrow>
                if length bytes < MIN_ANNOUNCE_RESPONSE_SIZE then Inl (ResponseTooShort MIN_ANNOUNCE_RESPONSE_SIZE (length bytes))
                else
                  let rest = drop 20 bytes
                  in Inr (AnnounceResponse tid (be_val (take 4 (drop 8 bytes))) (be_val (take 4 (drop 12 bytes)))
                       (be_val (take 4 (drop 16 bytes))) (read_udp_peers (length rest div PEER_SIZE) rest))
            | Some ErrorAction \<Rightarrow>
                if length bytes < MIN_ERROR_RESPONSE_SIZE then Inl (ResponseTooShort MIN_ERROR_RESPONSE_SIZE (length bytes))
                else Inr (ErrorResponse tid (from_utf8_lossy (drop 8 bytes)))
            | Some ScrapeAction \<Rightarrow> Inl (InvalidResponse ''Unsupported action: Scrape'')))"

section \<open>The server\<close>

text \<open>
  The channels are numbered; \<open>us_queue\<close> holds what was sent into each. A request registers its
  transaction, and its registration is removed when the request is answered, fails or times out.
\<close>

record udp_server =
  us_channels :: "(u32 \<times> nat) list"
  us_queue :: "nat \<Rightarrow> (nat \<times> tracker_response) list"

definition register_transaction :: "u32 \<Rightarrow> nat \<Rightarrow> udp_server \<Rightarrow> udp_server" where
  "register_transaction tid chan s = s\<lparr>us_channels := AList.update tid chan (us_channels s)\<rparr>"

definition unregister_transaction :: "u32 \<Rightarrow> udp_server \<Rightarrow> udp_server" where
  "unregister_transaction tid s = s\<lparr>us_channels := AList.delete tid (us_channels s)\<rparr>"

definition server_receive :: "(byte list \<Rightarrow> string) \<Rightarrow> byte list \<Rightarrow> udp_server \<Rightarrow> udp_server" where
  "server_receive from_utf8_lossy bytes s =
     (case response_from_bytes from_utf8_lossy bytes of
        Inl _ \<Rightarrow> s
      | Inr response \<Rightarrow>
          (case map_of (us_channels s) (response_transaction_id response) of
             None \<Rightarrow> s
           | Some chan \<Rightarrow> s\<lparr>us_queue := (us_queue s)(chan := us_queue s chan @ [(length bytes, response)])\<rparr>))"

text \<open>
  One attempt of a request: register, send, wait for what arrives in the meantime, unregister. A
  fresh channel is used; \<open>arrivals\<close> are the datagrams that come before the timeout.
\<close>

datatype attempt_error = Permanent tracker_error | Transient tracker_error

definition send_and_recv_retry :: "(byte list \<Rightarrow> string) \<Rightarrow> nat \<Rightarrow> bool \<Rightarrow> byte list list \<Rightarrow> nat \<Rightarrow> tracker_request \<Rightarrow> udp_server
    \<Rightarrow> (attempt_error + tracker_response) \<times> udp_server" where
  "send_and_recv_retry from_utf8_lossy chan sent arrivals seconds request s =
     (let tid = request_transaction_id request;
          s1 = register_transaction tid chan s
      in if \<not> sent then (Inl (Permanent (InvalidResponse ''send'')), unregister_transaction tid s1)
         else
           let s2 = fold (server_receive from_utf8_lossy) arrivals s1
           in (case us_queue s2 chan of
                 [] \<Rightarrow> (Inl (Transient (RequestTimeout (max seconds 1))), unregister_transaction tid s2)
               | (_, response) # rest \<Rightarrow>
                   (Inr response, unregister_transaction tid (s2\<lparr>us_queue := (us_queue s2)(chan := rest)\<rparr>))))"

section \<open>The tracker\<close>

record announce_params =
  ap_left :: u64
  ap_downloaded :: u64
  ap_uploaded :: u64
  ap_event :: tracker_event

record udp_settings =
  uset_ip_address :: u32
  uset_key :: u32
  uset_num_want :: u32
  uset_retry_attempts :: nat

record udp_tracker =
  ut_connection_id :: u64
  ut_ready :: bool
  ut_peer_id :: peer_id
  ut_info_hash :: hash
  ut_peer_addr :: socket_addr
  ut_interval :: u32
  ut_stats :: tracker_stats
  ut_params :: announce_params
  ut_settings :: udp_settings

definition udp_tracker_new :: "peer_id \<Rightarrow> hash \<Rightarrow> socket_addr \<Rightarrow> udp_settings \<Rightarrow> udp_tracker" where
  "udp_tracker_new peer info_hash addr settings =
     \<lparr>ut_connection_id = 0, ut_ready = False, ut_peer_id = peer, ut_info_hash = info_hash, ut_peer_addr = addr,
      ut_interval = - 1, ut_stats = stats_default,
      ut_params = \<lparr>ap_left = 0, ap_downloaded = 0, ap_uploaded = 0, ap_event = EmptyEvent\<rparr>, ut_settings = settings\<rparr>"

text \<open>
  The network: the transaction identifier drawn for the \<open>k\<close>-th exchange, and what that exchange
  returns for a request.
\<close>

record udp_net =
  un_tid :: "nat \<Rightarrow> u32"
  un_exchange :: "nat \<Rightarrow> tracker_request \<Rightarrow> tracker_error + tracker_response"

definition udp_connect :: "udp_net \<Rightarrow> nat \<Rightarrow> udp_tracker \<Rightarrow> (tracker_error + u64) \<times> udp_tracker" where
  "udp_connect net k t =
     (case un_exchange net k (ConnectRequest MAGIC_CONSTANT ConnectAction (un_tid net k)) of
        Inl e \<Rightarrow> (Inl e, t)
      | Inr (ConnectResponse connection_id _) \<Rightarrow> (Inr connection_id, t\<lparr>ut_connection_id := connection_id, ut_ready := True\<rparr>)
      | Inr (ErrorResponse _ message) \<Rightarrow> (Inl (TrackerError message), t)
      | Inr _ \<Rightarrow> (Inl (InvalidResponse ''Expected connect response''), t))"

definition udp_initialize :: "udp_net \<Rightarrow> nat \<Rightarrow> udp_tracker \<Rightarrow> (tracker_error + unit) \<times> udp_tracker" where
  "udp_initialize net k t = (case udp_connect net k t of (Inl e, t1) \<Rightarrow> (Inl e, t1) | (Inr _, t1) \<Rightarrow> (Inr (), t1))"

definition announce_request_of :: "udp_net \<Rightarrow> nat \<Rightarrow> udp_tracker \<Rightarrow> announce_request" where
  "announce_request_of net k t =
     \<lparr>ar_connection_id = ut_connection_id t, ar_transaction_id = un_tid net k, ar_info_hash = ut_info_hash t,
      ar_peer_id = ut_peer_id t, ar_downloaded = ap_downloaded (ut_params t), ar_left = ap_left (ut_params t),
      ar_uploaded = ap_uploaded (ut_params t), ar_event = ap_event (ut_params t),
      ar_ip_address = uset_ip_address (ut_settings t), ar_key = uset_key (ut_settings t),
      ar_num_want = uset_num_want (ut_settings t), ar_port = port (ut_peer_addr t)\<rparr>"

definition ascii_lower :: "char \<Rightarrow> char" where
  "ascii_lower c = (if 65 \<le> (of_char c :: nat) \<and> (of_char c :: nat) \<le> 90 then char_of ((of_char c :: nat) + 32) else c)"

definition mentions_connection_id :: "string \<Rightarrow> bool" where
  "mentions_connection_id message = (\<exists>i \<le> length message. take 13 (drop i (map ascii_lower message)) = ''connection id'')"

definition announce_succeeded :: "u32 \<Rightarrow> socket_addr list \<Rightarrow> udp_tracker \<Rightarrow> udp_tracker" where
  "announce_succeeded interval peers t =
     t\<lparr>ut_interval := interval,
       ut_stats := increment_total_peers_received (length peers) (increment_announce_successes (ut_stats t))\<rparr>"

text \<open>The retry loop; \<open>n\<close> rounds are left, and running out of them is \<^verbatim>\<open>unreachable!\<close>.\<close>

fun announce_loop :: "udp_net \<Rightarrow> nat \<Rightarrow> nat \<Rightarrow> udp_tracker \<Rightarrow> (tracker_error + socket_addr list) \<times> udp_tracker" where
  "announce_loop net k 0 t = (Inl Unreachable, t)"
| "announce_loop net k (Suc n) t =
     (case un_exchange net k (AnnounceRequest (announce_request_of net k t)) of
        Inl e \<Rightarrow> (Inl e, t)
      | Inr (AnnounceResponse tid interval leechers seeders peers) \<Rightarrow>
          if tid \<noteq> un_tid net k then (Inl (TransactionMismatch (un_tid net k) tid), t)
          else (Inr peers, announce_succeeded interval peers t)
      | Inr (ErrorResponse tid message) \<Rightarrow>
          if 0 < n \<and> mentions_connection_id message
          then (case udp_connect net (k + 1) (t\<lparr>ut_ready := False\<rparr>) of
                  (Inl e, t1) \<Rightarrow> (Inl e, t1)
                | (Inr _, t1) \<Rightarrow> announce_loop net (k + 2) n t1)
          else (Inl (TrackerError message), t)
      | Inr _ \<Rightarrow> (Inl (InvalidResponse ''Expected announce response''), t))"

definition udp_announce :: "udp_net \<Rightarrow> udp_tracker \<Rightarrow> (tracker_error + socket_addr list) \<times> udp_tracker" where
  "udp_announce net t =
     (if \<not> ut_ready t then (Inl NotReady, t)
      else announce_loop net 0 (max (uset_retry_attempts (ut_settings t)) 1)
        (t\<lparr>ut_stats := increment_announce_attempts (ut_stats t)\<rparr>))"

primrec udp_update :: "tracker_update \<Rightarrow> udp_tracker \<Rightarrow> udp_tracker" where
  "udp_update (UpdUploaded n) t = t\<lparr>ut_params := (ut_params t)\<lparr>ap_uploaded := of_nat n\<rparr>\<rparr>"
| "udp_update (UpdDownloaded n) t = t\<lparr>ut_params := (ut_params t)\<lparr>ap_downloaded := of_nat n\<rparr>\<rparr>"
| "udp_update (UpdLeft n) t = t\<lparr>ut_params := (ut_params t)\<lparr>ap_left := of_nat n\<rparr>\<rparr>"
| "udp_update (UpdEvent e) t = t\<lparr>ut_params := (ut_params t)\<lparr>ap_event := e\<rparr>\<rparr>"

definition udp_stop :: "udp_net \<Rightarrow> udp_tracker \<Rightarrow> (tracker_error + unit) \<times> udp_tracker" where
  "udp_stop net t =
     (if \<not> ut_ready t then (Inl NotReady, t)
      else case udp_announce net (udp_update (UpdEvent StoppedEvent) t) of
        (Inl e, t1) \<Rightarrow> (Inl e, t1) | (Inr _, t1) \<Rightarrow> (Inr (), t1))"

section \<open>Wire format\<close>

lemma action_roundtrip: "action_try_from (action_code a) = Some a"
  by (cases a) (simp_all add: action_try_from_def)

text \<open>The layout the protocol prescribes: each field of an announce at its offset.\<close>

definition field_at :: "nat \<Rightarrow> nat \<Rightarrow> byte list \<Rightarrow> byte list" where
  "field_at off n bytes = take n (drop off bytes)"

lemma field_skip: "length xs \<le> off \<Longrightarrow> field_at off n (xs @ ys) = field_at (off - length xs) n ys"
  by (simp add: field_at_def)

lemma field_here: "length xs = n \<Longrightarrow> field_at 0 n (xs @ ys) = xs"
  by (simp add: field_at_def)

lemma field_last: "length xs = n \<Longrightarrow> field_at 0 n xs = xs"
  by (simp add: field_at_def)

lemmas field_simps = field_skip field_here field_last be_roundtrip

text \<open>
  An announce request has 98 bytes with every field at the offset the UDP tracker protocol
  prescribes, a connect request has 16, and all numbers are big-endian.
\<close>

theorem announce_layout:
  assumes "length (ar_info_hash r) = 20" and "length (ar_peer_id r) = 20"
  shows "length (request_to_bytes (AnnounceRequest r)) = 98 \<and>
    be_val (field_at 0 8 (request_to_bytes (AnnounceRequest r))) = ar_connection_id r \<and>
    be_val (field_at 8 4 (request_to_bytes (AnnounceRequest r))) = action_code AnnounceAction \<and>
    be_val (field_at 12 4 (request_to_bytes (AnnounceRequest r))) = ar_transaction_id r \<and>
    field_at 16 20 (request_to_bytes (AnnounceRequest r)) = ar_info_hash r \<and>
    field_at 36 20 (request_to_bytes (AnnounceRequest r)) = ar_peer_id r \<and>
    be_val (field_at 56 8 (request_to_bytes (AnnounceRequest r))) = ar_downloaded r \<and>
    be_val (field_at 64 8 (request_to_bytes (AnnounceRequest r))) = ar_left r \<and>
    be_val (field_at 72 8 (request_to_bytes (AnnounceRequest r))) = ar_uploaded r \<and>
    be_val (field_at 80 4 (request_to_bytes (AnnounceRequest r))) = event_code (ar_event r) \<and>
    be_val (field_at 92 4 (request_to_bytes (AnnounceRequest r))) = ar_num_want r \<and>
    be_val (field_at 96 2 (request_to_bytes (AnnounceRequest r))) = ar_port r \<and>
    length (request_to_bytes (ConnectRequest i a tid)) = 16"
  using assms by (simp add: field_simps)

lemma read_udp_peers_enc:
  "list_all v4_addr_ok ps \<Longrightarrow> length ps \<le> n \<Longrightarrow> length junk < PEER_SIZE
     \<Longrightarrow> read_udp_peers n (concat (map enc_peer ps) @ junk) = ps"
proof (induction ps arbitrary: n)
  case Nil
  then show ?case by (cases n) simp_all
next
  case (Cons p ps)
  then obtain m where n: "n = Suc m" by (cases n) auto
  have p: "v4_addr_ok p" using Cons.prems(1) by simp
  obtain a b c d where ip: "ip p = V4 [a, b, c, d]" using v4_addr_cases [OF p] by blast
  have rec: "\<lparr>ip = V4 [a, b, c, d], port = port p\<rparr> = p" using ip by simp
  have "length (enc_peer p) = 6" using peer_codec.enc_length [OF p] by (simp add: compact_lens)
  then show ?case
    using Cons.IH [of m] Cons.prems rec
    by (simp add: n udp_sizes enc_peer_def ip be_roundtrip)
qed

text \<open>What a tracker sends.\<close>

primrec response_bytes :: "tracker_response \<Rightarrow> byte list" where
  "response_bytes (ConnectResponse i tid) = be_bytes 4 (action_code ConnectAction) @ be_bytes 4 tid @ be_bytes 8 i"
| "response_bytes (AnnounceResponse tid interval leechers seeders peers) =
     be_bytes 4 (action_code AnnounceAction) @ be_bytes 4 tid @ be_bytes 4 interval @ be_bytes 4 leechers @ be_bytes 4 seeders @
     concat (map enc_peer peers)"
| "response_bytes (ErrorResponse tid message) =
     be_bytes 4 (action_code ErrorAction) @ be_bytes 4 tid @ map (\<lambda>c. of_char c) message"

fun response_ok :: "tracker_response \<Rightarrow> bool" where
  "response_ok (AnnounceResponse _ _ _ _ peers) = list_all v4_addr_ok peers"
| "response_ok _ = True"

text \<open>
  Every well-formed response is read back, also when a cut-off peer follows the peers of an
  announce. The decoder of text is only asked to read back ASCII.
\<close>

theorem udp_response_decodes:
  assumes "response_ok r" and "length junk < PEER_SIZE" and "\<And>m. from_utf8_lossy (map of_char m) = m"
    and "junk \<noteq> [] \<Longrightarrow> \<exists>tid interval leechers seeders peers. r = AnnounceResponse tid interval leechers seeders peers"
  shows "response_from_bytes from_utf8_lossy (response_bytes r @ junk) = Inr r"
proof (cases r)
  case (ConnectResponse i tid)
  then have "junk = []" using assms(4) by auto
  then show ?thesis
    by (simp add: ConnectResponse response_from_bytes_def be_roundtrip action_try_from_def udp_sizes Let_def)
next
  case (AnnounceResponse tid interval leechers seeders peers)
  have peers: "list_all v4_addr_ok peers" using assms(1) by (simp add: AnnounceResponse)
  have "length (concat (map enc_peer peers) @ junk) div PEER_SIZE = length peers"
    using peer_codec.length_seq [OF peers] assms(2) by (simp add: udp_sizes compact_lens)
  then have "read_udp_peers (length (concat (map enc_peer peers) @ junk) div PEER_SIZE) (concat (map enc_peer peers) @ junk) = peers"
    using read_udp_peers_enc [OF peers _ assms(2)] by simp
  then show ?thesis
    by (simp add: AnnounceResponse response_from_bytes_def be_roundtrip action_try_from_def MIN_ANNOUNCE_RESPONSE_SIZE_def Let_def)
next
  case (ErrorResponse tid message)
  then have "junk = []" using assms(4) by auto
  then show ?thesis
    using assms(3)
    by (simp add: ErrorResponse response_from_bytes_def be_roundtrip action_try_from_def udp_sizes Let_def)
qed

section \<open>Routing\<close>

definition fresh_channel :: "nat \<Rightarrow> udp_server \<Rightarrow> bool" where
  "fresh_channel chan s = (chan \<notin> snd ` set (us_channels s) \<and> us_queue s chan = [])"

lemma server_channels [simp]: "us_channels (server_receive lossy bytes s) = us_channels s"
  by (simp add: server_receive_def split: sum.split option.split)

lemma fold_channels [simp]: "us_channels (fold (server_receive lossy) arrivals s) = us_channels s"
  by (induction arrivals arbitrary: s) simp_all

lemma received_for:
  assumes "\<And>tid'. map_of (us_channels s) tid' = Some chan \<Longrightarrow> tid' = tid"
    and "\<forall>(n, r) \<in> set (us_queue s chan). response_transaction_id r = tid"
  shows "\<forall>(n, r) \<in> set (us_queue (fold (server_receive lossy) arrivals s) chan). response_transaction_id r = tid"
  using assms
proof (induction arrivals arbitrary: s)
  case (Cons bytes arrivals)
  have "\<forall>(n, r) \<in> set (us_queue (server_receive lossy bytes s) chan). response_transaction_id r = tid"
    using Cons.prems by (auto simp: server_receive_def split: sum.split option.split)
  then show ?case using Cons.IH [of "server_receive lossy bytes s"] Cons.prems(1) by simp
qed simp

text \<open>
  A request is answered only by its own response. An attempt, whatever datagrams arrive while it
  waits, returns a response that carries the transaction identifier of the request or an error, and
  leaves no registration for that identifier; the registrations of other requests are kept.
\<close>

theorem attempt_matches_transaction:
  assumes "fresh_channel chan s"
    and "send_and_recv_retry lossy chan sent arrivals seconds request s = (res, s')"
  shows "(\<forall>r. res = Inr r \<longrightarrow> response_transaction_id r = request_transaction_id request) \<and>
    map_of (us_channels s') (request_transaction_id request) = None \<and>
    (\<forall>tid. tid \<noteq> request_transaction_id request \<longrightarrow> map_of (us_channels s') tid = map_of (us_channels s) tid)"
proof -
  let ?tid = "request_transaction_id request"
  let ?s1 = "register_transaction ?tid chan s"
  let ?s2 = "fold (server_receive lossy) arrivals ?s1"
  have "map_of (us_channels ?s1) tid' = Some chan \<Longrightarrow> tid' = ?tid" for tid'
    using assms(1) by (auto simp: register_transaction_def update_conv' fresh_channel_def split: if_splits dest!: map_of_SomeD) force
  moreover have "us_queue ?s1 chan = []" using assms(1) by (simp add: register_transaction_def fresh_channel_def)
  ultimately have q: "\<forall>(n, r) \<in> set (us_queue ?s2 chan). response_transaction_id r = ?tid"
    using received_for [of ?s1 chan ?tid lossy arrivals] by simp
  have ch: "us_channels s' = AList.delete ?tid (us_channels ?s1)"
    using assms(2) by (auto simp: send_and_recv_retry_def unregister_transaction_def Let_def split: if_splits list.splits)
  have "\<forall>r. res = Inr r \<longrightarrow> response_transaction_id r = ?tid"
    using assms(2) q by (auto simp: send_and_recv_retry_def Let_def split: if_splits list.splits)
  then show ?thesis
    by (simp add: ch delete_conv' register_transaction_def update_conv')
qed

section \<open>Announcing\<close>

text \<open>
  The statistics of a tracker that announced: one attempt, and one success with the peers received
  when there is a result.
\<close>

definition counted :: "tracker_stats \<Rightarrow> (tracker_error + socket_addr list) \<Rightarrow> tracker_stats" where
  "counted st res =
     (case res of
        Inl _ \<Rightarrow> st
      | Inr peers \<Rightarrow> increment_total_peers_received (length peers) (increment_announce_successes st))"

lemma connect_frame:
  assumes "udp_connect net k t = (res, t')"
  shows "ut_stats t' = ut_stats t" and "ut_params t' = ut_params t" and "ut_interval t' = ut_interval t"
    and "ut_info_hash t' = ut_info_hash t" and "ut_ready t' = (ut_ready t \<or> (\<exists>c. res = Inr c))"
  using assms by (auto simp: udp_connect_def split: sum.splits tracker_response.splits)

lemma announce_loop_result:
  "announce_loop net k (Suc n) t = (res, t') \<Longrightarrow>
     ut_stats t' = counted (ut_stats t) res \<and> ut_params t' = ut_params t \<and>
     (case res of
        Inl e \<Rightarrow> ut_interval t' = ut_interval t
      | Inr peers \<Rightarrow> \<exists>j request leechers seeders. ar_transaction_id request = un_tid net j \<and> ar_info_hash request = ut_info_hash t \<and>
          un_exchange net j (AnnounceRequest request) = Inr (AnnounceResponse (un_tid net j) (ut_interval t') leechers seeders peers))"
proof (induction n arbitrary: k t)
  case 0
  then show ?case
    by (auto simp: announce_succeeded_def counted_def split: sum.splits tracker_response.splits if_splits)
      (auto simp: announce_request_of_def intro!: exI [of _ k] exI [of _ "announce_request_of net k t"])
next
  case (Suc n)
  show ?case
  proof (cases "\<exists>tid m. un_exchange net k (AnnounceRequest (announce_request_of net k t)) = Inr (ErrorResponse tid m) \<and> mentions_connection_id m")
    case True
    then obtain tid m where x: "un_exchange net k (AnnounceRequest (announce_request_of net k t)) = Inr (ErrorResponse tid m)"
      "mentions_connection_id m" by blast
    obtain c t1 where c: "udp_connect net (k + 1) (t\<lparr>ut_ready := False\<rparr>) = (c, t1)" by force
    have t1: "ut_stats t1 = ut_stats t" "ut_params t1 = ut_params t" "ut_interval t1 = ut_interval t" "ut_info_hash t1 = ut_info_hash t"
      using connect_frame [OF c] by simp_all
    show ?thesis
    proof (cases c)
      case (Inl e)
      then show ?thesis using Suc.prems x c t1 by (auto simp: counted_def)
    next
      case (Inr i)
      then have "announce_loop net (k + 2) (Suc n) t1 = (res, t')" using Suc.prems x c by simp
      from Suc.IH [OF this] show ?thesis unfolding t1 .
    qed
  next
    case False
    then show ?thesis
      using Suc.prems
      by (auto simp: announce_succeeded_def counted_def split: sum.splits tracker_response.splits if_splits)
        (auto simp: announce_request_of_def intro!: exI [of _ k] exI [of _ "announce_request_of net k t"])
  qed
qed

lemma announce_loop_ends:
  assumes "\<forall>k r. un_exchange net k r \<noteq> Inl Unreachable"
  shows "fst (announce_loop net k (Suc n) t) \<noteq> Inl Unreachable"
proof (induction n arbitrary: k t)
  case 0
  then show ?case using assms by (auto split: sum.split tracker_response.split)
next
  case (Suc n)
  have "fst (udp_connect net j u) \<noteq> Inl Unreachable" for j u
    using assms by (auto simp: udp_connect_def split: sum.split tracker_response.split)
  then show ?case
    using Suc.IH assms by (subst announce_loop.simps) (auto simp del: announce_loop.simps split: sum.split tracker_response.split prod.split, metis fst_conv)
qed


text \<open>The UDP tracker behind the common interface.\<close>

definition udp_base_announce :: "udp_net \<Rightarrow> udp_tracker \<Rightarrow> (tracker_error + wire_peer list) \<times> udp_tracker" where
  "udp_base_announce net t =
     (case udp_announce net t of (Inl e, t1) \<Rightarrow> (Inl e, t1) | (Inr peers, t1) \<Rightarrow> (Inr (map (\<lambda>a. (a, None)) peers), t1))"

definition udp_interval :: "udp_tracker \<Rightarrow> nat" where
  "udp_interval t = unat (ut_interval t)"

interpretation udp: tracker_base udp_base_announce udp_update udp_interval ut_stats
proof unfold_locales
  have run: "\<exists>n. announce_loop net 0 (Suc n) (t\<lparr>ut_stats := increment_announce_attempts (ut_stats t)\<rparr>) = (res, t')"
    if "udp_announce net t = (res, t')" "ut_ready t" for net t res t'
    using that by (metis Suc_pred' less_le_trans max.cobounded2 udp_announce_def zero_less_one)
  fix net t t'
  show "ut_stats t' = increment_total_peers_received (length peers) (increment_announce_successes (increment_announce_attempts (ut_stats t)))"
    if ok: "udp_base_announce net t = (Inr peers, t')" for peers
  proof -
    obtain r t2 where r: "udp_announce net t = (r, t2)" by force
    obtain ps where ps: "udp_announce net t = (Inr ps, t')" "length ps = length peers"
      using ok r by (cases r) (auto simp: udp_base_announce_def)
    then have "ut_ready t" by (auto simp: udp_announce_def split: if_splits)
    from run [OF ps(1) this] obtain n where "announce_loop net 0 (Suc n) (t\<lparr>ut_stats := increment_announce_attempts (ut_stats t)\<rparr>) = (Inr ps, t')"
      by blast
    from announce_loop_result [OF this] show ?thesis by (simp add: counted_def ps(2))
  qed
  show "udp_interval t' = udp_interval t \<and> (ut_stats t' = ut_stats t \<or> ut_stats t' = increment_announce_attempts (ut_stats t))"
    if "udp_base_announce net t = (Inl e, t')" for e
  proof (cases "ut_ready t")
    case True
    obtain r t2 where r: "udp_announce net t = (r, t2)" by force
    have "udp_announce net t = (Inl e, t')"
      using that r by (cases r) (simp_all add: udp_base_announce_def)
    from run [OF this True] obtain n where "announce_loop net 0 (Suc n) (t\<lparr>ut_stats := increment_announce_attempts (ut_stats t)\<rparr>) = (Inl e, t')"
      by blast
    from announce_loop_result [OF this] show ?thesis by (simp add: counted_def udp_interval_def)
  next
    case False
    then show ?thesis using that by (simp add: udp_base_announce_def udp_announce_def)
  qed
  show "udp_interval (udp_update u t) = udp_interval t \<and> ut_stats (udp_update u t) = ut_stats t" for u
    by (cases u) (simp_all add: udp_interval_def)
qed

text \<open>Announces one after the other.\<close>

fun announce_all :: "udp_net list \<Rightarrow> udp_tracker \<Rightarrow> (tracker_error + socket_addr list) list" where
  "announce_all [] t = []"
| "announce_all (net # nets) t = (let (res, t1) = udp_announce net t in res # announce_all nets t1)"

lemma not_ready_stays: "\<not> ut_ready t \<Longrightarrow> set (announce_all nets t) \<subseteq> {Inl NotReady}"
  by (induction nets) (simp_all add: udp_announce_def)

text \<open>
  A failed reconnection is final. When a tracker rejects the connection identifier and the
  connection attempt that follows fails, the announce fails and the tracker is no longer ready, and
  since only initialisation connects again, every later announce fails whatever the network does.
\<close>

theorem failed_reconnect_is_final:
  assumes "ut_ready t" and "2 \<le> uset_retry_attempts (ut_settings t)"
    and "un_exchange net 0 (AnnounceRequest (announce_request_of net 0 (t\<lparr>ut_stats := increment_announce_attempts (ut_stats t)\<rparr>))) = Inr (ErrorResponse tid message)"
    and "mentions_connection_id message"
    and "un_exchange net 1 (ConnectRequest MAGIC_CONSTANT ConnectAction (un_tid net 1)) = Inl e"
  shows "fst (udp_announce net t) = Inl e \<and> set (announce_all nets (snd (udp_announce net t))) \<subseteq> {Inl NotReady}"
proof -
  define n where "n = uset_retry_attempts (ut_settings t) - 2"
  then have n: "max (uset_retry_attempts (ut_settings t)) 1 = Suc (Suc n)" using assms(2) by simp
  have "fst (udp_announce net t) = Inl e" "\<not> ut_ready (snd (udp_announce net t))"
    using assms(1,3-5) by (simp_all add: udp_announce_def n [unfolded One_nat_def] udp_connect_def)
  then show ?thesis using not_ready_stays by blast
qed

text \<open>
  The event numbers on the wire. The protocol numbers the events none 0, completed 1, started 2
  and stopped 3; the code sends 1 for a start and 2 for a completion.
\<close>

theorem event_numbers_swapped:
  "be_val (field_at 80 4 (request_to_bytes (AnnounceRequest (r\<lparr>ar_event := StartedEvent, ar_info_hash := replicate 20 0, ar_peer_id := replicate 20 0\<rparr>)))) = (1 :: u32) \<and>
   be_val (field_at 80 4 (request_to_bytes (AnnounceRequest (r\<lparr>ar_event := CompletedEvent, ar_info_hash := replicate 20 0, ar_peer_id := replicate 20 0\<rparr>)))) = (2 :: u32)"
  by (simp add: field_simps)

section \<open>Concrete exchanges\<close>

definition ascii_text :: "byte list \<Rightarrow> string" where
  "ascii_text bs = map (\<lambda>b. char_of (unat b)) bs"

definition demo_request :: announce_request where
  "demo_request = \<lparr>ar_connection_id = 7, ar_transaction_id = 9, ar_info_hash = replicate 20 1, ar_peer_id = replicate 20 2,
     ar_downloaded = 0, ar_left = 5, ar_uploaded = 0, ar_event = StartedEvent, ar_ip_address = 0, ar_key = 0, ar_num_want = - 1, ar_port = 6881\<rparr>"

theorem announce_layout_witness:
  "length (request_to_bytes (AnnounceRequest demo_request)) = 98 \<and> be_val (field_at 64 8 (request_to_bytes (AnnounceRequest demo_request))) = (5 :: u64)"
  using announce_layout [of demo_request] by (simp add: demo_request_def)

lemma ascii_text_of_char: "ascii_text (map of_char m) = m"
proof (induction m)
  case (Cons c m)
  have "(of_char c :: byte) = of_nat (of_char c)" by (simp add: of_char_def)
  then have "unat (of_char c :: byte) = (of_char c :: nat)"
    using nat_of_char_less_256 [of c] by (simp only: unat_of_nat) simp
  then show ?case using Cons.IH by (simp add: ascii_text_def)
qed (simp add: ascii_text_def)

definition demo_peer :: socket_addr where
  "demo_peer = \<lparr>ip = V4 [10, 0, 0, 1], port = 6881\<rparr>"

lemma demo_peer_ok: "v4_addr_ok demo_peer"
  by (simp add: demo_peer_def v4_addr_ok_def is_v4_def addr_ok_def)

theorem udp_response_decodes_witness:
  "response_from_bytes ascii_text (response_bytes (AnnounceResponse 9 1800 1 2 [demo_peer]) @ [5]) = Inr (AnnounceResponse 9 1800 1 2 [demo_peer])"
  using udp_response_decodes [of "AnnounceResponse 9 1800 1 2 [demo_peer]" "[5]" ascii_text] demo_peer_ok ascii_text_of_char
  by (simp add: PEER_SIZE_def)

definition idle_server :: udp_server where
  "idle_server = \<lparr>us_channels = [(8, 0)], us_queue = (\<lambda>_. [])\<rparr>"

theorem attempt_matches_transaction_witness:
  "map_of (us_channels (snd (send_and_recv_retry ascii_text 1 True [] 0 (AnnounceRequest demo_request) idle_server))) 8 = Some 0"
proof -
  have "fresh_channel 1 idle_server" by (simp add: fresh_channel_def idle_server_def)
  from attempt_matches_transaction [OF this surjective_pairing, of ascii_text True "[]" 0 "AnnounceRequest demo_request"]
  show ?thesis by (simp add: demo_request_def idle_server_def)
qed

definition demo_settings :: udp_settings where
  "demo_settings = \<lparr>uset_ip_address = 0, uset_key = 0, uset_num_want = - 1, uset_retry_attempts = 2\<rparr>"

definition demo_tracker :: udp_tracker where
  "demo_tracker = (udp_tracker_new (replicate 20 2) (replicate 20 1) demo_peer demo_settings)\<lparr>ut_ready := True\<rparr>"

definition good_net :: udp_net where
  "good_net = \<lparr>un_tid = of_nat, un_exchange = (\<lambda>k _. Inr (AnnounceResponse (of_nat k) 1800 1 2 [demo_peer]))\<rparr>"

definition expired_net :: udp_net where
  "expired_net = \<lparr>un_tid = of_nat, un_exchange = (\<lambda>k _. if k = 0 then Inr (ErrorResponse 0 ''Connection ID expired'') else Inl (RequestTimeout 3))\<rparr>"


theorem failed_reconnect_is_final_witness:
  "announce_all [good_net] (snd (udp_announce expired_net demo_tracker)) = [Inl NotReady]"
proof -
  have "take 13 (drop 0 (map ascii_lower ''Connection ID expired'')) = ''connection id''" by code_simp
  then have "mentions_connection_id ''Connection ID expired''" unfolding mentions_connection_id_def by blast
  then have "set (announce_all [good_net] (snd (udp_announce expired_net demo_tracker))) \<subseteq> {Inl NotReady}"
    using failed_reconnect_is_final [of demo_tracker expired_net 0 "''Connection ID expired''" "RequestTimeout 3" "[good_net]"]
    by (simp add: demo_tracker_def udp_tracker_new_def demo_settings_def expired_net_def)
  then show ?thesis by (simp add: split_beta)
qed

end
