(* ===== verification/Http_Tracker.thy ===== *)
theory Http_Tracker
  imports Tracker_Base Dht_Compact Texts
begin

text \<open>
  HTTP trackers (\<^verbatim>\<open>tracker/http.rs\<close>): the query of an announce, the response with compact or
  dictionary peers, announcing, updating and stopping. Parameters are the HTTP client (\<^verbatim>\<open>reqwest\<close>),
  the bencode decoder (\<^verbatim>\<open>serde_bencode\<close>), the \<^verbatim>\<open>hex\<close> encoder and the parser of address texts. What a
  tracker makes of the URL is the specification: the query is what follows the first question
  mark, a list of percent-encoded fields.
\<close>

section \<open>Addresses\<close>

text \<open>
  \<^verbatim>\<open>Display\<close> of addresses. IPv6 shortens the first longest run of at least two zero segments, and
  prints an IPv4-mapped address with its dotted quad.
\<close>

definition show_v4 :: "byte list \<Rightarrow> string" where
  "show_v4 octets = join ''.'' (map (\<lambda>b. show_nat (unat b)) octets)"

definition v6_segments :: "byte list \<Rightarrow> nat list" where
  "v6_segments bs = map (\<lambda>i. 256 * unat (bs ! (2 * i)) + unat (bs ! (2 * i + 1))) [0..<length bs div 2]"

definition zero_run :: "nat list \<Rightarrow> nat \<Rightarrow> nat" where
  "zero_run segs i = length (takeWhile (\<lambda>s. s = 0) (drop i segs))"

definition longest_zeros :: "nat list \<Rightarrow> nat \<times> nat" where
  "longest_zeros segs = fold (\<lambda>i (st, len). if len < zero_run segs i then (i, zero_run segs i) else (st, len)) [0..<length segs] (0, 0)"

definition show_segments :: "nat list \<Rightarrow> string" where
  "show_segments segs = join '':'' (map (show_base 16) segs)"

definition show_v6 :: "byte list \<Rightarrow> string" where
  "show_v6 bs =
     (if take 12 bs = replicate 10 0 @ [255, 255] then ''::ffff:'' @ show_v4 (drop 12 bs)
      else let segs = v6_segments bs; (st, len) = longest_zeros segs
           in if 1 < len then show_segments (take st segs) @ ''::'' @ show_segments (drop (st + len) segs)
              else show_segments segs)"

primrec show_ip :: "ip_addr \<Rightarrow> string" where
  "show_ip (V4 octets) = show_v4 octets"
| "show_ip (V6 bs) = show_v6 bs"

primrec is_loopback :: "ip_addr \<Rightarrow> bool" where
  "is_loopback (V4 octets) = (hd octets = 127)"
| "is_loopback (V6 bs) = (bs = replicate 15 0 @ [1])"

section \<open>Requests\<close>

record http_request =
  hr_port :: u16
  hr_ip :: "ip_addr option"
  hr_uploaded :: nat
  hr_downloaded :: nat
  hr_left :: "nat option"
  hr_event :: tracker_event
  hr_compact :: bool

definition http_request_new :: "socket_addr option \<Rightarrow> socket_addr \<Rightarrow> bool \<Rightarrow> http_request" where
  "http_request_new peer_tracker_addr default_peer_addr compact =
     (let addr = (case peer_tracker_addr of Some a \<Rightarrow> a | None \<Rightarrow> default_peer_addr)
      in \<lparr>hr_port = port addr,
          hr_ip = (if is_loopback (ip addr) \<or> is_unspecified (ip addr) then None else Some (ip addr)),
          hr_uploaded = 0, hr_downloaded = 0, hr_left = None, hr_event = EmptyEvent, hr_compact = compact\<rparr>)"

primrec event_text :: "tracker_event \<Rightarrow> string" where
  "event_text EmptyEvent = ''empty''"
| "event_text StartedEvent = ''started''"
| "event_text CompletedEvent = ''completed''"
| "event_text StoppedEvent = ''stopped''"

definition http_fields :: "http_request \<Rightarrow> (string \<times> string) list" where
  "http_fields r =
     (case hr_ip r of None \<Rightarrow> [] | Some a \<Rightarrow> [(''ip'', show_ip a)]) @
     [(''port'', show_nat (unat (hr_port r))), (''uploaded'', show_nat (hr_uploaded r)), (''downloaded'', show_nat (hr_downloaded r))] @
     (case hr_left r of None \<Rightarrow> [] | Some n \<Rightarrow> [(''left'', show_nat n)]) @
     (if hr_event r \<noteq> EmptyEvent then [(''event'', event_text (hr_event r))] else []) @
     [(''compact'', if hr_compact r then ''1'' else ''0'')]"

definition field_text :: "string \<times> string \<Rightarrow> string" where
  "field_text f = fst f @ ''='' @ snd f"

definition http_to_string :: "http_request \<Rightarrow> string" where
  "http_to_string r = join ''&'' (map field_text (http_fields r))"

definition urlencode :: "(byte \<Rightarrow> string) \<Rightarrow> byte list \<Rightarrow> string" where
  "urlencode hex bs = concat (map (\<lambda>b. ''%'' @ hex b) bs)"

section \<open>Responses\<close>

record dictionary_peer =
  dp_ip :: string
  dp_id :: "byte list option"
  dp_port :: u16

text \<open>What the bencode decoder hands to the visitor: a byte string, a list or something else.\<close>

datatype raw_peers = PeersAbsent | PeersBytes "byte list" | PeersSeq "(string + dictionary_peer) list" | PeersOther string

record raw_response =
  rr_failure_reason :: "string option"
  rr_interval :: "nat option"
  rr_peers :: raw_peers

definition HTTP_PEER_SIZE :: nat where "HTTP_PEER_SIZE = 6"

definition peer_of_chunk :: "byte list \<Rightarrow> wire_peer" where
  "peer_of_chunk chunk = (\<lparr>ip = V4 (take 4 chunk), port = be_val (take 2 (drop 4 chunk))\<rparr>, None)"

definition visit_bytes :: "byte list \<Rightarrow> string + wire_peer list" where
  "visit_bytes bytes =
     (if length bytes mod HTTP_PEER_SIZE \<noteq> 0 then Inl ''Peer data length is not a multiple of peer size''
      else Inr (map peer_of_chunk (filter (\<lambda>chunk. length chunk = HTTP_PEER_SIZE) (chunks HTTP_PEER_SIZE bytes))))"

definition dictionary_id :: "byte list option \<Rightarrow> peer_id option" where
  "dictionary_id i = (case i of None \<Rightarrow> None | Some bs \<Rightarrow> if length bs = 20 then Some bs else None)"

fun visit_seq :: "(string \<Rightarrow> ip_addr option) \<Rightarrow> (string + dictionary_peer) list \<Rightarrow> string + wire_peer list" where
  "visit_seq parse_ip [] = Inr []"
| "visit_seq parse_ip (Inl e # xs) = Inl e"
| "visit_seq parse_ip (Inr d # xs) =
     (case visit_seq parse_ip xs of
        Inl e \<Rightarrow> Inl e
      | Inr peers \<Rightarrow>
          (case parse_ip (dp_ip d) of
             None \<Rightarrow> Inr peers
           | Some a \<Rightarrow> Inr ((\<lparr>ip = a, port = dp_port d\<rparr>, dictionary_id (dp_id d)) # peers)))"

primrec deserialize_peers :: "(string \<Rightarrow> ip_addr option) \<Rightarrow> raw_peers \<Rightarrow> string + wire_peer list" where
  "deserialize_peers parse_ip PeersAbsent = Inr []"
| "deserialize_peers parse_ip (PeersBytes bytes) = visit_bytes bytes"
| "deserialize_peers parse_ip (PeersSeq xs) = visit_seq parse_ip xs"
| "deserialize_peers parse_ip (PeersOther e) = Inl e"

record http_net =
  hn_get :: "string \<Rightarrow> (byte list) option"
  hn_bencode :: "byte list \<Rightarrow> string + raw_response"
  hn_hex :: "byte \<Rightarrow> string"
  hn_parse_ip :: "string \<Rightarrow> ip_addr option"

definition parse_tracker_response :: "http_net \<Rightarrow> byte list \<Rightarrow> tracker_error + (nat option \<times> wire_peer list)" where
  "parse_tracker_response net bytes =
     (case hn_bencode net bytes of
        Inl e \<Rightarrow> Inl (BencodeDecoding e)
      | Inr raw \<Rightarrow>
          (case deserialize_peers (hn_parse_ip net) (rr_peers raw) of
             Inl e \<Rightarrow> Inl (BencodeDecoding e)
           | Inr peers \<Rightarrow>
               (case rr_failure_reason raw of
                  Some message \<Rightarrow> Inl (TrackerError message)
                | None \<Rightarrow> Inr (rr_interval raw, peers))))"

section \<open>The tracker\<close>

record http_tracker =
  ht_uri :: string
  ht_peer_id :: peer_id
  ht_info_hash :: hash
  ht_params :: http_request
  ht_interval :: nat
  ht_stats :: tracker_stats

definition http_tracker_new :: "peer_id \<Rightarrow> socket_addr \<Rightarrow> bool \<Rightarrow> string \<Rightarrow> hash \<Rightarrow> peer_id option \<Rightarrow> socket_addr option \<Rightarrow> http_tracker" where
  "http_tracker_new generated default_peer_addr compact uri info_hash peer peer_tracker_addr =
     \<lparr>ht_uri = uri, ht_peer_id = (case peer of Some i \<Rightarrow> i | None \<Rightarrow> generated), ht_info_hash = info_hash,
      ht_params = http_request_new peer_tracker_addr default_peer_addr compact,
      ht_interval = usize_max, ht_stats = stats_default\<rparr>"

definition announce_uri :: "(byte \<Rightarrow> string) \<Rightarrow> http_tracker \<Rightarrow> string" where
  "announce_uri hex t =
     ht_uri t @ ''?'' @ http_to_string (ht_params t) @ ''&info_hash='' @ urlencode hex (ht_info_hash t) @
     ''&peer_id='' @ urlencode hex (ht_peer_id t)"

definition http_announce :: "http_net \<Rightarrow> http_tracker \<Rightarrow> (tracker_error + wire_peer list) \<times> http_tracker" where
  "http_announce net t =
     (let t1 = t\<lparr>ht_stats := increment_announce_attempts (ht_stats t)\<rparr>
      in case hn_get net (announce_uri (hn_hex net) t1) of
           None \<Rightarrow> (Inl HttpError, t1)
         | Some bytes \<Rightarrow>
             (case parse_tracker_response net bytes of
                Inl e \<Rightarrow> (Inl e, t1)
              | Inr (interval, peers) \<Rightarrow>
                  (Inr peers,
                   t1\<lparr>ht_stats := increment_total_peers_received (length peers) (increment_announce_successes (ht_stats t1)),
                      ht_interval := (case interval of Some n \<Rightarrow> n | None \<Rightarrow> usize_max)\<rparr>)))"

primrec http_update :: "tracker_update \<Rightarrow> http_tracker \<Rightarrow> http_tracker" where
  "http_update (UpdUploaded n) t = t\<lparr>ht_params := (ht_params t)\<lparr>hr_uploaded := n\<rparr>\<rparr>"
| "http_update (UpdDownloaded n) t = t\<lparr>ht_params := (ht_params t)\<lparr>hr_downloaded := n\<rparr>\<rparr>"
| "http_update (UpdLeft n) t = t\<lparr>ht_params := (ht_params t)\<lparr>hr_left := Some n\<rparr>\<rparr>"
| "http_update (UpdEvent e) t = t\<lparr>ht_params := (ht_params t)\<lparr>hr_event := e\<rparr>\<rparr>"

text \<open>A stop that times out drops the announce while it waits for the response.\<close>

definition http_stop :: "http_net \<Rightarrow> bool \<Rightarrow> http_tracker \<Rightarrow> (tracker_error + unit) \<times> http_tracker" where
  "http_stop net in_time t =
     (let t1 = http_update (UpdEvent StoppedEvent) t
      in (Inr (), if in_time then snd (http_announce net t1)
                  else t1\<lparr>ht_stats := increment_announce_attempts (ht_stats t1)\<rparr>))"

interpretation http: tracker_base http_announce http_update ht_interval ht_stats
proof unfold_locales
  fix net t t'
  show "ht_stats t' = increment_total_peers_received (length peers) (increment_announce_successes (increment_announce_attempts (ht_stats t)))"
    if "http_announce net t = (Inr peers, t')" for peers
    using that by (auto simp: http_announce_def Let_def split: option.splits sum.splits)
  show "ht_interval t' = ht_interval t \<and> (ht_stats t' = ht_stats t \<or> ht_stats t' = increment_announce_attempts (ht_stats t))"
    if "http_announce net t = (Inl e, t')" for e
    using that by (auto simp: http_announce_def Let_def split: option.splits sum.splits)
  show "ht_interval (http_update u t) = ht_interval t \<and> ht_stats (http_update u t) = ht_stats t" for u
    by (cases u) simp_all
qed

section \<open>What the tracker reads\<close>

definition unhex :: "char \<Rightarrow> nat" where
  "unhex c = (case map_of (zip hex_digits [0..<16]) c of Some n \<Rightarrow> n | None \<Rightarrow> 0)"

fun percent_decode :: "string \<Rightarrow> byte list" where
  "percent_decode [] = []"
| "percent_decode [a] = [of_char a]"
| "percent_decode [a, b] = [of_char a, of_char b]"
| "percent_decode (a # b # c # cs) =
     (if a = CHR ''%'' then of_nat (16 * unhex b + unhex c) # percent_decode cs else of_char a # percent_decode (b # c # cs))"

definition read_field :: "string \<Rightarrow> string \<times> byte list" where
  "read_field s = (takeWhile (\<lambda>c. c \<noteq> CHR ''='') s, percent_decode (tl (dropWhile (\<lambda>c. c \<noteq> CHR ''='') s)))"

definition read_query :: "string \<Rightarrow> (string \<times> byte list) list" where
  "read_query url = map read_field (split_on CHR ''&'' (tl (dropWhile (\<lambda>c. c \<noteq> CHR ''?'') url)))"


text \<open>Texts without the characters that have a meaning in a query.\<close>

definition plain :: "string \<Rightarrow> bool" where
  "plain s = (\<forall>c \<in> set s. c \<notin> {CHR ''&'', CHR ''='', CHR ''%'', CHR ''?''})"

lemma plain_simps [simp]:
  "plain []" "plain (c # s) \<longleftrightarrow> c \<notin> {CHR ''&'', CHR ''='', CHR ''%'', CHR ''?''} \<and> plain s"
  "plain (s @ s') \<longleftrightarrow> plain s \<and> plain s'"
  by (auto simp: plain_def)

lemma plain_digit: "n < 16 \<Longrightarrow> plain [hex_digits ! n]"
proof -
  assume "n < 16"
  then have "hex_digits ! n \<in> set hex_digits" by (intro nth_mem) (simp add: hex_digits_def)
  then show ?thesis by (auto simp: hex_digits_def)
qed

lemma plain_show_base: "2 \<le> b \<Longrightarrow> b \<le> 16 \<Longrightarrow> plain (show_base b n)"
proof (induction b n rule: show_base.induct)
  case (1 b n)
  show ?case
  proof (cases "n < b")
    case True
    then show ?thesis using plain_digit [of n] 1 by (subst show_base.simps) simp
  next
    case False
    then have "plain (show_base b (n div b))" using 1 by simp
    moreover have "n mod b < b" using 1 by simp
    then have "n mod b < 16" using 1(3) by linarith
    ultimately show ?thesis using False 1 plain_digit [of "n mod b"] by (subst show_base.simps) simp
  qed
qed

lemma plain_join: "plain sep \<Longrightarrow> \<forall>x \<in> set xs. plain x \<Longrightarrow> plain (join sep xs)"
  by (induction sep xs rule: join.induct) simp_all

lemma plain_ip: "plain (show_ip a)"
proof (cases a)
  case (V4 octets)
  then show ?thesis by (auto simp: show_v4_def intro!: plain_join plain_show_base)
next
  case (V6 bs)
  have "plain (show_segments segs)" for segs
    by (auto simp: show_segments_def intro!: plain_join plain_show_base)
  moreover have "plain (show_v4 bs)" for bs by (auto simp: show_v4_def intro!: plain_join plain_show_base)
  ultimately show ?thesis by (simp add: V6 show_v6_def Let_def split_beta)
qed

lemma plain_fields: "f \<in> set (http_fields r) \<Longrightarrow> plain (fst f) \<and> plain (snd f)"
  using plain_show_base [of 10] plain_ip
  by (cases "hr_event r") (auto simp: http_fields_def split: option.splits)

lemma percent_decode_plain: "CHR ''%'' \<notin> set s \<Longrightarrow> percent_decode s = map of_char s"
  by (induction s rule: percent_decode.induct) auto

text \<open>The lower-case hexadecimal digits of a byte, which \<^verbatim>\<open>hex::encode\<close> documents.\<close>

definition lower_hex :: "byte \<Rightarrow> string" where
  "lower_hex b = [hex_digits ! (unat b div 16), hex_digits ! (unat b mod 16)]"

lemma unhex_digit: "n < 16 \<Longrightarrow> unhex (hex_digits ! n) = n"
proof -
  assume "n < 16"
  moreover have "distinct hex_digits" "length hex_digits = 16" by (simp_all add: hex_digits_def)
  ultimately have "map_of (zip hex_digits [0..<16]) (hex_digits ! n) = Some ([0..<16] ! n)"
    by (intro map_of_zip_nth) simp_all
  then show ?thesis using \<open>n < 16\<close> by (simp add: unhex_def)
qed

lemma byte_bounds: "unat (b :: byte) div 16 < 16" "unat b mod 16 < 16"
  using unsigned_less [where ?'a = nat and w = b] by simp_all

lemma unhex_lower_hex: "of_nat (16 * unhex (lower_hex b ! 0) + unhex (lower_hex b ! 1)) = b"
  by (simp add: lower_hex_def unhex_digit byte_bounds del: of_nat_add of_nat_mult)

lemma percent_decode_urlencode: "\<forall>b. hex b = lower_hex b \<Longrightarrow> percent_decode (urlencode hex bs) = bs"
proof (induction bs)
  case (Cons b bs)
  then show ?case using unhex_lower_hex [of b]
    by (simp add: urlencode_def lower_hex_def del: of_nat_add of_nat_mult)
qed (simp add: urlencode_def)

lemma urlencode_chars: "\<forall>b. hex b = lower_hex b \<Longrightarrow> c \<in> set (urlencode hex bs) \<Longrightarrow> c \<notin> {CHR ''&'', CHR ''='', CHR ''?''}"
  using plain_digit byte_bounds(1) byte_bounds(2) by (auto simp: urlencode_def lower_hex_def split: if_splits)

lemma read_field_text: "CHR ''='' \<notin> set k \<Longrightarrow> read_field (field_text (k, v)) = (k, percent_decode v)"
  by (simp add: read_field_def field_text_def takeWhile_append dropWhile_append) 

lemma takeWhile_sep: "c \<notin> set xs \<Longrightarrow> dropWhile (\<lambda>x. x \<noteq> c) (xs @ c # ys) = c # ys"
  by (induction xs) auto

lemma announce_uri_fields:
  "announce_uri hex t = ht_uri t @ ''?'' @ join ''&'' (map field_text (http_fields (ht_params t) @
     [(''info_hash'', urlencode hex (ht_info_hash t)), (''peer_id'', urlencode hex (ht_peer_id t))]))"
proof -
  have "http_fields (ht_params t) \<noteq> []" by (simp add: http_fields_def)
  then show ?thesis by (simp add: announce_uri_def http_to_string_def join_append field_text_def)
qed


lemma read_join:
  assumes "fs \<noteq> []" and "\<forall>f \<in> set fs. CHR ''='' \<notin> set (fst f) \<and> CHR ''&'' \<notin> set (fst f) \<and> CHR ''&'' \<notin> set (snd f)"
  shows "map read_field (split_on CHR ''&'' (join ''&'' (map field_text fs))) = map (\<lambda>(k, v). (k, percent_decode v)) fs"
proof -
  have "\<forall>x \<in> set (map field_text fs). CHR ''&'' \<notin> set x" using assms(2) by (auto simp: field_text_def)
  then have "split_on CHR ''&'' (join ''&'' (map field_text fs)) = map field_text fs"
    using assms(1) by (intro split_on_join) simp_all
  then show ?thesis using assms(2) by (auto simp: read_field_text split_beta)
qed

definition uri_fields :: "(byte \<Rightarrow> string) \<Rightarrow> http_tracker \<Rightarrow> (string \<times> string) list" where
  "uri_fields hex t = http_fields (ht_params t) @
     [(''info_hash'', urlencode hex (ht_info_hash t)), (''peer_id'', urlencode hex (ht_peer_id t))]"

lemma uri_fields_chars:
  assumes "\<forall>b. hex b = lower_hex b" and "f \<in> set (uri_fields hex t)"
  shows "CHR ''='' \<notin> set (fst f) \<and> CHR ''&'' \<notin> set (fst f) \<and> CHR ''&'' \<notin> set (snd f)"
proof -
  have "CHR ''&'' \<notin> set (urlencode hex bs)" for bs using urlencode_chars [OF assms(1)] by blast
  then show ?thesis using assms(2) plain_fields [of f "ht_params t"] by (auto simp: uri_fields_def plain_def)
qed

lemma read_plain_fields: "map (\<lambda>(k, v). (k, percent_decode v)) (http_fields r) = map (\<lambda>(k, v). (k, map of_char v)) (http_fields r)"
proof (rule map_cong [OF refl])
  fix f
  assume "f \<in> set (http_fields r)"
  then have "CHR ''%'' \<notin> set (snd f)" using plain_fields [of f r] by (auto simp: plain_def)
  then show "(case f of (k, v) \<Rightarrow> (k, percent_decode v)) = (case f of (k, v) \<Rightarrow> (k, map of_char v))"
    by (simp add: split_beta percent_decode_plain)
qed

lemma read_announce_uri:
  assumes "\<forall>b. hex b = lower_hex b" and "CHR ''?'' \<notin> set (ht_uri t)"
  shows "read_query (announce_uri hex t) =
    map (\<lambda>(k, v). (k, map of_char v)) (http_fields (ht_params t)) @ [(''info_hash'', ht_info_hash t), (''peer_id'', ht_peer_id t)]"
proof -
  have "read_query (announce_uri hex t) = map read_field (split_on CHR ''&'' (join ''&'' (map field_text (uri_fields hex t))))"
    using takeWhile_sep [OF assms(2)] by (simp add: read_query_def announce_uri_fields uri_fields_def)
  also have "\<dots> = map (\<lambda>(k, v). (k, percent_decode v)) (uri_fields hex t)"
    using uri_fields_chars [OF assms(1)] by (intro read_join) (auto simp: uri_fields_def)
  finally show ?thesis
    using percent_decode_urlencode [OF assms(1)] by (simp add: uri_fields_def read_plain_fields)
qed

text \<open>A decimal number as a tracker reads it.\<close>

definition read_nat :: "byte list \<Rightarrow> nat" where
  "read_nat bs = foldl (\<lambda>n b. 10 * n + (unat b - 48)) 0 bs"

lemma digit_value: "n < 10 \<Longrightarrow> unat (of_char (hex_digits ! n) :: byte) = 48 + n"
proof -
  have "\<forall>n \<in> set [0..<10]. unat (of_char (hex_digits ! n) :: byte) = 48 + n" by code_simp
  then show "n < 10 \<Longrightarrow> ?thesis" by simp
qed

lemma read_show_nat: "read_nat (map of_char (show_nat n)) = n"
proof (induction n rule: less_induct)
  case (less n)
  show ?case
  proof (cases "n < 10")
    case True
    then show ?thesis by (subst show_base.simps) (simp add: read_nat_def digit_value)
  next
    case False
    then have "read_nat (map of_char (show_nat (n div 10))) = n div 10" using less by simp
    then show ?thesis using False by (subst show_base.simps) (simp add: read_nat_def digit_value)
  qed
qed


text \<open>
  An announce URL that already has a query is broken. The client appends a second question
  mark, so the last value of the torrent's own query swallows the first field of the announce: a
  tracker that is given a passkey reads another passkey and no port.
\<close>

theorem uri_query_broken:
  assumes "\<forall>b. hex b = lower_hex b" and "ht_uri t = base @ ''?'' @ k @ ''='' @ v"
    and "CHR ''?'' \<notin> set base" and "plain k" and "plain v" and "k \<noteq> ''port''" and "hr_ip (ht_params t) = None"
  shows "map_of (read_query (announce_uri hex t)) k = Some (map of_char (v @ ''?port='' @ show_nat (unat (hr_port (ht_params t))))) \<and>
    map_of (read_query (announce_uri hex t)) ''port'' = None"
proof -
  let ?p = "show_nat (unat (hr_port (ht_params t)))"
  define rest where "rest = tl (uri_fields hex t)"
  let ?fs = "(k, v @ ''?port='' @ ?p) # rest"
  have fields: "uri_fields hex t = (''port'', ?p) # rest" and "rest \<noteq> []"
    using assms(7) by (simp_all add: rest_def uri_fields_def http_fields_def)
  then obtain g gs where rest: "rest = g # gs" by (cases rest) auto
  have "announce_uri hex t = base @ ''?'' @ join ''&'' (map field_text ?fs)"
    unfolding announce_uri_fields uri_fields_def [symmetric] fields assms(2) by (simp add: rest field_text_def)
  moreover have pp: "plain ?p" by (rule plain_show_base) simp_all
  have "map read_field (split_on CHR ''&'' (join ''&'' (map field_text ?fs))) = map (\<lambda>(k, v). (k, percent_decode v)) ?fs"
  proof (rule read_join)
    have "set rest \<subseteq> set (uri_fields hex t)" unfolding fields by auto
    then have "\<forall>f \<in> set rest. CHR ''='' \<notin> set (fst f) \<and> CHR ''&'' \<notin> set (fst f) \<and> CHR ''&'' \<notin> set (snd f)"
      using uri_fields_chars [OF assms(1)] by blast
    moreover have "CHR ''='' \<notin> set k \<and> CHR ''&'' \<notin> set k" "CHR ''&'' \<notin> set v" "CHR ''&'' \<notin> set ?p"
      using assms(4,5) pp unfolding plain_def by blast+
    ultimately show "\<forall>f \<in> set ?fs. CHR ''='' \<notin> set (fst f) \<and> CHR ''&'' \<notin> set (fst f) \<and> CHR ''&'' \<notin> set (snd f)"
      by simp
  qed simp
  ultimately have q: "read_query (announce_uri hex t) = map (\<lambda>(k, v). (k, percent_decode v)) ?fs"
    using takeWhile_sep [OF assms(3)] by (simp add: read_query_def)
  have "percent_decode (v @ ''?port='' @ ?p) = map of_char (v @ ''?port='' @ ?p)"
  proof (rule percent_decode_plain)
    have "CHR ''%'' \<notin> set v" "CHR ''%'' \<notin> set ?p" using assms(5) pp unfolding plain_def by blast+
    then show "CHR ''%'' \<notin> set (v @ ''?port='' @ ?p)" by simp
  qed
  moreover have "map_of (map (\<lambda>(k, v). (k, percent_decode v)) rest) ''port'' = None"
    using assms(7) by (cases "hr_left (ht_params t)") (simp_all add: rest_def uri_fields_def http_fields_def)
  ultimately show ?thesis using q assms(6) by simp
qed


section \<open>Peers\<close>

lemma peer_of_chunk_decodes: "length c = COMPACT_PEER_LEN \<Longrightarrow> decode_peer c = Inr (fst (peer_of_chunk c))"
  by (auto simp: compact_lens numeral_eq_Suc length_Suc_conv decode_peer_def peer_of_chunk_def)

text \<open>
  Compact peers are read exactly. A byte string is rejected exactly when its length is not a
  multiple of six; every other one is the concatenation of the compact forms of the peers that are
  returned, in order, none of them with an identifier.
\<close>

theorem http_compact_peers_exact:
  "(case visit_bytes bytes of
      Inl _ \<Rightarrow> length bytes mod 6 \<noteq> 0
    | Inr peers \<Rightarrow> concat (map (\<lambda>p. enc_peer (fst p)) peers) = bytes \<and> list_all (\<lambda>p. v4_addr_ok (fst p) \<and> snd p = None) peers)"
proof (cases "length bytes mod 6 = 0")
  case True
  then have all: "concat (chunks 6 bytes) = bytes" by (simp add: concat_chunks dvd_eq_mod_eq_0)
  have w: "\<forall>c \<in> set (chunks 6 bytes). length c = 6" using length_in_chunks by blast
  have "enc_peer (fst (peer_of_chunk c)) = c \<and> v4_addr_ok (fst (peer_of_chunk c)) \<and> snd (peer_of_chunk c) = None" if "length c = 6" for c
    using peer_codec.enc_dec [of c] peer_of_chunk_decodes [of c] that by (auto simp: compact_lens peer_of_chunk_def)
  then have "map (\<lambda>c. enc_peer (fst (peer_of_chunk c))) (chunks 6 bytes) = chunks 6 bytes"
    "\<forall>c \<in> set (chunks 6 bytes). v4_addr_ok (fst (peer_of_chunk c)) \<and> snd (peer_of_chunk c) = None"
    using w by (simp_all add: map_idI)
  moreover have "filter (\<lambda>c. length c = 6) (chunks 6 bytes) = chunks 6 bytes" using w by simp
  ultimately show ?thesis
    using True all by (simp add: visit_bytes_def HTTP_PEER_SIZE_def list_all_iff comp_def)
qed (simp add: visit_bytes_def HTTP_PEER_SIZE_def)


section \<open>Announcing\<close>

text \<open>
  What an HTTP announce achieves. It always counts one attempt. It returns peers exactly when the
  server answers with a response that decodes and has no failure reason; then these are the peers of
  the response and its interval is the next one, or unset when the response has none. A failure keeps
  the interval, and a failure reason is the error that is reported.
\<close>

theorem http_announce_outcome:
  assumes "http_announce net t = (res, t')" and "hn_get net (announce_uri (hn_hex net) t) = Some bytes" and "hn_bencode net bytes = Inr raw"
  shows "tst_attempts (ht_stats t') = tst_attempts (ht_stats t) + 1 \<and>
    (case deserialize_peers (hn_parse_ip net) (rr_peers raw) of
       Inl e \<Rightarrow> res = Inl (BencodeDecoding e) \<and> ht_interval t' = ht_interval t
     | Inr peers \<Rightarrow>
         (case rr_failure_reason raw of
            Some message \<Rightarrow> res = Inl (TrackerError message) \<and> ht_interval t' = ht_interval t
          | None \<Rightarrow> res = Inr peers \<and> ht_interval t' = (case rr_interval raw of Some n \<Rightarrow> n | None \<Rightarrow> usize_max) \<and>
              tst_peers (ht_stats t') = tst_peers (ht_stats t) + length peers))"
proof -
  have "announce_uri (hn_hex net) (t\<lparr>ht_stats := s\<rparr>) = announce_uri (hn_hex net) t" for s by (simp add: announce_uri_def)
  then show ?thesis
    using assms by (auto simp: http_announce_def parse_tracker_response_def stats_defs split: sum.splits option.splits)
qed

section \<open>Concrete trackers\<close>

definition demo_http :: http_tracker where
  "demo_http = http_update (UpdLeft 77) (http_tracker_new [] \<lparr>ip = V4 [0, 0, 0, 0], port = 6881\<rparr> True ''http://t.org/a'' (replicate 20 200) (Some (replicate 20 3)) None)"

definition demo_passkey :: http_tracker where
  "demo_passkey = demo_http\<lparr>ht_uri := ''http://t.org/a'' @ ''?'' @ ''passkey'' @ ''='' @ ''abc''\<rparr>"


theorem uri_query_broken_witness:
  "map_of (read_query (announce_uri lower_hex demo_passkey)) ''port'' = None"
  using uri_query_broken [of lower_hex demo_passkey "''http://t.org/a''" "''passkey''" "''abc''"]
  by (simp add: demo_passkey_def demo_http_def http_tracker_new_def http_request_new_def)

definition demo_raw :: raw_response where
  "demo_raw = \<lparr>rr_failure_reason = None, rr_interval = Some 900,
     rr_peers = PeersSeq [Inr \<lparr>dp_ip = ''bad'', dp_id = None, dp_port = 1\<rparr>, Inr \<lparr>dp_ip = ''10.0.0.1'', dp_id = Some [1], dp_port = 6881\<rparr>]\<rparr>"

definition demo_parse :: "string \<Rightarrow> ip_addr option" where
  "demo_parse s = (if s = ''10.0.0.1'' then Some (V4 [10, 0, 0, 1]) else None)"

definition demo_http_net :: http_net where
  "demo_http_net = \<lparr>hn_get = (\<lambda>_. Some [1]), hn_bencode = (\<lambda>_. Inr demo_raw), hn_hex = lower_hex, hn_parse_ip = demo_parse\<rparr>"

theorem http_announce_outcome_witness:
  "fst (http_announce demo_http_net demo_http) = Inr [(\<lparr>ip = V4 [10, 0, 0, 1], port = 6881\<rparr>, None)] \<and>
   ht_interval (snd (http_announce demo_http_net demo_http)) = 900"
proof -
  have "hn_get demo_http_net (announce_uri (hn_hex demo_http_net) demo_http) = Some [1]" "hn_bencode demo_http_net [1] = Inr demo_raw"
    by (simp_all add: demo_http_net_def)
  moreover have "deserialize_peers (hn_parse_ip demo_http_net) (rr_peers demo_raw) = Inr [(\<lparr>ip = V4 [10, 0, 0, 1], port = 6881\<rparr>, None)]"
    by (simp add: demo_http_net_def demo_raw_def demo_parse_def dictionary_id_def)
  ultimately show ?thesis
    using http_announce_outcome [OF surjective_pairing, of demo_http_net demo_http "[1]" demo_raw] by (simp add: demo_raw_def)
qed

end
