(* ===== verification/Tracker_Actor.thy ===== *)
theory Tracker_Actor
  imports Udp_Tracker Http_Tracker
begin

text \<open>
  The tracker a torrent was given (\<^verbatim>\<open>tracker/model.rs\<close>: classification of announce URIs, dispatch over
  UDP and HTTP) and the actor that drives it (\<^verbatim>\<open>tracker/actor.rs\<close>): starting, announcing and scheduling
  the next announce, updating and stopping. Name resolution is a parameter. Durations are in
  milliseconds. The metrics the actor publishes for live views are left out.
\<close>

section \<open>Announce URIs\<close>

fun split_scheme :: "string \<Rightarrow> string option" where
  "split_scheme s =
     (if take 3 s = ''://'' then Some []
      else case s of [] \<Rightarrow> None | c # cs \<Rightarrow> map_option (\<lambda>scheme. c # scheme) (split_scheme cs))"

declare split_scheme.simps [simp del]

datatype uri_error = MissingScheme string | UnsupportedScheme string

definition tracker_from_uri :: "string \<Rightarrow> uri_error + tracker" where
  "tracker_from_uri uri =
     (case split_scheme uri of
        None \<Rightarrow> Inl (MissingScheme uri)
      | Some scheme \<Rightarrow>
          if scheme = ''http'' \<or> scheme = ''https'' then Inr (Http uri)
          else if scheme = ''udp'' then Inr (Udp uri)
          else if scheme = ''ws'' \<or> scheme = ''wss'' then Inr (Websocket uri)
          else Inl (UnsupportedScheme scheme))"

primrec tracker_uri :: "tracker \<Rightarrow> string" where
  "tracker_uri (Http uri) = uri"
| "tracker_uri (Udp uri) = uri"
| "tracker_uri (Websocket uri) = uri"

lemma split_scheme_append: "CHR '':'' \<notin> set scheme \<Longrightarrow> split_scheme (scheme @ ''://'' @ rest) = Some scheme"
proof (induction scheme)
  case (Cons c cs)
  then have "take 3 (c # cs @ ''://'' @ rest) \<noteq> ''://''" by auto
  then show ?case using Cons by (simp add: split_scheme.simps [of "c # _"])
qed (simp add: split_scheme.simps)

lemma split_scheme_Some: "split_scheme s = Some scheme \<Longrightarrow> \<exists>rest. s = scheme @ ''://'' @ rest"
proof (induction s arbitrary: scheme)
  case Nil
  then show ?case by (simp add: split_scheme.simps)
next
  case (Cons c cs)
  show ?case
  proof (cases "take 3 (c # cs) = ''://''")
    case True
    then have "c # cs = ''://'' @ drop 3 (c # cs)" by (metis append_take_drop_id)
    moreover have "scheme = []" using Cons.prems True by (simp add: split_scheme.simps)
    ultimately show ?thesis by auto
  next
    case False
    then obtain sc where "split_scheme cs = Some sc" "scheme = c # sc"
      using Cons.prems by (auto simp: split_scheme.simps [of "c # cs"])
    then show ?thesis using Cons.IH by fastforce
  qed
qed

section \<open>The instance\<close>

datatype tracker_instance = UdpInstance udp_tracker | HttpInstance http_tracker

record tracker_net =
  tn_udp :: udp_net
  tn_http :: http_net
  tn_in_time :: bool

primrec ti_announce :: "tracker_net \<Rightarrow> tracker_instance \<Rightarrow> (tracker_error + wire_peer list) \<times> tracker_instance" where
  "ti_announce net (UdpInstance t) = map_prod id UdpInstance (udp_base_announce (tn_udp net) t)"
| "ti_announce net (HttpInstance t) = map_prod id HttpInstance (http_announce (tn_http net) t)"

fun ti_update :: "tracker_update \<Rightarrow> tracker_instance \<Rightarrow> tracker_instance" where
  "ti_update u (UdpInstance t) = UdpInstance (udp_update u t)"
| "ti_update u (HttpInstance t) = HttpInstance (http_update u t)"

fun ti_interval :: "tracker_instance \<Rightarrow> nat" where
  "ti_interval (UdpInstance t) = udp_interval t"
| "ti_interval (HttpInstance t) = ht_interval t"

fun ti_stats :: "tracker_instance \<Rightarrow> tracker_stats" where
  "ti_stats (UdpInstance t) = ut_stats t"
| "ti_stats (HttpInstance t) = ht_stats t"

fun ti_stop :: "tracker_net \<Rightarrow> tracker_instance \<Rightarrow> (tracker_error + unit) \<times> tracker_instance" where
  "ti_stop net (UdpInstance t) = map_prod id UdpInstance (udp_stop (tn_udp net) t)"
| "ti_stop net (HttpInstance t) = map_prod id HttpInstance (http_stop (tn_http net) (tn_in_time net) t)"

interpretation inst: tracker_base ti_announce ti_update ti_interval ti_stats
proof unfold_locales
  fix net t t'
  show "ti_stats t' = increment_total_peers_received (length peers) (increment_announce_successes (increment_announce_attempts (ti_stats t)))"
    if "ti_announce net t = (Inr peers, t')" for peers
    using that udp.success http.success by (cases t) (auto simp: map_prod_def split: prod.splits)
  show "ti_interval t' = ti_interval t \<and> (ti_stats t' = ti_stats t \<or> ti_stats t' = increment_announce_attempts (ti_stats t))"
    if r: "ti_announce net t = (Inl e, t')" for e
  proof (cases t)
    case (UdpInstance u)
    then obtain u' where "udp_base_announce (tn_udp net) u = (Inl e, u')" "t' = UdpInstance u'"
      using r by (cases "udp_base_announce (tn_udp net) u") auto
    then show ?thesis using udp.failure UdpInstance by simp
  next
    case (HttpInstance h)
    then obtain h' where "http_announce (tn_http net) h = (Inl e, h')" "t' = HttpInstance h'"
      using r by (cases "http_announce (tn_http net) h") auto
    then show ?thesis using http.failure HttpInstance by simp
  qed
  show "ti_interval (ti_update u t) = ti_interval t \<and> ti_stats (ti_update u t) = ti_stats t" for u
    using udp.update_keeps http.update_keeps by (cases t) simp_all
qed

section \<open>The actor\<close>

record tracker_settings =
  tse_initial_announce_delay :: duration
  tse_fallback_announce_interval :: duration
  tse_minimum_announce_interval :: duration
  tse_maximum_announce_interval :: duration
  tse_default_peer_addr :: socket_addr
  tse_http_compact_response :: bool
  tse_udp :: udp_settings

datatype tracker_effect =
    TellAnnounce "wire_peer list" tracker
  | SetTimer duration
  | AbortTimer duration

record tracker_actor =
  tka_source :: tracker
  tka_tracker :: tracker_instance
  tka_next_announce :: "duration option"
  tka_settings :: tracker_settings

datatype tracker_start_error = InitializationFailed string | UnsupportedProtocol string | SupervisorCommunicationFailed

record tracker_args =
  tar_tracker :: tracker
  tar_peer_id :: peer_id
  tar_socket_addr :: socket_addr
  tar_info_hash :: "hash option"
  tar_initial_left :: "nat option"
  tar_settings :: tracker_settings

text \<open>
  Making the instance: \<open>resolve\<close> says whether the host of a UDP tracker has an IPv4 address, and the
  info hash is what the torrent answered, if it did.
\<close>

definition make_instance :: "tracker_net \<Rightarrow> (string \<Rightarrow> bool) \<Rightarrow> hash \<Rightarrow> tracker_args \<Rightarrow> tracker_start_error + tracker_instance" where
  "make_instance net resolve info_hash args =
     (case tar_tracker args of
        Udp uri \<Rightarrow>
          if \<not> resolve uri then Inl (InitializationFailed (''UDP: '' @ uri))
          else (case udp_initialize (tn_udp net) 0 (udp_tracker_new (tar_peer_id args) info_hash (tar_socket_addr args) (tse_udp (tar_settings args))) of
                  (Inl _, _) \<Rightarrow> Inl (InitializationFailed (''UDP: '' @ uri))
                | (Inr _, t) \<Rightarrow> Inr (UdpInstance t))
      | Http uri \<Rightarrow>
          Inr (HttpInstance (http_tracker_new [] (tse_default_peer_addr (tar_settings args)) (tse_http_compact_response (tar_settings args))
            uri info_hash (Some (tar_peer_id args)) (Some (tar_socket_addr args))))
      | Websocket uri \<Rightarrow> Inl (UnsupportedProtocol uri))"

definition tracker_start :: "tracker_net \<Rightarrow> (string \<Rightarrow> bool) \<Rightarrow> bool \<Rightarrow> tracker_args \<Rightarrow> tracker_start_error + (tracker_actor \<times> tracker_effect list)" where
  "tracker_start net resolve scheduler_up args =
     (case tar_info_hash args of
        None \<Rightarrow> Inl SupervisorCommunicationFailed
      | Some info_hash \<Rightarrow>
          (case make_instance net resolve info_hash args of
             Inl e \<Rightarrow> Inl e
           | Inr t \<Rightarrow>
               let t1 = (case tar_initial_left args of None \<Rightarrow> t | Some n \<Rightarrow> ti_update (UpdLeft n) t);
                   delay = tse_initial_announce_delay (tar_settings args)
               in if \<not> scheduler_up then Inl SupervisorCommunicationFailed
                  else Inr (\<lparr>tka_source = tar_tracker args, tka_tracker = t1, tka_next_announce = Some delay,
                             tka_settings = tar_settings args\<rparr>, [SetTimer delay])))"

definition U32_MAX :: nat where "U32_MAX = 2 ^ 32 - 1"

definition announce_delay :: "tracker_settings \<Rightarrow> nat \<Rightarrow> duration" where
  "announce_delay s interval =
     (let delay = (if interval = usize_max \<or> interval = U32_MAX then tse_fallback_announce_interval s else 1000 * interval);
          maximum = max (tse_maximum_announce_interval s) (tse_minimum_announce_interval s)
      in min (max delay (tse_minimum_announce_interval s)) maximum)"

definition schedule_next_announce :: "bool \<Rightarrow> tracker_actor \<Rightarrow> tracker_actor \<times> tracker_effect list" where
  "schedule_next_announce scheduler_up a =
     (let delay = announce_delay (tka_settings a) (ti_interval (tka_tracker a));
          aborted = (case tka_next_announce a of None \<Rightarrow> [] | Some d \<Rightarrow> [AbortTimer d])
      in if scheduler_up then (a\<lparr>tka_next_announce := Some delay\<rparr>, aborted @ [SetTimer delay])
         else (a\<lparr>tka_next_announce := None\<rparr>, aborted))"

definition tracker_announce :: "tracker_net \<Rightarrow> bool \<Rightarrow> tracker_actor \<Rightarrow> tracker_actor \<times> tracker_effect list" where
  "tracker_announce net scheduler_up a =
     (let (res, t) = ti_announce net (tka_tracker a);
          told = (case res of Inr peers \<Rightarrow> [TellAnnounce peers (tka_source a)] | Inl _ \<Rightarrow> []);
          (a1, es) = schedule_next_announce scheduler_up (a\<lparr>tka_tracker := t\<rparr>)
      in (a1, told @ es))"

definition tracker_handle_update :: "tracker_update \<Rightarrow> tracker_actor \<Rightarrow> tracker_actor" where
  "tracker_handle_update u a = a\<lparr>tka_tracker := ti_update u (tka_tracker a)\<rparr>"

text \<open>
  Stopping: \<open>dropped\<close> is None when the final announce ends in time, and otherwise the tracker as the cancelled
  announce left it.
\<close>

definition tracker_stop :: "tracker_net \<Rightarrow> tracker_instance option \<Rightarrow> tracker_actor \<Rightarrow> tracker_actor \<times> tracker_effect list" where
  "tracker_stop net dropped a =
     (a\<lparr>tka_next_announce := None, tka_tracker := (case dropped of None \<Rightarrow> snd (ti_stop net (tka_tracker a)) | Some t \<Rightarrow> t)\<rparr>,
      case tka_next_announce a of None \<Rightarrow> [] | Some d \<Rightarrow> [AbortTimer d])"

section \<open>Scheduling\<close>

text \<open>
  The next announce is always scheduled, and never too soon or too late. Whether an announce
  succeeds or fails, the actor replaces its timer by exactly one, whose delay is at least the minimum
  interval and at most the larger of the maximum and the minimum; it is the interval the tracker asked
  for whenever that lies between them, and the fallback, brought into the same range, while the tracker has not given one.
\<close>

theorem announce_rescheduled_in_bounds:
  assumes "tracker_announce net True a = (a', es)"
  shows "\<exists>d. tka_next_announce a' = Some d \<and> filter (\<lambda>e. \<exists>d. e = SetTimer d) es = [SetTimer d] \<and>
    tse_minimum_announce_interval (tka_settings a) \<le> d \<and>
    d \<le> max (tse_maximum_announce_interval (tka_settings a)) (tse_minimum_announce_interval (tka_settings a)) \<and>
    (let i = ti_interval (tka_tracker a') in
      (i \<noteq> usize_max \<and> i \<noteq> U32_MAX \<and> tse_minimum_announce_interval (tka_settings a) \<le> 1000 * i \<and>
         1000 * i \<le> tse_maximum_announce_interval (tka_settings a) \<longrightarrow> d = 1000 * i) \<and>
      (i = usize_max \<or> i = U32_MAX \<longrightarrow> d = min (max (tse_fallback_announce_interval (tka_settings a)) (tse_minimum_announce_interval (tka_settings a)))
         (max (tse_maximum_announce_interval (tka_settings a)) (tse_minimum_announce_interval (tka_settings a)))))"
  using assms
  by (auto simp: tracker_announce_def schedule_next_announce_def announce_delay_def Let_def split: prod.splits sum.splits option.splits)

section \<open>Runs\<close>

datatype tracker_msg = MsgAnnounce tracker_net bool | MsgUpdate tracker_update

fun tracker_run :: "tracker_msg list \<Rightarrow> tracker_actor \<Rightarrow> tracker_actor \<times> tracker_effect list" where
  "tracker_run [] a = (a, [])"
| "tracker_run (MsgAnnounce net scheduler_up # ms) a =
     (let (a1, es) = tracker_announce net scheduler_up a; (a2, es') = tracker_run ms a1 in (a2, es @ es'))"
| "tracker_run (MsgUpdate u # ms) a = tracker_run ms (tracker_handle_update u a)"

primrec msg_op :: "tracker_msg \<Rightarrow> tracker_net tracker_op" where
  "msg_op (MsgAnnounce net _) = OpAnnounce net"
| "msg_op (MsgUpdate u) = OpUpdate u"

primrec told_peers :: "tracker_effect \<Rightarrow> wire_peer list" where
  "told_peers (TellAnnounce peers _) = peers"
| "told_peers (SetTimer _) = []"
| "told_peers (AbortTimer _) = []"

lemma announce_tells:
  assumes "tracker_announce net up a = (a', es)" and "ti_announce net (tka_tracker a) = (res, t)"
  shows "tka_tracker a' = t" and "tka_source a' = tka_source a" and "tka_settings a' = tka_settings a"
    and "concat (map told_peers es) = (case res of Inl _ \<Rightarrow> [] | Inr peers \<Rightarrow> peers)"
    and "TellAnnounce peers src \<in> set es \<Longrightarrow> src = tka_source a"
  using assms by (auto simp: tracker_announce_def schedule_next_announce_def Let_def split: sum.splits option.splits if_splits)

lemma run_refines:
  "tracker_run ms a = (a', es) \<Longrightarrow>
     run_ops ti_announce ti_update (map msg_op ms) (tka_tracker a) = (concat (map told_peers es), tka_tracker a') \<and>
     tka_source a' = tka_source a \<and> (\<forall>peers src. TellAnnounce peers src \<in> set es \<longrightarrow> src = tka_source a)"
proof (induction ms arbitrary: a a' es)
  case (Cons m ms)
  show ?case
  proof (cases m)
    case (MsgUpdate u)
    then show ?thesis using Cons.IH [of "tracker_handle_update u a" a' es] Cons.prems by (simp add: tracker_handle_update_def)
  next
    case (MsgAnnounce net up)
    obtain a1 es1 where r: "tracker_announce net up a = (a1, es1)" by force
    obtain a2 es2 where r2: "tracker_run ms a1 = (a2, es2)" by force
    obtain res t where t: "ti_announce net (tka_tracker a) = (res, t)" by force
    have eqs: "a' = a2" "es = es1 @ es2" using Cons.prems r r2 MsgAnnounce by simp_all
    show ?thesis
      using Cons.IH [OF r2] announce_tells [OF r t] MsgAnnounce t by (auto simp: eqs)
  qed
qed simp

lemma started_fresh:
  assumes "tracker_start net resolve up args = Inr (a, es)"
  shows "ti_stats (tka_tracker a) = stats_default" and "tka_source a = tar_tracker args"
proof -
  obtain h t where h: "tar_info_hash args = Some h" and t: "make_instance net resolve h args = Inr t" and
    a: "tka_tracker a = (case tar_initial_left args of None \<Rightarrow> t | Some n \<Rightarrow> ti_update (UpdLeft n) t)" "tka_source a = tar_tracker args"
    using assms by (auto simp: tracker_start_def Let_def split: option.splits sum.splits if_splits)
  have conn: "ut_stats t1 = ut_stats t0" if "udp_initialize n k t0 = (r, t1)" for n k t0 r t1
    using that connect_frame(1) by (auto simp: udp_initialize_def split: prod.splits sum.splits)
  have "ti_stats t = stats_default"
    using t conn by (fastforce simp: make_instance_def udp_tracker_new_def http_tracker_new_def split: tracker.splits if_splits prod.splits sum.splits)
  then show "ti_stats (tka_tracker a) = stats_default" using a(1) inst.update_keeps by (simp split: option.split)
  show "tka_source a = tar_tracker args" by (rule a(2))
qed

text \<open>
  The statistics of a tracker are what it told the torrent. From the start of the actor, whatever
  announces succeed or fail and whatever updates arrive in between, the peers counted are exactly
  those passed on to the torrent, each batch under the tracker the torrent was given, and no more
  announces are counted as successful than were attempted.
\<close>

theorem tracker_reports_counted:
  assumes "tracker_start net resolve up args = Inr (a0, es0)" and "tracker_run ms a0 = (a, es)"
  shows "tst_peers (ti_stats (tka_tracker a)) = length (concat (map told_peers es)) \<and>
    tst_successes (ti_stats (tka_tracker a)) \<le> tst_attempts (ti_stats (tka_tracker a)) \<and>
    (\<forall>peers src. TellAnnounce peers src \<in> set es \<longrightarrow> src = tar_tracker args)"
  using run_refines [OF assms(2)] inst.run_counts_fresh started_fresh [OF assms(1)] by metis

text \<open>
  Announce URIs. Exactly the schemes http, https, udp, ws and wss are accepted, the tracker keeps
  the URI it was given, and a tracker that is not UDP or HTTP never starts.
\<close>

theorem tracker_uri_classified:
  "(case tracker_from_uri uri of
      Inl (MissingScheme u) \<Rightarrow> u = uri \<and> \<not> (\<exists>scheme rest. CHR '':'' \<notin> set scheme \<and> uri = scheme @ ''://'' @ rest)
    | Inl (UnsupportedScheme scheme) \<Rightarrow> \<exists>rest. uri = scheme @ ''://'' @ rest \<and> scheme \<notin> {''http'', ''https'', ''udp'', ''ws'', ''wss''}
    | Inr tr \<Rightarrow> tracker_uri tr = uri \<and> (\<exists>scheme rest. uri = scheme @ ''://'' @ rest \<and> scheme \<in> {''http'', ''https'', ''udp'', ''ws'', ''wss''})) \<and>
   (tar_tracker args = Websocket uri \<longrightarrow> tracker_start net resolve up args \<noteq> Inr r)"
proof (intro conjI impI)
  show "tracker_start net resolve up args \<noteq> Inr r" if "tar_tracker args = Websocket uri"
    using that by (auto simp: tracker_start_def make_instance_def split: option.splits)
  show "case tracker_from_uri uri of
      Inl (MissingScheme u) \<Rightarrow> u = uri \<and> \<not> (\<exists>scheme rest. CHR '':'' \<notin> set scheme \<and> uri = scheme @ ''://'' @ rest)
    | Inl (UnsupportedScheme scheme) \<Rightarrow> \<exists>rest. uri = scheme @ ''://'' @ rest \<and> scheme \<notin> {''http'', ''https'', ''udp'', ''ws'', ''wss''}
    | Inr tr \<Rightarrow> tracker_uri tr = uri \<and> (\<exists>scheme rest. uri = scheme @ ''://'' @ rest \<and> scheme \<in> {''http'', ''https'', ''udp'', ''ws'', ''wss''})"
  proof (cases "split_scheme uri")
    case None
    have "tracker_from_uri uri = Inl (MissingScheme uri)" using None by (simp add: tracker_from_uri_def)
    moreover have False if "CHR '':'' \<notin> set scheme" "uri = scheme @ ''://'' @ rest" for scheme rest
      using split_scheme_append [OF that(1), of rest] None unfolding that(2) by (metis option.distinct(1))
    ultimately show ?thesis by (simp only: sum.case uri_error.case) blast
  next
    case (Some scheme)
    obtain rest where rest: "uri = scheme @ ''://'' @ rest" using split_scheme_Some [OF Some] by blast
    let ?known = "{''http'', ''https'', ''udp'', ''ws'', ''wss''}"
    show ?thesis
    proof (cases "scheme \<in> ?known")
      case True
      then obtain tr where "tracker_from_uri uri = Inr tr" "tracker_uri tr = uri"
        using Some by (simp add: tracker_from_uri_def) (metis tracker_uri.simps)
      moreover have "\<exists>scheme rest. uri = scheme @ ''://'' @ rest \<and> scheme \<in> ?known" using True rest by blast
      ultimately show ?thesis by (simp only: sum.case)
    next
      case False
      then have "tracker_from_uri uri = Inl (UnsupportedScheme scheme)" using Some by (simp add: tracker_from_uri_def)
      then show ?thesis using rest False by (simp only: sum.case uri_error.case) blast
    qed
  qed
qed

section \<open>A concrete actor\<close>

definition demo_tracker_settings :: tracker_settings where
  "demo_tracker_settings = \<lparr>tse_initial_announce_delay = 0, tse_fallback_announce_interval = 1800000, tse_minimum_announce_interval = 60000,
     tse_maximum_announce_interval = 7200000, tse_default_peer_addr = demo_peer, tse_http_compact_response = True, tse_udp = demo_settings\<rparr>"

definition demo_net :: tracker_net where
  "demo_net = \<lparr>tn_udp = good_net, tn_http = demo_http_net, tn_in_time = True\<rparr>"

definition demo_tracker_actor :: tracker_actor where
  "demo_tracker_actor = \<lparr>tka_source = Http ''http://t.org/a'', tka_tracker = HttpInstance demo_http, tka_next_announce = Some 0, tka_settings = demo_tracker_settings\<rparr>"

definition demo_args :: tracker_args where
  "demo_args = \<lparr>tar_tracker = Http ''http://t.org/a'', tar_peer_id = replicate 20 3, tar_socket_addr = demo_peer, tar_info_hash = Some (replicate 20 200),
     tar_initial_left = Some 5, tar_settings = demo_tracker_settings\<rparr>"

theorem announce_rescheduled_in_bounds_witness:
  "\<exists>d. tka_next_announce (fst (tracker_announce demo_net True demo_tracker_actor)) = Some d \<and> 60000 \<le> d \<and> d \<le> 7200000"
  using announce_rescheduled_in_bounds [OF prod.collapse [symmetric], of demo_net demo_tracker_actor]
  by (auto simp: demo_tracker_actor_def demo_tracker_settings_def)

theorem tracker_reports_counted_witness:
  "\<exists>a0 es0. tracker_start demo_net (\<lambda>_. True) True demo_args = Inr (a0, es0) \<and>
     tst_peers (ti_stats (tka_tracker (fst (tracker_run [MsgUpdate (UpdLeft 3), MsgAnnounce demo_net True] a0)))) =
       length (concat (map told_peers (snd (tracker_run [MsgUpdate (UpdLeft 3), MsgAnnounce demo_net True] a0))))"
proof -
  obtain a0 es0 where s: "tracker_start demo_net (\<lambda>_. True) True demo_args = Inr (a0, es0)"
    by (simp add: tracker_start_def demo_args_def make_instance_def Let_def)
  then show ?thesis using tracker_reports_counted [OF s prod.collapse [symmetric]] by blast
qed

theorem tracker_uri_classified_witness:
  "tracker_from_uri ''udp://t'' = Inr (Udp ''udp://t'') \<and> tracker_uri (Udp ''udp://t'') = ''udp://t''"
proof -
  have "tracker_from_uri ''udp://t'' = Inr (Udp ''udp://t'')"
    using split_scheme_append [of "''udp''" "''t''"] by (simp add: tracker_from_uri_def)
  then show ?thesis using tracker_uri_classified [of "''udp://t''"] by simp
qed

end
