(* ===== verification/Torrent_Handle.thy ===== *)
theory Torrent_Handle
  imports Engine_Live Connections Tracker_Actor
begin

text \<open>
  The public handle of a torrent, \<^verbatim>\<open>torrent/handle.rs\<close>, with the error mapping of \<^verbatim>\<open>errors.rs\<close> and the tracker commands of
  the torrent actor together with their live scopes (\<^verbatim>\<open>torrent/swarm.rs\<close>, \<^verbatim>\<open>torrent/messages.rs\<close>). Each method asks the
  actor and waits. Whether the message reaches the actor, and whether its reply comes back, is an argument;
  so is what the state commands publish on the hub while they run, a list of actor states and events. The
  engine of the handle exists, so the hub can be reached. Parsing of URLs is a parameter.
\<close>

section \<open>Asking the actor\<close>

datatype delivery = Delivered | NotDelivered string | ReplyLost string

datatype 'e send_error = HandlerError 'e | Undelivered string

definition map_torrent_send_error :: "string \<Rightarrow> torrent_error send_error \<Rightarrow> torrent_error" where
  "map_torrent_send_error operation error = (case error of HandlerError e \<Rightarrow> e | Undelivered _ \<Rightarrow> ActorCommunicationFailed)"

definition map_engine_send_error :: "string \<Rightarrow> engine_error send_error \<Rightarrow> engine_error" where
  "map_engine_send_error operation error = (case error of HandlerError e \<Rightarrow> e | Undelivered _ \<Rightarrow> EngineCommunicationFailed operation)"

definition map_torrent_communication_error :: "string \<Rightarrow> 'e send_error \<Rightarrow> torrent_error" where
  "map_torrent_communication_error operation error = ActorCommunicationFailed"

text \<open>Besides the errors of the actor: an unknown tracker is reported with the endpoint of the handle, a failed connection with its cause.\<close>

datatype handle_error =
    TorrentFailed torrent_error
  | TrackerGone string
  | AddPeerFailed connection_error

type_synonym world = "torrent_actor \<times> hub"

type_synonym ('e, 'a) answer = "('e + 'a) \<times> world \<times> torrent_effect list"

definition ask :: "delivery \<Rightarrow> string \<Rightarrow> (world \<Rightarrow> (torrent_error, 'a) answer) \<Rightarrow> world \<Rightarrow> (handle_error, 'a) answer" where
  "ask d operation handler w =
     (case d of
        NotDelivered reason \<Rightarrow> (Inl (TorrentFailed (map_torrent_send_error operation (Undelivered reason))), w, [])
      | ReplyLost reason \<Rightarrow>
          (case handler w of (_, w', es) \<Rightarrow> (Inl (TorrentFailed (map_torrent_send_error operation (Undelivered reason))), w', es))
      | Delivered \<Rightarrow>
          (case handler w of
             (Inl e, w', es) \<Rightarrow> (Inl (TorrentFailed (map_torrent_send_error operation (HandlerError e))), w', es)
           | (Inr x, w', es) \<Rightarrow> (Inr x, w', es)))"

section \<open>State commands\<close>

type_synonym publications = "(torrent_actor \<times> (torrent_view \<Rightarrow> torrent_event)) list"

definition publish_all :: "publications \<Rightarrow> hub \<Rightarrow> hub" where
  "publish_all ps H = fold (\<lambda>(t, event). publish_live_view t event) ps H"

definition handle_set_piece_storage :: "delivery \<Rightarrow> torrent_env \<Rightarrow> publications \<Rightarrow> storage_strategy \<Rightarrow> world \<Rightarrow> (handle_error, unit) answer" where
  "handle_set_piece_storage d env ps strategy =
     ask d ''set piece storage'' (\<lambda>(t, H). case set_piece_storage env strategy t of (r, t') \<Rightarrow> (r, (t', publish_all ps H), []))"

definition handle_set_output_folder :: "delivery \<Rightarrow> torrent_env \<Rightarrow> publications \<Rightarrow> rel_path \<Rightarrow> world \<Rightarrow> (handle_error, unit) answer" where
  "handle_set_output_folder d env ps folder =
     ask d ''set output folder'' (\<lambda>(t, H). case set_output_path env folder t of (r, t') \<Rightarrow> (r, (t', publish_all ps H), []))"

definition handle_set_piece_manager :: "delivery \<Rightarrow> torrent_env \<Rightarrow> publications \<Rightarrow> world \<Rightarrow> (handle_error, unit) answer" where
  "handle_set_piece_manager d env ps =
     ask d ''set piece manager'' (\<lambda>(t, H). case set_piece_manager env t of (r, t') \<Rightarrow> (r, (t', publish_all ps H), []))"

definition ask_action :: "delivery \<Rightarrow> string \<Rightarrow> publications \<Rightarrow> torrent_action \<Rightarrow> world \<Rightarrow> (handle_error, unit) answer" where
  "ask_action d operation ps action = ask d operation (\<lambda>(t, H). case action t of (t', es) \<Rightarrow> (Inr (), (t', publish_all ps H), es))"

definition handle_set_state :: "delivery \<Rightarrow> torrent_env \<Rightarrow> publications \<Rightarrow> torrent_state \<Rightarrow> string \<Rightarrow> world \<Rightarrow> (handle_error, unit) answer" where
  "handle_set_state d env ps state operation = ask_action d operation ps (set_state env state)"

definition handle_start :: "delivery \<Rightarrow> torrent_env \<Rightarrow> publications \<Rightarrow> world \<Rightarrow> (handle_error, unit) answer" where
  "handle_start d env ps = handle_set_state d env ps Downloading ''start''"

definition handle_resume :: "delivery \<Rightarrow> torrent_env \<Rightarrow> publications \<Rightarrow> world \<Rightarrow> (handle_error, unit) answer" where
  "handle_resume d env ps = handle_start d env ps"

definition handle_pause :: "delivery \<Rightarrow> torrent_env \<Rightarrow> publications \<Rightarrow> world \<Rightarrow> (handle_error, unit) answer" where
  "handle_pause d env ps = handle_set_state d env ps Paused ''pause''"

definition handle_stop :: "delivery \<Rightarrow> torrent_env \<Rightarrow> publications \<Rightarrow> world \<Rightarrow> (handle_error, unit) answer" where
  "handle_stop d env ps = handle_set_state d env ps Paused ''stop''"

definition handle_set_auto_start :: "delivery \<Rightarrow> torrent_env \<Rightarrow> publications \<Rightarrow> bool \<Rightarrow> world \<Rightarrow> (handle_error, unit) answer" where
  "handle_set_auto_start d env ps auto = ask_action d ''set auto start'' ps (set_auto_start env auto)"

definition handle_set_sufficient_peers :: "delivery \<Rightarrow> torrent_env \<Rightarrow> publications \<Rightarrow> nat \<Rightarrow> world \<Rightarrow> (handle_error, unit) answer" where
  "handle_set_sufficient_peers d env ps peers = ask_action d ''set sufficient peers'' ps (set_sufficient_peers env peers)"

definition handle_state :: "delivery \<Rightarrow> world \<Rightarrow> (handle_error, torrent_state) answer" where
  "handle_state d = ask d ''get state'' (\<lambda>(t, H). (Inr (ta_state t), (t, H), []))"

definition handle_snapshot :: "delivery \<Rightarrow> world \<Rightarrow> (handle_error, torrent_snapshot) answer" where
  "handle_snapshot d =
     ask d ''snapshot torrent'' (\<lambda>(t, H). (case torrent_snapshot_of t of Inl _ \<Rightarrow> Inl SnapshotUnsupported | Inr s \<Rightarrow> Inr s, (t, H), []))"

text \<open>After the hook is registered the call waits for it; \<open>fired\<close> is whether it fires or is dropped.\<close>

definition handle_poll_ready :: "delivery \<Rightarrow> torrent_env \<Rightarrow> publications \<Rightarrow> bool \<Rightarrow> world \<Rightarrow> (handle_error, unit) answer" where
  "handle_poll_ready d env ps fired w =
     (case ask_action d ''register ready hook'' ps (ready_hook env) w of
        (Inl e, w', es) \<Rightarrow> (Inl e, w', es)
      | (Inr _, w', es) \<Rightarrow> (if fired then Inr () else Inl (TorrentFailed ActorCommunicationFailed), w', es))"

definition handle_force_reannounce :: "delivery \<Rightarrow> torrent_env \<Rightarrow> world \<Rightarrow> (handle_error, nat) answer" where
  "handle_force_reannounce d env =
     ask d ''force tracker reannounce'' (\<lambda>(t, H). case force_reannounce env t of (r, es) \<Rightarrow> (r, (t, H), es))"

section \<open>Endpoints\<close>

record url_parts =
  url_scheme :: string
  url_host :: "string option"
  url_port :: "nat option"

primrec tracker_scheme :: "tracker \<Rightarrow> string" where
  "tracker_scheme (Http _) = ''http''"
| "tracker_scheme (Udp _) = ''udp''"
| "tracker_scheme (Websocket _) = ''websocket''"

definition redacted_endpoint :: "(string \<Rightarrow> url_parts option) \<Rightarrow> tracker \<Rightarrow> string" where
  "redacted_endpoint parse tr =
     (case parse (tracker_uri tr) of
        None \<Rightarrow> tracker_scheme tr
      | Some url \<Rightarrow>
          (case url_host url of
             None \<Rightarrow> tracker_scheme tr
           | Some host \<Rightarrow>
               url_scheme url @ ''://'' @ (if CHR '':'' \<in> set host then ''['' @ host @ '']'' else host) @
               (case url_port url of None \<Rightarrow> [] | Some p \<Rightarrow> '':'' @ show_nat p) @ ''/''))"

section \<open>Trackers\<close>

definition tracker_metrics_default :: tracker_metrics where
  "tracker_metrics_default = \<lparr>tmx_transfer = metrics_default, tmx_attempts = 0, tmx_successes = 0, tmx_peers = 0, tmx_latest_peers = None\<rparr>"

definition live_register_tracker :: "(string \<Rightarrow> url_parts option) \<Rightarrow> tracker \<Rightarrow> world \<Rightarrow> (torrent_error, address) answer" where
  "live_register_tracker parse tr w =
     (case w of (t, H) \<Rightarrow>
        (case register_tracker_actor tr t of
           (Inl e, t1) \<Rightarrow> (Inl e, (t1, H), [])
         | (Inr _, t1) \<Rightarrow>
             let (a, H1) = register_tracker_scope (ta_info_hash t) tr
                   \<lparr>tkv_endpoint = redacted_endpoint parse tr, tkv_status = StatusPending, tkv_metrics = tracker_metrics_default\<rparr> H
             in (Inr a, (t1, publish_updated t1 H1), [])))"

definition live_remove_tracker :: "torrent_env \<Rightarrow> tracker \<Rightarrow> world \<Rightarrow> (torrent_error, unit) answer" where
  "live_remove_tracker env tr w =
     (case w of (t, H) \<Rightarrow>
        (case remove_tracker env tr t of
           (Inl e, t1, es) \<Rightarrow> (Inl e, (t1, H), es)
         | (Inr _, t1, es) \<Rightarrow>
             let H1 = (case tracker_handle (ta_info_hash t) tr H of None \<Rightarrow> H | Some a \<Rightarrow> tracker_stopped a H)
             in (Inr (), (t1, publish_updated t1 H1), es)))"

definition tracker_endpoint :: "address \<Rightarrow> hub \<Rightarrow> string" where
  "tracker_endpoint a H = tkv_endpoint (pub_view (tsc_pub (hub_trackers H ! a)))"

definition handle_tracker_source :: "torrent_handle \<Rightarrow> address \<Rightarrow> string \<Rightarrow> hub \<Rightarrow> handle_error + tracker" where
  "handle_tracker_source hn a operation H =
     (case ensure_torrent_identity hn (tsc_torrent (hub_trackers H ! a)) operation of
        Inl e \<Rightarrow> Inl (TorrentFailed e)
      | Inr _ \<Rightarrow> (case tracker_source a H of None \<Rightarrow> Inl (TrackerGone (tracker_endpoint a H)) | Some tr \<Rightarrow> Inr tr))"

definition handle_add_tracker :: "delivery \<Rightarrow> (string \<Rightarrow> url_parts option) \<Rightarrow> tracker \<Rightarrow> world \<Rightarrow> (handle_error, address) answer" where
  "handle_add_tracker d parse tr = ask d ''add tracker'' (live_register_tracker parse tr)"

definition handle_remove_tracker :: "delivery \<Rightarrow> torrent_env \<Rightarrow> torrent_handle \<Rightarrow> address \<Rightarrow> world \<Rightarrow> (handle_error, unit) answer" where
  "handle_remove_tracker d env hn a w =
     (case handle_tracker_source hn a ''remove tracker'' (snd w) of
        Inl e \<Rightarrow> (Inl e, w, [])
      | Inr tr \<Rightarrow> ask d ''remove tracker'' (live_remove_tracker env tr) w)"

definition handle_reannounce_tracker :: "delivery \<Rightarrow> torrent_env \<Rightarrow> torrent_handle \<Rightarrow> address \<Rightarrow> world \<Rightarrow> (handle_error, unit) answer" where
  "handle_reannounce_tracker d env hn a w =
     (case handle_tracker_source hn a ''reannounce tracker'' (snd w) of
        Inl e \<Rightarrow> (Inl e, w, [])
      | Inr tr \<Rightarrow> ask d ''reannounce tracker'' (\<lambda>(t, H). case reannounce_tracker env tr t of (r, es) \<Rightarrow> (r, (t, H), es)) w)"

section \<open>Peers and views\<close>

text \<open>
  The connection runs in a task of its own and registers the peer when its handshake is done; \<open>w\<close> is the torrent at
  that moment, and \<open>answered\<close> whether the task lives long enough to answer.
\<close>

definition await_delegated :: "bool \<Rightarrow> (handle_error, 'a) answer \<Rightarrow> (handle_error, 'a) answer" where
  "await_delegated answered r = (if answered then r else (Inl (TorrentFailed ActorCommunicationFailed), snd r))"

definition live_peer_connection :: "nat \<Rightarrow> peer_id \<Rightarrow> wire_peer \<Rightarrow> connection_net \<Rightarrow> world \<Rightarrow> (handle_error, address) answer" where
  "live_peer_connection seconds our_id peer net w =
     (case connection_task seconds (ta_info_hash (fst w)) our_id peer None net of
        Inl e \<Rightarrow> (Inl (AddPeerFailed e), w, [])
      | Inr ((addr, i), _) \<Rightarrow>
          (case live_insert_peer addr i w of (r, w') \<Rightarrow> (case r of Inl e \<Rightarrow> Inl (TorrentFailed e) | Inr a \<Rightarrow> Inr a, w', [])))"

definition handle_add_peer ::
  "delivery \<Rightarrow> bool \<Rightarrow> nat \<Rightarrow> peer_id \<Rightarrow> socket_addr \<Rightarrow> connection_net \<Rightarrow> world \<Rightarrow> (handle_error, address) answer" where
  "handle_add_peer d answered seconds our_id addr net w =
     (case d of
        NotDelivered reason \<Rightarrow> (Inl (TorrentFailed (map_torrent_communication_error ''add peer'' (Undelivered reason :: torrent_error send_error))), w, [])
      | ReplyLost reason \<Rightarrow>
          (Inl (TorrentFailed (map_torrent_communication_error ''add peer'' (Undelivered reason :: torrent_error send_error))),
           snd (live_peer_connection seconds our_id (addr, None) net w))
      | Delivered \<Rightarrow> await_delegated answered (live_peer_connection seconds our_id (addr, None) net w))"

definition handle_view :: "torrent_handle \<Rightarrow> hub \<Rightarrow> torrent_view option" where
  "handle_view hn H = pub_view (torrent_pub H (snd hn))"

definition handle_peers :: "torrent_handle \<Rightarrow> hub \<Rightarrow> address list" where
  "handle_peers hn H = peer_handles (fst hn) H"

definition handle_trackers :: "torrent_handle \<Rightarrow> hub \<Rightarrow> address list" where
  "handle_trackers hn H = tracker_handles (fst hn) H"

section \<open>The life of a tracker\<close>

lemma trackers_publish [simp]:
  "hub_trackers (publish s ev r H) = hub_trackers H" "hub_trackers (emit_tracker_event a e H) = hub_trackers H"
  "hub_trackers (publish_live_view t f H) = hub_trackers H" "hub_torrents (publish_live_view t f H) = hub_torrents H"
  "hub_trackers (snd (ensure_torrent_scope h H)) = hub_trackers H"
proof -
  show p: "hub_trackers (publish s ev r H) = hub_trackers H" for s ev r H by (auto simp: publish_def Let_def split: prod.split bool.split option.split)
  show "hub_trackers (emit_tracker_event a e H) = hub_trackers H"
    by (simp add: emit_tracker_event_def emit_without_torrent_view_change_def p split: option.split)
  show "hub_trackers (publish_live_view t f H) = hub_trackers H" "hub_torrents (publish_live_view t f H) = hub_torrents H"
    by (simp_all add: publish_live_view_def replace_torrent_view_and_emit_def p split: option.split)
  show "hub_trackers (snd (ensure_torrent_scope h H)) = hub_trackers H" by (simp add: ensure_torrent_scope_def Let_def split: option.split)
qed

definition configured :: "hash \<Rightarrow> hub \<Rightarrow> (tracker \<times> address) list" where
  "configured h H = (case scope_at H h of None \<Rightarrow> [] | Some s \<Rightarrow> sc_trackers s)"

lemma configured_simps:
  "tracker_handles h H = map snd (configured h H)" "tracker_handle h tr H = map_of (configured h H) tr"
  "tracker_source a H = key_for_value a (configured (tsc_torrent (hub_trackers H ! a)) H)"
  by (auto simp: tracker_handles_def tracker_handle_def tracker_source_def configured_def key_for_value_def split: option.split)

lemma configured_cong: "hub_torrents H' = hub_torrents H \<Longrightarrow> configured h H' = configured h H"
  by (simp add: configured_def)

lemma configured_bound:
  assumes "hub_inv H" and "(k, a) \<in> set (configured h H)"
  shows "a < length (hub_trackers H)"
  using assms(2) scope_peersD(4) [OF assms(1)] by (cases "scope_at H h") (auto simp: configured_def)

lemma update_new: "k \<notin> fst ` set al \<Longrightarrow> AList.update k v al = al @ [(k, v)]"
  by (induction al) auto

lemma delete_last: "k \<notin> fst ` set al \<Longrightarrow> AList.delete k (al @ [(k, v)]) = al"
  by (induction al) (auto simp: AList.delete_eq)

lemma key_last: "a \<notin> snd ` set al \<Longrightarrow> key_for_value a (al @ [(k, a)]) = Some k" "a \<notin> snd ` set al \<Longrightarrow> key_for_value a al = None"
  by (induction al) (auto simp: key_for_value_def)

text \<open>A tracker that has no scope gets the next one, at the end of the list.\<close>

lemma register_fresh:
  assumes "hub_inv H" and "map_of (configured h H) tr = None" and "register_tracker_scope h tr v H = (a, H')"
  shows "a = length (hub_trackers H)" and "configured h H' = configured h H @ [(tr, a)]"
    and "\<exists>i n. hub_trackers H' = hub_trackers H @ [\<lparr>tsc_torrent = h, tsc_id = i, tsc_pub = publisher_new v n\<rparr>]"
proof -
  obtain s H1 where e: "ensure_torrent_scope h H = (s, H1)" by force
  have s: "sc_trackers s = configured h H" "hub_trackers H1 = hub_trackers H"
    using e trackers_publish(5) [of h H] by (auto simp: ensure_torrent_scope_def configured_def Let_def split: option.splits)
  have r: "register_tracker_scope h tr v H = insert_tracker h tr v s H1" using e s assms(2) by (simp add: register_tracker_scope_def)
  have "AList.update tr b (configured h H) = configured h H @ [(tr, b)]" for b
    using assms(2) by (intro update_new) (simp add: map_of_eq_None_iff)
  then show "a = length (hub_trackers H)" "configured h H' = configured h H @ [(tr, a)]"
    "\<exists>i n. hub_trackers H' = hub_trackers H @ [\<lparr>tsc_torrent = h, tsc_id = i, tsc_pub = publisher_new v n\<rparr>]"
    using assms(3) s unfolding r by (auto simp: insert_tracker_def Let_def put_scope_def configured_def update_conv')
qed

lemma stopped_fresh:
  assumes "hub_inv H" and "hub_trackers H1 = hub_trackers H @ [\<lparr>tsc_torrent = h, tsc_id = i, tsc_pub = p\<rparr>]" and "\<not> pub_closed p"
    and "configured h H1 = configured h H @ [(tr, length (hub_trackers H))]" and "map_of (configured h H) tr = None"
    and a: "a = length (hub_trackers H)"
  shows "configured h (tracker_stopped a H1) = configured h H"
    and "\<exists>q. hub_trackers (tracker_stopped a H1) = hub_trackers H @ [\<lparr>tsc_torrent = h, tsc_id = i, tsc_pub = q\<rparr>] \<and>
      pub_closed q \<and> pub_view q = (pub_view p)\<lparr>tkv_status := StatusStopped\<rparr>"
proof -
  have new: "a \<notin> snd ` set (configured h H)" "tr \<notin> fst ` set (configured h H)"
    using configured_bound [OF assms(1)] assms(5) a by (force, simp add: map_of_eq_None_iff)
  obtain s where s: "scope_at H1 h = Some s" "sc_trackers s = configured h H @ [(tr, a)]"
    using assms(4) a by (cases "scope_at H1 h") (simp_all add: configured_def)
  let ?q = "snd (close_with_terminal_event ((pub_view p)\<lparr>tkv_status := StatusStopped\<rparr>) TkStopped p)"
  have "remove_value a (sc_trackers s) = configured h H" using new s(2) by (simp add: remove_value_def key_last delete_last)
  then have "hub_torrents (tracker_stopped a H1) = AList.update h (s\<lparr>sc_trackers := configured h H\<rparr>) (hub_torrents H1)"
    "hub_trackers (tracker_stopped a H1) = hub_trackers H @ [\<lparr>tsc_torrent = h, tsc_id = i, tsc_pub = ?q\<rparr>]"
    using assms(2) s a
    by (simp_all add: tracker_stopped_def close_tracker_eq remove_tracker_scope_def put_tracker_pub_def put_scope_def split: prod.split)
  then show "configured h (tracker_stopped a H1) = configured h H"
    "\<exists>q. hub_trackers (tracker_stopped a H1) = hub_trackers H @ [\<lparr>tsc_torrent = h, tsc_id = i, tsc_pub = q\<rparr>] \<and>
      pub_closed q \<and> pub_view q = (pub_view p)\<lparr>tkv_status := StatusStopped\<rparr>"
    using assms(3) by (simp add: configured_def update_conv', simp add: closed_ops view_ops)
qed

lemma add_fresh:
  assumes "hub_inv H" and "map_of (configured (ta_info_hash t) H) tr = None" and "register_tracker_actor tr t = (Inr (), t1)"
  obtains a H1 i p where "live_register_tracker parse tr (t, H) = (Inr a, (t1, H1), [])" and "a = length (hub_trackers H)"
    and "hub_trackers H1 = hub_trackers H @ [\<lparr>tsc_torrent = ta_info_hash t, tsc_id = i, tsc_pub = p\<rparr>]"
    and "configured (ta_info_hash t) H1 = configured (ta_info_hash t) H @ [(tr, a)]"
    and "\<not> pub_closed p" and "tkv_endpoint (pub_view p) = redacted_endpoint parse tr"
proof -
  let ?h = "ta_info_hash t" and ?v = "\<lparr>tkv_endpoint = redacted_endpoint parse tr, tkv_status = StatusPending, tkv_metrics = tracker_metrics_default\<rparr>"
  obtain a H0 where reg: "register_tracker_scope ?h tr ?v H = (a, H0)" by force
  note fresh = register_fresh [OF assms(1,2) reg]
  obtain i n where H0: "hub_trackers H0 = hub_trackers H @ [\<lparr>tsc_torrent = ?h, tsc_id = i, tsc_pub = publisher_new ?v n\<rparr>]" using fresh(3) by blast
  show ?thesis
  proof (rule that)
    show "live_register_tracker parse tr (t, H) = (Inr a, (t1, publish_updated t1 H0), [])" using assms(3) reg by (simp add: live_register_tracker_def)
    show "hub_trackers (publish_updated t1 H0) = hub_trackers H @ [\<lparr>tsc_torrent = ?h, tsc_id = i, tsc_pub = publisher_new ?v n\<rparr>]"
      using H0 by (simp add: publish_updated_def)
    show "configured ?h (publish_updated t1 H0) = configured ?h H @ [(tr, a)]" using fresh(2) configured_cong [of "publish_updated t1 H0" H0] by (simp add: publish_updated_def)
  qed (simp_all add: fresh(1) publisher_new_def)
qed

text \<open>Through the handle of a tracker at the end of the list, and through the handle of one that is not listed.\<close>

lemma source_cases:
  assumes "hub_trackers H' = hub_trackers H @ [\<lparr>tsc_torrent = fst hn, tsc_id = i, tsc_pub = p\<rparr>]" and "a = length (hub_trackers H)"
    and "a \<notin> snd ` set cs"
  shows "configured (fst hn) H' = cs @ [(tr, a)] \<Longrightarrow> handle_tracker_source hn a operation H' = Inr tr"
    and "configured (fst hn) H' = cs \<Longrightarrow> handle_tracker_source hn a operation H' = Inl (TrackerGone (tkv_endpoint (pub_view p)))"
  using assms by (simp_all add: handle_tracker_source_def ensure_torrent_identity_def configured_simps key_last tracker_endpoint_def)

text \<open>
  C22: the life of a tracker, seen through the handle of its torrent. Adding a tracker that is not configured
  gives a handle, which is listed from then on and shows the endpoint without credentials; adding it again is
  refused; an announce through the handle reaches the tracker; removing it takes it off the list, closes its
  stream in the stopped state and leaves the torrent as it was before; after that the handle is refused.
\<close>

theorem tracker_lifecycle:
  assumes "hub_reachable H" and "tr \<notin> set (ta_trackers t)" and "\<forall>uri. tr \<noteq> Websocket uri"
    and "tracker_handle (ta_info_hash t) tr H = None" and "fst hn = ta_info_hash t" and "env_tracker_accepts env tr"
  shows "\<exists>a t1 H1 H2 es.
    handle_add_tracker Delivered parse tr (t, H) = (Inr a, (t1, H1), []) \<and>
    handle_trackers hn H1 = handle_trackers hn H @ [a] \<and> tracker_endpoint a H1 = redacted_endpoint parse tr \<and>
    handle_add_tracker Delivered parse tr (t1, H1) = (Inl (TorrentFailed (TrackerAlreadyExists tr)), (t1, H1), []) \<and>
    handle_reannounce_tracker Delivered env hn a (t1, H1) = (Inr (), (t1, H1), [TrackerAnnounce tr]) \<and>
    handle_remove_tracker Delivered env hn a (t1, H1) = (Inr (), (t, H2), es) \<and>
    handle_trackers hn H2 = handle_trackers hn H \<and> pub_closed (tsc_pub (hub_trackers H2 ! a)) \<and>
    tkv_status (pub_view (tsc_pub (hub_trackers H2 ! a))) = StatusStopped \<and>
    handle_reannounce_tracker d env' hn a (t, H2) = (Inl (TrackerGone (redacted_endpoint parse tr)), (t, H2), []) \<and>
    handle_remove_tracker d env' hn a (t, H2) = (Inl (TrackerGone (redacted_endpoint parse tr)), (t, H2), [])"
proof -
  let ?h = "ta_info_hash t" and ?t1 = "t\<lparr>ta_trackers := ta_trackers t @ [tr]\<rparr>"
  note inv = reachable_inv [OF assms(1)]
  have none: "map_of (configured ?h H) tr = None" using assms(4) by (simp add: configured_simps)
  have add: "register_tracker_actor tr t = (Inr (), ?t1)" "register_tracker_actor tr ?t1 = (Inl (TrackerAlreadyExists tr), ?t1)"
    using assms(2,3) by (simp_all add: register_tracker_actor_def split: tracker.split)
  obtain a H1 i p where H1: "live_register_tracker parse tr (t, H) = (Inr a, (?t1, H1), [])" "a = length (hub_trackers H)"
    "hub_trackers H1 = hub_trackers H @ [\<lparr>tsc_torrent = ?h, tsc_id = i, tsc_pub = p\<rparr>]"
    "configured ?h H1 = configured ?h H @ [(tr, a)]" "\<not> pub_closed p" "tkv_endpoint (pub_view p) = redacted_endpoint parse tr"
    by (rule add_fresh [OF inv none add(1)])
  have new: "a \<notin> snd ` set (configured ?h H)" using configured_bound [OF inv] H1(2) by force
  have src: "handle_tracker_source hn a op H1 = Inr tr" for op using source_cases(1) [OF _ H1(2) new] H1(3,4) assms(5) by simp
  note st = stopped_fresh [OF inv H1(3,5) H1(4) [unfolded H1(2)] none H1(2)]
  let ?H2 = "publish_updated t (tracker_stopped a H1)"
  obtain q where H2: "hub_trackers ?H2 = hub_trackers H @ [\<lparr>tsc_torrent = ?h, tsc_id = i, tsc_pub = q\<rparr>]" "configured ?h ?H2 = configured ?h H"
    "pub_closed q" "pub_view q = (pub_view p)\<lparr>tkv_status := StatusStopped\<rparr>"
    using st configured_cong [of ?H2 "tracker_stopped a H1"] by (auto simp: publish_updated_def)
  have gone: "handle_tracker_source hn a op ?H2 = Inl (TrackerGone (redacted_endpoint parse tr))" for op
    using source_cases(2) [OF _ H1(2) new] H2 H1(6) assms(5) by simp
  obtain es where rem: "remove_tracker env tr ?t1 = (Inr (), t, es)"
    using assms(2,6) by (cases "env_tracker_alive env tr") (auto simp: remove_tracker_def Let_def)
  have "handle_add_tracker Delivered parse tr (t, H) = (Inr a, (?t1, H1), [])"
    "handle_add_tracker Delivered parse tr (?t1, H1) = (Inl (TorrentFailed (TrackerAlreadyExists tr)), (?t1, H1), [])"
    using H1(1) add(2) by (simp_all add: handle_add_tracker_def ask_def live_register_tracker_def map_torrent_send_error_def)
  moreover have "handle_reannounce_tracker Delivered env hn a (?t1, H1) = (Inr (), (?t1, H1), [TrackerAnnounce tr])"
    using src assms(6) by (simp add: handle_reannounce_tracker_def ask_def reannounce_tracker_def)
  moreover have "handle_remove_tracker Delivered env hn a (?t1, H1) = (Inr (), (t, ?H2), es)"
    using src rem H1(4) none by (simp add: handle_remove_tracker_def ask_def live_remove_tracker_def configured_simps map_add_def)
  moreover have "handle_trackers hn H1 = handle_trackers hn H @ [a]" "handle_trackers hn ?H2 = handle_trackers hn H"
    using H1(4) H2(2) assms(5) by (simp_all add: handle_trackers_def configured_simps)
  moreover have "tracker_endpoint a H1 = redacted_endpoint parse tr" "pub_closed (tsc_pub (hub_trackers ?H2 ! a))"
    "tkv_status (pub_view (tsc_pub (hub_trackers ?H2 ! a))) = StatusStopped" using H1 H2 by (simp_all add: tracker_endpoint_def)
  ultimately show ?thesis using gone by (auto simp: handle_reannounce_tracker_def handle_remove_tracker_def)
qed

theorem tracker_lifecycle_witness:
  "\<exists>a t1 H1 H2 es. handle_add_tracker Delivered (\<lambda>_. None) (Udp ''udp://tracker:80'') (shown_torrent, demo_hub) = (Inr a, (t1, H1), []) \<and>
     handle_trackers (demo_hash, 0) H1 = handle_trackers (demo_hash, 0) demo_hub @ [a] \<and>
     handle_remove_tracker Delivered tiny_env (demo_hash, 0) a (t1, H1) = (Inr (), (shown_torrent, H2), es) \<and>
     handle_trackers (demo_hash, 0) H2 = handle_trackers (demo_hash, 0) demo_hub \<and>
     handle_reannounce_tracker Delivered tiny_env (demo_hash, 0) a (shown_torrent, H2) = (Inl (TrackerGone ''udp''), (shown_torrent, H2), [])"
proof -
  have "Udp ''udp://tracker:80'' \<notin> set (ta_trackers shown_torrent)" "ta_info_hash shown_torrent = demo_hash"
    by (simp_all add: shown_torrent_def tiny_torrent_def)
  moreover have "tracker_handle demo_hash (Udp ''udp://tracker:80'') demo_hub = None" by (simp add: tracker_handle_def demo_hub_def demo_state_def)
  moreover have "env_tracker_accepts tiny_env (Udp ''udp://tracker:80'')" by (simp add: tiny_env_def)
  moreover have "redacted_endpoint (\<lambda>_. None) (Udp ''udp://tracker:80'') = ''udp''" by (simp add: redacted_endpoint_def)
  ultimately show ?thesis
    using tracker_lifecycle [OF demo_reachable, of "Udp ''udp://tracker:80''" shown_torrent "(demo_hash, 0)" tiny_env "\<lambda>_. None" Delivered tiny_env] by fastforce
qed

section \<open>Errors\<close>

text \<open>A message that does not reach the actor changes nothing, whatever the method; a lost reply does not undo what the handler did.\<close>

lemma not_delivered: "ask (NotDelivered reason) operation handler w = (Inl (TorrentFailed ActorCommunicationFailed), w, [])"
  by (simp add: ask_def map_torrent_send_error_def)

lemma reply_lost: "snd (ask (ReplyLost reason) operation handler w) = snd (ask Delivered operation handler w)"
  by (auto simp: ask_def split: prod.split sum.split)

text \<open>
  The host of a URL with an IPv6 address is given in brackets, as the URL standard writes it; the endpoint
  then has two pairs of them.
\<close>

lemma ipv6_endpoint_double_brackets:
  assumes "parse (tracker_uri tr) = Some u" and "url_host u = Some (''['' @ address @ '']'')" and "CHR '':'' \<in> set address"
  shows "\<exists>rest. redacted_endpoint parse tr = url_scheme u @ ''://[['' @ address @ '']]'' @ rest"
  using assms by (auto simp: redacted_endpoint_def)

section \<open>A handle of an earlier connection\<close>

text \<open>
  A handle that outlived its connection drops the next one. When a peer was disconnected and has connected
  again, disconnecting it through the handle of the first connection succeeds: the new connection is removed
  from the swarm and stopped, but the scope that is closed is the old one, and the handle of the new
  connection goes on showing a connected peer.
\<close>

theorem stale_handle_disconnects_new_connection:
  assumes "old < length (hub_peers H)" and "pub_closed (psc_pub (hub_peers H ! old))" and "psc_torrent (hub_peers H ! old) = fst hn"
    and "psc_peer (hub_peers H ! old) = i" and "live_insert_peer addr (Some i) (t, H) = (Inr new, t1, H1)"
  shows "\<exists>t2 H2 es. handle_disconnect_peer env hn old (t1, H1) = (Inr (), (t2, H2), es) \<and> i \<notin> set (ta_peers t2) \<and> KillPeer i \<in> set es \<and>
    pv_connected (pub_view (psc_pub (hub_peers H2 ! new)))"
proof -
  obtain peer where peer: "hub_peers H1 = hub_peers H @ [peer]" "pv_connected (pub_view (psc_pub peer))" "new = length (hub_peers H)"
    using insert_scope [OF assms(5)] by blast
  have t1: "i \<in> set (ta_peers t1)"
    using assms(5) by (auto simp: live_insert_peer_def insert_peer_def Let_def split: prod.splits if_splits)
  obtain t2 es where f: "fill_all_peer_request_windows env (fst (remove_peer i t1)) = (t2, es)" by force
  have "ta_peers t2 = ta_peers (fst (remove_peer i t1))" by (metis f fst_conv peers_fill_all)
  then have p2: "i \<notin> set (ta_peers t2)" using t1 by (simp add: remove_peer_def Let_def)
  let ?H2 = "publish_updated (fst (remove_peer i t1)) (peer_handle_disconnected old H1)"
  have "hub_peers ?H2 = hub_peers H @ [peer]"
    using peer(1) assms(1,2) close_closed [of H1 old] by (simp add: publish_updated_def disconnected_peers nth_append)
  moreover have "handle_disconnect_peer env hn old (t1, H1) = (Inr (), (t2, ?H2), [KillPeer i] @ es)"
    using f t1 peer(1) assms(1,3,4)
    by (simp add: handle_disconnect_peer_def ensure_torrent_identity_def live_disconnect_peer_def remove_peer_def Let_def nth_append)
  ultimately show ?thesis using p2 peer by auto
qed

theorem stale_handle_disconnects_new_connection_witness:
  "\<exists>addr t1 H1 t2 H2 new t3 H3 es. fst (live_disconnect_peer tiny_env demo_peer_id 0 (shown_torrent, demo_hub)) = Inr () \<and>
     fst (snd (live_disconnect_peer tiny_env demo_peer_id 0 (shown_torrent, demo_hub))) = (t1, H1) \<and>
     live_insert_peer addr (Some demo_peer_id) (t1, H1) = (Inr new, t2, H2) \<and>
     handle_disconnect_peer tiny_env (demo_hash, 0) 0 (t2, H2) = (Inr (), (t3, H3), es) \<and> KillPeer demo_peer_id \<in> set es"
proof -
  obtain u where u: "remove_peer demo_peer_id shown_torrent = (u, [KillPeer demo_peer_id], True)" "ta_peers u = []"
    by (auto simp: remove_peer_def shown_torrent_def Let_def)
  obtain t1 es where f: "fill_all_peer_request_windows tiny_env u = (t1, es)" by (cases "fill_all_peer_request_windows tiny_env u")
  have t1: "ta_peers t1 = []" using peers_fill_all [of tiny_env u] f u(2) by simp
  let ?H1 = "publish_updated u (peer_handle_disconnected 0 demo_hub)"
  have d: "live_disconnect_peer tiny_env demo_peer_id 0 (shown_torrent, demo_hub) = (Inr (), (t1, ?H1), [KillPeer demo_peer_id] @ es)"
    using f u(1) by (simp add: live_disconnect_peer_def)
  have h: "hub_peers ?H1 = hub_peers (snd (close_peer 0 demo_hub))" by (simp add: publish_updated_def disconnected_peers)
  have l: "0 < length (hub_peers demo_hub)" by (simp add: demo_hub_def demo_state_def)
  then have c: "0 < length (hub_peers ?H1)" "pub_closed (psc_pub (hub_peers ?H1 ! 0))" "psc_torrent (hub_peers ?H1 ! 0) = demo_hash"
    "psc_peer (hub_peers ?H1 ! 0) = demo_peer_id"
    unfolding h using close_peer_closes(1) [OF l] by (simp_all add: close_peer_eq put_peer_pub_def demo_hub_def demo_state_def)
  obtain new t2 H2 where n: "live_insert_peer \<lparr>ip = V4 [10, 0, 0, 2], port = 6881\<rparr> (Some demo_peer_id) (t1, ?H1) = (Inr new, t2, H2)"
    using t1 by (cases "register_peer_scope (ta_info_hash t1) demo_peer_id (peer_view_connected \<lparr>ip = V4 [10, 0, 0, 2], port = 6881\<rparr> demo_peer_id) ?H1")
      (auto simp: live_insert_peer_def insert_peer_def Let_def)
  from stale_handle_disconnects_new_connection [OF c(1,2) _ c(4) n, of "(demo_hash, 0)" tiny_env] show ?thesis using d n c(3) by fastforce
qed

end
