(* ===== verification/Spec2Isabelle.thy ===== *)
theory Spec2Isabelle
  imports Dht_Transport Peer_Actor Hashes Torrent_Handle
begin

text \<open>
  Verification of \<^verbatim>\<open>libtortillas\<close>, a BitTorrent library in Rust (\<^verbatim>\<open>src/crates/libtortillas/src\<close>; file names
  below are relative to it).

  \<^bold>\<open>The program.\<close> An engine (\<^verbatim>\<open>engine/\<close>) owns one actor per torrent (\<^verbatim>\<open>torrent/\<close>) and a DHT actor (\<^verbatim>\<open>dht/\<close>). A
  torrent owns an actor per connected peer (\<^verbatim>\<open>peer/\<close>, speaking the wire protocol of \<^verbatim>\<open>protocol/\<close>) and an actor
  per tracker (\<^verbatim>\<open>tracker/\<close>). It decides which block to ask from which peer (\<^verbatim>\<open>pieces/piece_scheduler.rs\<close>),
  stores and verifies what arrives (\<^verbatim>\<open>torrent/piece_flow.rs\<close>, \<^verbatim>\<open>pieces/piece_manager.rs\<close>), and whom to unchoke
  (\<^verbatim>\<open>torrent/choking.rs\<close>). Trackers and the DHT tell it of peers. A session is saved and restored through
  snapshots (\<^verbatim>\<open>torrent/snapshot.rs\<close>, \<^verbatim>\<open>engine/snapshot.rs\<close>). Users follow it through live views and event
  streams (\<^verbatim>\<open>live/\<close>).

  \<^bold>\<open>How it is modelled.\<close> An actor is a record with the fields of its struct. A message handler is a function
  from the state to the new state and the messages it sends, in program order, with its reply where it has
  one; errors are values of a sum type, and a panic is an error value or the absence of a next state. Actors
  run one handler at a time, so a run is a sequence of handler calls: reachability is an inductive predicate
  with one rule for creation and one for the handlers. What other actors, the operating system and crates
  answer (is an actor alive, does its mailbox accept a message, clock readings, random numbers, SHA-1,
  bencode, sockets) is an argument of the handler, quantified over in the theorems. Words have the width of
  the source where it matters on the wire; \<^verbatim>\<open>usize\<close> is a natural number and saturation is written out for a
  64-bit target. Hash maps are maps, or association lists where the code iterates over them.

  \<^bold>\<open>Theories.\<close>
  \<^item> \<open>Prelude\<close>, \<open>Codec\<close>: machine types, the parts of the Rust standard library the code uses, and the interface
    of fixed-width binary formats.
  \<^item> \<open>Dht_Id\<close>, \<open>Dht_Compact\<close>, \<open>Dht_Routing\<close>, \<open>Dht_Transaction\<close>, \<open>Dht_Token\<close>, \<open>Dht_Peers\<close>, \<open>Dht_Message\<close>, \<open>Dht_State\<close>,
    \<open>Dht_Lookup\<close>, \<open>Dht_Actor\<close> model the files of \<^verbatim>\<open>dht/\<close> with the same names. Routing tables keep their shape
    and return the nearest contacts; tokens, transactions and the peer store keep their promises about time
    and origin; the iterative lookup ends and leaves no known contact of its shortlist unasked; the actor has background
    tasks only for registered torrents. \<open>Dht_Transport\<close> (\<^verbatim>\<open>dht/transport.rs\<close>, with the receive loop and the bootstrap task
    of \<^verbatim>\<open>dht/actor.rs\<close>) runs queries concurrently: without aborts the pending transactions are those of the waiting
    queries, and aborted queries can fill the table. \<open>Dht_Interfaces\<close> states what the node state needs from table and
    store as locales.
  \<^item> \<open>Metainfo\<close> (\<^verbatim>\<open>metainfo/\<close>, \<^verbatim>\<open>hashes.rs\<close>), \<open>Piece_Manager\<close> (\<^verbatim>\<open>pieces/piece_manager.rs\<close>): the segments of a piece
    are its bytes in the concatenated files, what is written is read back, no path leaves the output directory.
  \<^item> \<open>Piece_Scheduler\<close> (\<^verbatim>\<open>pieces/piece_scheduler.rs\<close>): no block is in flight twice, counters are exact,
    requests are sound and exhaustive, every release frees exactly what it names.
  \<^item> \<open>Torrent_State\<close>, \<open>Choking\<close> (\<^verbatim>\<open>torrent/state.rs\<close>, \<^verbatim>\<open>torrent/choking.rs\<close>): the best peers and a fair optimistic slot.
  \<^item> \<open>Torrent\<close>, \<open>Piece_Flow\<close>, \<open>Torrent_Lifecycle\<close>, \<open>Partial_Blocks\<close> (\<^verbatim>\<open>torrent/actor.rs\<close>, \<^verbatim>\<open>torrent/messages.rs\<close>,
    \<^verbatim>\<open>torrent/piece_flow.rs\<close>, \<^verbatim>\<open>torrent/swarm.rs\<close>, \<^verbatim>\<open>torrent/choking_flow.rs\<close>, \<^verbatim>\<open>torrent/util.rs\<close>): the torrent actor. Every
    claimed piece is stored with its hash, scheduler and bitfield agree in every reachable state, completion
    is announced exactly when the last piece is verified.
  \<^item> \<open>Peer_Messages\<close>, \<open>Peer_Actor\<close> (\<^verbatim>\<open>protocol/messages.rs\<close>, \<^verbatim>\<open>protocol/stream.rs\<close>, \<^verbatim>\<open>peer/actor.rs\<close>, \<^verbatim>\<open>peer/state.rs\<close>,
    \<^verbatim>\<open>peer/info.rs\<close>, \<^verbatim>\<open>peer/supports.rs\<close>): messages survive encoding and any cutting of the stream; blocks are
    served only from verified pieces to unchoked peers and delivered only when asked for. Invariants of the
    handlers are relations between two states and the messages sent, composed through the locales
    \<open>turn_relation\<close> and \<open>wire_relation\<close>.
  \<^item> \<open>Tracker_Base\<close>, \<open>Udp_Tracker\<close>, \<open>Http_Tracker\<close>, \<open>Tracker_Actor\<close> (\<^verbatim>\<open>tracker/\<close>): the trait \<^verbatim>\<open>TrackerBase\<close> is the locale
    \<open>tracker_base\<close>, interpreted for both kinds of tracker and their sum. Requests have the layout of the
    protocols, responses are matched by transaction, peers are reported and counted once, and the next
    announce is scheduled within the configured bounds.
  \<^item> \<open>Snapshot\<close>, \<open>Engine\<close> (\<^verbatim>\<open>torrent/snapshot.rs\<close>, \<^verbatim>\<open>engine/actor.rs\<close>, \<^verbatim>\<open>engine/messages.rs\<close>, \<^verbatim>\<open>engine/snapshot.rs\<close>): restoring a
    valid snapshot gives the state it was taken from, restored pieces are verified against the disk, a failed
    session restore leaves nothing behind, only public torrents are registered with the DHT.

  \<^item> \<open>Texts\<close>, \<open>Peer_Id\<close> (\<^verbatim>\<open>peer/id.rs\<close>): text functions of the standard library, and the classification and display of
    peer identifiers.
  \<^item> \<open>Metrics\<close>, \<open>Live_Stream\<close>, \<open>Live_Hub\<close>, \<open>Live_Mirror\<close> (\<^verbatim>\<open>metrics.rs\<close>, \<^verbatim>\<open>live/\<close>): counters and rates, publishers with a view and
    numbered events, and the tree of scopes of the engine, its torrents, peers and trackers. Listeners read
    every published event once and in order, the engine repeats the stream of every torrent, the removal of
    a torrent closes everything below it.
  \<^item> \<open>Connections\<close> (\<^verbatim>\<open>torrent/swarm.rs\<close>, \<^verbatim>\<open>protocol/stream.rs\<close>): dialling, handshakes and the registration of peers; two clients
    with the same torrent connect, and only valid handshakes add a peer.
  \<^item> \<open>Torrent_Live\<close> (\<^verbatim>\<open>torrent/actor.rs\<close>, \<^verbatim>\<open>torrent/swarm.rs\<close>, \<^verbatim>\<open>torrent/messages.rs\<close>): the live view of a torrent and the handlers that
    connect and disconnect peers together with their scopes; the progress shown is exact.
  \<^item> \<open>Engine_Source\<close>, \<open>Engine_Live\<close> (\<^verbatim>\<open>engine/source.rs\<close>, \<^verbatim>\<open>engine/mod.rs\<close>, \<^verbatim>\<open>engine/actor.rs\<close>, \<^verbatim>\<open>torrent/handle.rs\<close>): where torrents come
    from, and the engine handle over the engine actor and the hub they share. What the engine needs from the
    hub is the locale \<open>handle_registry\<close>. Every managed torrent has a handle as long as operations do not overlap,
    and shutting down ends everything.
  \<^item> \<open>Torrent_Handle\<close> (\<^verbatim>\<open>torrent/handle.rs\<close>, \<^verbatim>\<open>errors.rs\<close>): the handle of a torrent, whose methods ask the actor and may fail to reach it;
    trackers added and removed through it appear and disappear together in the actor and in the live views.
  \<^item> \<open>Hashes\<close> (\<^verbatim>\<open>hashes.rs\<close>): hexadecimal and serialised forms of hashes of any length.

  \<^bold>\<open>Bounds and termination.\<close> No definition runs on fuel (\<open>dht_signals\<close> counts calls of the receive loop). Loops are structural recursion or have a measure: the
  DHT lookup ends because every round asks an address it has not asked before and addresses are finitely
  many, the stream reader because every round consumes input, the UDP announce because it counts the
  configured attempts. The search for a free transaction identifier can run forever when all are taken; it is
  a partial function, shown to return exactly when one is free.

  \<^bold>\<open>Not modelled.\<close> The sockets themselves, the accept loop of the engine and the poll functions of the transports;
  supervision and restart policies of the actor framework; the bencode, hexadecimal, URL and HTTP crates; the progress fraction of
  the metrics and the success rate of tracker statistics, which are floating-point numbers.
\<close>

end
